(* ===== verification/Prelude.thy ===== *)
theory Prelude
  imports Complex_Main "HOL-Library.List_Lexorder"
    "HOL-Library.Option_ord" "HOL-Library.Sublist"
begin

text \<open>
  What every theory of the development shares: the model of Rust's strings, the list and
  option adaptors the code calls (\<open>find\<close>, \<open>find_map\<close>, \<open>retain\<close>, \<open>enumerate\<close>), the integer
  helpers (\<open>div_ceil\<close>, saturating 64-bit arithmetic) and IEEE-754 double rounding over exact
  rationals. The lemmas here are about these adaptors and are used by every component.
\<close>

named_theorems ctx_simps \<open>equations of the message and context accessors\<close>
named_theorems range_intros \<open>facts that bound an eviction range\<close>

section \<open>Strings\<close>

text \<open>
  A Rust \<open>String\<close> or \<open>&str\<close> is the list of its Unicode scalar values (as \<open>int\<close>, so that
  closed terms compute), so
  \<open>s.chars().count()\<close> is \<open>length s\<close>, \<open>s.len()\<close> (bytes) is \<open>utf8_len s\<close>, and \<open>Ord\<close> on
  strings (bytewise, hence by scalar value) is the lexicographic order of
  \<open>HOL-Library.List_Lexorder\<close>. A literal of the source is written \<open>lit ''...''\<close>.
\<close>

type_synonym rstr = "int list"

definition lit :: "string \<Rightarrow> rstr" where
  "lit s = map of_char s"

definition utf8_width :: "int \<Rightarrow> nat" where
  "utf8_width c = (if c < 128 then 1 else if c < 2048 then 2 else if c < 65536 then 3 else 4)"

definition utf8_len :: "rstr \<Rightarrow> nat" where
  "utf8_len s = sum_list (map utf8_width s)"

text \<open>\<open>char::is_whitespace\<close>: the scalar values with the Unicode property \<open>White_Space\<close>.\<close>

definition is_whitespace :: "int \<Rightarrow> bool" where
  "is_whitespace c \<longleftrightarrow> (9 \<le> c \<and> c \<le> 13) \<or> c = 32 \<or> c = 133 \<or> c = 160 \<or> c = 5760 \<or>
     (8192 \<le> c \<and> c \<le> 8202) \<or> c = 8232 \<or> c = 8233 \<or> c = 8239 \<or> c = 8287 \<or> c = 12288"

definition trim_start :: "rstr \<Rightarrow> rstr" where
  "trim_start s = dropWhile is_whitespace s"

definition trim_end :: "rstr \<Rightarrow> rstr" where
  "trim_end s = rev (dropWhile is_whitespace (rev s))"

definition str_trim :: "rstr \<Rightarrow> rstr" where
  "str_trim s = trim_end (trim_start s)"

definition starts_with :: "rstr \<Rightarrow> rstr \<Rightarrow> bool" where
  "starts_with s p \<longleftrightarrow> take (length p) s = p"

definition ends_with :: "rstr \<Rightarrow> rstr \<Rightarrow> bool" where
  "ends_with s p \<longleftrightarrow> length p \<le> length s \<and> drop (length s - length p) s = p"

text \<open>\<open>str::contains\<close> and \<open>str::rfind\<close> (as an index of scalar values).\<close>

fun str_contains :: "rstr \<Rightarrow> rstr \<Rightarrow> bool" where
  "str_contains [] p = (p = [])"
| "str_contains (c # s) p = (starts_with (c # s) p \<or> str_contains s p)"

fun str_rfind :: "rstr \<Rightarrow> rstr \<Rightarrow> nat option" where
  "str_rfind [] p = (if p = [] then Some 0 else None)"
| "str_rfind (c # s) p =
     (case str_rfind s p of
        Some i \<Rightarrow> Some (Suc i)
      | None \<Rightarrow> if starts_with (c # s) p then Some 0 else None)"

lemma str_trim_Nil_iff: "str_trim s = [] \<longleftrightarrow> list_all is_whitespace s"
proof
  assume "str_trim s = []"
  then have "dropWhile is_whitespace (rev (dropWhile is_whitespace s)) = []"
    by (simp add: str_trim_def trim_end_def trim_start_def)
  then have all: "\<forall>c \<in> set (dropWhile is_whitespace s). is_whitespace c"
    by simp
  have "dropWhile is_whitespace s = []"
    using all hd_dropWhile [of is_whitespace s] hd_in_set by blast
  then show "list_all is_whitespace s"
    by (simp add: list_all_iff)
next
  assume "list_all is_whitespace s"
  then have "dropWhile is_whitespace s = []"
    by (simp add: list_all_iff)
  then show "str_trim s = []"
    by (simp add: str_trim_def trim_end_def trim_start_def del: dropWhile_eq_Nil_conv)
qed

lemma utf8_len_append [simp]: "utf8_len (s @ t) = utf8_len s + utf8_len t"
  by (simp add: utf8_len_def)

lemma length_le_utf8_len: "length s \<le> utf8_len s"
  by (induction s) (auto simp: utf8_len_def utf8_width_def)

lemma starts_with_prefix: "starts_with s p \<longleftrightarrow> prefix p s"
  by (metis starts_with_def append_eq_conv_conj prefix_def)

lemma str_contains_sublist: "str_contains s p \<longleftrightarrow> sublist p s"
proof (induction s)
  case Nil
  then show ?case by simp
next
  case (Cons c s)
  then show ?case by (simp add: starts_with_prefix sublist_Cons_right)
qed

text \<open>\<open>str::find\<close>: the leftmost occurrence, and what is known of it.\<close>

fun str_find :: "rstr \<Rightarrow> rstr \<Rightarrow> nat option" where
  "str_find [] p = (if p = [] then Some 0 else None)"
| "str_find (c # s) p = (if starts_with (c # s) p then Some 0 else map_option Suc (str_find s p))"

lemma str_find_SomeD:
  assumes "str_find s p = Some i"
  shows "i + length p \<le> length s" "take (length p) (drop i s) = p"
    "\<And>j. j < i \<Longrightarrow> take (length p) (drop j s) \<noteq> p"
proof -
  have "i + length p \<le> length s \<and> take (length p) (drop i s) = p \<and> (\<forall>j<i. take (length p) (drop j s) \<noteq> p)"
    using assms
  proof (induction s p arbitrary: i rule: str_find.induct)
    case (2 c s p)
    show ?case
    proof (cases "starts_with (c # s) p")
      case True
      then show ?thesis using 2(2) by (auto simp: starts_with_def dest: arg_cong [where f = length])
    next
      case False
      then obtain k where "i = Suc k" "str_find s p = Some k" using 2(2) by auto
      moreover have "take (length p) (drop j (c # s)) \<noteq> p" if "j < Suc k" for j
        using that False 2(1) [OF False \<open>str_find s p = Some k\<close>] by (cases j) (auto simp: starts_with_def)
      ultimately show ?thesis using 2(1) [OF False] by auto
    qed
  qed (auto split: if_splits)
  then show "i + length p \<le> length s" "take (length p) (drop i s) = p"
    "\<And>j. j < i \<Longrightarrow> take (length p) (drop j s) \<noteq> p" by auto
qed

lemma str_find_None_iff: "str_find s p = None \<longleftrightarrow> \<not> str_contains s p"
  by (induction s p rule: str_find.induct) auto

text \<open>An occurrence cuts the text in three.\<close>

lemma str_find_split:
  assumes "str_find s p = Some i"
  shows "s = take i s @ p @ drop (i + length p) s"
proof -
  have "drop i s = p @ drop (length p) (drop i s)"
    using str_find_SomeD(2) [OF assms] by (metis append_take_drop_id)
  then show ?thesis by (metis append_take_drop_id drop_drop add.commute)
qed

lemma str_find_least:
  assumes "s = a @ p @ b"
  obtains i where "str_find s p = Some i" "i \<le> length a"
proof -
  have "str_contains s p" using assms by (auto simp: str_contains_sublist sublist_def)
  then obtain i where i: "str_find s p = Some i" using str_find_None_iff by (metis option.exhaust)
  moreover have "i \<le> length a"
    using str_find_SomeD(3) [OF i, of "length a"] assms by (auto simp: not_le [symmetric])
  ultimately show ?thesis by (rule that)
qed

lemma str_find_Nil [simp]: "str_find s [] = Some 0"
  by (cases s) (simp_all add: starts_with_def)

text \<open>
  \<open>str::to_lowercase\<close>, as far as a comparison with ASCII text can tell. Two scalar values outside
  ASCII have ASCII in their lower case: U+212A (the Kelvin sign, \<open>k\<close>) and U+0130 (\<open>i\<close> followed by
  U+0307). The lower case of every other one has none, so it may stay as it is.
\<close>

definition char_lower :: "int \<Rightarrow> rstr" where
  "char_lower c =
     (if 65 \<le> c \<and> c \<le> 90 then [c + 32]
      else if c = 8490 then [107]
      else if c = 304 then [105, 775]
      else [c])"

definition to_lowercase :: "rstr \<Rightarrow> rstr" where
  "to_lowercase s = concat (map char_lower s)"

text \<open>\<open>str::eq_ignore_ascii_case\<close> folds the ASCII letters only.\<close>

definition ascii_lower :: "int \<Rightarrow> int" where
  "ascii_lower c = (if 65 \<le> c \<and> c \<le> 90 then c + 32 else c)"

definition eq_ignore_ascii_case :: "rstr \<Rightarrow> rstr \<Rightarrow> bool" where
  "eq_ignore_ascii_case s t \<longleftrightarrow> map ascii_lower s = map ascii_lower t"

text \<open>\<open>usize\<close> written in decimal by \<open>format!\<close>.\<close>

fun decimal :: "nat \<Rightarrow> rstr" where
  "decimal n = (if n < 10 then [48 + int n] else decimal (n div 10) @ [48 + int (n mod 10)])"

declare decimal.simps [simp del]

lemma decimal_not_Nil [simp]: "decimal n \<noteq> []" "[] \<noteq> decimal n"
  by (subst decimal.simps, simp)+

lemma decimal_eq_iff [simp]: "decimal m = decimal n \<longleftrightarrow> m = n"
proof (induction m arbitrary: n rule: decimal.induct)
  case (1 m)
  show ?case
  proof (cases "m < 10 \<or> n < 10")
    case True
    then show ?thesis
      by (auto simp: decimal.simps [of m] decimal.simps [of n])
  next
    case False
    then have "decimal m = decimal n \<longleftrightarrow> m div 10 = n div 10 \<and> m mod 10 = n mod 10"
      using 1 by (simp add: decimal.simps [of m] decimal.simps [of n])
    also have "\<dots> \<longleftrightarrow> m = n"
      by (metis div_mult_mod_eq)
    finally show ?thesis .
  qed
qed

text \<open>
  \<open>str::lines\<close>, \<open>str::split_once\<close> and \<open>str::split_whitespace\<close>. A line ends with a line feed,
  which may follow a carriage return; a final empty line is not reported.
\<close>

fun split_on :: "int \<Rightarrow> rstr \<Rightarrow> rstr list" where
  "split_on d [] = [[]]"
| "split_on d (c # s) =
     (if c = d then [] # split_on d s
      else case split_on d s of x # xs \<Rightarrow> (c # x) # xs | [] \<Rightarrow> [[c]])"

definition strip_cr :: "rstr \<Rightarrow> rstr" where
  "strip_cr s = (if s \<noteq> [] \<and> last s = 13 then butlast s else s)"

definition str_lines :: "rstr \<Rightarrow> rstr list" where
  "str_lines s =
     (let ps = split_on 10 s
      in map strip_cr (butlast ps) @ (if last ps = [] then [] else [last ps]))"

fun split_once :: "rstr \<Rightarrow> rstr \<Rightarrow> (rstr \<times> rstr) option" where
  "split_once p [] = (if p = [] then Some ([], []) else None)"
| "split_once p (c # s) =
     (if starts_with (c # s) p then Some ([], drop (length p) (c # s))
      else map_option (\<lambda>(a, b). (c # a, b)) (split_once p s))"

fun words_from :: "rstr \<Rightarrow> rstr \<Rightarrow> rstr list" where
  "words_from w [] = (if w = [] then [] else [w])"
| "words_from w (c # s) =
     (if is_whitespace c then (if w = [] then words_from [] s else w # words_from [] s)
      else words_from (w @ [c]) s)"

definition split_whitespace :: "rstr \<Rightarrow> rstr list" where
  "split_whitespace s = words_from [] s"

text \<open>\<open>[S]::join\<close>, as \<open>itertools::join\<close>.\<close>

fun join :: "rstr \<Rightarrow> rstr list \<Rightarrow> rstr" where
  "join sep [] = []"
| "join sep [x] = x"
| "join sep (x # y # xs) = x @ sep @ join sep (y # xs)"

text \<open>
  The crate \<open>glob\<close> is a parameter wherever it is used: \<open>Pattern::new\<close>, which may refuse a
  pattern (\<open>None\<close>), followed by \<open>matches\<close>.
\<close>

type_synonym globber = "rstr \<Rightarrow> (rstr \<Rightarrow> bool) option"

section \<open>Iterator adaptors\<close>

text \<open>\<open>iter().enumerate().find(p).map(|(i, _)| i)\<close>, also \<open>Iterator::position\<close>.\<close>

fun find_index :: "('a \<Rightarrow> bool) \<Rightarrow> 'a list \<Rightarrow> nat option" where
  "find_index P [] = None"
| "find_index P (x # xs) = (if P x then Some 0 else map_option Suc (find_index P xs))"

text \<open>\<open>Iterator::find_map\<close>.\<close>

fun find_map :: "('a \<Rightarrow> 'b option) \<Rightarrow> 'a list \<Rightarrow> 'b option" where
  "find_map f [] = None"
| "find_map f (x # xs) = (case f x of Some y \<Rightarrow> Some y | None \<Rightarrow> find_map f xs)"

text \<open>\<open>slice.get(i)\<close> and \<open>slice.get(a..=b)\<close>: \<open>None\<close> out of range.\<close>

definition get_at :: "'a list \<Rightarrow> nat \<Rightarrow> 'a option" where
  "get_at xs i = (if i < length xs then Some (xs ! i) else None)"

definition get_range :: "'a list \<Rightarrow> nat \<Rightarrow> nat \<Rightarrow> 'a list option" where
  "get_range xs a b = (if a \<le> b \<and> b \<le> length xs then Some (take (b - a) (drop a xs)) else None)"

definition get_range_incl :: "'a list \<Rightarrow> nat \<Rightarrow> nat \<Rightarrow> 'a list option" where
  "get_range_incl xs a b = get_range xs a (Suc b)"

lemma find_index_SomeD:
  "find_index P xs = Some i \<Longrightarrow> i < length xs \<and> P (xs ! i) \<and> (\<forall>j < i. \<not> P (xs ! j))"
proof (induction xs arbitrary: i)
  case Nil
  then show ?case by simp
next
  case (Cons x xs)
  then show ?case
    by (auto split: if_splits simp: nth_Cons split: nat.splits)
qed

lemma find_index_None_iff: "find_index P xs = None \<longleftrightarrow> (\<forall>x \<in> set xs. \<not> P x)"
  by (induction xs) auto

lemma find_map_append:
  "find_map f (xs @ ys) = (case find_map f xs of Some y \<Rightarrow> Some y | None \<Rightarrow> find_map f ys)"
  by (induction xs) (auto split: option.splits)

lemma find_map_SomeD: "find_map f xs = Some y \<Longrightarrow> \<exists>x \<in> set xs. f x = Some y"
  by (induction xs) (auto split: option.splits)

lemma find_map_None_iff: "find_map f xs = None \<longleftrightarrow> (\<forall>x \<in> set xs. f x = None)"
  by (induction xs) (auto split: option.splits)

lemma find_map_cong:
  "(\<And>x. x \<in> set xs \<Longrightarrow> f x = g x) \<Longrightarrow> find_map f xs = find_map g xs"
  by (induction xs) (auto split: option.splits)

lemma Some_eq_map_option: "Some b = map_option f x \<longleftrightarrow> (\<exists>a. x = Some a \<and> b = f a)"
  by (cases x) auto

lemma get_at_Some_iff [simp]: "get_at xs i = Some x \<longleftrightarrow> i < length xs \<and> xs ! i = x"
  by (auto simp: get_at_def)

lemma get_at_None_iff [simp]: "get_at xs i = None \<longleftrightarrow> length xs \<le> i"
  by (auto simp: get_at_def)

section \<open>Integers\<close>

text \<open>\<open>usize::div_ceil\<close>.\<close>

definition div_ceil :: "nat \<Rightarrow> nat \<Rightarrow> nat" where
  "div_ceil a b = (let q = a div b; r = a mod b in if r > 0 then q + 1 else q)"

lemma div_ceil_mono: "a \<le> b \<Longrightarrow> div_ceil a c \<le> div_ceil b c"
proof (cases "c = 0")
  case True
  then show "a \<le> b \<Longrightarrow> ?thesis" by (simp add: div_ceil_def Let_def)
next
  case False
  assume ab: "a \<le> b"
  have le: "a div c \<le> b div c" using ab by (rule div_le_mono)
  show ?thesis
  proof (cases "a div c = b div c")
    case True
    have "a mod c \<le> b mod c"
      using ab True by (metis add_le_cancel_left div_mult_mod_eq)
    with True show ?thesis by (auto simp: div_ceil_def Let_def)
  next
    case False
    with le have "a div c + 1 \<le> b div c" by simp
    then show ?thesis by (auto simp: div_ceil_def Let_def)
  qed
qed

text \<open>
  \<open>i64\<close> and \<open>u64\<close> values are integers kept inside their range; saturating operations clamp,
  a plain operation whose result leaves the range is the overflow panic (debug) or wrap
  (release) of the source and is bounded by a lemma where the code uses one.
\<close>

definition i64_min :: int where "i64_min = - (2 ^ 63)"
definition i64_max :: int where "i64_max = 2 ^ 63 - 1"
definition u64_max :: int where "u64_max = 2 ^ 64 - 1"

definition sat_i64 :: "int \<Rightarrow> int" where
  "sat_i64 x = max i64_min (min i64_max x)"

definition sat_mul_u64 :: "int \<Rightarrow> int \<Rightarrow> int" where
  "sat_mul_u64 a b = min u64_max (a * b)"

text \<open>\<open>x as i64\<close> of a wider integer keeps the low 64 bits, read in two's complement.\<close>

definition wrap_i64 :: "int \<Rightarrow> int" where
  "wrap_i64 x = (x + 2 ^ 63) mod 2 ^ 64 - 2 ^ 63"

lemma sat_i64_range: "i64_min \<le> sat_i64 x \<and> sat_i64 x \<le> i64_max"
  by (simp add: sat_i64_def i64_min_def i64_max_def)

lemma sat_i64_id: "i64_min \<le> x \<Longrightarrow> x \<le> i64_max \<Longrightarrow> sat_i64 x = x"
  by (simp add: sat_i64_def)

lemma sat_i64_mono: "x \<le> y \<Longrightarrow> sat_i64 x \<le> sat_i64 y"
  by (auto simp: sat_i64_def)

lemma wrap_i64_id: "i64_min \<le> x \<Longrightarrow> x \<le> i64_max \<Longrightarrow> wrap_i64 x = x"
  by (simp add: wrap_i64_def i64_min_def i64_max_def)

section \<open>IEEE-754 doubles\<close>

text \<open>
  A finite \<open>f64\<close> is the rational number it denotes. An arithmetic operation of the source is
  the exact rational operation followed by \<open>f64_round\<close>, round-to-nearest, ties to even, with
  a 53-bit significand. The values of this program lie between 2^-200 and 2^200 in absolute
  value, so subnormals, infinities and NaN are outside the model (the configuration's
  deserialisers refuse a percentage outside [0, 1], NaN included).
\<close>

definition rat_pow2 :: "int \<Rightarrow> rat" where
  "rat_pow2 e = (if 0 \<le> e then 2 ^ nat e else 1 / 2 ^ nat (- e))"

fun bit_length :: "int \<Rightarrow> int" where
  "bit_length n = (if n \<le> 0 then 0 else 1 + bit_length (n div 2))"

declare bit_length.simps [simp del]

definition rat_ilog2 :: "rat \<Rightarrow> int" where
  "rat_ilog2 x =
     (let (p, q) = quotient_of x;
          e = bit_length p - bit_length q
      in if rat_pow2 e \<le> x then e else e - 1)"

definition round_half_even :: "rat \<Rightarrow> int" where
  "round_half_even x =
     (let f = \<lfloor>x\<rfloor>; d = x - of_int f
      in if d < 1 / 2 then f else if 1 / 2 < d then f + 1 else if even f then f else f + 1)"

definition f64_round :: "rat \<Rightarrow> rat" where
  "f64_round x =
     (if x = 0 then 0
      else let e = rat_ilog2 \<bar>x\<bar> - 52
           in sgn x * of_int (round_half_even (\<bar>x\<bar> / rat_pow2 e)) * rat_pow2 e)"

definition f64_of_usize :: "nat \<Rightarrow> rat" where
  "f64_of_usize n = f64_round (of_nat n)"

definition f64_mul :: "rat \<Rightarrow> rat \<Rightarrow> rat" where
  "f64_mul a b = f64_round (a * b)"

definition f64_div :: "rat \<Rightarrow> rat \<Rightarrow> rat" where
  "f64_div a b = f64_round (a / b)"

definition f64_sub :: "rat \<Rightarrow> rat \<Rightarrow> rat" where
  "f64_sub a b = f64_round (a - b)"

definition f64_add :: "rat \<Rightarrow> rat \<Rightarrow> rat" where
  "f64_add a b = f64_round (a + b)"

text \<open>\<open>x as f32\<close>: round to nearest, ties to even, with a 24-bit significand.\<close>

definition f32_round :: "rat \<Rightarrow> rat" where
  "f32_round x =
     (if x = 0 then 0
      else let e = rat_ilog2 \<bar>x\<bar> - 23
           in sgn x * of_int (round_half_even (\<bar>x\<bar> / rat_pow2 e)) * rat_pow2 e)"

text \<open>\<open>x.ceil() as usize\<close> and \<open>x.floor() as usize\<close>: the cast saturates at both ends.\<close>

definition f64_ceil_usize :: "rat \<Rightarrow> nat" where
  "f64_ceil_usize x = nat (max 0 (min u64_max \<lceil>x\<rceil>))"

definition f64_floor_usize :: "rat \<Rightarrow> nat" where
  "f64_floor_usize x = nat (max 0 (min u64_max \<lfloor>x\<rfloor>))"

lemma rat_pow2_pos [simp]: "0 < rat_pow2 e"
  by (simp add: rat_pow2_def)

lemma round_half_even_nonneg: "0 \<le> x \<Longrightarrow> 0 \<le> round_half_even x"
  by (auto simp: round_half_even_def Let_def)

lemma f64_round_nonneg: "0 \<le> x \<Longrightarrow> 0 \<le> f64_round x"
  by (auto simp: f64_round_def Let_def sgn_if less_imp_le
      intro!: mult_nonneg_nonneg [OF _ less_imp_le [OF rat_pow2_pos]] round_half_even_nonneg
      divide_nonneg_pos)

text \<open>
  The bound the callers need: rounding does not pass an integer below 2^53. For \<open>x < 2^53\<close> the
  unit in the last place is at most 1, so the integer is a multiple of it.
\<close>

lemma bit_length_bounds: "0 < n \<Longrightarrow> 0 < bit_length n \<and> 2 ^ nat (bit_length n - 1) \<le> n \<and> n < 2 ^ nat (bit_length n)"
proof (induction n rule: bit_length.induct)
  case (1 n)
  show ?case
  proof (cases "n = 1")
    case True
    then show ?thesis by (simp add: bit_length.simps)
  next
    case False
    with 1 have ih: "0 < bit_length (n div 2)" "2 ^ nat (bit_length (n div 2) - 1) \<le> n div 2"
      "n div 2 < 2 ^ nat (bit_length (n div 2))" by auto
    have bl: "bit_length n = 1 + bit_length (n div 2)"
      using 1 by (simp add: bit_length.simps [of n])
    have n1: "nat (bit_length n - 1) = Suc (nat (bit_length (n div 2) - 1))"
      and n2: "nat (bit_length n) = Suc (nat (bit_length (n div 2)))"
      using ih(1) bl by linarith+
    show ?thesis
      using ih bl unfolding n1 n2 by simp linarith
  qed
qed

lemma rat_pow2_add: "rat_pow2 (a + b) = rat_pow2 a * rat_pow2 b"
proof -
  have *: "rat_pow2 e = 2 powi e" for e
    by (cases "0 \<le> e") (simp_all add: rat_pow2_def power_int_def inverse_eq_divide power_divide)
  show ?thesis
    unfolding * by (simp add: power_int_add)
qed

lemma rat_pow2_nat: "0 \<le> e \<Longrightarrow> rat_pow2 e = of_int (2 ^ nat e)"
  by (simp add: rat_pow2_def)

lemma rat_ilog2_lower:
  assumes "0 < x"
  shows "rat_pow2 (rat_ilog2 x) \<le> x"
proof -
  obtain p q where pq: "quotient_of x = (p, q)" by fastforce
  have q: "0 < q" using quotient_of_denom_pos [OF pq] .
  have x: "x = of_int p / of_int q" using quotient_of_div [OF pq] .
  with assms q have p: "0 < p" by (simp add: zero_less_divide_iff)
  let ?e = "bit_length p - bit_length q"
  have "rat_pow2 (?e - 1) * rat_pow2 (bit_length q) = rat_pow2 (bit_length p - 1)"
    by (simp flip: rat_pow2_add)
  also have "\<dots> \<le> of_int p"
    using bit_length_bounds [OF p] by (simp add: rat_pow2_nat flip: of_int_power)
  finally have lower: "rat_pow2 (?e - 1) * rat_pow2 (bit_length q) \<le> of_int p" .
  have "of_int q \<le> rat_pow2 (bit_length q)"
    using bit_length_bounds [OF q] by (simp add: rat_pow2_nat flip: of_int_power)
  then have "rat_pow2 (?e - 1) * of_int q \<le> rat_pow2 (?e - 1) * rat_pow2 (bit_length q)"
    by (intro mult_left_mono) (simp_all add: less_imp_le)
  from this lower have "rat_pow2 (?e - 1) * of_int q \<le> of_int p"
    by (rule order_trans)
  then have "rat_pow2 (?e - 1) \<le> x"
    using q x by (simp add: pos_le_divide_eq)
  then show ?thesis
    by (simp add: rat_ilog2_def pq Let_def)
qed

lemma rat_pow2_mono: "a \<le> b \<Longrightarrow> rat_pow2 a \<le> rat_pow2 b"
proof -
  assume "a \<le> b"
  then have "1 \<le> rat_pow2 (b - a)" by (simp add: rat_pow2_def)
  then have "rat_pow2 a * 1 \<le> rat_pow2 a * rat_pow2 (b - a)"
    by (intro mult_left_mono) (simp_all add: less_imp_le)
  then show ?thesis by (simp flip: rat_pow2_add)
qed

lemma round_half_even_le: "x \<le> of_int m \<Longrightarrow> round_half_even x \<le> m"
proof -
  assume le: "x \<le> of_int m"
  show ?thesis
  proof (cases "\<lfloor>x\<rfloor> = m")
    case True
    with le have "x = of_int m" by (metis antisym of_int_floor_le)
    then show ?thesis by (simp add: round_half_even_def)
  next
    case False
    have "\<lfloor>x\<rfloor> \<le> m" using le floor_mono [of x "of_int m"] by simp
    with False have "\<lfloor>x\<rfloor> + 1 \<le> m" by simp
    then show ?thesis by (auto simp: round_half_even_def Let_def)
  qed
qed

lemma f64_round_le_int:
  assumes "0 \<le> x" "x \<le> of_int n" "n < 2 ^ 53"
  shows "f64_round x \<le> of_int n"
proof (cases "x = 0")
  case True
  then show ?thesis using assms by (simp add: f64_round_def)
next
  case False
  with assms have x: "0 < x" by simp
  let ?e = "rat_ilog2 x - 52"
  have e: "?e \<le> 0"
  proof (rule ccontr)
    assume "\<not> ?e \<le> 0"
    then have "rat_pow2 53 \<le> rat_pow2 (rat_ilog2 x)" by (intro rat_pow2_mono) simp
    also have "\<dots> \<le> x" using x by (rule rat_ilog2_lower)
    also have "\<dots> \<le> of_int n" by (rule assms(2))
    also have "\<dots> < of_int (2 ^ 53)" using assms(3) by (simp only: of_int_less_iff)
    finally show False by (simp add: rat_pow2_def)
  qed
  let ?k = "2 ^ nat (- ?e) :: int"
  have pe: "rat_pow2 ?e * of_int ?k = 1"
    using e by (auto simp: rat_pow2_def)
  have "x / rat_pow2 ?e = x * of_int ?k"
    using pe less_imp_neq [OF rat_pow2_pos [of ?e]]
    by (metis mult.assoc mult.commute mult.right_neutral nonzero_mult_div_cancel_left)
  also have "\<dots> \<le> of_int (n * ?k)"
    using assms(2) by (simp add: mult_right_mono)
  finally have "round_half_even (x / rat_pow2 ?e) \<le> n * ?k"
    by (rule round_half_even_le)
  then have "of_int (round_half_even (x / rat_pow2 ?e)) * rat_pow2 ?e \<le> of_int (n * ?k) * rat_pow2 ?e"
    by (intro mult_right_mono) (simp_all only: of_int_le_iff less_imp_le [OF rat_pow2_pos])
  also have "\<dots> = of_int n"
    using pe by (simp add: mult.assoc mult.commute)
  finally show ?thesis
    using x by (simp add: f64_round_def Let_def)
qed

text \<open>Rounding is monotone: the exponent is, and a rounded significand lies in [2^52, 2^53].\<close>

lemma rat_ilog2_upper:
  assumes "0 < x"
  shows "x < rat_pow2 (rat_ilog2 x + 1)"
proof -
  obtain p q where pq: "quotient_of x = (p, q)" by fastforce
  have q: "0 < q" using quotient_of_denom_pos [OF pq] .
  have x: "x = of_int p / of_int q" using quotient_of_div [OF pq] .
  with assms q have p: "0 < p" by (simp add: zero_less_divide_iff)
  let ?e = "bit_length p - bit_length q"
  have "of_int p < rat_pow2 (bit_length p)"
    using bit_length_bounds [OF p] by (simp add: rat_pow2_nat flip: of_int_power)
  also have "rat_pow2 (bit_length p) = rat_pow2 (?e + 1) * rat_pow2 (bit_length q - 1)"
    by (simp flip: rat_pow2_add)
  also have "\<dots> \<le> rat_pow2 (?e + 1) * of_int q"
    using bit_length_bounds [OF q]
    by (intro mult_left_mono) (simp_all add: rat_pow2_nat less_imp_le flip: of_int_power)
  finally have "x < rat_pow2 (?e + 1)"
    using q x by (simp add: pos_divide_less_eq)
  then show ?thesis
    by (simp add: rat_ilog2_def pq Let_def)
qed

lemma rat_pow2_less_cancel: "rat_pow2 a < rat_pow2 b \<Longrightarrow> a < b"
  by (meson linorder_not_le rat_pow2_mono)

lemma rat_ilog2_mono: "0 < x \<Longrightarrow> x \<le> y \<Longrightarrow> rat_ilog2 x \<le> rat_ilog2 y"
  using rat_ilog2_lower [of x] rat_ilog2_upper [of y] rat_pow2_less_cancel [of "rat_ilog2 x" "rat_ilog2 y + 1"]
  by fastforce

lemma round_half_even_of_int [simp]: "round_half_even (of_int m) = m"
  by (simp add: round_half_even_def)

lemma round_half_even_mono:
  assumes "x \<le> y"
  shows "round_half_even x \<le> round_half_even y"
proof (cases "\<lfloor>x\<rfloor> = \<lfloor>y\<rfloor>")
  case True
  with assms show ?thesis by (auto simp: round_half_even_def Let_def)
next
  case False
  with assms have "\<lfloor>x\<rfloor> + 1 \<le> \<lfloor>y\<rfloor>" using floor_mono [OF assms] by linarith
  then show ?thesis by (auto simp: round_half_even_def Let_def)
qed

lemma f64_round_pos: "0 < x \<Longrightarrow> f64_round x = of_int (round_half_even (x / rat_pow2 (rat_ilog2 x - 52))) * rat_pow2 (rat_ilog2 x - 52)"
  by (simp add: f64_round_def Let_def)

lemma significand_bounds:
  assumes "0 < x"
  shows "rat_pow2 (rat_ilog2 x) \<le> f64_round x" "f64_round x \<le> rat_pow2 (rat_ilog2 x + 1)"
proof -
  let ?e = "rat_ilog2 x - 52"
  have split: "rat_pow2 (rat_ilog2 x) = of_int (2 ^ 52) * rat_pow2 ?e"
    "rat_pow2 (rat_ilog2 x + 1) = of_int (2 ^ 53) * rat_pow2 ?e"
    using rat_pow2_add [of 52 ?e] rat_pow2_add [of 53 ?e] by (simp_all add: rat_pow2_def algebra_simps)
  have "of_int (2 ^ 52) \<le> x / rat_pow2 ?e" "x / rat_pow2 ?e \<le> of_int (2 ^ 53)"
    using rat_ilog2_lower [OF assms] less_imp_le [OF rat_ilog2_upper [OF assms]]
    unfolding split by (simp_all only: pos_le_divide_eq pos_divide_le_eq rat_pow2_pos)
  then have "2 ^ 52 \<le> round_half_even (x / rat_pow2 ?e)" "round_half_even (x / rat_pow2 ?e) \<le> 2 ^ 53"
    using round_half_even_mono round_half_even_of_int by metis+
  then show "rat_pow2 (rat_ilog2 x) \<le> f64_round x" "f64_round x \<le> rat_pow2 (rat_ilog2 x + 1)"
    unfolding split f64_round_pos [OF assms]
    by (intro mult_right_mono; simp only: of_int_le_iff less_imp_le [OF rat_pow2_pos])+
qed

lemma f64_round_mono_pos:
  assumes "0 < x" "x \<le> y"
  shows "f64_round x \<le> f64_round y"
proof (cases "rat_ilog2 x = rat_ilog2 y")
  case True
  have "x / rat_pow2 (rat_ilog2 y - 52) \<le> y / rat_pow2 (rat_ilog2 y - 52)"
    using assms(2) by (simp add: divide_right_mono less_imp_le)
  then have "round_half_even (x / rat_pow2 (rat_ilog2 y - 52)) \<le> round_half_even (y / rat_pow2 (rat_ilog2 y - 52))"
    by (rule round_half_even_mono)
  then show ?thesis
    using assms True by (simp add: f64_round_pos mult_right_mono less_imp_le)
next
  case False
  with rat_ilog2_mono [OF assms] have "rat_ilog2 x + 1 \<le> rat_ilog2 y" by simp
  then have "rat_pow2 (rat_ilog2 x + 1) \<le> rat_pow2 (rat_ilog2 y)" by (rule rat_pow2_mono)
  with significand_bounds(2) [OF assms(1)] significand_bounds(1) [of y] assms show ?thesis
    by linarith
qed

lemma f64_round_minus: "f64_round (- x) = - f64_round x"
  by (simp add: f64_round_def Let_def)

lemma f64_round_mono: "x \<le> y \<Longrightarrow> f64_round x \<le> f64_round y"
proof -
  assume le: "x \<le> y"
  consider "0 < x" | "x \<le> 0" "0 \<le> y" | "y < 0" by linarith
  then show ?thesis
  proof cases
    case 1
    then show ?thesis using le by (rule f64_round_mono_pos)
  next
    case 2
    then have "0 \<le> f64_round (- x)" "0 \<le> f64_round y" by (simp_all add: f64_round_nonneg)
    then show ?thesis by (simp add: f64_round_minus)
  next
    case 3
    then show ?thesis using f64_round_mono_pos [of "- y" "- x"] le by (simp add: f64_round_minus)
  qed
qed

end
