(* ===== verification/Messages.thy ===== *)
theory Messages
  imports Prelude
begin

text \<open>
  The conversation data model of \<open>forge_domain\<close>: tool values, outputs, results and calls
  (\<open>tools/result.rs\<close>, \<open>tools/call/tool_call.rs\<close>, \<open>tools/call/args.rs\<close>), text messages, message
  entries, token counts, usage (\<open>context.rs\<close>, \<open>message.rs\<close>) and the operations of \<open>Context\<close>.
  The type variable \<open>'v\<close> stands for \<open>serde_json::Value\<close> (and for \<open>schemars::Schema\<close>, which wraps
  it); operations of that crate are arguments. The invariant \<open>paired\<close> says that every assistant
  message with tool calls is followed by exactly the results of those calls, in order.
\<close>

section \<open>Tool values, outputs, calls and results\<close>

record image =
  img_url :: rstr
  img_mime_type :: rstr

datatype tool_value = TVText rstr | TVAI rstr rstr | TVImage image | TVEmpty

record tool_output =
  to_is_error :: bool
  to_values :: "tool_value list"

datatype 'v tool_args = Unparsed rstr | Parsed 'v

record 'v tool_call_full =
  tc_name :: rstr
  tc_call_id :: "rstr option"
  tc_arguments :: "'v tool_args"
  tc_thought_signature :: "rstr option"

record tool_result =
  tr_name :: rstr
  tr_call_id :: "rstr option"
  tr_output :: tool_output

fun tv_as_str :: "tool_value \<Rightarrow> rstr option" where
  "tv_as_str (TVText t) = Some t"
| "tv_as_str (TVImage _) = None"
| "tv_as_str TVEmpty = None"
| "tv_as_str (TVAI v _) = Some v"

definition output_default :: tool_output where
  "output_default = \<lparr>to_is_error = False, to_values = []\<rparr>"

definition output_text :: "rstr \<Rightarrow> tool_output" where
  "output_text t = \<lparr>to_is_error = False, to_values = [TVText t]\<rparr>"

definition output_ai :: "rstr \<Rightarrow> rstr \<Rightarrow> tool_output" where
  "output_ai cid t = \<lparr>to_is_error = False, to_values = [TVAI t cid]\<rparr>"

definition output_image :: "image \<Rightarrow> tool_output" where
  "output_image im = \<lparr>to_is_error = False, to_values = [TVImage im]\<rparr>"

definition output_combine_mut :: "tool_output \<Rightarrow> tool_output \<Rightarrow> tool_output" where
  "output_combine_mut self v = self\<lparr>to_values := to_values self @ to_values v\<rparr>"

definition output_combine :: "tool_output \<Rightarrow> tool_output \<Rightarrow> tool_output" where
  "output_combine self v =
     \<lparr>to_is_error = to_is_error self \<or> to_is_error v,
      to_values = to_values self @ to_values v\<rparr>"

definition output_from_iter :: "tool_output list \<Rightarrow> tool_output" where
  "output_from_iter outs = foldl output_combine output_default outs"

definition output_as_str :: "tool_output \<Rightarrow> rstr option" where
  "output_as_str out = find_map tv_as_str (to_values out)"

definition result_new :: "rstr \<Rightarrow> tool_result" where
  "result_new n = \<lparr>tr_name = n, tr_call_id = None, tr_output = output_default\<rparr>"

definition result_success :: "tool_result \<Rightarrow> rstr \<Rightarrow> tool_result" where
  "result_success r t = r\<lparr>tr_output := output_text t\<rparr>"

definition result_is_error :: "tool_result \<Rightarrow> bool" where
  "result_is_error r = to_is_error (tr_output r)"

definition result_from_call :: "'v tool_call_full \<Rightarrow> tool_result" where
  "result_from_call c =
     \<lparr>tr_name = tc_name c, tr_call_id = tc_call_id c, tr_output = output_default\<rparr>"

text \<open>\<open>Value::to_string\<close> is serde_json's, an argument.\<close>

fun args_into_string :: "('v \<Rightarrow> rstr) \<Rightarrow> 'v tool_args \<Rightarrow> rstr" where
  "args_into_string to_string (Unparsed s) = s"
| "args_into_string to_string (Parsed v) = to_string v"

definition args_from_json :: "rstr \<Rightarrow> 'v tool_args" where
  "args_from_json s = Unparsed s"

text \<open>\<open>empty_obj\<close> is \<open>Value::Object(Map::new())\<close>.\<close>

definition args_default :: "'v \<Rightarrow> 'v tool_args" where
  "args_default empty_obj = Parsed empty_obj"

text \<open>
  \<open>normalize\<close> and \<open>parse\<close>: \<open>repair\<close> is \<open>json_repair\<close> at type \<open>Value\<close>, \<open>raw_obj\<close> builds the
  object \<open>{"_raw_content": s}\<close>.
\<close>

fun args_normalize ::
  "(rstr \<Rightarrow> 'e + 'v) \<Rightarrow> (rstr \<Rightarrow> 'v) \<Rightarrow> 'v tool_args \<Rightarrow> 'v tool_args" where
  "args_normalize repair raw_obj (Unparsed s) =
     (case repair s of Inr v \<Rightarrow> Parsed v | Inl _ \<Rightarrow> Parsed (raw_obj s))"
| "args_normalize repair raw_obj (Parsed v) = Parsed v"

fun args_parse :: "(rstr \<Rightarrow> 'e + 'v) \<Rightarrow> 'v tool_args \<Rightarrow> 'e \<times> rstr + 'v" where
  "args_parse repair (Unparsed s) =
     (case repair s of Inr v \<Rightarrow> Inr v | Inl e \<Rightarrow> Inl (e, s))"
| "args_parse repair (Parsed v) = Inr v"

section \<open>Token counts and usage\<close>

datatype tok_count = Actual nat | Approx nat

fun tok_add :: "tok_count \<Rightarrow> tok_count \<Rightarrow> tok_count" where
  "tok_add (Actual a) (Actual b) = Actual (a + b)"
| "tok_add (Approx a) (Approx b) = Approx (a + b)"
| "tok_add (Actual a) (Approx b) = Approx (a + b)"
| "tok_add (Approx a) (Actual b) = Approx (a + b)"

definition tok_default :: tok_count where
  "tok_default = Actual 0"

fun tok_max :: "tok_count \<Rightarrow> tok_count \<Rightarrow> tok_count" where
  "tok_max (Actual a) (Actual b) = Actual (max a b)"
| "tok_max (Actual a) (Approx b) = Approx (max a b)"
| "tok_max (Approx a) (Actual b) = Approx (max a b)"
| "tok_max (Approx a) (Approx b) = Approx (max a b)"

fun tok_deref :: "tok_count \<Rightarrow> nat" where
  "tok_deref (Actual i) = i"
| "tok_deref (Approx i) = i"

record usage =
  u_prompt_tokens :: tok_count
  u_completion_tokens :: tok_count
  u_total_tokens :: tok_count
  u_cached_tokens :: tok_count
  u_cost :: "rat option"

definition usage_default :: usage where
  "usage_default = \<lparr>u_prompt_tokens = tok_default, u_completion_tokens = tok_default,
     u_total_tokens = tok_default, u_cached_tokens = tok_default, u_cost = None\<rparr>"

fun cost_sum :: "rat option \<Rightarrow> rat option \<Rightarrow> rat option" where
  "cost_sum (Some a) (Some b) = Some (f64_add a b)"
| "cost_sum (Some a) None = Some a"
| "cost_sum None (Some b) = Some b"
| "cost_sum None None = None"

definition usage_accumulate :: "usage \<Rightarrow> usage \<Rightarrow> usage" where
  "usage_accumulate s t = \<lparr>
     u_prompt_tokens = tok_add (u_prompt_tokens s) (u_prompt_tokens t),
     u_completion_tokens = tok_add (u_completion_tokens s) (u_completion_tokens t),
     u_total_tokens = tok_add (u_total_tokens s) (u_total_tokens t),
     u_cached_tokens = tok_add (u_cached_tokens s) (u_cached_tokens t),
     u_cost = cost_sum (u_cost s) (u_cost t)\<rparr>"

definition usage_merge :: "usage \<Rightarrow> usage \<Rightarrow> usage" where
  "usage_merge s t = \<lparr>
     u_prompt_tokens = tok_max (u_prompt_tokens s) (u_prompt_tokens t),
     u_completion_tokens = tok_max (u_completion_tokens s) (u_completion_tokens t),
     u_total_tokens = tok_max (u_total_tokens s) (u_total_tokens t),
     u_cached_tokens = tok_max (u_cached_tokens s) (u_cached_tokens t),
     u_cost = cost_sum (u_cost s) (u_cost t)\<rparr>"

section \<open>Messages\<close>

datatype role = System | User | Assistant | Tool

datatype message_phase = Commentary | FinalAnswer

record user_command =
  uc_name :: rstr
  uc_template :: rstr
  uc_parameters :: "rstr list"

datatype event_value = EText rstr | ECommand user_command

record reasoning_detail =
  rd_text :: "rstr option"
  rd_signature :: "rstr option"
  rd_data :: "rstr option"
  rd_id :: "rstr option"
  rd_format :: "rstr option"
  rd_index :: "int option"
  rd_type_of :: "rstr option"

definition reasoning_default :: reasoning_detail where
  "reasoning_default = \<lparr>rd_text = None, rd_signature = None, rd_data = None, rd_id = None,
     rd_format = None, rd_index = None, rd_type_of = None\<rparr>"

record 'v text_message =
  tm_role :: role
  tm_content :: rstr
  tm_raw_content :: "event_value option"
  tm_tool_calls :: "'v tool_call_full list option"
  tm_thought_signature :: "rstr option"
  tm_model :: "rstr option"
  tm_reasoning_details :: "reasoning_detail list option"
  tm_droppable :: bool
  tm_phase :: "message_phase option"

datatype 'v context_message =
    CText "'v text_message"
  | CTool tool_result
  | CImage image

record 'v message_entry =
  me_message :: "'v context_message"
  me_usage :: "usage option"

definition entry_of :: "'v context_message \<Rightarrow> 'v message_entry" where
  "entry_of m = \<lparr>me_message = m, me_usage = None\<rparr>"

definition text_new :: "role \<Rightarrow> rstr \<Rightarrow> 'v text_message" where
  "text_new r c = \<lparr>tm_role = r, tm_content = c, tm_raw_content = None, tm_tool_calls = None,
     tm_thought_signature = None, tm_model = None, tm_reasoning_details = None,
     tm_droppable = False, tm_phase = None\<rparr>"

definition text_assistant ::
  "rstr \<Rightarrow> reasoning_detail list option \<Rightarrow> rstr option \<Rightarrow> 'v text_message" where
  "text_assistant c rs model = \<lparr>tm_role = Assistant, tm_content = c, tm_raw_content = None,
     tm_tool_calls = None, tm_thought_signature = None, tm_model = model,
     tm_reasoning_details = rs, tm_droppable = False, tm_phase = None\<rparr>"

definition msg_user :: "rstr \<Rightarrow> rstr option \<Rightarrow> 'v context_message" where
  "msg_user c model = CText \<lparr>tm_role = User, tm_content = c, tm_raw_content = None,
     tm_tool_calls = None, tm_thought_signature = None, tm_model = model,
     tm_reasoning_details = None, tm_droppable = False, tm_phase = None\<rparr>"

definition msg_system :: "rstr \<Rightarrow> 'v context_message" where
  "msg_system c = CText \<lparr>tm_role = System, tm_content = c, tm_raw_content = None,
     tm_tool_calls = None, tm_thought_signature = None, tm_model = None,
     tm_reasoning_details = None, tm_droppable = False, tm_phase = None\<rparr>"

definition msg_assistant ::
  "rstr \<Rightarrow> rstr option \<Rightarrow> reasoning_detail list option \<Rightarrow> 'v tool_call_full list option
     \<Rightarrow> 'v context_message" where
  "msg_assistant c sig rs calls =
     (let calls = (case calls of Some cs \<Rightarrow> if cs = [] then None else Some cs | None \<Rightarrow> None)
      in CText \<lparr>tm_role = Assistant, tm_content = c, tm_raw_content = None,
           tm_tool_calls = calls, tm_thought_signature = sig, tm_model = None,
           tm_reasoning_details = rs, tm_droppable = False, tm_phase = None\<rparr>)"

definition msg_tool_result :: "tool_result \<Rightarrow> 'v context_message" where
  "msg_tool_result r = CTool r"

fun msg_content :: "'v context_message \<Rightarrow> rstr option" where
  "msg_content (CText t) = Some (tm_content t)"
| "msg_content (CTool _) = None"
| "msg_content (CImage _) = None"

fun msg_as_value :: "'v context_message \<Rightarrow> event_value option" where
  "msg_as_value (CText t) = tm_raw_content t"
| "msg_as_value (CTool _) = None"
| "msg_as_value (CImage _) = None"

fun has_role :: "'v context_message \<Rightarrow> role \<Rightarrow> bool" where
  "has_role (CText t) r = (tm_role t = r)"
| "has_role (CTool _) r = False"
| "has_role (CImage _) r = (User = r)"

fun is_droppable :: "'v context_message \<Rightarrow> bool" where
  "is_droppable (CText t) = tm_droppable t"
| "is_droppable (CTool _) = False"
| "is_droppable (CImage _) = False"

fun has_tool_result :: "'v context_message \<Rightarrow> bool" where
  "has_tool_result (CText _) = False"
| "has_tool_result (CTool _) = True"
| "has_tool_result (CImage _) = False"

fun has_tool_call :: "'v context_message \<Rightarrow> bool" where
  "has_tool_call (CText t) = (tm_tool_calls t \<noteq> None)"
| "has_tool_call (CTool _) = False"
| "has_tool_call (CImage _) = False"

fun has_reasoning_details :: "'v context_message \<Rightarrow> bool" where
  "has_reasoning_details (CText t) = (tm_reasoning_details t \<noteq> None)"
| "has_reasoning_details (CTool _) = False"
| "has_reasoning_details (CImage _) = False"

fun as_tool_result :: "'v context_message \<Rightarrow> tool_result option" where
  "as_tool_result (CTool r) = Some r"
| "as_tool_result _ = None"

text \<open>Base64 images are replaced before a tool output is rendered into the context.\<close>

definition filter_base64_images :: "tool_output \<Rightarrow> tool_output" where
  "filter_base64_images out =
     \<lparr>to_is_error = to_is_error out,
      to_values = map (\<lambda>v. case v of
          TVImage im \<Rightarrow>
            if starts_with (img_url im) (lit ''data:'')
            then TVText (lit ''[base64 image: '' @ img_mime_type im @ lit '']'')
            else v
        | _ \<Rightarrow> v) (to_values out)\<rparr>"

section \<open>Approximate token counts\<close>

definition tool_call_content_char_count :: "('v \<Rightarrow> rstr) \<Rightarrow> 'v text_message \<Rightarrow> nat" where
  "tool_call_content_char_count to_string t =
     (case tm_tool_calls t of
        Some calls \<Rightarrow>
          sum_list (map (\<lambda>tc. length (args_into_string to_string (tc_arguments tc))
            + length (tc_name tc)) calls)
      | None \<Rightarrow> 0)"

definition reasoning_content_char_count :: "'v text_message \<Rightarrow> nat" where
  "reasoning_content_char_count t =
     (case tm_reasoning_details t of
        Some ds \<Rightarrow> sum_list (map (\<lambda>rd. case rd_text rd of Some s \<Rightarrow> length s | None \<Rightarrow> 0) ds)
      | None \<Rightarrow> 0)"

fun token_count_approx :: "('v \<Rightarrow> rstr) \<Rightarrow> 'v context_message \<Rightarrow> nat" where
  "token_count_approx ts (CText t) =
     div_ceil (length (tm_content t) + tool_call_content_char_count ts t
       + reasoning_content_char_count t) 4"
| "token_count_approx ts (CTool r) =
     div_ceil (sum_list (map (\<lambda>v. case v of TVText s \<Rightarrow> length s | _ \<Rightarrow> 0)
       (to_values (tr_output r)))) 4"
| "token_count_approx ts (CImage _) = div_ceil 0 4"

end
