(* ===== verification/Tool_Calls.thy ===== *)
theory Tool_Calls
  imports Messages "HOL-Library.AList"
begin

text \<open>
  \<open>forge_domain/src/tools/call/tool_call.rs\<close>: tool call parts as a streaming provider sends them,
  their assembly into complete calls (\<open>ToolCallFull::try_from_parts\<close>, with its GLM workaround),
  and \<open>ToolErrorTracker\<close>, which counts consecutive failures per tool. The assembly is proved to
  invert every fragmentation of a list of calls; the tracker to refine a counting map.
\<close>

section \<open>Parts and assembly\<close>

record tool_call_part =
  tp_call_id :: "rstr option"
  tp_name :: "rstr option"
  tp_arguments_part :: rstr
  tp_thought_signature :: "rstr option"

datatype 'v tool_call = TCFull "'v tool_call_full" | TCPart tool_call_part

fun call_as_partial :: "'v tool_call \<Rightarrow> tool_call_part option" where
  "call_as_partial (TCFull _) = None"
| "call_as_partial (TCPart p) = Some p"

fun call_as_full :: "'v tool_call \<Rightarrow> 'v tool_call_full option" where
  "call_as_full (TCFull f) = Some f"
| "call_as_full (TCPart _) = None"

definition call_new :: "'v \<Rightarrow> rstr \<Rightarrow> 'v tool_call_full" where
  "call_new empty_obj n = \<lparr>tc_name = n, tc_call_id = None, tc_arguments = args_default empty_obj,
     tc_thought_signature = None\<rparr>"

text \<open>The local variables of \<open>try_from_parts\<close>.\<close>

record 'v parts_state =
  ps_tool_calls :: "'v tool_call_full list"
  ps_call_id :: "rstr option"
  ps_tool_name :: "rstr option"
  ps_arguments :: rstr
  ps_signature :: "rstr option"
  ps_last_name :: "rstr option"
  ps_last_call_id :: "rstr option"

definition parts_init :: "'v parts_state" where
  "parts_init = \<lparr>ps_tool_calls = [], ps_call_id = None, ps_tool_name = None, ps_arguments = [],
     ps_signature = None, ps_last_name = None, ps_last_call_id = None\<rparr>"

definition parts_arguments :: "'v \<Rightarrow> rstr \<Rightarrow> 'v tool_args" where
  "parts_arguments empty_obj s = (if s = [] then args_default empty_obj else args_from_json s)"

definition has_valid_name :: "tool_call_part \<Rightarrow> bool" where
  "has_valid_name p = (case tp_name p of Some n \<Rightarrow> n \<noteq> [] | None \<Rightarrow> False)"

text \<open>The body of the loop over the parts.\<close>

definition parts_step :: "'v \<Rightarrow> 'v parts_state \<Rightarrow> tool_call_part \<Rightarrow> 'v parts_state" where
  "parts_step empty_obj st part =
     (let is_glm_fragment = (\<not> has_valid_name part \<and> tp_arguments_part part \<noteq> []
            \<and> ps_last_name st \<noteq> None \<and> ps_last_call_id st \<noteq> None);
          st = (if is_glm_fragment then st
            else case tp_call_id part of
                None \<Rightarrow> st
              | Some new_call_id \<Rightarrow>
                  let st = (case ps_call_id st of
                      Some existing \<Rightarrow>
                        if existing \<noteq> new_call_id
                        then
                          let st = (case ps_tool_name st of
                              Some tool_name \<Rightarrow> st\<lparr>
                                ps_tool_calls := ps_tool_calls st @
                                  [\<lparr>tc_name = tool_name, tc_call_id = Some existing,
                                    tc_arguments = parts_arguments empty_obj (ps_arguments st),
                                    tc_thought_signature = ps_signature st\<rparr>],
                                ps_tool_name := None, ps_signature := None\<rparr>
                            | None \<Rightarrow> st)
                          in st\<lparr>ps_arguments := [], ps_signature := None\<rparr>
                        else st
                    | None \<Rightarrow> st)
                  in st\<lparr>ps_call_id := Some new_call_id\<rparr>);
          st = (case tp_name part of
              Some name \<Rightarrow>
                if name \<noteq> []
                then st\<lparr>ps_tool_name := Some name, ps_last_name := Some name,
                  ps_last_call_id := (case ps_call_id st of
                      Some cid \<Rightarrow> Some cid | None \<Rightarrow> ps_last_call_id st)\<rparr>
                else st
            | None \<Rightarrow> st);
          st = (if ps_signature st = None \<and> tp_thought_signature part \<noteq> None
            then st\<lparr>ps_signature := tp_thought_signature part\<rparr> else st)
      in st\<lparr>ps_arguments := ps_arguments st @ tp_arguments_part part\<rparr>)"

definition parts_finish :: "'v \<Rightarrow> 'v parts_state \<Rightarrow> 'v tool_call_full list" where
  "parts_finish empty_obj st =
     (case ps_tool_name st of
        Some tool_name \<Rightarrow> ps_tool_calls st @
          [\<lparr>tc_name = tool_name, tc_call_id = ps_call_id st,
            tc_arguments = parts_arguments empty_obj (ps_arguments st),
            tc_thought_signature = ps_signature st\<rparr>]
      | None \<Rightarrow> ps_tool_calls st)"

text \<open>The source's \<open>Result\<close> is always \<open>Ok\<close>, so the model returns the list itself.\<close>

definition try_from_parts :: "'v \<Rightarrow> tool_call_part list \<Rightarrow> 'v tool_call_full list" where
  "try_from_parts empty_obj parts =
     (if parts = [] then [] else parts_finish empty_obj (foldl (parts_step empty_obj) parts_init parts))"

section \<open>Fragmentations of a list of calls\<close>

text \<open>
  A provider announces a call with a part that carries its id and name (\<open>call_head\<close>), then sends
  continuations: parts without a valid name that carry either no id (OpenAI) or some arguments
  under whatever id (GLM). \<open>assemble\<close> is the call such a group stands for.
\<close>

definition call_head :: "tool_call_part \<Rightarrow> bool" where
  "call_head p \<longleftrightarrow> tp_call_id p \<noteq> None \<and> has_valid_name p"

definition continuation :: "tool_call_part \<Rightarrow> bool" where
  "continuation p \<longleftrightarrow> \<not> has_valid_name p \<and> (tp_call_id p = None \<or> tp_arguments_part p \<noteq> [])"

type_synonym group = "tool_call_part \<times> tool_call_part list"

definition group_parts :: "group \<Rightarrow> tool_call_part list" where
  "group_parts g = fst g # snd g"

definition well_formed_group :: "group \<Rightarrow> bool" where
  "well_formed_group g \<longleftrightarrow> call_head (fst g) \<and> list_all continuation (snd g)"

definition assemble :: "'v \<Rightarrow> group \<Rightarrow> 'v tool_call_full" where
  "assemble empty_obj g = \<lparr>tc_name = the (tp_name (fst g)), tc_call_id = tp_call_id (fst g),
     tc_arguments = parts_arguments empty_obj (concat (map tp_arguments_part (group_parts g))),
     tc_thought_signature = find_map tp_thought_signature (group_parts g)\<rparr>"

fun adjacent_ids_differ :: "group list \<Rightarrow> bool" where
  "adjacent_ids_differ (g # h # gs) =
     (tp_call_id (fst g) \<noteq> tp_call_id (fst h) \<and> adjacent_ids_differ (h # gs))"
| "adjacent_ids_differ _ = True"

text \<open>The state after the calls \<open>done\<close> and the parts of the open group.\<close>

definition open_state :: "'v tool_call_full list \<Rightarrow> tool_call_part \<Rightarrow> rstr \<Rightarrow> rstr option \<Rightarrow> 'v parts_state" where
  "open_state finished h args sig = \<lparr>ps_tool_calls = finished, ps_call_id = tp_call_id h,
     ps_tool_name = tp_name h, ps_arguments = args, ps_signature = sig,
     ps_last_name = tp_name h, ps_last_call_id = tp_call_id h\<rparr>"

abbreviation or_else :: "'a option \<Rightarrow> 'a option \<Rightarrow> 'a option" where
  "or_else a b \<equiv> (case a of Some x \<Rightarrow> Some x | None \<Rightarrow> b)"

lemma parts_step_continuation:
  assumes "call_head h" and "continuation p"
  shows "parts_step e (open_state finished h args sig) p =
    open_state finished h (args @ tp_arguments_part p) (or_else sig (tp_thought_signature p))"
  using assms
  by (auto simp: parts_step_def open_state_def call_head_def continuation_def has_valid_name_def
      Let_def split: option.splits)

lemma parts_step_first:
  assumes "call_head h"
  shows "parts_step e parts_init h =
    open_state [] h (tp_arguments_part h) (tp_thought_signature h)"
  using assms
  by (auto simp: parts_step_def parts_init_def open_state_def call_head_def has_valid_name_def
      Let_def split: option.splits)

lemma parts_step_next:
  assumes "call_head h" and "call_head h'" and "tp_call_id h \<noteq> tp_call_id h'"
  shows "parts_step e (open_state finished h args sig) h' =
    open_state (finished @ [\<lparr>tc_name = the (tp_name h), tc_call_id = tp_call_id h,
        tc_arguments = parts_arguments e args, tc_thought_signature = sig\<rparr>])
      h' (tp_arguments_part h') (tp_thought_signature h')"
  using assms
  by (auto simp: parts_step_def open_state_def call_head_def has_valid_name_def
      Let_def split: option.splits)

lemma foldl_continuations:
  assumes "call_head h" and "list_all continuation ps"
  shows "foldl (parts_step e) (open_state finished h args sig) ps =
    open_state finished h (args @ concat (map tp_arguments_part ps))
      (or_else sig (find_map tp_thought_signature ps))"
  using assms(2)
proof (induction ps arbitrary: args sig)
  case Nil
  then show ?case by (simp split: option.splits)
next
  case (Cons p ps)
  then show ?case
    by (cases sig) (auto simp: parts_step_continuation [OF assms(1)] split: option.splits)
qed

text \<open>What \<open>parts_finish\<close> adds is the group that was open.\<close>

lemma foldl_groups:
  assumes "call_head h" and "list_all continuation ps"
    and "list_all well_formed_group gs" and "adjacent_ids_differ ((h, ps) # gs)"
  shows "parts_finish e (foldl (parts_step e)
      (open_state finished h (tp_arguments_part h) (tp_thought_signature h))
      (ps @ concat (map group_parts gs)))
    = finished @ map (assemble e) ((h, ps) # gs)"
  using assms
proof (induction gs arbitrary: h ps finished)
  case Nil
  then obtain n where "tp_name h = Some n"
    by (auto simp: call_head_def has_valid_name_def split: option.splits)
  then have finish: "parts_finish e (open_state finished h args sig) = finished @
      [\<lparr>tc_name = the (tp_name h), tc_call_id = tp_call_id h,
        tc_arguments = parts_arguments e args, tc_thought_signature = sig\<rparr>]" for args sig
    by (simp add: parts_finish_def open_state_def)
  show ?case
    using Nil.prems
    by (simp add: foldl_continuations finish assemble_def group_parts_def split: option.splits)
next
  case (Cons g gs)
  obtain h' ps' where g: "g = (h', ps')" by (cases g)
  with Cons.prems have wf: "call_head h'" "list_all continuation ps'"
    and ne: "tp_call_id h \<noteq> tp_call_id h'" and rest: "list_all well_formed_group gs"
    "adjacent_ids_differ ((h', ps') # gs)"
    by (simp_all add: well_formed_group_def [of "(h', ps')"])
  have first: "assemble e (h, ps) = \<lparr>tc_name = the (tp_name h), tc_call_id = tp_call_id h,
      tc_arguments = parts_arguments e (tp_arguments_part h @ concat (map tp_arguments_part ps)),
      tc_thought_signature = or_else (tp_thought_signature h) (find_map tp_thought_signature ps)\<rparr>"
    by (simp add: assemble_def group_parts_def)
  show ?case
    using Cons.IH [OF wf rest, of "finished @ [assemble e (h, ps)]"] Cons.prems(1,2)
    by (simp add: g group_parts_def foldl_continuations parts_step_next wf ne first)
qed

lemma try_from_parts_groups:
  assumes "list_all well_formed_group gs" and "adjacent_ids_differ gs"
  shows "try_from_parts e (concat (map group_parts gs)) = map (assemble e) gs"
proof (cases gs)
  case Nil
  then show ?thesis by (simp add: try_from_parts_def)
next
  case (Cons g gs')
  obtain h ps where g: "g = (h, ps)" by (cases g)
  have "try_from_parts e (concat (map group_parts gs)) =
      parts_finish e (foldl (parts_step e)
        (open_state [] h (tp_arguments_part h) (tp_thought_signature h))
        (ps @ concat (map group_parts gs')))"
    using assms Cons g
    by (simp add: try_from_parts_def group_parts_def well_formed_group_def parts_step_first)
  also have "\<dots> = [] @ map (assemble e) ((h, ps) # gs')"
    by (rule foldl_groups) (use assms Cons g in \<open>auto simp: well_formed_group_def\<close>)
  finally show ?thesis using Cons g by simp
qed

text \<open>An assembled call always has a non-empty name, whatever the parts.\<close>

definition named_state :: "'v parts_state \<Rightarrow> bool" where
  "named_state st \<longleftrightarrow> list_all (\<lambda>c. tc_name c \<noteq> []) (ps_tool_calls st) \<and> ps_tool_name st \<noteq> Some []"

lemma parts_step_named: "named_state st \<Longrightarrow> named_state (parts_step e st p)"
  by (auto simp: parts_step_def named_state_def Let_def split: option.splits)

lemma foldl_parts_named: "named_state st \<Longrightarrow> named_state (foldl (parts_step e) st ps)"
  by (induction ps arbitrary: st) (auto simp: parts_step_named)

lemma try_from_parts_named: "list_all (\<lambda>c. tc_name c \<noteq> []) (try_from_parts e ps)"
proof -
  have "named_state (foldl (parts_step e) parts_init ps)"
    by (rule foldl_parts_named) (simp add: named_state_def parts_init_def)
  then show ?thesis
    by (auto simp: try_from_parts_def parts_finish_def named_state_def split: option.splits)
qed

section \<open>Error tracker\<close>

record error_tracker =
  et_errors :: "(rstr \<times> nat) list"
  et_limit :: nat

definition tracker_new :: "nat \<Rightarrow> error_tracker" where
  "tracker_new limit = \<lparr>et_errors = [], et_limit = limit\<rparr>"

definition tracker_count_failure :: "(rstr \<times> nat) list \<Rightarrow> rstr \<Rightarrow> (rstr \<times> nat) list" where
  "tracker_count_failure errs tool =
     (case map_of errs tool of
        Some count \<Rightarrow> AList.update tool (count + 1) errs
      | None \<Rightarrow> AList.update tool 1 errs)"

definition tracker_adjust :: "error_tracker \<Rightarrow> rstr list \<Rightarrow> rstr list \<Rightarrow> error_tracker" where
  "tracker_adjust t failed succeeded =
     (let uniq_failed = remdups failed;
          errs = foldl tracker_count_failure (et_errors t) uniq_failed;
          errs = foldl (\<lambda>errs tool. AList.delete tool errs) errs
            (filter (\<lambda>tool. tool \<notin> set uniq_failed) succeeded)
      in t\<lparr>et_errors := errs\<rparr>)"

definition tracker_adjust_record ::
  "error_tracker \<Rightarrow> ('v tool_call_full \<times> tool_result) list \<Rightarrow> error_tracker" where
  "tracker_adjust_record t records =
     (let failed = map (\<lambda>r. tr_name (snd r)) (filter (\<lambda>r. result_is_error (snd r)) records);
          succeeded = map (\<lambda>r. tr_name (snd r)) (filter (\<lambda>r. \<not> result_is_error (snd r)) records)
      in tracker_adjust t failed succeeded)"

definition tracker_failed :: "error_tracker \<Rightarrow> rstr \<Rightarrow> error_tracker" where
  "tracker_failed t tool = tracker_adjust t [tool] []"

definition tracker_succeed :: "error_tracker \<Rightarrow> rstr \<Rightarrow> error_tracker" where
  "tracker_succeed t tool = tracker_adjust t [] [tool]"

definition maxed_out_tools :: "error_tracker \<Rightarrow> rstr list" where
  "maxed_out_tools t = map fst (filter (\<lambda>(_, count). et_limit t \<le> count) (et_errors t))"

definition limit_reached :: "error_tracker \<Rightarrow> bool" where
  "limit_reached t = (maxed_out_tools t \<noteq> [])"

definition error_count :: "error_tracker \<Rightarrow> rstr \<Rightarrow> nat" where
  "error_count t tool = (case map_of (et_errors t) tool of Some n \<Rightarrow> n | None \<Rightarrow> 0)"

definition remaining_attempts :: "error_tracker \<Rightarrow> rstr \<Rightarrow> nat" where
  "remaining_attempts t tool = et_limit t - error_count t tool"

text \<open>
  The map an association list stands for, and the invariant: keys are distinct and no stored
  count is zero, so \<open>error_count\<close> determines the map.
\<close>

definition tracker_inv :: "error_tracker \<Rightarrow> bool" where
  "tracker_inv t \<longleftrightarrow> distinct (map fst (et_errors t)) \<and> (\<forall>(k, n) \<in> set (et_errors t). 0 < n)"

definition count_of :: "(rstr \<times> nat) list \<Rightarrow> rstr \<Rightarrow> nat" where
  "count_of errs k = (case map_of errs k of Some n \<Rightarrow> n | None \<Rightarrow> 0)"

definition errs_inv :: "(rstr \<times> nat) list \<Rightarrow> bool" where
  "errs_inv errs \<longleftrightarrow> distinct (map fst errs) \<and> (\<forall>(k, n) \<in> set errs. 0 < n)"

lemma errs_inv_update:
  "errs_inv errs \<Longrightarrow> 0 < n \<Longrightarrow> errs_inv (AList.update k n errs)"
proof -
  assume inv: "errs_inv errs" and n: "0 < n"
  have d: "distinct (map fst (AList.update k n errs))"
    using inv by (simp add: errs_inv_def distinct_update)
  moreover have "0 < v" if "(k', v) \<in> set (AList.update k n errs)" for k' v
  proof -
    have "map_of (AList.update k n errs) k' = Some v"
      using d that by simp
    then show ?thesis
      using inv n by (auto simp: update_conv' errs_inv_def split: if_splits dest: map_of_SomeD)
  qed
  ultimately show ?thesis by (auto simp: errs_inv_def)
qed

lemma errs_inv_delete: "errs_inv errs \<Longrightarrow> errs_inv (AList.delete k errs)"
proof -
  have "set (AList.delete k errs) \<subseteq> set errs"
    by (auto simp: AList.delete_eq)
  then show "errs_inv errs \<Longrightarrow> ?thesis"
    by (auto simp: errs_inv_def distinct_delete)
qed

lemma count_failure_inv: "errs_inv errs \<Longrightarrow> errs_inv (tracker_count_failure errs k)"
  by (auto simp: tracker_count_failure_def intro: errs_inv_update split: option.splits)

lemma count_of_failure:
  "count_of (tracker_count_failure errs k) k' = (if k' = k then count_of errs k + 1 else count_of errs k')"
  by (auto simp: tracker_count_failure_def count_of_def update_conv' split: option.splits)

lemma count_of_delete:
  "count_of (AList.delete k errs) k' = (if k' = k then 0 else count_of errs k')"
  by (auto simp: count_of_def delete_conv')

lemma foldl_failures:
  "distinct ks \<Longrightarrow> count_of (foldl tracker_count_failure errs ks) k =
     count_of errs k + (if k \<in> set ks then 1 else 0)"
  by (induction ks arbitrary: errs) (auto simp: count_of_failure)

lemma foldl_failures_inv: "errs_inv errs \<Longrightarrow> errs_inv (foldl tracker_count_failure errs ks)"
  by (induction ks arbitrary: errs) (auto simp: count_failure_inv)

lemma foldl_deletes:
  "count_of (foldl (\<lambda>errs k. AList.delete k errs) errs ks) k =
     (if k \<in> set ks then 0 else count_of errs k)"
  by (induction ks arbitrary: errs) (auto simp: count_of_delete)

lemma foldl_deletes_inv: "errs_inv errs \<Longrightarrow> errs_inv (foldl (\<lambda>errs k. AList.delete k errs) errs ks)"
  by (induction ks arbitrary: errs) (auto simp: errs_inv_delete)

lemmas tracker_folds = foldl_failures foldl_failures_inv foldl_deletes foldl_deletes_inv

lemma error_count_adjust:
  "error_count (tracker_adjust t failed succeeded) k =
     (if k \<in> set failed then error_count t k + 1
      else if k \<in> set succeeded then 0 else error_count t k)"
proof -
  have "error_count s k = count_of (et_errors s) k" for s k
    by (simp add: error_count_def count_of_def)
  then show ?thesis
    by (simp add: tracker_adjust_def Let_def tracker_folds)
qed

lemma tracker_inv_adjust: "tracker_inv t \<Longrightarrow> tracker_inv (tracker_adjust t failed succeeded)"
proof -
  have eq: "tracker_inv s = errs_inv (et_errors s)" for s
    by (simp add: tracker_inv_def errs_inv_def)
  assume "tracker_inv t"
  then show ?thesis
    by (simp add: eq tracker_adjust_def Let_def tracker_folds)
qed

lemma limit_reached_iff:
  assumes "tracker_inv t" and "0 < et_limit t"
  shows "limit_reached t \<longleftrightarrow> (\<exists>k. et_limit t \<le> error_count t k)"
proof
  assume "limit_reached t"
  then obtain k n where kn: "(k, n) \<in> set (et_errors t)" "et_limit t \<le> n"
    by (auto simp: limit_reached_def maxed_out_tools_def filter_empty_conv)
  with assms(1) have "error_count t k = n"
    by (simp add: error_count_def tracker_inv_def)
  with kn show "\<exists>k. et_limit t \<le> error_count t k" by auto
next
  assume "\<exists>k. et_limit t \<le> error_count t k"
  then obtain k where k: "et_limit t \<le> error_count t k" by auto
  with assms(2) obtain n where "map_of (et_errors t) k = Some n" "et_limit t \<le> n"
    by (auto simp: error_count_def split: option.splits)
  then have "(k, n) \<in> set (filter (\<lambda>(_, count). et_limit t \<le> count) (et_errors t))"
    by (auto dest: map_of_SomeD)
  then show "limit_reached t"
    by (auto simp: limit_reached_def maxed_out_tools_def filter_empty_conv)
qed

section \<open>Properties\<close>

text \<open>C9: Assembly inverts fragmentation: however a provider splits a list of tool calls into parts,
  each call announced by a part with its id and a name and continued by OpenAI-style parts
  (no id) or GLM-style parts (no name, some arguments, any id), \<open>try_from_parts\<close> returns exactly
  those calls, in order, with the concatenated arguments and the first thought signature.\<close>

theorem try_from_parts_roundtrip:
  assumes "list_all well_formed_group gs" and "adjacent_ids_differ gs"
  shows "try_from_parts empty_obj (concat (map group_parts gs)) = map (assemble empty_obj) gs"
  by (rule try_from_parts_groups [OF assms])

definition example_groups :: "group list" where
  "example_groups =
     [(\<lparr>tp_call_id = Some [1], tp_name = Some [7], tp_arguments_part = [123], tp_thought_signature = None\<rparr>,
       [\<lparr>tp_call_id = None, tp_name = None, tp_arguments_part = [5], tp_thought_signature = Some [8]\<rparr>,
        \<lparr>tp_call_id = Some [9], tp_name = Some [], tp_arguments_part = [125], tp_thought_signature = None\<rparr>]),
      (\<lparr>tp_call_id = Some [2], tp_name = Some [6], tp_arguments_part = [], tp_thought_signature = None\<rparr>, [])]"

theorem try_from_parts_roundtrip_witness:
  "try_from_parts () (concat (map group_parts example_groups)) =
     [\<lparr>tc_name = [7], tc_call_id = Some [1], tc_arguments = Unparsed [123, 5, 125],
        tc_thought_signature = Some [8]\<rparr>,
      \<lparr>tc_name = [6], tc_call_id = Some [2], tc_arguments = Parsed (), tc_thought_signature = None\<rparr>]"
proof -
  have "list_all well_formed_group example_groups" "adjacent_ids_differ example_groups"
    by (simp_all add: example_groups_def well_formed_group_def call_head_def continuation_def
        has_valid_name_def)
  from try_from_parts_roundtrip [OF this, of "()"] show ?thesis
    by (simp add: example_groups_def assemble_def group_parts_def parts_arguments_def
        args_from_json_def args_default_def)
qed

text \<open>No assembled call has an empty name, whatever parts arrive.\<close>

theorem assembled_calls_are_named:
  "\<forall>c. c \<in> set (try_from_parts empty_obj parts) \<longrightarrow> tc_name c \<noteq> []"
  using try_from_parts_named [of empty_obj parts] by (simp add: list_all_iff)

theorem assembled_calls_are_named_witness:
  "\<lparr>tc_name = [6], tc_call_id = Some [2], tc_arguments = Parsed (), tc_thought_signature = None\<rparr>
     \<in> set (try_from_parts () (group_parts (last example_groups)))
   \<and> tc_name \<lparr>tc_name = [6], tc_call_id = Some [2], tc_arguments = Parsed (),
       tc_thought_signature = None\<rparr> \<noteq> []"
proof -
  let ?c = "\<lparr>tc_name = [6], tc_call_id = Some [2], tc_arguments = Parsed (), tc_thought_signature = None\<rparr>"
  have "?c \<in> set (try_from_parts () (group_parts (last example_groups)))"
    by (simp add: example_groups_def group_parts_def try_from_parts_def parts_step_def parts_init_def
        parts_finish_def has_valid_name_def parts_arguments_def args_default_def Let_def)
  then show ?thesis
    using assembled_calls_are_named [of "()" "group_parts (last example_groups)"] by blast
qed

text \<open>Two calls that a provider sends without ids are not kept apart: the parts of a second,
  complete call replace the name of the first and its arguments are appended to the first's,
  so one call with the second name and the arguments of both is returned.\<close>

theorem calls_without_ids_are_merged:
  assumes "n \<noteq> []" and "n' \<noteq> []" and "a \<noteq> []"
  shows "try_from_parts e
      [\<lparr>tp_call_id = None, tp_name = Some n, tp_arguments_part = a, tp_thought_signature = None\<rparr>,
       \<lparr>tp_call_id = None, tp_name = Some n', tp_arguments_part = b, tp_thought_signature = None\<rparr>]
    = [\<lparr>tc_name = n', tc_call_id = None, tc_arguments = Unparsed (a @ b), tc_thought_signature = None\<rparr>]"
  using assms
  by (simp add: try_from_parts_def parts_step_def parts_init_def parts_finish_def
      has_valid_name_def parts_arguments_def args_from_json_def Let_def)

theorem calls_without_ids_are_merged_witness:
  "try_from_parts ()
      [\<lparr>tp_call_id = None, tp_name = Some [1], tp_arguments_part = [2], tp_thought_signature = None\<rparr>,
       \<lparr>tp_call_id = None, tp_name = Some [3], tp_arguments_part = [4], tp_thought_signature = None\<rparr>]
    = [\<lparr>tc_name = [3], tc_call_id = None, tc_arguments = Unparsed ([2] @ [4]), tc_thought_signature = None\<rparr>]"
  by (rule calls_without_ids_are_merged) simp_all

text \<open>The tools with a failed, and with a successful, call among the records of a turn.\<close>

definition failing_tools :: "('v tool_call_full \<times> tool_result) list \<Rightarrow> rstr set" where
  "failing_tools records = (\<lambda>r. tr_name (snd r)) ` {r \<in> set records. result_is_error (snd r)}"

definition succeeding_tools :: "('v tool_call_full \<times> tool_result) list \<Rightarrow> rstr set" where
  "succeeding_tools records = (\<lambda>r. tr_name (snd r)) ` {r \<in> set records. \<not> result_is_error (snd r)}"

text \<open>The error tracker refines a counting map: processing the records of a turn adds one to
  the count of every tool with a failed call (once, however many of its calls failed, and even
  if another succeeded), resets every tool that only succeeded, leaves the others, and the
  limit is reached exactly when some tool has that many failures.\<close>

theorem tracker_refines_counts:
  assumes "tracker_inv t" and "0 < et_limit t"
  shows "tracker_inv (tracker_adjust_record t records)
    \<and> (\<forall>k. error_count (tracker_adjust_record t records) k =
        (if k \<in> failing_tools records then error_count t k + 1
         else if k \<in> succeeding_tools records then 0 else error_count t k))
    \<and> (limit_reached (tracker_adjust_record t records) \<longleftrightarrow>
        (\<exists>k. remaining_attempts (tracker_adjust_record t records) k = 0))"
proof -
  have lim: "et_limit (tracker_adjust_record t records) = et_limit t"
    by (simp add: tracker_adjust_record_def tracker_adjust_def Let_def)
  have inv: "tracker_inv (tracker_adjust_record t records)"
    using assms(1) by (simp add: tracker_adjust_record_def Let_def tracker_inv_adjust)
  have names: "set (map (\<lambda>r. tr_name (snd r)) (filter (\<lambda>r. result_is_error (snd r)) records))
      = failing_tools records"
    "set (map (\<lambda>r. tr_name (snd r)) (filter (\<lambda>r. \<not> result_is_error (snd r)) records))
      = succeeding_tools records"
    by (simp_all add: failing_tools_def succeeding_tools_def)
  have "error_count (tracker_adjust_record t records) k =
      (if k \<in> failing_tools records then error_count t k + 1
       else if k \<in> succeeding_tools records then 0 else error_count t k)" for k
    by (simp only: tracker_adjust_record_def Let_def error_count_adjust names)
  moreover have "limit_reached (tracker_adjust_record t records) \<longleftrightarrow>
      (\<exists>k. remaining_attempts (tracker_adjust_record t records) k = 0)"
    using limit_reached_iff [OF inv] assms(2) by (simp add: lim remaining_attempts_def)
  ultimately show ?thesis using inv by blast
qed

theorem tracker_refines_counts_witness:
  "error_count (tracker_adjust_record (tracker_new 1)
       [(call_new () [5], (result_new [5])\<lparr>tr_output := \<lparr>to_is_error = True, to_values = []\<rparr>\<rparr>)]) [5] = 1
   \<and> limit_reached (tracker_adjust_record (tracker_new 1)
       [(call_new () [5], (result_new [5])\<lparr>tr_output := \<lparr>to_is_error = True, to_values = []\<rparr>\<rparr>)])"
proof -
  let ?recs = "[(call_new () [5], (result_new [5])\<lparr>tr_output := \<lparr>to_is_error = True, to_values = []\<rparr>\<rparr>)]"
  have fail: "[5] \<in> failing_tools ?recs"
    by (simp add: failing_tools_def result_is_error_def result_new_def image_iff)
  have "tracker_inv (tracker_new 1)" "0 < et_limit (tracker_new 1)"
    by (simp_all add: tracker_inv_def tracker_new_def)
  note spec = tracker_refines_counts [OF this, of ?recs]
  have "error_count (tracker_adjust_record (tracker_new 1) ?recs) [5] = error_count (tracker_new 1) [5] + 1"
    using spec fail by simp
  then have one: "error_count (tracker_adjust_record (tracker_new 1) ?recs) [5] = 1"
    by (simp add: error_count_def tracker_new_def)
  have "remaining_attempts (tracker_adjust_record (tracker_new 1) ?recs) [5] = 0"
    using one by (simp add: remaining_attempts_def tracker_adjust_record_def tracker_adjust_def
        tracker_new_def Let_def)
  with spec one show ?thesis by blast
qed

end
