(* ===== verification/Stream_Collect.thy ===== *)
theory Stream_Collect
  imports Tool_Calls
begin

text \<open>
  Collection of a provider's response stream into one complete message:
  \<open>ResultStreamExt::into_full_streaming\<close> (\<open>result_stream_ext.rs\<close>), with \<open>Reasoning::from_parts\<close>
  (\<open>reasoning.rs\<close>), \<open>extract_tag_content\<close> (\<open>xml.rs\<close>) and \<open>ToolCallFull::try_from_xml\<close>. The stream is
  the list of its items, an error or a message; what the optional sender receives is recorded
  in the state. Arguments of the model: \<open>parse_call\<close>, the deserialisation of a tool call by
  serde_json with the repairing fallback; \<open>gen_id\<close>, the id \<open>ToolCallId::generate\<close> draws;
  \<open>order\<close>, the iteration order of the \<open>HashMap\<close> of \<open>from_parts\<close>.
\<close>

section \<open>Messages of the stream\<close>

datatype msg_content_part = CPart rstr | CFull rstr

fun content_as_str :: "msg_content_part \<Rightarrow> rstr" where
  "content_as_str (CPart s) = s"
| "content_as_str (CFull s) = s"

definition content_is_empty :: "msg_content_part \<Rightarrow> bool" where
  "content_is_empty c = (content_as_str c = [])"

fun content_is_part :: "msg_content_part \<Rightarrow> bool" where
  "content_is_part (CPart _) = True"
| "content_is_part (CFull _) = False"

datatype finish_reason = FRLength | FRContentFilter | FRRefusal | FRToolCalls | FRStop

datatype reasoning = RPart "reasoning_detail list" | RFull "reasoning_detail list"

fun reasoning_as_partial :: "reasoning \<Rightarrow> reasoning_detail list option" where
  "reasoning_as_partial (RPart ps) = Some ps"
| "reasoning_as_partial (RFull _) = None"

fun reasoning_as_full :: "reasoning \<Rightarrow> reasoning_detail list option" where
  "reasoning_as_full (RPart _) = None"
| "reasoning_as_full (RFull f) = Some f"

record 'v completion_message =
  cm_content :: "msg_content_part option"
  cm_thought_signature :: "rstr option"
  cm_reasoning :: "msg_content_part option"
  cm_reasoning_details :: "reasoning list option"
  cm_tool_calls :: "'v tool_call list"
  cm_finish_reason :: "finish_reason option"
  cm_usage :: "usage option"
  cm_phase :: "message_phase option"

definition completion_default :: "'v completion_message" where
  "completion_default = \<lparr>cm_content = None, cm_thought_signature = None, cm_reasoning = None,
     cm_reasoning_details = None, cm_tool_calls = [], cm_finish_reason = None, cm_usage = None,
     cm_phase = None\<rparr>"

record 'v completion_full =
  cf_content :: rstr
  cf_thought_signature :: "rstr option"
  cf_reasoning :: "rstr option"
  cf_tool_calls :: "'v tool_call_full list"
  cf_reasoning_details :: "reasoning_detail list option"
  cf_usage :: usage
  cf_finish_reason :: "finish_reason option"
  cf_phase :: "message_phase option"

datatype 'e stream_error = SEStream 'e | SERefusal | SERetryableEmpty

section \<open>Reasoning parts\<close>

definition non_empty :: "rstr option \<Rightarrow> rstr option" where
  "non_empty s = (case s of Some t \<Rightarrow> if t = [] then None else Some t | None \<Rightarrow> None)"

text \<open>The \<open>filter_map\<close> closure: one group of parts with the same type.\<close>

definition merge_reasoning_group ::
  "rstr option \<Rightarrow> reasoning_detail list \<Rightarrow> reasoning_detail option" where
  "merge_reasoning_group type_key parts =
     (let txt = concat (map (\<lambda>p. case rd_text p of Some t \<Rightarrow> t | None \<Rightarrow> []) parts);
          signature = find_map (\<lambda>p. non_empty (rd_signature p)) parts;
          data = find_map (\<lambda>p. non_empty (rd_data p)) parts;
          ident = find_map (\<lambda>p. non_empty (rd_id p)) parts;
          format = find_map (\<lambda>p. non_empty (rd_format p)) parts;
          index = find_map rd_index parts
      in if txt = [] \<and> signature = None \<and> data = None then None
         else Some \<lparr>rd_text = (if txt = [] then None else Some txt), rd_signature = signature,
                rd_data = data, rd_id = ident, rd_format = format, rd_index = index,
                rd_type_of = type_key\<rparr>)"

definition reasoning_from_parts ::
  "(rstr option list \<Rightarrow> rstr option list) \<Rightarrow> reasoning_detail list list \<Rightarrow> reasoning_detail list" where
  "reasoning_from_parts order parts =
     (let flat = concat parts;
          keys = order (remdups (map rd_type_of flat))
      in List.map_filter (\<lambda>k. merge_reasoning_group k (filter (\<lambda>p. rd_type_of p = k) flat)) keys)"

section \<open>Tool calls in XML\<close>

definition extract_tag_content :: "rstr \<Rightarrow> rstr \<Rightarrow> rstr option" where
  "extract_tag_content txt tag_name =
     (let opening_tag = lit ''<'' @ tag_name @ lit ''>'';
          closing_tag = lit ''</'' @ tag_name @ lit ''>''
      in case str_find txt opening_tag of
           None \<Rightarrow> None
         | Some start_idx \<Rightarrow>
             (case str_rfind txt closing_tag of
                None \<Rightarrow> None
              | Some end_idx \<Rightarrow>
                  let content_start = start_idx + length opening_tag
                  in if content_start < end_idx
                     then Some (str_trim (take (end_idx - content_start) (drop content_start txt)))
                     else None))"

definition try_from_xml ::
  "(rstr \<Rightarrow> 'j + 'v tool_call_full) \<Rightarrow> rstr \<Rightarrow> rstr \<Rightarrow> 'j \<times> rstr + 'v tool_call_full list" where
  "try_from_xml parse_call gen_id input =
     (case extract_tag_content input (lit ''forge_tool_call'') of
        None \<Rightarrow> Inr []
      | Some content \<Rightarrow>
          (case parse_call content of
             Inl e \<Rightarrow> Inl (e, content)
           | Inr tool_call \<Rightarrow> Inr [tool_call\<lparr>tc_call_id := Some gen_id\<rparr>]))"

section \<open>The collecting loop\<close>

datatype delta = DReasoning rstr | DMarkdown rstr

record 'v stream_state =
  ss_messages :: "'v completion_message list"
  ss_usage :: usage
  ss_content :: rstr
  ss_xml_tool_calls :: "'v tool_call_full option"
  ss_tool_interrupted :: bool
  ss_sent :: "delta list"

definition stream_init :: "'v stream_state" where
  "stream_init = \<lparr>ss_messages = [], ss_usage = usage_default, ss_content = [],
     ss_xml_tool_calls = None, ss_tool_interrupted = False, ss_sent = []\<rparr>"

definition usage_step :: "usage \<Rightarrow> usage option \<Rightarrow> usage" where
  "usage_step usage message_usage =
     (case message_usage of
        None \<Rightarrow> usage
      | Some current \<Rightarrow>
          let is_complete = 0 < tok_deref (u_prompt_tokens current)
                \<and> 0 < tok_deref (u_completion_tokens current);
              is_cost_only = tok_deref (u_prompt_tokens current) = 0
                \<and> tok_deref (u_completion_tokens current) = 0 \<and> u_cost current \<noteq> None
          in if is_complete then
               (let existing_cost = u_cost usage
                in if u_cost current = None \<and> existing_cost \<noteq> None
                   then current\<lparr>u_cost := existing_cost\<rparr> else current)
             else if is_cost_only then usage\<lparr>u_cost := cost_sum (u_cost usage) (u_cost current)\<rparr>
             else usage_merge usage current)"

definition sent_deltas :: "'v completion_message \<Rightarrow> delta list" where
  "sent_deltas m =
     (case cm_reasoning m of
        Some r \<Rightarrow> if content_as_str r \<noteq> [] then [DReasoning (content_as_str r)] else []
      | None \<Rightarrow> [])
     @ (case cm_content m of
        Some c \<Rightarrow> if content_as_str c \<noteq> [] then [DMarkdown (content_as_str c)] else []
      | None \<Rightarrow> [])"

text \<open>The first tool call of \<open>try_from_xml\<close>, errors ignored.\<close>

definition xml_call ::
  "(rstr \<Rightarrow> 'j + 'v tool_call_full) \<Rightarrow> rstr \<Rightarrow> rstr \<Rightarrow> 'v tool_call_full option" where
  "xml_call parse_call gen_id content =
     (case try_from_xml parse_call gen_id content of
        Inr (c # _) \<Rightarrow> Some c
      | _ \<Rightarrow> None)"

definition stream_step ::
  "(rstr \<Rightarrow> 'j + 'v tool_call_full) \<Rightarrow> rstr \<Rightarrow> bool \<Rightarrow> bool \<Rightarrow> 'v stream_state
     \<Rightarrow> 'v completion_message \<Rightarrow> 'v stream_state" where
  "stream_step parse_call gen_id interrupt_for_xml has_sender st message =
     (let st = st\<lparr>ss_usage := usage_step (ss_usage st) (cm_usage message)\<rparr>
      in if ss_tool_interrupted st then st
         else
           let st = st\<lparr>ss_messages := ss_messages st @ [message]\<rparr>;
               st = (if has_sender then st\<lparr>ss_sent := ss_sent st @ sent_deltas message\<rparr> else st)
           in case cm_content message of
                None \<Rightarrow> st
              | Some part \<Rightarrow>
                  let st = st\<lparr>ss_content := ss_content st @ content_as_str part\<rparr>
                  in if interrupt_for_xml then
                       (case xml_call parse_call gen_id (ss_content st) of
                          Some tool_call \<Rightarrow> st\<lparr>ss_xml_tool_calls := Some tool_call,
                            ss_tool_interrupted := True\<rparr>
                        | None \<Rightarrow> st)
                     else st)"

text \<open>The \<open>while let\<close>: the error that ended it, if any, and the state it left.\<close>

fun stream_loop ::
  "(rstr \<Rightarrow> 'j + 'v tool_call_full) \<Rightarrow> rstr \<Rightarrow> bool \<Rightarrow> bool \<Rightarrow> 'v stream_state
     \<Rightarrow> ('e + 'v completion_message) list \<Rightarrow> 'e option \<times> 'v stream_state" where
  "stream_loop pc gi x s st [] = (None, st)"
| "stream_loop pc gi x s st (Inl e # _) = (Some e, st)"
| "stream_loop pc gi x s st (Inr m # items) = stream_loop pc gi x s (stream_step pc gi x s st m) items"

definition closing_call_tag :: rstr where
  "closing_call_tag = lit ''</forge_tool_call>''"

definition truncate_interrupted :: "bool \<Rightarrow> rstr \<Rightarrow> rstr" where
  "truncate_interrupted tool_interrupted content =
     (if tool_interrupted \<and> \<not> ends_with (str_trim content) closing_call_tag
      then (case str_rfind content closing_call_tag of
          Some i \<Rightarrow> take (i + length closing_call_tag) content @ [10]
            @ lit ''<forge_feedback>''
            @ lit ''Response interrupted by tool result. Use only one tool at the end of the message''
            @ lit ''</forge_feedback>''
        | None \<Rightarrow> content)
      else content)"

definition opt_list :: "'a option \<Rightarrow> 'a list" where
  "opt_list x = (case x of Some y \<Rightarrow> [y] | None \<Rightarrow> [])"

definition joined_content :: "'v completion_message list \<Rightarrow> rstr" where
  "joined_content ms = concat (map content_as_str (List.map_filter cm_content ms))"

definition joined_reasoning :: "'v completion_message list \<Rightarrow> rstr" where
  "joined_reasoning ms = concat (map content_as_str (List.map_filter cm_reasoning ms))"

definition collected_tool_calls ::
  "'v \<Rightarrow> 'v completion_message list \<Rightarrow> 'v tool_call_full option \<Rightarrow> 'v tool_call_full list" where
  "collected_tool_calls empty_obj ms xml =
     (let all = concat (map cm_tool_calls ms);
          initial = List.map_filter call_as_full all;
          parts = List.map_filter call_as_partial all
      in initial @ try_from_parts empty_obj parts @ opt_list xml)"

definition collected_reasoning ::
  "(rstr option list \<Rightarrow> rstr option list) \<Rightarrow> 'v completion_message list \<Rightarrow> reasoning_detail list" where
  "collected_reasoning order ms =
     (let details = concat (List.map_filter cm_reasoning_details ms);
          initial = concat (List.map_filter reasoning_as_full details);
          partial = List.map_filter reasoning_as_partial details
      in initial @ reasoning_from_parts order partial)"

definition stream_finish ::
  "'v \<Rightarrow> (rstr option list \<Rightarrow> rstr option list) \<Rightarrow> 'v stream_state
     \<Rightarrow> 'e stream_error + 'v completion_full" where
  "stream_finish empty_obj order st =
     (let messages = ss_messages st;
          content = truncate_interrupted (ss_tool_interrupted st) (joined_content messages);
          reasoning = joined_reasoning messages;
          tool_calls = collected_tool_calls empty_obj messages (ss_xml_tool_calls st);
          details = collected_reasoning order messages;
          finish_reason = find_map cm_finish_reason (rev messages);
          thought_signature = find_map cm_thought_signature (rev messages);
          phase = find_map cm_phase (rev messages)
      in if finish_reason = Some FRRefusal \<and> tool_calls = [] then Inl SERefusal
         else if str_trim content = [] \<and> tool_calls = [] \<and> finish_reason = None
             \<and> thought_signature = None then Inl SERetryableEmpty
         else Inr \<lparr>cf_content = content, cf_thought_signature = thought_signature,
             cf_reasoning = (if reasoning = [] then None else Some reasoning),
             cf_tool_calls = tool_calls,
             cf_reasoning_details = (if details = [] then None else Some details),
             cf_usage = ss_usage st, cf_finish_reason = finish_reason, cf_phase = phase\<rparr>)"

definition into_full_streaming ::
  "(rstr \<Rightarrow> 'j + 'v tool_call_full) \<Rightarrow> rstr \<Rightarrow> 'v \<Rightarrow> (rstr option list \<Rightarrow> rstr option list)
     \<Rightarrow> bool \<Rightarrow> bool \<Rightarrow> ('e + 'v completion_message) list
     \<Rightarrow> ('e stream_error + 'v completion_full) \<times> delta list" where
  "into_full_streaming parse_call gen_id empty_obj order interrupt_for_xml has_sender items =
     (case stream_loop parse_call gen_id interrupt_for_xml has_sender stream_init items of
        (Some e, st) \<Rightarrow> (Inl (SEStream e), ss_sent st)
      | (None, st) \<Rightarrow> (stream_finish empty_obj order st, ss_sent st))"

definition into_full ::
  "(rstr \<Rightarrow> 'j + 'v tool_call_full) \<Rightarrow> rstr \<Rightarrow> 'v \<Rightarrow> (rstr option list \<Rightarrow> rstr option list)
     \<Rightarrow> bool \<Rightarrow> ('e + 'v completion_message) list \<Rightarrow> 'e stream_error + 'v completion_full" where
  "into_full parse_call gen_id empty_obj order interrupt_for_xml items =
     fst (into_full_streaming parse_call gen_id empty_obj order interrupt_for_xml False items)"

section \<open>Lemmas on the loop\<close>

abbreviation stream_run ::
  "(rstr \<Rightarrow> 'j + 'v tool_call_full) \<Rightarrow> rstr \<Rightarrow> bool \<Rightarrow> bool \<Rightarrow> 'v stream_state
     \<Rightarrow> 'v completion_message list \<Rightarrow> 'v stream_state" where
  "stream_run pc gi x s st ms \<equiv> foldl (stream_step pc gi x s) st ms"

lemma stream_loop_Inr: "stream_loop pc gi x s st (map Inr ms) = (None, stream_run pc gi x s st ms)"
  by (induction ms arbitrary: st) auto

lemma into_full_Inr:
  "into_full pc gi e ord x (map Inr ms) = stream_finish e ord (stream_run pc gi x False stream_init ms)"
  by (simp add: into_full_def into_full_streaming_def stream_loop_Inr)

lemma ss_usage_step [simp]:
  "ss_usage (stream_step pc gi x s st m) = usage_step (ss_usage st) (cm_usage m)"
  by (simp add: stream_step_def Let_def split: option.splits)

lemma ss_usage_run: "ss_usage (stream_run pc gi x s st ms) = foldl usage_step (ss_usage st) (map cm_usage ms)"
  by (induction ms arbitrary: st) auto

text \<open>Without XML interruption every message is kept.\<close>

lemma stream_step_plain:
  "\<not> ss_tool_interrupted st \<Longrightarrow> stream_step pc gi False s st m =
     st\<lparr>ss_usage := usage_step (ss_usage st) (cm_usage m), ss_messages := ss_messages st @ [m],
        ss_sent := ss_sent st @ (if s then sent_deltas m else []),
        ss_content := ss_content st @ joined_content [m]\<rparr>"
  by (simp add: stream_step_def Let_def joined_content_def map_filter_simps split: option.splits)

lemma joined_content_append [simp]:
  "joined_content (xs @ ys) = joined_content xs @ joined_content ys"
  by (simp add: joined_content_def map_filter_def)

lemma joined_reasoning_append [simp]:
  "joined_reasoning (xs @ ys) = joined_reasoning xs @ joined_reasoning ys"
  by (simp add: joined_reasoning_def map_filter_def)

lemma stream_run_plain:
  "\<not> ss_tool_interrupted st \<Longrightarrow> stream_run pc gi False s st ms =
     st\<lparr>ss_usage := foldl usage_step (ss_usage st) (map cm_usage ms),
        ss_messages := ss_messages st @ ms,
        ss_sent := ss_sent st @ (if s then concat (map sent_deltas ms) else []),
        ss_content := ss_content st @ joined_content ms\<rparr>"
proof (induction ms arbitrary: st)
  case Nil
  then show ?case by (simp add: joined_content_def map_filter_def)
next
  case (Cons m ms)
  have "joined_content (m # ms) = joined_content [m] @ joined_content ms"
    using joined_content_append [of "[m]" ms] by simp
  with Cons show ?case by (simp add: stream_step_plain)
qed

text \<open>Once interrupted, only the usage still changes.\<close>

lemma stream_run_interrupted:
  "ss_tool_interrupted st \<Longrightarrow> stream_run pc gi x s st ms =
     st\<lparr>ss_usage := foldl usage_step (ss_usage st) (map cm_usage ms)\<rparr>"
  by (induction ms arbitrary: st) (auto simp: stream_step_def)

text \<open>A cost once known is never forgotten.\<close>

lemma usage_step_keeps_cost: "u_cost u \<noteq> None \<Longrightarrow> u_cost (usage_step u mu) \<noteq> None"
  by (cases mu; cases "u_cost u"; cases "u_cost (the mu)")
    (auto simp: usage_step_def Let_def usage_merge_def)

lemma usage_step_gains_cost: "u_cost mu \<noteq> None \<Longrightarrow> u_cost (usage_step u (Some mu)) \<noteq> None"
  by (cases "u_cost u"; cases "u_cost mu") (auto simp: usage_step_def Let_def usage_merge_def)

lemma foldl_usage_keeps_cost: "u_cost u \<noteq> None \<Longrightarrow> u_cost (foldl usage_step u mus) \<noteq> None"
  by (induction mus arbitrary: u) (simp_all add: usage_step_keeps_cost del: not_None_eq)

lemma foldl_usage_gains_cost:
  "Some mu \<in> set mus \<Longrightarrow> u_cost mu \<noteq> None \<Longrightarrow> u_cost (foldl usage_step u mus) \<noteq> None"
proof (induction mus arbitrary: u)
  case Nil
  then show ?case by simp
next
  case (Cons m mus)
  show ?case
  proof (cases "m = Some mu")
    case True
    show ?thesis
      using foldl_usage_keeps_cost [OF usage_step_gains_cost [OF Cons.prems(2)]] True by simp
  next
    case False
    then show ?thesis using Cons by simp
  qed
qed

text \<open>The sender's view.\<close>

fun delta_markdown :: "delta \<Rightarrow> rstr" where
  "delta_markdown (DMarkdown t) = t"
| "delta_markdown (DReasoning _) = []"

fun delta_reasoning :: "delta \<Rightarrow> rstr" where
  "delta_reasoning (DReasoning t) = t"
| "delta_reasoning (DMarkdown _) = []"

lemma sent_markdown: "concat (map delta_markdown (concat (map sent_deltas ms))) = joined_content ms"
  by (induction ms)
    (auto simp: sent_deltas_def joined_content_def map_filter_simps split: option.splits)

lemma sent_reasoning: "concat (map delta_reasoning (concat (map sent_deltas ms))) = joined_reasoning ms"
  by (induction ms)
    (auto simp: sent_deltas_def joined_reasoning_def map_filter_simps split: option.splits)

lemmas stream_projections = joined_content_def joined_reasoning_def collected_tool_calls_def
  collected_reasoning_def

section \<open>Properties\<close>

text \<open>Where an error ends a stream.\<close>

lemma stream_items_cases:
  obtains ms where "items = map Inr ms" | ms e rest where "items = map Inr ms @ Inl e # rest"
proof -
  have "(\<exists>ms. items = map Inr ms) \<or> (\<exists>ms e rest. items = map Inr ms @ Inl e # rest)"
  proof (induction items)
    case (Cons item items)
    show ?case
    proof (cases item)
      case (Inl e)
      then have "item # items = map Inr [] @ Inl e # items" by simp
      then show ?thesis by (intro disjI2 exI)
    next
      case (Inr m)
      from Cons consider ms where "items = map Inr ms" | ms e rest where "items = map Inr ms @ Inl e # rest" by blast
      then show ?thesis
      proof cases
        case (1 ms)
        then have "item # items = map Inr (m # ms)" using Inr by simp
        then show ?thesis by (intro disjI1 exI)
      next
        case (2 ms e rest)
        then have "item # items = map Inr (m # ms) @ Inl e # rest" using Inr by simp
        then show ?thesis by (intro disjI2 exI)
      qed
    qed
  qed simp
  then show ?thesis using that by blast
qed

lemma stream_loop_append:
  "stream_loop pc gi x s st (map Inr ms @ items) = stream_loop pc gi x s (stream_run pc gi x s st ms) items"
  by (induction ms arbitrary: st) auto

text \<open>What a plain stream comes to: the collected message or the first error, and what was sent.\<close>

lemma into_full_plain:
  "into_full_streaming pc gi e ord False s (map Inr ms @ items) =
     (case items of
        [] \<Rightarrow> (stream_finish e ord (stream_run pc gi False s stream_init ms), if s then concat (map sent_deltas ms) else [])
      | Inl err # _ \<Rightarrow> (Inl (SEStream err), if s then concat (map sent_deltas ms) else [])
      | Inr m # items \<Rightarrow> into_full_streaming pc gi e ord False s (map Inr (ms @ [m]) @ items))"
  by (simp add: into_full_streaming_def stream_loop_append stream_run_plain stream_init_def split: list.split sum.split)

text \<open>C16: Splitting the text of a streamed content part into two chunks does not change the
  collected message, for a model that is not interrupted for tool calls in XML: for every stream, with errors anywhere
  in it and with or without a receiver of the chunks, replacing a message whose content is \<open>a @ b\<close> by one with content
  \<open>a\<close> followed by a bare chunk \<open>b\<close> gives the same result, be it a message or an error, and the receiver the
  same text and reasoning.\<close>

theorem content_fragmentation:
  assumes "cm_content m = Some (CPart (a @ b))"
    and "into_full_streaming pc gi e ord False s (xs @ Inr m # ys) = (r, sent)"
    and "into_full_streaming pc gi e ord False s (xs @ Inr (m\<lparr>cm_content := Some (CPart a)\<rparr>)
         # Inr (completion_default\<lparr>cm_content := Some (CPart b)\<rparr>) # ys) = (r', sent')"
  shows "r = r' \<and> concat (map delta_markdown sent) = concat (map delta_markdown sent')
    \<and> concat (map delta_reasoning sent) = concat (map delta_reasoning sent')"
proof (cases xs rule: stream_items_cases)
  case (2 ms e rest)
  then show ?thesis using assms(2,3) by (simp add: into_full_plain)
next
  case (1 xs')
  let ?m1 = "m\<lparr>cm_content := Some (CPart a)\<rparr>" and ?m2 = "completion_default\<lparr>cm_content := Some (CPart b)\<rparr>"
  have joined: "joined_content (xs' @ m # ys') = joined_content (xs' @ ?m1 # ?m2 # ys')"
    "joined_reasoning (xs' @ m # ys') = joined_reasoning (xs' @ ?m1 # ?m2 # ys')" for ys'
    using assms(1) by (simp_all add: joined_content_def joined_reasoning_def map_filter_def completion_default_def)
  have finish: "stream_finish e ord (stream_run pc gi False s stream_init (xs' @ m # ys'))
      = stream_finish e ord (stream_run pc gi False s stream_init (xs' @ ?m1 # ?m2 # ys'))" for ys'
  proof -
    let ?ms = "xs' @ m # ys'" and ?ns = "xs' @ ?m1 # ?m2 # ys'"
    have calls: "collected_tool_calls e ?ms None = collected_tool_calls e ?ns None"
      by (simp add: collected_tool_calls_def completion_default_def)
    have details: "collected_reasoning ord ?ms = collected_reasoning ord ?ns"
      by (simp add: collected_reasoning_def completion_default_def map_filter_def)
    have ends: "find_map cm_finish_reason (rev ?ms) = find_map cm_finish_reason (rev ?ns)"
      "find_map cm_thought_signature (rev ?ms) = find_map cm_thought_signature (rev ?ns)"
      "find_map cm_phase (rev ?ms) = find_map cm_phase (rev ?ns)"
      by (simp_all add: find_map_append completion_default_def split: option.splits)
    have usage: "foldl usage_step usage_default (map cm_usage ?ms) = foldl usage_step usage_default (map cm_usage ?ns)"
      by (simp add: usage_step_def completion_default_def)
    show ?thesis
      by (simp only: stream_run_plain stream_init_def stream_state.simps simp_thms stream_finish_def
        Let_def append_Nil joined calls details ends usage)
  qed
  have sent: "concat (map delta_markdown (if s then concat (map sent_deltas (xs' @ m # ys')) else []))
      = concat (map delta_markdown (if s then concat (map sent_deltas (xs' @ ?m1 # ?m2 # ys')) else []))"
    "concat (map delta_reasoning (if s then concat (map sent_deltas (xs' @ m # ys')) else []))
      = concat (map delta_reasoning (if s then concat (map sent_deltas (xs' @ ?m1 # ?m2 # ys')) else []))" for ys'
    by (cases s; simp only: if_True if_False sent_markdown sent_reasoning joined)+
  show ?thesis
  proof (cases ys rule: stream_items_cases)
    case (1 ys')
    have "xs @ Inr m # ys = map Inr (xs' @ m # ys') @ []" "xs @ Inr ?m1 # Inr ?m2 # ys = map Inr (xs' @ ?m1 # ?m2 # ys') @ []"
      using 1 \<open>xs = map Inr xs'\<close> by simp_all
    then have "(r, sent) = (stream_finish e ord (stream_run pc gi False s stream_init (xs' @ m # ys')), if s then concat (map sent_deltas (xs' @ m # ys')) else [])"
      "(r', sent') = (stream_finish e ord (stream_run pc gi False s stream_init (xs' @ ?m1 # ?m2 # ys')), if s then concat (map sent_deltas (xs' @ ?m1 # ?m2 # ys')) else [])"
      using assms(2,3) into_full_plain [where items = "[]"] by (metis list.simps(4))+
    then show ?thesis using finish [of ys'] sent [of ys'] by (simp only: prod.inject)
  next
    case (2 ys' err rest)
    have "xs @ Inr m # ys = map Inr (xs' @ m # ys') @ Inl err # rest"
      "xs @ Inr ?m1 # Inr ?m2 # ys = map Inr (xs' @ ?m1 # ?m2 # ys') @ Inl err # rest"
      using 2 \<open>xs = map Inr xs'\<close> by simp_all
    then have "(r, sent) = (Inl (SEStream err), if s then concat (map sent_deltas (xs' @ m # ys')) else [])"
      "(r', sent') = (Inl (SEStream err), if s then concat (map sent_deltas (xs' @ ?m1 # ?m2 # ys')) else [])"
      using assms(2,3) into_full_plain [where items = "Inl err # rest"] by (metis list.simps(5) sum.simps(5))+
    then show ?thesis using sent [of ys'] by (simp only: prod.inject)
  qed
qed

theorem content_fragmentation_witness:
  "fst (into_full_streaming (\<lambda>_. Inl () :: unit + unit tool_call_full) [] () id False True
     [Inr (completion_default\<lparr>cm_content := Some (CPart (lit ''ab''))\<rparr>), Inl (7 :: nat)])
   = fst (into_full_streaming (\<lambda>_. Inl ()) [] () id False True
     [Inr (completion_default\<lparr>cm_content := Some (CPart (lit ''a''))\<rparr>),
        Inr (completion_default\<lparr>cm_content := Some (CPart (lit ''b''))\<rparr>), Inl 7])"
proof -
  let ?m = "completion_default\<lparr>cm_content := Some (CPart (lit ''ab''))\<rparr> :: unit completion_message"
  have "cm_content ?m = Some (CPart (lit ''a'' @ lit ''b''))" by (simp add: lit_def)
  from content_fragmentation [where xs = "[]" and ys = "[Inl (7 :: nat)]" and pc = "\<lambda>_. Inl () :: unit + unit tool_call_full"
      and gi = "[]" and e = "()" and ord = id and s = True, OF this surjective_pairing surjective_pairing]
  show ?thesis by simp
qed

text \<open>The cost a provider reports is never lost: if any message of the stream carries a cost,
  the usage of the collected message carries one, whatever the later usage events are.\<close>

theorem collected_usage_keeps_cost:
  assumes "Some u \<in> set (map cm_usage ms)" and "u_cost u \<noteq> None"
    and "into_full pc gi e ord x (map Inr ms) = Inr full"
  shows "u_cost (cf_usage full) \<noteq> None"
proof -
  have "cf_usage full = foldl usage_step usage_default (map cm_usage ms)"
    using assms(3)
    by (auto simp: into_full_Inr stream_finish_def Let_def ss_usage_run stream_init_def split: if_splits)
  then show ?thesis
    using foldl_usage_gains_cost [OF assms(1,2)] by simp
qed

theorem collected_usage_keeps_cost_witness:
  "\<exists>full. into_full (\<lambda>_. Inl () :: unit + unit tool_call_full) [] () id False
     (map Inr [completion_default\<lparr>cm_content := Some (CPart (lit ''a'')),
        cm_usage := Some (usage_default\<lparr>u_cost := Some 1\<rparr>)\<rparr>,
      completion_default\<lparr>cm_usage := Some (usage_default\<lparr>u_prompt_tokens := Actual 3,
        u_completion_tokens := Actual 2\<rparr>)\<rparr>] :: (nat + unit completion_message) list) = Inr full
   \<and> u_cost (cf_usage full) \<noteq> None"
proof -
  let ?u = "usage_default\<lparr>u_cost := Some 1\<rparr>"
  let ?ms = "[completion_default\<lparr>cm_content := Some (CPart (lit ''a'')), cm_usage := Some ?u\<rparr>,
      completion_default\<lparr>cm_usage := Some (usage_default\<lparr>u_prompt_tokens := Actual 3,
        u_completion_tokens := Actual 2\<rparr>)\<rparr>] :: unit completion_message list"
  let ?r = "into_full (\<lambda>_. Inl () :: unit + unit tool_call_full) [] () id False (map Inr ?ms)
     :: nat stream_error + unit completion_full"
  have "case ?r of Inr _ \<Rightarrow> True | Inl _ \<Rightarrow> False" by code_simp
  then obtain full where r: "?r = Inr full" by (cases ?r) auto
  have "u_cost (cf_usage full) \<noteq> None"
    by (rule collected_usage_keeps_cost [OF _ _ r, of ?u]) simp_all
  with r show ?thesis by blast
qed

text \<open>After a tool call was recognised in the XML of the content, the rest of the stream is
  ignored except for its usage: the collected message is that of the prefix up to the
  interruption with the later usage events applied.\<close>

theorem interruption_freezes_message:
  assumes "ss_tool_interrupted (stream_run pc gi x False stream_init xs)"
  shows "into_full pc gi e ord x (map Inr (xs @ ys)) =
    (case into_full pc gi e ord x (map Inr xs) of
       Inr full \<Rightarrow> Inr (full\<lparr>cf_usage := foldl usage_step (cf_usage full) (map cm_usage ys)\<rparr>)
     | Inl err \<Rightarrow> Inl err)"
  using stream_run_interrupted [OF assms, of pc gi x False ys]
  unfolding into_full_Inr
  by (simp add: stream_finish_def Let_def)

definition demo_parse :: "rstr \<Rightarrow> unit + unit tool_call_full" where
  "demo_parse s = Inr (call_new () (lit ''sh''))"

definition demo_xml_message :: "unit completion_message" where
  "demo_xml_message =
     completion_default\<lparr>cm_content := Some (CPart (lit ''<forge_tool_call>x</forge_tool_call>''))\<rparr>"

definition demo_late_message :: "unit completion_message" where
  "demo_late_message = completion_default\<lparr>cm_content := Some (CPart (lit ''more'')),
     cm_usage := Some (usage_default\<lparr>u_cost := Some 1\<rparr>)\<rparr>"

theorem interruption_freezes_message_witness:
  "ss_tool_interrupted (stream_run demo_parse [] True False stream_init [demo_xml_message])
   \<and> (into_full demo_parse [] () id True (map Inr ([demo_xml_message] @ [demo_late_message]))
        :: nat stream_error + unit completion_full)
     = (case into_full demo_parse [] () id True (map Inr [demo_xml_message]) of
         Inr full \<Rightarrow> Inr (full\<lparr>cf_usage := foldl usage_step (cf_usage full) (map cm_usage [demo_late_message])\<rparr>)
       | Inl err \<Rightarrow> Inl err)"
proof -
  have i: "ss_tool_interrupted (stream_run demo_parse [] True False stream_init [demo_xml_message])"
    by code_simp
  show ?thesis
    by (rule conjI [OF i]) (rule interruption_freezes_message [OF i])
qed

text \<open>What the sender streams is what is collected: without XML interruption the markdown
  deltas sent concatenate to the content of the collected message, and the reasoning deltas to
  its reasoning.\<close>

theorem streamed_deltas_match:
  assumes "into_full_streaming pc gi e ord False True (map Inr ms) = (Inr full, sent)"
  shows "concat (map delta_markdown sent) = cf_content full
    \<and> concat (map delta_reasoning sent) = (case cf_reasoning full of Some r \<Rightarrow> r | None \<Rightarrow> [])"
proof -
  have "sent = concat (map sent_deltas ms)" "cf_content full = joined_content ms"
    "cf_reasoning full = (if joined_reasoning ms = [] then None else Some (joined_reasoning ms))"
    using assms
    by (auto simp: into_full_streaming_def stream_loop_Inr stream_run_plain stream_init_def
        stream_finish_def Let_def truncate_interrupted_def split: if_splits)
  then show ?thesis by (simp add: sent_markdown sent_reasoning)
qed

theorem streamed_deltas_match_witness:
  "\<exists>full sent. into_full_streaming (\<lambda>_. Inl () :: unit + unit tool_call_full) [] () id False True
     (map Inr [completion_default\<lparr>cm_content := Some (CPart (lit ''ab'')), cm_reasoning := Some (CPart (lit ''r''))\<rparr>,
        completion_default\<lparr>cm_content := Some (CPart (lit ''c''))\<rparr>] :: (nat + unit completion_message) list)
     = (Inr full, sent) \<and> concat (map delta_markdown sent) = cf_content full"
proof -
  let ?r = "into_full_streaming (\<lambda>_. Inl () :: unit + unit tool_call_full) [] () id False True
     (map Inr [completion_default\<lparr>cm_content := Some (CPart (lit ''ab'')), cm_reasoning := Some (CPart (lit ''r''))\<rparr>,
        completion_default\<lparr>cm_content := Some (CPart (lit ''c''))\<rparr>] :: (nat + unit completion_message) list)"
  have "case fst ?r of Inr _ \<Rightarrow> True | Inl _ \<Rightarrow> False" by code_simp
  then obtain full where "fst ?r = Inr full" by (cases "fst ?r") auto
  then have r: "?r = (Inr full, snd ?r)" by (metis prod.collapse)
  show ?thesis
    using streamed_deltas_match [OF r] r by blast
qed

text \<open>A complete tool call in the stream is never dropped: without XML interruption it is among
  the collected calls, and neither a refusal nor an empty completion is reported.\<close>

theorem full_tool_call_is_collected:
  assumes "m \<in> set ms" and "TCFull c \<in> set (cm_tool_calls m)"
  shows "\<exists>full. into_full pc gi e ord False (map Inr ms) = Inr full \<and> c \<in> set (cf_tool_calls full)"
proof -
  have c: "c \<in> set (collected_tool_calls e ms None)"
    using assms by (force simp: collected_tool_calls_def Let_def map_filter_def opt_list_def)
  then have "collected_tool_calls e ms None \<noteq> []" by auto
  with c show ?thesis
    unfolding into_full_Inr
    by (simp add: stream_run_plain stream_init_def stream_finish_def Let_def)
qed

theorem full_tool_call_is_collected_witness:
  "\<exists>full. into_full (\<lambda>_. Inl () :: unit + unit tool_call_full) [] () id False
     (map Inr [completion_default\<lparr>cm_tool_calls := [TCFull (call_new () (lit ''read''))],
        cm_finish_reason := Some FRRefusal\<rparr>] :: (nat + unit completion_message) list) = Inr full
     \<and> call_new () (lit ''read'') \<in> set (cf_tool_calls full)"
  by (rule full_tool_call_is_collected [of "completion_default\<lparr>cm_tool_calls := [TCFull (call_new () (lit ''read''))],
        cm_finish_reason := Some FRRefusal\<rparr>"]) simp_all

end
