(* ===== verification/Chat_Context.thy ===== *)
theory Chat_Context
  imports Messages
begin

text \<open>
  \<open>Context\<close> of \<open>forge_domain/src/context.rs\<close>: the request to a provider, with its message
  entries, and the operations that extend and inspect it. The section on pairing defines the
  invariant \<open>paired\<close> and shows how it behaves under concatenation, cutting and filtering.
\<close>

section \<open>State\<close>

datatype effort = ENone | EMinimal | ELow | EMedium | EHigh | EXHigh | EMax

record reasoning_config =
  rc_effort :: "effort option"
  rc_max_tokens :: "nat option"
  rc_exclude :: "bool option"
  rc_enabled :: "bool option"

record 'v tool_definition =
  td_name :: rstr
  td_description :: rstr
  td_input_schema :: 'v

datatype tool_choice = TCNone | TCAuto | TCRequired | TCCall rstr

datatype 'v response_format = RFText | RFJsonSchema 'v

record 'v chat_context =
  ctx_conversation_id :: "rstr option"
  ctx_initiator :: "rstr option"
  ctx_messages :: "'v message_entry list"
  ctx_tools :: "'v tool_definition list"
  ctx_tool_choice :: "tool_choice option"
  ctx_max_tokens :: "nat option"
  ctx_temperature :: "rat option"
  ctx_top_p :: "rat option"
  ctx_top_k :: "nat option"
  ctx_reasoning :: "reasoning_config option"
  ctx_stream :: "bool option"
  ctx_response_format :: "'v response_format option"

definition context_default :: "'v chat_context" where
  "context_default = \<lparr>ctx_conversation_id = None, ctx_initiator = None, ctx_messages = [],
     ctx_tools = [], ctx_tool_choice = None, ctx_max_tokens = None, ctx_temperature = None,
     ctx_top_p = None, ctx_top_k = None, ctx_reasoning = None, ctx_stream = None,
     ctx_response_format = None\<rparr>"

abbreviation entry_has_role :: "'v message_entry \<Rightarrow> role \<Rightarrow> bool" where
  "entry_has_role e r \<equiv> has_role (me_message e) r"

section \<open>Operations\<close>

definition accumulate_usage :: "'v chat_context \<Rightarrow> usage option" where
  "accumulate_usage c = find_map me_usage (rev (ctx_messages c))"

definition system_prompt :: "'v chat_context \<Rightarrow> rstr option" where
  "system_prompt c =
     (case find (\<lambda>m. entry_has_role m System) (ctx_messages c) of
        Some m \<Rightarrow> msg_content (me_message m)
      | None \<Rightarrow> None)"

definition add_entry :: "'v chat_context \<Rightarrow> 'v message_entry \<Rightarrow> 'v chat_context" where
  "add_entry c e = c\<lparr>ctx_messages := ctx_messages c @ [e]\<rparr>"

definition add_message :: "'v chat_context \<Rightarrow> 'v context_message \<Rightarrow> 'v chat_context" where
  "add_message c m = add_entry c (entry_of m)"

definition add_base64_url :: "'v chat_context \<Rightarrow> image \<Rightarrow> 'v chat_context" where
  "add_base64_url c im = c\<lparr>ctx_messages := ctx_messages c @ [entry_of (CImage im)]\<rparr>"

definition add_tool :: "'v chat_context \<Rightarrow> 'v tool_definition \<Rightarrow> 'v chat_context" where
  "add_tool c t = c\<lparr>ctx_tools := ctx_tools c @ [t]\<rparr>"

definition add_tool_results :: "'v chat_context \<Rightarrow> tool_result list \<Rightarrow> 'v chat_context" where
  "add_tool_results c rs =
     (if rs \<noteq> []
      then c\<lparr>ctx_messages := ctx_messages c @ map (\<lambda>r. entry_of (msg_tool_result r)) rs\<rparr>
      else c)"

definition set_system_messages :: "rstr list \<Rightarrow> 'v chat_context \<Rightarrow> 'v chat_context" where
  "set_system_messages content c =
     (if ctx_messages c = []
      then foldl (\<lambda>c s. c\<lparr>ctx_messages := ctx_messages c @ [entry_of (msg_system s)]\<rparr>) c content
      else
        let c = c\<lparr>ctx_messages := filter (\<lambda>m. \<not> entry_has_role m System) (ctx_messages c)\<rparr>
        in foldl (\<lambda>c s. c\<lparr>ctx_messages := entry_of (msg_system s) # ctx_messages c\<rparr>)
             c (rev content))"

definition append_message ::
  "'v chat_context \<Rightarrow> rstr \<Rightarrow> rstr option \<Rightarrow> rstr option \<Rightarrow> reasoning_detail list option \<Rightarrow> usage
     \<Rightarrow> ('v tool_call_full \<times> tool_result) list \<Rightarrow> message_phase option \<Rightarrow> 'v chat_context" where
  "append_message c content sig reasoning details usage tool_records phase =
     (let merged = (case (reasoning, details) of
              (_, Some ds) \<Rightarrow> Some ds
            | (Some txt, None) \<Rightarrow>
                Some [reasoning_default\<lparr>rd_text := Some txt,
                        rd_type_of := Some (lit ''reasoning.text'')\<rparr>]
            | (None, None) \<Rightarrow> None);
          message = entry_of (msg_assistant content sig merged (Some (map fst tool_records)));
          message = (case me_message message of
              CText t \<Rightarrow> message\<lparr>me_message := CText (t\<lparr>tm_phase := phase\<rparr>)\<rparr>
            | _ \<Rightarrow> message);
          tool_results = map snd tool_records
      in add_tool_results (add_entry c (message\<lparr>me_usage := Some usage\<rparr>)) tool_results)"

definition context_token_count_approx :: "('v \<Rightarrow> rstr) \<Rightarrow> 'v chat_context \<Rightarrow> nat" where
  "context_token_count_approx ts c =
     sum_list (map (\<lambda>m. token_count_approx ts (me_message m)) (ctx_messages c))"

definition token_count :: "('v \<Rightarrow> rstr) \<Rightarrow> 'v chat_context \<Rightarrow> tok_count" where
  "token_count ts c =
     (let last_entry = (if ctx_messages c = [] then None else Some (last (ctx_messages c)));
          actual = (case Option.bind last_entry me_usage of
              Some u \<Rightarrow> u_total_tokens u
            | None \<Rightarrow> tok_default)
      in case actual of
           Actual n \<Rightarrow> if n > 0 then Actual n else Approx (context_token_count_approx ts c)
         | Approx _ \<Rightarrow> Approx (context_token_count_approx ts c))"

definition is_reasoning_supported :: "'v chat_context \<Rightarrow> bool" where
  "is_reasoning_supported c =
     (case ctx_reasoning c of
        None \<Rightarrow> False
      | Some r \<Rightarrow>
          if rc_effort r = Some ENone then False
          else case rc_enabled r of
              Some b \<Rightarrow> b
            | None \<Rightarrow> rc_effort r \<noteq> None
                \<or> (case rc_max_tokens r of Some n \<Rightarrow> n > 0 | None \<Rightarrow> False))"

text \<open>The loop of \<open>first_user_messages\<close>, with its flag \<open>is_user\<close>.\<close>

fun first_user_loop :: "bool \<Rightarrow> 'v message_entry list \<Rightarrow> 'v context_message list" where
  "first_user_loop is_user [] = []"
| "first_user_loop is_user (m # ms) =
     (if entry_has_role m User
      then (if \<not> is_user then me_message m # first_user_loop True ms
            else first_user_loop is_user ms)
      else first_user_loop False ms)"

definition first_user_messages :: "'v chat_context \<Rightarrow> 'v context_message list" where
  "first_user_messages c =
     (if ctx_messages c = [] then [] else first_user_loop False (ctx_messages c))"

definition total_messages :: "'v chat_context \<Rightarrow> nat" where
  "total_messages c = length (ctx_messages c)"

definition user_message_count :: "'v chat_context \<Rightarrow> nat" where
  "user_message_count c = length (filter (\<lambda>m. entry_has_role m User) (ctx_messages c))"

definition assistant_message_count :: "'v chat_context \<Rightarrow> nat" where
  "assistant_message_count c = length (filter (\<lambda>m. entry_has_role m Assistant) (ctx_messages c))"

definition tool_call_count :: "'v chat_context \<Rightarrow> nat" where
  "tool_call_count c =
     sum_list (map (\<lambda>m. case me_message m of
         CText t \<Rightarrow> (case tm_tool_calls t of Some cs \<Rightarrow> length cs | None \<Rightarrow> 0)
       | _ \<Rightarrow> 0)
       (filter (\<lambda>m. has_tool_call (me_message m)) (ctx_messages c)))"

definition has_model_changed :: "'v chat_context \<Rightarrow> rstr \<Rightarrow> bool" where
  "has_model_changed c current_model =
     (case find_map (\<lambda>m. case me_message m of
           CText t \<Rightarrow> if tm_role t = Assistant then tm_model t else None
         | _ \<Rightarrow> None) (rev (ctx_messages c)) of
        None \<Rightarrow> True
      | Some prev \<Rightarrow> prev \<noteq> current_model)"

section \<open>Pairing of tool calls and tool results\<close>

text \<open>
  The automaton that reads the messages: its state is the list of tool calls whose results are
  still owed. A tool result must answer the first owed call; nothing else may come while calls
  are owed. Providers reject a history the automaton does not accept.
\<close>

fun pair_step :: "'v tool_call_full list \<Rightarrow> 'v context_message \<Rightarrow> 'v tool_call_full list option" where
  "pair_step [] (CText t) =
     (case tm_tool_calls t of None \<Rightarrow> Some [] | Some cs \<Rightarrow> if cs = [] then None else Some cs)"
| "pair_step [] (CImage _) = Some []"
| "pair_step [] (CTool _) = None"
| "pair_step (c # cs) (CTool r) = (if tr_call_id r = tc_call_id c then Some cs else None)"
| "pair_step (c # cs) _ = None"

fun pair_run :: "'v tool_call_full list \<Rightarrow> 'v message_entry list \<Rightarrow> 'v tool_call_full list option" where
  "pair_run owed [] = Some owed"
| "pair_run owed (m # ms) =
     (case pair_step owed (me_message m) of Some owed' \<Rightarrow> pair_run owed' ms | None \<Rightarrow> None)"

definition paired :: "'v message_entry list \<Rightarrow> bool" where
  "paired ms \<longleftrightarrow> pair_run [] ms = Some []"

lemma pair_run_append:
  "pair_run owed (xs @ ys) =
     (case pair_run owed xs of Some owed' \<Rightarrow> pair_run owed' ys | None \<Rightarrow> None)"
  by (induction xs arbitrary: owed) (auto split: option.splits)

lemma paired_append: "paired xs \<Longrightarrow> paired ys \<Longrightarrow> paired (xs @ ys)"
  by (simp add: paired_def pair_run_append)

lemma paired_suffix: "paired (xs @ ys) \<Longrightarrow> paired xs \<Longrightarrow> paired ys"
  by (simp add: paired_def pair_run_append)

lemma paired_Nil [simp]: "paired []"
  by (simp add: paired_def)

text \<open>A message outside any exchange keeps the automaton where it is.\<close>

definition plain_message :: "'v context_message \<Rightarrow> bool" where
  "plain_message m \<longleftrightarrow> \<not> has_tool_call m \<and> \<not> has_tool_result m"

lemma pair_step_plain: "plain_message m \<Longrightarrow> pair_step owed m = (if owed = [] then Some [] else None)"
  by (cases owed; cases m) (auto simp: plain_message_def)

lemma paired_plain: "list_all (\<lambda>m. plain_message (me_message m)) ms \<Longrightarrow> paired ms"
  by (induction ms) (auto simp: paired_def pair_step_plain)

lemma pair_run_filter_plain:
  assumes "\<And>m. m \<in> set ms \<Longrightarrow> \<not> P m \<Longrightarrow> plain_message (me_message m)"
    and "pair_run owed ms = Some owed'"
  shows "pair_run owed (filter P ms) = Some owed'"
  using assms
proof (induction ms arbitrary: owed)
  case Nil
  then show ?case by simp
next
  case (Cons m ms)
  then obtain q where q: "pair_step owed (me_message m) = Some q" "pair_run q ms = Some owed'"
    by (auto split: option.splits)
  show ?case
  proof (cases "P m")
    case True
    with Cons q show ?thesis by simp
  next
    case False
    with Cons.prems(1) have "plain_message (me_message m)" by simp
    with q(1) have "q = owed" by (simp add: pair_step_plain split: if_splits)
    with False Cons q show ?thesis by simp
  qed
qed

lemma paired_filter:
  "(\<And>m. m \<in> set ms \<Longrightarrow> \<not> P m \<Longrightarrow> plain_message (me_message m)) \<Longrightarrow> paired ms
     \<Longrightarrow> paired (filter P ms)"
  by (simp add: paired_def pair_run_filter_plain)

text \<open>The automaton looks at tool calls and results only.\<close>

lemma pair_run_cong:
  "list_all2 (\<lambda>m n. \<forall>owed. pair_step owed (me_message m) = pair_step owed (me_message n)) ms ns
     \<Longrightarrow> pair_run owed ms = pair_run owed ns"
  by (induction ms ns arbitrary: owed rule: list_all2_induct) (auto split: option.splits)

text \<open>
  Cutting a paired history: a prefix is itself paired exactly when the next message is not a
  tool result.
\<close>

lemma pair_run_cut:
  assumes "pair_run [] (xs @ y # ys) = Some []"
  shows "pair_run [] xs = Some [] \<longleftrightarrow> \<not> has_tool_result (me_message y)"
proof -
  from assms obtain q where q: "pair_run [] xs = Some q" "pair_step q (me_message y) \<noteq> None"
    by (auto simp: pair_run_append split: option.splits)
  have "q = [] \<longleftrightarrow> \<not> has_tool_result (me_message y)"
    using q(2) by (cases q; cases "me_message y") auto
  with q(1) show ?thesis by simp
qed

lemma paired_take_iff:
  assumes "paired ms" and "k < length ms"
  shows "paired (take k ms) \<longleftrightarrow> \<not> has_tool_result (me_message (ms ! k))"
  using pair_run_cut [of "take k ms" "ms ! k" "drop (Suc k) ms"] assms
  by (simp add: paired_def id_take_nth_drop [symmetric])

lemma paired_drop: "paired ms \<Longrightarrow> paired (take k ms) \<Longrightarrow> paired (drop k ms)"
  by (metis append_take_drop_id paired_suffix)

lemma paired_take_Suc_plain:
  assumes "paired ms" and "k < length ms" and "paired (take k ms)"
    and "\<not> has_tool_call (me_message (ms ! k))"
  shows "paired (take (Suc k) ms)"
proof -
  have "plain_message (me_message (ms ! k))"
    using assms paired_take_iff by (auto simp: plain_message_def)
  with assms show ?thesis
    by (simp add: take_Suc_conv_app_nth paired_def pair_run_append pair_step_plain)
qed

text \<open>What the automaton looks at: the ids of calls and results; and the role of a text message.\<close>

fun msg_shape ::
  "'v context_message \<Rightarrow> role \<times> rstr option list option + rstr option option" where
  "msg_shape (CText t) = Inl (tm_role t, map_option (map tc_call_id) (tm_tool_calls t))"
| "msg_shape (CTool r) = Inr (Some (tr_call_id r))"
| "msg_shape (CImage _) = Inr None"

lemma pair_step_shape:
  assumes "msg_shape m = msg_shape n" and "map tc_call_id owed = map tc_call_id owed'"
  shows "map_option (map tc_call_id) (pair_step owed m) = map_option (map tc_call_id) (pair_step owed' n)"
  using assms
  by (cases m; cases n; cases owed; cases owed')
    (auto simp: Some_eq_map_option split: option.splits)

lemma pair_run_shape:
  assumes "map (\<lambda>e. msg_shape (me_message e)) ms = map (\<lambda>e. msg_shape (me_message e)) ns"
    and "map tc_call_id owed = map tc_call_id owed'"
  shows "map_option (map tc_call_id) (pair_run owed ms) = map_option (map tc_call_id) (pair_run owed' ns)"
  using assms
proof (induction ms arbitrary: ns owed owed')
  case Nil
  then show ?case by simp
next
  case (Cons m ms)
  then obtain n ns' where n: "ns = n # ns'" "msg_shape (me_message m) = msg_shape (me_message n)"
    "map (\<lambda>e. msg_shape (me_message e)) ms = map (\<lambda>e. msg_shape (me_message e)) ns'"
    by auto
  with pair_step_shape [OF n(2) Cons.prems(2)] Cons.IH [OF n(3)] show ?case
    by (auto split: option.splits)
qed

lemma paired_shape:
  assumes "map (\<lambda>e. msg_shape (me_message e)) ms = map (\<lambda>e. msg_shape (me_message e)) ns"
  shows "paired ms \<longleftrightarrow> paired ns"
proof -
  have "map_option (map tc_call_id) (pair_run [] ms) = map_option (map tc_call_id) (pair_run [] ns)"
    using assms by (rule pair_run_shape) simp
  then show ?thesis
    by (cases "pair_run [] ms"; cases "pair_run [] ns") (auto simp: paired_def)
qed

text \<open>A history the providers accept: paired, and only the assistant makes tool calls.\<close>

definition calls_by_assistant :: "'v context_message \<Rightarrow> bool" where
  "calls_by_assistant m =
     (case m of CText t \<Rightarrow> tm_role t = Assistant \<or> tm_tool_calls t = None | _ \<Rightarrow> True)"

definition well_formed_history :: "'v message_entry list \<Rightarrow> bool" where
  "well_formed_history ms \<longleftrightarrow> paired ms \<and> list_all (\<lambda>e. calls_by_assistant (me_message e)) ms"

lemma calls_by_assistant_shape: "msg_shape m = msg_shape n \<Longrightarrow> calls_by_assistant m = calls_by_assistant n"
  by (cases m; cases n) (auto simp: calls_by_assistant_def)

lemma well_formed_shape:
  assumes "map (\<lambda>e. msg_shape (me_message e)) ms = map (\<lambda>e. msg_shape (me_message e)) ns"
  shows "well_formed_history ms \<longleftrightarrow> well_formed_history ns"
proof -
  have "list_all2 (\<lambda>e e'. msg_shape (me_message e) = msg_shape (me_message e')) ms ns"
    using assms by (simp add: list_all2_conv_all_nth list_eq_iff_nth_eq)
  then have "list_all (\<lambda>e. calls_by_assistant (me_message e)) ms =
      list_all (\<lambda>e. calls_by_assistant (me_message e)) ns"
    by (induction rule: list_all2_induct) (auto dest: calls_by_assistant_shape)
  with paired_shape [OF assms] show ?thesis
    by (simp add: well_formed_history_def)
qed

lemma paired_calls_not_Nil:
  "paired ms \<Longrightarrow> e \<in> set ms \<Longrightarrow> me_message e = CText t \<Longrightarrow> tm_tool_calls t \<noteq> Some []"
proof -
  assume "paired ms" "e \<in> set ms" and e: "me_message e = CText t"
  then obtain xs ys where "ms = xs @ e # ys" by (meson split_list)
  with \<open>paired ms\<close> obtain owed where "pair_step owed (me_message e) \<noteq> None"
    by (auto simp: paired_def pair_run_append split: option.splits)
  with e show ?thesis by (cases owed) auto
qed

section \<open>Lemmas on the operations\<close>

lemma ctx_messages_add_entry [simp, ctx_simps]:
  "ctx_messages (add_entry c e) = ctx_messages c @ [e]"
  by (simp add: add_entry_def)

lemma ctx_messages_add_tool_results [simp, ctx_simps]:
  "ctx_messages (add_tool_results c rs) =
     ctx_messages c @ map (\<lambda>r. entry_of (msg_tool_result r)) rs"
  by (simp add: add_tool_results_def)

lemma me_entry_of [simp]: "me_message (entry_of m) = m" "me_usage (entry_of m) = None"
  by (simp_all add: entry_of_def)

lemma foldl_snoc_system:
  "foldl (\<lambda>c s. c\<lparr>ctx_messages := ctx_messages c @ [entry_of (msg_system s)]\<rparr>) c ss =
     c\<lparr>ctx_messages := ctx_messages c @ map (\<lambda>s. entry_of (msg_system s)) ss\<rparr>"
  by (induction ss arbitrary: c) auto

lemma foldl_cons_system:
  "foldl (\<lambda>c s. c\<lparr>ctx_messages := entry_of (msg_system s) # ctx_messages c\<rparr>) c ss =
     c\<lparr>ctx_messages := rev (map (\<lambda>s. entry_of (msg_system s)) ss) @ ctx_messages c\<rparr>"
  by (induction ss arbitrary: c) auto

text \<open>The entry \<open>append_message\<close> adds for the assistant.\<close>

definition appended_assistant ::
  "rstr \<Rightarrow> rstr option \<Rightarrow> reasoning_detail list option \<Rightarrow> usage
     \<Rightarrow> ('v tool_call_full \<times> tool_result) list \<Rightarrow> message_phase option \<Rightarrow> 'v message_entry" where
  "appended_assistant content sig merged usage recs phase =
     \<lparr>me_message = CText \<lparr>tm_role = Assistant, tm_content = content, tm_raw_content = None,
        tm_tool_calls = (if recs = [] then None else Some (map fst recs)),
        tm_thought_signature = sig, tm_model = None, tm_reasoning_details = merged,
        tm_droppable = False, tm_phase = phase\<rparr>,
      me_usage = Some usage\<rparr>"

lemma append_message_messages:
  "\<exists>merged. (details \<noteq> None \<longrightarrow> merged = details) \<and>
     ctx_messages (append_message c content sig reasoning details usage recs phase) =
       ctx_messages c @ appended_assistant content sig merged usage recs phase
         # map (\<lambda>r. entry_of (msg_tool_result (snd r))) recs"
proof -
  have eq: "ctx_messages (append_message c content sig reasoning details usage recs phase) =
      ctx_messages c @ appended_assistant content sig
        (case (reasoning, details) of (_, Some ds) \<Rightarrow> Some ds
          | (Some txt, None) \<Rightarrow> Some [reasoning_default\<lparr>rd_text := Some txt,
                        rd_type_of := Some (lit ''reasoning.text'')\<rparr>]
          | (None, None) \<Rightarrow> None) usage recs phase
        # map (\<lambda>r. entry_of (msg_tool_result (snd r))) recs"
    by (simp add: append_message_def Let_def msg_assistant_def appended_assistant_def entry_of_def
        comp_def)
  show ?thesis
    by (rule exI, rule conjI [OF _ eq]) (auto split: option.splits)
qed

lemma pair_run_results:
  "list_all (\<lambda>(c, r). tr_call_id r = tc_call_id c) recs \<Longrightarrow>
     pair_run (map fst recs) (map (\<lambda>r. entry_of (msg_tool_result (snd r))) recs) = Some []"
  by (induction recs) (auto simp: msg_tool_result_def)

text \<open>In a paired history there is exactly one tool result per tool call.\<close>

definition tool_result_count :: "'v message_entry list \<Rightarrow> nat" where
  "tool_result_count ms = length (filter (\<lambda>m. has_tool_result (me_message m)) ms)"

definition entry_call_count :: "'v message_entry \<Rightarrow> nat" where
  "entry_call_count m =
     (case me_message m of
        CText t \<Rightarrow> (case tm_tool_calls t of Some cs \<Rightarrow> length cs | None \<Rightarrow> 0)
      | _ \<Rightarrow> 0)"

lemma tool_call_count_eq: "tool_call_count c = sum_list (map entry_call_count (ctx_messages c))"
proof -
  have "sum_list (map entry_call_count (filter (\<lambda>m. has_tool_call (me_message m)) ms)) =
      sum_list (map entry_call_count ms)" for ms :: "'a message_entry list"
  proof (induction ms)
    case (Cons m ms)
    have "\<not> has_tool_call (me_message m) \<Longrightarrow> entry_call_count m = 0"
      by (cases "me_message m") (auto simp: entry_call_count_def)
    with Cons show ?case by simp
  qed simp
  then show ?thesis by (simp add: tool_call_count_def entry_call_count_def [abs_def])
qed

lemma pair_step_counts:
  "pair_step owed (me_message m) = Some owed' \<Longrightarrow>
     length owed + entry_call_count m = length owed' + (if has_tool_result (me_message m) then 1 else 0)"
  by (cases owed; cases "me_message m") (auto simp: entry_call_count_def split: option.splits if_splits)

lemma pair_run_counts:
  "pair_run owed ms = Some owed' \<Longrightarrow>
     length owed + sum_list (map entry_call_count ms) = length owed' + tool_result_count ms"
proof (induction ms arbitrary: owed)
  case Nil
  then show ?case by (simp add: tool_result_count_def)
next
  case (Cons m ms)
  then obtain q where q: "pair_step owed (me_message m) = Some q" "pair_run q ms = Some owed'"
    by (auto split: option.splits)
  have "tool_result_count (m # ms) =
      (if has_tool_result (me_message m) then 1 else 0) + tool_result_count ms"
    by (simp add: tool_result_count_def)
  with pair_step_counts [OF q(1)] Cons.IH [OF q(2)] show ?case by simp
qed

lemma append_paired:
  assumes "paired (ctx_messages c)"
    and "list_all (\<lambda>(call, r). tr_call_id r = tc_call_id call) recs"
  shows "paired (ctx_messages (append_message c content sig reasoning details usage recs phase))"
proof -
  obtain merged where ms: "ctx_messages (append_message c content sig reasoning details usage recs phase) =
      ctx_messages c @ appended_assistant content sig merged usage recs phase
        # map (\<lambda>r. entry_of (msg_tool_result (snd r))) recs"
    using append_message_messages by blast
  have "pair_run [] (appended_assistant content sig merged usage recs phase
        # map (\<lambda>r. entry_of (msg_tool_result (snd r))) recs) = Some []"
    using pair_run_results [OF assms(2)] by (simp add: appended_assistant_def)
  with assms(1) show ?thesis
    unfolding ms by (simp add: paired_def pair_run_append)
qed

section \<open>Properties\<close>

text \<open>C18: Appending a turn keeps the history well paired: if every record's result carries the id of
  its call, then after \<open>append_message\<close> every assistant message with tool calls is still followed
  by exactly the results of those calls, in order.\<close>

theorem append_message_paired:
  assumes "paired (ctx_messages c)"
    and "list_all (\<lambda>(call, r). tr_call_id r = tc_call_id call) recs"
  shows "paired (ctx_messages (append_message c content sig reasoning details usage recs phase))"
  using assms by (rule append_paired)

definition demo_records :: "(unit tool_call_full \<times> tool_result) list" where
  "demo_records =
     [(\<lparr>tc_name = lit ''read'', tc_call_id = Some [1], tc_arguments = Parsed (), tc_thought_signature = None\<rparr>,
       \<lparr>tr_name = lit ''read'', tr_call_id = Some [1], tr_output = output_text (lit ''ok'')\<rparr>),
      (\<lparr>tc_name = lit ''shell'', tc_call_id = Some [2], tc_arguments = Parsed (), tc_thought_signature = None\<rparr>,
       \<lparr>tr_name = lit ''shell'', tr_call_id = Some [2], tr_output = output_text (lit ''done'')\<rparr>)]"

theorem append_message_paired_witness:
  "paired (ctx_messages (append_message (add_message context_default (msg_user (lit ''hi'') None))
     (lit ''sure'') None (Some (lit ''think'')) None usage_default demo_records None))"
  by (rule append_message_paired)
    (simp_all add: demo_records_def add_message_def context_default_def paired_def msg_user_def)

text \<open>\<open>set_system_messages\<close> changes nothing but the messages, which become the given system
  messages in order followed by the earlier non-system messages in order, whether or not the
  context was empty.\<close>

theorem set_system_messages_spec:
  "set_system_messages content c =
     c\<lparr>ctx_messages := map (\<lambda>s. entry_of (msg_system s)) content
        @ filter (\<lambda>m. \<not> entry_has_role m System) (ctx_messages c)\<rparr>"
  by (simp add: set_system_messages_def Let_def foldl_snoc_system foldl_cons_system rev_map)

text \<open>In a context whose history is paired, the number of tool results equals
  \<open>tool_call_count\<close>: no call is unanswered and no result is orphaned.\<close>

theorem paired_call_count:
  assumes "paired (ctx_messages c)"
  shows "tool_call_count c = tool_result_count (ctx_messages c)"
  using pair_run_counts [of "[]" "ctx_messages c" "[]"] assms
  by (simp add: paired_def tool_call_count_eq)

theorem paired_call_count_witness:
  "tool_call_count (append_message context_default (lit ''x'') None None None usage_default
       demo_records None)
   = tool_result_count (ctx_messages (append_message context_default (lit ''x'') None None None
       usage_default demo_records None))"
proof (rule paired_call_count)
  show "paired (ctx_messages (append_message context_default (lit ''x'') None None None usage_default
      demo_records None))"
    by code_simp
qed

text \<open>Token accounting after a turn: \<open>accumulate_usage\<close> is the usage of that turn; and
  \<open>token_count\<close> reports the provider's total exactly when the turn made no tool call and the
  total is a positive actual count, otherwise the character estimate of the whole context.\<close>

theorem append_message_usage:
  "accumulate_usage (append_message c content sig reasoning details usage recs phase) = Some usage
   \<and> token_count ts (append_message c content sig reasoning details usage recs phase) =
      (case u_total_tokens usage of
         Actual n \<Rightarrow> if recs = [] \<and> 0 < n then Actual n
           else Approx (context_token_count_approx ts
             (append_message c content sig reasoning details usage recs phase))
       | Approx _ \<Rightarrow> Approx (context_token_count_approx ts
             (append_message c content sig reasoning details usage recs phase)))"
proof -
  obtain merged where ms: "ctx_messages (append_message c content sig reasoning details usage recs phase) =
      ctx_messages c @ appended_assistant content sig merged usage recs phase
        # map (\<lambda>r. entry_of (msg_tool_result (snd r))) recs"
    using append_message_messages by blast
  have none: "find_map me_usage (rev (map (\<lambda>r. entry_of (msg_tool_result (snd r))) recs)) = None"
    by (simp add: find_map_None_iff)
  have "accumulate_usage (append_message c content sig reasoning details usage recs phase) = Some usage"
    unfolding accumulate_usage_def ms
    by (simp add: find_map_append none appended_assistant_def)
  moreover have "Option.bind (if ctx_messages (append_message c content sig reasoning details usage recs phase) = []
        then None else Some (last (ctx_messages (append_message c content sig reasoning details usage recs phase))))
      me_usage = (if recs = [] then Some usage else None)"
    unfolding ms by (simp add: last_map appended_assistant_def)
  ultimately show ?thesis
    by (simp add: token_count_def Let_def tok_default_def split: tok_count.splits)
qed

text \<open>\<open>first_user_messages\<close> returns the heads of the maximal runs of user messages: the user
  messages that come first or follow a message that is not the user's, in order.\<close>

lemma first_user_loop_filter:
  "first_user_loop b ms =
     map (\<lambda>(prev, m). me_message m)
       (filter (\<lambda>(prev, m). \<not> prev \<and> entry_has_role m User)
         (zip (b # map (\<lambda>m. entry_has_role m User) ms) ms))"
  by (induction ms arbitrary: b) auto

end
