(* ===== verification/Tool_Order.thy ===== *)
theory Tool_Order
  imports Chat_Context "HOL-Library.Multiset" "HOL-Library.Product_Lexorder"
begin

text \<open>
  \<open>forge_domain/src/tool_order.rs\<close>: the order in which an agent's tools are presented. Entries of
  the order list are exact names or glob patterns; \<open>sort_by\<close> of the standard library is a stable
  sort that demands a total order of its comparator, the contract of the locale \<open>total_order\<close>.
\<close>

section \<open>Stable sorting by a comparator\<close>

datatype ordering = Less | Equal | Greater

definition cmp :: "'a::linorder \<Rightarrow> 'a \<Rightarrow> ordering" where
  "cmp x y = (if x < y then Less else if x = y then Equal else Greater)"

fun insert_by :: "('a \<Rightarrow> 'a \<Rightarrow> ordering) \<Rightarrow> 'a \<Rightarrow> 'a list \<Rightarrow> 'a list" where
  "insert_by c x [] = [x]"
| "insert_by c x (y # ys) = (if c x y = Greater then y # insert_by c x ys else x # y # ys)"

definition sort_by :: "('a \<Rightarrow> 'a \<Rightarrow> ordering) \<Rightarrow> 'a list \<Rightarrow> 'a list" where
  "sort_by c xs = foldr (insert_by c) xs []"

lemma mset_insert_by: "mset (insert_by c x xs) = add_mset x (mset xs)"
  by (induction xs) auto

lemma mset_sort_by: "mset (sort_by c xs) = mset xs"
  by (induction xs) (simp_all add: sort_by_def mset_insert_by)

locale total_order =
  fixes c :: "'a \<Rightarrow> 'a \<Rightarrow> ordering"
  assumes flip: "c x y = Greater \<longleftrightarrow> c y x = Less"
    and trans: "c x y \<noteq> Greater \<Longrightarrow> c y z \<noteq> Greater \<Longrightarrow> c x z \<noteq> Greater"
begin

lemma refl: "c x x = Equal"
  using flip [of x x] by (cases "c x x") auto

lemma greater_le: "c x y = Greater \<Longrightarrow> c y x \<noteq> Greater"
  using flip [of x y] by auto

lemma set_insert_by: "set (insert_by c x xs) = insert x (set xs)"
  by (induction xs) auto

lemma sorted_insert_by:
  "sorted_wrt (\<lambda>x y. c x y \<noteq> Greater) xs \<Longrightarrow> sorted_wrt (\<lambda>x y. c x y \<noteq> Greater) (insert_by c x xs)"
proof (induction xs)
  case (Cons a xs)
  show ?case
  proof (cases "c x a = Greater")
    case True
    then show ?thesis using Cons greater_le by (simp add: set_insert_by)
  next
    case False
    then have "\<forall>y \<in> set xs. c x y \<noteq> Greater"
      using Cons.prems trans [of x a] by simp
    then show ?thesis using False Cons.prems by simp
  qed
qed simp

lemma sorted_sort_by: "sorted_wrt (\<lambda>x y. c x y \<noteq> Greater) (sort_by c xs)"
  by (induction xs) (simp_all add: sort_by_def sorted_insert_by)

lemma equal_sym: "c x y = Equal \<Longrightarrow> c y x = Equal"
  using flip [of x y] flip [of y x] by (cases "c y x") auto

lemma equal_trans: "c x y = Equal \<Longrightarrow> c y z = Equal \<Longrightarrow> c x z = Equal"
  using trans [of x y z] trans [of z y x] flip [of z x] equal_sym [of x y] equal_sym [of y z]
  by (cases "c x z") auto

lemma filter_insert_by:
  "filter (\<lambda>y. c z y = Equal) (insert_by c x xs) =
     (if c z x = Equal then x # filter (\<lambda>y. c z y = Equal) xs else filter (\<lambda>y. c z y = Equal) xs)"
proof (induction xs)
  case (Cons a xs)
  have "c z x = Equal \<Longrightarrow> c z a = Equal \<Longrightarrow> c x a = Equal"
    using equal_trans [OF equal_sym] by blast
  with Cons show ?case by auto
qed simp

lemma stable: "filter (\<lambda>y. c z y = Equal) (sort_by c xs) = filter (\<lambda>y. c z y = Equal) xs"
  by (induction xs) (simp_all add: sort_by_def filter_insert_by)

end

lemma total_order_of_key: "total_order (\<lambda>x y. cmp (key x) (key y))"
  by unfold_locales (auto simp: cmp_def split: if_splits)

lemma sorted_by_key:
  "sorted_wrt (\<lambda>x y. cmp (key x) (key y) \<noteq> Greater) xs \<longleftrightarrow> sorted (map key xs)"
proof -
  have "(cmp (key x) (key y) \<noteq> Greater) = (key x \<le> key y)" for x y
    by (auto simp: cmp_def)
  then show ?thesis by (simp add: sorted_wrt_map)
qed

section \<open>The order\<close>

record tool_order =
  tord_tools :: "rstr list"
  tord_weights :: "rstr \<Rightarrow> nat option"
  tord_patterns :: "((rstr \<Rightarrow> bool) \<times> nat) list"

definition tool_order_default :: tool_order where
  "tool_order_default = \<lparr>tord_tools = [], tord_weights = Map.empty, tord_patterns = []\<rparr>"

text \<open>The loop of \<open>ToolOrder::new\<close>; 42 and 63 are the wildcards \<open>*\<close> and \<open>?\<close>.\<close>

definition has_wildcard :: "rstr \<Rightarrow> bool" where
  "has_wildcard s \<longleftrightarrow> 42 \<in> set s \<or> 63 \<in> set s"

fun order_loop ::
  "globber \<Rightarrow> nat \<Rightarrow> rstr list \<Rightarrow> (rstr \<Rightarrow> nat option) \<Rightarrow> ((rstr \<Rightarrow> bool) \<times> nat) list
     \<Rightarrow> (rstr \<Rightarrow> nat option) \<times> ((rstr \<Rightarrow> bool) \<times> nat) list" where
  "order_loop glob index [] weights patterns = (weights, patterns)"
| "order_loop glob index (tool_name # ts) weights patterns =
     (case glob tool_name of
        Some pattern \<Rightarrow>
          if has_wildcard tool_name
          then order_loop glob (Suc index) ts weights (patterns @ [(pattern, index)])
          else order_loop glob (Suc index) ts (weights(tool_name \<mapsto> index)) patterns
      | None \<Rightarrow> order_loop glob (Suc index) ts (weights(tool_name \<mapsto> index)) patterns)"

definition tool_order_new :: "globber \<Rightarrow> rstr list \<Rightarrow> tool_order" where
  "tool_order_new glob tools =
     (let (weights, patterns) = order_loop glob 0 tools Map.empty []
      in \<lparr>tord_tools = tools, tord_weights = weights, tord_patterns = patterns\<rparr>)"

definition from_tool_list :: "globber \<Rightarrow> rstr list \<Rightarrow> tool_order" where
  "from_tool_list glob tools = (if tools = [] then tool_order_default else tool_order_new glob tools)"

definition get_weight :: "tool_order \<Rightarrow> rstr \<Rightarrow> nat option" where
  "get_weight o1 tool =
     (case tord_weights o1 tool of
        Some weight \<Rightarrow> Some weight
      | None \<Rightarrow> find_map (\<lambda>(pattern, weight). if pattern tool then Some weight else None)
                  (tord_patterns o1))"

definition compare_by_weight :: "tool_order \<Rightarrow> rstr \<Rightarrow> rstr \<Rightarrow> ordering" where
  "compare_by_weight o1 a b =
     (case (get_weight o1 a, get_weight o1 b) of
        (Some w_a, Some w_b) \<Rightarrow>
          (case cmp w_a w_b of Equal \<Rightarrow> cmp a b | other \<Rightarrow> other)
      | (Some _, None) \<Rightarrow> Less
      | (None, Some _) \<Rightarrow> Greater
      | (None, None) \<Rightarrow> cmp a b)"

definition sort_tools :: "tool_order \<Rightarrow> 'v tool_definition list \<Rightarrow> 'v tool_definition list" where
  "sort_tools o1 tools =
     (if tord_tools o1 = [] then sort_by (\<lambda>a b. cmp (td_name a) (td_name b)) tools
      else sort_by (\<lambda>a b. compare_by_weight o1 (td_name a) (td_name b)) tools)"

text \<open>The comparator is comparison of ranks: weighted names first, by weight, then by name.\<close>

definition rank :: "tool_order \<Rightarrow> rstr \<Rightarrow> nat \<times> nat \<times> rstr" where
  "rank o1 a =
     (if tord_tools o1 = [] then (0, 0, a)
      else case get_weight o1 a of Some w \<Rightarrow> (0, w, a) | None \<Rightarrow> (1, 0, a))"

lemma compare_rank: "tord_tools o1 \<noteq> [] \<Longrightarrow> compare_by_weight o1 a b = cmp (rank o1 a) (rank o1 b)"
  by (auto simp: compare_by_weight_def rank_def cmp_def less_prod_def split: option.splits)

lemma sort_tools_rank: "sort_tools o1 tools = sort_by (\<lambda>a b. cmp (rank o1 (td_name a)) (rank o1 (td_name b))) tools"
proof (cases "tord_tools o1 = []")
  case True
  then have "cmp (rank o1 a) (rank o1 b) = cmp a b" for a b
    by (auto simp: rank_def cmp_def less_prod_def)
  with True show ?thesis by (simp add: sort_tools_def)
next
  case False
  then show ?thesis by (simp add: sort_tools_def compare_rank)
qed

lemma rank_inj: "rank o1 a = rank o1 b \<longleftrightarrow> a = b"
  by (auto simp: rank_def split: if_splits option.splits)

interpretation by_weight: total_order "\<lambda>a b. cmp (rank o1 (td_name a)) (rank o1 (td_name b))" for o1
  by (rule total_order_of_key)


section \<open>Properties\<close>

text \<open>Sorting tools yields a permutation ordered by rank (listed tools first, by position of the
  list entry they match, then by name), and equal names keep their relative order.\<close>

theorem sort_tools_spec:
  "mset (sort_tools o1 tools) = mset tools
   \<and> sorted (map (\<lambda>t. rank o1 (td_name t)) (sort_tools o1 tools))
   \<and> filter (\<lambda>t. td_name t = n) (sort_tools o1 tools) = filter (\<lambda>t. td_name t = n) tools"
proof (intro conjI)
  show "mset (sort_tools o1 tools) = mset tools"
    by (simp add: sort_tools_rank mset_sort_by)
  show "sorted (map (\<lambda>t. rank o1 (td_name t)) (sort_tools o1 tools))"
    unfolding sort_tools_rank
    using by_weight.sorted_sort_by [of o1 tools] by (simp add: sorted_by_key)
  show "filter (\<lambda>t. td_name t = n) (sort_tools o1 tools) = filter (\<lambda>t. td_name t = n) tools"
  proof (cases "\<exists>t \<in> set tools. td_name t = n")
    case True
    then obtain z where z: "z \<in> set tools" "td_name z = n" by blast
    then have "(cmp (rank o1 (td_name z)) (rank o1 (td_name t)) = Equal) = (td_name t = n)" for t :: "'a tool_definition"
      by (auto simp: cmp_def rank_inj)
    then show ?thesis
      using by_weight.stable [of o1 z tools] by (simp add: sort_tools_rank)
  next
    case False
    have "set (sort_tools o1 tools) = set tools"
      by (metis mset_sort_by set_mset_mset sort_tools_rank)
    with False show ?thesis by (simp add: filter_empty_conv)
  qed
qed

lemma sorted_rank_unique:
  assumes "mset xs = mset ys" "distinct (map td_name xs)"
    and "sorted (map (\<lambda>t. rank o1 (td_name t)) xs)" "sorted (map (\<lambda>t. rank o1 (td_name t)) ys)"
  shows "xs = ys"
proof -
  have same: "set xs = set ys" using assms(1) by (metis set_mset_mset)
  have inj: "inj_on (\<lambda>t. rank o1 (td_name t)) (set xs)"
    using assms(2) by (auto simp: inj_on_def rank_inj distinct_map)
  have d: "distinct (map (\<lambda>t. rank o1 (td_name t)) xs)"
    using assms(2) inj by (simp add: distinct_map)
  then have "distinct (map (\<lambda>t. rank o1 (td_name t)) ys)"
    using assms(1) by (metis mset_eq_imp_distinct_iff mset_map)
  with d show ?thesis
    using assms(3,4) inj same by (intro map_sorted_distinct_set_unique) auto
qed

lemma sort_tools_sorted_rank:
  "mset (sort_tools o1 tools) = mset tools"
  "sorted (map (\<lambda>t. rank o1 (td_name t)) (sort_tools o1 tools))"
  unfolding sort_tools_rank
  using by_weight.sorted_sort_by [of o1 tools] by (simp_all add: sorted_by_key mset_sort_by)

text \<open>When tool names are distinct, the presented order depends on the set of tools only, not on
  the order in which they were registered.\<close>

theorem sort_tools_order_irrelevant:
  assumes "distinct (map td_name tools)" and "mset tools = mset tools'"
  shows "sort_tools o1 tools = sort_tools o1 tools'"
proof (rule sorted_rank_unique)
  show "mset (sort_tools o1 tools) = mset (sort_tools o1 tools')"
    using assms(2) by (simp add: sort_tools_sorted_rank)
  show "distinct (map td_name (sort_tools o1 tools))"
    using assms(1) sort_tools_sorted_rank(1) [of o1 tools] by (metis mset_eq_imp_distinct_iff mset_map)
qed (rule sort_tools_sorted_rank)+

definition demo_tool :: "rstr \<Rightarrow> unit tool_definition" where
  "demo_tool n = \<lparr>td_name = n, td_description = [], td_input_schema = ()\<rparr>"

definition demo_order :: tool_order where
  "demo_order = tool_order_new (\<lambda>p. Some (\<lambda>s. s = p)) [lit ''read'', lit ''b'']"

theorem sort_tools_order_irrelevant_witness:
  "sort_tools demo_order [demo_tool (lit ''a''), demo_tool (lit ''b''), demo_tool (lit ''read'')]
   = sort_tools demo_order [demo_tool (lit ''read''), demo_tool (lit ''a''), demo_tool (lit ''b'')]"
  by (rule sort_tools_order_irrelevant) (code_simp, simp)

text \<open>The weights of a list of exact, distinct names are their positions.\<close>

lemma order_loop_exact:
  "list_all (\<lambda>n. \<not> has_wildcard n) names \<Longrightarrow>
     order_loop glob i names w ps = (w ++ map_of (rev (zip names [i..<i + length names])), ps)"
proof (induction names arbitrary: i w)
  case Nil
  then show ?case by simp
next
  case (Cons n names)
  have "order_loop glob i (n # names) w ps = order_loop glob (Suc i) names (w(n \<mapsto> i)) ps"
    using Cons.prems by (simp split: option.split)
  also have "\<dots> = (w(n \<mapsto> i) ++ map_of (rev (zip names [Suc i..<Suc i + length names])), ps)"
    using Cons by simp
  also have "w(n \<mapsto> i) ++ map_of (rev (zip names [Suc i..<Suc i + length names])) =
      w ++ map_of (rev (zip (n # names) [i..<i + length (n # names)]))"
  proof -
    have "[i..<i + length (n # names)] = i # [Suc i..<Suc i + length names]"
      by (simp add: upt_conv_Cons del: upt_Suc)
    then have "zip (n # names) [i..<i + length (n # names)] = (n, i) # zip names [Suc i..<Suc i + length names]"
      by (simp del: upt_Suc)
    then show ?thesis by (simp del: upt_Suc)
  qed
  finally show ?case .
qed

lemma get_weight_exact:
  assumes "list_all (\<lambda>n. \<not> has_wildcard n) names" "distinct names" "k < length names"
  shows "get_weight (tool_order_new glob names) (names ! k) = Some k"
proof -
  have "(names ! k, k) \<in> set (rev (zip names [0..<length names]))"
    using assms(3) by (auto simp: set_zip)
  then have "map_of (rev (zip names [0..<length names])) (names ! k) = Some k"
    using assms(2) by (intro map_of_is_SomeI) (simp_all add: rev_map [symmetric])
  then show ?thesis
    using order_loop_exact [OF assms(1), of glob 0 Map.empty "[]"]
    by (simp add: get_weight_def tool_order_new_def)
qed

text \<open>A list of exact names is the order: sorting tools with just those names, however they come,
  presents them as listed.\<close>

theorem sort_tools_as_listed:
  assumes "list_all (\<lambda>n. \<not> has_wildcard n) names" and "distinct names" and "names \<noteq> []"
    and "mset (map td_name tools) = mset names"
  shows "map td_name (sort_tools (from_tool_list glob names) tools) = names"
proof -
  let ?o = "tool_order_new glob names"
  have o1: "from_tool_list glob names = ?o" "tord_tools ?o \<noteq> []"
    using assms(3) by (simp_all add: from_tool_list_def tool_order_new_def Let_def split: prod.split)
  have "rank ?o (names ! k) = (0, k, names ! k)" if "k < length names" for k
    using get_weight_exact [OF assms(1,2) that] o1(2) by (simp add: rank_def)
  then have "sorted (map (rank ?o) names)"
    by (auto simp: sorted_iff_nth_mono_less less_eq_prod_def)
  moreover have "sorted (map (rank ?o) (map td_name (sort_tools ?o tools)))"
    using sort_tools_sorted_rank(2) [of ?o tools] by (simp add: comp_def)
  moreover have "mset (map (rank ?o) (map td_name (sort_tools ?o tools))) = mset (map (rank ?o) names)"
    using assms(4) sort_tools_sorted_rank(1) [of ?o tools] by (metis mset_map)
  ultimately have "map (rank ?o) (map td_name (sort_tools ?o tools)) = map (rank ?o) names"
    by (metis properties_for_sort)
  then show ?thesis
    unfolding o1(1) by (rule map_injective) (simp add: inj_on_def rank_inj)
qed

theorem sort_tools_as_listed_witness:
  "map td_name (sort_tools (from_tool_list (\<lambda>p. Some (\<lambda>s. s = p)) [lit ''read'', lit ''b''])
     [demo_tool (lit ''b''), demo_tool (lit ''read'')]) = [lit ''read'', lit ''b'']"
  by (rule sort_tools_as_listed) (code_simp, code_simp, simp, simp add: demo_tool_def)

end
