(* ===== verification/Context_Transformers.thy ===== *)
theory Context_Transformers
  imports Tool_Order
begin

text \<open>
  The transformations of a context right before it is sent (\<open>forge_domain/src/transformer/\<close>,
  \<open>forge_app/src/transformers/drop_reasoning_only_messages.rs\<close> and
  \<open>model_specific_reasoning.rs\<close>) and the pipeline \<open>execute_chat_turn\<close> builds from them. The
  locale \<open>pairing_transformer\<close> is the contract they share: a well-paired history stays so.
\<close>

section \<open>Combinators\<close>

text \<open>A \<open>Transformer\<close> is the function it computes; \<open>pipe\<close> and \<open>when\<close> build new ones.\<close>

definition default_transformation :: "'a \<Rightarrow> 'a" where
  "default_transformation v = v"

definition pipe :: "('a \<Rightarrow> 'a) \<Rightarrow> ('a \<Rightarrow> 'a) \<Rightarrow> 'a \<Rightarrow> 'a" where
  "pipe f g v = g (f v)"

definition cond_transform :: "('a \<Rightarrow> 'a) \<Rightarrow> ('a \<Rightarrow> bool) \<Rightarrow> 'a \<Rightarrow> 'a" where
  "cond_transform f c v = (if c v then f v else v)"

section \<open>The transformers\<close>

definition sort_tools_transform :: "tool_order \<Rightarrow> 'v chat_context \<Rightarrow> 'v chat_context" where
  "sort_tools_transform order c = c\<lparr>ctx_tools := sort_tools order (ctx_tools c)\<rparr>"

text \<open>The loops that rewrite the text messages in place.\<close>

definition map_text ::
  "('v text_message \<Rightarrow> 'v text_message) \<Rightarrow> 'v message_entry \<Rightarrow> 'v message_entry" where
  "map_text f e =
     (case me_message e of CText t \<Rightarrow> e\<lparr>me_message := CText (f t)\<rparr> | _ \<Rightarrow> e)"

definition set_model :: "rstr \<Rightarrow> 'v chat_context \<Rightarrow> 'v chat_context" where
  "set_model model c = c\<lparr>ctx_messages := map (map_text
     (\<lambda>t. if tm_model t = None then t\<lparr>tm_model := Some model\<rparr> else t)) (ctx_messages c)\<rparr>"

definition normalize_tool_args ::
  "(rstr \<Rightarrow> 'e + 'v) \<Rightarrow> (rstr \<Rightarrow> 'v) \<Rightarrow> 'v chat_context \<Rightarrow> 'v chat_context" where
  "normalize_tool_args repair raw_obj c = c\<lparr>ctx_messages := map (map_text
     (\<lambda>t. t\<lparr>tm_tool_calls := map_option
        (map (\<lambda>tc. tc\<lparr>tc_arguments := args_normalize repair raw_obj (tc_arguments tc)\<rparr>))
        (tm_tool_calls t)\<rparr>)) (ctx_messages c)\<rparr>"

definition drop_reasoning_details :: "'v chat_context \<Rightarrow> 'v chat_context" where
  "drop_reasoning_details c =
     c\<lparr>ctx_messages := map (map_text (\<lambda>t. t\<lparr>tm_reasoning_details := None\<rparr>)) (ctx_messages c),
       ctx_reasoning := None\<rparr>"

text \<open>\<open>TransformToolCalls\<close>: an exchange becomes plain text for a model without tools.\<close>

definition value_messages :: "rstr option \<Rightarrow> tool_value \<Rightarrow> 'v message_entry list" where
  "value_messages model v =
     (case v of
        TVText text \<Rightarrow> [entry_of (msg_user text model)]
      | TVImage im \<Rightarrow> [entry_of (CImage im)]
      | TVEmpty \<Rightarrow> []
      | TVAI val _ \<Rightarrow> [entry_of (msg_user val model)])"

definition untool_entry :: "rstr option \<Rightarrow> 'v message_entry \<Rightarrow> 'v message_entry list" where
  "untool_entry model e =
     (case me_message e of
        CText t \<Rightarrow>
          if tm_role t = Assistant \<and> tm_tool_calls t \<noteq> None
          then [entry_of (CText \<lparr>tm_role = tm_role t, tm_content = tm_content t,
                  tm_raw_content = tm_raw_content t, tm_tool_calls = None,
                  tm_thought_signature = tm_thought_signature t, tm_model = tm_model t,
                  tm_reasoning_details = tm_reasoning_details t, tm_droppable = tm_droppable t,
                  tm_phase = tm_phase t\<rparr>)]
          else [e]
      | CTool r \<Rightarrow> concat (map (value_messages model) (to_values (tr_output r)))
      | CImage _ \<Rightarrow> [e])"

definition transform_tool_calls :: "rstr option \<Rightarrow> 'v chat_context \<Rightarrow> 'v chat_context" where
  "transform_tool_calls model c =
     c\<lparr>ctx_messages := concat (map (untool_entry model) (ctx_messages c)), ctx_tools := []\<rparr>"

text \<open>
  \<open>ImageHandling\<close>: the first pass takes the images out of the tool results and numbers them, the
  second appends them as user messages. \<open>n\<close> is \<open>images.len()\<close>.
\<close>

definition image_placeholder :: "nat \<Rightarrow> rstr" where
  "image_placeholder n = lit ''[The image with ID '' @ decimal n
     @ lit '' will be sent as an attachment in the next message]''"

definition image_caption :: "nat \<Rightarrow> rstr" where
  "image_caption n = lit ''[Here is the image attachment for ID '' @ decimal n @ lit '']''"

fun take_value_images :: "nat \<Rightarrow> tool_value list \<Rightarrow> tool_value list \<times> image list" where
  "take_value_images n [] = ([], [])"
| "take_value_images n (v # vs) =
     (case v of
        TVImage im \<Rightarrow>
          (let (vs', ims) = take_value_images (Suc n) vs
           in (TVText (image_placeholder n) # vs', im # ims))
      | _ \<Rightarrow> (let (vs', ims) = take_value_images n vs in (v # vs', ims)))"

fun take_images :: "nat \<Rightarrow> 'v message_entry list \<Rightarrow> 'v message_entry list \<times> image list" where
  "take_images n [] = ([], [])"
| "take_images n (e # es) =
     (case me_message e of
        CTool r \<Rightarrow>
          (let (vs, ims) = take_value_images n (to_values (tr_output r));
               (es', ims') = take_images (n + length ims) es
           in (e\<lparr>me_message := CTool (r\<lparr>tr_output := (tr_output r)\<lparr>to_values := vs\<rparr>\<rparr>)\<rparr> # es',
               ims @ ims'))
      | _ \<Rightarrow> (let (es', ims) = take_images n es in (e # es', ims)))"

definition attachment :: "nat \<times> image \<Rightarrow> 'v message_entry list" where
  "attachment p = [entry_of (msg_user (image_caption (fst p)) None), entry_of (CImage (snd p))]"

definition image_handling :: "'v chat_context \<Rightarrow> 'v chat_context" where
  "image_handling c =
     (let (ms, images) = take_images 0 (ctx_messages c)
      in c\<lparr>ctx_messages := ms @ concat (map attachment (enumerate 0 images))\<rparr>)"

text \<open>
  \<open>ReasoningNormalizer\<close>. \<open>last_index\<close> is \<open>iter().enumerate().rev().find_map(..)\<close> for a closure
  that returns the index.
\<close>

definition last_index :: "('a \<Rightarrow> bool) \<Rightarrow> 'a list \<Rightarrow> nat option" where
  "last_index P xs = map_option fst (find (\<lambda>(i, x). P x) (rev (enumerate 0 xs)))"

definition foreign_assistant :: "rstr \<Rightarrow> 'v message_entry \<Rightarrow> bool" where
  "foreign_assistant model e \<longleftrightarrow>
     (case me_message e of
        CText t \<Rightarrow> tm_role t = Assistant \<and> tm_model t \<noteq> Some model
      | _ \<Rightarrow> False)"

definition strip_reasoning :: "'v message_entry \<Rightarrow> 'v message_entry" where
  "strip_reasoning e = map_text (\<lambda>t. if tm_role t = Assistant
     then t\<lparr>tm_reasoning_details := None, tm_thought_signature := None\<rparr> else t) e"

definition reasoning_normalizer :: "rstr \<Rightarrow> 'v chat_context \<Rightarrow> 'v chat_context" where
  "reasoning_normalizer model c =
     (case last_index (foreign_assistant model) (ctx_messages c) of
        None \<Rightarrow> c
      | Some cutoff \<Rightarrow> c\<lparr>ctx_messages :=
          map strip_reasoning (take (Suc cutoff) (ctx_messages c))
            @ drop (Suc cutoff) (ctx_messages c)\<rparr>)"

definition is_reasoning_only :: "'v context_message \<Rightarrow> bool" where
  "is_reasoning_only m =
     (case m of
        CText t \<Rightarrow>
          if tm_role t \<noteq> Assistant then False
          else
            let has_text = tm_content t \<noteq> [];
                has_tool_calls = (case tm_tool_calls t of Some cs \<Rightarrow> cs \<noteq> [] | None \<Rightarrow> False);
                has_reasoning = tm_reasoning_details t \<noteq> None
            in has_reasoning \<and> \<not> has_text \<and> \<not> has_tool_calls
      | _ \<Rightarrow> False)"

definition drop_reasoning_only :: "'v chat_context \<Rightarrow> 'v chat_context" where
  "drop_reasoning_only c =
     c\<lparr>ctx_messages := filter (\<lambda>e. \<not> is_reasoning_only (me_message e)) (ctx_messages c)\<rparr>"

text \<open>\<open>ModelSpecificReasoning\<close>: the Anthropic families accept different reasoning settings.\<close>

datatype anthropic_family = AdaptiveOnly | AdaptiveFriendly | LegacyWithEffort | LegacyNoEffort

definition model_family :: "rstr \<Rightarrow> anthropic_family" where
  "model_family model_id =
     (let i = to_lowercase model_id
      in if str_contains i (lit ''opus-5'') \<or> str_contains i (lit ''sonnet-5-5'')
           \<or> str_contains i (lit ''opus-4-8'') \<or> str_contains i (lit ''48-opus'')
           \<or> str_contains i (lit ''opus-4-7'') \<or> str_contains i (lit ''47-opus'')
           \<or> str_contains i (lit ''mythos'') \<or> str_contains i (lit ''fable'')
         then AdaptiveOnly
         else if str_contains i (lit ''opus-4-6'') \<or> str_contains i (lit ''46-opus'')
           \<or> str_contains i (lit ''sonnet-5'') \<or> str_contains i (lit ''sonnet-4-6'')
           \<or> str_contains i (lit ''46-sonnet'')
         then AdaptiveFriendly
         else if str_contains i (lit ''opus-4-5'') \<or> str_contains i (lit ''45-opus'')
         then LegacyWithEffort
         else LegacyNoEffort)"

definition replace_xhigh_with_max :: "reasoning_config option \<Rightarrow> reasoning_config option" where
  "replace_xhigh_with_max r = map_option
     (\<lambda>r. if rc_effort r = Some EXHigh then r\<lparr>rc_effort := Some EMax\<rparr> else r) r"

definition clamp_effort_to_high :: "reasoning_config option \<Rightarrow> reasoning_config option" where
  "clamp_effort_to_high r = map_option
     (\<lambda>r. if rc_effort r \<in> {Some EXHigh, Some EMax} then r\<lparr>rc_effort := Some EHigh\<rparr> else r) r"

definition set_default_legacy_budget :: "reasoning_config option \<Rightarrow> reasoning_config option" where
  "set_default_legacy_budget r = map_option
     (\<lambda>r. if rc_max_tokens r = None then r\<lparr>rc_max_tokens := Some 10000\<rparr> else r) r"

definition model_specific_reasoning :: "rstr \<Rightarrow> 'v chat_context \<Rightarrow> 'v chat_context" where
  "model_specific_reasoning model_id c =
     (let reasoning_on = is_reasoning_supported c
      in case model_family model_id of
           AdaptiveOnly \<Rightarrow>
             (if reasoning_on
              then c\<lparr>ctx_reasoning := map_option (\<lambda>r. r\<lparr>rc_max_tokens := None\<rparr>) (ctx_reasoning c)\<rparr>
              else c)\<lparr>ctx_temperature := None, ctx_top_p := None, ctx_top_k := None\<rparr>
         | AdaptiveFriendly \<Rightarrow>
             if reasoning_on then c\<lparr>ctx_reasoning := replace_xhigh_with_max (ctx_reasoning c)\<rparr>
             else c
         | LegacyWithEffort \<Rightarrow>
             if reasoning_on
             then c\<lparr>ctx_reasoning :=
               clamp_effort_to_high (set_default_legacy_budget (ctx_reasoning c))\<rparr>
             else c
         | LegacyNoEffort \<Rightarrow>
             if reasoning_on
             then c\<lparr>ctx_reasoning := map_option (\<lambda>r. r\<lparr>rc_effort := None\<rparr>)
               (set_default_legacy_budget (ctx_reasoning c))\<rparr>
             else c)"

section \<open>The pipeline of a request\<close>

definition is_claude :: "rstr \<Rightarrow> bool" where
  "is_claude model_id \<longleftrightarrow> str_contains (to_lowercase model_id) (lit ''claude'')"

definition request_pipeline ::
  "(rstr \<Rightarrow> 'e + 'v) \<Rightarrow> (rstr \<Rightarrow> 'v) \<Rightarrow> tool_order \<Rightarrow> rstr \<Rightarrow> bool \<Rightarrow> bool
     \<Rightarrow> 'v chat_context \<Rightarrow> 'v chat_context" where
  "request_pipeline repair raw_obj order model_id tool_supported reasoning_supported =
     pipe (pipe (pipe (pipe (pipe (pipe (pipe (pipe default_transformation
       (sort_tools_transform order))
       (normalize_tool_args repair raw_obj))
       (cond_transform (transform_tool_calls None) (\<lambda>_. \<not> tool_supported)))
       image_handling)
       (cond_transform drop_reasoning_details (\<lambda>_. \<not> reasoning_supported)))
       (reasoning_normalizer model_id))
       (cond_transform (model_specific_reasoning model_id) (\<lambda>_. is_claude model_id)))
       (cond_transform drop_reasoning_only (\<lambda>_. is_claude model_id))"

section \<open>The contract of a transformer\<close>

text \<open>The images of an entry, in a tool result or on their own.\<close>

definition value_images :: "tool_value list \<Rightarrow> image list" where
  "value_images vs = concat (map (\<lambda>v. case v of TVImage im \<Rightarrow> [im] | _ \<Rightarrow> []) vs)"

fun message_images :: "'v context_message \<Rightarrow> image list" where
  "message_images (CText _) = []"
| "message_images (CTool r) = value_images (to_values (tr_output r))"
| "message_images (CImage im) = [im]"

definition context_images :: "'v chat_context \<Rightarrow> image list" where
  "context_images c = concat (map (\<lambda>e. message_images (me_message e)) (ctx_messages c))"

text \<open>A tool result without images.\<close>

definition clean_result :: "'v context_message \<Rightarrow> bool" where
  "clean_result m = (\<not> (has_tool_result m \<and> message_images m \<noteq> []))"

locale request_transformer =
  fixes f :: "'v chat_context \<Rightarrow> 'v chat_context"
  assumes keeps_well_formed:
    "well_formed_history (ctx_messages c) \<Longrightarrow> well_formed_history (ctx_messages (f c))"
    and keeps_images: "mset (context_images (f c)) = mset (context_images c)"
    and keeps_clean: "list_all (\<lambda>e. clean_result (me_message e)) (ctx_messages c)
      \<Longrightarrow> list_all (\<lambda>e. clean_result (me_message e)) (ctx_messages (f c))"
    and keeps_plain: "list_all (\<lambda>e. plain_message (me_message e)) (ctx_messages c)
      \<Longrightarrow> list_all (\<lambda>e. plain_message (me_message e)) (ctx_messages (f c))"
begin

lemma cond: "request_transformer (cond_transform f p)"
  by unfold_locales (simp_all add: cond_transform_def keeps_well_formed keeps_images keeps_clean keeps_plain)

end

lemma request_transformer_pipe:
  "request_transformer f \<Longrightarrow> request_transformer g \<Longrightarrow> request_transformer (pipe f g)"
  by (simp add: request_transformer_def pipe_def)

text \<open>Transformers that leave the shape and the images of every message alone.\<close>

lemma request_transformer_shape:
  assumes "\<And>c. map (\<lambda>e. msg_shape (me_message e)) (ctx_messages (f c))
      = map (\<lambda>e. msg_shape (me_message e)) (ctx_messages c)"
    and "\<And>c. map (\<lambda>e. message_images (me_message e)) (ctx_messages (f c))
      = map (\<lambda>e. message_images (me_message e)) (ctx_messages c)"
  shows "request_transformer f"
proof
  fix c
  show "well_formed_history (ctx_messages c) \<Longrightarrow> well_formed_history (ctx_messages (f c))"
    using well_formed_shape [OF assms(1) [of c]] by simp
  show "mset (context_images (f c)) = mset (context_images c)"
    by (simp add: context_images_def assms(2))
  have all: "list_all2 (\<lambda>e e'. msg_shape (me_message e) = msg_shape (me_message e')
      \<and> message_images (me_message e) = message_images (me_message e')) (ctx_messages c) (ctx_messages (f c))"
    using assms [of c] by (simp add: list_all2_conv_all_nth list_eq_iff_nth_eq)
  have same: "clean_result m = clean_result n \<and> plain_message m = plain_message n"
    if "msg_shape m = msg_shape n" "message_images m = message_images n" for m n :: "'a context_message"
    using that by (cases m; cases n) (auto simp: clean_result_def plain_message_def)
  show "list_all (\<lambda>e. clean_result (me_message e)) (ctx_messages (f c))"
    if "list_all (\<lambda>e. clean_result (me_message e)) (ctx_messages c)"
    using all that by (induction rule: list_all2_induct) (auto dest: same)
  show "list_all (\<lambda>e. plain_message (me_message e)) (ctx_messages (f c))"
    if "list_all (\<lambda>e. plain_message (me_message e)) (ctx_messages c)"
    using all that by (induction rule: list_all2_induct) (auto dest: same)
qed

lemma map_text_shape:
  "(\<And>t. tm_role (f t) = tm_role t \<and>
        map_option (map tc_call_id) (tm_tool_calls (f t)) = map_option (map tc_call_id) (tm_tool_calls t))
     \<Longrightarrow> msg_shape (me_message (map_text f e)) = msg_shape (me_message e)"
  by (cases "me_message e") (simp_all add: map_text_def)

lemma map_text_images [simp]: "message_images (me_message (map_text f e)) = message_images (me_message e)"
  by (cases "me_message e") (simp_all add: map_text_def)

interpretation default: request_transformer default_transformation
  by unfold_locales (simp_all add: default_transformation_def)

interpretation sort_tools: request_transformer "sort_tools_transform order" for order
  by unfold_locales (simp_all add: sort_tools_transform_def context_images_def)

interpretation set_model: request_transformer "set_model m" for m
  by (rule request_transformer_shape) (simp_all add: set_model_def map_text_shape)

interpretation normalize: request_transformer "normalize_tool_args repair raw_obj" for repair raw_obj
  by (rule request_transformer_shape)
    (simp_all add: normalize_tool_args_def map_text_shape option.map_comp comp_def)

interpretation drop_details: request_transformer drop_reasoning_details
  by (rule request_transformer_shape) (simp_all add: drop_reasoning_details_def map_text_shape)

lemma strip_reasoning_shape [simp]:
  "msg_shape (me_message (strip_reasoning e)) = msg_shape (me_message e)"
  "message_images (me_message (strip_reasoning e)) = message_images (me_message e)"
  by (simp_all add: strip_reasoning_def map_text_shape)

lemma strip_reasoning_maps:
  "map (\<lambda>e. msg_shape (me_message e)) (map strip_reasoning es) = map (\<lambda>e. msg_shape (me_message e)) es"
  "map (\<lambda>e. message_images (me_message e)) (map strip_reasoning es) = map (\<lambda>e. message_images (me_message e)) es"
  by simp_all

interpretation normalizer: request_transformer "reasoning_normalizer m" for m
proof (rule request_transformer_shape)
  show "map (\<lambda>e. msg_shape (me_message e)) (ctx_messages (reasoning_normalizer m c)) =
      map (\<lambda>e. msg_shape (me_message e)) (ctx_messages c)" for c
    by (simp add: reasoning_normalizer_def strip_reasoning_maps del: map_map split: option.split)
      (metis append_take_drop_id map_append)
  show "map (\<lambda>e. message_images (me_message e)) (ctx_messages (reasoning_normalizer m c)) =
      map (\<lambda>e. message_images (me_message e)) (ctx_messages c)" for c
    by (simp add: reasoning_normalizer_def strip_reasoning_maps del: map_map split: option.split)
      (metis append_take_drop_id map_append)
qed

lemma model_specific_messages [simp]:
  "ctx_messages (model_specific_reasoning m c) = ctx_messages c"
  by (simp add: model_specific_reasoning_def Let_def split: anthropic_family.split)

interpretation model_specific: request_transformer "model_specific_reasoning m" for m
  by (rule request_transformer_shape) simp_all

lemma reasoning_only_neutral:
  "is_reasoning_only m \<Longrightarrow> (\<And>t. m = CText t \<Longrightarrow> tm_tool_calls t \<noteq> Some []) \<Longrightarrow> plain_message m"
  by (cases m) (auto simp: is_reasoning_only_def plain_message_def Let_def split: if_splits option.splits)

lemma well_formed_filter:
  assumes "\<And>m. m \<in> set ms \<Longrightarrow> \<not> P m \<Longrightarrow> plain_message (me_message m)" "well_formed_history ms"
  shows "well_formed_history (filter P ms)"
  using assms by (auto simp: well_formed_history_def list_all_iff intro: paired_filter)

interpretation drop_only: request_transformer drop_reasoning_only
proof
  fix c :: "'a chat_context"
  assume wf: "well_formed_history (ctx_messages c)"
  then have plain: "plain_message (me_message e)"
    if "e \<in> set (ctx_messages c)" "is_reasoning_only (me_message e)" for e
    using that reasoning_only_neutral paired_calls_not_Nil
    by (metis (no_types, lifting) well_formed_history_def)
  have "well_formed_history (filter (\<lambda>e. \<not> is_reasoning_only (me_message e)) (ctx_messages c))"
    by (rule well_formed_filter [OF _ wf]) (simp add: plain)
  then show "well_formed_history (ctx_messages (drop_reasoning_only c))"
    by (simp add: drop_reasoning_only_def)
next
  fix c :: "'a chat_context"
  have "concat (map (\<lambda>e. message_images (me_message e)) (filter (\<lambda>e. \<not> is_reasoning_only (me_message e)) ms)) =
      concat (map (\<lambda>e. message_images (me_message e)) ms)" for ms :: "'a message_entry list"
  proof (induction ms)
    case (Cons e ms)
    then show ?case by (cases "me_message e") (auto simp: is_reasoning_only_def)
  qed simp
  then show "mset (context_images (drop_reasoning_only c)) = mset (context_images c)"
    by (simp add: context_images_def drop_reasoning_only_def)
qed (auto simp: drop_reasoning_only_def list_all_iff)

text \<open>Tool calls as text: nothing of the exchanges is left.\<close>

lemma plain_by_assistant: "plain_message m \<Longrightarrow> calls_by_assistant m"
  by (cases m) (auto simp: plain_message_def calls_by_assistant_def)

lemma well_formed_plain:
  "list_all (\<lambda>e. plain_message (me_message e)) ms \<Longrightarrow> well_formed_history ms"
  by (auto simp: well_formed_history_def list_all_iff plain_by_assistant intro!: paired_plain)

lemma value_messages_plain: "list_all (\<lambda>e. plain_message (me_message e)) (value_messages m v)"
  by (cases v) (simp_all add: value_messages_def plain_message_def msg_user_def)

lemma untool_plain:
  "calls_by_assistant (me_message e) \<Longrightarrow> list_all (\<lambda>e. plain_message (me_message e)) (untool_entry m e)"
  using value_messages_plain
  by (cases "me_message e")
    (auto simp: untool_entry_def calls_by_assistant_def plain_message_def list_all_iff)

lemma transform_tool_calls_plain:
  "list_all (\<lambda>e. calls_by_assistant (me_message e)) (ctx_messages c)
     \<Longrightarrow> list_all (\<lambda>e. plain_message (me_message e)) (ctx_messages (transform_tool_calls m c))"
  using untool_plain by (fastforce simp: transform_tool_calls_def list_all_iff)

lemma plain_clean: "plain_message m \<Longrightarrow> clean_result m"
  by (simp add: plain_message_def clean_result_def)

lemma value_messages_images:
  "concat (map (\<lambda>e. message_images (me_message e)) (concat (map (value_messages m) vs))) = value_images vs"
  by (induction vs) (auto simp: value_images_def value_messages_def msg_user_def split: tool_value.split)

lemma untool_images:
  "concat (map (\<lambda>e. message_images (me_message e)) (untool_entry m e)) = message_images (me_message e)"
  using value_messages_images [of m]
  by (cases "me_message e") (auto simp: untool_entry_def)

lemma untool_clean: "e' \<in> set (untool_entry m e) \<Longrightarrow> clean_result (me_message e')"
  using value_messages_plain [of m]
  by (cases "me_message e")
    (auto simp: untool_entry_def list_all_iff clean_result_def plain_message_def split: if_splits)

interpretation untool: request_transformer "transform_tool_calls m" for m
proof
  fix c :: "'a chat_context"
  show "well_formed_history (ctx_messages (transform_tool_calls m c))"
    if "well_formed_history (ctx_messages c)"
    using that by (intro well_formed_plain transform_tool_calls_plain) (simp add: well_formed_history_def)
  have "concat (map (\<lambda>e. message_images (me_message e)) (concat (map (untool_entry m) es))) =
      concat (map (\<lambda>e. message_images (me_message e)) es)" for es :: "'a message_entry list"
    by (induction es) (simp_all add: untool_images)
  then show "mset (context_images (transform_tool_calls m c)) = mset (context_images c)"
    by (simp add: context_images_def transform_tool_calls_def)
  show "list_all (\<lambda>e. clean_result (me_message e)) (ctx_messages (transform_tool_calls m c))"
    using untool_clean by (auto simp: transform_tool_calls_def list_all_iff)
  show "list_all (\<lambda>e. plain_message (me_message e)) (ctx_messages (transform_tool_calls m c))"
    if "list_all (\<lambda>e. plain_message (me_message e)) (ctx_messages c)"
    using that by (intro transform_tool_calls_plain) (auto simp: list_all_iff plain_by_assistant)
qed

text \<open>Images are taken out of the results and appended.\<close>

lemma take_value_images:
  "snd (take_value_images n vs) = value_images vs" "value_images (fst (take_value_images n vs)) = []"
  by (induction vs arbitrary: n)
    (auto simp: value_images_def split_beta Let_def split: tool_value.split)

lemma take_images_shape:
  "map (\<lambda>e. msg_shape (me_message e)) (fst (take_images n es)) = map (\<lambda>e. msg_shape (me_message e)) es"
  by (induction es arbitrary: n) (auto split: context_message.split simp: split_beta Let_def)

lemma take_images_mset:
  "mset (concat (map (\<lambda>e. message_images (me_message e)) (fst (take_images n es))))
     + mset (snd (take_images n es)) = mset (concat (map (\<lambda>e. message_images (me_message e)) es))"
proof (induction es arbitrary: n)
  case (Cons e es)
  show ?case
    using Cons [of n] Cons [of "n + length (value_images (to_values (tr_output r)))" for r] 
    by (cases "me_message e") (simp_all add: split_beta Let_def take_value_images)
qed simp

lemma take_images_clean:
  "list_all (\<lambda>e. clean_result (me_message e)) (fst (take_images n es))"
  by (induction es arbitrary: n)
    (auto split: context_message.split simp: split_beta Let_def take_value_images clean_result_def)

lemma take_images_plain:
  "list_all (\<lambda>e. plain_message (me_message e)) es \<Longrightarrow> take_images n es = (es, [])"
  by (induction es arbitrary: n) (auto split: context_message.split simp: plain_message_def)

lemma attachments_plain:
  "list_all (\<lambda>e. plain_message (me_message e)) (concat (map attachment ps))"
  by (induction ps) (auto simp: attachment_def plain_message_def msg_user_def)

lemma attachments_images:
  "concat (map (\<lambda>e. message_images (me_message e)) (concat (map attachment ps))) = map snd ps"
  by (induction ps) (auto simp: attachment_def msg_user_def)

lemma image_handling_messages:
  "ctx_messages (image_handling c) = fst (take_images 0 (ctx_messages c))
     @ concat (map attachment (enumerate 0 (snd (take_images 0 (ctx_messages c)))))"
  by (simp add: image_handling_def split_beta Let_def)

lemma well_formed_append:
  "well_formed_history xs \<Longrightarrow> well_formed_history ys \<Longrightarrow> well_formed_history (xs @ ys)"
  by (simp add: well_formed_history_def paired_append)

lemma image_handling_clean:
  "list_all (\<lambda>e. clean_result (me_message e)) (ctx_messages (image_handling c))"
proof -
  have "list_all (\<lambda>e. clean_result (me_message e)) (concat (map attachment ps))" for ps
    by (rule list.pred_mono_strong [OF attachments_plain]) (rule plain_clean)
  then show ?thesis
    by (simp add: image_handling_messages take_images_clean)
qed

interpretation images: request_transformer image_handling
proof
  fix c :: "'a chat_context"
  show "well_formed_history (ctx_messages (image_handling c))"
    if "well_formed_history (ctx_messages c)"
    unfolding image_handling_messages
    by (rule well_formed_append)
      (simp_all add: that well_formed_shape [OF take_images_shape] well_formed_plain attachments_plain)
  show "mset (context_images (image_handling c)) = mset (context_images c)"
    using take_images_mset [of 0 "ctx_messages c"]
    by (simp add: context_images_def image_handling_messages attachments_images)
  show "list_all (\<lambda>e. clean_result (me_message e)) (ctx_messages (image_handling c))"
    by (rule image_handling_clean)
  show "list_all (\<lambda>e. plain_message (me_message e)) (ctx_messages (image_handling c))"
    if "list_all (\<lambda>e. plain_message (me_message e)) (ctx_messages c)"
    using that by (simp add: image_handling_messages take_images_plain attachments_plain)
qed

interpretation pipeline: request_transformer
    "request_pipeline repair raw_obj order model_id tools reasoning"
  for repair raw_obj order model_id tools reasoning
  unfolding request_pipeline_def
  by (intro request_transformer_pipe default.request_transformer_axioms
      sort_tools.request_transformer_axioms normalize.request_transformer_axioms
      untool.cond images.request_transformer_axioms drop_details.cond
      normalizer.request_transformer_axioms model_specific.cond drop_only.cond)

lemma request_pipeline_split:
  fixes c :: "'v chat_context"
  shows "\<exists>after. request_transformer after \<and> request_pipeline repair raw_obj order model_id tools reasoning c
     = after (image_handling (cond_transform (transform_tool_calls None) (\<lambda>_. \<not> tools)
         (normalize_tool_args repair raw_obj (sort_tools_transform order c))))
   \<and> (\<forall>c. ctx_tools (after c) = ctx_tools c)"
proof -
  let ?after = "pipe (pipe (pipe (cond_transform drop_reasoning_details (\<lambda>_. \<not> reasoning))
    (reasoning_normalizer model_id))
    (cond_transform (model_specific_reasoning model_id) (\<lambda>_. is_claude model_id)))
    (cond_transform drop_reasoning_only (\<lambda>_. is_claude model_id))
    :: 'v chat_context \<Rightarrow> 'v chat_context"
  have "request_transformer ?after"
    by (intro request_transformer_pipe drop_details.cond normalizer.request_transformer_axioms
        model_specific.cond drop_only.cond)
  moreover have "\<forall>c. ctx_tools (?after c) = ctx_tools c"
    by (simp add: pipe_def cond_transform_def drop_reasoning_details_def reasoning_normalizer_def
        model_specific_reasoning_def drop_reasoning_only_def Let_def
        split: option.split anthropic_family.split)
  ultimately show ?thesis
    by (intro exI [of _ ?after]) (simp add: request_pipeline_def pipe_def default_transformation_def)
qed

lemma last_index_simps [simp]:
  "last_index P [] = None"
  "last_index P (xs @ [x]) = (if P x then Some (length xs) else last_index P xs)"
  by (simp_all add: last_index_def enumerate_append_eq)

lemma last_index_split:
  "case last_index P xs of
     None \<Rightarrow> list_all (\<lambda>x. \<not> P x) xs
   | Some k \<Rightarrow> k < length xs \<and> P (xs ! k) \<and> list_all (\<lambda>x. \<not> P x) (drop (Suc k) xs)"
proof (induction xs rule: rev_induct)
  case (snoc x xs)
  then show ?case
    by (cases "last_index P xs") (auto simp: nth_append)
qed simp

text \<open>What each Anthropic family accepts.\<close>

definition family_accepts :: "anthropic_family \<Rightarrow> 'v chat_context \<Rightarrow> reasoning_config \<Rightarrow> bool" where
  "family_accepts family c r =
     (case family of
        AdaptiveOnly \<Rightarrow> rc_max_tokens r = None \<and> ctx_temperature c = None \<and> ctx_top_p c = None
          \<and> ctx_top_k c = None
      | AdaptiveFriendly \<Rightarrow> rc_effort r \<noteq> Some EXHigh
      | LegacyWithEffort \<Rightarrow> rc_max_tokens r \<noteq> None \<and> rc_effort r \<noteq> Some EXHigh \<and> rc_effort r \<noteq> Some EMax
      | LegacyNoEffort \<Rightarrow> rc_max_tokens r \<noteq> None \<and> rc_effort r = None)"

text \<open>A reasoning configuration the family's rules leave without a reason to be on.\<close>

definition switched_off :: "anthropic_family \<Rightarrow> reasoning_config \<Rightarrow> bool" where
  "switched_off family r =
     (rc_enabled r = None \<and>
       (case family of
          AdaptiveOnly \<Rightarrow> rc_effort r = None
        | LegacyNoEffort \<Rightarrow> rc_max_tokens r = Some 0
        | _ \<Rightarrow> False))"

section \<open>Properties\<close>

text \<open>C17: What is sent is well formed whenever the history is: whichever of the conditional stages run,
  every tool call of the request is answered by its result and only the assistant makes calls.\<close>

theorem request_stays_well_formed:
  assumes "well_formed_history (ctx_messages c)"
  shows "well_formed_history (ctx_messages
    (request_pipeline repair raw_obj order model_id tool_supported reasoning_supported c))"
  using assms by (rule pipeline.keeps_well_formed)

text \<open>No image is lost on the way: the request carries the same images as the context, as a
  multiset, and none of them inside a tool result.\<close>

theorem request_keeps_images:
  "mset (context_images (request_pipeline repair raw_obj order model_id tool_supported
       reasoning_supported c)) = mset (context_images c)
   \<and> list_all (\<lambda>e. clean_result (me_message e)) (ctx_messages
       (request_pipeline repair raw_obj order model_id tool_supported reasoning_supported c))"
proof
  show "list_all (\<lambda>e. clean_result (me_message e)) (ctx_messages
       (request_pipeline repair raw_obj order model_id tool_supported reasoning_supported c))"
    using request_pipeline_split [of repair raw_obj order model_id tool_supported reasoning_supported c]
    by (metis image_handling_clean request_transformer.keeps_clean)
qed (rule pipeline.keeps_images)

text \<open>A model without tools sees none: the request offers no tool and has no tool call and no tool
  result left, provided only assistant messages carry tool calls.\<close>

theorem request_without_tools:
  assumes "list_all (\<lambda>e. calls_by_assistant (me_message e)) (ctx_messages c)"
  shows "ctx_tools (request_pipeline repair raw_obj order model_id False reasoning_supported c) = []
   \<and> list_all (\<lambda>e. plain_message (me_message e)) (ctx_messages
       (request_pipeline repair raw_obj order model_id False reasoning_supported c))"
proof -
  let ?c = "normalize_tool_args repair raw_obj (sort_tools_transform order c)"
  obtain after where after: "request_transformer after"
    "request_pipeline repair raw_obj order model_id False reasoning_supported c
      = after (image_handling (transform_tool_calls None ?c))"
    "\<And>c. ctx_tools (after c) = ctx_tools c"
    using request_pipeline_split [of repair raw_obj order model_id False reasoning_supported c]
    by (auto simp: cond_transform_def)
  have "map (\<lambda>e. msg_shape (me_message e)) (ctx_messages ?c) = map (\<lambda>e. msg_shape (me_message e)) (ctx_messages c)"
    by (simp add: normalize_tool_args_def sort_tools_transform_def map_text_shape option.map_comp comp_def)
  then have "list_all2 (\<lambda>e e'. msg_shape (me_message e) = msg_shape (me_message e')) (ctx_messages c) (ctx_messages ?c)"
    by (simp add: list_all2_conv_all_nth list_eq_iff_nth_eq)
  then have "list_all (\<lambda>e. calls_by_assistant (me_message e)) (ctx_messages ?c)"
    using assms by (induction rule: list_all2_induct) (auto dest: calls_by_assistant_shape)
  then have "list_all (\<lambda>e. plain_message (me_message e))
      (ctx_messages (after (image_handling (transform_tool_calls None ?c))))"
    by (intro request_transformer.keeps_plain [OF after(1)] images.keeps_plain transform_tool_calls_plain)
  then show ?thesis
    by (simp add: after(2,3)) (simp add: image_handling_def transform_tool_calls_def split_beta Let_def)
qed

definition demo_image :: image where
  "demo_image = \<lparr>img_url = lit ''u'', img_mime_type = lit ''m''\<rparr>"

definition demo_request :: "unit chat_context" where
  "demo_request = append_message (add_message context_default (msg_user (lit ''hi'') None))
     (lit ''sure'') None None None usage_default
     [(fst (demo_records ! 0),
       (snd (demo_records ! 0))\<lparr>tr_output := output_image demo_image\<rparr>)] None"

definition demo_repair :: "rstr \<Rightarrow> unit + unit" where
  "demo_repair s = Inr ()"

lemma demo_request_messages:
  "ctx_messages demo_request =
     [entry_of (msg_user (lit ''hi'') None),
      (entry_of (msg_assistant (lit ''sure'') None None (Some [fst (demo_records ! 0)])))
        \<lparr>me_usage := Some usage_default\<rparr>,
      entry_of (msg_tool_result ((snd (demo_records ! 0))\<lparr>tr_output := output_image demo_image\<rparr>))]"
  by (simp add: demo_request_def append_message_def add_message_def context_default_def entry_of_def
      msg_assistant_def Let_def)

lemma demo_request_well_formed: "well_formed_history (ctx_messages demo_request)"
  by (simp add: demo_request_messages well_formed_history_def calls_by_assistant_def paired_def
      entry_of_def msg_user_def msg_assistant_def msg_tool_result_def demo_records_def)

theorem request_stays_well_formed_witness:
  "well_formed_history (ctx_messages
    (request_pipeline demo_repair (\<lambda>_. ()) tool_order_default (lit ''claude-opus-4-5'') False True
      demo_request))"
  by (rule request_stays_well_formed [OF demo_request_well_formed])

theorem request_without_tools_witness:
  "ctx_tools (request_pipeline demo_repair (\<lambda>_. ()) tool_order_default (lit ''gpt'') False False
       demo_request) = []
   \<and> list_all (\<lambda>e. plain_message (me_message e)) (ctx_messages
       (request_pipeline demo_repair (\<lambda>_. ()) tool_order_default (lit ''gpt'') False False demo_request))"
  using demo_request_well_formed
  by (intro request_without_tools) (simp add: well_formed_history_def)

text \<open>Reasoning of another model is never replayed: exactly the messages up to the last assistant
  message of a different model lose their reasoning and signature, and the tail after it, produced
  by the current model only, is kept as it is.\<close>

theorem reasoning_normalizer_spec:
  "\<exists>earlier tail. ctx_messages c = earlier @ tail
     \<and> reasoning_normalizer m c = c\<lparr>ctx_messages := map strip_reasoning earlier @ tail\<rparr>
     \<and> list_all (\<lambda>e. \<not> foreign_assistant m e) tail
     \<and> (if earlier = [] then True else foreign_assistant m (last earlier))"
proof (cases "last_index (foreign_assistant m) (ctx_messages c)")
  case None
  then show ?thesis
    using last_index_split [of "foreign_assistant m" "ctx_messages c"]
    by (intro exI [of _ "[]"] exI [of _ "ctx_messages c"]) (simp add: reasoning_normalizer_def)
next
  case (Some k)
  then have k: "k < length (ctx_messages c)" "foreign_assistant m (ctx_messages c ! k)"
    "list_all (\<lambda>e. \<not> foreign_assistant m e) (drop (Suc k) (ctx_messages c))"
    using last_index_split [of "foreign_assistant m" "ctx_messages c"] by simp_all
  then have earlier: "take (Suc k) (ctx_messages c) \<noteq> []"
    "last (take (Suc k) (ctx_messages c)) = ctx_messages c ! k"
    by (auto simp: take_Suc_conv_app_nth)
  show ?thesis
    by (rule exI [of _ "take (Suc k) (ctx_messages c)"], rule exI [of _ "drop (Suc k) (ctx_messages c)"])
      (simp add: reasoning_normalizer_def Some k earlier del: take_eq_Nil)
qed

text \<open>The Anthropic rules do their job and cost one thing: with reasoning on, the settings sent are
  ones the model's family accepts; but reasoning is silently switched off when the only reason it
  was on is a setting the family drops (a token budget alone on an adaptive-only model, an effort
  with budget 0 on a legacy one).\<close>

theorem model_specific_reasoning_accepted:
  assumes "ctx_reasoning c = Some r" and "is_reasoning_supported c"
  shows "(case ctx_reasoning (model_specific_reasoning model_id c) of
       None \<Rightarrow> False
     | Some r' \<Rightarrow> family_accepts (model_family model_id) (model_specific_reasoning model_id c) r'
         \<and> rc_enabled r' = rc_enabled r \<and> rc_exclude r' = rc_exclude r)
   \<and> (is_reasoning_supported (model_specific_reasoning model_id c) \<longleftrightarrow>
        \<not> switched_off (model_family model_id) r)"
  using assms
  by (cases "model_family model_id")
    (auto simp: model_specific_reasoning_def family_accepts_def switched_off_def
      is_reasoning_supported_def replace_xhigh_with_max_def clamp_effort_to_high_def
      set_default_legacy_budget_def Let_def split: if_splits option.splits)

theorem model_specific_reasoning_accepted_witness:
  "family_accepts AdaptiveOnly
     (model_specific_reasoning (lit ''claude-opus-4-7'') ((context_default :: unit chat_context)\<lparr>ctx_reasoning :=
        Some \<lparr>rc_effort = None, rc_max_tokens = Some 4000, rc_exclude = None, rc_enabled = None\<rparr>\<rparr>))
     \<lparr>rc_effort = None, rc_max_tokens = None, rc_exclude = None, rc_enabled = None\<rparr>
   \<and> \<not> is_reasoning_supported
     (model_specific_reasoning (lit ''claude-opus-4-7'') ((context_default :: unit chat_context)\<lparr>ctx_reasoning :=
        Some \<lparr>rc_effort = None, rc_max_tokens = Some 4000, rc_exclude = None, rc_enabled = None\<rparr>\<rparr>))"
proof -
  let ?r = "\<lparr>rc_effort = None, rc_max_tokens = Some 4000, rc_exclude = None, rc_enabled = None\<rparr>"
  let ?c = "(context_default :: unit chat_context)\<lparr>ctx_reasoning := Some ?r\<rparr>"
  have family: "model_family (lit ''claude-opus-4-7'') = AdaptiveOnly"
    by code_simp
  have on: "is_reasoning_supported ?c"
    by (simp add: is_reasoning_supported_def)
  show ?thesis
    using model_specific_reasoning_accepted [of ?c ?r "lit ''claude-opus-4-7''", OF _ on]
    by (simp add: family switched_off_def)
      (simp add: family model_specific_reasoning_def is_reasoning_supported_def)
qed

end
