(* ===== verification/Compact_Config.thy ===== *)
theory Compact_Config
  imports Chat_Context
begin

text \<open>
  \<open>forge_domain/src/compact/compact_config.rs\<close>: the configuration of automatic compaction, the
  two ways an overlay is merged into it (workflow over global, agent over workflow), and the
  trigger \<open>should_compact\<close>. A percentage or score (\<open>f64\<close>) is the rational it denotes.
\<close>

section \<open>The configuration\<close>

datatype summarization_strategy = Extract | Llm | Hybrid

definition requires_llm :: "summarization_strategy \<Rightarrow> bool" where
  "requires_llm s \<longleftrightarrow> s = Llm \<or> s = Hybrid"

definition default_summary_timeout :: nat where
  "default_summary_timeout = 3"

record compact =
  cc_retention_window :: nat
  cc_eviction_window :: rat
  cc_max_tokens :: "nat option"
  cc_token_threshold :: "nat option"
  cc_token_threshold_percentage :: "rat option"
  cc_turn_threshold :: "nat option"
  cc_message_threshold :: "nat option"
  cc_model :: "rstr option"
  cc_on_turn_end :: "bool option"
  cc_summarization_strategy :: summarization_strategy
  cc_summary_model :: "rstr option"
  cc_summary_max_tokens :: "nat option"
  cc_summary_timeout_secs :: nat
  cc_enable_prefilter :: bool
  cc_enable_adaptive_eviction :: bool
  cc_enable_importance_scoring :: bool
  cc_context_compression_level :: nat
  cc_min_importance_threshold :: rat
  cc_prune_threshold :: nat
  cc_enable_semantic_compression :: bool
  cc_enable_structural_dedup :: bool
  cc_compression_strategy :: rstr
  cc_prune_strategy :: rstr

text \<open>\<open>0.2\<close> and \<open>0.15\<close> are the doubles nearest to them.\<close>

definition compact_default :: compact where
  "compact_default =
     \<lparr> cc_retention_window = 0, cc_eviction_window = 3602879701896397 / 18014398509481984,
       cc_max_tokens = None, cc_token_threshold = None, cc_token_threshold_percentage = None,
       cc_turn_threshold = None, cc_message_threshold = None, cc_model = None,
       cc_on_turn_end = None, cc_summarization_strategy = Extract, cc_summary_model = None,
       cc_summary_max_tokens = None, cc_summary_timeout_secs = default_summary_timeout,
       cc_enable_prefilter = False, cc_enable_adaptive_eviction = False,
       cc_enable_importance_scoring = False, cc_context_compression_level = 0,
       cc_min_importance_threshold = 5404319552844595 / 36028797018963968,
       cc_prune_threshold = 3, cc_enable_semantic_compression = False,
       cc_enable_structural_dedup = False, cc_compression_strategy = [], cc_prune_strategy = [] \<rparr>"

text \<open>\<open>deserialize_percentage\<close>: \<open>Inl\<close> carries the refused value of the error message.\<close>

definition deserialize_percentage :: "rat \<Rightarrow> rat + rat" where
  "deserialize_percentage v = (if \<not> (0 \<le> v \<and> v \<le> 1) then Inl v else Inr v)"

definition deserialize_optional_percentage :: "rat option \<Rightarrow> rat + rat option" where
  "deserialize_optional_percentage v =
     (case v of
        Some x \<Rightarrow> if \<not> (0 \<le> x \<and> x \<le> 1) then Inl x else Inr v
      | None \<Rightarrow> Inr v)"

section \<open>Merging\<close>

text \<open>\<open>if other.f.is_some() { self.f = other.f }\<close> and \<open>if other.f != defaults.f { ... }\<close>.\<close>

definition over_opt :: "'a option \<Rightarrow> 'a option \<Rightarrow> 'a option" where
  "over_opt a b = (if b \<noteq> None then b else a)"

definition over_ne :: "'a \<Rightarrow> 'a \<Rightarrow> 'a \<Rightarrow> 'a" where
  "over_ne d a b = (if b \<noteq> d then b else a)"

definition merge_from :: "compact \<Rightarrow> compact \<Rightarrow> compact" where
  "merge_from self other =
     self \<lparr> cc_retention_window := cc_retention_window other,
       cc_eviction_window := cc_eviction_window other,
       cc_max_tokens := over_opt (cc_max_tokens self) (cc_max_tokens other),
       cc_token_threshold := over_opt (cc_token_threshold self) (cc_token_threshold other),
       cc_token_threshold_percentage :=
         over_opt (cc_token_threshold_percentage self) (cc_token_threshold_percentage other),
       cc_turn_threshold := over_opt (cc_turn_threshold self) (cc_turn_threshold other),
       cc_message_threshold := over_opt (cc_message_threshold self) (cc_message_threshold other),
       cc_model := over_opt (cc_model self) (cc_model other),
       cc_on_turn_end := over_opt (cc_on_turn_end self) (cc_on_turn_end other),
       cc_summarization_strategy := cc_summarization_strategy other,
       cc_summary_model := over_opt (cc_summary_model self) (cc_summary_model other),
       cc_summary_max_tokens := over_opt (cc_summary_max_tokens self) (cc_summary_max_tokens other),
       cc_summary_timeout_secs := cc_summary_timeout_secs other,
       cc_enable_prefilter := cc_enable_prefilter other,
       cc_enable_adaptive_eviction := cc_enable_adaptive_eviction other,
       cc_enable_importance_scoring := cc_enable_importance_scoring other,
       cc_context_compression_level := cc_context_compression_level other,
       cc_min_importance_threshold := cc_min_importance_threshold other,
       cc_prune_threshold := cc_prune_threshold other,
       cc_enable_semantic_compression := cc_enable_semantic_compression other,
       cc_enable_structural_dedup := cc_enable_structural_dedup other,
       cc_compression_strategy := cc_compression_strategy other,
       cc_prune_strategy := cc_prune_strategy other \<rparr>"

definition merge_non_default_from :: "compact \<Rightarrow> compact \<Rightarrow> compact" where
  "merge_non_default_from self other =
     (let d = compact_default in
      self \<lparr> cc_retention_window := over_ne (cc_retention_window d) (cc_retention_window self) (cc_retention_window other),
       cc_eviction_window := over_ne (cc_eviction_window d) (cc_eviction_window self) (cc_eviction_window other),
       cc_summarization_strategy := over_ne (cc_summarization_strategy d) (cc_summarization_strategy self) (cc_summarization_strategy other),
       cc_summary_timeout_secs := over_ne (cc_summary_timeout_secs d) (cc_summary_timeout_secs self) (cc_summary_timeout_secs other),
       cc_enable_prefilter := over_ne (cc_enable_prefilter d) (cc_enable_prefilter self) (cc_enable_prefilter other),
       cc_enable_adaptive_eviction := over_ne (cc_enable_adaptive_eviction d) (cc_enable_adaptive_eviction self) (cc_enable_adaptive_eviction other),
       cc_enable_importance_scoring := over_ne (cc_enable_importance_scoring d) (cc_enable_importance_scoring self) (cc_enable_importance_scoring other),
       cc_context_compression_level := over_ne (cc_context_compression_level d) (cc_context_compression_level self) (cc_context_compression_level other),
       cc_min_importance_threshold := over_ne (cc_min_importance_threshold d) (cc_min_importance_threshold self) (cc_min_importance_threshold other),
       cc_prune_threshold := over_ne (cc_prune_threshold d) (cc_prune_threshold self) (cc_prune_threshold other),
       cc_enable_semantic_compression := over_ne (cc_enable_semantic_compression d) (cc_enable_semantic_compression self) (cc_enable_semantic_compression other),
       cc_enable_structural_dedup := over_ne (cc_enable_structural_dedup d) (cc_enable_structural_dedup self) (cc_enable_structural_dedup other),
       cc_compression_strategy := over_ne (cc_compression_strategy d) (cc_compression_strategy self) (cc_compression_strategy other),
       cc_prune_strategy := over_ne (cc_prune_strategy d) (cc_prune_strategy self) (cc_prune_strategy other),
       cc_max_tokens := over_opt (cc_max_tokens self) (cc_max_tokens other),
       cc_token_threshold := over_opt (cc_token_threshold self) (cc_token_threshold other),
       cc_token_threshold_percentage :=
         over_opt (cc_token_threshold_percentage self) (cc_token_threshold_percentage other),
       cc_turn_threshold := over_opt (cc_turn_threshold self) (cc_turn_threshold other),
       cc_message_threshold := over_opt (cc_message_threshold self) (cc_message_threshold other),
       cc_model := over_opt (cc_model self) (cc_model other),
       cc_on_turn_end := over_opt (cc_on_turn_end self) (cc_on_turn_end other),
       cc_summary_model := over_opt (cc_summary_model self) (cc_summary_model other),
       cc_summary_max_tokens := over_opt (cc_summary_max_tokens self) (cc_summary_max_tokens other) \<rparr>)"

section \<open>The trigger\<close>

definition should_compact_due_to_tokens :: "compact \<Rightarrow> nat \<Rightarrow> bool" where
  "should_compact_due_to_tokens cc tokens =
     (case cc_token_threshold cc of Some th \<Rightarrow> th \<le> tokens | None \<Rightarrow> False)"

definition should_compact_due_to_turns :: "compact \<Rightarrow> 'v chat_context \<Rightarrow> bool" where
  "should_compact_due_to_turns cc c =
     (case cc_turn_threshold cc of
        Some th \<Rightarrow> th \<le> length (filter (\<lambda>m. entry_has_role m User) (ctx_messages c))
      | None \<Rightarrow> False)"

definition should_compact_due_to_messages :: "compact \<Rightarrow> 'v chat_context \<Rightarrow> bool" where
  "should_compact_due_to_messages cc c =
     (case cc_message_threshold cc of
        Some th \<Rightarrow> (let msg_count = length (ctx_messages c) in th \<le> msg_count)
      | None \<Rightarrow> False)"

definition should_compact_on_turn_end :: "compact \<Rightarrow> 'v chat_context \<Rightarrow> bool" where
  "should_compact_on_turn_end cc c =
     (if cc_on_turn_end cc = Some True
      then (if ctx_messages c = [] then False else entry_has_role (last (ctx_messages c)) User)
      else False)"

definition should_compact :: "compact \<Rightarrow> 'v chat_context \<Rightarrow> nat \<Rightarrow> bool" where
  "should_compact cc c tokens \<longleftrightarrow>
     should_compact_due_to_tokens cc tokens \<or> should_compact_due_to_turns cc c \<or>
     should_compact_due_to_messages cc c \<or> should_compact_on_turn_end cc c"

text \<open>
  \<open>forge_domain/src/agent.rs\<close>, \<open>Agent::compaction_threshold\<close> and \<open>set_compact_model_if_none\<close>,
  on the agent's \<open>compact\<close> field. The selected model is given by its \<open>context_length\<close> (\<open>u64\<close>,
  which fits a 64-bit \<open>usize\<close>); \<open>0.7\<close> is the double nearest to it.
\<close>

definition set_compact_model_if_none :: "rstr \<Rightarrow> compact \<Rightarrow> compact" where
  "set_compact_model_if_none agent_model cc =
     (if cc_model cc = None then cc\<lparr>cc_model := Some agent_model\<rparr> else cc)"

definition compaction_threshold :: "nat option option \<Rightarrow> compact \<Rightarrow> compact" where
  "compaction_threshold selected_model cc =
     (let context_window = (case Option.bind selected_model id of Some w \<Rightarrow> w | None \<Rightarrow> 128000);
          configured_threshold = (case cc_token_threshold cc of Some th \<Rightarrow> th | None \<Rightarrow> 100000);
          context_window_percentage =
            (case cc_token_threshold_percentage cc of
               Some p \<Rightarrow> p | None \<Rightarrow> 3152519739159347 / 4503599627370496);
          context_window_threshold =
            f64_floor_usize (f64_mul (f64_of_usize context_window) context_window_percentage)
      in cc\<lparr>cc_token_threshold := Some (min configured_threshold context_window_threshold)\<rparr>)"

section \<open>Overlays form a monoid\<close>

text \<open>
  An interface for layered configuration: an overlay operation that is associative. What the
  layers of a chain resolve to does not depend on how the chain is bracketed.
\<close>

locale overlay =
  fixes over :: "'c \<Rightarrow> 'c \<Rightarrow> 'c"
  assumes over_assoc: "over (over a b) c = over a (over b c)"
begin

lemma foldl_over: "foldl over (over a b) cs = over a (foldl over b cs)"
  by (induction cs arbitrary: b) (simp_all add: over_assoc)

lemma chain_split: "ds \<noteq> [] \<Longrightarrow> foldl over a (bs @ ds) = over (foldl over a bs) (foldl over (hd ds) (tl ds))"
  by (cases ds) (simp_all add: foldl_over)

end

locale overlay_with_default = overlay +
  fixes d :: 'c
  assumes over_default: "over a d = a"
    and default_over: "over d a = a"
begin

lemma drop_defaults: "foldl over a (bs @ [d] @ cs) = foldl over a (bs @ cs)"
  by (simp add: over_default)

lemma from_default: "cs \<noteq> [] \<Longrightarrow> foldl over d cs = foldl over (hd cs) (tl cs)"
  by (cases cs) (simp_all add: default_over)

end

lemma over_opt_assoc: "over_opt (over_opt a b) c = over_opt a (over_opt b c)"
  by (auto simp: over_opt_def)

lemma over_ne_assoc: "over_ne d (over_ne d a b) c = over_ne d a (over_ne d b c)"
  by (simp add: over_ne_def)

lemma over_opt_units [simp]: "over_opt a None = a" "over_opt None a = a"
  by (auto simp: over_opt_def)

lemma over_ne_units [simp]: "over_ne d a d = a" "over_ne d d a = a"
  by (auto simp: over_ne_def)

interpretation layered: overlay merge_from
  by unfold_locales (simp add: merge_from_def over_opt_assoc)

interpretation agent: overlay_with_default merge_non_default_from compact_default
proof unfold_locales
  fix a b c :: compact
  show "merge_non_default_from (merge_non_default_from a b) c = merge_non_default_from a (merge_non_default_from b c)"
    by (simp add: merge_non_default_from_def Let_def over_opt_assoc over_ne_assoc)
  show "merge_non_default_from a compact_default = a"
    by (simp add: merge_non_default_from_def Let_def) (simp add: compact_default_def)
  show "merge_non_default_from compact_default a = a"
    by (simp add: merge_non_default_from_def Let_def) (simp add: compact_default_def)
qed


section \<open>Correctness\<close>

text \<open>Layered configuration does not depend on bracketing: merging a chain of overlays one by
  one with \<open>merge_from\<close> is merging the chain's first part with the separately merged rest.\<close>

theorem merge_chain_split:
  assumes "rest \<noteq> []"
  shows "foldl merge_from base (first @ rest)
    = merge_from (foldl merge_from base first) (foldl merge_from (hd rest) (tl rest))"
  using assms by (rule layered.chain_split)

theorem merge_chain_split_witness:
  "foldl merge_from compact_default ([compact_default\<lparr>cc_model := Some [1]\<rparr>] @ [compact_default])
    = merge_from (foldl merge_from compact_default [compact_default\<lparr>cc_model := Some [1]\<rparr>])
        (foldl merge_from (hd [compact_default]) (tl [compact_default]))"
  by (rule merge_chain_split) simp

text \<open>Agent overlays (\<open>merge_non_default_from\<close>) form a monoid with the default configuration
  as unit: a freshly constructed agent's configuration, wherever it stands in a chain, changes
  nothing, and merging into the default gives the overlay itself.\<close>

theorem merge_non_default_default_neutral:
  "foldl merge_non_default_from base (first @ [compact_default] @ rest)
     = foldl merge_non_default_from base (first @ rest)
   \<and> merge_non_default_from compact_default c = c
   \<and> merge_non_default_from (merge_non_default_from a b) c
     = merge_non_default_from a (merge_non_default_from b c)"
  by (intro conjI agent.drop_defaults agent.default_over agent.over_assoc)

text \<open>Compaction is triggered exactly when one of the configured thresholds is reached (tokens,
  user turns, messages) or, with \<open>on_turn_end\<close>, when the last message is the user's; a
  configuration with none of them set never compacts. The percentage threshold takes no part.\<close>

theorem should_compact_iff:
  "should_compact cc c tokens \<longleftrightarrow>
     (\<exists>th. cc_token_threshold cc = Some th \<and> th \<le> tokens)
     \<or> (\<exists>th. cc_turn_threshold cc = Some th \<and> th \<le> user_message_count c)
     \<or> (\<exists>th. cc_message_threshold cc = Some th \<and> th \<le> total_messages c)
     \<or> (cc_on_turn_end cc = Some True \<and>
         (\<exists>ms m. ctx_messages c = ms @ [m] \<and> entry_has_role m User))"
proof -
  have "should_compact_on_turn_end cc c \<longleftrightarrow> cc_on_turn_end cc = Some True \<and>
      (\<exists>ms m. ctx_messages c = ms @ [m] \<and> entry_has_role m User)"
    by (cases "ctx_messages c" rule: rev_cases) (auto simp: should_compact_on_turn_end_def)
  then show ?thesis
    by (simp add: should_compact_def should_compact_due_to_tokens_def
        should_compact_due_to_turns_def should_compact_due_to_messages_def user_message_count_def
        total_messages_def Let_def split: option.split)
qed

lemma deserialize_percentage_range: "deserialize_percentage v = Inr x \<Longrightarrow> x = v \<and> 0 \<le> x \<and> x \<le> 1"
  by (auto simp: deserialize_percentage_def split: if_splits)


lemma f64_of_usize_le: "int n < 2 ^ 53 \<Longrightarrow> f64_of_usize n \<le> of_int (int n)"
  unfolding f64_of_usize_def by (rule f64_round_le_int) simp_all

lemma f64_of_usize_nonneg: "0 \<le> f64_of_usize n"
  by (simp add: f64_of_usize_def f64_round_nonneg)

lemma f64_fraction_le:
  assumes "int n < 2 ^ 53" "0 \<le> p" "p \<le> 1"
  shows "f64_mul (f64_of_usize n) p \<le> of_int (int n)" "0 \<le> f64_mul (f64_of_usize n) p"
proof -
  have "f64_of_usize n * p \<le> f64_of_usize n * 1"
    using assms(3) f64_of_usize_nonneg by (rule mult_left_mono)
  with f64_of_usize_le [OF assms(1)] have "f64_of_usize n * p \<le> of_int (int n)" by simp
  moreover have "0 \<le> f64_of_usize n * p"
    using assms(2) f64_of_usize_nonneg by simp
  ultimately show "f64_mul (f64_of_usize n) p \<le> of_int (int n)" "0 \<le> f64_mul (f64_of_usize n) p"
    unfolding f64_mul_def using f64_round_le_int [OF _ _ assms(1)] f64_round_nonneg by blast+
qed

lemma f64_floor_fraction_le:
  assumes "int n < 2 ^ 53" "0 \<le> p" "p \<le> 1"
  shows "f64_floor_usize (f64_mul (f64_of_usize n) p) \<le> n"
proof -
  have "\<lfloor>f64_mul (f64_of_usize n) p\<rfloor> \<le> int n"
    using f64_fraction_le(1) [OF assms] by (metis floor_mono floor_of_int)
  then show ?thesis by (simp add: f64_floor_usize_def)
qed

text \<open>After \<open>compaction_threshold\<close> the token threshold is set, is at most the configured one
  (or 100,000), and is at most the model's context window (or 128,000) when the percentage is
  valid; hence a context that fills the model's window always triggers compaction.\<close>

theorem compaction_threshold_safe:
  assumes "int window < 2 ^ 53"
    and "\<And>p. cc_token_threshold_percentage cc = Some p \<Longrightarrow> 0 \<le> p \<and> p \<le> 1"
    and "window \<le> tokens"
  shows "\<exists>th. cc_token_threshold (compaction_threshold (Some (Some window)) cc) = Some th
      \<and> th \<le> window
      \<and> th \<le> (case cc_token_threshold cc of Some t \<Rightarrow> t | None \<Rightarrow> 100000)
      \<and> should_compact (compaction_threshold (Some (Some window)) cc) c tokens"
proof -
  define p where "p = (case cc_token_threshold_percentage cc of
      Some p \<Rightarrow> p | None \<Rightarrow> 3152519739159347 / 4503599627370496)"
  have "0 \<le> p" "p \<le> 1"
    using assms(2) by (auto simp: p_def split: option.split)
  then have "f64_floor_usize (f64_mul (f64_of_usize window) p) \<le> window"
    using assms(1) by (intro f64_floor_fraction_le)
  then show ?thesis
    using assms(3)
    by (auto simp: compaction_threshold_def p_def [symmetric] Let_def should_compact_def
        should_compact_due_to_tokens_def intro: min.coboundedI2)
qed

definition demo_compact :: compact where
  "demo_compact = compact_default\<lparr>cc_token_threshold_percentage := Some (1 / 2)\<rparr>"

definition demo_context :: "int chat_context" where
  "demo_context = context_default"

theorem compaction_threshold_safe_witness:
  "\<exists>th. cc_token_threshold (compaction_threshold (Some (Some 40)) demo_compact) = Some th
      \<and> th \<le> 40
      \<and> th \<le> (case cc_token_threshold demo_compact of Some t \<Rightarrow> t | None \<Rightarrow> 100000)
      \<and> should_compact (compaction_threshold (Some (Some 40)) demo_compact) demo_context 41"
  by (rule compaction_threshold_safe) (simp_all add: demo_compact_def)

end
