(* ===== verification/Conversations.thy ===== *)
theory Conversations
  imports Chat_Context
begin

text \<open>
  \<open>forge_domain/src/conversation.rs\<close> and \<open>session_metrics.rs\<close>: the conversation the agent loop
  works on, with its session metrics and todo list. The todo list is shown to refine a map from
  content to status. Times are integers (milliseconds); the ids \<open>Uuid::new_v4\<close> draws are the
  parameter \<open>uuid\<close>, the n-th id drawn.
\<close>

section \<open>Tools and todos\<close>

datatype tool_kind =
    KRead | KWrite | KFsSearch | KSemSearch | KRemove | KPatch | KMultiPatch | KUndo | KShell
  | KFetch | KFollowup | KPlan | KSkill | KTodoWrite | KTodoRead | KTask

datatype todo_status = Pending | InProgress | Completed | Cancelled

record todo =
  tdo_id :: rstr
  tdo_content :: rstr
  tdo_status :: todo_status

record todo_item =
  ti_content :: rstr
  ti_status :: todo_status

datatype todo_error = TodoEmpty | TodoTooLong

definition todo_new :: "rstr \<Rightarrow> todo" where
  "todo_new content = \<lparr>tdo_id = [], tdo_content = content, tdo_status = Pending\<rparr>"

definition todo_validate :: "todo \<Rightarrow> todo_error + unit" where
  "todo_validate t =
     (if str_trim (tdo_content t) = [] then Inl TodoEmpty
      else if 1000 < utf8_len (tdo_content t) then Inl TodoTooLong
      else Inr ())"

definition todo_is_incomplete :: "todo \<Rightarrow> bool" where
  "todo_is_incomplete t \<longleftrightarrow> tdo_status t \<in> {Pending, InProgress}"

section \<open>Session metrics\<close>

record file_operation =
  fo_lines_added :: nat
  fo_lines_removed :: nat
  fo_content_hash :: "rstr option"
  fo_tool :: tool_kind

definition file_operation_new :: "tool_kind \<Rightarrow> file_operation" where
  "file_operation_new tool =
     \<lparr>fo_lines_added = 0, fo_lines_removed = 0, fo_content_hash = None, fo_tool = tool\<rparr>"

record metrics =
  mt_started_at :: "int option"
  mt_file_operations :: "rstr \<Rightarrow> file_operation option"
  mt_files_accessed :: "rstr set"
  mt_todos :: "todo list"

definition metrics_default :: metrics where
  "metrics_default = \<lparr>mt_started_at = None, mt_file_operations = Map.empty, mt_files_accessed = {},
     mt_todos = []\<rparr>"

definition metrics_insert :: "metrics \<Rightarrow> rstr \<Rightarrow> file_operation \<Rightarrow> metrics" where
  "metrics_insert m path op1 =
     (let m = (if fo_tool op1 = KRead
               then m\<lparr>mt_files_accessed := insert path (mt_files_accessed m)\<rparr> else m)
      in m\<lparr>mt_file_operations := (mt_file_operations m)(path \<mapsto> op1)\<rparr>)"

definition active_todos :: "todo list \<Rightarrow> todo list" where
  "active_todos ts = filter (\<lambda>t. tdo_status t \<in> {Pending, InProgress}) ts"

definition get_active_todos :: "metrics \<Rightarrow> todo list" where
  "get_active_todos m = active_todos (mt_todos m)"

text \<open>The body of the second loop of \<open>apply_todo_changes\<close>, with the number of ids drawn so far.\<close>

fun set_first_status :: "rstr \<Rightarrow> todo_status \<Rightarrow> todo list \<Rightarrow> todo list" where
  "set_first_status content status [] = []"
| "set_first_status content status (t # ts) =
     (if tdo_content t = content then t\<lparr>tdo_status := status\<rparr> # ts
      else t # set_first_status content status ts)"

definition apply_todo_item ::
  "(nat \<Rightarrow> rstr) \<Rightarrow> nat \<times> todo list \<Rightarrow> todo_item \<Rightarrow> nat \<times> todo list" where
  "apply_todo_item uuid st item =
     (let (drawn, ts) = st
      in if ti_status item = Cancelled
         then (drawn, filter (\<lambda>t. tdo_content t \<noteq> ti_content item) ts)
         else if list_ex (\<lambda>t. tdo_content t = ti_content item) ts
         then (drawn, set_first_status (ti_content item) (ti_status item) ts)
         else (Suc drawn, ts @ [\<lparr>tdo_id = uuid drawn, tdo_content = ti_content item,
                                  tdo_status = ti_status item\<rparr>]))"

text \<open>The validating loop: the first offending item decides.\<close>

definition check_todo_item :: "todo_item \<Rightarrow> todo_error option" where
  "check_todo_item item =
     (if str_trim (ti_content item) = [] then Some TodoEmpty
      else if 1000 < utf8_len (ti_content item) then Some TodoTooLong
      else None)"

definition apply_todo_changes ::
  "(nat \<Rightarrow> rstr) \<Rightarrow> metrics \<Rightarrow> todo_item list \<Rightarrow> (todo_error + todo list) \<times> metrics" where
  "apply_todo_changes uuid m changes =
     (case find_map check_todo_item changes of
        Some e \<Rightarrow> (Inl e, m)
      | None \<Rightarrow>
          (let (_, ts) = foldl (apply_todo_item uuid) (0, mt_todos m) changes;
               m = m\<lparr>mt_todos := ts\<rparr>
           in (Inr (get_active_todos m), m)))"

section \<open>Conversations\<close>

record 'v conversation =
  cv_id :: rstr
  cv_title :: "rstr option"
  cv_context :: "'v chat_context option"
  cv_metrics :: metrics
  cv_created_at :: int
  cv_updated_at :: "int option"
  cv_parent_id :: "rstr option"
  cv_source :: "rstr option"
  cv_cwd :: "rstr option"
  cv_message_count :: "int option"

definition conversation_new :: "rstr \<Rightarrow> int \<Rightarrow> 'v conversation" where
  "conversation_new i now =
     \<lparr>cv_id = i, cv_title = None, cv_context = None,
      cv_metrics = metrics_default\<lparr>mt_started_at := Some now\<rparr>, cv_created_at = now,
      cv_updated_at = None, cv_parent_id = None, cv_source = None, cv_cwd = None,
      cv_message_count = None\<rparr>"

definition conv_len :: "'v conversation \<Rightarrow> nat" where
  "conv_len cv = (case cv_context cv of Some c \<Rightarrow> length (ctx_messages c) | None \<Rightarrow> 0)"

definition conv_is_empty :: "'v conversation \<Rightarrow> bool" where
  "conv_is_empty cv \<longleftrightarrow> conv_len cv = 0"

definition conv_first_user_messages :: "'v conversation \<Rightarrow> 'v context_message list" where
  "conv_first_user_messages cv =
     (case cv_context cv of Some c \<Rightarrow> first_user_messages c | None \<Rightarrow> [])"

definition accumulated_usage :: "'v conversation \<Rightarrow> usage option" where
  "accumulated_usage cv = Option.bind (cv_context cv) accumulate_usage"

definition conv_usage :: "'v conversation \<Rightarrow> usage option" where
  "conv_usage cv =
     (let us = List.map_filter me_usage
                 (case cv_context cv of Some c \<Rightarrow> ctx_messages c | None \<Rightarrow> [])
      in if us = [] then None else Some (last us))"

definition conv_token_count :: "('v \<Rightarrow> rstr) \<Rightarrow> 'v conversation \<Rightarrow> tok_count option" where
  "conv_token_count ts cv = map_option (token_count ts) (cv_context cv)"

definition accumulated_cost :: "'v conversation \<Rightarrow> rat option" where
  "accumulated_cost cv = Option.bind (accumulated_usage cv) u_cost"

text \<open>\<open>Iterator::sum\<close> of \<open>f64\<close> adds from the left, starting at 0.\<close>

definition total_cost :: "'v conversation list \<Rightarrow> rat option" where
  "total_cost cvs =
     (let costs = List.map_filter accumulated_cost cvs
      in if costs = [] then None else Some (foldl f64_add 0 costs))"

definition related_conversation_ids :: "'v conversation \<Rightarrow> rstr list" where
  "related_conversation_ids cv =
     (case cv_context cv of
        Some c \<Rightarrow>
          List.map_filter (\<lambda>v. case v of TVAI _ i \<Rightarrow> Some i | _ \<Rightarrow> None)
            (concat (map (\<lambda>r. to_values (tr_output r))
              (List.map_filter (\<lambda>m. as_tool_result (me_message m)) (ctx_messages c))))
      | None \<Rightarrow> [])"

datatype conversation_sort = SUpdated | SCreated | STurns | STitle | SCwd

fun sort_name :: "conversation_sort \<Rightarrow> rstr" where
  "sort_name SUpdated = lit ''updated''"
| "sort_name SCreated = lit ''created''"
| "sort_name STurns = lit ''turns''"
| "sort_name STitle = lit ''title''"
| "sort_name SCwd = lit ''cwd''"

text \<open>\<open>str::to_ascii_lowercase\<close> is \<open>map ascii_lower\<close>.\<close>

definition sort_parse :: "rstr \<Rightarrow> conversation_sort" where
  "sort_parse s =
     (let k = map ascii_lower (str_trim s)
      in if k = lit ''created'' then SCreated
         else if k \<in> {lit ''turns'', lit ''messages'', lit ''msgs''} then STurns
         else if k \<in> {lit ''title'', lit ''name'', lit ''alphabetical''} then STitle
         else if k \<in> {lit ''cwd'', lit ''dir'', lit ''directory''} then SCwd
         else SUpdated)"

section \<open>The todo list as a map\<close>

definition todo_map :: "todo list \<Rightarrow> rstr \<Rightarrow> todo_status option" where
  "todo_map ts = map_of (map (\<lambda>t. (tdo_content t, tdo_status t)) ts)"

definition todos_inv :: "todo list \<Rightarrow> bool" where
  "todos_inv ts \<longleftrightarrow> distinct (map tdo_content ts)"

text \<open>What one change does to the map.\<close>

definition change_map ::
  "(rstr \<Rightarrow> todo_status option) \<Rightarrow> todo_item \<Rightarrow> rstr \<Rightarrow> todo_status option" where
  "change_map f item =
     f(ti_content item := (if ti_status item = Cancelled then None else Some (ti_status item)))"

lemma todo_map_simps [simp]:
  "todo_map [] = Map.empty"
  "todo_map (t # ts) = (todo_map ts)(tdo_content t \<mapsto> tdo_status t)"
  by (simp_all add: todo_map_def)

lemma todo_map_append: "todo_map (ts @ us) = todo_map us ++ todo_map ts"
  by (simp add: todo_map_def)

lemma todo_map_None_iff: "todo_map ts k = None \<longleftrightarrow> k \<notin> tdo_content ` set ts"
  by (simp add: todo_map_def map_of_eq_None_iff image_image)

lemma contents_set_first [simp]: "map tdo_content (set_first_status c s ts) = map tdo_content ts"
  by (induction ts) auto

lemma todo_map_set_first:
  "list_ex (\<lambda>t. tdo_content t = c) ts \<Longrightarrow> todo_map (set_first_status c s ts) = (todo_map ts)(c \<mapsto> s)"
  by (induction ts) (auto simp: fun_upd_twist)

lemma todo_map_remove:
  "todo_map (filter (\<lambda>t. tdo_content t \<noteq> c) ts) = (todo_map ts)(c := None)"
proof (induction ts)
  case (Cons t ts)
  then show ?case by (auto simp: fun_upd_twist)
qed (simp add: fun_eq_iff)

lemma apply_todo_item_map:
  assumes "todos_inv (snd st)"
  shows "todos_inv (snd (apply_todo_item uuid st item))
    \<and> todo_map (snd (apply_todo_item uuid st item)) = change_map (todo_map (snd st)) item"
proof -
  obtain drawn ts where st: "st = (drawn, ts)" by fastforce
  consider "ti_status item = Cancelled"
    | "ti_status item \<noteq> Cancelled" "list_ex (\<lambda>t. tdo_content t = ti_content item) ts"
    | "ti_status item \<noteq> Cancelled" "\<not> list_ex (\<lambda>t. tdo_content t = ti_content item) ts"
    by blast
  then show ?thesis
  proof cases
    case 1
    with assms show ?thesis
      by (simp add: st apply_todo_item_def todos_inv_def distinct_map_filter todo_map_remove
          change_map_def)
  next
    case 2
    with assms show ?thesis
      by (simp add: st apply_todo_item_def todos_inv_def todo_map_set_first change_map_def)
  next
    case 3
    then have new: "ti_content item \<notin> tdo_content ` set ts"
      by (auto simp: list_ex_iff)
    have "todo_map (ts @ [\<lparr>tdo_id = uuid drawn, tdo_content = ti_content item,
        tdo_status = ti_status item\<rparr>]) = (todo_map ts)(ti_content item \<mapsto> ti_status item)"
      using new todo_map_None_iff [of ts "ti_content item"]
      by (auto simp: todo_map_append map_add_def fun_eq_iff split: option.split)
    with 3 new assms show ?thesis
      by (simp add: st apply_todo_item_def todos_inv_def change_map_def)
  qed
qed

lemma foldl_apply_todo_item_map:
  "todos_inv (snd st) \<Longrightarrow>
     todos_inv (snd (foldl (apply_todo_item uuid) st items))
     \<and> todo_map (snd (foldl (apply_todo_item uuid) st items)) = foldl change_map (todo_map (snd st)) items"
  by (induction items arbitrary: st) (use apply_todo_item_map in auto)

lemma find_map_rev:
  "find_map f (rev xs) =
     (if List.map_filter f xs = [] then None else Some (last (List.map_filter f xs)))"
proof (induction xs)
  case (Cons a xs)
  then show ?case
    by (cases "f a") (simp_all add: map_filter_simps find_map_append split: option.split)
qed (simp add: map_filter_simps)

section \<open>Properties\<close>

text \<open>C32: The todo list refines a map from content to status: with distinct contents (which every update
  keeps) a valid list of changes updates the map entry by entry, a cancellation removing its key;
  an invalid one, with an empty content or one longer than 1000 bytes, changes nothing at all.\<close>

theorem todos_refine_map:
  assumes "todos_inv (mt_todos m)"
  shows "(case apply_todo_changes uuid m changes of
      (Inl e, m') \<Rightarrow> m' = m \<and> find_map check_todo_item changes = Some e
    | (Inr active, m') \<Rightarrow> find_map check_todo_item changes = None
        \<and> todos_inv (mt_todos m')
        \<and> todo_map (mt_todos m') = foldl change_map (todo_map (mt_todos m)) changes
        \<and> active = active_todos (mt_todos m'))"
  using foldl_apply_todo_item_map [of "(0, mt_todos m)" uuid changes] assms
  by (auto simp: apply_todo_changes_def get_active_todos_def split_beta Let_def split: option.split)

theorem todos_refine_map_witness:
  "todo_map (mt_todos (snd (apply_todo_changes (\<lambda>n. [int n]) metrics_default
     [\<lparr>ti_content = lit ''a'', ti_status = Pending\<rparr>, \<lparr>ti_content = lit ''b'', ti_status = Pending\<rparr>,
      \<lparr>ti_content = lit ''a'', ti_status = Cancelled\<rparr>])))
   = [lit ''b'' \<mapsto> Pending]"
proof -
  let ?cs = "[\<lparr>ti_content = lit ''a'', ti_status = Pending\<rparr>, \<lparr>ti_content = lit ''b'', ti_status = Pending\<rparr>,
      \<lparr>ti_content = lit ''a'', ti_status = Cancelled\<rparr>]"
  have none: "find_map check_todo_item ?cs = None" by code_simp
  have "lit ''a'' \<noteq> lit ''b''" by code_simp
  with todos_refine_map [of metrics_default ?cs "\<lambda>n. [int n]"] none show ?thesis
    by (auto simp: todos_inv_def metrics_default_def change_map_def split_beta
        split: prod.splits sum.splits)
qed

text \<open>The cost shown for a conversation is the cost of its last reported usage: whatever the earlier
  turns cost, the accumulated cost after a turn is the cost of that turn.\<close>

theorem accumulated_cost_is_last:
  "accumulated_cost (cv\<lparr>cv_context := Some (append_message c content sig reasoning details usage recs
     phase)\<rparr>) = u_cost usage
   \<and> conv_usage cv = accumulated_usage cv"
proof
  obtain merged where ms: "ctx_messages (append_message c content sig reasoning details usage recs phase) =
      ctx_messages c @ appended_assistant content sig merged usage recs phase
        # map (\<lambda>r. entry_of (msg_tool_result (snd r))) recs"
    using append_message_messages by blast
  have none: "find_map me_usage (rev (map (\<lambda>r. entry_of (msg_tool_result (snd r))) recs)) = None"
    by (simp add: find_map_None_iff)
  show "accumulated_cost (cv\<lparr>cv_context := Some (append_message c content sig reasoning details usage
     recs phase)\<rparr>) = u_cost usage"
    by (simp add: accumulated_cost_def accumulated_usage_def accumulate_usage_def ms find_map_append
        none appended_assistant_def)
  show "conv_usage cv = accumulated_usage cv"
    by (cases "cv_context cv")
      (simp_all add: conv_usage_def accumulated_usage_def accumulate_usage_def map_filter_simps
        find_map_rev Let_def)
qed

text \<open>Every sort key is parsed back from its name, in any letter case and with blanks around it.\<close>

theorem sort_name_roundtrip:
  "sort_parse (sort_name k) = k
   \<and> sort_parse (lit ''  '' @ map (\<lambda>c. c - 32) (sort_name k) @ lit '' '') = k"
  by (cases k) (simp_all, code_simp+)

end
