(* ===== verification/Agents.thy ===== *)
theory Agents
  imports Compact_Config Conversations Tool_Order
begin

text \<open>
  The runtime agent (\<open>forge_domain/src/agent.rs\<close>), the workflow configuration laid over it
  (\<open>AgentExt::apply_config\<close>, \<open>forge_app/src/agent.rs\<close>) and the steps that put its parameters into
  a conversation (\<open>apply_tunable_parameters.rs\<close>, \<open>set_conversation_id.rs\<close>,
  \<open>init_conversation_metrics.rs\<close>). Templates of prompts are strings here.
\<close>

section \<open>Agents and models\<close>

record agent =
  ag_id :: rstr
  ag_title :: "rstr option"
  ag_description :: "rstr option"
  ag_tool_supported :: "bool option"
  ag_path :: "rstr option"
  ag_provider :: rstr
  ag_model :: rstr
  ag_system_prompt :: "rstr option"
  ag_user_prompt :: "rstr option"
  ag_tools :: "rstr list option"
  ag_max_turns :: "nat option"
  ag_compact :: compact
  ag_custom_rules :: "rstr option"
  ag_temperature :: "rat option"
  ag_top_p :: "rat option"
  ag_top_k :: "nat option"
  ag_max_tokens :: "nat option"
  ag_reasoning :: "reasoning_config option"
  ag_max_tool_failure_per_turn :: "nat option"
  ag_max_requests_per_turn :: "nat option"

datatype input_modality = MText | MImage

record model =
  md_id :: rstr
  md_name :: "rstr option"
  md_description :: "rstr option"
  md_context_length :: "nat option"
  md_tools_supported :: "bool option"
  md_supports_parallel_tool_calls :: "bool option"
  md_supports_reasoning :: "bool option"
  md_input_modalities :: "input_modality list"

definition agent_new :: "rstr \<Rightarrow> rstr \<Rightarrow> rstr \<Rightarrow> agent" where
  "agent_new i provider model_id =
     \<lparr>ag_id = i, ag_title = None, ag_description = None, ag_tool_supported = None, ag_path = None,
      ag_provider = provider, ag_model = model_id, ag_system_prompt = None, ag_user_prompt = None,
      ag_tools = None, ag_max_turns = None, ag_compact = compact_default, ag_custom_rules = None,
      ag_temperature = None, ag_top_p = None, ag_top_k = None, ag_max_tokens = None,
      ag_reasoning = None, ag_max_tool_failure_per_turn = None, ag_max_requests_per_turn = None\<rparr>"

text \<open>\<open>schema\<close> is the schema of the agent's input (\<open>ToolDefinition::new\<close>'s default here).\<close>

definition agent_tool_definition :: "'v \<Rightarrow> agent \<Rightarrow> rstr + 'v tool_definition" where
  "agent_tool_definition schema a =
     (case ag_description a of
        None \<Rightarrow> Inl (ag_id a)
      | Some d \<Rightarrow>
          if d = [] then Inl (ag_id a)
          else Inr \<lparr>td_name = ag_id a, td_description = d, td_input_schema = schema\<rparr>)"

definition agent_tool_order :: "globber \<Rightarrow> agent \<Rightarrow> tool_order" where
  "agent_tool_order glob a =
     (case ag_tools a of Some ts \<Rightarrow> from_tool_list glob ts | None \<Rightarrow> tool_order_default)"

definition or_opt :: "'a option \<Rightarrow> 'a option \<Rightarrow> 'a option" where
  "or_opt x y = (if x = None then y else x)"

definition reasoning_merge_from :: "reasoning_config \<Rightarrow> reasoning_config \<Rightarrow> reasoning_config" where
  "reasoning_merge_from self other =
     \<lparr>rc_effort = or_opt (rc_effort self) (rc_effort other),
      rc_max_tokens = or_opt (rc_max_tokens self) (rc_max_tokens other),
      rc_exclude = or_opt (rc_exclude self) (rc_exclude other),
      rc_enabled = or_opt (rc_enabled self) (rc_enabled other)\<rparr>"

definition reasoning_config_default :: reasoning_config where
  "reasoning_config_default =
     \<lparr>rc_effort = None, rc_max_tokens = None, rc_exclude = None, rc_enabled = None\<rparr>"

section \<open>Validated parameters\<close>

definition temperature_new :: "rat \<Rightarrow> rat option" where
  "temperature_new v = (if 0 \<le> v \<and> v \<le> 2 then Some v else None)"

definition top_p_new :: "rat \<Rightarrow> rat option" where
  "top_p_new v = (if 0 \<le> v \<and> v \<le> 1 then Some v else None)"

definition top_k_new :: "nat \<Rightarrow> nat option" where
  "top_k_new v = (if 1 \<le> v \<and> v \<le> 1000 then Some v else None)"

definition max_tokens_new :: "nat \<Rightarrow> nat option" where
  "max_tokens_new v = (if 1 \<le> v \<and> v \<le> 100000 then Some v else None)"

section \<open>The workflow configuration\<close>

datatype compression_strategy = TokenPrune | StructuralDedup | SemanticCompress

datatype prune_strategy = AgeBased | ImportanceBased | HybridPrune

record config_compact =
  fc_retention_window :: nat
  fc_eviction_window :: rat
  fc_max_tokens :: "nat option"
  fc_token_threshold :: "nat option"
  fc_token_threshold_percentage :: "rat option"
  fc_turn_threshold :: "nat option"
  fc_message_threshold :: "nat option"
  fc_model :: "rstr option"
  fc_summarization_strategy :: summarization_strategy
  fc_summary_model :: "rstr option"
  fc_summary_max_tokens :: "nat option"
  fc_summary_timeout_secs :: nat
  fc_enable_prefilter :: bool
  fc_enable_adaptive_eviction :: bool
  fc_enable_importance_scoring :: bool
  fc_on_turn_end :: "bool option"
  fc_compression_strategy :: compression_strategy
  fc_prune_strategy :: prune_strategy
  fc_enable_structural_dedup :: bool

text \<open>The fields of \<open>ForgeConfig\<close> that \<open>apply_config\<close> reads.\<close>

record workflow_config =
  wf_temperature :: "rat option"
  wf_top_p :: "rat option"
  wf_top_k :: "nat option"
  wf_max_tokens :: "nat option"
  wf_max_tool_failure_per_turn :: "nat option"
  wf_max_requests_per_turn :: "nat option"
  wf_tool_supported :: bool
  wf_compact :: "config_compact option"
  wf_reasoning :: "reasoning_config option"

fun debug_compression :: "compression_strategy \<Rightarrow> rstr" where
  "debug_compression TokenPrune = lit ''TokenPrune''"
| "debug_compression StructuralDedup = lit ''StructuralDedup''"
| "debug_compression SemanticCompress = lit ''SemanticCompress''"

fun debug_prune :: "prune_strategy \<Rightarrow> rstr" where
  "debug_prune AgeBased = lit ''AgeBased''"
| "debug_prune ImportanceBased = lit ''ImportanceBased''"
| "debug_prune HybridPrune = lit ''Hybrid''"

definition workflow_compact :: "config_compact \<Rightarrow> compact" where
  "workflow_compact w =
     \<lparr> cc_retention_window = fc_retention_window w, cc_eviction_window = fc_eviction_window w,
       cc_max_tokens = fc_max_tokens w, cc_token_threshold = fc_token_threshold w,
       cc_token_threshold_percentage = fc_token_threshold_percentage w,
       cc_turn_threshold = fc_turn_threshold w, cc_message_threshold = fc_message_threshold w,
       cc_model = fc_model w, cc_on_turn_end = fc_on_turn_end w,
       cc_summarization_strategy = fc_summarization_strategy w,
       cc_summary_model = fc_summary_model w, cc_summary_max_tokens = fc_summary_max_tokens w,
       cc_summary_timeout_secs = fc_summary_timeout_secs w,
       cc_enable_prefilter = fc_enable_prefilter w,
       cc_enable_adaptive_eviction = fc_enable_adaptive_eviction w,
       cc_enable_importance_scoring = fc_enable_importance_scoring w,
       cc_context_compression_level =
         (case fc_compression_strategy w of TokenPrune \<Rightarrow> 1 | StructuralDedup \<Rightarrow> 1
          | SemanticCompress \<Rightarrow> 2),
       cc_min_importance_threshold = 5404319552844595 / 36028797018963968,
       cc_prune_threshold = 3,
       cc_enable_semantic_compression = (fc_compression_strategy w = SemanticCompress),
       cc_enable_structural_dedup = fc_enable_structural_dedup w,
       cc_compression_strategy = debug_compression (fc_compression_strategy w),
       cc_prune_strategy = debug_prune (fc_prune_strategy w) \<rparr>"

text \<open>The last part of \<open>apply_config\<close>. The two \<open>Effort\<close> types have the same constructors.\<close>

definition apply_reasoning :: "reasoning_config option \<Rightarrow> agent \<Rightarrow> agent" where
  "apply_reasoning config_reasoning a =
     (case config_reasoning of
        None \<Rightarrow> a
      | Some cr \<Rightarrow>
          let merged = reasoning_merge_from
                (case ag_reasoning a of Some r \<Rightarrow> r | None \<Rightarrow> reasoning_config_default) cr;
              merged = (if rc_enabled cr = Some False then merged\<lparr>rc_enabled := Some False\<rparr> else merged)
          in a\<lparr>ag_reasoning := Some merged\<rparr>)"

text \<open>\<open>if let Some(x) = o { agent.field = f x }\<close>.\<close>

definition set_from :: "('x \<Rightarrow> agent \<Rightarrow> agent) \<Rightarrow> 'x option \<Rightarrow> agent \<Rightarrow> agent" where
  "set_from upd x a = (case x of Some y \<Rightarrow> upd y a | None \<Rightarrow> a)"

definition apply_sampling :: "workflow_config \<Rightarrow> agent \<Rightarrow> agent" where
  "apply_sampling config a =
     (let a = set_from (\<lambda>t a. a\<lparr>ag_temperature := Some t\<rparr>)
            (Option.bind (wf_temperature config) (\<lambda>d. temperature_new (f32_round d))) a;
          a = set_from (\<lambda>p a. a\<lparr>ag_top_p := Some p\<rparr>)
            (Option.bind (wf_top_p config) (\<lambda>d. top_p_new (f32_round d))) a;
          a = set_from (\<lambda>k a. a\<lparr>ag_top_k := Some k\<rparr>)
            (Option.bind (wf_top_k config) top_k_new) a
      in set_from (\<lambda>m a. a\<lparr>ag_max_tokens := Some m\<rparr>)
            (Option.bind (wf_max_tokens config) max_tokens_new) a)"

definition apply_limits :: "workflow_config \<Rightarrow> agent \<Rightarrow> agent" where
  "apply_limits config a =
     (let a = (if ag_max_tool_failure_per_turn a = None
               then set_from (\<lambda>n a. a\<lparr>ag_max_tool_failure_per_turn := Some n\<rparr>)
                      (wf_max_tool_failure_per_turn config) a
               else a);
          a = a\<lparr>ag_tool_supported := Some (wf_tool_supported config)\<rparr>
      in if ag_max_requests_per_turn a = None
         then set_from (\<lambda>n a. a\<lparr>ag_max_requests_per_turn := Some n\<rparr>)
                (wf_max_requests_per_turn config) a
         else a)"

definition apply_compact :: "workflow_config \<Rightarrow> agent \<Rightarrow> agent" where
  "apply_compact config a =
     set_from (\<lambda>w a. a\<lparr>ag_compact := merge_non_default_from (workflow_compact w) (ag_compact a)\<rparr>)
       (wf_compact config) a"

definition apply_config :: "workflow_config \<Rightarrow> agent \<Rightarrow> agent" where
  "apply_config config a =
     apply_reasoning (wf_reasoning config)
       (apply_compact config (apply_limits config (apply_sampling config a)))"

section \<open>Preparing a conversation\<close>

definition set_some :: "('a option \<Rightarrow> 'c \<Rightarrow> 'c) \<Rightarrow> 'a option \<Rightarrow> 'c \<Rightarrow> 'c" where
  "set_some upd x c = (if x = None then c else upd x c)"

definition apply_tunable_parameters ::
  "agent \<Rightarrow> 'v tool_definition list \<Rightarrow> 'v conversation \<Rightarrow> 'v conversation" where
  "apply_tunable_parameters a tools cv =
     (let ctx = (case cv_context cv of Some c \<Rightarrow> c | None \<Rightarrow> context_default);
          ctx = set_some (\<lambda>x c. c\<lparr>ctx_temperature := x\<rparr>) (ag_temperature a) ctx;
          ctx = set_some (\<lambda>x c. c\<lparr>ctx_top_p := x\<rparr>) (ag_top_p a) ctx;
          ctx = set_some (\<lambda>x c. c\<lparr>ctx_top_k := x\<rparr>) (ag_top_k a) ctx;
          ctx = set_some (\<lambda>x c. c\<lparr>ctx_max_tokens := x\<rparr>) (ag_max_tokens a) ctx;
          ctx = set_some (\<lambda>x c. c\<lparr>ctx_reasoning := x\<rparr>) (ag_reasoning a) ctx
      in cv\<lparr>cv_context := Some (ctx\<lparr>ctx_tools := tools\<rparr>)\<rparr>)"

definition set_conversation_id :: "'v conversation \<Rightarrow> 'v conversation" where
  "set_conversation_id cv =
     (let ctx = (case cv_context cv of Some c \<Rightarrow> c | None \<Rightarrow> context_default)
      in cv\<lparr>cv_context := Some (ctx\<lparr>ctx_conversation_id := Some (cv_id cv)\<rparr>)\<rparr>)"

definition init_conversation_metrics :: "int \<Rightarrow> 'v conversation \<Rightarrow> 'v conversation" where
  "init_conversation_metrics now cv = cv\<lparr>cv_metrics := (cv_metrics cv)\<lparr>mt_started_at := Some now\<rparr>\<rparr>"

section \<open>Properties\<close>

lemma set_from_field: "(\<And>y b. sel (upd y b) = sel b) \<Longrightarrow> sel (set_from upd x a) = sel a"
  by (simp add: set_from_def split: option.split)

lemma apply_sampling_fields [simp]:
  "ag_compact (apply_sampling config a) = ag_compact a"
  "ag_reasoning (apply_sampling config a) = ag_reasoning a"
  "ag_max_requests_per_turn (apply_sampling config a) = ag_max_requests_per_turn a"
  "ag_max_tool_failure_per_turn (apply_sampling config a) = ag_max_tool_failure_per_turn a"
  by (simp_all add: apply_sampling_def Let_def set_from_field)

lemma apply_limits_fields [simp]:
  "ag_compact (apply_limits config a) = ag_compact a"
  "ag_reasoning (apply_limits config a) = ag_reasoning a"
  "ag_max_requests_per_turn (apply_limits config a) =
     or_opt (ag_max_requests_per_turn a) (wf_max_requests_per_turn config)"
  "ag_max_tool_failure_per_turn (apply_limits config a) =
     or_opt (ag_max_tool_failure_per_turn a) (wf_max_tool_failure_per_turn config)"
  by (cases "ag_max_tool_failure_per_turn a"; cases "wf_max_tool_failure_per_turn config";
      cases "ag_max_requests_per_turn a"; cases "wf_max_requests_per_turn config";
      simp add: apply_limits_def Let_def set_from_def or_opt_def)+

lemma apply_compact_fields [simp]:
  "ag_compact (apply_compact config a) =
     (case wf_compact config of
        Some w \<Rightarrow> merge_non_default_from (workflow_compact w) (ag_compact a) | None \<Rightarrow> ag_compact a)"
  "ag_reasoning (apply_compact config a) = ag_reasoning a"
  "ag_max_requests_per_turn (apply_compact config a) = ag_max_requests_per_turn a"
  "ag_max_tool_failure_per_turn (apply_compact config a) = ag_max_tool_failure_per_turn a"
  by (simp_all add: apply_compact_def set_from_def split: option.split)

lemma apply_reasoning_fields [simp]:
  "ag_compact (apply_reasoning r a) = ag_compact a"
  "ag_max_requests_per_turn (apply_reasoning r a) = ag_max_requests_per_turn a"
  "ag_max_tool_failure_per_turn (apply_reasoning r a) = ag_max_tool_failure_per_turn a"
  by (simp_all add: apply_reasoning_def Let_def split: option.split)

lemma apply_reasoning_merges:
  "ag_reasoning (apply_reasoning (Some cr) a) =
     Some ((reasoning_merge_from (case ag_reasoning a of Some r \<Rightarrow> r | None \<Rightarrow> reasoning_config_default) cr)
       \<lparr>rc_enabled := if rc_enabled cr = Some False then Some False
          else or_opt (Option.bind (ag_reasoning a) rc_enabled) (rc_enabled cr)\<rparr>)"
  by (cases "ag_reasoning a")
     (simp_all add: apply_reasoning_def Let_def reasoning_merge_from_def reasoning_config_default_def
        or_opt_def)

lemma or_opt_case: "or_opt x y = (case x of Some n \<Rightarrow> Some n | None \<Rightarrow> y)"
  by (simp add: or_opt_def split: option.split)

text \<open>The precedence of the configuration layers: the agent's own request and failure limits and
  reasoning settings win, the workflow fills what is unset; but a workflow that disables
  reasoning disables it for every agent; and an agent with the default compaction settings gets
  the workflow's.\<close>

theorem apply_config_precedence:
  assumes "wf_reasoning config = Some cr"
  shows "ag_max_requests_per_turn (apply_config config a) =
        (case ag_max_requests_per_turn a of Some n \<Rightarrow> Some n | None \<Rightarrow> wf_max_requests_per_turn config)
     \<and> ag_max_tool_failure_per_turn (apply_config config a) =
        (case ag_max_tool_failure_per_turn a of
           Some n \<Rightarrow> Some n | None \<Rightarrow> wf_max_tool_failure_per_turn config)
     \<and> (case ag_reasoning (apply_config config a) of
          None \<Rightarrow> False
        | Some r \<Rightarrow> rc_enabled r = (if rc_enabled cr = Some False then Some False
              else case Option.bind (ag_reasoning a) rc_enabled of Some b \<Rightarrow> Some b | None \<Rightarrow> rc_enabled cr)
            \<and> rc_effort r =
              (case Option.bind (ag_reasoning a) rc_effort of Some e \<Rightarrow> Some e | None \<Rightarrow> rc_effort cr))
     \<and> ag_compact (apply_config config (a\<lparr>ag_compact := compact_default\<rparr>)) =
        (case wf_compact config of Some w \<Rightarrow> workflow_compact w | None \<Rightarrow> compact_default)"
proof -
  have "merge_non_default_from w compact_default = w" for w
    using agent.over_default by simp
  then show ?thesis
    using assms
    by (simp add: apply_config_def apply_reasoning_merges or_opt_case reasoning_merge_from_def
        reasoning_config_default_def split: option.split)
qed

end
