(* ===== verification/Eviction.thy ===== *)
theory Eviction
  imports Compact_Config "HOL-Library.Word"
begin

text \<open>
  Which part of a history compaction evicts: \<open>forge_domain/src/compact/importance.rs\<close> (message
  scores, \<open>u8\<close> as \<open>8 word\<close>) and \<open>forge_domain/src/compact/strategy.rs\<close> (the strategies and the
  search for the evicted range).
\<close>

section \<open>Importance\<close>

datatype importance_factor =
    HasToolCalls | HasToolResults | HasErrors | HasFileChanges | HasShellExecution
  | HasSearchOperations | HasReasoning | HasUserIntent | HasDecision | SystemMessage

record importance =
  mi_score :: "8 word"
  mi_factors :: "importance_factor list"

definition min_survival_score :: "8 word" where "min_survival_score = 60"
definition base_score :: "8 word" where "base_score = 50"

definition importance_new :: "8 word \<Rightarrow> importance_factor list \<Rightarrow> importance" where
  "importance_new s fs = \<lparr>mi_score = min s 100, mi_factors = fs\<rparr>"

definition importance_default :: importance where
  "importance_default = \<lparr>mi_score = base_score, mi_factors = []\<rparr>"

definition should_survive :: "importance \<Rightarrow> bool" where
  "should_survive i \<longleftrightarrow> min_survival_score \<le> mi_score i"

text \<open>
  The score computation of \<open>From<&ContextMessage>\<close>: the mutable pair of score and factors is
  threaded through the guarded additions in the order of the code.
\<close>

definition bump :: "bool \<Rightarrow> 8 word \<Rightarrow> importance_factor list
    \<Rightarrow> 8 word \<times> importance_factor list \<Rightarrow> 8 word \<times> importance_factor list" where
  "bump b n fs st = (if b then (fst st + n, snd st @ fs) else st)"

definition calls_any :: "'v tool_call_full list option \<Rightarrow> rstr list \<Rightarrow> bool" where
  "calls_any calls names =
     (case calls of Some cs \<Rightarrow> list_ex (\<lambda>c. tc_name c \<in> set names) cs | None \<Rightarrow> False)"

definition assistant_score :: "'v text_message \<Rightarrow> 8 word \<times> importance_factor list" where
  "assistant_score t =
     (let st = (base_score, []);
          st = bump (tm_tool_calls t \<noteq> None) 20 [HasToolCalls] st;
          st = bump (calls_any (tm_tool_calls t)
                 [lit ''write'', lit ''patch'', lit ''remove'', lit ''fs_write'']) 10 [HasFileChanges] st;
          st = bump (calls_any (tm_tool_calls t) [lit ''shell'']) 5 [HasShellExecution] st;
          st = bump (calls_any (tm_tool_calls t) [lit ''fs_search'', lit ''sem_search''])
                 5 [HasSearchOperations] st;
          st = bump (tm_reasoning_details t \<noteq> None) 10 [HasReasoning] st
      in bump (500 < utf8_len (tm_content t)) 5 [] st)"

definition message_importance :: "'v context_message \<Rightarrow> importance" where
  "message_importance m =
     (let (score, factors) =
        (case m of
           CText t \<Rightarrow>
             (case tm_role t of
                System \<Rightarrow> (30, [SystemMessage])
              | User \<Rightarrow> (60, [HasUserIntent])
              | Assistant \<Rightarrow> assistant_score t
              | Tool \<Rightarrow> bump (200 < utf8_len (tm_content t)) 5 [] (55, [HasToolResults]))
         | CTool r \<Rightarrow>
             if to_is_error (tr_output r) then (100, [HasErrors]) else (55, [HasToolResults])
         | CImage _ \<Rightarrow> (30, []))
      in \<lparr>mi_score = min score 100, mi_factors = factors\<rparr>)"

record importance_strategy =
  is_protection_threshold :: "8 word"
  is_enabled :: bool

definition importance_strategy_new :: "8 word \<Rightarrow> importance_strategy" where
  "importance_strategy_new th = \<lparr>is_protection_threshold = th, is_enabled = True\<rparr>"

definition is_protected :: "importance_strategy \<Rightarrow> importance \<Rightarrow> bool" where
  "is_protected st i =
     (if \<not> is_enabled st then False else is_protection_threshold st \<le> mi_score i)"

section \<open>Strategies\<close>

datatype strategy = Evict rat | Retain nat | Min strategy strategy | Max strategy strategy

text \<open>
  The \<open>filter(..).find(..)\<close> of \<open>to_fixed\<close>, with the budget its closure mutates and the index
  \<open>enumerate\<close> gives.
\<close>

fun evict_find :: "('v \<Rightarrow> rstr) \<Rightarrow> nat \<Rightarrow> nat \<Rightarrow> 'v message_entry list \<Rightarrow> nat option" where
  "evict_find ts budget i [] = None"
| "evict_find ts budget i (m # ms) =
     (if entry_has_role m System then evict_find ts budget (Suc i) ms
      else let budget = budget - token_count_approx ts (me_message m)
           in if budget = 0 then Some i else evict_find ts budget (Suc i) ms)"

primrec to_fixed :: "('v \<Rightarrow> rstr) \<Rightarrow> 'v chat_context \<Rightarrow> strategy \<Rightarrow> nat" where
  "to_fixed ts c (Evict percentage) =
     (let percentage = min percentage 1;
          total_tokens = token_count ts c;
          eviction_budget = f64_ceil_usize (f64_mul percentage (f64_of_usize (tok_deref total_tokens)))
      in case evict_find ts eviction_budget 0 (ctx_messages c) of
           Some i \<Rightarrow> i
         | None \<Rightarrow> length (ctx_messages c) - 1)"
| "to_fixed ts c (Retain fixed) = fixed"
| "to_fixed ts c (Min a b) = min (to_fixed ts c a) (to_fixed ts c b)"
| "to_fixed ts c (Max a b) = max (to_fixed ts c a) (to_fixed ts c b)"

text \<open>\<open>messages.get(i).is_some_and(p)\<close>.\<close>

definition at_is :: "('v context_message \<Rightarrow> bool) \<Rightarrow> 'v message_entry list \<Rightarrow> nat \<Rightarrow> bool" where
  "at_is P ms i = (case get_at ms i of Some m \<Rightarrow> P (me_message m) | None \<Rightarrow> False)"

text \<open>
  The \<open>while\<close> loop that steps back over tool results; \<open>saturating_sub\<close> is subtraction on
  \<open>nat\<close>. Not returning is \<open>None\<close>; \<open>find_sequence_returns\<close> shows it does not happen.
\<close>

partial_function (option) retreat :: "'v message_entry list \<Rightarrow> nat \<Rightarrow> nat \<Rightarrow> nat option" where
  "retreat ms start e =
     (if start \<le> e \<and> at_is has_tool_result ms e then retreat ms start (e - 1) else Some e)"

declare retreat.simps [code]

definition find_sequence ::
  "'v message_entry list \<Rightarrow> nat \<Rightarrow> (nat \<times> nat) option option" where
  "find_sequence messages max_retention =
     (if messages = [] then Some None
      else let len = length messages in
        case find_index (\<lambda>m. entry_has_role m Assistant) messages of
          None \<Rightarrow> Some None
        | Some start \<Rightarrow>
            if len \<le> start then Some None
            else if len \<le> max_retention then Some None
            else let e = len - max_retention - 1 in
              if e < start \<or> len \<le> e then Some None
              else if at_is has_tool_call messages e then
                (if e = start then Some None else Some (Some (start, e - 1)))
              else Option.bind
                (if at_is has_tool_result messages e \<and> at_is has_tool_result messages (e + 1)
                 then map_option (\<lambda>e. e - 1) (retreat messages start e)
                 else Some e)
                (\<lambda>e. Some (if start \<le> e then Some (start, e) else None)))"

definition eviction_range ::
  "('v \<Rightarrow> rstr) \<Rightarrow> strategy \<Rightarrow> 'v chat_context \<Rightarrow> (nat \<times> nat) option option" where
  "eviction_range ts s c =
     (let retention = to_fixed ts c s in find_sequence (ctx_messages c) retention)"

text \<open>
  The scan of \<open>eviction_range_with_importance\<close> over \<open>(start..=protected_end).rev()\<close>: the list
  holds the indices still to visit. \<open>None\<close> is the early \<open>return None\<close>.
\<close>

fun protect_scan ::
  "importance_strategy \<Rightarrow> 'v message_entry list \<Rightarrow> nat \<Rightarrow> nat list \<Rightarrow> nat option" where
  "protect_scan st ms protected_end [] = Some protected_end"
| "protect_scan st ms protected_end (i # is) =
     (case get_at ms i of
        Some entry \<Rightarrow>
          if is_protected st (message_importance (me_message entry))
          then (if i = protected_end then None else Some (i - 1))
          else protect_scan st ms protected_end is
      | None \<Rightarrow> protect_scan st ms protected_end is)"

definition eviction_range_with_importance ::
  "('v \<Rightarrow> rstr) \<Rightarrow> strategy \<Rightarrow> 'v chat_context \<Rightarrow> importance_strategy
     \<Rightarrow> (nat \<times> nat) option option" where
  "eviction_range_with_importance ts s c st =
     (if \<not> is_enabled st then eviction_range ts s c
      else Option.bind (eviction_range ts s c) (\<lambda>base_range.
        case base_range of
          None \<Rightarrow> Some None
        | Some (start, protected_end) \<Rightarrow>
            Some (case protect_scan st (ctx_messages c) protected_end (rev [start..<Suc protected_end]) of
                None \<Rightarrow> None
              | Some protected_end \<Rightarrow>
                  if start \<le> protected_end then Some (start, protected_end) else None)))"


section \<open>Lemmas\<close>

lemma at_is_iff: "at_is P ms i \<longleftrightarrow> i < length ms \<and> P (me_message (ms ! i))"
  by (simp add: at_is_def get_at_def)

lemma assistant_not_result: "entry_has_role m Assistant \<Longrightarrow> \<not> has_tool_result (me_message m)"
  by (cases "me_message m") auto

lemma call_not_result: "at_is has_tool_call ms i \<Longrightarrow> \<not> at_is has_tool_result ms i"
  by (cases "me_message (ms ! i)") (auto simp: at_is_iff)

lemma retreat_spec:
  assumes "\<not> at_is has_tool_result ms s" and "s \<le> e"
  shows "\<exists>e'. retreat ms s e = Some e' \<and> s \<le> e' \<and> e' \<le> e \<and> \<not> at_is has_tool_result ms e'"
  using assms(2)
proof (induction "e - s" arbitrary: e)
  case 0
  then have "e = s" by simp
  then show ?case using assms(1) by (subst retreat.simps) auto
next
  case (Suc n)
  show ?case
  proof (cases "at_is has_tool_result ms e")
    case False
    then show ?thesis using Suc.prems by (subst retreat.simps) auto
  next
    case True
    from Suc.hyps(2) have n: "n = e - 1 - s" and le: "s \<le> e - 1" by linarith+
    obtain e' where e': "retreat ms s (e - 1) = Some e'" "s \<le> e'" "e' \<le> e - 1"
      "\<not> at_is has_tool_result ms e'"
      using Suc.hyps(1) [OF n le] by blast
    moreover have "retreat ms s e = retreat ms s (e - 1)"
      using True Suc.prems by (subst retreat.simps) simp
    moreover have "e' \<le> e" using e'(3) by linarith
    ultimately show ?thesis by simp
  qed
qed

text \<open>The search in one shape: it returns, and a range it finds satisfies \<open>seq_result\<close>.\<close>

definition seq_result :: "'v message_entry list \<Rightarrow> nat \<Rightarrow> nat \<Rightarrow> nat \<Rightarrow> bool" where
  "seq_result ms n s e \<longleftrightarrow>
     find_index (\<lambda>m. entry_has_role m Assistant) ms = Some s \<and> s \<le> e \<and> e + n < length ms
     \<and> (\<not> at_is has_tool_result ms (Suc e)
        \<or> \<not> at_is has_tool_call ms e \<and> \<not> at_is has_tool_result ms e
        \<or> s = 0 \<and> e = 0)"

lemma find_sequence_result:
  "\<exists>r. find_sequence ms n = Some r \<and> (\<forall>s e. r = Some (s, e) \<longrightarrow> seq_result ms n s e)"
proof (cases "find_index (\<lambda>m. entry_has_role m Assistant) ms")
  case None
  then show ?thesis by (simp add: find_sequence_def Let_def)
next
  case (Some s)
  define e where "e = length ms - n - 1"
  from find_index_SomeD [OF Some] have s: "s < length ms" "entry_has_role (ms ! s) Assistant" by auto
  then have nr: "\<not> at_is has_tool_result ms s"
    by (simp add: at_is_iff assistant_not_result)
  show ?thesis
  proof (cases "length ms \<le> n \<or> e < s")
    case True
    then show ?thesis using s by (auto simp: find_sequence_def Let_def Some e_def)
  next
    case False
    then have e: "s \<le> e" "n < length ms" "e + n < length ms" and ne: "ms \<noteq> []"
      using s by (auto simp: e_def)
    then have run: "find_sequence ms n =
       (if at_is has_tool_call ms e then (if e = s then Some None else Some (Some (s, e - 1)))
        else Option.bind
          (if at_is has_tool_result ms e \<and> at_is has_tool_result ms (e + 1)
           then map_option (\<lambda>e. e - 1) (retreat ms s e) else Some e)
          (\<lambda>e. Some (if s \<le> e then Some (s, e) else None)))"
      using s by (simp add: find_sequence_def Let_def Some e_def)
    consider (call) "at_is has_tool_call ms e"
      | (results) "\<not> at_is has_tool_call ms e" "at_is has_tool_result ms e" "at_is has_tool_result ms (e + 1)"
      | (other) "\<not> at_is has_tool_call ms e"
          "\<not> (at_is has_tool_result ms e \<and> at_is has_tool_result ms (e + 1))"
      by blast
    then show ?thesis
    proof cases
      case call
      have "e \<noteq> s \<Longrightarrow> seq_result ms n s (e - 1)"
        using call_not_result [OF call] e Some by (auto simp: seq_result_def)
      then show ?thesis using call by (simp add: run)
    next
      case other
      then have "seq_result ms n s e"
        using e Some by (auto simp: seq_result_def)
      then show ?thesis using other by (simp add: run del: de_Morgan_conj)
    next
      case results
      obtain e' where e': "retreat ms s e = Some e'" "s \<le> e'" "e' \<le> e" "\<not> at_is has_tool_result ms e'"
        using retreat_spec [OF nr e(1)] by blast
      have "s \<le> e' - 1 \<Longrightarrow> seq_result ms n s (e' - 1)"
        using e' e Some by (cases e') (auto simp: seq_result_def)
      then show ?thesis using results e'(1) by (simp add: run)
    qed
  qed
qed

lemma eviction_range_result:
  "\<exists>r. eviction_range ts st c = Some r
     \<and> (\<forall>s e. r = Some (s, e) \<longrightarrow> seq_result (ctx_messages c) (to_fixed ts c st) s e)"
  by (simp add: eviction_range_def find_sequence_result)

text \<open>In a paired history the range can be cut out, unless it starts at the very first message.\<close>

lemma seq_result_cut:
  assumes "paired ms" "seq_result ms n s e" "0 < s"
  shows "paired (take s ms)" "paired (drop (Suc e) ms)"
proof -
  from assms(2) have s: "find_index (\<lambda>m. entry_has_role m Assistant) ms = Some s" "s \<le> e" "e < length ms"
    by (auto simp: seq_result_def)
  then have "\<not> has_tool_result (me_message (ms ! s))"
    using find_index_SomeD [OF s(1)] assistant_not_result by blast
  then show "paired (take s ms)"
    using assms(1) s by (simp add: paired_take_iff)
  have next_ok: "paired (take (Suc e) ms)" if "\<not> at_is has_tool_result ms (Suc e)"
    using assms(1) s that by (cases "Suc e < length ms") (auto simp: paired_take_iff at_is_iff)
  have "paired (take (Suc e) ms)"
  proof (cases "at_is has_tool_result ms (Suc e)")
    case False
    then show ?thesis by (rule next_ok)
  next
    case True
    then have "\<not> at_is has_tool_call ms e" "\<not> at_is has_tool_result ms e"
      using assms(2,3) by (auto simp: seq_result_def)
    then show ?thesis
      using assms(1) s by (intro paired_take_Suc_plain) (auto simp: at_is_iff paired_take_iff)
  qed
  then show "paired (drop (Suc e) ms)"
    using assms(1) by (rule paired_drop [rotated])
qed

lemma evict_find_ge: "evict_find ts b i ms = Some j \<Longrightarrow> i \<le> j \<and> j < i + length ms"
  by (induction ts b i ms rule: evict_find.induct) (auto simp: Let_def split: if_splits)

lemma evict_find_mono:
  "evict_find ts b i ms = Some j \<Longrightarrow> a \<le> b \<Longrightarrow> \<exists>k \<le> j. evict_find ts a i ms = Some k"
proof (induction ts b i ms arbitrary: a rule: evict_find.induct)
  case (1 ts b i)
  then show ?case by simp
next
  case (2 ts b i m ms)
  let ?t = "token_count_approx ts (me_message m)"
  show ?case
  proof (cases "entry_has_role m System")
    case True
    with 2 show ?thesis by simp
  next
    case False
    show ?thesis
    proof (cases "b - ?t = 0")
      case True
      with False 2(3,4) show ?thesis by (simp add: Let_def)
    next
      case nz: False
      then have j: "evict_find ts (b - ?t) (Suc i) ms = Some j"
        using False 2(3) by (simp add: Let_def)
      show ?thesis
      proof (cases "a - ?t = 0")
        case True
        with False show ?thesis
          using evict_find_ge [OF j] by (simp add: Let_def)
      next
        case False
        have "a - ?t \<le> b - ?t" using 2(4) by simp
        from "2.IH"(2) [OF \<open>\<not> entry_has_role m System\<close> refl nz j this]
        show ?thesis using \<open>\<not> entry_has_role m System\<close> False by (simp add: Let_def)
      qed
    qed
  qed
qed


lemma evict_find_zero:
  "evict_find ts 0 i ms = map_option (\<lambda>k. i + k) (find_index (\<lambda>m. \<not> entry_has_role m System) ms)"
  by (induction ms arbitrary: i) (auto simp: option.map_comp comp_def intro!: option.map_cong)

lemma evict_find_default_mono:
  "a \<le> b \<Longrightarrow> (case evict_find ts a 0 ms of None \<Rightarrow> length ms - 1 | Some i \<Rightarrow> i)
      \<le> (case evict_find ts b 0 ms of None \<Rightarrow> length ms - 1 | Some i \<Rightarrow> i)"
  using evict_find_ge [of ts a 0 ms] evict_find_mono [of ts b 0 ms _ a]
  by (cases "evict_find ts b 0 ms"; cases "evict_find ts a 0 ms") fastforce+

lemma f64_ceil_usize_mono: "x \<le> y \<Longrightarrow> f64_ceil_usize x \<le> f64_ceil_usize y"
  unfolding f64_ceil_usize_def by (intro nat_mono max.mono min.mono ceiling_mono order_refl)

text \<open>The importance scan finds the last protected index of the range.\<close>

abbreviation protected_at :: "importance_strategy \<Rightarrow> 'v message_entry list \<Rightarrow> nat \<Rightarrow> bool" where
  "protected_at st ms \<equiv> at_is (\<lambda>m. is_protected st (message_importance m)) ms"

lemma protect_scan_filter:
  "protect_scan st ms e is =
     (case filter (protected_at st ms) is of
        [] \<Rightarrow> Some e
      | p # ps \<Rightarrow> if p = e then None else Some (p - 1))"
  by (induction "is") (auto simp: at_is_def split: option.splits)

lemma case_rev_last:
  "(case rev xs of [] \<Rightarrow> a | x # ys \<Rightarrow> f x) = (if xs = [] then a else f (last xs))"
  by (cases xs rule: rev_cases) auto

text \<open>The score in exact arithmetic.\<close>

definition assistant_points :: "'v text_message \<Rightarrow> nat" where
  "assistant_points t =
     50 + (if tm_tool_calls t \<noteq> None then 20 else 0)
     + (if calls_any (tm_tool_calls t)
            [lit ''write'', lit ''patch'', lit ''remove'', lit ''fs_write''] then 10 else 0)
     + (if calls_any (tm_tool_calls t) [lit ''shell''] then 5 else 0)
     + (if calls_any (tm_tool_calls t) [lit ''fs_search'', lit ''sem_search''] then 5 else 0)
     + (if tm_reasoning_details t \<noteq> None then 10 else 0)
     + (if 500 < utf8_len (tm_content t) then 5 else 0)"

lemma fst_bump: "fst (bump b n fs st) = fst st + (if b then n else 0)"
  by (simp add: bump_def)

lemma assistant_score_points: "unat (fst (assistant_score t)) = assistant_points t"
  by (simp add: assistant_score_def assistant_points_def fst_bump base_score_def Let_def)

lemma assistant_points_survive:
  "60 \<le> assistant_points t \<longleftrightarrow> tm_tool_calls t \<noteq> None \<or> tm_reasoning_details t \<noteq> None"
  by (auto simp: assistant_points_def calls_any_def)

lemma min_word_100: "unat (min w 100 :: 8 word) = min (unat w) 100"
  by (simp add: min_def word_le_nat_alt)

section \<open>Properties\<close>

text \<open>The search for the evicted range always returns; a range it finds starts at the first
  assistant message, is not empty, and leaves at least the retained number of messages after it.\<close>

theorem eviction_range_bounds:
  "\<exists>r. eviction_range ts st c = Some r \<and>
     (case r of
        None \<Rightarrow> True
      | Some (s, e) \<Rightarrow> find_index (\<lambda>m. entry_has_role m Assistant) (ctx_messages c) = Some s
          \<and> s \<le> e \<and> e + to_fixed ts c st < length (ctx_messages c))"
  using eviction_range_result [of ts st c] by (force simp: seq_result_def split: option.split)


text \<open>Outside tool exchanges the retention window is exact: when the last message to evict
  neither makes a tool call nor sits between two results of one exchange, everything from the
  first assistant message up to that message is evicted and exactly the window is kept.\<close>

theorem eviction_range_exact:
  assumes "find_index (\<lambda>m. entry_has_role m Assistant) (ctx_messages c) = Some s"
    and "s + n < length (ctx_messages c)"
    and "\<not> at_is has_tool_call (ctx_messages c) (length (ctx_messages c) - n - 1)"
    and "\<not> at_is has_tool_result (ctx_messages c) (length (ctx_messages c) - n)"
  shows "eviction_range ts (Retain n) c = Some (Some (s, length (ctx_messages c) - n - 1))"
proof -
  have "Suc (length (ctx_messages c) - n - 1) = length (ctx_messages c) - n"
    using assms(2) by simp
  then have "\<not> at_is has_tool_result (ctx_messages c) (length (ctx_messages c) - n - 1 + 1)"
    using assms(4) by simp
  then show ?thesis
    using assms(1-3) by (auto simp: eviction_range_def find_sequence_def Let_def)
qed

definition demo_history :: "unit chat_context" where
  "demo_history = context_default\<lparr>ctx_messages := map entry_of
     [msg_system (lit ''s''), msg_user (lit ''u'') None, msg_assistant (lit ''a'') None None None,
      msg_tool_result \<lparr>tr_name = lit ''x'', tr_call_id = None,
        tr_output = \<lparr>to_is_error = True, to_values = []\<rparr>\<rparr>,
      msg_user (lit ''v'') None, msg_assistant (lit ''b'') None None None,
      msg_user (lit ''w'') None, msg_assistant (lit ''c'') None None None]\<rparr>"

theorem eviction_range_exact_witness:
  "eviction_range (\<lambda>_. []) (Retain 2) demo_history = Some (Some (2, length (ctx_messages demo_history) - 2 - 1))"
  by (rule eviction_range_exact) (code_simp, code_simp, code_simp, code_simp)

text \<open>The eviction window works the other way round than its name says: a larger window never
  retains fewer messages, and a window of 0 retains only those before the first non-system message
  (all but one when there is none), so it evicts the most.\<close>

theorem larger_eviction_window_retains_more:
  assumes "p \<le> q"
  shows "to_fixed ts c (Evict p) \<le> to_fixed ts c (Evict q)
   \<and> to_fixed ts c (Evict 0) =
       (case find_index (\<lambda>m. \<not> entry_has_role m System) (ctx_messages c) of
          Some i \<Rightarrow> i | None \<Rightarrow> length (ctx_messages c) - 1)"
proof -
  define budget where "budget p = f64_ceil_usize (f64_mul (min p 1) (f64_of_usize (tok_deref (token_count ts c))))" for p
  have to_fixed: "to_fixed ts c (Evict p) =
      (case evict_find ts (budget p) 0 (ctx_messages c) of None \<Rightarrow> length (ctx_messages c) - 1 | Some i \<Rightarrow> i)" for p
    by (simp add: budget_def)
  have "budget p \<le> budget q"
    unfolding budget_def f64_mul_def
    by (intro f64_ceil_usize_mono f64_round_mono mult_right_mono min.mono assms order_refl
        f64_of_usize_nonneg)
  then have "to_fixed ts c (Evict p) \<le> to_fixed ts c (Evict q)"
    unfolding to_fixed by (rule evict_find_default_mono)
  moreover have "budget 0 = 0"
    by (simp add: budget_def f64_mul_def f64_round_def f64_ceil_usize_def)
  ultimately show ?thesis
    unfolding to_fixed by (simp add: evict_find_zero option.map_ident)
qed

theorem larger_eviction_window_retains_more_witness:
  "to_fixed (\<lambda>_. []) demo_history (Evict 0) \<le> to_fixed (\<lambda>_. []) demo_history (Evict 1)
   \<and> to_fixed (\<lambda>_. []) demo_history (Evict 0) =
       (case find_index (\<lambda>m. \<not> entry_has_role m System) (ctx_messages demo_history) of
          Some i \<Rightarrow> i | None \<Rightarrow> length (ctx_messages demo_history) - 1)"
  by (rule larger_eviction_window_retains_more) simp

text \<open>On that history a window of 0 keeps one message, a window of 1 keeps seven.\<close>

lemma demo_windows:
  "to_fixed (\<lambda>_. []) demo_history (Evict 0) = 1 \<and> to_fixed (\<lambda>_. []) demo_history (Evict 1) = 7"
  by code_simp

text \<open>Scores never wrap around a byte and stay within 100, and which messages survive is exact:
  system messages and images never, user messages always, assistant messages when they make tool
  calls or carry reasoning, tool results when they are errors.\<close>

theorem survival_iff:
  "mi_score (message_importance m) \<le> 100
   \<and> should_survive (message_importance m) =
      (case m of
         CText t \<Rightarrow>
           (case tm_role t of
              System \<Rightarrow> False
            | User \<Rightarrow> True
            | Assistant \<Rightarrow> \<not> (tm_tool_calls t = None \<and> tm_reasoning_details t = None)
            | Tool \<Rightarrow> 200 < utf8_len (tm_content t))
       | CTool r \<Rightarrow> to_is_error (tr_output r)
       | CImage _ \<Rightarrow> False)"
proof -
  have le: "mi_score (message_importance m) \<le> 100"
    by (simp add: message_importance_def Let_def split: prod.split)
  have assistant: "60 \<le> min (fst (assistant_score t)) 100 \<longleftrightarrow>
      \<not> (tm_tool_calls t = None \<and> tm_reasoning_details t = None)" for t :: "'a text_message"
    using assistant_points_survive [of t]
    by (simp add: word_le_nat_alt min_word_100 assistant_score_points)
  show ?thesis
  proof (intro conjI le)
    show "should_survive (message_importance m) = (case m of
         CText t \<Rightarrow>
           (case tm_role t of
              System \<Rightarrow> False
            | User \<Rightarrow> True
            | Assistant \<Rightarrow> \<not> (tm_tool_calls t = None \<and> tm_reasoning_details t = None)
            | Tool \<Rightarrow> 200 < utf8_len (tm_content t))
       | CTool r \<Rightarrow> to_is_error (tr_output r)
       | CImage _ \<Rightarrow> False)"
      using assistant
      by (cases m) (auto simp: should_survive_def min_survival_score_def message_importance_def
          bump_def split_beta split: role.split)
  qed
qed

text \<open>With importance scoring the base range is cut just before its last protected message,
  and dropped when that is its end or nothing is left before it. Protected messages before the last
  one stay in the evicted range.\<close>

theorem importance_range_spec:
  assumes "is_enabled st" and "eviction_range ts s c = Some (Some (a, e))"
  shows "eviction_range_with_importance ts s c st = Some
     (let prot = filter (\<lambda>i. is_protected st (message_importance (me_message (ctx_messages c ! i)))) [a..<Suc e]
      in if prot = [] then Some (a, e)
         else if last prot = e \<or> last prot - 1 < a then None
         else Some (a, last prot - 1))"
proof -
  have e: "a \<le> e" "e < length (ctx_messages c)"
    using eviction_range_result [of ts s c] assms(2) by (auto simp: seq_result_def)
  then have filter_eq: "filter (protected_at st (ctx_messages c)) [a..<Suc e] =
      filter (\<lambda>i. is_protected st (message_importance (me_message (ctx_messages c ! i)))) [a..<Suc e]"
    by (intro filter_cong) (auto simp: at_is_iff)
  show ?thesis
    using assms e
    by (auto simp: eviction_range_with_importance_def protect_scan_filter rev_filter [symmetric]
        case_rev_last filter_eq Let_def simp del: upt_Suc)
qed

theorem importance_range_spec_witness:
  "eviction_range_with_importance (\<lambda>_. []) (Retain 0) demo_history (importance_strategy_new 60)
   = Some (let prot = filter (\<lambda>i. is_protected (importance_strategy_new 60) (message_importance
               (me_message (ctx_messages demo_history ! i)))) [2..<Suc 7]
      in if prot = [] then Some (2, 7)
         else if last prot = 7 \<or> last prot - 1 < 2 then None
         else Some (2, last prot - 1))"
  by (rule importance_range_spec) (code_simp, code_simp)

text \<open>The error result at index 3 of that history scores 100 and lies inside the evicted range.\<close>

lemma protected_error_evicted:
  "eviction_range_with_importance (\<lambda>_. []) (Retain 0) demo_history (importance_strategy_new 60)
     = Some (Some (2, 5))
   \<and> is_protected (importance_strategy_new 60) (message_importance (me_message (ctx_messages demo_history ! 3)))"
  by code_simp

end
