(* ===== verification/Compactor.thy ===== *)
theory Compactor
  imports Eviction
begin

text \<open>
  \<open>forge_app/src/compact.rs\<close>: the compactor that replaces an evicted range by a summary. The
  renderer of the summary (\<open>ContextSummary\<close>, its transformer pipeline and the template engine) is
  the parameter \<open>render\<close>: it reads the evicted messages and returns an error or the text.
  The outer \<open>option\<close> is \<open>None\<close> when the range search does not return.
\<close>

section \<open>Compaction\<close>

text \<open>The reasoning injected into the first assistant message that is left, if it has none.\<close>

fun inject_reasoning :: "reasoning_detail list \<Rightarrow> 'v message_entry list \<Rightarrow> 'v message_entry list" where
  "inject_reasoning rs [] = []"
| "inject_reasoning rs (m # ms) =
     (if entry_has_role m Assistant
      then (case me_message m of
              CText t \<Rightarrow>
                (if tm_reasoning_details t = None \<or> tm_reasoning_details t = Some []
                 then m\<lparr>me_message := CText (t\<lparr>tm_reasoning_details := Some rs\<rparr>)\<rparr> # ms
                 else m # ms)
            | _ \<Rightarrow> m # ms)
      else m # inject_reasoning rs ms)"

definition entry_reasoning :: "'v message_entry \<Rightarrow> reasoning_detail list option" where
  "entry_reasoning m =
     (case me_message m of
        CText t \<Rightarrow> (case tm_reasoning_details t of
            Some rd \<Rightarrow> if rd = [] then None else Some rd | None \<Rightarrow> None)
      | _ \<Rightarrow> None)"

definition compress_single_sequence ::
  "('v message_entry list \<Rightarrow> 'e + rstr) \<Rightarrow> 'v chat_context \<Rightarrow> nat \<times> nat \<Rightarrow> 'e + 'v chat_context" where
  "compress_single_sequence render c sequence =
     (let (start, e) = sequence;
          compaction_sequence =
            (case get_range_incl (ctx_messages c) start e of
               Some part \<Rightarrow> filter (\<lambda>m. \<not> is_droppable (me_message m)) part
             | None \<Rightarrow> [])
      in case render compaction_sequence of
           Inl err \<Rightarrow> Inl err
         | Inr summary \<Rightarrow>
             let reasoning_details = find_map entry_reasoning (rev compaction_sequence);
                 compacted_usage = Option.bind (get_range_incl (ctx_messages c) start e)
                   (\<lambda>part. find_map me_usage (rev part));
                 summary_entry = (entry_of (msg_user summary None))\<lparr>me_usage := compacted_usage\<rparr>;
                 ms = take start (ctx_messages c) @ [summary_entry] @ drop (Suc e) (ctx_messages c);
                 ms = filter (\<lambda>m. \<not> is_droppable (me_message m)) ms;
                 ms = (case reasoning_details of
                     Some reasoning \<Rightarrow> inject_reasoning reasoning ms
                   | None \<Rightarrow> ms)
             in Inr (c\<lparr>ctx_messages := ms\<rparr>))"

definition compaction_strategy :: "compact \<Rightarrow> bool \<Rightarrow> strategy" where
  "compaction_strategy cc use_max =
     (let eviction = Evict (cc_eviction_window cc);
          retention = Retain (cc_retention_window cc)
      in if use_max then retention else Min eviction retention)"

definition compact_context ::
  "('v message_entry list \<Rightarrow> 'e + rstr) \<Rightarrow> ('v \<Rightarrow> rstr) \<Rightarrow> compact \<Rightarrow> 'v chat_context \<Rightarrow> bool
     \<Rightarrow> ('e + 'v chat_context) option" where
  "compact_context render ts cc c use_max =
     (case eviction_range ts (compaction_strategy cc use_max) c of
        None \<Rightarrow> None
      | Some (Some sequence) \<Rightarrow> Some (compress_single_sequence render c sequence)
      | Some None \<Rightarrow> Some (Inr c))"

section \<open>Lemmas\<close>

abbreviation kept :: "'v message_entry \<Rightarrow> bool" where
  "kept m \<equiv> \<not> is_droppable (me_message m)"

text \<open>Two entries that differ in the reasoning of an assistant text at most.\<close>

definition same_but_reasoning :: "'v message_entry \<Rightarrow> 'v message_entry \<Rightarrow> bool" where
  "same_but_reasoning m n \<longleftrightarrow> me_usage m = me_usage n \<and>
     (me_message m = me_message n \<or>
      (\<exists>t rs. entry_has_role m Assistant \<and> me_message m = CText t
         \<and> (tm_reasoning_details t = None \<or> tm_reasoning_details t = Some [])
         \<and> me_message n = CText (t\<lparr>tm_reasoning_details := rs\<rparr>)))"

lemma same_but_reasoning_refl [simp]: "same_but_reasoning m m"
  by (simp add: same_but_reasoning_def)

lemma inject_same: "list_all2 same_but_reasoning ms (inject_reasoning rs ms)"
  by (induction rs ms rule: inject_reasoning.induct)
    (auto simp: same_but_reasoning_def list_all2_refl split: context_message.split)

lemma same_but_reasoning_pair_step:
  "same_but_reasoning m n \<Longrightarrow> pair_step owed (me_message m) = pair_step owed (me_message n)"
  by (cases owed) (auto simp: same_but_reasoning_def)

lemma pair_run_inject: "pair_run owed (inject_reasoning rs ms) = pair_run owed ms"
proof -
  have "list_all2 (\<lambda>m n. \<forall>owed. pair_step owed (me_message m) = pair_step owed (me_message n))
      ms (inject_reasoning rs ms)"
    using inject_same by (rule list_all2_mono) (simp add: same_but_reasoning_pair_step)
  then show ?thesis by (simp add: pair_run_cong)
qed

lemma find_map_usage_cong: "list_all2 same_but_reasoning ms ns \<Longrightarrow> find_map me_usage (rev ms) = find_map me_usage (rev ns)"
proof -
  assume "list_all2 same_but_reasoning ms ns"
  then have "map me_usage ms = map me_usage ns"
    by (induction rule: list_all2_induct) (auto simp: same_but_reasoning_def)
  then have "map me_usage (rev ms) = map me_usage (rev ns)" by (simp add: rev_map [symmetric])
  moreover have "find_map me_usage xs = find_map id (map me_usage xs)" for xs :: "'a message_entry list"
    by (induction xs) (auto split: option.split)
  ultimately show ?thesis by metis
qed

text \<open>The messages after compaction, in closed form, for a range inside the history.\<close>

definition summary_entry :: "rstr \<Rightarrow> 'v message_entry list \<Rightarrow> 'v message_entry" where
  "summary_entry summary part =
     (entry_of (msg_user summary None))\<lparr>me_usage := find_map me_usage (rev part)\<rparr>"

lemma summary_entry_simps [simp]:
  "me_usage (summary_entry s part) = find_map me_usage (rev part)"
  "is_droppable (me_message (summary_entry s part)) = False"
  "plain_message (me_message (summary_entry s part))"
  "entry_has_role (summary_entry s part) Assistant = False"
  by (simp_all add: summary_entry_def entry_of_def msg_user_def plain_message_def)

abbreviation compacted :: "'v chat_context \<Rightarrow> rstr \<Rightarrow> 'v message_entry list \<Rightarrow> 'v message_entry list
    \<Rightarrow> 'v message_entry list \<Rightarrow> 'v chat_context" where
  "compacted c summary xs part ys \<equiv> c\<lparr>ctx_messages :=
     (case find_map entry_reasoning (rev (filter kept part)) of
        Some rs \<Rightarrow> inject_reasoning rs (filter kept xs @ summary_entry summary part # filter kept ys)
      | None \<Rightarrow> filter kept xs @ summary_entry summary part # filter kept ys)\<rparr>"

lemma compress_ranges:
  assumes "ctx_messages c = xs @ part @ ys" "length xs = s" "s \<le> e" "Suc e = s + length part"
    and "compress_single_sequence render c (s, e) = Inr c'"
  shows "\<exists>summary. render (filter kept part) = Inr summary \<and> c' = compacted c summary xs part ys"
proof -
  have "get_range_incl (ctx_messages c) s e = Some part"
    using assms(2,3,4) unfolding assms(1) get_range_incl_def get_range_def by simp
  moreover have "take s (ctx_messages c) = xs" "drop (Suc e) (ctx_messages c) = ys"
    using assms(2,4) unfolding assms(1) by simp_all
  ultimately show ?thesis
    using assms(5)
    by (auto simp: compress_single_sequence_def Let_def summary_entry_def [symmetric]
        split: sum.splits option.splits)
qed

lemma split_range:
  assumes "s \<le> e" "e < length ms"
  shows "ms = take s ms @ take (Suc e - s) (drop s ms) @ drop (Suc e) ms"
proof -
  have "drop (Suc e) ms = drop (Suc e - s) (drop s ms)"
    using assms by simp
  then show ?thesis by (simp only: append_take_drop_id)
qed

lemma compact_context_cases:
  assumes "compact_context render ts cc c use_max = Some (Inr c')"
  obtains (same) "c' = c"
  | (summarized) xs part ys summary s e where "ctx_messages c = xs @ part @ ys"
      "length xs = s" "s \<le> e" "Suc e = s + length part"
      "seq_result (ctx_messages c) (to_fixed ts c (compaction_strategy cc use_max)) s e"
      "render (filter kept part) = Inr summary"
      "c' = compacted c summary xs part ys"
proof -
  obtain r where r: "eviction_range ts (compaction_strategy cc use_max) c = Some r"
    "\<forall>s e. r = Some (s, e) \<longrightarrow> seq_result (ctx_messages c) (to_fixed ts c (compaction_strategy cc use_max)) s e"
    using eviction_range_result by blast
  show thesis
  proof (cases r)
    case None
    then show thesis using assms r same by (simp add: compact_context_def)
  next
    case (Some se)
    obtain s e where se: "se = (s, e)" by fastforce
    let ?ms = "ctx_messages c"
    have res: "seq_result ?ms (to_fixed ts c (compaction_strategy cc use_max)) s e"
      using r Some se by simp
    then have b: "s \<le> e" "e < length ?ms" by (auto simp: seq_result_def)
    have len: "length (take s ?ms) = s" "Suc e = s + length (take (Suc e - s) (drop s ?ms))"
      using b by simp_all
    have "compress_single_sequence render c (s, e) = Inr c'"
      using assms r Some se by (simp add: compact_context_def)
    from compress_ranges [OF split_range [OF b] len(1) b(1) len(2) this] obtain summary where
      "render (filter kept (take (Suc e - s) (drop s ?ms))) = Inr summary"
      "c' = compacted c summary (take s ?ms) (take (Suc e - s) (drop s ?ms)) (drop (Suc e) ?ms)"
      by blast
    from summarized [OF split_range [OF b] len(1) b(1) len(2) res this] show thesis .
  qed
qed


lemma find_map_usage_kept:
  "list_all (\<lambda>m. \<not> is_droppable (me_message m) \<or> me_usage m = None) ms \<Longrightarrow>
     find_map me_usage (rev (filter kept ms)) = find_map me_usage (rev ms)"
  by (induction ms) (auto simp: find_map_append split: option.splits)

lemma entry_reasoning_SomeD: "entry_reasoning m = Some rs \<Longrightarrow> rs \<noteq> []"
  by (auto simp: entry_reasoning_def split: context_message.splits option.splits if_splits)

lemma assistant_is_text: "entry_has_role m Assistant \<Longrightarrow> \<exists>t. me_message m = CText t \<and> tm_role t = Assistant"
  by (cases "me_message m") auto

lemma inject_first_assistant:
  "rs \<noteq> [] \<Longrightarrow> list_ex (\<lambda>m. entry_has_role m Assistant) ms \<Longrightarrow>
     \<exists>i. find_index (\<lambda>m. entry_has_role m Assistant) (inject_reasoning rs ms) = Some i
       \<and> entry_reasoning (inject_reasoning rs ms ! i) \<noteq> None"
proof (induction ms)
  case Nil
  then show ?case by simp
next
  case (Cons m ms)
  then show ?case
    by (cases "entry_has_role m Assistant")
      (auto dest!: assistant_is_text simp: entry_reasoning_def split: option.split)
qed

lemma compacted_messages:
  "list_all2 same_but_reasoning (filter kept xs @ summary_entry summary part # filter kept ys)
     (ctx_messages (compacted c summary xs part ys))"
  by (auto simp: inject_same list_all2_refl split: option.split)

lemma same_but_reasoning_role:
  "same_but_reasoning m n \<Longrightarrow> entry_has_role m r = entry_has_role n r \<and> is_droppable (me_message m) = is_droppable (me_message n)"
  by (cases "me_message m"; cases "me_message n") (auto simp: same_but_reasoning_def)

lemma compact_result:
  "\<exists>r. compact_context render ts cc c use_max = Some r \<and>
     (case r of
        Inl err \<Rightarrow> \<exists>evicted. render evicted = Inl err
      | Inr c' \<Rightarrow> c'\<lparr>ctx_messages := ctx_messages c\<rparr> = c
          \<and> length (ctx_messages c') \<le> length (ctx_messages c))"
proof -
  obtain found where "eviction_range ts (compaction_strategy cc use_max) c = Some found"
    using eviction_range_result by blast
  then obtain r where r: "compact_context render ts cc c use_max = Some r"
    by (cases found) (simp_all add: compact_context_def)
  show ?thesis
  proof (cases r)
    case (Inl err)
    then show ?thesis
      using r by (auto simp: compact_context_def compress_single_sequence_def Let_def
          split: option.splits sum.splits prod.splits)
  next
    case (Inr c')
    with r have "compact_context render ts cc c use_max = Some (Inr c')" by simp
    then show ?thesis
    proof (cases rule: compact_context_cases)
      case same
      then show ?thesis using r Inr by simp
    next
      case (summarized xs part ys summary s e)
      have "length (ctx_messages c') = length (filter kept xs) + 1 + length (filter kept ys)"
        using list_all2_lengthD [OF compacted_messages [of xs summary part ys c]] summarized(7) by simp
      moreover have "1 \<le> length part" using summarized by simp
      ultimately have "length (ctx_messages c') \<le> length (ctx_messages c)"
        using length_filter_le [of kept xs] length_filter_le [of kept ys]
        unfolding summarized(1) length_append by linarith
      then show ?thesis using r Inr summarized(7) by simp
    qed
  qed
qed

lemma compact_pairs:
  assumes "compact_context render ts cc c use_max = Some (Inr c')"
    and "paired (ctx_messages c)"
    and "list_all (\<lambda>m. \<not> is_droppable (me_message m) \<or> plain_message (me_message m)) (ctx_messages c)"
    and "find_index (\<lambda>m. entry_has_role m Assistant) (ctx_messages c) \<noteq> Some 0"
  shows "paired (ctx_messages c')"
  using assms(1)
proof (cases rule: compact_context_cases)
  case same
  then show ?thesis using assms(2) by simp
next
  case (summarized xs part ys summary s e)
  have "0 < s"
    using summarized(5) assms(4) by (auto simp: seq_result_def intro: gr0I)
  from seq_result_cut [OF assms(2) summarized(5) this]
  have cut: "paired xs" "paired ys"
    using summarized(2,4) by (simp_all add: summarized(1))
  have plain: "\<And>m. m \<in> set xs \<union> set ys \<Longrightarrow> \<not> kept m \<Longrightarrow> plain_message (me_message m)"
    using assms(3) by (auto simp: summarized(1) list_all_iff)
  have "paired (filter kept xs)" "paired (filter kept ys)"
    using plain cut by (auto intro: paired_filter)
  then have "paired (filter kept xs @ summary_entry summary part # filter kept ys)"
    by (simp add: paired_def pair_run_append pair_step_plain)
  then show ?thesis
    unfolding summarized(7) by (simp add: paired_def pair_run_inject split: option.split)
qed

section \<open>Properties\<close>

text \<open>Compaction always returns; it fails only with an error of the summary renderer; and when it
  succeeds it changes nothing but the messages, which do not become more numerous.\<close>

theorem compact_returns:
  "\<exists>r. compact_context render ts cc c use_max = Some r \<and>
     (case r of
        Inl err \<Rightarrow> \<exists>evicted. render evicted = Inl err
      | Inr c' \<Rightarrow> c'\<lparr>ctx_messages := ctx_messages c\<rparr> = c
          \<and> length (ctx_messages c') \<le> length (ctx_messages c))"
  by (rule compact_result)

text \<open>C5: Compaction never breaks a tool exchange: in a history whose calls and results are paired,
  which does not open with an assistant message and whose droppable messages are outside exchanges,
  the history after compaction is paired again.\<close>

theorem compact_keeps_pairing:
  assumes "compact_context render ts cc c use_max = Some (Inr c')"
    and "paired (ctx_messages c)"
    and "list_all (\<lambda>m. \<not> is_droppable (me_message m) \<or> plain_message (me_message m)) (ctx_messages c)"
    and "find_index (\<lambda>m. entry_has_role m Assistant) (ctx_messages c) \<noteq> Some 0"
  shows "paired (ctx_messages c')"
  using assms by (rule compact_pairs)

text \<open>Compaction loses no token accounting: the last reported usage of the history is the last
  reported usage of the compacted history, if droppable messages report none.\<close>

theorem compact_keeps_usage:
  assumes "compact_context render ts cc c use_max = Some (Inr c')"
    and "list_all (\<lambda>m. \<not> is_droppable (me_message m) \<or> me_usage m = None) (ctx_messages c)"
  shows "accumulate_usage c' = accumulate_usage c"
  using assms(1)
proof (cases rule: compact_context_cases)
  case same
  then show ?thesis by simp
next
  case (summarized xs part ys summary s e)
  have "find_map me_usage (rev (filter kept xs)) = find_map me_usage (rev xs)"
    "find_map me_usage (rev (filter kept ys)) = find_map me_usage (rev ys)"
    using assms(2) unfolding summarized(1) by (intro find_map_usage_kept; simp)+
  then show ?thesis
    unfolding accumulate_usage_def summarized(7)
      find_map_usage_cong [OF compacted_messages, symmetric]
    by (simp add: summarized(1) find_map_append split: option.splits)
qed

text \<open>The reasoning chain survives: when a message that is summarized away carried reasoning and
  an assistant message is left, the first assistant message left carries reasoning.\<close>

theorem compact_keeps_reasoning:
  assumes "compact_context render ts cc c use_max = Some (Inr c')"
    and "eviction_range ts (compaction_strategy cc use_max) c = Some (Some (s, e))"
    and "s \<le> k" and "k \<le> e"
    and "\<not> is_droppable (me_message (ctx_messages c ! k))"
    and "entry_reasoning (ctx_messages c ! k) \<noteq> None"
    and "list_ex (\<lambda>m. entry_has_role m Assistant) (ctx_messages c')"
  shows "\<exists>i. find_index (\<lambda>m. entry_has_role m Assistant) (ctx_messages c') = Some i
    \<and> entry_reasoning (ctx_messages c' ! i) \<noteq> None"
proof -
  have b: "e < length (ctx_messages c)" "s \<le> e"
    using eviction_range_result [of ts "compaction_strategy cc use_max" c] assms(2)
    by (auto simp: seq_result_def)
  define part where "part = take (Suc e - s) (drop s (ctx_messages c))"
  have len: "length (take s (ctx_messages c)) = s" "Suc e = s + length part"
    using b by (simp_all add: part_def)
  have "compress_single_sequence render c (s, e) = Inr c'"
    using assms(1,2) by (simp add: compact_context_def)
  from compress_ranges [OF split_range [OF b(2,1), folded part_def] len(1) b(2) len(2) this]
  obtain summary where c': "c' = compacted c summary (take s (ctx_messages c)) part (drop (Suc e) (ctx_messages c))"
    by blast
  have "part ! (k - s) = ctx_messages c ! k" "k - s < length part"
    using b assms(3,4) by (auto simp: part_def)
  then have "ctx_messages c ! k \<in> set (filter kept part)"
    using assms(5) nth_mem by fastforce
  then have "find_map entry_reasoning (rev (filter kept part)) \<noteq> None"
    using assms(6) by (metis find_map_None_iff set_rev)
  then obtain rs where rs: "find_map entry_reasoning (rev (filter kept part)) = Some rs" by blast
  then have "rs \<noteq> []"
    using find_map_SomeD entry_reasoning_SomeD by metis
  let ?ms = "filter kept (take s (ctx_messages c)) @ summary_entry summary part # filter kept (drop (Suc e) (ctx_messages c))"
  have c'_ms: "ctx_messages c' = inject_reasoning rs ?ms"
    using c' rs by simp
  have "list_all2 same_but_reasoning ?ms (inject_reasoning rs ?ms)" by (rule inject_same)
  then have "list_ex (\<lambda>m. entry_has_role m Assistant) ?ms = list_ex (\<lambda>m. entry_has_role m Assistant) (inject_reasoning rs ?ms)"
    by (induction rule: list_all2_induct) (auto dest: same_but_reasoning_role)
  then show ?thesis
    using assms(7) inject_first_assistant [OF \<open>rs \<noteq> []\<close>] unfolding c'_ms by blast
qed


section \<open>Witnesses\<close>

definition demo_render :: "unit message_entry list \<Rightarrow> unit + rstr" where
  "demo_render ms = Inr (lit ''summary'')"

definition demo_turn :: "unit message_entry list" where
  "demo_turn =
     [entry_of (msg_system (lit ''s'')), entry_of (msg_user (lit ''u'') None),
      (entry_of (msg_assistant (lit ''a'') None (Some [reasoning_default])
         (Some [\<lparr>tc_name = lit ''x'', tc_call_id = Some [1], tc_arguments = Parsed (), tc_thought_signature = None\<rparr>])))
        \<lparr>me_usage := Some usage_default\<rparr>,
      entry_of (msg_tool_result \<lparr>tr_name = lit ''x'', tr_call_id = Some [1], tr_output = output_default\<rparr>),
      entry_of (msg_assistant (lit ''b'') None None None), entry_of (msg_user (lit ''v'') None),
      entry_of (msg_assistant (lit ''c'') None None None)]"

definition demo_paired :: "unit chat_context" where
  "demo_paired = context_default\<lparr>ctx_messages := demo_turn\<rparr>"

definition demo_cfg :: compact where
  "demo_cfg = compact_default\<lparr>cc_retention_window := 2\<rparr>"

definition demo_compacted :: "unit chat_context" where
  "demo_compacted = (case compact_context demo_render (\<lambda>_. []) demo_cfg demo_paired True of
     Some (Inr c') \<Rightarrow> c' | _ \<Rightarrow> context_default)"

lemma demo_compaction: "compact_context demo_render (\<lambda>_. []) demo_cfg demo_paired True = Some (Inr demo_compacted)"
  by code_simp

lemma demo_compacted_shape: "map (\<lambda>m. entry_has_role m Assistant) (ctx_messages demo_compacted) = [False, False, False, False, True]"
  by code_simp

theorem compact_keeps_pairing_witness: "paired (ctx_messages demo_compacted)"
  by (rule compact_keeps_pairing [OF demo_compaction]) (code_simp, code_simp, code_simp)

theorem compact_keeps_usage_witness: "accumulate_usage demo_compacted = accumulate_usage demo_paired"
  by (rule compact_keeps_usage [OF demo_compaction]) code_simp

theorem compact_keeps_reasoning_witness:
  "\<exists>i. find_index (\<lambda>m. entry_has_role m Assistant) (ctx_messages demo_compacted) = Some i
    \<and> entry_reasoning (ctx_messages demo_compacted ! i) \<noteq> None"
  by (rule compact_keeps_reasoning [OF demo_compaction, of 2 4 2])
    (code_simp, simp, simp, code_simp, code_simp, code_simp)

text \<open>
  Without \<open>max\<close> the smaller of the two windows decides: here a retention window of 4 is
  configured and the eviction window of 0 leaves a single message after the summary.
\<close>

lemma retention_window_not_kept:
  "map_option (map_sum id (\<lambda>c. length (ctx_messages c)))
     (compact_context demo_render (\<lambda>_. []) (compact_default\<lparr>cc_retention_window := 4, cc_eviction_window := 0\<rparr>)
        demo_paired False) = Some (Inr 4)"
  by code_simp

end
