(* ===== verification/Prefilter.thy ===== *)
theory Prefilter
  imports Compact_Config
begin

text \<open>
  \<open>forge_domain/src/compact/prefilter.rs\<close>, the noise filter that runs before summarization, and
  \<open>forge_domain/src/compact/adaptive_eviction.rs\<close>, the eviction percentage that follows the
  context's fill level.
\<close>

section \<open>The filter\<close>

record prefilter_config =
  pf_min_tool_result_length :: nat
  pf_remove_debug_output :: bool
  pf_collapse_duplicates :: bool
  pf_remove_empty :: bool

definition prefilter_default :: prefilter_config where
  "prefilter_default = \<lparr>pf_min_tool_result_length = 10, pf_remove_debug_output = True,
     pf_collapse_duplicates = True, pf_remove_empty = True\<rparr>"

definition tool_output_text_len :: "tool_output \<Rightarrow> nat" where
  "tool_output_text_len out = (case output_as_str out of Some s \<Rightarrow> utf8_len s | None \<Rightarrow> 0)"

definition remove_short_tool_results :: "nat \<Rightarrow> 'v message_entry list \<Rightarrow> 'v message_entry list" where
  "remove_short_tool_results n ms =
     filter (\<lambda>m. case me_message m of
         CTool r \<Rightarrow> n < tool_output_text_len (tr_output r) \<or> result_is_error r
       | _ \<Rightarrow> True) ms"

definition debug_patterns :: "rstr list" where
  "debug_patterns =
     [lit ''console.log'', lit ''console.warn'', lit ''console.error'', lit ''print!('',
      lit ''println!('', lit ''printf('', lit ''System.out.println'', lit ''console.debug'',
      lit ''logging.debug'', lit ''logger.debug'', lit ''// DEBUG'', lit ''/* DEBUG'',
      lit ''# DEBUG'']"

definition output_or_empty :: "tool_result \<Rightarrow> rstr" where
  "output_or_empty r = (case output_as_str (tr_output r) of Some s \<Rightarrow> s | None \<Rightarrow> [])"

definition remove_debug_output :: "'v message_entry list \<Rightarrow> 'v message_entry list" where
  "remove_debug_output ms =
     filter (\<lambda>m. case me_message m of
         CTool r \<Rightarrow> \<not> list_ex (\<lambda>pat. str_contains (output_or_empty r) pat) debug_patterns
       | _ \<Rightarrow> True) ms"

definition remove_empty_messages :: "'v message_entry list \<Rightarrow> 'v message_entry list" where
  "remove_empty_messages ms =
     filter (\<lambda>m. case me_message m of
         CText t \<Rightarrow> str_trim (tm_content t) \<noteq> []
       | CTool _ \<Rightarrow> True
       | CImage _ \<Rightarrow> True) ms"

text \<open>The key \<open>format!("{}:{}", name, output)\<close> and the loop with its \<open>HashSet\<close>.\<close>

definition result_key :: "tool_result \<Rightarrow> rstr" where
  "result_key r = tr_name r @ lit '':'' @ output_or_empty r"

fun collapse_loop :: "rstr set \<Rightarrow> 'v message_entry list \<Rightarrow> 'v message_entry list" where
  "collapse_loop seen [] = []"
| "collapse_loop seen (m # ms) =
     (case me_message m of
        CTool r \<Rightarrow>
          (let key = result_key r
           in if key \<in> seen
              then (if result_is_error r then m # collapse_loop seen ms else collapse_loop seen ms)
              else m # collapse_loop (insert key seen) ms)
      | _ \<Rightarrow> m # collapse_loop seen ms)"

definition collapse_duplicate_operations :: "'v message_entry list \<Rightarrow> 'v message_entry list" where
  "collapse_duplicate_operations ms = collapse_loop {} ms"

definition prefilter :: "prefilter_config \<Rightarrow> 'v message_entry list \<Rightarrow> 'v message_entry list" where
  "prefilter cfg ms =
     (let ms = remove_short_tool_results (pf_min_tool_result_length cfg) ms;
          ms = (if pf_remove_debug_output cfg then remove_debug_output ms else ms);
          ms = (if pf_remove_empty cfg then remove_empty_messages ms else ms)
      in if pf_collapse_duplicates cfg then collapse_duplicate_operations ms else ms)"

section \<open>The contract of a history filter\<close>

text \<open>
  A history filter removes messages without reordering them, and removes none that is
  \<open>precious\<close>. Filters with the same precious messages compose.
\<close>

locale history_filter =
  fixes precious :: "'v message_entry \<Rightarrow> bool" and f :: "'v message_entry list \<Rightarrow> 'v message_entry list"
  assumes subseq_f: "subseq (f ms) ms"
    and filter_f: "filter precious (f ms) = filter precious ms"
begin

lemma set_f: "set (f ms) \<subseteq> set ms"
  using subseq_f [of ms] by (auto dest: list_emb_set)

lemma length_f: "length (f ms) \<le> length ms"
  using subseq_f by (rule list_emb_length)

lemma precious_kept: "m \<in> set ms \<Longrightarrow> precious m \<Longrightarrow> m \<in> set (f ms)"
  using filter_f [of ms] by (metis (mono_tags, lifting) filter_set mem_Collect_eq set_filter)

end

locale two_history_filters = first: history_filter precious f + second: history_filter precious g
  for precious :: "'v message_entry \<Rightarrow> bool" and f and g
begin

lemma comp_subseq: "subseq ((g \<circ> f) ms) ms"
  using first.subseq_f second.subseq_f by (auto intro: subseq_order.order_trans)

lemma comp_filter: "filter precious ((g \<circ> f) ms) = filter precious ms"
  by (simp add: first.filter_f second.filter_f)

end

sublocale two_history_filters \<subseteq> both: history_filter precious "g \<circ> f"
  by unfold_locales (rule comp_subseq, rule comp_filter)

text \<open>What no filter of the prefilter touches: images and texts that are not blank.\<close>

fun precious_message :: "'v context_message \<Rightarrow> bool" where
  "precious_message (CText t) = (str_trim (tm_content t) \<noteq> [])"
| "precious_message (CTool r) = False"
| "precious_message (CImage _) = True"

abbreviation precious_entry :: "'v message_entry \<Rightarrow> bool" where
  "precious_entry m \<equiv> precious_message (me_message m)"

lemma history_filter_filter:
  "(\<And>m. precious_entry m \<Longrightarrow> P m) \<Longrightarrow> history_filter precious_entry (filter P)"
  by unfold_locales (auto simp: subseq_filter intro!: filter_cong)

interpretation short: history_filter precious_entry "remove_short_tool_results n" for n
  unfolding remove_short_tool_results_def
  by (rule history_filter_filter) (auto split: context_message.split)

interpretation debug: history_filter precious_entry remove_debug_output
  unfolding remove_debug_output_def
  by (rule history_filter_filter) (auto split: context_message.split)

interpretation empty: history_filter precious_entry remove_empty_messages
  unfolding remove_empty_messages_def
  by (rule history_filter_filter) (auto split: context_message.split)

lemma collapse_loop_subseq: "subseq (collapse_loop seen ms) ms"
  by (induction seen ms rule: collapse_loop.induct) (auto simp: Let_def split: context_message.split)

lemma collapse_loop_precious: "filter precious_entry (collapse_loop seen ms) = filter precious_entry ms"
  by (induction seen ms rule: collapse_loop.induct) (auto simp: Let_def split: context_message.split)

interpretation collapse: history_filter precious_entry collapse_duplicate_operations
  unfolding collapse_duplicate_operations_def
  by unfold_locales (rule collapse_loop_subseq, rule collapse_loop_precious)

lemma history_filter_id: "history_filter precious_entry id"
  by unfold_locales auto


lemma history_filter_if: "history_filter p f \<Longrightarrow> history_filter p (if b then f else id)"
  by unfold_locales (auto simp: history_filter.subseq_f history_filter.filter_f)

interpretation stage1: two_history_filters precious_entry "remove_short_tool_results n"
    "if b then remove_debug_output else id" for n b
  by (intro two_history_filters.intro history_filter_if short.history_filter_axioms
      debug.history_filter_axioms)

interpretation stage2: two_history_filters precious_entry
    "(if b then remove_debug_output else id) \<circ> remove_short_tool_results n"
    "if b' then remove_empty_messages else id" for n b b'
  by (intro two_history_filters.intro history_filter_if stage1.both.history_filter_axioms
      empty.history_filter_axioms)

interpretation stage3: two_history_filters precious_entry
    "(if b' then remove_empty_messages else id) \<circ> ((if b then remove_debug_output else id)
      \<circ> remove_short_tool_results n)"
    "if b'' then collapse_duplicate_operations else id" for n b b' b''
  by (intro two_history_filters.intro history_filter_if stage2.both.history_filter_axioms
      collapse.history_filter_axioms)

lemma prefilter_stages:
  "prefilter cfg = (if pf_collapse_duplicates cfg then collapse_duplicate_operations else id)
     \<circ> ((if pf_remove_empty cfg then remove_empty_messages else id)
     \<circ> ((if pf_remove_debug_output cfg then remove_debug_output else id)
     \<circ> remove_short_tool_results (pf_min_tool_result_length cfg)))"
  by (rule ext) (simp add: prefilter_def Let_def)

section \<open>What the filter leaves\<close>

definition survives :: "prefilter_config \<Rightarrow> 'v context_message \<Rightarrow> bool" where
  "survives cfg m =
     (case m of
        CText t \<Rightarrow> \<not> pf_remove_empty cfg \<or> str_trim (tm_content t) \<noteq> []
      | CTool r \<Rightarrow>
          (pf_min_tool_result_length cfg < tool_output_text_len (tr_output r) \<or> result_is_error r)
          \<and> (\<not> pf_remove_debug_output cfg
             \<or> \<not> list_ex (\<lambda>pat. str_contains (output_or_empty r) pat) debug_patterns)
      | CImage _ \<Rightarrow> True)"

lemma prefilter_survives:
  "prefilter cfg ms =
     (if pf_collapse_duplicates cfg
      then collapse_duplicate_operations (filter (\<lambda>m. survives cfg (me_message m)) ms)
      else filter (\<lambda>m. survives cfg (me_message m)) ms)"
proof -
  have "(let ms = remove_short_tool_results (pf_min_tool_result_length cfg) ms;
          ms = (if pf_remove_debug_output cfg then remove_debug_output ms else ms)
      in if pf_remove_empty cfg then remove_empty_messages ms else ms) =
      filter (\<lambda>m. survives cfg (me_message m)) ms"
    by (auto simp: Let_def remove_short_tool_results_def remove_debug_output_def
        remove_empty_messages_def survives_def intro!: filter_cong split: context_message.splits)
  then show ?thesis by (simp add: prefilter_def Let_def)
qed

text \<open>The keys of the successful tool results of a history, in order.\<close>

fun success_keys :: "'v message_entry list \<Rightarrow> rstr list" where
  "success_keys [] = []"
| "success_keys (m # ms) =
     (case me_message m of
        CTool r \<Rightarrow> if result_is_error r then success_keys ms else result_key r # success_keys ms
      | _ \<Rightarrow> success_keys ms)"

lemma collapse_loop_idem: "collapse_loop seen (collapse_loop seen ms) = collapse_loop seen ms"
  by (induction seen ms rule: collapse_loop.induct) (auto simp: Let_def split: context_message.split)

lemma collapse_loop_distinct:
  "distinct (success_keys (collapse_loop seen ms)) \<and> set (success_keys (collapse_loop seen ms)) \<inter> seen = {}"
  by (induction seen ms rule: collapse_loop.induct) (auto simp: Let_def split: context_message.split)

lemma collapse_id_survives:
  "list_all (\<lambda>m. survives cfg (me_message m)) ms \<Longrightarrow>
     filter (\<lambda>m. survives cfg (me_message m)) (collapse_duplicate_operations ms) = collapse_duplicate_operations ms"
  using collapse.set_f [of ms] by (auto simp: list_all_iff filter_id_conv)

text \<open>The prefilter only removes messages, keeps their order, and removes no image and no text
  message that is not blank, whatever its configuration.\<close>

theorem prefilter_keeps_order_and_text:
  "subseq (prefilter cfg ms) ms
   \<and> filter (\<lambda>m. precious_message (me_message m)) (prefilter cfg ms)
     = filter (\<lambda>m. precious_message (me_message m)) ms"
  unfolding prefilter_stages by (intro conjI stage3.both.subseq_f stage3.both.filter_f)

text \<open>Filtering twice is filtering once; and with duplicate removal on, no two successful tool
  results of the filtered history, wherever they stand, have the same name and output.\<close>

theorem prefilter_idempotent:
  "prefilter cfg (prefilter cfg ms) = prefilter cfg ms
   \<and> (\<not> pf_collapse_duplicates cfg \<or> distinct (success_keys (prefilter cfg ms)))"
proof -
  let ?ms = "filter (\<lambda>m. survives cfg (me_message m)) ms"
  have "list_all (\<lambda>m. survives cfg (me_message m)) ?ms"
    by (simp add: list_all_iff)
  from collapse_id_survives [OF this] show ?thesis
    by (simp add: prefilter_survives collapse_duplicate_operations_def collapse_loop_idem
        collapse_loop_distinct)
qed

text \<open>
  What the filter does not keep is the pairing of calls and results: a successful result shorter
  than the minimum goes, and the call it answers stays.
\<close>

definition demo_exchange :: "unit message_entry list" where
  "demo_exchange = ctx_messages (append_message context_default (lit ''run'') None None None
     usage_default demo_records None)"

lemma prefilter_orphans_calls:
  "paired demo_exchange \<and> \<not> paired (prefilter prefilter_default demo_exchange)"
  by code_simp

theorem prefilter_idempotent_witness:
  "prefilter prefilter_default (prefilter prefilter_default (demo_exchange @ demo_exchange))
     = prefilter prefilter_default (demo_exchange @ demo_exchange)
   \<and> distinct (success_keys (prefilter prefilter_default (demo_exchange @ demo_exchange)))"
  using prefilter_idempotent [of prefilter_default "demo_exchange @ demo_exchange"]
  by (simp add: prefilter_default_def)

section \<open>Adaptive eviction\<close>

record adaptive_config =
  ac_high_headroom_threshold :: rat
  ac_medium_headroom_threshold :: rat
  ac_low_headroom_threshold :: rat
  ac_high_headroom_eviction :: rat
  ac_medium_headroom_eviction :: rat
  ac_low_headroom_eviction :: rat
  ac_critical_headroom_eviction :: rat
  ac_min_eviction :: rat
  ac_max_eviction :: rat

text \<open>The decimal literals of the source are the doubles nearest to them.\<close>

definition adaptive_config_default :: adaptive_config where
  "adaptive_config_default =
     \<lparr> ac_high_headroom_threshold = f64_round (85 / 100),
       ac_medium_headroom_threshold = f64_round (70 / 100),
       ac_low_headroom_threshold = f64_round (50 / 100),
       ac_high_headroom_eviction = f64_round (10 / 100),
       ac_medium_headroom_eviction = f64_round (20 / 100),
       ac_low_headroom_eviction = f64_round (35 / 100),
       ac_critical_headroom_eviction = f64_round (50 / 100),
       ac_min_eviction = f64_round (5 / 100),
       ac_max_eviction = f64_round (60 / 100) \<rparr>"

text \<open>\<open>f64::clamp\<close> panics (\<open>None\<close>) when its bounds are crossed.\<close>

definition f64_clamp :: "rat \<Rightarrow> rat \<Rightarrow> rat \<Rightarrow> rat option" where
  "f64_clamp x lo hi =
     (if lo \<le> hi then Some (if x < lo then lo else if hi < x then hi else x) else None)"

definition headroom :: "nat \<Rightarrow> nat \<Rightarrow> rat" where
  "headroom tokens threshold = f64_sub 1 (f64_div (f64_of_usize tokens) (f64_of_usize threshold))"

definition config_calculate_eviction :: "adaptive_config \<Rightarrow> nat \<Rightarrow> nat \<Rightarrow> rat option" where
  "config_calculate_eviction cfg tokens threshold =
     (if threshold = 0 then Some (ac_medium_headroom_eviction cfg)
      else let headroom_ratio = headroom tokens threshold;
               eviction =
                 (if ac_high_headroom_threshold cfg \<le> headroom_ratio then ac_high_headroom_eviction cfg
                  else if ac_medium_headroom_threshold cfg \<le> headroom_ratio then ac_medium_headroom_eviction cfg
                  else if ac_low_headroom_threshold cfg \<le> headroom_ratio then ac_low_headroom_eviction cfg
                  else ac_critical_headroom_eviction cfg)
           in f64_clamp eviction (ac_min_eviction cfg) (ac_max_eviction cfg))"

record adaptive_eviction =
  ae_config :: adaptive_config
  ae_enabled :: bool

definition adaptive_default :: adaptive_eviction where
  "adaptive_default = \<lparr>ae_config = adaptive_config_default, ae_enabled = True\<rparr>"

definition calculate_eviction :: "adaptive_eviction \<Rightarrow> nat \<Rightarrow> nat \<Rightarrow> rat option" where
  "calculate_eviction ae tokens threshold =
     (if \<not> ae_enabled ae \<or> threshold = 0 then Some (ac_medium_headroom_eviction (ae_config ae))
      else config_calculate_eviction (ae_config ae) tokens threshold)"

definition headroom_ratio :: "nat \<Rightarrow> nat \<Rightarrow> rat" where
  "headroom_ratio tokens threshold = (if threshold = 0 then 1 else headroom tokens threshold)"

datatype tier = TierUnknown | TierHigh | TierMedium | TierLow | TierCritical

definition current_tier :: "adaptive_eviction \<Rightarrow> nat \<Rightarrow> nat \<Rightarrow> tier" where
  "current_tier ae tokens threshold =
     (if threshold = 0 then TierUnknown
      else let h = headroom_ratio tokens threshold; cfg = ae_config ae
           in if ac_high_headroom_threshold cfg \<le> h then TierHigh
              else if ac_medium_headroom_threshold cfg \<le> h then TierMedium
              else if ac_low_headroom_threshold cfg \<le> h then TierLow
              else TierCritical)"

lemma f64_of_usize_mono: "m \<le> n \<Longrightarrow> f64_of_usize m \<le> f64_of_usize n"
  unfolding f64_of_usize_def by (rule f64_round_mono) simp

lemma headroom_antimono: "m \<le> n \<Longrightarrow> headroom n threshold \<le> headroom m threshold"
  unfolding headroom_def f64_sub_def f64_div_def
  by (intro f64_round_mono diff_left_mono divide_right_mono f64_of_usize_mono f64_of_usize_nonneg)

text \<open>A configuration whose tiers are ordered: less headroom, more eviction.\<close>

definition ordered_tiers :: "adaptive_config \<Rightarrow> bool" where
  "ordered_tiers cfg \<longleftrightarrow>
     ac_low_headroom_threshold cfg \<le> ac_medium_headroom_threshold cfg
     \<and> ac_medium_headroom_threshold cfg \<le> ac_high_headroom_threshold cfg
     \<and> ac_high_headroom_eviction cfg \<le> ac_medium_headroom_eviction cfg
     \<and> ac_medium_headroom_eviction cfg \<le> ac_low_headroom_eviction cfg
     \<and> ac_low_headroom_eviction cfg \<le> ac_critical_headroom_eviction cfg
     \<and> ac_min_eviction cfg \<le> ac_max_eviction cfg"

text \<open>With ordered tiers adaptive eviction never panics, stays between its floor and its ceiling,
  and is monotone: a fuller context never gets a smaller eviction percentage.\<close>

theorem adaptive_eviction_monotone:
  assumes "ordered_tiers (ae_config ae)" and "ae_enabled ae" and "0 < threshold" and "m \<le> n"
  shows "\<exists>x y. calculate_eviction ae m threshold = Some x \<and> calculate_eviction ae n threshold = Some y
     \<and> ac_min_eviction (ae_config ae) \<le> x \<and> x \<le> y \<and> y \<le> ac_max_eviction (ae_config ae)"
  using assms headroom_antimono [of m n threshold]
  by (auto simp: calculate_eviction_def config_calculate_eviction_def Let_def f64_clamp_def ordered_tiers_def)

theorem adaptive_eviction_monotone_witness:
  "\<exists>x y. calculate_eviction adaptive_default 10 100 = Some x \<and> calculate_eviction adaptive_default 90 100 = Some y
     \<and> ac_min_eviction (ae_config adaptive_default) \<le> x \<and> x \<le> y
     \<and> y \<le> ac_max_eviction (ae_config adaptive_default)"
  by (rule adaptive_eviction_monotone) (code_simp, code_simp, simp, simp)

text \<open>The defaults: at 60 % headroom the tier is already \<open>low\<close>, at 40 % it is \<open>critical\<close>.\<close>

lemma default_tiers:
  "current_tier adaptive_default 1 10 = TierHigh \<and> current_tier adaptive_default 2 10 = TierMedium
   \<and> current_tier adaptive_default 4 10 = TierLow \<and> current_tier adaptive_default 6 10 = TierCritical"
  by code_simp

end
