(* ===== verification/Policies.thy ===== *)
theory Policies
  imports Prelude
begin

text \<open>
  The permission policies of \<open>forge_domain/src/policies/\<close>: operations, rules, policies with their
  logical operators, the configuration (a \<open>BTreeSet\<close> of policies, kept as the sorted list it
  iterates over) and the engine that decides. Glob patterns are a third-party crate: the parameter
  \<open>glob\<close> is \<open>Pattern::new\<close> followed by \<open>matches\<close>, \<open>None\<close> for a pattern that does not compile.
\<close>

section \<open>Operations, permissions and rules\<close>

datatype permission_operation =
    OpWrite (op_path: rstr) (op_cwd: rstr) (op_message: rstr)
  | OpRead (op_path: rstr) (op_cwd: rstr) (op_message: rstr)
  | OpExecute (op_command: rstr) (op_cwd: rstr)
  | OpFetch (op_url: rstr) (op_cwd: rstr) (op_message: rstr)

datatype permission = Allow | Deny | Confirm

datatype rule =
    RWrite rstr "rstr option"
  | RRead rstr "rstr option"
  | RExecute rstr "rstr option"
  | RFetch rstr "rstr option"

definition match_pattern :: "globber \<Rightarrow> rstr \<Rightarrow> rstr \<Rightarrow> bool" where
  "match_pattern glob pat target =
     (case glob pat of
        Some glob_pattern \<Rightarrow> glob_pattern target
      | None \<Rightarrow> False)"

definition dir_matches :: "globber \<Rightarrow> rstr option \<Rightarrow> rstr \<Rightarrow> bool" where
  "dir_matches glob dir cwd =
     (case dir of
        Some wd_pattern \<Rightarrow> match_pattern glob wd_pattern cwd
      | None \<Rightarrow> True)"

fun rule_matches :: "globber \<Rightarrow> rule \<Rightarrow> permission_operation \<Rightarrow> bool" where
  "rule_matches glob (RWrite w d) (OpWrite p cwd _) = (match_pattern glob w p \<and> dir_matches glob d cwd)"
| "rule_matches glob (RRead r d) (OpRead p cwd _) = (match_pattern glob r p \<and> dir_matches glob d cwd)"
| "rule_matches glob (RExecute c d) (OpExecute cmd cwd) = (match_pattern glob c cmd \<and> dir_matches glob d cwd)"
| "rule_matches glob (RFetch u d) (OpFetch url cwd _) = (match_pattern glob u url \<and> dir_matches glob d cwd)"
| "rule_matches glob _ _ = False"

section \<open>Policies\<close>

datatype policy =
    Simple permission rule
  | All "policy list"
  | Any "policy list"
  | Not policy

text \<open>\<open>into_iter().find(|p| p.is_some()).flatten()\<close>.\<close>

definition first_some :: "'a option list \<Rightarrow> 'a option" where
  "first_some xs = Option.bind (find (\<lambda>p. p \<noteq> None) xs) id"

fun invert :: "permission \<Rightarrow> permission" where
  "invert Deny = Allow"
| "invert Allow = Deny"
| "invert Confirm = Deny"

fun policy_eval :: "globber \<Rightarrow> permission_operation \<Rightarrow> policy \<Rightarrow> permission option" where
  "policy_eval glob oper (Simple p r) = (if rule_matches glob r oper then Some p else None)"
| "policy_eval glob oper (All ps) = first_some (map (policy_eval glob oper) ps)"
| "policy_eval glob oper (Any ps) = first_some (map (policy_eval glob oper) ps)"
| "policy_eval glob oper (Not p) =
     (case policy_eval glob oper p of
        Some permission \<Rightarrow> Some (invert permission)
      | None \<Rightarrow> None)"

fun collect_matching_rules :: "globber \<Rightarrow> permission_operation \<Rightarrow> policy \<Rightarrow> rule list \<Rightarrow> rule list" where
  "collect_matching_rules glob oper (Simple _ r) rules =
     (if rule_matches glob r oper then rules @ [r] else rules)"
| "collect_matching_rules glob oper (All ps) rules =
     fold (collect_matching_rules glob oper) ps rules"
| "collect_matching_rules glob oper (Any ps) rules =
     fold (collect_matching_rules glob oper) ps rules"
| "collect_matching_rules glob oper (Not p) rules = collect_matching_rules glob oper p rules"

definition policy_find_rules :: "globber \<Rightarrow> permission_operation \<Rightarrow> policy \<Rightarrow> rule list" where
  "policy_find_rules glob oper p = collect_matching_rules glob oper p []"

fun policy_permission :: "policy \<Rightarrow> permission option" where
  "policy_permission (Simple p _) = Some p"
| "policy_permission _ = None"

section \<open>Display\<close>

fun display_permission :: "permission \<Rightarrow> rstr" where
  "display_permission Allow = lit ''ALLOW''"
| "display_permission Deny = lit ''DENY''"
| "display_permission Confirm = lit ''CONFIRM''"

definition quoted :: "rstr \<Rightarrow> rstr" where
  "quoted s = [39] @ s @ [39]"

definition display_verb :: "rstr \<Rightarrow> rstr \<Rightarrow> rstr option \<Rightarrow> rstr" where
  "display_verb verb target dir =
     (case dir of
        Some wd \<Rightarrow> verb @ lit '' '' @ quoted target @ lit '' in '' @ quoted wd
      | None \<Rightarrow> verb @ lit '' '' @ quoted target)"

fun display_rule :: "rule \<Rightarrow> rstr" where
  "display_rule (RWrite w d) = display_verb (lit ''write'') w d"
| "display_rule (RRead r d) = display_verb (lit ''read'') r d"
| "display_rule (RExecute c d) = display_verb (lit ''execute'') c d"
| "display_rule (RFetch u d) = display_verb (lit ''fetch'') u d"

fun display_policy :: "policy \<Rightarrow> rstr" where
  "display_policy (Simple p r) = display_permission p @ lit '' '' @ display_rule r"
| "display_policy (All ps) = lit ''('' @ join (lit '' AND '') (map display_policy ps) @ lit '')''"
| "display_policy (Any ps) = lit ''('' @ join (lit '' OR '') (map display_policy ps) @ lit '')''"
| "display_policy (Not p) = lit ''NOT ('' @ display_policy p @ lit '')''"

section \<open>The derived order\<close>

text \<open>
  \<open>derive(PartialOrd, Ord)\<close> compares variants by position and fields left to right, strings and
  vectors lexicographically. A value is written as a token list, tag first and sequences closed by
  0; lexicographic comparison of the token lists is that order.
\<close>

definition str_tokens :: "rstr \<Rightarrow> int list" where
  "str_tokens s = map (\<lambda>c. if 0 \<le> c then c + 1 else c) s @ [0]"

fun opt_tokens :: "rstr option \<Rightarrow> int list" where
  "opt_tokens None = [0]"
| "opt_tokens (Some s) = 1 # str_tokens s"

fun permission_tag :: "permission \<Rightarrow> int" where
  "permission_tag Allow = 0"
| "permission_tag Deny = 1"
| "permission_tag Confirm = 2"

fun rule_tokens :: "rule \<Rightarrow> int list" where
  "rule_tokens (RWrite s d) = 0 # str_tokens s @ opt_tokens d"
| "rule_tokens (RRead s d) = 1 # str_tokens s @ opt_tokens d"
| "rule_tokens (RExecute s d) = 2 # str_tokens s @ opt_tokens d"
| "rule_tokens (RFetch s d) = 3 # str_tokens s @ opt_tokens d"

fun policy_tokens :: "policy \<Rightarrow> int list" where
  "policy_tokens (Simple p r) = 0 # permission_tag p # rule_tokens r"
| "policy_tokens (All ps) = 1 # concat (map (\<lambda>p. 1 # policy_tokens p) ps) @ [0]"
| "policy_tokens (Any ps) = 2 # concat (map (\<lambda>p. 1 # policy_tokens p) ps) @ [0]"
| "policy_tokens (Not p) = 3 # policy_tokens p"

lemma str_tokens_cancel: "str_tokens s @ xs = str_tokens t @ ys \<longleftrightarrow> s = t \<and> xs = ys"
proof (induction s arbitrary: t)
  case Nil
  then show ?case by (cases t) (auto simp: str_tokens_def)
next
  case (Cons c s)
  then show ?case by (cases t) (auto simp: str_tokens_def)
qed

lemma opt_tokens_cancel: "opt_tokens d @ xs = opt_tokens e @ ys \<longleftrightarrow> d = e \<and> xs = ys"
  by (cases d; cases e) (auto simp: str_tokens_cancel)

lemma rule_tokens_cancel: "rule_tokens r @ xs = rule_tokens q @ ys \<longleftrightarrow> r = q \<and> xs = ys"
  by (cases r; cases q) (auto simp: str_tokens_cancel opt_tokens_cancel)

lemma permission_tag_inj: "permission_tag p = permission_tag q \<longleftrightarrow> p = q"
  by (cases p; cases q) auto

lemma seq_tokens_cancel:
  assumes "\<And>p. p \<in> set ps \<Longrightarrow> (\<And>q xs ys. f p @ xs = f q @ ys \<longleftrightarrow> p = q \<and> xs = ys)"
  shows "concat (map (\<lambda>p. (1::int) # f p) ps) @ 0 # xs = concat (map (\<lambda>p. 1 # f p) qs) @ 0 # ys
    \<longleftrightarrow> ps = qs \<and> xs = ys"
  using assms
proof (induction ps arbitrary: qs)
  case Nil
  then show ?case by (cases qs) auto
next
  case (Cons p ps)
  show ?case
  proof (cases qs)
    case Nil
    then show ?thesis by simp
  next
    case (Cons q qs')
    then show ?thesis
      using Cons.IH [of qs'] Cons.prems by auto
  qed
qed

lemma policy_tokens_cancel: "policy_tokens p @ xs = policy_tokens q @ ys \<longleftrightarrow> p = q \<and> xs = ys"
proof (induction p arbitrary: q xs ys)
  case (Simple p r)
  then show ?case by (cases q) (auto simp: permission_tag_inj rule_tokens_cancel)
next
  case (All ps)
  then show ?case using seq_tokens_cancel [of ps policy_tokens] by (cases q) auto
next
  case (Any ps)
  then show ?case using seq_tokens_cancel [of ps policy_tokens] by (cases q) auto
next
  case (Not p)
  then show ?case by (cases q) auto
qed

lemma policy_tokens_inj: "policy_tokens p = policy_tokens q \<longleftrightarrow> p = q"
  using policy_tokens_cancel [of p "[]" q "[]"] by simp

instantiation policy :: linorder
begin

definition less_eq_policy :: "policy \<Rightarrow> policy \<Rightarrow> bool" where
  "less_eq_policy p q \<longleftrightarrow> policy_tokens p \<le> policy_tokens q"

definition less_policy :: "policy \<Rightarrow> policy \<Rightarrow> bool" where
  "less_policy p q \<longleftrightarrow> policy_tokens p < policy_tokens q"

instance
  by standard
    (auto simp: less_eq_policy_def less_policy_def policy_tokens_inj order.strict_iff_order)

end


section \<open>The configuration\<close>

text \<open>\<open>PolicyConfig { policies: BTreeSet<Policy> }\<close>: the list is sorted and without duplicates.\<close>

type_synonym policy_config = "policy list"

definition config_new :: policy_config where
  "config_new = []"

definition config_inv :: "policy_config \<Rightarrow> bool" where
  "config_inv cfg \<longleftrightarrow> sorted cfg \<and> distinct cfg"

definition add_policy :: "policy_config \<Rightarrow> policy \<Rightarrow> policy_config" where
  "add_policy cfg p = insort_insert p cfg"

definition config_eval :: "globber \<Rightarrow> policy_config \<Rightarrow> permission_operation \<Rightarrow> permission option list" where
  "config_eval glob cfg oper = map (policy_eval glob oper) cfg"

definition config_find_rules :: "globber \<Rightarrow> policy_config \<Rightarrow> permission_operation \<Rightarrow> rule list" where
  "config_find_rules glob cfg oper = concat (map (policy_find_rules glob oper) cfg)"

definition display_config :: "policy_config \<Rightarrow> rstr" where
  "display_config cfg =
     (if cfg = [] then lit ''No policies defined''
      else lit ''Policies:'' @ [10] @ join [10] (map (\<lambda>p. [8226, 32] @ display_policy p) cfg))"

section \<open>The engine\<close>

text \<open>The loop of \<open>evaluate_policy_set\<close>, with its \<open>last_allow\<close>.\<close>

fun evaluate_policy_set ::
  "globber \<Rightarrow> permission_operation \<Rightarrow> permission option \<Rightarrow> policy list \<Rightarrow> permission option" where
  "evaluate_policy_set glob oper last_allow [] = last_allow"
| "evaluate_policy_set glob oper last_allow (p # ps) =
     (case policy_eval glob oper p of
        Some permission \<Rightarrow>
          (case permission of
             Allow \<Rightarrow> evaluate_policy_set glob oper (Some permission) ps
           | _ \<Rightarrow> Some permission)
      | None \<Rightarrow> evaluate_policy_set glob oper last_allow ps)"

definition can_perform :: "globber \<Rightarrow> policy_config \<Rightarrow> permission_operation \<Rightarrow> permission" where
  "can_perform glob cfg oper =
     (let has_policies = cfg \<noteq> [] in
      if \<not> has_policies then Deny
      else case evaluate_policy_set glob oper None cfg of
          Some Deny \<Rightarrow> Deny
        | Some Confirm \<Rightarrow> Confirm
        | last_allow \<Rightarrow> (case last_allow of Some p \<Rightarrow> p | None \<Rightarrow> Deny))"

section \<open>Lemmas\<close>

lemma first_some_Cons [simp]: "first_some (x # xs) = (case x of Some y \<Rightarrow> Some y | None \<Rightarrow> first_some xs)"
  by (simp add: first_some_def split: option.split)

lemma first_some_Nil [simp]: "first_some [] = None"
  by (simp add: first_some_def)

lemma first_some_append: "first_some (xs @ ys) = (case first_some xs of Some y \<Rightarrow> Some y | None \<Rightarrow> first_some ys)"
  by (induction xs) (auto split: option.split)

lemma first_some_find_map: "first_some (map f xs) = find_map f xs"
  by (induction xs) (auto split: option.split)

lemma fold_append:
  "(\<And>p rs. p \<in> set ps \<Longrightarrow> f p rs = rs @ g p) \<Longrightarrow> fold f ps rules = rules @ concat (map g ps)"
  by (induction ps arbitrary: rules) auto

lemma collect_append: "collect_matching_rules glob oper p rules = rules @ collect_matching_rules glob oper p []"
proof (induction p arbitrary: rules)
  case (Simple permission r)
  show ?case by simp
next
  case (All ps)
  from fold_append [of ps "collect_matching_rules glob oper", OF All]
  have "fold (collect_matching_rules glob oper) ps rs =
      rs @ concat (map (\<lambda>p. collect_matching_rules glob oper p []) ps)" for rs .
  then show ?case by simp
next
  case (Any ps)
  from fold_append [of ps "collect_matching_rules glob oper", OF Any]
  have "fold (collect_matching_rules glob oper) ps rs =
      rs @ concat (map (\<lambda>p. collect_matching_rules glob oper p []) ps)" for rs .
  then show ?case by simp
next
  case (Not p)
  show ?case unfolding collect_matching_rules.simps by (rule Not)
qed

lemma fold_collect:
  "fold (collect_matching_rules glob oper) ps rules = rules @ concat (map (policy_find_rules glob oper) ps)"
  unfolding policy_find_rules_def by (rule fold_append) (rule collect_append)

lemma find_rules_simps [simp]:
  "policy_find_rules glob oper (Simple permission r) = (if rule_matches glob r oper then [r] else [])"
  "policy_find_rules glob oper (All ps) = concat (map (policy_find_rules glob oper) ps)"
  "policy_find_rules glob oper (Any ps) = concat (map (policy_find_rules glob oper) ps)"
  "policy_find_rules glob oper (Not p) = policy_find_rules glob oper p"
  unfolding policy_find_rules_def [of _ _ "Simple permission r"] policy_find_rules_def [of _ _ "All ps"]
    policy_find_rules_def [of _ _ "Any ps"] policy_find_rules_def [of _ _ "Not p"]
  by (simp_all add: fold_collect) (simp add: policy_find_rules_def)

lemma find_rules_Nil_iff: "policy_find_rules glob oper p = [] \<longleftrightarrow> policy_eval glob oper p = None"
  by (induction p) (auto simp: first_some_find_map find_map_None_iff split: option.split)

lemma config_inv_add: "config_inv cfg \<Longrightarrow> config_inv (add_policy cfg p) \<and> set (add_policy cfg p) = insert p (set cfg)"
  by (simp add: config_inv_def add_policy_def sorted_insort_insert distinct_insort_insert set_insort_insert)

lemma config_inv_adds:
  "config_inv cfg \<Longrightarrow> config_inv (foldl add_policy cfg ps) \<and> set (foldl add_policy cfg ps) = set cfg \<union> set ps"
proof (induction ps arbitrary: cfg)
  case (Cons p ps)
  then show ?case using config_inv_add [OF Cons.prems, of p] Cons.IH [of "add_policy cfg p"] by auto
qed simp

lemma evaluate_None_iff:
  "evaluate_policy_set glob oper acc ps = None \<longleftrightarrow> acc = None \<and> list_all (\<lambda>p. policy_eval glob oper p = None) ps"
  by (induction glob oper acc ps rule: evaluate_policy_set.induct) (auto split: option.splits permission.splits)

text \<open>The set is decided by its first refusal, or else by whether anything allows.\<close>

lemma evaluate_policy_set_eq:
  "evaluate_policy_set glob oper acc ps =
     (case find_map (\<lambda>p. case policy_eval glob oper p of Some Allow \<Rightarrow> None | r \<Rightarrow> r) ps of
        Some refusal \<Rightarrow> Some refusal
      | None \<Rightarrow> if list_ex (\<lambda>p. policy_eval glob oper p = Some Allow) ps then Some Allow else acc)"
  by (induction glob oper acc ps rule: evaluate_policy_set.induct) (auto split: option.splits permission.splits)


section \<open>Properties\<close>

lemma can_perform_refusal:
  "can_perform glob cfg oper =
     (case find_map (\<lambda>p. case policy_eval glob oper p of Some Allow \<Rightarrow> None | r \<Rightarrow> r) cfg of
        Some refusal \<Rightarrow> refusal
      | None \<Rightarrow> if list_ex (\<lambda>p. policy_eval glob oper p = Some Allow) cfg then Allow else Deny)"
  by (cases "cfg = []") (auto simp: can_perform_def evaluate_policy_set_eq Let_def
      split: option.split permission.split)

text \<open>When an operation is allowed.\<close>

lemma can_perform_Allow:
  "can_perform glob cfg oper = Allow \<longleftrightarrow>
     list_ex (\<lambda>p. policy_eval glob oper p = Some Allow) cfg
     \<and> list_all (\<lambda>p. policy_eval glob oper p \<noteq> Some Deny \<and> policy_eval glob oper p \<noteq> Some Confirm) cfg"
proof -
  let ?f = "\<lambda>p. case policy_eval glob oper p of Some Allow \<Rightarrow> None | r \<Rightarrow> r"
  have f_None: "?f p = None \<longleftrightarrow> policy_eval glob oper p \<noteq> Some Deny \<and> policy_eval glob oper p \<noteq> Some Confirm" for p
    by (auto split: option.split permission.split)
  show ?thesis
  proof (cases "find_map ?f cfg")
    case None
    then have "list_all (\<lambda>p. ?f p = None) cfg"
      by (simp add: find_map_None_iff list_all_iff)
    then have "list_all (\<lambda>p. policy_eval glob oper p \<noteq> Some Deny \<and> policy_eval glob oper p \<noteq> Some Confirm) cfg"
      by (simp only: f_None)
    then show ?thesis using None by (simp add: can_perform_refusal)
  next
    case (Some r)
    then obtain p where p: "p \<in> set cfg" "?f p = Some r" using find_map_SomeD by metis
    then have "r \<noteq> Allow" by (auto split: option.splits permission.splits)
    moreover have "\<not> list_all (\<lambda>p. policy_eval glob oper p \<noteq> Some Deny \<and> policy_eval glob oper p \<noteq> Some Confirm) cfg"
      using p f_None [of p] by (auto simp: list_all_iff)
    ultimately show ?thesis using Some by (simp add: can_perform_refusal)
  qed
qed

lemma first_refusal:
  assumes "policy_eval glob oper p = Some x" "x \<noteq> Allow"
  shows "list_all (\<lambda>q. policy_eval glob oper q = None \<or> policy_eval glob oper q = Some Allow) ps \<Longrightarrow>
    find_map (\<lambda>p. case policy_eval glob oper p of Some Allow \<Rightarrow> None | r \<Rightarrow> r) (ps @ p # qs) = Some x"
  using assms by (induction ps) (cases x; auto)+

text \<open>C27: Default deny: an operation is allowed exactly when some policy of the configuration allows it
  and no policy denies it or asks for confirmation. Without a matching policy it is denied; and when some policy refuses
  it, by a denial or a question, the first of these decides.\<close>

theorem can_perform_allow_iff:
  "(can_perform glob cfg oper = Allow \<longleftrightarrow>
     list_ex (\<lambda>p. policy_eval glob oper p = Some Allow) cfg
     \<and> list_all (\<lambda>p. policy_eval glob oper p \<noteq> Some Deny \<and> policy_eval glob oper p \<noteq> Some Confirm) cfg)
   \<and> (list_all (\<lambda>p. policy_eval glob oper p = None) cfg \<longrightarrow> can_perform glob cfg oper = Deny)
   \<and> (\<forall>ps p qs x. cfg = ps @ p # qs \<and> policy_eval glob oper p = Some x \<and> x \<noteq> Allow
        \<and> list_all (\<lambda>q. policy_eval glob oper q = None \<or> policy_eval glob oper q = Some Allow) ps
        \<longrightarrow> can_perform glob cfg oper = x)"
proof (intro conjI allI impI)
  assume none: "list_all (\<lambda>p. policy_eval glob oper p = None) cfg"
  then have "find_map (\<lambda>p. case policy_eval glob oper p of Some Allow \<Rightarrow> None | r \<Rightarrow> r) cfg = None"
    by (auto simp: find_map_None_iff list_all_iff)
  moreover have "\<not> list_ex (\<lambda>p. policy_eval glob oper p = Some Allow) cfg"
    using none by (auto simp: list_all_iff list_ex_iff)
  ultimately show "can_perform glob cfg oper = Deny" by (simp add: can_perform_refusal)
next
  fix ps p qs x
  assume "cfg = ps @ p # qs \<and> policy_eval glob oper p = Some x \<and> x \<noteq> Allow
        \<and> list_all (\<lambda>q. policy_eval glob oper q = None \<or> policy_eval glob oper q = Some Allow) ps"
  then have "find_map (\<lambda>p. case policy_eval glob oper p of Some Allow \<Rightarrow> None | r \<Rightarrow> r) cfg = Some x"
    using first_refusal by blast
  then show "can_perform glob cfg oper = x" by (simp add: can_perform_refusal)
qed (rule can_perform_Allow)

text \<open>The configuration is a set: policies added in any order and any number of times give the
  same configuration, sorted and without duplicates, hence the same decisions.\<close>

theorem add_policy_order_irrelevant:
  assumes "set ps = set qs"
  shows "foldl add_policy config_new ps = foldl add_policy config_new qs
    \<and> config_inv (foldl add_policy config_new ps)"
proof -
  have empty: "config_inv config_new" by (simp add: config_inv_def config_new_def)
  then show ?thesis
    using config_inv_adds [OF empty, of ps] config_inv_adds [OF empty, of qs] assms
    by (auto simp: config_inv_def config_new_def intro: sorted_distinct_set_unique)
qed

definition demo_deny :: policy where "demo_deny = Simple Deny (RWrite (lit ''x'') None)"
definition demo_allow :: policy where "demo_allow = Simple Allow (RWrite (lit ''x'') None)"

theorem add_policy_order_irrelevant_witness:
  "foldl add_policy config_new [demo_deny, demo_allow] = foldl add_policy config_new [demo_allow, demo_deny, demo_allow]
    \<and> config_inv (foldl add_policy config_new [demo_deny, demo_allow])"
  by (rule add_policy_order_irrelevant) auto

text \<open>The explanation is complete: a policy has matching rules exactly when it applies; so when no
  rule of the configuration matches, every evaluation is empty and the operation is denied.\<close>

theorem find_rules_complete:
  "(policy_find_rules glob oper p = [] \<longleftrightarrow> policy_eval glob oper p = None)
   \<and> (config_find_rules glob cfg oper \<noteq> [] \<or> can_perform glob cfg oper = Deny)"
proof (intro conjI find_rules_Nil_iff disjCI)
  assume refused: "can_perform glob cfg oper \<noteq> Deny"
  have "\<not> list_all (\<lambda>p. policy_eval glob oper p = None) cfg"
  proof
    assume "list_all (\<lambda>p. policy_eval glob oper p = None) cfg"
    then have "evaluate_policy_set glob oper None cfg = None"
      by (simp add: evaluate_None_iff)
    with refused show False by (simp add: can_perform_def Let_def split: if_splits)
  qed
  then show "config_find_rules glob cfg oper \<noteq> []"
    by (auto simp: config_find_rules_def list_all_iff find_rules_Nil_iff)
qed

text \<open>\<open>All\<close> decides by its first applicable member, exactly like \<open>Any\<close>: members after it can
  never make the result more restrictive.\<close>

theorem all_decides_by_first_match:
  assumes "policy_eval glob oper (All ps) = Some permission"
  shows "policy_eval glob oper (All (ps @ qs)) = Some permission
    \<and> policy_eval glob oper (Any (ps @ qs)) = Some permission"
  using assms by (simp add: first_some_append)

definition demo_glob :: globber where
  "demo_glob pat = Some (\<lambda>s. s = pat)"

theorem can_perform_allow_iff_witness:
  "can_perform demo_glob [demo_allow, demo_deny] (OpWrite (lit ''x'') [] []) = Deny
   \<and> can_perform demo_glob [demo_allow, demo_deny] (OpWrite (lit ''y'') [] []) = Deny"
proof -
  have "policy_eval demo_glob (OpWrite (lit ''x'') [] []) demo_allow = Some Allow"
    "policy_eval demo_glob (OpWrite (lit ''x'') [] []) demo_deny = Some Deny"
    "policy_eval demo_glob (OpWrite (lit ''y'') [] []) demo_allow = None"
    "policy_eval demo_glob (OpWrite (lit ''y'') [] []) demo_deny = None"
    by code_simp+
  then show ?thesis
    using can_perform_allow_iff [of demo_glob "[demo_allow, demo_deny]" "OpWrite (lit ''x'') [] []", THEN conjunct2, THEN conjunct2,
        rule_format, of "[demo_allow]" demo_deny "[]" Deny]
      can_perform_allow_iff [of demo_glob "[demo_allow, demo_deny]" "OpWrite (lit ''y'') [] []", THEN conjunct2, THEN conjunct1]
    by simp
qed

theorem all_decides_by_first_match_witness:
  "policy_eval demo_glob (OpWrite (lit ''x'') [] []) (All ([demo_allow] @ [demo_deny])) = Some Allow
   \<and> policy_eval demo_glob (OpWrite (lit ''x'') [] []) (Any ([demo_allow] @ [demo_deny])) = Some Allow"
  by (rule all_decides_by_first_match) code_simp

text \<open>The order puts simple policies first, allowing before denying before confirming ones.\<close>

fun is_simple :: "policy \<Rightarrow> bool" where
  "is_simple (Simple _ _) = True"
| "is_simple _ = False"

lemma sorted_first_refusal:
  assumes "sorted cfg" "list_all is_simple cfg"
  shows "find_map (\<lambda>p. case policy_eval glob oper p of Some Allow \<Rightarrow> None | r \<Rightarrow> r) cfg =
     (if list_ex (\<lambda>p. policy_eval glob oper p = Some Deny) cfg then Some Deny
      else if list_ex (\<lambda>p. policy_eval glob oper p = Some Confirm) cfg then Some Confirm else None)"
  using assms
proof (induction cfg)
  case Nil
  then show ?case by simp
next
  case (Cons p cfg)
  then obtain perm r where p: "p = Simple perm r" by (cases p) auto
  have later: "perm = Confirm \<Longrightarrow> q \<in> set cfg \<Longrightarrow> policy_eval glob oper q \<noteq> Some Deny" for q
  proof -
    assume a: "perm = Confirm" "q \<in> set cfg"
    then obtain perm' r' where q: "q = Simple perm' r'"
      using Cons.prems by (cases q) (auto simp: list_all_iff)
    have "p \<le> q" using Cons.prems a by simp
    then have "perm' = Confirm"
      using a p q by (cases perm') (simp_all add: less_eq_policy_def)
    then show ?thesis using q by simp
  qed
  show ?case
    using Cons p later by (cases perm) (auto simp: list_ex_iff)
qed

text \<open>Among simple policies the most restrictive matching one wins, whatever the order they were
  added in: deny over confirm over allow over the default.\<close>

theorem simple_policies_most_restrictive:
  assumes "list_all is_simple ps"
  shows "can_perform glob (foldl add_policy config_new ps) oper =
    (if list_ex (\<lambda>p. policy_eval glob oper p = Some Deny) ps then Deny
     else if list_ex (\<lambda>p. policy_eval glob oper p = Some Confirm) ps then Confirm
     else if list_ex (\<lambda>p. policy_eval glob oper p = Some Allow) ps then Allow
     else Deny)"
proof -
  have empty: "config_inv config_new" by (simp add: config_inv_def config_new_def)
  let ?cfg = "foldl add_policy config_new ps"
  have cfg: "sorted ?cfg" "set ?cfg = set ps"
    using config_inv_adds [OF empty, of ps] by (auto simp: config_inv_def config_new_def)
  have same: "list_ex P ?cfg = list_ex P ps" "list_all P ?cfg = list_all P ps" for P
    using cfg by (auto simp: list_ex_iff list_all_iff)
  show ?thesis
    using sorted_first_refusal [OF cfg(1), of glob oper] assms by (simp add: can_perform_refusal same)
qed

theorem simple_policies_most_restrictive_witness:
  "can_perform demo_glob (foldl add_policy config_new [demo_allow, demo_deny]) (OpWrite (lit ''x'') [] []) =
    (if list_ex (\<lambda>p. policy_eval demo_glob (OpWrite (lit ''x'') [] []) p = Some Deny) [demo_allow, demo_deny] then Deny
     else if list_ex (\<lambda>p. policy_eval demo_glob (OpWrite (lit ''x'') [] []) p = Some Confirm) [demo_allow, demo_deny] then Confirm
     else if list_ex (\<lambda>p. policy_eval demo_glob (OpWrite (lit ''x'') [] []) p = Some Allow) [demo_allow, demo_deny] then Allow
     else Deny)"
  by (rule simple_policies_most_restrictive) code_simp

end
