(* ===== verification/Doom_Loop.thy ===== *)
theory Doom_Loop
  imports Chat_Context
begin

text \<open>
  \<open>forge_app/src/hooks/doom_loop.rs\<close>: the hook that looks for an agent repeating its tool calls
  (the same call, or a sequence of calls, over and over) and reminds it. The rendered reminder is
  the parameter \<open>render\<close>, which may fail.
\<close>

section \<open>The detector\<close>

text \<open>
  The \<open>while\<close> loop that walks back over complete chunks. The caller has excluded pattern length 0,
  for which it would not end; the guard \<open>0 < p\<close> says so.
\<close>

function back_loop :: "'a list \<Rightarrow> nat \<Rightarrow> 'a list \<Rightarrow> nat \<Rightarrow> nat \<Rightarrow> nat" where
  "back_loop sequence p pattern pos repetitions =
     (if 0 < p \<and> p \<le> pos
      then (case get_range sequence (pos - p) (pos - p + p) of
              None \<Rightarrow> repetitions
            | Some chunk \<Rightarrow>
                if chunk = pattern
                then back_loop sequence p pattern (pos - p) (repetitions + 1)
                else repetitions)
      else repetitions)"
  by auto

termination
  by (relation "measure (\<lambda>(sequence, p, pattern, pos, repetitions). pos)") auto

declare back_loop.simps [simp del]

text \<open>The part of \<open>count_recent_pattern_repetitions\<close> after the partial segment is dealt with.\<close>

definition count_complete :: "'a list \<Rightarrow> nat \<Rightarrow> nat \<Rightarrow> nat \<Rightarrow> nat" where
  "count_complete sequence p check_len repetitions =
     (if check_len < p then repetitions
      else let pattern_start = check_len - p
           in case get_range sequence pattern_start check_len of
                None \<Rightarrow> repetitions
              | Some pattern \<Rightarrow> back_loop sequence p pattern pattern_start (repetitions + 1))"

definition count_recent_pattern_repetitions :: "'a list \<Rightarrow> nat \<Rightarrow> nat" where
  "count_recent_pattern_repetitions sequence p =
     (if p = 0 \<or> length sequence < p then 0
      else let total_len = length sequence; partial_len = total_len mod p
           in if partial_len \<noteq> 0
              then if total_len < p + partial_len then 0
                   else let pattern_start = total_len - partial_len - p;
                            pattern_end = pattern_start + p;
                            partial_start = total_len - partial_len
                        in case get_range sequence pattern_start pattern_end of
                             None \<Rightarrow> 0
                           | Some pattern \<Rightarrow>
                               (case get_range sequence partial_start total_len of
                                  None \<Rightarrow> 0
                                | Some partial \<Rightarrow>
                                    (case get_range pattern 0 partial_len of
                                       None \<Rightarrow> 0
                                     | Some pattern_prefix \<Rightarrow>
                                         if partial = pattern_prefix
                                         then count_complete sequence p (total_len - partial_len) 1
                                         else 0))
              else count_complete sequence p total_len 0)"

text \<open>
  The loop over pattern lengths. An underflow of \<open>checked_sub\<close> returns \<open>None\<close> from the whole
  function (\<open>?\<close>); the product stays far below the 64-bit limit.
\<close>

fun check_lengths :: "nat \<Rightarrow> 'a list \<Rightarrow> nat list \<Rightarrow> (nat \<times> nat) option" where
  "check_lengths threshold sequence [] = None"
| "check_lengths threshold sequence (p # ps) =
     (let complete_repetitions = count_recent_pattern_repetitions sequence p
      in if threshold \<le> complete_repetitions
         then let pattern_offset = complete_repetitions * p
              in if length sequence < pattern_offset then None
                 else let pattern_start_idx = length sequence - pattern_offset
                      in if get_at sequence pattern_start_idx \<noteq> None
                         then Some (pattern_start_idx, complete_repetitions)
                         else check_lengths threshold sequence ps
         else check_lengths threshold sequence ps)"

definition check_repeating_pattern :: "nat \<Rightarrow> 'a list \<Rightarrow> (nat \<times> nat) option" where
  "check_repeating_pattern threshold sequence =
     (if sequence = [] then None
      else if length sequence < threshold then None
      else check_lengths threshold sequence [1..<length sequence])"

definition default_threshold :: nat where
  "default_threshold = 3"

section \<open>The hook\<close>

definition extract_assistant_messages :: "'v context_message list \<Rightarrow> 'v text_message list" where
  "extract_assistant_messages ms =
     List.map_filter (\<lambda>m. case m of
         CText t \<Rightarrow> if tm_role t = Assistant then Some t else None
       | _ \<Rightarrow> None) ms"

definition extract_tool_signatures :: "'v chat_context option \<Rightarrow> (rstr \<times> 'v tool_args) list" where
  "extract_tool_signatures context =
     (let assistant_messages = (case context of
          Some c \<Rightarrow> extract_assistant_messages (map me_message (ctx_messages c))
        | None \<Rightarrow> [])
      in map (\<lambda>call. (tc_name call, tc_arguments call))
           (concat (List.map_filter tm_tool_calls assistant_messages)))"

definition detect_from_conversation :: "nat \<Rightarrow> 'v chat_context option \<Rightarrow> nat option" where
  "detect_from_conversation threshold context =
     map_option snd (check_repeating_pattern threshold (extract_tool_signatures context))"

text \<open>\<open>EventHandle::handle\<close> on the conversation's context.\<close>

definition doom_loop_handle ::
  "(nat \<Rightarrow> 'e + rstr) \<Rightarrow> nat \<Rightarrow> 'v chat_context option \<Rightarrow> 'e + 'v chat_context option" where
  "doom_loop_handle render threshold context =
     (case detect_from_conversation threshold context of
        Some consecutive_calls \<Rightarrow>
          (case context of
             Some c \<Rightarrow>
               (case render consecutive_calls of
                  Inl err \<Rightarrow> Inl err
                | Inr content \<Rightarrow>
                    Inr (Some (c\<lparr>ctx_messages := ctx_messages c @ [entry_of (msg_user content None)]\<rparr>)))
           | None \<Rightarrow> Inr context)
      | None \<Rightarrow> Inr context)"

section \<open>Lemmas\<close>

lemma get_range_Some_iff: "get_range xs a b = Some ys \<longleftrightarrow> a \<le> b \<and> b \<le> length xs \<and> ys = take (b - a) (drop a xs)"
  by (auto simp: get_range_def)

lemma concat_replicate_snoc: "concat (replicate (Suc k) xs) = concat (replicate k xs) @ xs"
  by (induction k) simp_all

lemma length_concat_replicate: "length (concat (replicate k xs)) = k * length xs"
  by (induction k) simp_all

text \<open>Exactly how many chunks the backward walk counts.\<close>

lemma back_loop_exact:
  assumes "0 < p" "length pat = p"
    and "length pre < p \<or> drop (length pre - p) pre \<noteq> pat"
  shows "back_loop (pre @ concat (replicate k pat) @ rest) p pat (length pre + k * p) r = r + k"
proof (induction k arbitrary: rest r)
  case 0
  show ?case
  proof (cases "length pre < p")
    case True
    then show ?thesis by (subst back_loop.simps) simp
  next
    case False
    then have "get_range (pre @ rest) (length pre - p) (length pre - p + p) = Some (drop (length pre - p) pre)"
      by (simp add: get_range_Some_iff)
    with False assms show ?thesis by (subst back_loop.simps) simp
  qed
next
  case (Suc k)
  note shape = concat_replicate_snoc [of k pat]
  have pos: "length pre + Suc k * p - p = length pre + k * p" by simp
  have len: "length (concat (replicate k pat)) = k * p"
    using assms(2) by (simp add: length_concat_replicate)
  have "get_range (pre @ concat (replicate (Suc k) pat) @ rest) (length pre + k * p) (length pre + k * p + p)
      = Some pat"
    unfolding shape using assms(2) len by (simp add: get_range_Some_iff)
  then have "back_loop (pre @ concat (replicate (Suc k) pat) @ rest) p pat (length pre + Suc k * p) r
      = back_loop (pre @ concat (replicate (Suc k) pat) @ rest) p pat (length pre + k * p) (r + 1)"
    using assms(1) by (subst back_loop.simps) (simp add: pos)
  also have "\<dots> = r + 1 + k"
    using Suc.IH [of "pat @ rest" "r + 1"] unfolding shape by simp
  finally show ?case by simp
qed

lemma chunk_snoc:
  assumes "k * p \<le> m - p" "p \<le> m"
  shows "take (Suc k * p) (drop (m - Suc k * p) xs) =
    take (k * p) (drop (m - p - k * p) xs) @ take p (drop (m - p) xs)"
proof -
  have "take (k * p + p) (drop (m - p - k * p) xs) =
      take (k * p) (drop (m - p - k * p) xs) @ take p (drop (k * p) (drop (m - p - k * p) xs))"
    by (rule take_add)
  also have "drop (k * p) (drop (m - p - k * p) xs) = drop (m - p) xs"
    using assms by simp
  finally show ?thesis by (simp add: add.commute)
qed

lemma le_minus_mod: "0 < p \<Longrightarrow> p \<le> n \<Longrightarrow> p \<le> n - n mod (p :: nat)"
  by (metis div_greater_zero_iff minus_mod_eq_mult_div mult.right_neutral mult_le_mono2 Suc_leI One_nat_def)

text \<open>What a count means: that many chunks before the position equal the pattern.\<close>

lemma back_loop_sound:
  assumes "pos \<le> length sequence" "length pat = p" "0 < p"
  shows "\<exists>k. back_loop sequence p pat pos r = r + k \<and> k * p \<le> pos
    \<and> take (k * p) (drop (pos - k * p) sequence) = concat (replicate k pat)"
  using assms(1)
proof (induction pos arbitrary: r rule: less_induct)
  case (less pos)
  show ?case
  proof (cases "p \<le> pos \<and> get_range sequence (pos - p) (pos - p + p) = Some pat")
    case False
    then have "back_loop sequence p pat pos r = r"
      by (subst back_loop.simps) (auto split: option.split)
    then show ?thesis by (intro exI [of _ 0]) simp
  next
    case True
    then have step: "back_loop sequence p pat pos r = back_loop sequence p pat (pos - p) (r + 1)"
      using assms(3) by (simp only: back_loop.simps [of sequence p pat pos r] if_True
          conj_absorb option.case simp_thms if_P)
    have "pos - p < pos" "pos - p \<le> length sequence" using True assms(3) less.prems by auto
    from less.IH [OF this, of "r + 1"] obtain k where
      k: "back_loop sequence p pat (pos - p) (r + 1) = r + 1 + k" "k * p \<le> pos - p"
        "take (k * p) (drop (pos - p - k * p) sequence) = concat (replicate k pat)" by blast
    have chunk: "take p (drop (pos - p) sequence) = pat"
      using True by (simp add: get_range_Some_iff)
    have "take (Suc k * p) (drop (pos - Suc k * p) sequence) = concat (replicate (Suc k) pat)"
      using chunk_snoc [of k p pos sequence] k(2,3) chunk True by (simp only: concat_replicate_snoc)
    moreover have "Suc k * p \<le> pos" using k(2) conjunct1 [OF True] by simp
    ultimately show ?thesis using step k(1) by (intro exI [of _ "Suc k"]) simp
  qed
qed


text \<open>The counting function in closed form.\<close>

lemma count_repetitions_closed:
  "count_recent_pattern_repetitions sequence p =
     (let n = length sequence; q = n mod p in
      if p = 0 \<or> n < p then 0
      else if q = 0 then count_complete sequence p n 0
      else if take q (drop (n - q - p) sequence) = drop (n - q) sequence
        then count_complete sequence p (n - q) 1 else 0)"
proof (cases "p = 0 \<or> length sequence < p \<or> length sequence mod p = 0")
  case True
  then show ?thesis by (auto simp: count_recent_pattern_repetitions_def Let_def)
next
  case False
  define n where "n = length sequence"
  define q where "q = n mod p"
  have b: "0 < p" "p \<le> n" "q \<noteq> 0" using False by (auto simp: n_def q_def)
  then have q: "q < p" "p \<le> n - q"
    unfolding q_def by (auto simp: le_minus_mod)
  then have "\<not> n < p + q" by simp
  moreover have "n - q - p + p = n - q" using q by simp
  moreover have "take q (take p (drop (n - q - p) sequence)) = take q (drop (n - q - p) sequence)"
    using q by (simp add: min_def)
  ultimately show ?thesis
    using b q unfolding count_recent_pattern_repetitions_def Let_def n_def [symmetric] q_def [symmetric]
    by (auto simp: get_range_def n_def [symmetric])
qed

lemma count_complete_sound:
  assumes "0 < p" "m \<le> length sequence" "p \<le> m"
  shows "\<exists>k pat. count_complete sequence p m r = r + k \<and> 0 < k \<and> k * p \<le> m \<and> length pat = p
    \<and> take (k * p) (drop (m - k * p) sequence) = concat (replicate k pat)"
proof -
  define pat where "pat = take p (drop (m - p) sequence)"
  have pat: "get_range sequence (m - p) m = Some pat" "length pat = p"
    using assms by (simp_all add: get_range_Some_iff pat_def)
  obtain k where k: "back_loop sequence p pat (m - p) (r + 1) = r + 1 + k" "k * p \<le> m - p"
      "take (k * p) (drop (m - p - k * p) sequence) = concat (replicate k pat)"
    using back_loop_sound [of "m - p" sequence pat p "r + 1"] assms pat(2)
    by (meson diff_le_self le_trans)
  have "take (Suc k * p) (drop (m - Suc k * p) sequence) = concat (replicate (Suc k) pat)"
    using chunk_snoc [of k p m sequence] k(2,3) assms(3) by (simp only: concat_replicate_snoc pat_def)
  moreover have "count_complete sequence p m r = r + Suc k"
    using assms pat k(1) by (simp add: count_complete_def Let_def)
  moreover have "Suc k * p \<le> m" using k(2) assms by simp
  ultimately show ?thesis using pat(2) by blast
qed

text \<open>A list that consists of repetitions of a pattern and a last, possibly cut, one.\<close>

definition repeats :: "nat \<Rightarrow> 'a list \<Rightarrow> 'a list \<Rightarrow> bool" where
  "repeats k pat xs \<longleftrightarrow> (\<exists>q. 0 < q \<and> q \<le> length pat \<and> xs = concat (replicate k pat) @ take q pat)"

lemma count_repetitions_sound:
  assumes "count_recent_pattern_repetitions sequence p = r" "0 < r"
  shows "\<exists>pre suf pat. sequence = pre @ suf \<and> length pat = p \<and> repeats (r - 1) pat suf"
proof -
  let ?n = "length sequence"
  let ?q = "?n mod p"
  have p: "0 < p" "p \<le> ?n"
    using assms by (auto simp: count_repetitions_closed Let_def split: if_splits)
  show ?thesis
  proof (cases "?q = 0")
    case True
    with assms p have "count_complete sequence p ?n 0 = r"
      by (simp add: count_repetitions_closed Let_def)
    then obtain k pat where k: "r = k" "0 < k" "k * p \<le> ?n" "length pat = p"
        "take (k * p) (drop (?n - k * p) sequence) = concat (replicate k pat)"
      using count_complete_sound [of p ?n sequence 0] p by auto
    then have "drop (?n - k * p) sequence = concat (replicate k pat)" by simp
    then have "sequence = take (?n - k * p) sequence @ concat (replicate k pat)"
      by (metis append_take_drop_id)
    moreover obtain j where j: "k = Suc j" using k(2) by (cases k) auto
    ultimately have "sequence = take (?n - k * p) sequence @ (concat (replicate j pat) @ take p pat)"
      using k(4) by (simp only: concat_replicate_snoc) simp
    then show ?thesis
      using k p j unfolding repeats_def by (metis diff_Suc_1 order_refl)
  next
    case False
    have q: "?q < p" "p \<le> ?n - ?q"
      using p by (auto simp: le_minus_mod)
    from assms False p have partial: "take ?q (drop (?n - ?q - p) sequence) = drop (?n - ?q) sequence"
      and cnt: "count_complete sequence p (?n - ?q) 1 = r"
      by (auto simp: count_repetitions_closed Let_def split: if_splits)
    obtain k pat where k: "r = 1 + k" "0 < k" "k * p \<le> ?n - ?q" "length pat = p"
        "take (k * p) (drop (?n - ?q - k * p) sequence) = concat (replicate k pat)"
      using count_complete_sound [of p "?n - ?q" sequence 1] p q cnt by auto
    obtain j where j: "k = Suc j" using k(2) by (cases k) auto
    have body: "take (k * p) (drop (?n - ?q - k * p) sequence) @ drop (?n - ?q) sequence =
        drop (?n - ?q - k * p) sequence"
    proof -
      have "drop (?n - ?q) sequence = drop (k * p) (drop (?n - ?q - k * p) sequence)"
        using le_add_diff_inverse [OF k(3)] by (simp only: drop_drop)
      then show ?thesis by (simp only: append_take_drop_id)
    qed
    have "pat = take p (drop (j * p) (concat (replicate k pat)))"
      unfolding j concat_replicate_snoc using k(4) by (simp add: length_concat_replicate)
    also have "\<dots> = take p (drop (?n - ?q - p) sequence)"
    proof -
      have "k * p - j * p = p" "j * p + (?n - ?q - k * p) = ?n - ?q - p"
        using k(3) j by simp_all
      then show ?thesis
        unfolding k(5) [symmetric] by (simp only: drop_take drop_drop take_take min.idem)
    qed
    finally have "take ?q pat = take ?q (drop (?n - ?q - p) sequence)"
      using q by (metis min.absorb1 less_imp_le take_take)
    then have tail: "take ?q pat = drop (?n - ?q) sequence" using partial by simp
    have "sequence = take (?n - ?q - k * p) sequence @ (concat (replicate k pat) @ take ?q pat)"
      using body k(5) tail by (metis append_take_drop_id)
    moreover have "0 < ?q" "?q \<le> length pat" using False q k(4) by auto
    ultimately show ?thesis
      using k(1,4) unfolding repeats_def by (metis diff_add_inverse)
  qed
qed


lemma check_lengths_sound:
  "check_lengths th sequence ps = Some (i, r) \<Longrightarrow>
     \<exists>p \<in> set ps. count_recent_pattern_repetitions sequence p = r \<and> th \<le> r \<and> 0 < r
       \<and> r * p \<le> length sequence \<and> i = length sequence - r * p"
  by (induction ps) (auto simp: Let_def split: if_splits)

section \<open>Properties\<close>

text \<open>A reported loop is one: when \<open>r\<close> repetitions are reported the threshold is met and the
  history of calls ends in \<open>r - 1\<close> full copies of some pattern followed by a further, possibly
  incomplete, copy.\<close>

theorem doom_loop_sound:
  assumes "check_repeating_pattern threshold sequence = Some (i, r)"
  shows "threshold \<le> r \<and> (\<exists>pre suf pat. sequence = pre @ suf \<and> pat \<noteq> [] \<and> repeats (r - 1) pat suf)"
proof -
  from assms have "check_lengths threshold sequence [1..<length sequence] = Some (i, r)"
    by (auto simp: check_repeating_pattern_def split: if_splits)
  from check_lengths_sound [OF this] obtain p where
    p: "1 \<le> p" "count_recent_pattern_repetitions sequence p = r" "threshold \<le> r" "0 < r" by auto
  from count_repetitions_sound [OF p(2,4)] obtain pre suf pat where
    "sequence = pre @ suf" "length pat = p" "repeats (r - 1) pat suf" by blast
  with p show ?thesis by (intro conjI exI [of _ pre] exI [of _ suf] exI [of _ pat]) auto
qed

theorem doom_loop_sound_witness:
  "3 \<le> (3::nat) \<and> (\<exists>pre suf pat. [9, 1, 2, 1, 2, 1, 2 :: int] = pre @ suf \<and> pat \<noteq> [] \<and> repeats (3 - 1) pat suf)"
  by (rule doom_loop_sound [of 3 "[9, 1, 2, 1, 2, 1, 2]" 1]) code_simp

lemma count_single:
  assumes "0 < n" "pre = [] \<or> last pre \<noteq> x"
  shows "count_recent_pattern_repetitions (pre @ replicate n x) 1 = n"
proof -
  obtain k where k: "n = Suc k" using assms(1) by (cases n) auto
  have seq: "pre @ replicate n x = pre @ concat (replicate k [x]) @ [x]"
    unfolding k by (simp add: concat_replicate_single replicate_append_same)
  have "get_range (pre @ replicate n x) (length (pre @ replicate n x) - 1) (length (pre @ replicate n x)) = Some [x]"
    unfolding seq by (simp add: get_range_Some_iff concat_replicate_single)
  moreover have "back_loop (pre @ replicate n x) 1 [x] (length (pre @ replicate n x) - 1) 1 = n"
  proof -
    have "length pre < 1 \<or> drop (length pre - 1) pre \<noteq> [x]"
      using assms(2) by (cases pre rule: rev_cases) auto
    from back_loop_exact [OF _ _ this, of k "[x]" 1] show ?thesis
      unfolding seq by (simp add: k length_concat_replicate)
  qed
  moreover have "1 \<le> length (pre @ replicate n x)" using assms(1) by simp
  ultimately show ?thesis
    unfolding count_recent_pattern_repetitions_def count_complete_def Let_def by simp
qed


text \<open>A call repeated to the end is always caught: if the last \<open>n\<close> calls are the same, the one
  before differs and \<open>n\<close> reaches the threshold, exactly those \<open>n\<close> repetitions are reported.\<close>

theorem identical_calls_detected:
  assumes "threshold \<le> n" and "0 < n" and "pre = [] \<or> last pre \<noteq> x" and "2 \<le> length pre + n"
  shows "check_repeating_pattern threshold (pre @ replicate n x) = Some (length pre, n)"
proof -
  let ?s = "pre @ replicate n x"
  have "[1..<length ?s] = 1 # [2..<length ?s]"
    using assms(4) by (simp add: upt_conv_Cons numeral_2_eq_2)
  moreover have "get_at ?s (length pre) \<noteq> None" using assms(2) by (simp add: get_at_def)
  ultimately show ?thesis
    using assms count_single [OF assms(2,3)]
    by (simp add: check_repeating_pattern_def Let_def)
qed

theorem identical_calls_detected_witness:
  "check_repeating_pattern 3 ([1, 2, 1] @ replicate 4 (5 :: int)) = Some (length [1, 2, 1 :: int], 4)"
  by (rule identical_calls_detected) simp_all

lemma drop_snoc_pairs: "drop (2 * n) (concat (replicate n [a, b]) @ xs) = xs"
  by (induction n) simp_all

lemma length_pairs: "length (concat (replicate n [a, b])) = 2 * n"
  by (simp add: length_concat_replicate)

lemma get_range_pairs:
  "get_range (concat (replicate (Suc n) [a, b]) @ xs) (2 * n) (2 * n + 2) = Some [a, b]"
  unfolding concat_replicate_snoc append_assoc
  by (simp add: get_range_Some_iff length_pairs drop_snoc_pairs)

lemma back_loop_pairs: "back_loop (concat (replicate n [a, b]) @ rest) 2 [a, b] (2 * n) r = r + n"
  using back_loop_exact [of 2 "[a, b]" "[]" n rest r] by (simp add: mult.commute)

lemma count_one_pairs:
  assumes "a \<noteq> b"
  shows "count_recent_pattern_repetitions (concat (replicate (Suc n) [a, b]) @ [a]) 1 = 1"
proof -
  have "last (concat (replicate (Suc n) [a, b])) \<noteq> a"
    using assms by (simp only: concat_replicate_snoc last_appendR) simp
  from count_single [OF _ disjI2 [OF this], of 1] show ?thesis by simp
qed

lemma count_two_pairs:
  "count_recent_pattern_repetitions (concat (replicate (Suc n) [a, b]) @ [a]) 2 = n + 2"
proof -
  let ?s = "concat (replicate (Suc n) [a, b]) @ [a]"
  have len: "length ?s = 2 * n + 3" by (simp add: length_pairs del: replicate.simps)
  have "(2 * n + 3) mod 2 = (1 :: nat)" by presburger
  moreover have "drop (2 * n) ?s = [a, b, a]"
    unfolding concat_replicate_snoc append_assoc drop_snoc_pairs by simp
  moreover have "drop (2 * n + 2) ?s = [a]"
    using drop_snoc_pairs [of "Suc n" a b "[a]"] by simp
  moreover have "count_complete ?s 2 (2 * n + 2) 1 = n + 2"
    using get_range_pairs [of n a b "[a]"] back_loop_pairs [of n a b "[a, b] @ [a]" "Suc (Suc 0)"]
    unfolding count_complete_def concat_replicate_snoc append_assoc by simp
  ultimately show ?thesis
    unfolding count_repetitions_closed Let_def len by simp
qed

lemma upt_one_two: "3 \<le> m \<Longrightarrow> [1..<m] = 1 # 2 # [3..<m]"
  by (simp add: upt_conv_Cons eval_nat_numeral)

text \<open>An alternation that fills the history is missed whenever its length is odd: with threshold 3,
  \<open>a b a b ... a\<close> is not reported, however long it is, because the trailing half pattern counts as a
  repetition and the computed start underflows.\<close>

theorem odd_alternation_undetected:
  assumes "a \<noteq> b"
  shows "check_repeating_pattern 3 (concat (replicate (n + 2) [a, b]) @ [a]) = None"
proof -
  let ?s = "concat (replicate (n + 2) [a, b]) @ [a]"
  have len: "length ?s = 2 * n + 5" by (simp add: length_pairs)
  have "[1..<2 * n + 5] = 1 # 2 # [3..<2 * n + 5]"
    by (rule upt_one_two) simp
  moreover have "count_recent_pattern_repetitions ?s 1 = 1"
    using count_one_pairs [OF assms, of "Suc n"] by (simp add: numeral_2_eq_2)
  moreover have "count_recent_pattern_repetitions ?s 2 = n + 3"
    using count_two_pairs [of "Suc n" a b] by (simp add: numeral_2_eq_2 numeral_3_eq_3)
  moreover have "?s \<noteq> []" "\<not> length ?s < 3" "length ?s < (n + 3) * 2"
    unfolding len by simp_all
  ultimately show ?thesis
    unfolding check_repeating_pattern_def len by (simp add: length_pairs)
qed

theorem odd_alternation_undetected_witness:
  "check_repeating_pattern 3 (concat (replicate (1 + 2) [1, 2 :: int]) @ [1]) = None"
  by (rule odd_alternation_undetected) simp

text \<open>The hook only ever appends one reminder, in the user's name, and only when a loop is
  detected; it fails only when the reminder cannot be rendered.\<close>

theorem doom_loop_handle_appends:
  "doom_loop_handle render threshold (Some c) =
     (case detect_from_conversation threshold (Some c) of
        None \<Rightarrow> Inr (Some c)
      | Some n \<Rightarrow> (case render n of
            Inl err \<Rightarrow> Inl err
          | Inr content \<Rightarrow> Inr (Some (add_message c (msg_user content None)))))
   \<and> doom_loop_handle render threshold None = Inr None"
  by (auto simp: doom_loop_handle_def add_message_def detect_from_conversation_def
      extract_tool_signatures_def check_repeating_pattern_def add_entry_def List.map_filter_def
      split: option.split sum.split)

end
