(* ===== verification/Resilience_Contracts.thy ===== *)
theory Resilience_Contracts
  imports Prelude "HOL-Library.Word"
begin

text \<open>
  The contracts of the two resilience layers (\<open>forge_infra/src/resilience.rs\<close> and
  \<open>forge_app/src/resilience.rs\<close>): what a circuit breaker and a bounded set of permits promise their
  callers, as locales over the operations. Times are milliseconds of the monotonic clock.
\<close>

type_synonym u32 = "32 word"

lemma unat_inc: "x < (n :: u32) \<Longrightarrow> unat (x + 1) = Suc (unat x)"
  using unsigned_less [of n, where ?'a = nat] by (simp add: unat_word_ariths word_less_nat_alt)

section \<open>Circuit breakers\<close>

text \<open>A caller that asks for admission at each of the given times.\<close>

fun attempts :: "(nat \<Rightarrow> 's \<Rightarrow> bool \<times> 's) \<Rightarrow> nat list \<Rightarrow> 's \<Rightarrow> bool list \<times> 's" where
  "attempts allow [] s = ([], s)"
| "attempts allow (now # ts) s =
     (let (ok, s) = allow now s; (oks, s) = attempts allow ts s in (ok # oks, s))"

text \<open>A run of consecutive failures reported at the given times.\<close>

definition failures :: "(nat \<Rightarrow> 's \<Rightarrow> 's) \<Rightarrow> nat list \<Rightarrow> 's \<Rightarrow> 's" where
  "failures failure ts s = fold failure ts s"

locale circuit_breaker =
  fixes allow :: "nat \<Rightarrow> 's \<Rightarrow> bool \<times> 's"
    and success :: "nat \<Rightarrow> 's \<Rightarrow> 's"
    and failure :: "nat \<Rightarrow> 's \<Rightarrow> 's"
    and inv :: "'s \<Rightarrow> bool"
    and closed :: "'s \<Rightarrow> bool"
    and opened :: "'s \<Rightarrow> nat option"
    and count :: "'s \<Rightarrow> nat"
    and threshold :: "'s \<Rightarrow> nat"
    and timeout :: "'s \<Rightarrow> nat"
  assumes closed_allows: "inv s \<Longrightarrow> closed s \<Longrightarrow> allow now s = (True, s)"
    and open_blocks: "inv s \<Longrightarrow> opened s = Some t \<Longrightarrow> t \<le> now \<Longrightarrow> now < t + timeout s \<Longrightarrow> allow now s = (False, s)"
    and open_probes: "inv s \<Longrightarrow> opened s = Some t \<Longrightarrow> t + timeout s \<le> now \<Longrightarrow> fst (allow now s)"
    and success_closes: "inv s \<Longrightarrow> inv (success now s) \<and> closed (success now s) \<and> count (success now s) = 0
      \<and> threshold (success now s) = threshold s \<and> timeout (success now s) = timeout s"
    and failure_counts: "inv s \<Longrightarrow> closed s \<Longrightarrow> count s < threshold s \<Longrightarrow> inv (failure now s)
      \<and> count (failure now s) = Suc (count s)
      \<and> threshold (failure now s) = threshold s \<and> timeout (failure now s) = timeout s
      \<and> (Suc (count s) < threshold s \<longrightarrow> closed (failure now s))
      \<and> (Suc (count s) = threshold s \<longrightarrow> opened (failure now s) = Some now)"
begin

lemma blocked:
  "inv s \<Longrightarrow> opened s = Some t \<Longrightarrow> list_all (\<lambda>now. t \<le> now \<and> now < t + timeout s) ts \<Longrightarrow>
     attempts allow ts s = (replicate (length ts) False, s)"
  by (induction ts) (simp_all add: open_blocks)

lemma failures_below:
  "inv s \<Longrightarrow> closed s \<Longrightarrow> count s + length ts < threshold s \<Longrightarrow>
     inv (failures failure ts s) \<and> closed (failures failure ts s)
     \<and> count (failures failure ts s) = count s + length ts
     \<and> threshold (failures failure ts s) = threshold s \<and> timeout (failures failure ts s) = timeout s"
proof (induction ts arbitrary: s)
  case Nil
  then show ?case by (simp add: failures_def)
next
  case (Cons t ts)
  then show ?case
    using failure_counts [of s t] Cons.IH [of "failure t s"] by (simp add: failures_def)
qed

text \<open>Exactly the threshold-th consecutive failure opens the breaker, at its time.\<close>

lemma opens_at_threshold:
  assumes "inv s" "closed s" "count s + length ts + 1 = threshold s"
  shows "closed (failures failure ts s) \<and> opened (failures failure (ts @ [t]) s) = Some t
    \<and> inv (failures failure (ts @ [t]) s) \<and> timeout (failures failure (ts @ [t]) s) = timeout s"
  using failures_below [of s ts] failure_counts [of "failures failure ts s" t] assms
  by (simp add: failures_def)

lemma outage:
  assumes "inv s" "closed s" "count s + length ts + 1 = threshold s"
    and "list_all (\<lambda>now. t \<le> now \<and> now < t + timeout s) later"
  shows "fst (attempts allow later (failures failure (ts @ [t]) s)) = replicate (length later) False"
  using opens_at_threshold [OF assms(1-3), of t] assms(4) blocked by simp

end

section \<open>Bounded permits\<close>

locale bounded_permits =
  fixes acquire :: "'s \<Rightarrow> 's option"
    and release :: "'s \<Rightarrow> 's"
    and used :: "'s \<Rightarrow> nat"
    and cap :: "'s \<Rightarrow> nat"
  assumes acquire_Some: "acquire s = Some s' \<Longrightarrow> used s < cap s \<and> used s' = Suc (used s) \<and> cap s' = cap s"
    and acquire_None: "acquire s = None \<Longrightarrow> cap s \<le> used s"
    and release_used: "0 < used s \<Longrightarrow> used (release s) = used s - 1 \<and> cap (release s) = cap s"
begin

lemma acquire_iff: "used s \<le> cap s \<Longrightarrow> acquire s = None \<longleftrightarrow> used s = cap s"
  using acquire_None [of s] acquire_Some [of s] by (cases "acquire s") auto

lemma acquire_keeps_bound: "used s \<le> cap s \<Longrightarrow> acquire s = Some s' \<Longrightarrow> used s' \<le> cap s'"
  using acquire_Some [of s s'] by auto

lemma acquire_release: "acquire s = Some s' \<Longrightarrow> used (release s') = used s \<and> cap (release s') = cap s"
  using acquire_Some [of s s'] release_used [of s'] by auto

end

end
