(* ===== verification/Infra_Resilience.thy ===== *)
theory Infra_Resilience
  imports Resilience_Contracts
begin

text \<open>
  \<open>forge_infra/src/resilience.rs\<close>, the mutex-guarded circuit breaker of the MCP client, with the
  interleavings of its concurrent calls as a step relation, and \<open>forge_infra/src/backoff.rs\<close>. The
  file's \<open>Bulkhead\<close> is a thin wrapper of tokio's semaphore and is not modelled.
\<close>

section \<open>The breaker\<close>

datatype breaker_state = Closed | Open nat | HalfOpen

record breaker_config =
  bc_failure_threshold :: u32
  bc_reset_timeout :: nat
  bc_name :: rstr

definition breaker_config_default :: breaker_config where
  "breaker_config_default =
     \<lparr>bc_failure_threshold = 5, bc_reset_timeout = 30000, bc_name = lit ''unnamed''\<rparr>"

record breaker_inner =
  br_state :: breaker_state
  br_failures :: u32
  br_config :: breaker_config

definition inner_new :: "breaker_config \<Rightarrow> breaker_inner" where
  "inner_new config = \<lparr>br_state = Closed, br_failures = 0, br_config = config\<rparr>"

definition allow_call :: "nat \<Rightarrow> breaker_inner \<Rightarrow> bool \<times> breaker_inner" where
  "allow_call now b =
     (case br_state b of
        Closed \<Rightarrow> (True, b)
      | HalfOpen \<Rightarrow> (False, b)
      | Open since \<Rightarrow>
          if bc_reset_timeout (br_config b) \<le> now - since
          then (True, b\<lparr>br_state := HalfOpen\<rparr>)
          else (False, b))"

definition on_success :: "breaker_inner \<Rightarrow> breaker_inner" where
  "on_success b = b\<lparr>br_state := Closed, br_failures := 0\<rparr>"

definition on_failure :: "nat \<Rightarrow> breaker_inner \<Rightarrow> breaker_inner" where
  "on_failure now b =
     (let b = b\<lparr>br_failures := br_failures b + 1\<rparr>;
          threshold = bc_failure_threshold (br_config b)
      in case br_state b of
           Closed \<Rightarrow> if threshold \<le> br_failures b then b\<lparr>br_state := Open now\<rparr> else b
         | HalfOpen \<Rightarrow> b\<lparr>br_state := Open now\<rparr>
         | _ \<Rightarrow> b)"

text \<open>
  \<open>CircuitBreaker::call\<close> without interleaving: admission, the wrapped call, which takes from
  \<open>t0\<close> to \<open>t1\<close> and gives \<open>result\<close>, and the report.
\<close>

datatype 'e call_error = CircuitOpen rstr | Inner 'e

definition breaker_call ::
  "nat \<Rightarrow> nat \<Rightarrow> 'e + 'a \<Rightarrow> breaker_inner \<Rightarrow> ('e call_error + 'a) \<times> breaker_inner" where
  "breaker_call t0 t1 result b =
     (let (ok, b) = allow_call t0 b
      in if \<not> ok then (Inl (CircuitOpen (bc_name (br_config b))), b)
         else case result of
             Inr v \<Rightarrow> (Inr v, on_success b)
           | Inl e \<Rightarrow> (Inl (Inner e), on_failure t1 b))"

definition state_name :: "breaker_inner \<Rightarrow> rstr" where
  "state_name b = (case br_state b of
     Closed \<Rightarrow> lit ''closed'' | Open _ \<Rightarrow> lit ''open'' | HalfOpen \<Rightarrow> lit ''half-open'')"

section \<open>The contract\<close>

definition opened_at :: "breaker_inner \<Rightarrow> nat option" where
  "opened_at b = (case br_state b of Open t \<Rightarrow> Some t | _ \<Rightarrow> None)"

lemma inc_le_iff: "x < (n :: u32) \<Longrightarrow> n \<le> x + 1 \<longleftrightarrow> unat n = Suc (unat x)"
  using unat_inc [of x n] by (auto simp: word_le_nat_alt word_less_nat_alt)

interpretation infra: circuit_breaker allow_call "\<lambda>now. on_success" on_failure "\<lambda>b. True"
    "\<lambda>b. br_state b = Closed" opened_at "\<lambda>b. unat (br_failures b)"
    "\<lambda>b. unat (bc_failure_threshold (br_config b))" "\<lambda>b. bc_reset_timeout (br_config b)"
proof unfold_locales
  fix s :: breaker_inner and now t
  show "allow_call now s = (True, s)" if "br_state s = Closed"
    using that by (simp add: allow_call_def)
  show "allow_call now s = (False, s)" if "opened_at s = Some t" "t \<le> now" "now < t + bc_reset_timeout (br_config s)"
    using that by (cases "br_state s") (auto simp: allow_call_def opened_at_def)
  show "fst (allow_call now s)" if "opened_at s = Some t" "t + bc_reset_timeout (br_config s) \<le> now"
    using that by (cases "br_state s") (auto simp: allow_call_def opened_at_def)
  show "True \<and> br_state (on_success s) = Closed \<and> unat (br_failures (on_success s)) = 0 \<and>
      unat (bc_failure_threshold (br_config (on_success s))) = unat (bc_failure_threshold (br_config s)) \<and>
      bc_reset_timeout (br_config (on_success s)) = bc_reset_timeout (br_config s)"
    by (simp add: on_success_def)
  assume "br_state s = Closed" "unat (br_failures s) < unat (bc_failure_threshold (br_config s))"
  then show "True \<and> unat (br_failures (on_failure now s)) = Suc (unat (br_failures s)) \<and>
      unat (bc_failure_threshold (br_config (on_failure now s))) = unat (bc_failure_threshold (br_config s)) \<and>
      bc_reset_timeout (br_config (on_failure now s)) = bc_reset_timeout (br_config s) \<and>
      (Suc (unat (br_failures s)) < unat (bc_failure_threshold (br_config s)) \<longrightarrow>
        br_state (on_failure now s) = Closed) \<and>
      (Suc (unat (br_failures s)) = unat (bc_failure_threshold (br_config s)) \<longrightarrow>
        opened_at (on_failure now s) = Some now)"
    using inc_le_iff [of "br_failures s" "bc_failure_threshold (br_config s)"]
      unat_inc [of "br_failures s" "bc_failure_threshold (br_config s)"]
    by (auto simp: on_failure_def opened_at_def word_less_nat_alt)
qed


section \<open>Concurrent calls\<close>

text \<open>
  The breaker shared by concurrent tasks. Each critical section (admission, report) is one step
  under the mutex; between them a call is in flight, and its future may finish or be dropped by
  its owner, in which case nothing is reported.
\<close>

record breaker_system =
  sy_inner :: breaker_inner
  sy_now :: nat
  sy_in_flight :: nat

datatype event = Admit | Reject | FinishOk | FinishErr | Dropped | Tick nat

inductive breaker_step :: "breaker_system \<Rightarrow> event \<Rightarrow> breaker_system \<Rightarrow> bool" where
  admit: "allow_call (sy_now s) (sy_inner s) = (True, b) \<Longrightarrow>
    breaker_step s Admit (s\<lparr>sy_inner := b, sy_in_flight := Suc (sy_in_flight s)\<rparr>)"
| reject: "allow_call (sy_now s) (sy_inner s) = (False, b) \<Longrightarrow>
    breaker_step s Reject (s\<lparr>sy_inner := b\<rparr>)"
| finish_ok: "sy_in_flight s = Suc n \<Longrightarrow>
    breaker_step s FinishOk (s\<lparr>sy_inner := on_success (sy_inner s), sy_in_flight := n\<rparr>)"
| finish_err: "sy_in_flight s = Suc n \<Longrightarrow>
    breaker_step s FinishErr (s\<lparr>sy_inner := on_failure (sy_now s) (sy_inner s), sy_in_flight := n\<rparr>)"
| dropped: "sy_in_flight s = Suc n \<Longrightarrow> breaker_step s Dropped (s\<lparr>sy_in_flight := n\<rparr>)"
| tick: "breaker_step s (Tick d) (s\<lparr>sy_now := sy_now s + d\<rparr>)"

inductive breaker_run :: "breaker_system \<Rightarrow> event list \<Rightarrow> breaker_system \<Rightarrow> bool" where
  stop: "breaker_run s [] s"
| more: "breaker_step s e s' \<Longrightarrow> breaker_run s' es s'' \<Longrightarrow> breaker_run s (e # es) s''"

inductive_simps breaker_step_simps:
  "breaker_step s Admit s'" "breaker_step s Reject s'" "breaker_step s FinishOk s'"
  "breaker_step s FinishErr s'" "breaker_step s Dropped s'" "breaker_step s (Tick d) s'"

inductive_simps breaker_run_simps:
  "breaker_run s [] s'" "breaker_run s (e # es) s'"

lemma allow_call_simps:
  "allow_call now b = (True, b') \<longleftrightarrow>
     br_state b = Closed \<and> b' = b
     \<or> (\<exists>t. br_state b = Open t \<and> bc_reset_timeout (br_config b) \<le> now - t \<and> b' = b\<lparr>br_state := HalfOpen\<rparr>)"
  "allow_call now b = (False, b') \<longleftrightarrow>
     b' = b \<and> (br_state b = HalfOpen
       \<or> (\<exists>t. br_state b = Open t \<and> now - t < bc_reset_timeout (br_config b)))"
  by (cases "br_state b"; auto simp: allow_call_def)+

lemmas breaker_simps = breaker_step_simps allow_call_simps on_success_def on_failure_def Let_def

lemma breaker_step_now: "breaker_step s e s' \<Longrightarrow> sy_now s \<le> sy_now s'"
  by (induction rule: breaker_step.induct) auto

lemma breaker_run_now: "breaker_run s es s' \<Longrightarrow> sy_now s \<le> sy_now s'"
  by (induction rule: breaker_run.induct) (auto dest: breaker_step_now)

text \<open>The state invariant: while closed the count is below the threshold; an opening is in the past.\<close>

definition breaker_inv :: "breaker_system \<Rightarrow> bool" where
  "breaker_inv s \<longleftrightarrow>
     (case br_state (sy_inner s) of
        Closed \<Rightarrow> br_failures (sy_inner s) < bc_failure_threshold (br_config (sy_inner s))
      | Open t \<Rightarrow> t \<le> sy_now s
      | HalfOpen \<Rightarrow> True)
     \<and> 0 < bc_failure_threshold (br_config (sy_inner s))"

lemma breaker_step_inv: "breaker_step s e s' \<Longrightarrow> breaker_inv s \<Longrightarrow> breaker_inv s'"
  by (cases e; cases "br_state (sy_inner s)")
    (auto simp: breaker_simps breaker_inv_def not_le split: if_splits)

lemma breaker_run_inv: "breaker_run s es s' \<Longrightarrow> breaker_inv s \<Longrightarrow> breaker_inv s'"
  by (induction rule: breaker_run.induct) (auto dest: breaker_step_inv)

text \<open>While open, nothing but a success reported by a call already in flight lets calls through early.\<close>

lemma breaker_step_open:
  assumes "breaker_step s e s'" "br_state (sy_inner s) = Open t" "e \<noteq> FinishOk"
    and "sy_now s < t + bc_reset_timeout (br_config (sy_inner s))" "t \<le> sy_now s"
  shows "e \<noteq> Admit \<and> br_state (sy_inner s') = Open t \<and> br_config (sy_inner s') = br_config (sy_inner s)"
  using assms by (cases e) (auto simp: breaker_simps)

lemma breaker_run_open:
  "breaker_run s es s' \<Longrightarrow> br_state (sy_inner s) = Open t \<Longrightarrow> FinishOk \<notin> set es \<Longrightarrow> t \<le> sy_now s \<Longrightarrow>
     sy_now s' < t + bc_reset_timeout (br_config (sy_inner s)) \<Longrightarrow>
     Admit \<notin> set es \<and> br_state (sy_inner s') = Open t"
proof (induction rule: breaker_run.induct)
  case (stop s)
  then show ?case by simp
next
  case (more s e s' es s'')
  have "sy_now s \<le> sy_now s'" "sy_now s' \<le> sy_now s''"
    using more.hyps breaker_step_now breaker_run_now by blast+
  with more breaker_step_open [OF more.hyps(1), of t] show ?case by auto
qed

lemma breaker_run_stuck:
  "breaker_run s es s' \<Longrightarrow> br_state (sy_inner s) = HalfOpen \<Longrightarrow> sy_in_flight s = 0 \<Longrightarrow>
     Admit \<notin> set es \<and> br_state (sy_inner s') = HalfOpen \<and> sy_in_flight s' = 0"
proof (induction rule: breaker_run.induct)
  case (stop s)
  then show ?case by simp
next
  case (more s e s' es s'')
  have "e \<noteq> Admit \<and> br_state (sy_inner s') = HalfOpen \<and> sy_in_flight s' = 0"
    using more.hyps(1) more.prems by (cases e) (auto simp: breaker_simps)
  with more show ?case by auto
qed

section \<open>Properties\<close>

text \<open>The breaker opens on exactly the threshold-th consecutive failure, and then refuses every call
  until the reset timeout has elapsed since that failure.\<close>

theorem infra_breaker_outage:
  assumes "br_state b = Closed"
    and "unat (br_failures b) + length ts + 1 = unat (bc_failure_threshold (br_config b))"
    and "list_all (\<lambda>now. t \<le> now \<and> now < t + bc_reset_timeout (br_config b)) later"
  shows "br_state (failures on_failure ts b) = Closed
    \<and> opened_at (failures on_failure (ts @ [t]) b) = Some t
    \<and> fst (attempts allow_call later (failures on_failure (ts @ [t]) b)) = replicate (length later) False"
  using infra.opens_at_threshold [OF _ assms(1,2)] infra.outage [OF _ assms] by simp

definition demo_breaker :: breaker_inner where
  "demo_breaker = inner_new \<lparr>bc_failure_threshold = 2, bc_reset_timeout = 5, bc_name = []\<rparr>"

theorem infra_breaker_outage_witness:
  "br_state (failures on_failure [3] demo_breaker) = Closed
    \<and> opened_at (failures on_failure ([3] @ [4]) demo_breaker) = Some 4
    \<and> fst (attempts allow_call [4, 6, 8] (failures on_failure ([3] @ [4]) demo_breaker))
      = replicate (length [4, 6, 8 :: nat]) False"
  by (rule infra_breaker_outage) (simp_all add: demo_breaker_def inner_new_def)

text \<open>With concurrent calls too, an open breaker admits no call before the timeout, whatever the
  calls in flight do, unless one of them reports a success.\<close>

theorem infra_open_admits_nothing:
  assumes "breaker_run s es s'" and "breaker_inv s" and "br_state (sy_inner s) = Open t"
    and "FinishOk \<notin> set es"
    and "sy_now s' < t + bc_reset_timeout (br_config (sy_inner s))"
  shows "Admit \<notin> set es \<and> br_state (sy_inner s') = Open t \<and> breaker_inv s'"
  using breaker_run_open [OF assms(1,3,4) _ assms(5)] breaker_run_inv [OF assms(1,2)] assms(2,3)
  by (simp add: breaker_inv_def)

definition demo_open_system :: breaker_system where
  "demo_open_system = \<lparr>sy_inner = (demo_breaker\<lparr>br_state := Open 3\<rparr>), sy_now = 4, sy_in_flight = 1\<rparr>"

definition demo_later_system :: breaker_system where
  "demo_later_system = demo_open_system\<lparr>sy_now := 5, sy_in_flight := 0\<rparr>"

lemma demo_open_run: "breaker_run demo_open_system [Tick 1, Reject, Dropped] demo_later_system"
  by (simp add: breaker_run_simps breaker_simps demo_later_system_def demo_open_system_def demo_breaker_def inner_new_def)

theorem infra_open_admits_nothing_witness:
  "Admit \<notin> set [Tick 1, Reject, Dropped] \<and> br_state (sy_inner demo_later_system) = Open 3
   \<and> breaker_inv demo_later_system"
  by (rule infra_open_admits_nothing [OF demo_open_run])
    (simp_all add: breaker_inv_def demo_open_system_def demo_later_system_def demo_breaker_def inner_new_def)

text \<open>A probe whose future is dropped locks the breaker: once half-open with no call in flight, no
  sequence of events, however long the wait, ever admits a call again.\<close>

theorem dropped_probe_locks_breaker:
  assumes "breaker_run s es s'" and "br_state (sy_inner s) = HalfOpen" and "sy_in_flight s = 0"
  shows "Admit \<notin> set es \<and> br_state (sy_inner s') = HalfOpen"
  using breaker_run_stuck [OF assms] by simp

definition demo_system :: breaker_system where
  "demo_system = \<lparr>sy_inner = demo_breaker, sy_now = 0, sy_in_flight = 0\<rparr>"

definition demo_stuck_system :: breaker_system where
  "demo_stuck_system = \<lparr>sy_inner = demo_breaker\<lparr>br_state := HalfOpen, br_failures := 2\<rparr>, sy_now = 9, sy_in_flight = 0\<rparr>"

text \<open>The lock is reachable: two failures, the timeout, a probe, and the probe is dropped.\<close>

lemma stuck_reachable:
  "breaker_run demo_system [Admit, FinishErr, Admit, FinishErr, Tick 9, Admit, Dropped] demo_stuck_system"
  by (simp add: breaker_run_simps breaker_simps demo_stuck_system_def demo_system_def demo_breaker_def inner_new_def
      word_le_nat_alt)

lemma stuck_run: "breaker_run demo_stuck_system [Tick 1000, Reject] (demo_stuck_system\<lparr>sy_now := 1009\<rparr>)"
  by (simp add: breaker_run_simps breaker_simps demo_stuck_system_def)

theorem dropped_probe_locks_breaker_witness:
  "Admit \<notin> set [Tick 1000, Reject] \<and> br_state (sy_inner (demo_stuck_system\<lparr>sy_now := 1009\<rparr>)) = HalfOpen"
  by (rule dropped_probe_locks_breaker [OF stuck_run]) (simp_all add: demo_stuck_system_def)

section \<open>Backoff\<close>

datatype backoff_strategy = Fixed | Linear | Exponential

record backoff =
  bo_strategy :: backoff_strategy
  bo_base :: int
  bo_max :: int

text \<open>
  \<open>delay_for\<close> in milliseconds. \<open>as_millis\<close> is a \<open>u128\<close> that \<open>as u64\<close> truncates; \<open>1u64 << shift\<close> with
  \<open>shift \<le> 63\<close> is a power of two.
\<close>

definition delay_for :: "backoff \<Rightarrow> nat \<Rightarrow> int" where
  "delay_for b attempt =
     (let base_ms = bo_base b mod 2 ^ 64;
          max_ms = bo_max b mod 2 ^ 64;
          raw = (case bo_strategy b of
              Fixed \<Rightarrow> base_ms
            | Linear \<Rightarrow> sat_mul_u64 base_ms (int attempt + 1)
            | Exponential \<Rightarrow> sat_mul_u64 base_ms (2 ^ min attempt 63))
      in min raw max_ms)"

lemma sat_mul_capped: "cap \<le> u64_max \<Longrightarrow> min cap (sat_mul_u64 a b) = min cap (a * b)"
  by (simp add: sat_mul_u64_def)

lemma delay_for_closed:
  assumes "0 \<le> bo_base b" "bo_base b \<le> u64_max" "0 \<le> bo_max b" "bo_max b \<le> u64_max"
  shows "delay_for b n = min (bo_max b) (bo_base b *
     (case bo_strategy b of Fixed \<Rightarrow> 1 | Linear \<Rightarrow> int n + 1 | Exponential \<Rightarrow> 2 ^ min n 63))"
proof -
  have "bo_base b mod 2 ^ 64 = bo_base b" "bo_max b mod 2 ^ 64 = bo_max b"
    using assms by (simp_all add: u64_max_def)
  then show ?thesis
    by (cases "bo_strategy b")
      (simp_all add: delay_for_def Let_def sat_mul_capped [OF assms(4)] min.commute del: mod_pos_pos_trivial)
qed

text \<open>A retry delay never exceeds the maximum, never decreases with the attempt, and is the
  capped exact product: the base, \<open>base * (attempt + 1)\<close> or \<open>base * 2 ^ min attempt 63\<close>.\<close>

theorem delay_for_bounded_monotone:
  assumes "m \<le> n" and "0 \<le> bo_base b" and "0 \<le> bo_max b" and "bo_max b \<le> u64_max" and "bo_base b \<le> u64_max"
  shows "0 \<le> delay_for b m \<and> delay_for b m \<le> delay_for b n \<and> delay_for b n \<le> bo_max b
    \<and> delay_for b n = min (bo_max b) (bo_base b *
         (case bo_strategy b of Fixed \<Rightarrow> 1 | Linear \<Rightarrow> int n + 1 | Exponential \<Rightarrow> 2 ^ min n 63))"
proof -
  note closed = delay_for_closed [OF assms(2,5,3,4)]
  have "(2 :: int) ^ min m 63 \<le> 2 ^ min n 63"
    using assms(1) by (intro power_increasing) auto
  then have "bo_base b * (case bo_strategy b of Fixed \<Rightarrow> 1 | Linear \<Rightarrow> int m + 1 | Exponential \<Rightarrow> 2 ^ min m 63)
      \<le> bo_base b * (case bo_strategy b of Fixed \<Rightarrow> 1 | Linear \<Rightarrow> int n + 1 | Exponential \<Rightarrow> 2 ^ min n 63)"
    using assms(1,2) by (intro mult_left_mono) (simp_all split: backoff_strategy.split)
  then have mono: "delay_for b m \<le> delay_for b n"
    unfolding closed by (rule min.mono [OF order_refl])
  have "0 \<le> delay_for b m"
    unfolding closed using assms(2,3) by (simp split: backoff_strategy.split)
  moreover have "delay_for b n \<le> bo_max b" unfolding closed by simp
  ultimately show ?thesis using mono closed by blast
qed

definition demo_backoff :: backoff where
  "demo_backoff = \<lparr>bo_strategy = Exponential, bo_base = 100, bo_max = 3000\<rparr>"

theorem delay_for_bounded_monotone_witness:
  "0 \<le> delay_for demo_backoff 2 \<and> delay_for demo_backoff 2 \<le> delay_for demo_backoff 3
    \<and> delay_for demo_backoff 3 \<le> bo_max demo_backoff
    \<and> delay_for demo_backoff 3 = min (bo_max demo_backoff) (bo_base demo_backoff *
         (case bo_strategy demo_backoff of Fixed \<Rightarrow> 1 | Linear \<Rightarrow> int 3 + 1 | Exponential \<Rightarrow> 2 ^ min 3 63))"
  by (rule delay_for_bounded_monotone) (simp_all add: demo_backoff_def u64_max_def)

end
