(* ===== verification/App_Resilience.thy ===== *)
theory App_Resilience
  imports Resilience_Contracts
begin

text \<open>
  \<open>forge_app/src/resilience.rs\<close>: the lock-free resilience layer around retries: circuit breaker,
  bulkhead, adaptive throttle and the policy that bundles them. An operation reads its atomics in
  the order of the code; the bulkhead's compare-and-swap loop is also modelled with its
  interleavings.
\<close>

section \<open>Clocks\<close>

text \<open>
  An \<open>Instant\<close> is a point of the monotonic clock, a \<open>SystemTime\<close> one of the wall_now clock (since the
  epoch), both in milliseconds. \<open>mono_now\<close> and \<open>wall_now\<close> are what \<open>Instant::now()\<close> and
  \<open>SystemTime::now()\<close> return inside the operation.
\<close>

definition instant_to_epoch_ms :: "int \<Rightarrow> int \<Rightarrow> int \<Rightarrow> int" where
  "instant_to_epoch_ms mono_now wall_now now =
     (let sys = wall_now - max 0 (mono_now - now) in if 0 \<le> sys then sys else 0)"

definition epoch_ms_to_instant :: "int \<Rightarrow> int \<Rightarrow> int \<Rightarrow> int" where
  "epoch_ms_to_instant mono_now wall_now ms =
     (if ms \<le> 0 then mono_now
      else if wall_now < ms then mono_now
      else let d = wall_now - ms in mono_now - d)"

definition duration_since :: "int \<Rightarrow> int \<Rightarrow> int" where
  "duration_since a b = max 0 (a - b)"

section \<open>Circuit breaker\<close>

datatype call_outcome = Success | Failure

datatype breaker_state = Closed | Open | HalfOpen

text \<open>\<open>ab_state\<close> holds the code 0 (closed), 1 (open) or 2 (half-open).\<close>

record app_breaker =
  ab_name :: rstr
  ab_failure_threshold :: u32
  ab_cool_down :: int
  ab_state :: nat
  ab_failures :: u32
  ab_opened_at_ms :: int

definition breaker_new :: "rstr \<Rightarrow> u32 \<Rightarrow> int \<Rightarrow> app_breaker" where
  "breaker_new name failure_threshold cool_down =
     \<lparr>ab_name = name, ab_failure_threshold = max failure_threshold 1, ab_cool_down = cool_down,
      ab_state = 0, ab_failures = 0, ab_opened_at_ms = 0\<rparr>"

definition breaker_allow ::
  "int \<Rightarrow> int \<Rightarrow> int \<Rightarrow> app_breaker \<Rightarrow> (breaker_state \<times> bool) \<times> app_breaker" where
  "breaker_allow mono_now wall_now now b =
     (if ab_state b = 0 then ((Closed, True), b)
      else if ab_state b = 1 then
        let opened = ab_opened_at_ms b;
            opened_at = epoch_ms_to_instant mono_now wall_now opened
        in if ab_cool_down b \<le> duration_since now opened_at
           then ((HalfOpen, True), b\<lparr>ab_state := (if ab_state b = 1 then 2 else ab_state b)\<rparr>)
           else ((Open, False), b)
      else ((HalfOpen, True), b))"

definition breaker_open :: "int \<Rightarrow> int \<Rightarrow> int \<Rightarrow> app_breaker \<Rightarrow> app_breaker" where
  "breaker_open mono_now wall_now now b =
     b\<lparr>ab_opened_at_ms := instant_to_epoch_ms mono_now wall_now now, ab_state := 1\<rparr>"

definition breaker_record ::
  "int \<Rightarrow> int \<Rightarrow> call_outcome \<Rightarrow> int \<Rightarrow> app_breaker \<Rightarrow> app_breaker" where
  "breaker_record mono_now wall_now outcome now b =
     (case outcome of
        Success \<Rightarrow> b\<lparr>ab_failures := 0, ab_state := 0\<rparr>
      | Failure \<Rightarrow>
          let n = ab_failures b + 1; b = b\<lparr>ab_failures := n\<rparr>
          in if ab_failure_threshold b \<le> n then breaker_open mono_now wall_now now b else b)"

definition breaker_state_at :: "int \<Rightarrow> int \<Rightarrow> int \<Rightarrow> app_breaker \<Rightarrow> breaker_state \<times> app_breaker" where
  "breaker_state_at mono_now wall_now now b =
     (let ((st, _), b) = breaker_allow mono_now wall_now now b in (st, b))"

section \<open>Bulkhead\<close>

record bulkhead =
  bh_name :: rstr
  bh_capacity :: u32
  bh_in_flight :: u32

definition bulkhead_new :: "rstr \<Rightarrow> u32 \<Rightarrow> bulkhead" where
  "bulkhead_new name capacity = \<lparr>bh_name = name, bh_capacity = max capacity 1, bh_in_flight = 0\<rparr>"

text \<open>\<open>try_acquire\<close> without interference: the exchange of its first round succeeds.\<close>

definition bulkhead_try_acquire :: "bulkhead \<Rightarrow> bulkhead option" where
  "bulkhead_try_acquire h =
     (let cur = bh_in_flight h
      in if bh_capacity h \<le> cur then None else Some (h\<lparr>bh_in_flight := cur + 1\<rparr>))"

text \<open>\<open>Drop\<close> of the guard.\<close>

definition guard_drop :: "bulkhead \<Rightarrow> bulkhead" where
  "guard_drop h = h\<lparr>bh_in_flight := bh_in_flight h - 1\<rparr>"

text \<open>
  With interference: each task is between the atomic accesses of the loop. \<open>Loaded cur\<close> has read
  \<open>cur\<close> below the capacity and is about to exchange it.
\<close>

datatype task = Idle | Loaded u32 | Holding | Refused

record bulkhead_system =
  bs_bulkhead :: bulkhead
  bs_tasks :: "task list"

inductive bulkhead_step :: "bulkhead_system \<Rightarrow> bulkhead_system \<Rightarrow> bool" where
  load_full: "i < length (bs_tasks s) \<Longrightarrow> bs_tasks s ! i = Idle \<Longrightarrow>
    bh_capacity (bs_bulkhead s) \<le> bh_in_flight (bs_bulkhead s) \<Longrightarrow>
    bulkhead_step s (s\<lparr>bs_tasks := (bs_tasks s)[i := Refused]\<rparr>)"
| load: "i < length (bs_tasks s) \<Longrightarrow> bs_tasks s ! i = Idle \<Longrightarrow>
    bh_in_flight (bs_bulkhead s) < bh_capacity (bs_bulkhead s) \<Longrightarrow>
    bulkhead_step s (s\<lparr>bs_tasks := (bs_tasks s)[i := Loaded (bh_in_flight (bs_bulkhead s))]\<rparr>)"
| exchange: "i < length (bs_tasks s) \<Longrightarrow> bs_tasks s ! i = Loaded cur \<Longrightarrow>
    bh_in_flight (bs_bulkhead s) = cur \<Longrightarrow>
    bulkhead_step s (s\<lparr>bs_bulkhead := (bs_bulkhead s)\<lparr>bh_in_flight := cur + 1\<rparr>,
      bs_tasks := (bs_tasks s)[i := Holding]\<rparr>)"
| retry: "i < length (bs_tasks s) \<Longrightarrow> bs_tasks s ! i = Loaded cur \<Longrightarrow>
    bh_in_flight (bs_bulkhead s) \<noteq> cur \<Longrightarrow>
    bulkhead_step s (s\<lparr>bs_tasks := (bs_tasks s)[i := Idle]\<rparr>)"
| drop: "i < length (bs_tasks s) \<Longrightarrow> bs_tasks s ! i = Holding \<Longrightarrow>
    bulkhead_step s (s\<lparr>bs_bulkhead := guard_drop (bs_bulkhead s), bs_tasks := (bs_tasks s)[i := Idle]\<rparr>)"
| again: "i < length (bs_tasks s) \<Longrightarrow> bs_tasks s ! i = Refused \<Longrightarrow>
    bulkhead_step s (s\<lparr>bs_tasks := (bs_tasks s)[i := Idle]\<rparr>)"

inductive bulkhead_reachable :: "bulkhead \<Rightarrow> nat \<Rightarrow> bulkhead_system \<Rightarrow> bool" where
  start: "bh_in_flight h = 0 \<Longrightarrow> bulkhead_reachable h n \<lparr>bs_bulkhead = h, bs_tasks = replicate n Idle\<rparr>"
| step: "bulkhead_reachable h n s \<Longrightarrow> bulkhead_step s s' \<Longrightarrow> bulkhead_reachable h n s'"

section \<open>Adaptive throttle\<close>

datatype throttle_decision = Allow | Wait int

record throttle =
  th_name :: rstr
  th_rate_per_sec :: int
  th_burst_milli :: int
  th_last_refill_ms :: int
  th_tokens_milli :: int

definition throttle_with_burst :: "rstr \<Rightarrow> int \<Rightarrow> int \<Rightarrow> int \<Rightarrow> throttle" where
  "throttle_with_burst name rate_per_sec burst start_at =
     (let burst = max burst 1; burst_milli = burst * 1000
      in \<lparr>th_name = name, th_rate_per_sec = max rate_per_sec 1, th_burst_milli = burst_milli,
          th_last_refill_ms = start_at, th_tokens_milli = burst_milli\<rparr>)"

definition throttle_new :: "rstr \<Rightarrow> int \<Rightarrow> int \<Rightarrow> throttle" where
  "throttle_new name rate_per_sec start_at = throttle_with_burst name rate_per_sec 1 start_at"

text \<open>\<open>fetch_sub\<close> on an \<open>AtomicI64\<close> wraps around.\<close>

definition record_retry_after :: "int \<Rightarrow> int \<Rightarrow> throttle \<Rightarrow> throttle" where
  "record_retry_after retry_after_ms now_ms th =
     (let withdraw_milli = sat_i64 (wrap_i64 retry_after_ms * th_rate_per_sec th)
      in th\<lparr>th_tokens_milli := wrap_i64 (th_tokens_milli th - withdraw_milli),
            th_last_refill_ms := now_ms\<rparr>)"

text \<open>Division of \<open>i64\<close> rounds towards zero.\<close>

definition i64_div :: "int \<Rightarrow> int \<Rightarrow> int" where
  "i64_div a b = sgn a * sgn b * (\<bar>a\<bar> div \<bar>b\<bar>)"

definition throttle_try_acquire :: "int \<Rightarrow> throttle \<Rightarrow> throttle_decision \<times> throttle" where
  "throttle_try_acquire now_ms th =
     (let last = th_last_refill_ms th;
          elapsed_ms = max (sat_i64 (now_ms - last)) 0;
          earned_milli = sat_i64 (elapsed_ms * th_rate_per_sec th);
          cur = th_tokens_milli th;
          updated = min (sat_i64 (cur + earned_milli)) (th_burst_milli th);
          post = sat_i64 (updated - 1000);
          th = th\<lparr>th_last_refill_ms := now_ms, th_tokens_milli := post\<rparr>
      in if 1000 \<le> updated then (Allow, th)
         else let missing_milli = wrap_i64 (1000 - updated);
                  wait_ms = i64_div (wrap_i64 (missing_milli + th_rate_per_sec th - 1)) (th_rate_per_sec th)
              in (Wait (max wait_ms 0), th))"

section \<open>The policy\<close>

record policy_bundle =
  rp_breaker :: app_breaker
  rp_bulkhead :: bulkhead
  rp_throttle :: throttle

datatype pre_flight = PAllow | PBulkheadFull | PThrottled int | PShortCircuit

definition policy_new :: "rstr \<Rightarrow> u32 \<Rightarrow> int \<Rightarrow> u32 \<Rightarrow> int \<Rightarrow> int \<Rightarrow> policy_bundle" where
  "policy_new name failure_threshold cool_down concurrency rate_per_sec start_at =
     \<lparr>rp_breaker = breaker_new name failure_threshold cool_down,
      rp_bulkhead = bulkhead_new name concurrency,
      rp_throttle = throttle_new name rate_per_sec start_at\<rparr>"

text \<open>
  \<open>check\<close>: the guard that \<open>self.bulkhead.try_acquire().is_none()\<close> creates is a temporary and is
  dropped at once. \<open>now\<close> is read as milliseconds since the process started by the throttle.
\<close>

definition policy_check ::
  "int \<Rightarrow> int \<Rightarrow> int \<Rightarrow> policy_bundle \<Rightarrow> pre_flight \<times> policy_bundle" where
  "policy_check mono_now wall_now now p =
     (let ((_, allowed), breaker) = breaker_allow mono_now wall_now now (rp_breaker p);
          p = p\<lparr>rp_breaker := breaker\<rparr>
      in if \<not> allowed then (PShortCircuit, p)
         else let (decision, th) = throttle_try_acquire now (rp_throttle p);
                  p = p\<lparr>rp_throttle := th\<rparr>
              in case decision of
                   Wait d \<Rightarrow> (PThrottled d, p)
                 | Allow \<Rightarrow>
                     (case bulkhead_try_acquire (rp_bulkhead p) of
                        None \<Rightarrow> (PBulkheadFull, p)
                      | Some h \<Rightarrow> (PAllow, p\<lparr>rp_bulkhead := guard_drop h\<rparr>)))"

text \<open>\<open>record\<close>: the flag says whether the caller passes a guard back.\<close>

definition policy_record ::
  "int \<Rightarrow> int \<Rightarrow> call_outcome \<Rightarrow> int \<Rightarrow> bool \<Rightarrow> policy_bundle \<Rightarrow> policy_bundle" where
  "policy_record mono_now wall_now outcome now permit p =
     (let p = p\<lparr>rp_breaker := breaker_record mono_now wall_now outcome now (rp_breaker p)\<rparr>
      in if permit then p\<lparr>rp_bulkhead := guard_drop (rp_bulkhead p)\<rparr> else p)"


section \<open>The contracts\<close>

text \<open>
  The breaker with both clocks read at the caller's \<open>now\<close>, the wall clock ahead of the monotonic
  one by \<open>k + 1\<close> milliseconds, as long as nobody adjusts it.
\<close>

definition allow_at :: "nat \<Rightarrow> nat \<Rightarrow> app_breaker \<Rightarrow> bool \<times> app_breaker" where
  "allow_at k now b =
     (let ((_, ok), b) = breaker_allow (int now) (int now + int k + 1) (int now) b in (ok, b))"

definition record_at :: "nat \<Rightarrow> call_outcome \<Rightarrow> nat \<Rightarrow> app_breaker \<Rightarrow> app_breaker" where
  "record_at k outcome now b = breaker_record (int now) (int now + int k + 1) outcome (int now) b"

definition opened_since :: "nat \<Rightarrow> app_breaker \<Rightarrow> nat option" where
  "opened_since k b = (if ab_state b = 1 then Some (nat (ab_opened_at_ms b - int k - 1)) else None)"

definition app_breaker_inv :: "nat \<Rightarrow> app_breaker \<Rightarrow> bool" where
  "app_breaker_inv k b \<longleftrightarrow> 0 \<le> ab_cool_down b \<and> (ab_state b = 1 \<longrightarrow> int k < ab_opened_at_ms b)"

interpretation app: circuit_breaker "allow_at k" "record_at k Success" "record_at k Failure" "app_breaker_inv k"
    "\<lambda>b. ab_state b = 0" "opened_since k" "\<lambda>b. unat (ab_failures b)"
    "\<lambda>b. unat (ab_failure_threshold b)" "\<lambda>b. nat (ab_cool_down b)" for k
proof unfold_locales
  fix s :: app_breaker and now t :: nat
  assume inv: "app_breaker_inv k s"
  show "allow_at k now s = (True, s)" if "ab_state s = 0"
    using that by (simp add: allow_at_def breaker_allow_def)
  show "allow_at k now s = (False, s)"
    if "opened_since k s = Some t" "t \<le> now" "now < t + nat (ab_cool_down s)"
  proof -
    have "ab_state s = 1" "ab_opened_at_ms s = int t + int k + 1"
      using that inv by (auto simp: opened_since_def app_breaker_inv_def split: if_splits)
    then show ?thesis
      using that inv by (auto simp: allow_at_def breaker_allow_def epoch_ms_to_instant_def
          duration_since_def app_breaker_inv_def Let_def)
  qed
  show "fst (allow_at k now s)" if "opened_since k s = Some t" "t + nat (ab_cool_down s) \<le> now"
  proof -
    have "ab_state s = 1" "ab_opened_at_ms s = int t + int k + 1"
      using that inv by (auto simp: opened_since_def app_breaker_inv_def split: if_splits)
    then show ?thesis
      using that inv by (auto simp: allow_at_def breaker_allow_def epoch_ms_to_instant_def
          duration_since_def app_breaker_inv_def Let_def)
  qed
  show "app_breaker_inv k (record_at k Success now s) \<and> ab_state (record_at k Success now s) = 0 \<and>
      unat (ab_failures (record_at k Success now s)) = 0 \<and>
      unat (ab_failure_threshold (record_at k Success now s)) = unat (ab_failure_threshold s) \<and>
      nat (ab_cool_down (record_at k Success now s)) = nat (ab_cool_down s)"
    using inv by (simp add: record_at_def breaker_record_def app_breaker_inv_def)
  assume "ab_state s = 0" "unat (ab_failures s) < unat (ab_failure_threshold s)"
  then show "app_breaker_inv k (record_at k Failure now s) \<and>
      unat (ab_failures (record_at k Failure now s)) = Suc (unat (ab_failures s)) \<and>
      unat (ab_failure_threshold (record_at k Failure now s)) = unat (ab_failure_threshold s) \<and>
      nat (ab_cool_down (record_at k Failure now s)) = nat (ab_cool_down s) \<and>
      (Suc (unat (ab_failures s)) < unat (ab_failure_threshold s) \<longrightarrow> ab_state (record_at k Failure now s) = 0) \<and>
      (Suc (unat (ab_failures s)) = unat (ab_failure_threshold s) \<longrightarrow>
        opened_since k (record_at k Failure now s) = Some now)"
    using unat_inc [of "ab_failures s" "ab_failure_threshold s"] inv
    by (auto simp: record_at_def breaker_record_def breaker_open_def instant_to_epoch_ms_def
        opened_since_def app_breaker_inv_def Let_def word_le_nat_alt word_less_nat_alt)
qed

interpretation bulkhead: bounded_permits bulkhead_try_acquire guard_drop
    "\<lambda>h. unat (bh_in_flight h)" "\<lambda>h. unat (bh_capacity h)"
proof unfold_locales
  fix s s' :: bulkhead
  assume a: "bulkhead_try_acquire s = Some s'"
  then have "bh_in_flight s < bh_capacity s" by (auto simp: bulkhead_try_acquire_def Let_def split: if_splits)
  with a unat_inc [of "bh_in_flight s" "bh_capacity s"]
  show "unat (bh_in_flight s) < unat (bh_capacity s) \<and> unat (bh_in_flight s') = Suc (unat (bh_in_flight s))
      \<and> unat (bh_capacity s') = unat (bh_capacity s)"
    by (auto simp: bulkhead_try_acquire_def Let_def word_less_nat_alt split: if_splits)
next
  fix s :: bulkhead
  show "unat (bh_capacity s) \<le> unat (bh_in_flight s)" if "bulkhead_try_acquire s = None"
    using that by (auto simp: bulkhead_try_acquire_def Let_def word_le_nat_alt split: if_splits)
  assume "0 < unat (bh_in_flight s)"
  then show "unat (bh_in_flight (guard_drop s)) = unat (bh_in_flight s) - 1 \<and>
      unat (bh_capacity (guard_drop s)) = unat (bh_capacity s)"
    by (simp add: guard_drop_def unat_minus_one unat_gt_0)
qed

section \<open>Bulkhead under interference\<close>

definition holding :: "task list \<Rightarrow> nat" where
  "holding ts = length (filter (\<lambda>t. t = Holding) ts)"

lemma holding_update:
  "i < length ts \<Longrightarrow> holding (ts[i := t]) + (if ts ! i = Holding then 1 else 0) = holding ts + (if t = Holding then 1 else 0)"
proof (induction ts arbitrary: i)
  case (Cons a ts)
  show ?case
  proof (cases i)
    case 0
    then show ?thesis by (simp add: holding_def)
  next
    case (Suc j)
    with Cons.IH [of j] Cons.prems show ?thesis by (auto simp: holding_def)
  qed
qed simp

lemma holding_pos: "i < length ts \<Longrightarrow> ts ! i = Holding \<Longrightarrow> 0 < holding ts"
  unfolding holding_def by (metis (mono_tags, lifting) filter_empty_conv length_greater_0_conv nth_mem)

text \<open>The counter counts the guards; a task about to exchange read a value below the capacity.\<close>

definition bulkhead_inv :: "bulkhead_system \<Rightarrow> bool" where
  "bulkhead_inv s \<longleftrightarrow>
     unat (bh_in_flight (bs_bulkhead s)) = holding (bs_tasks s)
     \<and> bh_in_flight (bs_bulkhead s) \<le> bh_capacity (bs_bulkhead s)
     \<and> (\<forall>cur. Loaded cur \<in> set (bs_tasks s) \<longrightarrow> cur < bh_capacity (bs_bulkhead s))"

lemma loaded_update: "Loaded cur \<in> set (ts[i := t]) \<Longrightarrow> Loaded cur = t \<or> Loaded cur \<in> set ts"
  using set_update_subset_insert [of ts i t] by auto

lemma bulkhead_step_inv: "bulkhead_step s s' \<Longrightarrow> bulkhead_inv s \<Longrightarrow> bulkhead_inv s'"
proof (induction rule: bulkhead_step.induct)
  case (load_full i s)
  then show ?case
    using holding_update [of i "bs_tasks s" Refused] by (auto simp: bulkhead_inv_def dest: loaded_update)
next
  case (load i s)
  then show ?case
    using holding_update [of i "bs_tasks s" "Loaded (bh_in_flight (bs_bulkhead s))"]
    by (auto simp: bulkhead_inv_def dest: loaded_update)
next
  case (exchange i s cur)
  then have "cur < bh_capacity (bs_bulkhead s)"
    unfolding bulkhead_inv_def by (metis nth_mem)
  then have "unat (cur + 1) = Suc (unat cur)" "cur + 1 \<le> bh_capacity (bs_bulkhead s)"
    using unat_inc by (auto simp: word_le_nat_alt word_less_nat_alt)
  then show ?case
    using exchange holding_update [of i "bs_tasks s" Holding] by (auto simp: bulkhead_inv_def dest: loaded_update)
next
  case (retry i s cur)
  then show ?case
    using holding_update [of i "bs_tasks s" Idle] by (auto simp: bulkhead_inv_def dest: loaded_update)
next
  case (drop i s)
  then have "0 < unat (bh_in_flight (bs_bulkhead s))"
    using holding_pos [of i "bs_tasks s"] by (simp add: bulkhead_inv_def)
  then show ?case
    using drop holding_update [of i "bs_tasks s" Idle] bulkhead.release_used [of "bs_bulkhead s"]
    by (auto simp: bulkhead_inv_def guard_drop_def word_le_nat_alt dest: loaded_update)
next
  case (again i s)
  then show ?case
    using holding_update [of i "bs_tasks s" Idle] by (auto simp: bulkhead_inv_def dest: loaded_update)
qed

lemma bulkhead_step_capacity: "bulkhead_step s s' \<Longrightarrow> bh_capacity (bs_bulkhead s') = bh_capacity (bs_bulkhead s)"
  by (induction rule: bulkhead_step.induct) (auto simp: guard_drop_def)

lemma bulkhead_reachable_inv:
  "bulkhead_reachable h n s \<Longrightarrow> bulkhead_inv s \<and> bh_capacity (bs_bulkhead s) = bh_capacity h"
proof (induction rule: bulkhead_reachable.induct)
  case (start h n)
  then show ?case by (auto simp: bulkhead_inv_def holding_def)
next
  case (step h n s s')
  then show ?case using bulkhead_step_inv bulkhead_step_capacity by metis
qed

section \<open>Throttle\<close>

definition throttle_ok :: "int \<Rightarrow> throttle \<Rightarrow> bool" where
  "throttle_ok slack th \<longleftrightarrow>
     1 \<le> th_rate_per_sec th \<and> th_rate_per_sec th < 2 ^ 32
     \<and> 1000 \<le> th_burst_milli th \<and> th_burst_milli th < 2 ^ 42
     \<and> - (2 ^ 60) + slack \<le> th_tokens_milli th \<and> th_tokens_milli th \<le> th_burst_milli th"

text \<open>What one attempt does, for values in range.\<close>

definition refilled :: "int \<Rightarrow> throttle \<Rightarrow> int" where
  "refilled now th =
     min (th_tokens_milli th + sat_i64 (max (sat_i64 (now - th_last_refill_ms th)) 0 * th_rate_per_sec th))
       (th_burst_milli th)"

lemma sat_ge0: "0 \<le> x \<Longrightarrow> 0 \<le> sat_i64 x \<and> sat_i64 x \<le> x"
  by (simp add: sat_i64_def i64_min_def i64_max_def)

lemma earned_bounds:
  assumes "1 \<le> th_rate_per_sec th"
  shows "0 \<le> sat_i64 (max (sat_i64 (now - th_last_refill_ms th)) 0 * th_rate_per_sec th)"
    "th_last_refill_ms th \<le> now \<Longrightarrow>
      sat_i64 (max (sat_i64 (now - th_last_refill_ms th)) 0 * th_rate_per_sec th)
      \<le> (now - th_last_refill_ms th) * th_rate_per_sec th"
proof -
  let ?e = "max (sat_i64 (now - th_last_refill_ms th)) 0"
  have nn: "0 \<le> ?e * th_rate_per_sec th" using assms by simp
  then show "0 \<le> sat_i64 (?e * th_rate_per_sec th)" using sat_ge0 by blast
  assume "th_last_refill_ms th \<le> now"
  then have "?e \<le> now - th_last_refill_ms th" using sat_ge0 [of "now - th_last_refill_ms th"] by simp
  then have "?e * th_rate_per_sec th \<le> (now - th_last_refill_ms th) * th_rate_per_sec th"
    using assms by (simp add: mult_right_mono)
  then show "sat_i64 (?e * th_rate_per_sec th) \<le> (now - th_last_refill_ms th) * th_rate_per_sec th"
    using sat_ge0 [OF nn] by linarith
qed

lemma throttle_step:
  assumes "throttle_ok slack th" "1000 \<le> slack"
  shows "throttle_try_acquire now th =
     ((if 1000 \<le> refilled now th then Allow
       else Wait ((1000 - refilled now th + th_rate_per_sec th - 1) div th_rate_per_sec th)),
      th\<lparr>th_last_refill_ms := now, th_tokens_milli := refilled now th - 1000\<rparr>)"
    and "throttle_ok (slack - 1000) (th\<lparr>th_last_refill_ms := now, th_tokens_milli := refilled now th - 1000\<rparr>)"
proof -
  let ?e = "sat_i64 (max (sat_i64 (now - th_last_refill_ms th)) 0 * th_rate_per_sec th)"
  have e: "0 \<le> ?e" "?e \<le> i64_max"
    using earned_bounds(1) sat_i64_range assms(1) unfolding throttle_ok_def by blast+
  have lo: "- (2 ^ 60) + slack \<le> refilled now th" and hi: "refilled now th \<le> th_burst_milli th"
    using assms(1) e unfolding throttle_ok_def refilled_def by auto
  have upd: "min (sat_i64 (th_tokens_milli th + ?e)) (th_burst_milli th) = refilled now th"
    using assms e unfolding throttle_ok_def refilled_def
    by (auto simp: sat_i64_def i64_min_def i64_max_def min_def max_def)
  have post: "sat_i64 (refilled now th - 1000) = refilled now th - 1000"
    using lo hi assms unfolding throttle_ok_def by (intro sat_i64_id) (simp_all add: i64_min_def i64_max_def)
  show "throttle_ok (slack - 1000) (th\<lparr>th_last_refill_ms := now, th_tokens_milli := refilled now th - 1000\<rparr>)"
    using assms lo hi by (auto simp: throttle_ok_def)
  have wait: "max (i64_div (wrap_i64 (wrap_i64 (1000 - refilled now th) + th_rate_per_sec th - 1)) (th_rate_per_sec th)) 0
      = (1000 - refilled now th + th_rate_per_sec th - 1) div th_rate_per_sec th" if "refilled now th < 1000"
  proof -
    have "wrap_i64 (1000 - refilled now th) = 1000 - refilled now th"
      using lo that assms by (intro wrap_i64_id) (simp_all add: i64_min_def i64_max_def)
    moreover have "wrap_i64 (1000 - refilled now th + th_rate_per_sec th - 1) = 1000 - refilled now th + th_rate_per_sec th - 1"
      using lo that assms unfolding throttle_ok_def by (intro wrap_i64_id) (simp_all add: i64_min_def i64_max_def)
    moreover have "0 < 1000 - refilled now th + th_rate_per_sec th - 1" "0 < th_rate_per_sec th"
      using that assms(1) by (simp_all add: throttle_ok_def)
    ultimately show ?thesis by (simp add: i64_div_def pos_imp_zdiv_nonneg_iff)
  qed
  show "throttle_try_acquire now th =
     ((if 1000 \<le> refilled now th then Allow
       else Wait ((1000 - refilled now th + th_rate_per_sec th - 1) div th_rate_per_sec th)),
      th\<lparr>th_last_refill_ms := now, th_tokens_milli := refilled now th - 1000\<rparr>)"
    unfolding throttle_try_acquire_def Let_def upd post using wait by simp
qed


text \<open>A sequence of attempts, and a caller that comes back exactly when it was told to.\<close>

fun throttle_run :: "int list \<Rightarrow> throttle \<Rightarrow> throttle_decision list" where
  "throttle_run [] th = []"
| "throttle_run (now # ts) th =
     (let (d, th) = throttle_try_acquire now th in d # throttle_run ts th)"

fun obey :: "nat \<Rightarrow> int \<Rightarrow> throttle \<Rightarrow> throttle_decision list" where
  "obey 0 now th = []"
| "obey (Suc n) now th =
     (let (d, th) = throttle_try_acquire now th
      in d # (case d of Wait w \<Rightarrow> obey n (now + w) th | Allow \<Rightarrow> []))"

abbreviation allows :: "throttle_decision list \<Rightarrow> int" where
  "allows ds \<equiv> int (length (filter (\<lambda>d. d = Allow) ds))"

lemma last_time_ge: "sorted (t # ts) \<Longrightarrow> t \<le> last (t # ts)"
  by (cases ts rule: rev_cases) auto

lemma refilled_le:
  assumes "1 \<le> th_rate_per_sec th" "th_last_refill_ms th \<le> now"
  shows "refilled now th \<le> th_tokens_milli th + (now - th_last_refill_ms th) * th_rate_per_sec th"
  using earned_bounds(2) [OF assms] unfolding refilled_def by linarith

lemma throttle_run_bound:
  assumes "throttle_ok (1000 * int (length ts) + 1000) th" "sorted (th_last_refill_ms th # ts)"
  shows "allows (throttle_run ts th) = 0
    \<or> 1000 * allows (throttle_run ts th) \<le>
        th_tokens_milli th + (last (th_last_refill_ms th # ts) - th_last_refill_ms th) * th_rate_per_sec th"
  using assms
proof (induction ts arbitrary: th)
  case Nil
  then show ?case by simp
next
  case (Cons t ts)
  let ?th = "th\<lparr>th_last_refill_ms := t, th_tokens_milli := refilled t th - 1000\<rparr>"
  let ?r = "th_rate_per_sec th"
  have r: "1 \<le> ?r" using Cons.prems(1) by (simp add: throttle_ok_def)
  have step: "throttle_try_acquire t th = ((if 1000 \<le> refilled t th then Allow
      else Wait ((1000 - refilled t th + ?r - 1) div ?r)), ?th)"
    and ok: "throttle_ok (1000 * int (length ts) + 1000) ?th"
    using throttle_step [OF Cons.prems(1), of t] by (simp_all add: add.commute)
  have IH: "allows (throttle_run ts ?th) = 0
      \<or> 1000 * allows (throttle_run ts ?th) \<le> refilled t th - 1000 + (last (t # ts) - t) * ?r"
    using Cons.IH [OF ok] Cons.prems(2) by simp
  have le: "refilled t th \<le> th_tokens_milli th + (t - th_last_refill_ms th) * ?r"
    using Cons.prems(2) by (intro refilled_le r) simp
  have "0 \<le> (last (t # ts) - t) * ?r"
    using last_time_ge [of t ts] Cons.prems(2) r by simp
  moreover have "last (th_last_refill_ms th # t # ts) = last (t # ts)" by simp
  moreover have "(last (t # ts) - th_last_refill_ms th) * ?r =
      (t - th_last_refill_ms th) * ?r + (last (t # ts) - t) * ?r"
    by (simp add: algebra_simps)
  ultimately show ?case
    using IH le by (auto simp: step Let_def simp del: last.simps)
qed

text \<open>After a refusal the balance is back below the rate when the caller returns on time.\<close>

lemma ceil_div_bounds:
  assumes "0 < (r::int)"
  shows "m \<le> ((m + r - 1) div r) * r" "((m + r - 1) div r) * r < m + r"
  using div_mult_mod_eq [of "m + r - 1" r] pos_mod_sign [OF assms, of "m + r - 1"]
    pos_mod_bound [OF assms, of "m + r - 1"] by linarith+

lemma refilled_on_time:
  assumes "1 \<le> r" "r \<le> 1000" "- (2 ^ 60) \<le> u" "u < 1000"
    and "w = (1000 - u + r - 1) div r"
    and "th_last_refill_ms th = now" "th_tokens_milli th = u - 1000" "th_rate_per_sec th = r"
    and "1000 \<le> th_burst_milli th"
  shows "0 \<le> refilled (now + w) th" "refilled (now + w) th < r" "0 \<le> w"
proof -
  have b: "1000 - u \<le> w * r" "w * r < 1000 - u + r"
    using ceil_div_bounds [of r "1000 - u"] assms(1,5) by simp_all
  show w0: "0 \<le> w"
    using assms by (simp add: pos_imp_zdiv_nonneg_iff)
  have "w * 1 \<le> w * r" using w0 assms(1) by (intro mult_left_mono) auto
  then have "w \<le> 2 ^ 61" using b assms by simp
  then have "sat_i64 w = w" using w0 by (simp add: sat_i64_id i64_min_def i64_max_def)
  moreover have "sat_i64 (w * r) = w * r"
    using b assms by (intro sat_i64_id) (simp_all add: i64_min_def i64_max_def)
  ultimately have "refilled (now + w) th = u - 1000 + w * r"
    using b assms w0 by (simp add: refilled_def)
  then show "0 \<le> refilled (now + w) th" "refilled (now + w) th < r" using b by simp_all
qed

lemma obey_denied:
  assumes "throttle_ok (2000 + 1000 * int n) th" "th_rate_per_sec th \<le> 1000" "refilled now th < 1000"
    and "refilled now th = u" "n \<noteq> 0 \<longrightarrow> - (2 ^ 60) \<le> u"
  shows "length (obey n now th) = n \<and> Allow \<notin> set (obey n now th)"
  using assms
proof (induction n arbitrary: now th u)
  case 0
  then show ?case by simp
next
  case (Suc n)
  let ?r = "th_rate_per_sec th"
  let ?w = "(1000 - u + ?r - 1) div ?r"
  let ?th = "th\<lparr>th_last_refill_ms := now, th_tokens_milli := u - 1000\<rparr>"
  have step: "throttle_try_acquire now th = (Wait ?w, ?th)" and ok: "throttle_ok (2000 + 1000 * int n) ?th"
    using throttle_step [OF Suc.prems(1), of now] Suc.prems(3)
    unfolding Suc.prems(4) by (simp_all add: algebra_simps)
  have r: "1 \<le> ?r" "1000 \<le> th_burst_milli th" using Suc.prems(1) by (simp_all add: throttle_ok_def)
  have next_time: "0 \<le> refilled (now + ?w) ?th" "refilled (now + ?w) ?th < ?r"
    using refilled_on_time [OF r(1) Suc.prems(2), of u ?w ?th now] Suc.prems r by auto
  have "length (obey n (now + ?w) ?th) = n \<and> Allow \<notin> set (obey n (now + ?w) ?th)"
    using Suc.prems(2) next_time by (intro Suc.IH [OF ok _ _ refl]) auto
  then show ?case by (simp add: step)
qed


section \<open>Properties\<close>

text \<open>The breaker opens on exactly the threshold-th consecutive failure and refuses every call until
  the cool-down has elapsed, as long as the wall clock is not adjusted; afterwards, unlike the
  single probe its documentation promises, it admits every call that asks, without bound.\<close>

theorem app_breaker_outage:
  assumes "app_breaker_inv k b" and "ab_state b = 0"
    and "unat (ab_failures b) + length ts + 1 = unat (ab_failure_threshold b)"
    and "list_all (\<lambda>now. t \<le> now \<and> now < t + nat (ab_cool_down b)) later"
    and "t + nat (ab_cool_down b) \<le> now"
  shows "ab_state (failures (record_at k Failure) ts b) = 0
    \<and> fst (attempts (allow_at k) later (failures (record_at k Failure) (ts @ [t]) b)) = replicate (length later) False
    \<and> fst (attempts (allow_at k) (now # probes) (failures (record_at k Failure) (ts @ [t]) b))
      = replicate (Suc (length probes)) True"
proof -
  let ?b = "failures (record_at k Failure) (ts @ [t]) b"
  have op: "opened_since k ?b = Some t" "app_breaker_inv k ?b" "nat (ab_cool_down ?b) = nat (ab_cool_down b)"
    and closed: "ab_state (failures (record_at k Failure) ts b) = 0"
    using app.opens_at_threshold [OF assms(1-3), of t] by simp_all
  have out: "fst (attempts (allow_at k) later ?b) = replicate (length later) False"
    using app.outage [OF assms(1-4)] .
  have half: "ab_state s = 2 \<Longrightarrow> attempts (allow_at k) ps s = (replicate (length ps) True, s)" for ps s
    by (induction ps) (simp_all add: allow_at_def breaker_allow_def)
  have "t + nat (ab_cool_down ?b) \<le> now" unfolding op(3) by (rule assms(5))
  from app.open_probes [OF op(2,1) this] have "fst (allow_at k now ?b)" .
  moreover have "ab_state ?b = 1" using op(1) by (auto simp: opened_since_def split: if_splits)
  ultimately have "fst (allow_at k now ?b) \<and> ab_state (snd (allow_at k now ?b)) = 2"
    by (auto simp: allow_at_def breaker_allow_def Let_def split: if_splits)
  then have "fst (attempts (allow_at k) (now # probes) ?b) = replicate (Suc (length probes)) True"
    using half [of "snd (allow_at k now ?b)" probes] by (simp add: split_beta Let_def)
  with closed out show ?thesis by simp
qed

definition demo_app_breaker :: app_breaker where
  "demo_app_breaker = breaker_new [] 2 5"

theorem app_breaker_outage_witness:
  "ab_state (failures (record_at 0 Failure) [3] demo_app_breaker) = 0
    \<and> fst (attempts (allow_at 0) [4, 8] (failures (record_at 0 Failure) ([3] @ [4]) demo_app_breaker))
      = replicate (length [4, 8 :: nat]) False
    \<and> fst (attempts (allow_at 0) (9 # [9, 9]) (failures (record_at 0 Failure) ([3] @ [4]) demo_app_breaker))
      = replicate (Suc (length [9, 9 :: nat])) True"
  by (rule app_breaker_outage)
    (simp_all add: demo_app_breaker_def breaker_new_def app_breaker_inv_def max_def word_le_nat_alt)

text \<open>C40: Under every interleaving of the compare-and-swap loops of any number of tasks, the counter is
  the number of guards held and never exceeds the capacity.\<close>

theorem bulkhead_never_exceeds_capacity:
  assumes "bulkhead_reachable h n s"
  shows "unat (bh_in_flight (bs_bulkhead s)) = holding (bs_tasks s)
    \<and> holding (bs_tasks s) \<le> unat (bh_capacity h)"
  using bulkhead_reachable_inv [OF assms] by (auto simp: bulkhead_inv_def word_le_nat_alt)

definition demo_race :: bulkhead_system where
  "demo_race = \<lparr>bs_bulkhead = \<lparr>bh_name = [], bh_capacity = 1, bh_in_flight = 1\<rparr>, bs_tasks = [Holding, Idle]\<rparr>"

text \<open>Two tasks read 0, the first exchanges, the second's exchange fails.\<close>

lemma demo_race_reachable: "bulkhead_reachable \<lparr>bh_name = [], bh_capacity = 1, bh_in_flight = 0\<rparr> 2 demo_race"
proof -
  let ?h = "\<lparr>bh_name = [], bh_capacity = 1, bh_in_flight = 0\<rparr> :: bulkhead"
  let ?h1 = "\<lparr>bh_name = [], bh_capacity = 1, bh_in_flight = 1\<rparr> :: bulkhead"
  have s0: "bulkhead_reachable ?h 2 \<lparr>bs_bulkhead = ?h, bs_tasks = [Idle, Idle]\<rparr>"
    using bulkhead_reachable.start [of ?h 2] by (simp add: numeral_2_eq_2)
  have s1: "bulkhead_reachable ?h 2 \<lparr>bs_bulkhead = ?h, bs_tasks = [Loaded 0, Idle]\<rparr>"
    using bulkhead_reachable.step [OF s0 bulkhead_step.load [of 0]] by simp
  have s2: "bulkhead_reachable ?h 2 \<lparr>bs_bulkhead = ?h, bs_tasks = [Loaded 0, Loaded 0]\<rparr>"
    using bulkhead_reachable.step [OF s1 bulkhead_step.load [of 1]] by simp
  have s3: "bulkhead_reachable ?h 2 \<lparr>bs_bulkhead = ?h1, bs_tasks = [Holding, Loaded 0]\<rparr>"
    using bulkhead_reachable.step [OF s2 bulkhead_step.exchange [of 0 _ 0]] by simp
  show ?thesis
    using bulkhead_reachable.step [OF s3 bulkhead_step.retry [of 1 _ 0]] by (simp add: demo_race_def)
qed

theorem bulkhead_never_exceeds_capacity_witness:
  "unat (bh_in_flight (bs_bulkhead demo_race)) = holding (bs_tasks demo_race)
    \<and> holding (bs_tasks demo_race) \<le> unat (bh_capacity \<lparr>bh_name = [], bh_capacity = 1, bh_in_flight = 0\<rparr>)"
  by (rule bulkhead_never_exceeds_capacity [OF demo_race_reachable])

text \<open>The throttle keeps the rate: over any sequence of attempts the number of admissions is at most
  the burst plus the rate times the elapsed seconds.\<close>

theorem throttle_respects_rate:
  assumes "1 \<le> rate" and "rate < 2 ^ 32" and "1 \<le> burst" and "burst < 2 ^ 32"
    and "sorted (t0 # ts)" and "length ts < 2 ^ 40"
  shows "1000 * allows (throttle_run ts (throttle_with_burst name rate burst t0))
    \<le> 1000 * burst + rate * (last (t0 # ts) - t0)"
proof -
  let ?th = "throttle_with_burst name rate burst t0"
  have fields: "th_rate_per_sec ?th = rate" "th_burst_milli ?th = 1000 * burst"
    "th_tokens_milli ?th = 1000 * burst" "th_last_refill_ms ?th = t0"
    using assms by (simp_all add: throttle_with_burst_def Let_def)
  have "int (length ts) < 2 ^ 40" using assms(6) by simp
  then have ok: "throttle_ok (1000 * int (length ts) + 1000) ?th"
    using assms by (simp add: throttle_ok_def fields)
  have "0 \<le> rate * (last (t0 # ts) - t0)"
    using last_time_ge [OF assms(5)] assms(1) by simp
  then show ?thesis
    using throttle_run_bound [OF ok, unfolded fields, OF assms(5)] assms(3)
    by (auto simp: mult.commute)
qed

theorem throttle_respects_rate_witness:
  "1000 * allows (throttle_run [0, 10, 1000, 2500] (throttle_with_burst [] 1 2 0))
    \<le> 1000 * 2 + 1 * (last (0 # [0, 10, 1000, 2500]) - 0)"
  by (rule throttle_respects_rate) simp_all

text \<open>A caller that comes back exactly when the throttle tells it to starves: at up to 1000 tokens
  per second, once refused it is refused at every later attempt, because each refused attempt is
  charged a token as well.\<close>

theorem obedient_caller_starves:
  assumes "throttle_ok (2000 + 1000 * int n) th" and "th_rate_per_sec th \<le> 1000"
    and "throttle_try_acquire now th = (Wait w, th')"
  shows "length (obey n now th) = n \<and> Allow \<notin> set (obey n now th)"
proof -
  have r: "refilled now th < 1000"
    using throttle_step(1) [OF assms(1), of now] assms(3) by (auto split: if_splits)
  have lo: "- (2 ^ 60) \<le> refilled now th"
    using assms(1) earned_bounds(1) [of th now] by (auto simp: throttle_ok_def refilled_def)
  from obey_denied [OF assms(1,2) r refl] lo show ?thesis by blast
qed


definition demo_throttle :: throttle where
  "demo_throttle = (throttle_new [] 1 0)\<lparr>th_tokens_milli := 0\<rparr>"

theorem obedient_caller_starves_witness:
  "length (obey 3 0 demo_throttle) = 3 \<and> Allow \<notin> set (obey 3 0 demo_throttle)"
proof (rule obedient_caller_starves)
  show "throttle_ok (2000 + 1000 * int 3) demo_throttle"
    by (simp add: demo_throttle_def throttle_ok_def throttle_new_def throttle_with_burst_def)
  show "th_rate_per_sec demo_throttle \<le> 1000"
    by (simp add: demo_throttle_def throttle_new_def throttle_with_burst_def)
  show "throttle_try_acquire 0 demo_throttle = (Wait 1000, demo_throttle\<lparr>th_tokens_milli := - 1000\<rparr>)"
    by code_simp
qed

text \<open>With the default burst of one token a recorded \<open>Retry-After\<close> is honoured: every attempt
  before it has passed is refused.\<close>

theorem retry_after_respected:
  assumes "throttle_ok 1000 th" and "th_burst_milli th = 1000"
    and "0 \<le> retry_ms" and "retry_ms < 2 ^ 27"
    and "now \<le> later" and "later < now + retry_ms"
  shows "fst (throttle_try_acquire later (record_retry_after retry_ms now th)) \<noteq> Allow"
proof -
  let ?r = "th_rate_per_sec th"
  have r: "1 \<le> ?r" "?r < 2 ^ 32" and tok: "th_tokens_milli th \<le> 1000" "- (2 ^ 60) + 1000 \<le> th_tokens_milli th"
    using assms(1,2) by (simp_all add: throttle_ok_def)
  have "retry_ms * ?r \<le> 2 ^ 27 * 2 ^ 32"
    using assms(3,4) r by (intro mult_mono) simp_all
  then have prod: "0 \<le> retry_ms * ?r" "retry_ms * ?r \<le> 2 ^ 59" using assms(3) r by simp_all
  have "wrap_i64 retry_ms = retry_ms"
    using assms(3,4) by (intro wrap_i64_id) (simp_all add: i64_min_def i64_max_def)
  moreover have "sat_i64 (retry_ms * ?r) = retry_ms * ?r"
    using prod by (intro sat_i64_id) (simp_all add: i64_min_def i64_max_def)
  moreover have "wrap_i64 (th_tokens_milli th - retry_ms * ?r) = th_tokens_milli th - retry_ms * ?r"
    using prod tok by (intro wrap_i64_id) (simp_all add: i64_min_def i64_max_def)
  ultimately have after: "record_retry_after retry_ms now th =
      th\<lparr>th_tokens_milli := th_tokens_milli th - retry_ms * ?r, th_last_refill_ms := now\<rparr>"
    by (simp add: record_retry_after_def Let_def)
  let ?cur = "th_tokens_milli th - retry_ms * ?r"
  let ?e = "sat_i64 (max (sat_i64 (later - now)) 0 * ?r)"
  have "sat_i64 (later - now) = later - now"
    using assms by (intro sat_i64_id) (simp_all add: i64_min_def i64_max_def)
  moreover have lt: "(later - now) * ?r < retry_ms * ?r"
    using assms(6) r by (intro mult_strict_right_mono) simp_all
  moreover have ge: "0 \<le> (later - now) * ?r" using assms(5) r by simp
  ultimately have e: "?e = (later - now) * ?r"
    using assms(5) prod by (simp add: sat_i64_def i64_min_def i64_max_def)
  have "?cur + ?e < 1000" using lt tok unfolding e by linarith
  moreover have "sat_i64 (?cur + ?e) = ?cur + ?e"
    using tok prod lt ge unfolding e by (intro sat_i64_id) (simp_all add: i64_min_def i64_max_def)
  ultimately have "\<not> 1000 \<le> min (sat_i64 (?cur + ?e)) (th_burst_milli th)" by simp
  then show ?thesis
    by (simp add: throttle_try_acquire_def after Let_def)
qed

theorem retry_after_respected_witness:
  "fst (throttle_try_acquire 199 (record_retry_after 200 0 (throttle_new [] 100 0))) \<noteq> Allow"
  by (rule retry_after_respected) (simp_all add: throttle_ok_def throttle_new_def throttle_with_burst_def)

text \<open>The pre-flight check allows exactly when the breaker, then the throttle, then the bulkhead let
  the call through; it reserves no permit (the bulkhead is left as it was), and a call refused by
  the breaker costs no token.\<close>

theorem policy_check_gates:
  "(fst (policy_check mono_now wall_now now p) = PAllow \<longleftrightarrow>
      snd (fst (breaker_allow mono_now wall_now now (rp_breaker p)))
      \<and> fst (throttle_try_acquire now (rp_throttle p)) = Allow
      \<and> bh_in_flight (rp_bulkhead p) < bh_capacity (rp_bulkhead p))
   \<and> rp_bulkhead (snd (policy_check mono_now wall_now now p)) = rp_bulkhead p
   \<and> (snd (fst (breaker_allow mono_now wall_now now (rp_breaker p)))
      \<or> fst (policy_check mono_now wall_now now p) = PShortCircuit
        \<and> rp_throttle (snd (policy_check mono_now wall_now now p)) = rp_throttle p)"
  by (auto simp: policy_check_def Let_def bulkhead_try_acquire_def guard_drop_def not_le
      split: prod.split throttle_decision.split)

end
