(* ===== verification/Effects.thy ===== *)
theory Effects
  imports Prelude
begin

text \<open>
  Effectful code as state passing: an action takes a state and either returns a value, returns an
  error, or panics, in each case with the state it left; or it never returns (\<open>None\<close>), as an
  \<open>await\<close> that nothing wakes or a loop that does not end. The rules on \<open>keeps\<close> carry an invariant
  of the state through an action whatever its outcome.
\<close>

datatype 'e abort = Fail 'e | Panicked

type_synonym ('s, 'e, 'a) act = "'s \<Rightarrow> (('e abort + 'a) \<times> 's) option"

definition ret :: "'a \<Rightarrow> ('s, 'e, 'a) act" where
  "ret x s = Some (Inr x, s)"

definition fail :: "'e \<Rightarrow> ('s, 'e, 'a) act" where
  "fail e s = Some (Inl (Fail e), s)"

definition panic :: "('s, 'e, 'a) act" where
  "panic s = Some (Inl Panicked, s)"

definition hang :: "('s, 'e, 'a) act" where
  "hang s = None"

definition andthen :: "('s, 'e, 'a) act \<Rightarrow> ('a \<Rightarrow> ('s, 'e, 'b) act) \<Rightarrow> ('s, 'e, 'b) act" where
  "andthen m f s =
     (case m s of
        None \<Rightarrow> None
      | Some (Inl a, s') \<Rightarrow> Some (Inl a, s')
      | Some (Inr x, s') \<Rightarrow> f x s')"

definition update :: "('s \<Rightarrow> 's) \<Rightarrow> ('s, 'e, unit) act" where
  "update f s = Some (Inr (), f s)"

text \<open>An action that looks at the state first.\<close>

definition reading :: "('s \<Rightarrow> ('s, 'e, 'a) act) \<Rightarrow> ('s, 'e, 'a) act" where
  "reading g s = g s s"

definition lift_sum :: "'e + 'a \<Rightarrow> ('s, 'e, 'a) act" where
  "lift_sum r = (case r of Inl e \<Rightarrow> fail e | Inr x \<Rightarrow> ret x)"

text \<open>A loop over a list, with the results collected.\<close>

primrec map_act :: "('x \<Rightarrow> ('s, 'e, 'a) act) \<Rightarrow> 'x list \<Rightarrow> ('s, 'e, 'a list) act" where
  "map_act f [] = ret []"
| "map_act f (x # xs) = andthen (f x) (\<lambda>y. andthen (map_act f xs) (\<lambda>ys. ret (y # ys)))"

text \<open>An action on a part of the state.\<close>

definition zoom ::
  "('s \<Rightarrow> 't) \<Rightarrow> ('t \<Rightarrow> 's \<Rightarrow> 's) \<Rightarrow> ('t, 'e, 'a) act \<Rightarrow> ('s, 'e, 'a) act" where
  "zoom get put m s = map_option (\<lambda>(r, t). (r, put t s)) (m (get s))"

text \<open>Another type of errors.\<close>

definition map_error :: "('e \<Rightarrow> 'f) \<Rightarrow> ('s, 'e, 'a) act \<Rightarrow> ('s, 'f, 'a) act" where
  "map_error h m s = map_option (\<lambda>(r, s'). (map_sum (map_abort h) id r, s')) (m s)"

section \<open>Laws\<close>

named_theorems act_simps

lemma andthen_ret [simp]: "andthen (ret x) f = f x" "andthen m ret = m"
  by (auto simp: andthen_def ret_def fun_eq_iff split: option.split sum.split prod.split)

lemma andthen_assoc: "andthen (andthen m f) g = andthen m (\<lambda>x. andthen (f x) g)"
  by (auto simp: andthen_def fun_eq_iff split: option.split sum.split prod.split)

lemma andthen_stop [simp]:
  "andthen (fail e) f = fail e" "andthen panic f = panic" "andthen hang f = hang"
  by (simp_all add: andthen_def fail_def panic_def hang_def fun_eq_iff)

lemma ret_apply [act_simps]: "ret x s = Some (Inr x, s)"
  and fail_apply [act_simps]: "fail e s = Some (Inl (Fail e), s)"
  and panic_apply [act_simps]: "panic s = Some (Inl Panicked, s)"
  and hang_apply [act_simps]: "hang s = None"
  and update_apply [act_simps]: "update f s = Some (Inr (), f s)"
  by (simp_all add: ret_def fail_def panic_def hang_def update_def)

lemma andthen_apply [act_simps]:
  "m s = None \<Longrightarrow> andthen m f s = None"
  "m s = Some (Inl a, s') \<Longrightarrow> andthen m f s = Some (Inl a, s')"
  "m s = Some (Inr x, s') \<Longrightarrow> andthen m f s = f x s'"
  by (simp_all add: andthen_def)

lemma andthen_Some_iff:
  "andthen m f s = Some (r, s'') \<longleftrightarrow>
     (\<exists>a. m s = Some (Inl a, s'') \<and> r = Inl a) \<or> (\<exists>x s'. m s = Some (Inr x, s') \<and> f x s' = Some (r, s''))"
  by (auto simp: andthen_def split: option.split sum.split prod.split)

lemma andthen_Inr_iff:
  "andthen m f s = Some (Inr y, s'') \<longleftrightarrow>
     (\<exists>x s'. m s = Some (Inr x, s') \<and> f x s' = Some (Inr y, s''))"
  by (auto simp: andthen_Some_iff)

lemma andthen_None_iff:
  "andthen m f s = None \<longleftrightarrow> m s = None \<or> (\<exists>x s'. m s = Some (Inr x, s') \<and> f x s' = None)"
  by (auto simp: andthen_def split: option.split sum.split prod.split)

lemma map_act_length: "map_act f xs s = Some (Inr ys, s') \<Longrightarrow> length ys = length xs"
  by (induction xs arbitrary: s ys s') (auto simp: ret_apply andthen_Inr_iff)

section \<open>Invariants\<close>

definition keeps :: "('s \<Rightarrow> bool) \<Rightarrow> ('s, 'e, 'a) act \<Rightarrow> bool" where
  "keeps I m \<longleftrightarrow> (\<forall>s r s'. I s \<longrightarrow> m s = Some (r, s') \<longrightarrow> I s')"

text \<open>The values an action can return from a state of the invariant.\<close>

definition yields :: "('s \<Rightarrow> bool) \<Rightarrow> ('s, 'e, 'a) act \<Rightarrow> ('a \<Rightarrow> bool) \<Rightarrow> bool" where
  "yields I m Q \<longleftrightarrow> (\<forall>s x s'. I s \<longrightarrow> m s = Some (Inr x, s') \<longrightarrow> Q x)"

text \<open>An action that always returns.\<close>

definition returns :: "('s, 'e, 'a) act \<Rightarrow> bool" where
  "returns m \<longleftrightarrow> (\<forall>s. m s \<noteq> None)"

named_theorems keeps_intros
named_theorems returns_intros

lemma keepsI: "(\<And>s r s'. I s \<Longrightarrow> m s = Some (r, s') \<Longrightarrow> I s') \<Longrightarrow> keeps I m"
  by (simp add: keeps_def)

lemma keepsD: "keeps I m \<Longrightarrow> m s = Some (r, s') \<Longrightarrow> I s \<Longrightarrow> I s'"
  by (simp add: keeps_def)

lemma yieldsD: "yields I m Q \<Longrightarrow> m s = Some (Inr x, s') \<Longrightarrow> I s \<Longrightarrow> Q x"
  by (simp add: yields_def)

lemma keeps_basic [keeps_intros]:
  "keeps I (ret x)" "keeps I (fail e)" "keeps I panic" "keeps I hang"
  by (simp_all add: keeps_def ret_def fail_def panic_def hang_def)

lemma keeps_andthen [keeps_intros]: "keeps I m \<Longrightarrow> (\<And>x. keeps I (f x)) \<Longrightarrow> keeps I (andthen m f)"
  unfolding keeps_def andthen_Some_iff by blast

lemma keeps_andthen_yields:
  "keeps I m \<Longrightarrow> yields I m Q \<Longrightarrow> (\<And>x. Q x \<Longrightarrow> keeps I (f x)) \<Longrightarrow> keeps I (andthen m f)"
  unfolding keeps_def yields_def andthen_Some_iff by blast

lemma keeps_reading: "(\<And>s. I s \<Longrightarrow> keeps I (g s)) \<Longrightarrow> keeps I (reading g)"
  unfolding keeps_def reading_def by blast

lemma keeps_True: "keeps (\<lambda>_. True) m"
  by (simp add: keeps_def)

lemma keeps_update: "(\<And>s. I s \<Longrightarrow> I (f s)) \<Longrightarrow> keeps I (update f)"
  by (simp add: keeps_def update_def)

lemma keeps_map_act: "(\<And>x. x \<in> set xs \<Longrightarrow> keeps I (f x)) \<Longrightarrow> keeps I (map_act f xs)"
  by (induction xs) (auto intro!: keeps_intros)

lemma keeps_lift_sum [keeps_intros]: "keeps I (lift_sum r)"
  by (cases r) (simp_all add: lift_sum_def keeps_intros)

lemma keeps_map_error [keeps_intros]: "keeps I m \<Longrightarrow> keeps I (map_error h m)"
  by (fastforce simp: keeps_def map_error_def)

lemma keeps_zoom:
  "keeps J m \<Longrightarrow> (\<And>s. I s \<Longrightarrow> J (get s)) \<Longrightarrow> (\<And>s t. I s \<Longrightarrow> J t \<Longrightarrow> I (put t s)) \<Longrightarrow> keeps I (zoom get put m)"
  by (fastforce simp: keeps_def zoom_def)

named_theorems yields_intros

lemma yields_ret: "Q x \<Longrightarrow> yields I (ret x) Q"
  by (simp add: yields_def ret_def)

lemma yields_stop: "yields I (fail e) Q" "yields I panic Q" "yields I hang Q"
  by (simp_all add: yields_def fail_def panic_def hang_def)

lemma yields_andthen:
  "keeps I m \<Longrightarrow> yields I m P \<Longrightarrow> (\<And>x. P x \<Longrightarrow> yields I (f x) Q) \<Longrightarrow> yields I (andthen m f) Q"
  unfolding yields_def keeps_def andthen_Inr_iff by blast

lemma yields_andthen_any:
  "keeps I m \<Longrightarrow> (\<And>x. yields I (f x) Q) \<Longrightarrow> yields I (andthen m f) Q"
  unfolding yields_def keeps_def andthen_Inr_iff by blast

lemma yields_reading: "(\<And>s. I s \<Longrightarrow> yields I (g s) Q) \<Longrightarrow> yields I (reading g) Q"
  unfolding yields_def reading_def by blast

lemma yields_map_act:
  "(\<And>x. x \<in> set xs \<Longrightarrow> keeps I (f x)) \<Longrightarrow> (\<And>x. x \<in> set xs \<Longrightarrow> yields I (f x) (R x))
     \<Longrightarrow> yields I (map_act f xs) (list_all2 R xs)"
proof (induction xs)
  case (Cons x xs)
  then show ?case
    by (auto intro!: yields_andthen [where P = "R x"] yields_andthen [where P = "list_all2 R xs"]
        yields_ret keeps_map_act)
qed (simp add: yields_ret)

lemma map_sum_InrD: "Inr x = map_sum f id r \<Longrightarrow> r = Inr x"
  by (cases r) auto

lemma yields_map_error: "yields I m Q \<Longrightarrow> yields I (map_error h m) Q"
  by (auto simp: yields_def map_error_def dest!: map_sum_InrD [OF sym])

lemma yields_zoom:
  "yields J m Q \<Longrightarrow> (\<And>s. I s \<Longrightarrow> J (get s)) \<Longrightarrow> yields I (zoom get put m) Q"
  by (fastforce simp: yields_def zoom_def)

lemma yields_conj: "yields I m P \<Longrightarrow> yields I m Q \<Longrightarrow> yields I m (\<lambda>x. P x \<and> Q x)"
  by (simp add: yields_def)

lemma returns_reading: "(\<And>s. returns (g s)) \<Longrightarrow> returns (reading g)"
  by (simp add: returns_def reading_def)

lemma returns_basic [returns_intros]: "returns (ret x)" "returns (fail e)" "returns panic" "returns (update f)"
  by (simp_all add: returns_def ret_def fail_def panic_def update_def)

lemma returns_andthen [returns_intros]: "returns m \<Longrightarrow> (\<And>x. returns (f x)) \<Longrightarrow> returns (andthen m f)"
  unfolding returns_def andthen_None_iff by blast

lemma returns_map_act: "(\<And>x. x \<in> set xs \<Longrightarrow> returns (f x)) \<Longrightarrow> returns (map_act f xs)"
  by (induction xs) (auto intro!: returns_intros)

lemma returns_lift [returns_intros]:
  "returns m \<Longrightarrow> returns (map_error h m)" "returns m' \<Longrightarrow> returns (zoom get put m')" "returns (lift_sum r)"
  by (simp_all add: returns_def map_error_def zoom_def lift_sum_def ret_def fail_def split: sum.split)

end
