(* ===== verification/Elements.thy ===== *)
theory Elements
  imports Prelude
begin

text \<open>
  \<open>forge_template/src/element.rs\<close>: the elements reminders and results are rendered with. The
  escaping of text (crate \<open>html_escape\<close>) is the parameter \<open>esc\<close>.
\<close>

datatype element =
  Element (el_name: rstr) (el_attr: "(rstr \<times> rstr) list") (el_children: "element list")
    (el_text: "rstr option")

definition element_new :: "rstr \<Rightarrow> element" where
  "element_new full_name =
     (let parts = split_on 46 full_name
      in Element (hd parts)
           (if 1 < length parts then [(lit ''class'', join [32] (tl parts))] else []) [] None)"

definition element_text :: "(rstr \<Rightarrow> rstr) \<Rightarrow> rstr \<Rightarrow> element \<Rightarrow> element" where
  "element_text esc t e = Element (el_name e) (el_attr e) (el_children e) (Some (esc t))"

definition element_cdata :: "rstr \<Rightarrow> element \<Rightarrow> element" where
  "element_cdata t e =
     Element (el_name e) (el_attr e) (el_children e) (Some (lit ''<![CDATA['' @ t @ lit '']]>''))"

definition element_span :: "(rstr \<Rightarrow> rstr) \<Rightarrow> rstr \<Rightarrow> element" where
  "element_span esc t = element_text esc t (element_new (lit ''span''))"

definition element_attr :: "rstr \<Rightarrow> rstr \<Rightarrow> element \<Rightarrow> element" where
  "element_attr k v e = Element (el_name e) (el_attr e @ [(k, v)]) (el_children e) (el_text e)"

definition element_attr_if_some :: "rstr \<Rightarrow> rstr option \<Rightarrow> element \<Rightarrow> element" where
  "element_attr_if_some k v e = (case v of Some x \<Rightarrow> element_attr k x e | None \<Rightarrow> e)"

text \<open>The first attribute \<open>class\<close> is extended; its key is written again.\<close>

definition element_class :: "rstr \<Rightarrow> element \<Rightarrow> element" where
  "element_class class_name e =
     (case find_index (\<lambda>(k, v). k = lit ''class'') (el_attr e) of
        Some pos \<Rightarrow>
          Element (el_name e)
            ((el_attr e)[pos := (lit ''class'', snd (el_attr e ! pos) @ [32] @ class_name)])
            (el_children e) (el_text e)
      | None \<Rightarrow> element_attr (lit ''class'') class_name e)"

definition element_append :: "element list \<Rightarrow> element \<Rightarrow> element" where
  "element_append items e = Element (el_name e) (el_attr e) (el_children e @ items) (el_text e)"

definition render_attr :: "rstr \<times> rstr \<Rightarrow> rstr" where
  "render_attr kv = [10, 32, 32] @ fst kv @ lit ''='' @ [34] @ snd kv @ [34]"

fun element_render :: "element \<Rightarrow> rstr" where
  "element_render (Element name attr children text) =
     (if attr = [] then lit ''<'' @ name @ lit ''>''
      else lit ''<'' @ name @ concat (map render_attr attr) @ [10] @ lit ''>'')
     @ (case text of Some t \<Rightarrow> t | None \<Rightarrow> [])
     @ concat (map (\<lambda>child. 10 # element_render child) children)
     @ (if children = [] \<and> attr = [] then lit ''</'' @ name @ lit ''>''
        else 10 # lit ''</'' @ name @ lit ''>'')"

section \<open>Properties\<close>

fun element_count :: "element \<Rightarrow> nat" where
  "element_count (Element name attr children text) = Suc (sum_list (map element_count children))"

text \<open>No name, attribute or text of the tree holds a \<open>less-than\<close> sign (60).\<close>

fun no_markup :: "element \<Rightarrow> bool" where
  "no_markup (Element name attr children text) \<longleftrightarrow>
     60 \<notin> set name \<and> (\<forall>kv \<in> set attr. 60 \<notin> set (fst kv) \<and> 60 \<notin> set (snd kv))
     \<and> (case text of Some t \<Rightarrow> 60 \<notin> set t | None \<Rightarrow> True)
     \<and> list_all no_markup children"

abbreviation tags :: "rstr \<Rightarrow> nat" where
  "tags s \<equiv> count_list s 60"

lemma tags_none: "60 \<notin> set s \<Longrightarrow> tags s = 0"
  by (simp add: count_list_0_iff)

lemma tags_concat: "tags (concat ss) = sum_list (map tags ss)"
  by (induction ss) simp_all

lemma tags_attr: "60 \<notin> set (fst kv) \<Longrightarrow> 60 \<notin> set (snd kv) \<Longrightarrow> tags (render_attr kv) = 0"
  by (simp add: render_attr_def tags_none lit_def)

lemma tags_attrs:
  "\<forall>kv \<in> set attr. 60 \<notin> set (fst kv) \<and> 60 \<notin> set (snd kv) \<Longrightarrow> tags (concat (map render_attr attr)) = 0"
  by (induction attr) (simp_all add: tags_attr)

lemma tags_lits [simp]: "tags (lit ''<'') = 1" "tags (lit ''>'') = 0" "tags (lit ''</'') = 1"
  by (simp_all add: lit_def)

lemma tags_children:
  assumes "\<And>c. c \<in> set cs \<Longrightarrow> tags (element_render c) = 2 * element_count c"
  shows "tags (concat (map (\<lambda>child. 10 # element_render child) cs)) = 2 * sum_list (map element_count cs)"
  using assms by (induction cs) simp_all

text \<open>Markup comes from elements alone: if names, attributes and (escaped) texts hold no
  less-than sign, the rendering has exactly two tags per element of the tree.\<close>

theorem render_tags:
  assumes "no_markup e"
  shows "tags (element_render e) = 2 * element_count e"
  using assms
proof (induction e)
  case (Element name attr children content)
  have "tags (concat (map (\<lambda>child. 10 # element_render child) children)) =
      2 * sum_list (map element_count children)"
    using Element by (intro tags_children) (simp add: list_all_iff)
  then show ?case
    using Element.prems by (cases content) (simp_all add: tags_none tags_attrs)
qed

theorem render_tags_witness:
  "tags (element_render (element_append [element_text (\<lambda>t. t) (lit ''a'') (element_new (lit ''b''))]
      (element_class (lit ''y'') (element_new (lit ''c.x''))))) = 4"
  using render_tags [of "element_append [element_text (\<lambda>t. t) (lit ''a'') (element_new (lit ''b''))]
      (element_class (lit ''y'') (element_new (lit ''c.x'')))"]
  by code_simp

end
