(* ===== verification/Lifecycle.thy ===== *)
theory Lifecycle
  imports Effects Elements Agents Doom_Loop Stream_Collect
begin

text \<open>
  The lifecycle hooks of the agent loop: events, handlers, their sequential combination and the
  dispatch (\<open>forge_domain/src/hook.rs\<close>), and the handlers of \<open>forge_app/src/hooks\<close> that change the
  conversation (\<open>auto_repair.rs\<close>, \<open>pending_todos.rs\<close>, \<open>doom_loop.rs\<close>; \<open>sandbox.rs\<close> only logs).
  A handler acts on the conversation and on a world \<open>'w\<close> of everything else.
\<close>

section \<open>Events and hooks\<close>

record 'p event_data =
  ed_agent :: agent
  ed_model_id :: rstr
  ed_payload :: 'p

record request_payload =
  rp_request_count :: nat

record 'v response_payload =
  rp_message :: "'v completion_full"

record 'v toolcall_start_payload =
  sp_tool_call :: "'v tool_call_full"

record 'v toolcall_end_payload =
  ep_tool_call :: "'v tool_call_full"
  ep_result :: tool_result

datatype 'v lifecycle_event =
    LStart "unit event_data"
  | LEnd "unit event_data"
  | LRequest "request_payload event_data"
  | LResponse "'v response_payload event_data"
  | LToolcallStart "'v toolcall_start_payload event_data"
  | LToolcallEnd "'v toolcall_end_payload event_data"

type_synonym ('v, 'w, 'e, 'p) handler =
  "'p event_data \<Rightarrow> ('v conversation \<times> 'w, 'e, unit) act"

record ('v, 'w, 'e) hook =
  hk_on_start :: "('v, 'w, 'e, unit) handler"
  hk_on_end :: "('v, 'w, 'e, unit) handler"
  hk_on_request :: "('v, 'w, 'e, request_payload) handler"
  hk_on_response :: "('v, 'w, 'e, 'v response_payload) handler"
  hk_on_toolcall_start :: "('v, 'w, 'e, 'v toolcall_start_payload) handler"
  hk_on_toolcall_end :: "('v, 'w, 'e, 'v toolcall_end_payload) handler"

definition noop_handler :: "('v, 'w, 'e, 'p) handler" where
  "noop_handler ev = ret ()"

definition and_handler ::
  "('v, 'w, 'e, 'p) handler \<Rightarrow> ('v, 'w, 'e, 'p) handler \<Rightarrow> ('v, 'w, 'e, 'p) handler" where
  "and_handler h1 h2 ev = andthen (h1 ev) (\<lambda>_. h2 ev)"

definition hook_default :: "('v, 'w, 'e) hook" where
  "hook_default =
     \<lparr>hk_on_start = noop_handler, hk_on_end = noop_handler, hk_on_request = noop_handler,
      hk_on_response = noop_handler, hk_on_toolcall_start = noop_handler,
      hk_on_toolcall_end = noop_handler\<rparr>"

definition hook_zip :: "('v, 'w, 'e) hook \<Rightarrow> ('v, 'w, 'e) hook \<Rightarrow> ('v, 'w, 'e) hook" where
  "hook_zip h other =
     \<lparr>hk_on_start = and_handler (hk_on_start h) (hk_on_start other),
      hk_on_end = and_handler (hk_on_end h) (hk_on_end other),
      hk_on_request = and_handler (hk_on_request h) (hk_on_request other),
      hk_on_response = and_handler (hk_on_response h) (hk_on_response other),
      hk_on_toolcall_start = and_handler (hk_on_toolcall_start h) (hk_on_toolcall_start other),
      hk_on_toolcall_end = and_handler (hk_on_toolcall_end h) (hk_on_toolcall_end other)\<rparr>"

fun hook_handle ::
  "('v, 'w, 'e) hook \<Rightarrow> 'v lifecycle_event \<Rightarrow> ('v conversation \<times> 'w, 'e, unit) act" where
  "hook_handle h (LStart ev) = hk_on_start h ev"
| "hook_handle h (LEnd ev) = hk_on_end h ev"
| "hook_handle h (LRequest ev) = hk_on_request h ev"
| "hook_handle h (LResponse ev) = hk_on_response h ev"
| "hook_handle h (LToolcallStart ev) = hk_on_toolcall_start h ev"
| "hook_handle h (LToolcallEnd ev) = hk_on_toolcall_end h ev"

text \<open>A handler that is a pure function of the event and the conversation and may fail.\<close>

definition pure_handler ::
  "('p event_data \<Rightarrow> 'v conversation \<Rightarrow> 'e + 'v conversation) \<Rightarrow> ('v, 'w, 'e, 'p) handler" where
  "pure_handler f ev = (\<lambda>(cv, w).
     case f ev cv of
       Inl e \<Rightarrow> Some (Inl (Fail e), (cv, w))
     | Inr cv' \<Rightarrow> Some (Inr (), (cv', w)))"

section \<open>Reminding the agent to test\<close>

record auto_repair_hook =
  ar_enabled :: bool
  ar_test_command :: "rstr option"
  ar_lint_command :: "rstr option"

definition auto_repair_new :: auto_repair_hook where
  "auto_repair_new = \<lparr>ar_enabled = True, ar_test_command = None, ar_lint_command = None\<rparr>"

definition is_file_modifying_tool :: "rstr \<Rightarrow> bool" where
  "is_file_modifying_tool tool_name \<longleftrightarrow>
     to_lowercase tool_name \<in> {lit ''write'', lit ''patch'', lit ''multi_patch'', lit ''multipatch'',
       lit ''remove''}"

text \<open>8212 is the em dash of the message.\<close>

definition build_repair_message :: "auto_repair_hook \<Rightarrow> rstr" where
  "build_repair_message h =
     (let test_cmd = (case ar_test_command h of Some c \<Rightarrow> c | None \<Rightarrow> lit ''the project'' @ [39] @ lit ''s test suite'');
          lint_cmd = (case ar_lint_command h of Some c \<Rightarrow> c | None \<Rightarrow> lit ''the project'' @ [39] @ lit ''s linter'')
      in lit ''[Auto-Repair] You just modified a file. Please run '' @ test_cmd @ lit '' and ''
         @ lint_cmd @ lit '' to verify the change compiles and passes all checks. If there are failures, fix them before proceeding. This is an automatic quality gate ''
         @ [8212] @ lit '' do not skip it.'')"

definition auto_repair_handle ::
  "auto_repair_hook \<Rightarrow> 'v toolcall_end_payload event_data \<Rightarrow> 'v conversation \<Rightarrow> 'v conversation" where
  "auto_repair_handle h ev cv =
     (if \<not> ar_enabled h then cv
      else if \<not> is_file_modifying_tool (tc_name (ep_tool_call (ed_payload ev))) then cv
      else if result_is_error (ep_result (ed_payload ev)) then cv
      else case cv_context cv of
             Some c \<Rightarrow> cv\<lparr>cv_context := Some (add_message c (msg_system (build_repair_message h)))\<rparr>
           | None \<Rightarrow> cv)"

definition is_shell_tool :: "rstr \<Rightarrow> bool" where
  "is_shell_tool tool_name \<longleftrightarrow>
     to_lowercase tool_name \<in> {lit ''shell'', lit ''bash'', lit ''sh'', lit ''powershell'', lit ''cmd''}"

text \<open>What the sandbox hook logs; the conversation is not touched.\<close>

definition sandbox_handle ::
  "bool \<Rightarrow> 'v toolcall_end_payload event_data \<Rightarrow> 'v conversation \<Rightarrow> rstr option \<times> 'v conversation" where
  "sandbox_handle enabled ev cv =
     (if \<not> enabled \<or> \<not> is_shell_tool (tc_name (ep_tool_call (ed_payload ev))) then (None, cv)
      else (Some (if result_is_error (ep_result (ed_payload ev)) then lit ''error'' else lit ''success''), cv))"

section \<open>Reminding the agent of its todos\<close>

definition reminder_marker :: rstr where
  "reminder_marker = lit ''You have pending todo items''"

definition reminder_line_todo :: "rstr \<Rightarrow> rstr" where
  "reminder_line_todo line = (case split_once (lit ''] '') line of Some (_, x) \<Rightarrow> x | None \<Rightarrow> [])"

text \<open>The todos a message reminds of, if it is a reminder.\<close>

definition reminder_todos :: "'v message_entry \<Rightarrow> rstr set option" where
  "reminder_todos entry =
     (case msg_content (me_message entry) of
        None \<Rightarrow> None
      | Some content \<Rightarrow>
          if str_contains content reminder_marker
          then Some (set (map reminder_line_todo
                 (filter (\<lambda>line. starts_with line (lit ''- ['')) (str_lines content))))
          else None)"

definition should_remind :: "'v chat_context option \<Rightarrow> todo list \<Rightarrow> bool" where
  "should_remind context pending =
     (case context of
        None \<Rightarrow> True
      | Some c \<Rightarrow>
          (case find_map reminder_todos (rev (ctx_messages c)) of
             Some last_todos \<Rightarrow> last_todos \<noteq> set (map tdo_content pending)
           | None \<Rightarrow> True))"

definition reminder_items :: "todo list \<Rightarrow> (rstr \<times> rstr) list" where
  "reminder_items pending =
     List.map_filter (\<lambda>t. case tdo_status t of
         Pending \<Rightarrow> Some (lit ''PENDING'', tdo_content t)
       | InProgress \<Rightarrow> Some (lit ''IN_PROGRESS'', tdo_content t)
       | _ \<Rightarrow> None) pending"

text \<open>\<open>render\<close> is the template engine on \<open>forge-pending-todos-reminder.md\<close>.\<close>

definition pending_todos_handle ::
  "((rstr \<times> rstr) list \<Rightarrow> 'e + rstr) \<Rightarrow> (rstr \<Rightarrow> rstr) \<Rightarrow> 'v conversation \<Rightarrow> 'e + 'v conversation" where
  "pending_todos_handle render esc cv =
     (let pending = get_active_todos (cv_metrics cv)
      in if pending = [] then Inr cv
         else if \<not> should_remind (cv_context cv) pending then Inr cv
         else case render (reminder_items pending) of
             Inl e \<Rightarrow> Inl e
           | Inr reminder \<Rightarrow>
               (case cv_context cv of
                  None \<Rightarrow> Inr cv
                | Some c \<Rightarrow>
                    let content = element_render (element_text esc reminder
                          (element_new (lit ''system_reminder'')))
                    in Inr (cv\<lparr>cv_context := Some
                         (c\<lparr>ctx_messages := ctx_messages c @ [entry_of (msg_user content None)]\<rparr>)\<rparr>)))"

text \<open>
  The template itself, as the template engine renders it: lines that hold only a block tag are
  dropped, values are not escaped.
\<close>

definition reminder_template :: "(rstr \<times> rstr) list \<Rightarrow> rstr" where
  "reminder_template items =
     lit ''You have pending todo items that must be completed before finishing the task:'' @ [10, 10]
     @ concat (map (\<lambda>(status, content). lit ''- ['' @ status @ lit ''] '' @ content @ [10]) items)
     @ [10] @ lit ''Please complete all pending items before finishing.''"

definition doom_loop_handler ::
  "(nat \<Rightarrow> 'e + rstr) \<Rightarrow> nat \<Rightarrow> 'v conversation \<Rightarrow> 'e + 'v conversation" where
  "doom_loop_handler render threshold cv =
     (case doom_loop_handle render threshold (cv_context cv) of
        Inl e \<Rightarrow> Inl e
      | Inr c \<Rightarrow> Inr (cv\<lparr>cv_context := c\<rparr>))"

section \<open>Handlers that only append\<close>

definition conv_messages :: "'v conversation \<Rightarrow> 'v message_entry list" where
  "conv_messages cv = (case cv_context cv of Some c \<Rightarrow> ctx_messages c | None \<Rightarrow> [])"

lemma conv_len_messages: "conv_len cv = length (conv_messages cv)"
  by (simp add: conv_len_def conv_messages_def split: option.split)

text \<open>
  The contract of the handlers that talk to the agent: they add messages that are neither tool
  calls nor results, nor droppable, nor the assistant's, at the end, and change nothing else of the
  conversation.
\<close>

definition reminder_message :: "'v context_message \<Rightarrow> bool" where
  "reminder_message m \<longleftrightarrow> plain_message m \<and> \<not> is_droppable m \<and> \<not> has_role m Assistant"

locale reminder_handler =
  fixes h :: "'v conversation \<Rightarrow> 'e + 'v conversation"
  assumes appends: "h cv = Inr cv' \<Longrightarrow>
    \<exists>ms. list_all (\<lambda>e. reminder_message (me_message e)) ms \<and> conv_messages cv' = conv_messages cv @ ms"
  and keeps_rest: "h cv = Inr cv' \<Longrightarrow> cv'\<lparr>cv_context := c\<rparr> = cv\<lparr>cv_context := c\<rparr>"
begin

lemma keeps_paired: "h cv = Inr cv' \<Longrightarrow> paired (conv_messages cv) \<Longrightarrow> paired (conv_messages cv')"
proof -
  assume "h cv = Inr cv'" "paired (conv_messages cv)"
  then obtain ms where "list_all (\<lambda>e. reminder_message (me_message e)) ms" "conv_messages cv' = conv_messages cv @ ms"
    using appends by blast
  moreover from this(1) have "paired ms"
    by (intro paired_plain) (auto simp: reminder_message_def list_all_iff)
  ultimately show ?thesis
    using \<open>paired (conv_messages cv)\<close> by (simp add: paired_append)
qed

lemma never_shortens: "h cv = Inr cv' \<Longrightarrow> conv_len cv \<le> conv_len cv'"
  using appends by (fastforce simp: conv_len_messages)

lemma handler_keeps:
  "keeps (\<lambda>(cv, w). paired (conv_messages cv) \<and> J w) (pure_handler (\<lambda>_. h) ev)"
  using keeps_paired by (fastforce simp: keeps_def pure_handler_def split: sum.splits)

text \<open>The same for every property of histories that reminders do not disturb.\<close>

lemma handler_keeps_history:
  assumes "\<And>ms rs. H ms \<Longrightarrow> list_all (\<lambda>e. reminder_message (me_message e)) rs \<Longrightarrow> H (ms @ rs)"
  shows "keeps (\<lambda>(cv, w). H (conv_messages cv) \<and> J w) (pure_handler (\<lambda>_. h) ev)"
  unfolding keeps_def pure_handler_def
  using appends assms by (fastforce split: sum.splits)

lemma handler_returns: "returns (pure_handler (\<lambda>_. h) ev)"
  by (simp add: returns_def pure_handler_def split: sum.split)

end

lemma plain_reminder [simp]:
  "reminder_message (msg_user s m)" "reminder_message (msg_system s)"
  by (simp_all add: reminder_message_def plain_message_def msg_user_def msg_system_def text_new_def)

interpretation auto_repair: reminder_handler "\<lambda>cv. Inr (auto_repair_handle h ev cv)" for h ev
  by unfold_locales
    (auto simp: auto_repair_handle_def conv_messages_def add_message_def split: option.splits if_splits)

interpretation sandbox: reminder_handler "\<lambda>cv. Inr (snd (sandbox_handle enabled ev cv))" for enabled ev
  by unfold_locales (auto simp: sandbox_handle_def split: if_splits)

interpretation pending_todos: reminder_handler "pending_todos_handle render esc" for render esc
  by unfold_locales
    (auto simp: pending_todos_handle_def conv_messages_def Let_def
      split: option.splits if_splits sum.splits)

interpretation doom_loop: reminder_handler "doom_loop_handler render threshold" for render threshold
  by unfold_locales
    (auto simp: doom_loop_handler_def doom_loop_handle_def conv_messages_def
      split: option.splits if_splits sum.splits)

section \<open>Combination\<close>

lemma and_handler_keeps: "keeps I (h1 ev) \<Longrightarrow> keeps I (h2 ev) \<Longrightarrow> keeps I (and_handler h1 h2 ev)"
  by (simp add: and_handler_def keeps_andthen)

lemma and_handler_returns: "returns (h1 ev) \<Longrightarrow> returns (h2 ev) \<Longrightarrow> returns (and_handler h1 h2 ev)"
  by (simp add: and_handler_def returns_andthen)

definition hook_keeps :: "('v conversation \<times> 'w \<Rightarrow> bool) \<Rightarrow> ('v, 'w, 'e) hook \<Rightarrow> bool" where
  "hook_keeps I h \<longleftrightarrow> (\<forall>ev. keeps I (hook_handle h ev))"

lemma hook_zip_handle: "hook_handle (hook_zip a b) ev = andthen (hook_handle a ev) (\<lambda>_. hook_handle b ev)"
  by (cases ev) (simp_all add: hook_zip_def and_handler_def [abs_def])

lemma hook_keeps_zip: "hook_keeps I a \<Longrightarrow> hook_keeps I b \<Longrightarrow> hook_keeps I (hook_zip a b)"
  by (simp add: hook_keeps_def hook_zip_handle keeps_andthen)

lemma hook_keeps_default: "hook_keeps I hook_default"
  unfolding hook_keeps_def
proof
  fix ev
  show "keeps I (hook_handle hook_default ev)"
    by (cases ev) (simp_all add: hook_default_def noop_handler_def [abs_def] keeps_intros)
qed

text \<open>Hooks form a monoid under \<open>zip\<close>: the order of grouping does not matter, the default hook
  is neutral on both sides, and a zipped hook runs the first hook's handler and, unless it
  failed, the second's on the conversation the first left.\<close>

theorem hook_zip_monoid:
  "hook_zip (hook_zip a b) c = hook_zip a (hook_zip b c)
   \<and> hook_zip hook_default a = a \<and> hook_zip a hook_default = a
   \<and> hook_handle (hook_zip a b) ev = andthen (hook_handle a ev) (\<lambda>_. hook_handle b ev)"
  by (simp add: hook_zip_handle)
    (simp add: hook_zip_def hook_default_def and_handler_def noop_handler_def [abs_def] andthen_assoc fun_eq_iff)

section \<open>The reminder read back\<close>

lemma split_on_fresh: "d \<notin> set x \<Longrightarrow> split_on d (x @ d # y) = x # split_on d y"
  by (induction x) simp_all

lemma split_on_single: "d \<notin> set x \<Longrightarrow> split_on d x = [x]"
  by (induction x) simp_all

lemma split_on_not_Nil [simp]: "split_on d s \<noteq> []"
  by (induction s) (auto split: list.split)

lemma split_on_parts: "x \<in> set (split_on d s) \<Longrightarrow> d \<notin> set x"
proof (induction s arbitrary: x)
  case (Cons c s)
  then show ?case by (cases "split_on d s") (auto split: if_splits)
qed simp

lemma str_lines_line: "10 \<notin> set x \<Longrightarrow> str_lines (x @ 10 # y) = strip_cr x # str_lines y"
  by (simp add: str_lines_def split_on_fresh Let_def)

lemma str_lines_empty: "str_lines (10 # y) = [] # str_lines y"
  using str_lines_line [of "[]" y] by (simp add: strip_cr_def)

lemma str_lines_last: "10 \<notin> set x \<Longrightarrow> x \<noteq> [] \<Longrightarrow> str_lines x = [x]"
  by (simp add: str_lines_def split_on_single Let_def)

lemma strip_cr_id: "13 \<notin> set x \<Longrightarrow> strip_cr x = x"
  by (auto simp: strip_cr_def dest: last_in_set)

lemma strip_cr_subset: "set (strip_cr x) \<subseteq> set x"
  by (auto simp: strip_cr_def dest: in_set_butlastD)

lemma str_lines_no_newline: "x \<in> set (str_lines s) \<Longrightarrow> 10 \<notin> set x"
  using strip_cr_subset last_in_set [OF split_on_not_Nil]
  by (fastforce simp: str_lines_def Let_def dest!: in_set_butlastD split_on_parts split: if_splits)

lemma split_once_subset: "split_once p s = Some (a, b) \<Longrightarrow> set b \<subseteq> set s"
proof (induction s arbitrary: a)
  case (Cons c s)
  then show ?case
    by (auto split: if_splits dest!: set_mp [OF set_drop_subset]) blast?
qed (simp split: if_splits)

lemma reminder_todos_no_newline:
  "reminder_todos e = Some T \<Longrightarrow> x \<in> T \<Longrightarrow> 10 \<notin> set x"
  using split_once_subset str_lines_no_newline
  by (fastforce simp: reminder_todos_def reminder_line_todo_def split: option.splits if_splits prod.splits)

text \<open>One line of the list.\<close>

definition item_line :: "rstr \<times> rstr \<Rightarrow> rstr" where
  "item_line it = lit ''- ['' @ fst it @ lit ''] '' @ snd it"

definition clean_item :: "rstr \<times> rstr \<Rightarrow> bool" where
  "clean_item it \<longleftrightarrow> fst it \<in> {lit ''PENDING'', lit ''IN_PROGRESS''} \<and> 10 \<notin> set (snd it) \<and> 13 \<notin> set (snd it)"

lemma item_line_clean: "clean_item it \<Longrightarrow> 10 \<notin> set (item_line it) \<and> 13 \<notin> set (item_line it)"
  by (auto simp: clean_item_def item_line_def lit_def)

lemma item_line_todo: "clean_item it \<Longrightarrow> reminder_line_todo (item_line it) = snd it"
  by (auto simp: clean_item_def item_line_def lit_def reminder_line_todo_def starts_with_def)

lemma str_lines_items:
  "list_all clean_item items \<Longrightarrow>
     str_lines (concat (map (\<lambda>it. item_line it @ [10]) items) @ rest) = map item_line items @ str_lines rest"
proof (induction items)
  case (Cons it items)
  then show ?case
    using str_lines_line [of "item_line it" "concat (map (\<lambda>it. item_line it @ [10]) items) @ rest"]
    by (simp add: item_line_clean strip_cr_id)
qed simp

lemma reminder_template_lines:
  "reminder_template items =
     lit ''You have pending todo items that must be completed before finishing the task:'' @ [10, 10]
     @ concat (map (\<lambda>it. item_line it @ [10]) items)
     @ [10] @ lit ''Please complete all pending items before finishing.''"
  by (simp add: reminder_template_def item_line_def case_prod_unfold)

lemma reminder_element:
  "element_render (element_text esc t (element_new (lit ''system_reminder''))) =
     lit ''<system_reminder>'' @ esc t @ lit ''</system_reminder>''"
proof -
  have "element_new (lit ''system_reminder'') = Element (lit ''system_reminder'') [] [] None"
    by code_simp
  moreover have "lit ''<'' @ lit ''system_reminder'' @ lit ''>'' = lit ''<system_reminder>''"
    "lit ''</'' @ lit ''system_reminder'' @ lit ''>'' = lit ''</system_reminder>''"
    by (simp_all add: lit_def)
  ultimately show ?thesis
    by (simp add: element_text_def)
qed

lemma reminder_read_back:
  assumes "list_all clean_item items"
  shows "reminder_todos (entry_of (msg_user (lit ''<system_reminder>'' @ reminder_template items
     @ lit ''</system_reminder>'') None)) = Some (snd ` set items)"
proof -
  let ?first = "lit ''<system_reminder>You have pending todo items that must be completed before finishing the task:''"
  let ?last = "lit ''Please complete all pending items before finishing.</system_reminder>''"
  let ?content = "lit ''<system_reminder>'' @ reminder_template items @ lit ''</system_reminder>''"
  have content: "?content = ?first @ 10 # 10 # concat (map (\<lambda>it. item_line it @ [10]) items) @ 10 # ?last"
    unfolding reminder_template_lines by (simp add: lit_def)
  have ends: "10 \<notin> set ?first" "10 \<notin> set ?last" "?last \<noteq> []" "strip_cr ?first = ?first"
    by (simp_all add: lit_def strip_cr_def)
  have marker: "str_contains ?content reminder_marker"
    unfolding content str_contains_sublist
    by (simp add: reminder_marker_def lit_def sublist_Cons_right prefix_def)
  have items: "filter (\<lambda>line. starts_with line (lit ''- ['')) (map item_line items) = map item_line items"
    by (auto simp: filter_id_conv item_line_def starts_with_def lit_def)
  have "str_lines ?content = ?first # [] # map item_line items @ [[], ?last]"
    unfolding content
    by (simp only: str_lines_line [OF ends(1)] str_lines_empty str_lines_items [OF assms]
        str_lines_last [OF ends(2,3)] ends(4))
  moreover have "\<not> starts_with ?first (lit ''- ['')" "\<not> starts_with ?last (lit ''- ['')"
    "\<not> starts_with [] (lit ''- ['')"
    by (simp_all add: starts_with_def lit_def)
  ultimately have lines: "filter (\<lambda>line. starts_with line (lit ''- ['')) (str_lines ?content) = map item_line items"
    by (simp only: filter.simps filter_append items if_False append_Nil2)
  have "reminder_line_todo ` item_line ` set items = snd ` set items"
    using assms by (force simp: list_all_iff item_line_todo image_image)
  then show ?thesis
    by (simp only: reminder_todos_def msg_user_def me_entry_of msg_content.simps text_new_def
        text_message.simps option.case marker if_True lines set_map)
qed

text \<open>The reminder that \<open>pending_todos_handle\<close> adds.\<close>

definition reminder_entry :: "(rstr \<Rightarrow> rstr) \<Rightarrow> rstr \<Rightarrow> 'v message_entry" where
  "reminder_entry esc reminder =
     entry_of (msg_user (lit ''<system_reminder>'' @ esc reminder @ lit ''</system_reminder>'') None)"

lemma pending_todos_handle_eq:
  "pending_todos_handle render esc cv =
     (let pending = get_active_todos (cv_metrics cv)
      in if pending = [] \<or> \<not> should_remind (cv_context cv) pending then Inr cv
         else case render (reminder_items pending) of
             Inl e \<Rightarrow> Inl e
           | Inr reminder \<Rightarrow>
               (case cv_context cv of
                  None \<Rightarrow> Inr cv
                | Some c \<Rightarrow> Inr (cv\<lparr>cv_context := Some
                    (c\<lparr>ctx_messages := ctx_messages c @ [reminder_entry esc reminder]\<rparr>)\<rparr>)))"
  by (simp add: pending_todos_handle_def reminder_element reminder_entry_def Let_def
      split: sum.split option.split)

lemma active_items:
  "map snd (reminder_items (active_todos ts)) = map tdo_content (active_todos ts)
   \<and> fst ` set (reminder_items (active_todos ts)) \<subseteq> {lit ''PENDING'', lit ''IN_PROGRESS''}"
proof (induction ts)
  case (Cons t ts)
  then show ?case
    by (cases "tdo_status t") (simp_all add: reminder_items_def active_todos_def map_filter_simps)
qed (simp add: reminder_items_def active_todos_def map_filter_simps)

lemma reminder_recognised:
  assumes "\<And>s. {38, 60, 62} \<inter> set s = {} \<Longrightarrow> esc s = s"
    and "\<And>t. t \<in> set (active_todos ts) \<Longrightarrow> {10, 13, 38, 60, 62} \<inter> set (tdo_content t) = {}"
  shows "reminder_todos (reminder_entry esc (reminder_template (reminder_items (active_todos ts))))
     = Some (set (map tdo_content (active_todos ts)))"
proof -
  let ?items = "reminder_items (active_todos ts)"
  have snds: "snd ` set ?items = tdo_content ` set (active_todos ts)"
    using active_items [of ts] by (metis set_map)
  have fsts: "fst it \<in> {lit ''PENDING'', lit ''IN_PROGRESS''}" if "it \<in> set ?items" for it
    using active_items [of ts] that by blast
  have conts: "{10, 13, 38, 60, 62} \<inter> set (snd it) = {}" if "it \<in> set ?items" for it
    using assms(2) snds that by (metis (no_types, lifting) image_iff)
  have "list_all clean_item ?items"
    using fsts conts by (fastforce simp: list_all_iff clean_item_def)
  moreover have "{38, 60, 62} \<inter> set (item_line it) = {}" if "it \<in> set ?items" for it
    using fsts [OF that] conts [OF that] by (auto simp: item_line_def lit_def)
  then have "{38, 60, 62} \<inter> set (reminder_template ?items) = {}"
    unfolding reminder_template_lines by (auto simp: lit_def)
  then have "esc (reminder_template ?items) = reminder_template ?items"
    by (rule assms(1))
  ultimately show ?thesis
    by (simp add: reminder_entry_def reminder_read_back snds)
qed

lemma should_remind_last:
  "reminder_todos e = Some T \<Longrightarrow>
     should_remind (Some (c\<lparr>ctx_messages := ms @ [e]\<rparr>)) pending \<longleftrightarrow> T \<noteq> set (map tdo_content pending)"
  by (simp add: should_remind_def)

lemma should_remind_newline:
  fixes ctx :: "'v chat_context option"
  assumes "t \<in> set pending" "10 \<in> set (tdo_content t)"
  shows "should_remind ctx pending"
proof -
  have "T \<noteq> set (map tdo_content pending)" 
    if "find_map reminder_todos (es :: 'v message_entry list) = Some T" for T es
  proof -
    have "\<exists>e :: 'v message_entry. reminder_todos e = Some T"
      using that by (induction es) (auto split: option.splits)
    then show ?thesis
      using reminder_todos_no_newline assms by fastforce
  qed
  then show ?thesis
    by (auto simp: should_remind_def split: option.split)
qed

text \<open>C31: An agent is reminded once: when the pending todos are plain single lines and the escaping
  leaves plain text alone, a conversation that a reminder has been added to is left as it is the
  next time, as long as its todos are the same.\<close>

theorem pending_todos_reminded_once:
  fixes cv cv' :: "'v conversation"
  assumes "\<And>s. {38, 60, 62} \<inter> set s = {} \<Longrightarrow> esc s = s"
    and "\<And>t. t \<in> set (get_active_todos (cv_metrics cv)) \<Longrightarrow> {10, 13, 38, 60, 62} \<inter> set (tdo_content t) = {}"
    and "pending_todos_handle (\<lambda>items. Inr (reminder_template items) :: 'e + rstr) esc cv = Inr cv'"
  shows "pending_todos_handle (\<lambda>items. Inr (reminder_template items) :: 'e + rstr) esc cv' = Inr cv'"
proof (cases "cv' = cv")
  case False
  then obtain c where "cv' = cv\<lparr>cv_context := Some (c\<lparr>ctx_messages := ctx_messages c
      @ [reminder_entry esc (reminder_template (reminder_items (get_active_todos (cv_metrics cv))))]\<rparr>)\<rparr>"
    using assms(3) by (auto simp: pending_todos_handle_eq Let_def split: option.splits if_splits)
  moreover have "reminder_todos (reminder_entry esc
      (reminder_template (reminder_items (get_active_todos (cv_metrics cv)))) :: 'v message_entry)
    = Some (set (map tdo_content (get_active_todos (cv_metrics cv))))"
    unfolding get_active_todos_def
    by (rule reminder_recognised) (simp_all add: assms(1) assms(2) [unfolded get_active_todos_def])
  ultimately show ?thesis
    by (simp add: pending_todos_handle_eq should_remind_last Let_def)
next
  case True
  with assms(3) show ?thesis by simp
qed

lemma reminder_grows:
  assumes "t \<in> set (get_active_todos (cv_metrics cv))" "10 \<in> set (tdo_content t)"
    and "cv_context cv \<noteq> None"
  shows "case pending_todos_handle (\<lambda>items. Inr (reminder_template items)) esc cv of
           Inl e \<Rightarrow> False
         | Inr cv' \<Rightarrow> conv_len cv' = Suc (conv_len cv) \<and> cv_metrics cv' = cv_metrics cv
             \<and> cv_context cv' \<noteq> None"
  using assms(3) should_remind_newline [OF assms(1,2)] assms(1)
  by (auto simp: pending_todos_handle_eq Let_def conv_len_def)

text \<open>But a todo that spans two lines is never recognised in the reminder: every time the agent
  ends its turn with such a todo pending, one more reminder is added, so the loop is told to go
  on each time.\<close>

theorem multiline_todo_reminded_always:
  assumes "t \<in> set (get_active_todos (cv_metrics cv))" "10 \<in> set (tdo_content t)"
    and "cv_context cv \<noteq> None"
  shows "case pending_todos_handle (\<lambda>items. Inr (reminder_template items)) esc cv of
           Inl e \<Rightarrow> False
         | Inr cv' \<Rightarrow> conv_len cv' = Suc (conv_len cv) \<and> cv_metrics cv' = cv_metrics cv
             \<and> cv_context cv' \<noteq> None"
  using assms by (rule reminder_grows)

definition demo_todo_conversation :: "rstr \<Rightarrow> unit conversation" where
  "demo_todo_conversation content =
     (conversation_new [1] 0)\<lparr>cv_context := Some context_default,
        cv_metrics := metrics_default\<lparr>mt_todos :=
          [\<lparr>tdo_id = [7], tdo_content = content, tdo_status = InProgress\<rparr>]\<rparr>\<rparr>"

lemma demo_todo_active:
  "get_active_todos (cv_metrics (demo_todo_conversation content)) =
     [\<lparr>tdo_id = [7], tdo_content = content, tdo_status = InProgress\<rparr>]"
  by (simp add: demo_todo_conversation_def get_active_todos_def active_todos_def)

theorem pending_todos_reminded_once_witness:
  "pending_todos_handle (\<lambda>items. Inr (reminder_template items) :: unit + rstr) (\<lambda>s. s)
     ((demo_todo_conversation (lit ''ship''))\<lparr>cv_context := Some (context_default\<lparr>ctx_messages :=
        [reminder_entry (\<lambda>s. s) (reminder_template [(lit ''IN_PROGRESS'', lit ''ship'')])]\<rparr>)\<rparr>)
   = Inr ((demo_todo_conversation (lit ''ship''))\<lparr>cv_context := Some (context_default\<lparr>ctx_messages :=
        [reminder_entry (\<lambda>s. s) (reminder_template [(lit ''IN_PROGRESS'', lit ''ship'')])]\<rparr>)\<rparr>)"
proof (rule pending_todos_reminded_once [of "\<lambda>s. s" "demo_todo_conversation (lit ''ship'')"])
  show "pending_todos_handle (\<lambda>items. Inr (reminder_template items) :: unit + rstr) (\<lambda>s. s)
      (demo_todo_conversation (lit ''ship''))
    = Inr ((demo_todo_conversation (lit ''ship''))\<lparr>cv_context := Some (context_default\<lparr>ctx_messages :=
        [reminder_entry (\<lambda>s. s) (reminder_template [(lit ''IN_PROGRESS'', lit ''ship'')])]\<rparr>)\<rparr>)"
    by (simp add: pending_todos_handle_eq demo_todo_active Let_def)
      (simp add: demo_todo_conversation_def should_remind_def reminder_items_def map_filter_simps
        context_default_def)
qed (auto simp: demo_todo_active lit_def)

theorem multiline_todo_reminded_always_witness:
  "case pending_todos_handle (\<lambda>items. Inr (reminder_template items) :: unit + rstr) (\<lambda>s. s)
       (demo_todo_conversation [97, 10, 98]) of
     Inl e \<Rightarrow> False
   | Inr cv' \<Rightarrow> conv_len cv' = Suc (conv_len (demo_todo_conversation [97, 10, 98]))
       \<and> cv_metrics cv' = cv_metrics (demo_todo_conversation [97, 10, 98]) \<and> cv_context cv' \<noteq> None"
  by (rule multiline_todo_reminded_always
        [of "\<lparr>tdo_id = [7], tdo_content = [97, 10, 98], tdo_status = InProgress\<rparr>"])
    (simp add: demo_todo_active, simp, simp add: demo_todo_conversation_def)

end
