(* ===== verification/Catalog.thy ===== *)
theory Catalog
  imports Conversations Policies
begin

text \<open>
  The built-in tools (\<open>forge_domain/src/tools/catalog.rs\<close>, \<open>tools/definition/name.rs\<close>): their
  inputs, their names and the normalisation of names in a response, the permission operation of a
  call, and the sanitising of names of external tools. Not modelled: JSON schemas and serde.
\<close>

section \<open>Inputs\<close>

record fs_read_range =
  rr_start_line :: "int option"
  rr_end_line :: "int option"

record fs_read =
  fr_file_path :: rstr
  fr_range :: "fs_read_range option"
  fr_show_line_numbers :: bool

record fs_write =
  fw_file_path :: rstr
  fw_content :: rstr
  fw_overwrite :: bool

datatype output_mode = OMContent | OMFilesWithMatches | OMCount

record fs_search =
  fs_pattern :: rstr
  fs_path :: "rstr option"
  fs_glob :: "rstr option"
  fs_output_mode :: "output_mode option"
  fs_before_context :: "nat option"
  fs_after_context :: "nat option"
  fs_context :: "nat option"
  fs_show_line_numbers :: "bool option"
  fs_case_insensitive :: "bool option"
  fs_file_type :: "rstr option"
  fs_head_limit :: "nat option"
  fs_offset :: "nat option"
  fs_multiline :: "bool option"

record search_query =
  sq_query :: rstr
  sq_use_case :: rstr

record fs_patch =
  fp_file_path :: rstr
  fp_old_string :: rstr
  fp_new_string :: rstr
  fp_replace_all :: bool

record patch_edit =
  pe_old_string :: rstr
  pe_new_string :: rstr
  pe_replace_all :: bool

record fs_multi_patch =
  mp_file_path :: rstr
  mp_edits :: "patch_edit list"

record shell_input =
  sh_command :: rstr
  sh_cwd :: "rstr option"
  sh_keep_ansi :: bool
  sh_env :: "rstr list option"
  sh_description :: "rstr option"

record net_fetch =
  nf_url :: rstr
  nf_raw :: "bool option"

record followup_input =
  fu_question :: rstr
  fu_multiple :: "bool option"
  fu_option1 :: "rstr option"
  fu_option2 :: "rstr option"
  fu_option3 :: "rstr option"
  fu_option4 :: "rstr option"
  fu_option5 :: "rstr option"

record plan_create =
  pc_plan_name :: rstr
  pc_version :: rstr
  pc_content :: rstr

record task_input =
  tk_tasks :: "rstr list"
  tk_agent_id :: rstr
  tk_session_id :: "rstr option"

text \<open>Inputs with a single field are that field.\<close>

datatype tool_catalog =
    TRead fs_read
  | TWrite fs_write
  | TFsSearch fs_search
  | TSemSearch "search_query list"
  | TRemove rstr
  | TPatch fs_patch
  | TMultiPatch fs_multi_patch
  | TUndo rstr
  | TShell shell_input
  | TFetch net_fetch
  | TFollowup followup_input
  | TPlan plan_create
  | TSkill rstr
  | TTodoWrite "todo_item list"
  | TTodoRead
  | TTask task_input

fun catalog_kind :: "tool_catalog \<Rightarrow> tool_kind" where
  "catalog_kind (TRead _) = KRead"
| "catalog_kind (TWrite _) = KWrite"
| "catalog_kind (TFsSearch _) = KFsSearch"
| "catalog_kind (TSemSearch _) = KSemSearch"
| "catalog_kind (TRemove _) = KRemove"
| "catalog_kind (TPatch _) = KPatch"
| "catalog_kind (TMultiPatch _) = KMultiPatch"
| "catalog_kind (TUndo _) = KUndo"
| "catalog_kind (TShell _) = KShell"
| "catalog_kind (TFetch _) = KFetch"
| "catalog_kind (TFollowup _) = KFollowup"
| "catalog_kind (TPlan _) = KPlan"
| "catalog_kind (TSkill _) = KSkill"
| "catalog_kind (TTodoWrite _) = KTodoWrite"
| "catalog_kind TTodoRead = KTodoRead"
| "catalog_kind (TTask _) = KTask"

section \<open>Names\<close>

text \<open>\<open>strum(serialize_all = "snake_case")\<close>; \<open>to_case(Snake)\<close> leaves these names as they are.\<close>

fun kind_name :: "tool_kind \<Rightarrow> rstr" where
  "kind_name KRead = lit ''read''"
| "kind_name KWrite = lit ''write''"
| "kind_name KFsSearch = lit ''fs_search''"
| "kind_name KSemSearch = lit ''sem_search''"
| "kind_name KRemove = lit ''remove''"
| "kind_name KPatch = lit ''patch''"
| "kind_name KMultiPatch = lit ''multi_patch''"
| "kind_name KUndo = lit ''undo''"
| "kind_name KShell = lit ''shell''"
| "kind_name KFetch = lit ''fetch''"
| "kind_name KFollowup = lit ''followup''"
| "kind_name KPlan = lit ''plan''"
| "kind_name KSkill = lit ''skill''"
| "kind_name KTodoWrite = lit ''todo_write''"
| "kind_name KTodoRead = lit ''todo_read''"
| "kind_name KTask = lit ''task''"

text \<open>\<open>FORGE_TOOLS\<close>.\<close>

definition forge_tools :: "rstr list" where
  "forge_tools = map kind_name
     [KRead, KWrite, KFsSearch, KSemSearch, KRemove, KPatch, KMultiPatch, KUndo, KShell, KFetch,
      KFollowup, KPlan, KSkill, KTodoWrite, KTodoRead, KTask]"

text \<open>\<open>FORGE_TOOLS_LOWER\<close>, and the lookup in it.\<close>

definition forge_tools_lower :: "(rstr \<times> rstr) list" where
  "forge_tools_lower = map (\<lambda>name. (to_lowercase name, name)) forge_tools"

definition normalize_tool_name :: "rstr \<Rightarrow> rstr" where
  "normalize_tool_name name =
     (let trimmed = str_trim name
      in case map_of forge_tools_lower (to_lowercase trimmed) of
           Some canonical \<Rightarrow> canonical
         | None \<Rightarrow> trimmed)"

definition catalog_contains :: "rstr \<Rightarrow> bool" where
  "catalog_contains tool_name \<longleftrightarrow> normalize_tool_name tool_name \<in> set forge_tools"

definition should_yield :: "rstr \<Rightarrow> bool" where
  "should_yield tool_name \<longleftrightarrow> normalize_tool_name tool_name = kind_name KFollowup"

definition requires_stdout :: "rstr \<Rightarrow> bool" where
  "requires_stdout tool_name \<longleftrightarrow> normalize_tool_name tool_name = kind_name KShell"

text \<open>
  \<open>ToolName::sanitized\<close>: lower case, each run of other characters becomes one underscore, runs
  of underscores collapse, and the underscores at both ends go.
\<close>

definition name_char :: "int \<Rightarrow> bool" where
  "name_char c \<longleftrightarrow> 97 \<le> c \<and> c \<le> 122 \<or> 48 \<le> c \<and> c \<le> 57 \<or> c = 95"

text \<open>\<open>Regex::replace_all\<close> of the non-empty runs of characters with \<open>P\<close> by one underscore.\<close>

fun replace_runs :: "(int \<Rightarrow> bool) \<Rightarrow> bool \<Rightarrow> rstr \<Rightarrow> rstr" where
  "replace_runs P in_run [] = []"
| "replace_runs P in_run (c # s) =
     (if P c then (if in_run then replace_runs P True s else 95 # replace_runs P True s)
      else c # replace_runs P False s)"

definition trim_matches :: "int \<Rightarrow> rstr \<Rightarrow> rstr" where
  "trim_matches d s = rev (dropWhile ((=) d) (rev (dropWhile ((=) d) s)))"

definition sanitized :: "rstr \<Rightarrow> rstr" where
  "sanitized input =
     (let cleaned = replace_runs (\<lambda>c. \<not> name_char c) False (to_lowercase input)
      in trim_matches 95 (replace_runs (\<lambda>c. c = 95) False cleaned))"

definition strip_prefix :: "rstr \<Rightarrow> rstr \<Rightarrow> rstr option" where
  "strip_prefix p s = (if starts_with s p then Some (drop (length p) s) else None)"

definition to_legacy_mcp_name :: "rstr \<Rightarrow> rstr option" where
  "to_legacy_mcp_name name =
     (case strip_prefix (lit ''mcp__'') name of
        None \<Rightarrow> None
      | Some rest \<Rightarrow>
          (case split_once (lit ''__'') rest of
             None \<Rightarrow> None
           | Some (server, tool) \<Rightarrow> Some (lit ''mcp_'' @ server @ lit ''_tool_'' @ tool)))"

section \<open>Permission operations\<close>

text \<open>
  \<open>Path::strip_prefix\<close> on Unix, on the pieces between slashes: empty pieces and pieces \<open>.\<close> are
  skipped, except a \<open>.\<close> at the very start of a relative path. What is left is shown as written,
  without separators or \<open>.\<close> at its ends.
\<close>

definition dull_piece :: "rstr \<Rightarrow> bool" where
  "dull_piece p \<longleftrightarrow> p = [] \<or> p = [46]"

definition skip_pieces :: "bool \<Rightarrow> rstr list \<Rightarrow> rstr list" where
  "skip_pieces keep_dot ps = (if keep_dot \<and> ps \<noteq> [] \<and> hd ps = [46] then ps else dropWhile dull_piece ps)"

definition trim_pieces :: "bool \<Rightarrow> rstr list \<Rightarrow> rstr list" where
  "trim_pieces keep_dot ps =
     (let ps = skip_pieces keep_dot ps
      in if keep_dot \<and> ps \<noteq> [] \<and> hd ps = [46]
         then hd ps # rev (dropWhile dull_piece (rev (tl ps)))
         else rev (dropWhile dull_piece (rev ps)))"

fun strip_pieces :: "bool \<Rightarrow> rstr list \<Rightarrow> rstr list \<Rightarrow> rstr list option" where
  "strip_pieces keep_dot path [] = Some (trim_pieces keep_dot path)"
| "strip_pieces keep_dot path (c # cs) =
     (case skip_pieces keep_dot path of
        [] \<Rightarrow> None
      | p # path' \<Rightarrow> if p = c then strip_pieces False path' cs else None)"

definition path_components :: "rstr \<Rightarrow> rstr list" where
  "path_components s =
     (let ps = split_on 47 s; rooted = starts_with s [47]
      in if \<not> rooted \<and> hd ps = [46] then [46] # filter (\<lambda>p. \<not> dull_piece p) (tl ps)
         else filter (\<lambda>p. \<not> dull_piece p) ps)"

definition path_strip_prefix :: "rstr \<Rightarrow> rstr \<Rightarrow> rstr option" where
  "path_strip_prefix path base =
     (if starts_with path [47] \<noteq> starts_with base [47] then
        (if base = [] then Some path else None)
      else map_option (join [47])
        (strip_pieces (\<not> starts_with path [47]) (split_on 47 path) (path_components base)))"

definition format_display_path :: "rstr \<Rightarrow> rstr \<Rightarrow> rstr" where
  "format_display_path path cwd =
     (let display_path = (case path_strip_prefix path cwd of Some rel \<Rightarrow> rel | None \<Rightarrow> path)
      in if display_path = [] then [46] else display_path)"

definition display_path_for :: "rstr \<Rightarrow> rstr \<Rightarrow> rstr" where
  "display_path_for cwd path = [96] @ format_display_path path cwd @ [96]"

fun to_policy_operation :: "tool_catalog \<Rightarrow> rstr \<Rightarrow> permission_operation option" where
  "to_policy_operation (TRead i) cwd =
     Some (OpRead (fr_file_path i) cwd (lit ''Read file: '' @ display_path_for cwd (fr_file_path i)))"
| "to_policy_operation (TWrite i) cwd =
     Some (OpWrite (fw_file_path i) cwd
       (lit ''Create/overwrite file: '' @ display_path_for cwd (fw_file_path i)))"
| "to_policy_operation (TFsSearch i) cwd =
     (let path_str = (case fs_path i of Some p \<Rightarrow> p | None \<Rightarrow> [46]);
          base_message = lit ''Search in directory/file: '' @ display_path_for cwd path_str;
          message = (case (fs_glob i, fs_file_type i) of
              (Some glob, _) \<Rightarrow> base_message @ lit '' for pattern: '' @ [39] @ fs_pattern i @ [39]
                @ lit '' in '' @ [39] @ glob @ [39] @ lit '' files''
            | (None, Some file_type) \<Rightarrow> base_message @ lit '' for pattern: '' @ [39] @ fs_pattern i
                @ [39] @ lit '' in '' @ file_type @ lit '' files''
            | (None, None) \<Rightarrow> base_message @ lit '' for pattern: '' @ fs_pattern i)
      in Some (OpRead path_str cwd message))"
| "to_policy_operation (TRemove path) cwd =
     Some (OpWrite path cwd (lit ''Remove file: '' @ display_path_for cwd path))"
| "to_policy_operation (TPatch i) cwd =
     Some (OpWrite (fp_file_path i) cwd (lit ''Modify file: '' @ display_path_for cwd (fp_file_path i)))"
| "to_policy_operation (TMultiPatch i) cwd =
     Some (OpWrite (mp_file_path i) cwd
       (lit ''Modify file with '' @ decimal (length (mp_edits i)) @ lit '' edits: ''
        @ display_path_for cwd (mp_file_path i)))"
| "to_policy_operation (TShell i) cwd = Some (OpExecute (sh_command i) cwd)"
| "to_policy_operation (TFetch i) cwd =
     Some (OpFetch (nf_url i) cwd (lit ''Fetch content from URL: '' @ nf_url i))"
| "to_policy_operation (TSemSearch _) cwd = None"
| "to_policy_operation (TUndo _) cwd = None"
| "to_policy_operation (TFollowup _) cwd = None"
| "to_policy_operation (TPlan _) cwd = None"
| "to_policy_operation (TSkill _) cwd = None"
| "to_policy_operation (TTodoWrite _) cwd = None"
| "to_policy_operation TTodoRead cwd = None"
| "to_policy_operation (TTask _) cwd = None"

section \<open>Sanitised names\<close>

definition sane_name :: "rstr \<Rightarrow> bool" where
  "sane_name s \<longleftrightarrow> list_all name_char s \<and> \<not> sublist [95, 95] s
     \<and> (s \<noteq> [] \<longrightarrow> hd s \<noteq> 95 \<and> last s \<noteq> 95)"

lemma replace_runs_set: "c \<in> set (replace_runs P b s) \<Longrightarrow> c = 95 \<or> c \<in> set s \<and> \<not> P c"
  by (induction P b s rule: replace_runs.induct) (auto split: if_splits)

lemma replace_runs_id: "(\<And>c. c \<in> set s \<Longrightarrow> \<not> P c) \<Longrightarrow> replace_runs P b s = s"
  by (induction s arbitrary: b) auto

lemma sublist_pair_Cons: "sublist [a, b] (c # s) \<longleftrightarrow> (c = a \<and> s \<noteq> [] \<and> hd s = b) \<or> sublist [a, b] s"
  by (cases s) (auto simp: sublist_Cons_right)

lemma replace_runs_hd: "s' = replace_runs (\<lambda>c. c = 95) True s \<Longrightarrow> s' \<noteq> [] \<Longrightarrow> hd s' \<noteq> 95"
  by (induction s) (auto split: if_splits)

lemma replace_runs_no_double: "\<not> sublist [95, 95] (replace_runs (\<lambda>c. c = 95) b s)"
  by (induction s arbitrary: b) (auto simp: sublist_pair_Cons replace_runs_hd)

lemma replace_runs_collapsed:
  "\<not> sublist [95, 95] s \<Longrightarrow> (b \<longrightarrow> s \<noteq> [] \<longrightarrow> hd s \<noteq> 95) \<Longrightarrow> replace_runs (\<lambda>c. c = 95) b s = s"
  by (induction s arbitrary: b) (auto simp: sublist_pair_Cons)

lemma trim_matches_sublist: "sublist (trim_matches d s) s"
proof -
  have "suffix (dropWhile ((=) d) s) s" "suffix (dropWhile ((=) d) (rev u)) (rev u)" for u
    by (simp_all add: suffix_dropWhile)
  then have "sublist (dropWhile ((=) d) s) s" "prefix (rev (dropWhile ((=) d) (rev u))) u" for u
    by (simp_all add: suffix_to_prefix)
  then show ?thesis
    unfolding trim_matches_def by (meson prefix_imp_sublist sublist_order.order.trans)
qed

lemma trim_matches_ends:
  assumes "trim_matches d s \<noteq> []"
  shows "hd (trim_matches d s) \<noteq> d" "last (trim_matches d s) \<noteq> d"
proof -
  let ?u = "dropWhile ((=) d) s"
  let ?t = "rev (dropWhile ((=) d) (rev ?u))"
  have ne: "dropWhile ((=) d) (rev ?u) \<noteq> []"
    using assms by (simp add: trim_matches_def)
  then show "last (trim_matches d s) \<noteq> d"
    using hd_dropWhile [OF ne] by (simp add: trim_matches_def last_rev)
  obtain v where "?u = ?t @ v"
    by (metis rev_append rev_rev_ident takeWhile_dropWhile_id)
  moreover have "?t \<noteq> []"
    using ne by simp
  ultimately have "hd ?t = hd ?u" "?u \<noteq> []"
    by (metis hd_append2, metis append_is_Nil_conv)
  then show "hd (trim_matches d s) \<noteq> d"
    using hd_dropWhile [of "(=) d" s] by (simp add: trim_matches_def)
qed

lemma dropWhile_none: "(s \<noteq> [] \<longrightarrow> \<not> P (hd s)) \<Longrightarrow> dropWhile P s = s"
  by (cases s) auto

lemma trim_matches_id: "(s \<noteq> [] \<longrightarrow> hd s \<noteq> d \<and> last s \<noteq> d) \<Longrightarrow> trim_matches d s = s"
  by (auto simp: trim_matches_def dropWhile_none hd_rev)

lemma concat_map_single: "(\<And>c. c \<in> set s \<Longrightarrow> f c = [c]) \<Longrightarrow> concat (map f s) = s"
  by (induction s) auto

lemma sanitized_sane: "sane_name (sanitized s)"
proof -
  let ?c = "replace_runs (\<lambda>c. \<not> name_char c) False (to_lowercase s)"
  let ?r = "replace_runs (\<lambda>c. c = 95) False ?c"
  have r: "name_char c" if "c \<in> set ?r" for c
    using replace_runs_set [OF that] replace_runs_set [of c "\<lambda>c. \<not> name_char c" False "to_lowercase s"]
    by (auto simp: name_char_def)
  have sub: "sublist (trim_matches 95 ?r) ?r"
    by (rule trim_matches_sublist)
  have "\<not> sublist [95, 95] (trim_matches 95 ?r)"
    using sub replace_runs_no_double by (meson sublist_order.order.trans)
  moreover have "list_all name_char (trim_matches 95 ?r)"
    using r set_mono_sublist [OF sub] by (auto simp: list_all_iff)
  ultimately show ?thesis
    using trim_matches_ends [of 95 ?r] by (simp add: sane_name_def sanitized_def Let_def)
qed

lemma sane_name_fixed:
  assumes "sane_name s"
  shows "sanitized s = s"
proof -
  have "to_lowercase s = s"
    using assms by (auto simp: sane_name_def to_lowercase_def list_all_iff char_lower_def name_char_def
        intro!: concat_map_single)
  then show ?thesis
    using assms
    by (simp add: sane_name_def sanitized_def list_all_iff replace_runs_id replace_runs_collapsed
        trim_matches_id)
qed

section \<open>Properties\<close>

text \<open>A sanitised name is an identifier of lower-case letters, digits and single inner
  underscores, and sanitising it again changes nothing; exactly these names are left as they are.\<close>

theorem sanitized_identifier:
  "sane_name (sanitized s) \<and> sanitized (sanitized s) = sanitized s
   \<and> (sanitized s = s \<longleftrightarrow> sane_name s)"
  using sanitized_sane sane_name_fixed by metis

lemma split_once_double:
  "\<not> sublist [95, 95] x \<Longrightarrow> (x \<noteq> [] \<longrightarrow> last x \<noteq> 95) \<Longrightarrow> split_once [95, 95] (x @ [95, 95] @ y) = Some (x, y)"
proof (induction x)
  case (Cons c x)
  then show ?case
    by (cases x) (auto simp: starts_with_def sublist_pair_Cons)
qed (simp add: starts_with_def)

text \<open>The Claude Code name of a tool of an external server, made of the sanitised names of the
  two, is translated to the legacy name of the same server and tool, whatever they are called.\<close>

theorem legacy_mcp_name:
  "to_legacy_mcp_name (lit ''mcp__'' @ sanitized server @ lit ''__'' @ tool) =
     Some (lit ''mcp_'' @ sanitized server @ lit ''_tool_'' @ tool)"
proof -
  have "split_once [95, 95] (sanitized server @ [95, 95] @ tool) = Some (sanitized server, tool)"
    using sanitized_sane [of server] by (intro split_once_double) (simp_all add: sane_name_def)
  then show ?thesis
    by (simp add: to_legacy_mcp_name_def strip_prefix_def starts_with_def lit_def)
qed

lemma forge_tools_lower_id: "map_of forge_tools_lower k = (if k \<in> set forge_tools then Some k else None)"
proof -
  have eq: "forge_tools_lower = map (\<lambda>name. (name, name)) forge_tools"
    by code_simp
  show ?thesis
    unfolding eq by (simp add: map_of_map_restrict restrict_map_def)
qed

text \<open>The name of a built-in tool is recognised in any letter case and with white space around
  it, and becomes its canonical name; any other name is only trimmed.\<close>

theorem normalize_tool_name_spec:
  "normalize_tool_name name =
     (if to_lowercase (str_trim name) \<in> set forge_tools then to_lowercase (str_trim name)
      else str_trim name)
   \<and> (catalog_contains name \<longleftrightarrow> to_lowercase (str_trim name) \<in> set forge_tools)"
proof -
  have "to_lowercase k = k" if "k \<in> set forge_tools" for k
  proof -
    have "list_all (\<lambda>k. to_lowercase k = k) forge_tools"
      by code_simp
    with that show ?thesis by (simp add: list_all_iff)
  qed
  then show ?thesis
    by (auto simp: normalize_tool_name_def forge_tools_lower_id catalog_contains_def Let_def)
qed

end
