(* ===== verification/Orchestrator.thy ===== *)
theory Orchestrator
  imports Lifecycle Catalog Context_Transformers
begin

text \<open>
  The agent loop (\<open>forge_app/src/orch.rs\<close>) with the retry of requests (\<open>retry.rs\<close>). The state is
  the orchestrator's mutable part and a world \<open>'w\<close>; the services it is generic in (the model, the
  tools, the store, the channel to the user interface) are actions on the world, and so is the
  outcome of running the task tools concurrently: a result for each position.
\<close>

section \<open>Services\<close>

datatype interruption =
    MaxToolFailurePerTurn nat "(rstr \<times> nat) list"
  | MaxRequestPerTurn nat

datatype 'e run_error = RunFailed 'e | RunRefused | RunEmpty

datatype ('v, 'e) chat_response =
    RsMarkdown rstr
  | RsReasoning rstr
  | RsTaskComplete
  | RsToolCallStart "'v tool_call_full"
  | RsToolCallEnd tool_result
  | RsRetryAttempt "'e run_error"
  | RsInterrupt interruption

record tool_context =
  tcx_has_sender :: bool
  tcx_conversation_id :: "rstr option"
  tcx_parent_id :: "rstr option"
  tcx_source :: "rstr option"

text \<open>
  \<open>sv_chat\<close> is \<open>chat_agent\<close>, \<open>sv_call\<close> and \<open>sv_join\<close> are \<open>call\<close> for one tool call and, under
  \<open>join_all\<close>, for several (the tools share the metrics of the tool context); \<open>sv_acknowledged\<close> waits
  until the user interface has notified; \<open>sv_count\<close> is the telemetry sink.
\<close>

record ('v, 'w, 'e) services =
  sv_chat :: "rstr \<Rightarrow> 'v chat_context \<Rightarrow> rstr option \<Rightarrow> ('w, 'e, ('e + 'v completion_message) list) act"
  sv_call :: "agent \<Rightarrow> tool_context \<Rightarrow> 'v tool_call_full \<Rightarrow> (metrics \<times> 'w, 'e, tool_result) act"
  sv_join :: "agent \<Rightarrow> tool_context \<Rightarrow> 'v tool_call_full list \<Rightarrow> (metrics \<times> 'w, 'e, nat \<Rightarrow> tool_result) act"
  sv_update :: "'v conversation \<Rightarrow> ('w, 'e, unit) act"
  sv_send :: "('v, 'e) chat_response \<Rightarrow> ('w, 'e, unit) act"
  sv_acknowledged :: "'v tool_call_full \<Rightarrow> ('w, 'e, unit) act"
  sv_count :: "rstr \<Rightarrow> 'w \<Rightarrow> 'w"

text \<open>Third-party parts of reading a response and of writing a request.\<close>

record ('v, 'w, 'j) codecs =
  cd_parse_call :: "rstr \<Rightarrow> 'j + 'v tool_call_full"
  cd_gen_id :: "'w \<Rightarrow> rstr"
  cd_empty_object :: 'v
  cd_type_order :: "rstr option list \<Rightarrow> rstr option list"
  cd_repair :: "rstr \<Rightarrow> 'j + 'v"
  cd_raw_object :: "rstr \<Rightarrow> 'v"
  cd_escape :: "rstr \<Rightarrow> rstr"

record ('v, 'w) orch =
  os_conversation :: "'v conversation"
  os_dirty :: bool
  os_tracker :: error_tracker
  os_metrics :: metrics
  os_world :: 'w

text \<open>
  A driver of retries: how often to retry, after which errors, what to run before a retry, and the operation. The one
  the program configures is that of the crate \<open>backon\<close>.
\<close>

type_synonym ('s, 'e, 'a) retrier =
  "nat \<Rightarrow> ('e \<Rightarrow> bool) \<Rightarrow> ('e \<Rightarrow> ('s, 'e, unit) act) \<Rightarrow> ('s, 'e, 'a) act \<Rightarrow> ('s, 'e, 'a) act"

record ('v, 'w, 'e, 'j) orch_env =
  en_services :: "('v, 'w, 'e) services"
  en_codecs :: "('v, 'w, 'j) codecs"
  en_hook :: "('v, 'w, 'e) hook"
  en_agent :: agent
  en_tool_definitions :: "'v tool_definition list"
  en_models :: "model list"
  en_has_sender :: bool
  en_max_attempts :: nat
  en_retryable :: "'e \<Rightarrow> bool"
  en_retry :: "(('v, 'w) orch, 'e run_error, 'v completion_full) retrier"
  en_retry_text :: "nat \<Rightarrow> nat \<Rightarrow> 'e + rstr"
  en_glob :: globber

section \<open>Actions on parts of the state\<close>

definition on_world :: "('w, 'e, 'a) act \<Rightarrow> (('v, 'w) orch, 'e run_error, 'a) act" where
  "on_world m = map_error RunFailed (zoom os_world (\<lambda>w s. s\<lparr>os_world := w\<rparr>) m)"

definition on_conversation ::
  "('v conversation \<times> 'w, 'e, 'a) act \<Rightarrow> (('v, 'w) orch, 'e run_error, 'a) act" where
  "on_conversation m = map_error RunFailed (zoom (\<lambda>s. (os_conversation s, os_world s))
     (\<lambda>(c, w) s. s\<lparr>os_conversation := c, os_world := w\<rparr>) m)"

definition on_tools ::
  "(metrics \<times> 'w, 'e, 'a) act \<Rightarrow> (('v, 'w) orch, 'e run_error, 'a) act" where
  "on_tools m = map_error RunFailed (zoom (\<lambda>s. (os_metrics s, os_world s))
     (\<lambda>(t, w) s. s\<lparr>os_metrics := t, os_world := w\<rparr>) m)"

definition fire ::
  "('v, 'w, 'e, 'j) orch_env \<Rightarrow> 'v lifecycle_event \<Rightarrow> (('v, 'w) orch, 'e run_error, unit) act" where
  "fire env ev = on_conversation (hook_handle (en_hook env) ev)"

definition event_of :: "('v, 'w, 'e, 'j) orch_env \<Rightarrow> 'p \<Rightarrow> 'p event_data" where
  "event_of env p =
     \<lparr>ed_agent = en_agent env, ed_model_id = ag_model (en_agent env), ed_payload = p\<rparr>"

definition send ::
  "('v, 'w, 'e, 'j) orch_env \<Rightarrow> ('v, 'e) chat_response \<Rightarrow> (('v, 'w) orch, 'e run_error, unit) act" where
  "send env m = (if en_has_sender env then on_world (sv_send (en_services env) m) else ret ())"

text \<open>\<open>notifier.notified().await\<close>: only the receiver of the message can notify.\<close>

definition await_notified ::
  "('v, 'w, 'e, 'j) orch_env \<Rightarrow> 'v tool_call_full \<Rightarrow> (('v, 'w) orch, 'e run_error, unit) act" where
  "await_notified env tc =
     (if en_has_sender env then on_world (sv_acknowledged (en_services env) tc) else hang)"

definition mark_dirty :: "(('v, 'w) orch, 'e, unit) act" where
  "mark_dirty = update (\<lambda>s. s\<lparr>os_dirty := True\<rparr>)"

definition flush_if_dirty :: "('v, 'w, 'e, 'j) orch_env \<Rightarrow> (('v, 'w) orch, 'e run_error, unit) act" where
  "flush_if_dirty env = reading (\<lambda>s.
     if os_dirty s
     then andthen (on_world (sv_update (en_services env) (os_conversation s)))
            (\<lambda>_. update (\<lambda>s. s\<lparr>os_dirty := False\<rparr>))
     else ret ())"

section \<open>One request\<close>

definition is_tool_supported :: "('v, 'w, 'e, 'j) orch_env \<Rightarrow> bool" where
  "is_tool_supported env =
     (case ag_tool_supported (en_agent env) of
        Some b \<Rightarrow> b
      | None \<Rightarrow>
          (case Option.bind (List.find (\<lambda>m. md_id m = ag_model (en_agent env)) (en_models env))
                  md_tools_supported of
             Some b \<Rightarrow> b | None \<Rightarrow> False))"

definition request_context ::
  "('v, 'w, 'e, 'j) orch_env \<Rightarrow> 'v chat_context \<Rightarrow> bool \<Rightarrow> 'v chat_context" where
  "request_context env c reasoning_supported =
     request_pipeline (cd_repair (en_codecs env)) (cd_raw_object (en_codecs env))
       (agent_tool_order (en_glob env) (en_agent env)) (ag_model (en_agent env))
       (is_tool_supported env) reasoning_supported c"

fun delta_response :: "delta \<Rightarrow> ('v, 'e) chat_response" where
  "delta_response (DReasoning s) = RsReasoning s"
| "delta_response (DMarkdown s) = RsMarkdown s"

fun stream_failure :: "'e stream_error \<Rightarrow> 'e run_error" where
  "stream_failure (SEStream e) = RunFailed e"
| "stream_failure SERefusal = RunRefused"
| "stream_failure SERetryableEmpty = RunEmpty"

text \<open>\<open>let _ = sender.send(..).await\<close>: the error of a send is dropped.\<close>

definition ignoring :: "('s, 'e, unit) act \<Rightarrow> ('s, 'f, unit) act" where
  "ignoring m s =
     (case m s of
        None \<Rightarrow> None
      | Some (Inl Panicked, s') \<Rightarrow> Some (Inl Panicked, s')
      | Some (_, s') \<Rightarrow> Some (Inr (), s'))"

definition execute_chat_turn ::
  "('v, 'w, 'e, 'j) orch_env \<Rightarrow> 'v chat_context \<Rightarrow> bool
     \<Rightarrow> (('v, 'w) orch, 'e run_error, 'v completion_full) act" where
  "execute_chat_turn env c reasoning_supported =
     andthen (on_world (sv_chat (en_services env) (ag_model (en_agent env))
        (request_context env c reasoning_supported) (Some (ag_provider (en_agent env)))))
       (\<lambda>items. reading (\<lambda>s.
          let cd = en_codecs env;
              (r, deltas) = into_full_streaming (cd_parse_call cd) (cd_gen_id cd (os_world s))
                 (cd_empty_object cd) (cd_type_order cd) (\<not> is_tool_supported env)
                 (en_has_sender env) items
          in andthen (map_act (\<lambda>d. ignoring (send env (delta_response d))) deltas)
               (\<lambda>_. case r of Inl e \<Rightarrow> fail (stream_failure e) | Inr m \<Rightarrow> ret m)))"

section \<open>Retrying\<close>

text \<open>\<open>should_retry\<close>: \<open>Error::Retryable\<close>, which the empty completion is turned into.\<close>

fun should_retry :: "('e \<Rightarrow> bool) \<Rightarrow> 'e run_error \<Rightarrow> bool" where
  "should_retry retryable (RunFailed e) = retryable e"
| "should_retry retryable RunRefused = False"
| "should_retry retryable RunEmpty = True"

text \<open>The observer is only installed when there is a sender; \<open>try_send\<close> may drop the message.\<close>

definition notify_retry ::
  "('v, 'w, 'e, 'j) orch_env \<Rightarrow> 'e run_error \<Rightarrow> (('v, 'w) orch, 'e run_error, unit) act" where
  "notify_retry env e =
     (if en_has_sender env
      then andthen (update (\<lambda>s. s\<lparr>os_world := sv_count (en_services env) (lit ''forge.retry'') (os_world s)\<rparr>))
             (\<lambda>_. ignoring (send env (RsRetryAttempt e)))
      else ret ())"

definition retry_with_config ::
  "('v, 'w, 'e, 'j) orch_env \<Rightarrow> (('v, 'w) orch, 'e run_error, 'v completion_full) act
     \<Rightarrow> (('v, 'w) orch, 'e run_error, 'v completion_full) act" where
  "retry_with_config env oper =
     en_retry env (en_max_attempts env) (should_retry (en_retryable env)) (notify_retry env) oper"

text \<open>
  What is relied on of the driver, by its documentation: it runs the operation until an attempt is final, at most
  \<open>n\<close> times more after the first; it runs it again only after an error that is to be retried, and the observer in
  between; and it comes back if these do.
\<close>

inductive attempts ::
  "('e \<Rightarrow> bool) \<Rightarrow> ('e \<Rightarrow> ('s, 'e, unit) act) \<Rightarrow> ('s, 'e, 'a) act \<Rightarrow> nat \<Rightarrow> 's \<Rightarrow> 'e abort + 'a \<Rightarrow> 's \<Rightarrow> bool"
  for again notify oper where
  attempt_final: "oper s = Some (r, s') \<Longrightarrow> attempts again notify oper n s r s'"
| attempt_again: "\<lbrakk>oper s = Some (Inl (Fail e), s1); again e; notify e s1 = Some (Inr (), s2);
    attempts again notify oper n s2 r s'\<rbrakk> \<Longrightarrow> attempts again notify oper (Suc n) s r s'"
| attempt_unnotified: "\<lbrakk>oper s = Some (Inl (Fail e), s1); again e; notify e s1 = Some (Inl a, s')\<rbrakk>
    \<Longrightarrow> attempts again notify oper (Suc n) s (Inl a) s'"

definition retry_documented :: "('s, 'e, 'a) retrier \<Rightarrow> bool" where
  "retry_documented f \<longleftrightarrow> (\<forall>n again notify oper.
     (\<forall>s r s'. f n again notify oper s = Some (r, s') \<longrightarrow> attempts again notify oper n s r s')
     \<and> ((\<forall>s. oper s \<noteq> None) \<longrightarrow> (\<forall>e s. notify e s \<noteq> None) \<longrightarrow> (\<forall>s. f n again notify oper s \<noteq> None)))"

section \<open>Tool calls\<close>

definition is_task :: "'v tool_call_full \<Rightarrow> bool" where
  "is_task tc \<longleftrightarrow> eq_ignore_ascii_case (tc_name tc) (kind_name KTask)"

definition is_task_call :: "'v tool_call_full \<Rightarrow> bool" where
  "is_task_call tc \<longleftrightarrow> to_lowercase (tc_name tc) = kind_name KTask"

definition execute_other ::
  "('v, 'w, 'e, 'j) orch_env \<Rightarrow> tool_context \<Rightarrow> 'v tool_call_full
     \<Rightarrow> (('v, 'w) orch, 'e run_error, 'v tool_call_full \<times> tool_result) act" where
  "execute_other env tcx tc =
     (let is_system_tool = tc_name tc \<in> set (map td_name (en_tool_definitions env))
      in andthen (if is_system_tool
                  then andthen (send env (RsToolCallStart tc)) (\<lambda>_. await_notified env tc)
                  else ret ())
         (\<lambda>_. andthen (fire env (LToolcallStart (event_of env \<lparr>sp_tool_call = tc\<rparr>)))
         (\<lambda>_. andthen (on_tools (sv_call (en_services env) (en_agent env) tcx tc))
         (\<lambda>r. andthen (fire env (LToolcallEnd (event_of env \<lparr>ep_tool_call = tc, ep_result = r\<rparr>)))
         (\<lambda>_. andthen (if is_system_tool then send env (RsToolCallEnd r) else ret ())
         (\<lambda>_. ret (tc, r)))))))"

text \<open>The results in the order of the calls; \<open>expect\<close> panics when one of the lists runs out.\<close>

fun reconstruct ::
  "'v tool_call_full list \<Rightarrow> ('v tool_call_full \<times> tool_result) list
     \<Rightarrow> ('v tool_call_full \<times> tool_result) list \<Rightarrow> ('v tool_call_full \<times> tool_result) list option" where
  "reconstruct [] ts os = Some []"
| "reconstruct (tc # tcs) ts os =
     (if is_task tc
      then (case ts of [] \<Rightarrow> None | t # ts' \<Rightarrow> map_option (Cons t) (reconstruct tcs ts' os))
      else (case os of [] \<Rightarrow> None | r # os' \<Rightarrow> map_option (Cons r) (reconstruct tcs ts os')))"

definition execute_tool_calls ::
  "('v, 'w, 'e, 'j) orch_env \<Rightarrow> tool_context \<Rightarrow> 'v tool_call_full list
     \<Rightarrow> (('v, 'w) orch, 'e run_error, ('v tool_call_full \<times> tool_result) list) act" where
  "execute_tool_calls env tcx tool_calls =
     (let task_calls = filter is_task_call tool_calls;
          other_calls = filter (\<lambda>tc. \<not> is_task_call tc) tool_calls
      in andthen (on_tools (sv_join (en_services env) (en_agent env) tcx task_calls))
         (\<lambda>results.
            let task_results = zip task_calls (map results [0..<length task_calls])
            in andthen (map_act (execute_other env tcx) other_calls)
         (\<lambda>other_results.
            case reconstruct tool_calls task_results other_results of
              Some records \<Rightarrow> ret records
            | None \<Rightarrow> panic)))"

section \<open>One turn of the loop\<close>

record 'v locals =
  lo_context :: "'v chat_context"
  lo_yield :: bool
  lo_complete :: bool
  lo_count :: nat

definition count ::
  "('v, 'w, 'e, 'j) orch_env \<Rightarrow> rstr \<Rightarrow> (('v, 'w) orch, 'e run_error, unit) act" where
  "count env name = update (\<lambda>s. s\<lparr>os_world := sv_count (en_services env) name (os_world s)\<rparr>)"

definition store_context :: "'v chat_context \<Rightarrow> (('v, 'w) orch, 'e, unit) act" where
  "store_context c = update (\<lambda>s. s\<lparr>os_conversation := (os_conversation s)\<lparr>cv_context := Some c\<rparr>\<rparr>)"

definition persist ::
  "('v, 'w, 'e, 'j) orch_env \<Rightarrow> (('v, 'w) orch, 'e run_error, unit) act" where
  "persist env = andthen mark_dirty (\<lambda>_. flush_if_dirty env)"

text \<open>From the top of the loop to the \<open>Response\<close> event.\<close>

definition ask_model ::
  "('v, 'w, 'e, 'j) orch_env \<Rightarrow> 'v chat_context \<Rightarrow> nat
     \<Rightarrow> (('v, 'w) orch, 'e run_error, 'v completion_full) act" where
  "ask_model env c request_count =
     andthen (store_context c) (\<lambda>_. andthen (persist env)
     (\<lambda>_. andthen (fire env (LRequest (event_of env \<lparr>rp_request_count = request_count\<rparr>)))
     (\<lambda>_. andthen (count env (lit ''forge.request''))
     (\<lambda>_. andthen (retry_with_config env (execute_chat_turn env c (is_reasoning_supported c)))
     (\<lambda>message. andthen (count env (lit ''forge.model_exec''))
     (\<lambda>_. andthen (fire env (LResponse (event_of env \<lparr>rp_message = message\<rparr>)))
     (\<lambda>_. ret message)))))))"

definition response_complete :: "'v completion_full \<Rightarrow> bool" where
  "response_complete m \<longleftrightarrow> cf_finish_reason m = Some FRStop \<and> cf_tool_calls m = []"

definition response_yields :: "'v completion_full \<Rightarrow> bool" where
  "response_yields m \<longleftrightarrow>
     response_complete m \<or> list_ex (\<lambda>tc. should_yield (tc_name tc)) (cf_tool_calls m)"

text \<open>The failed results tell the agent how many attempts are left.\<close>

definition annotate ::
  "('v, 'w, 'e, 'j) orch_env \<Rightarrow> error_tracker \<Rightarrow> 'v tool_call_full \<times> tool_result
     \<Rightarrow> ('s, 'e run_error, 'v tool_call_full \<times> tool_result) act" where
  "annotate env tracker rec =
     (let r = snd rec
      in if result_is_error r
         then andthen (map_error RunFailed (lift_sum
                (en_retry_text env (remaining_attempts tracker (tr_name r)) (et_limit tracker))))
              (\<lambda>t. ret (fst rec, r\<lparr>tr_output := output_combine_mut (tr_output r) (output_text
                 (element_render (element_text (cd_escape (en_codecs env)) t
                    (element_new (lit ''retry'')))))\<rparr>))
         else ret rec)"

text \<open>The records of the tool calls, tracked and annotated.\<close>

definition run_tools ::
  "('v, 'w, 'e, 'j) orch_env \<Rightarrow> tool_context \<Rightarrow> 'v tool_call_full list
     \<Rightarrow> (('v, 'w) orch, 'e run_error, ('v tool_call_full \<times> tool_result) list) act" where
  "run_tools env tcx tool_calls =
     andthen (execute_tool_calls env tcx tool_calls)
     (\<lambda>recs. andthen (update (\<lambda>s. s\<lparr>os_tracker := tracker_adjust_record (os_tracker s) recs\<rparr>))
     (\<lambda>_. reading (\<lambda>s. map_act (annotate env (os_tracker s)) recs)))"

text \<open>The two interruptions: too many failures, too many requests.\<close>

definition check_failures ::
  "('v, 'w, 'e, 'j) orch_env \<Rightarrow> bool \<Rightarrow> (('v, 'w) orch, 'e run_error, bool) act" where
  "check_failures env yield_now = reading (\<lambda>s.
     if limit_reached (os_tracker s)
     then andthen (send env (RsInterrupt (MaxToolFailurePerTurn (et_limit (os_tracker s))
            (et_errors (os_tracker s))))) (\<lambda>_. ret True)
     else ret yield_now)"

definition check_requests ::
  "('v, 'w, 'e, 'j) orch_env \<Rightarrow> nat \<Rightarrow> bool \<Rightarrow> (('v, 'w) orch, 'e run_error, bool) act" where
  "check_requests env request_count yield_now =
     (case ag_max_requests_per_turn (en_agent env) of
        Some max_allowed \<Rightarrow>
          if \<not> yield_now \<and> max_allowed \<le> request_count
          then andthen (send env (RsInterrupt (MaxRequestPerTurn max_allowed))) (\<lambda>_. ret True)
          else ret yield_now
      | None \<Rightarrow> ret yield_now)"

text \<open>The \<open>End\<close> event: whether the loop yields in the end, and the context it goes on with.\<close>

definition finish ::
  "('v, 'w, 'e, 'j) orch_env \<Rightarrow> 'v chat_context
     \<Rightarrow> (('v, 'w) orch, 'e run_error, 'v chat_context \<times> bool) act" where
  "finish env c = reading (\<lambda>s0.
     andthen (fire env (LEnd (event_of env ())))
     (\<lambda>_. andthen (persist env)
     (\<lambda>_. reading (\<lambda>s.
        if conv_len (os_conversation s0) < conv_len (os_conversation s)
        then ret (case cv_context (os_conversation s) of Some c' \<Rightarrow> c' | None \<Rightarrow> c, False)
        else ret (c, True)))))"

text \<open>From the tool records on: the context with the response, stored, and the decision to yield.\<close>

definition conclude ::
  "('v, 'w, 'e, 'j) orch_env \<Rightarrow> 'v completion_full \<Rightarrow> ('v tool_call_full \<times> tool_result) list
     \<Rightarrow> nat \<Rightarrow> 'v chat_context \<Rightarrow> (('v, 'w) orch, 'e run_error, 'v locals) act" where
  "conclude env message recs request_count c =
     (let c = append_message c (cf_content message) (cf_thought_signature message)
            (cf_reasoning message) (cf_reasoning_details message) (cf_usage message) recs
            (cf_phase message)
      in andthen (check_failures env (response_yields message)) (\<lambda>yield_now.
         let c = set_model (ag_model (en_agent env)) c
         in andthen (store_context c) (\<lambda>_. andthen (persist env)
         (\<lambda>_. andthen (check_requests env request_count yield_now)
         (\<lambda>yield_now. andthen (update (\<lambda>s. s\<lparr>os_conversation :=
                (os_conversation s)\<lparr>cv_metrics := os_metrics s\<rparr>\<rparr>))
         (\<lambda>_. andthen (if yield_now then finish env c else ret (c, False))
         (\<lambda>result. ret \<lparr>lo_context = fst result, lo_yield = snd result,
                lo_complete = response_complete message, lo_count = request_count\<rparr>)))))))"

definition turn ::
  "('v, 'w, 'e, 'j) orch_env \<Rightarrow> tool_context \<Rightarrow> 'v locals
     \<Rightarrow> (('v, 'w) orch, 'e run_error, 'v locals) act" where
  "turn env tcx l =
     andthen (ask_model env (lo_context l) (lo_count l)) (\<lambda>message.
     andthen (run_tools env tcx (cf_tool_calls message)) (\<lambda>recs.
     reading (\<lambda>s. conclude env message recs (lo_count l + 1)
       (case cv_context (os_conversation s) of Some c \<Rightarrow> c | None \<Rightarrow> lo_context l))))"

section \<open>The run\<close>

text \<open>\<open>while !should_yield\<close>; a loop that goes on for ever is \<open>None\<close>.\<close>

partial_function (option) until_yield ::
  "('v locals \<Rightarrow> 's \<Rightarrow> (('a + 'v locals) \<times> 's) option) \<Rightarrow> 'v locals \<Rightarrow> 's
     \<Rightarrow> (('a + 'v locals) \<times> 's) option" where
  "until_yield body l s =
     (if lo_yield l then Some (Inr l, s)
      else Option.bind (body l s) (\<lambda>(r, s').
        case r of Inl a \<Rightarrow> Some (Inl a, s') | Inr l' \<Rightarrow> until_yield body l' s'))"

definition tool_context_of :: "('v, 'w, 'e, 'j) orch_env \<Rightarrow> 'v conversation \<Rightarrow> tool_context" where
  "tool_context_of env cv =
     \<lparr>tcx_has_sender = en_has_sender env, tcx_conversation_id = Some (cv_id cv),
      tcx_parent_id = cv_parent_id cv, tcx_source = cv_source cv\<rparr>"

text \<open>
  The guard dropped at the end, however the body ended: it holds the flag and the conversation of
  the moment it was made, and drops the result of the write.
\<close>

definition with_drop_guard ::
  "('v, 'w, 'e, 'j) orch_env \<Rightarrow> bool \<Rightarrow> 'v conversation
     \<Rightarrow> (('v, 'w) orch, 'e run_error, unit) act \<Rightarrow> (('v, 'w) orch, 'e run_error, unit) act" where
  "with_drop_guard env dirty cv m s =
     (case m s of
        None \<Rightarrow> None
      | Some (r, s') \<Rightarrow>
          if dirty
          then map_option (\<lambda>(r', w). (case r' of Inl Panicked \<Rightarrow> Inl Panicked | _ \<Rightarrow> r,
                 s'\<lparr>os_world := w\<rparr>)) (sv_update (en_services env) cv (os_world s'))
          else Some (r, s'))"

definition run_body ::
  "('v, 'w, 'e, 'j) orch_env \<Rightarrow> 'v chat_context \<Rightarrow> tool_context
     \<Rightarrow> (('v, 'w) orch, 'e run_error, unit) act" where
  "run_body env c tcx =
     andthen (update (\<lambda>s. s\<lparr>os_metrics := cv_metrics (os_conversation s)\<rparr>))
     (\<lambda>_. andthen (until_yield (turn env tcx)
            \<lparr>lo_context = c, lo_yield = False, lo_complete = False, lo_count = 0\<rparr>)
     (\<lambda>l. andthen (persist env)
     (\<lambda>_. if lo_complete l then send env RsTaskComplete else ret ())))"

definition run :: "('v, 'w, 'e, 'j) orch_env \<Rightarrow> (('v, 'w) orch, 'e run_error, unit) act" where
  "run env = reading (\<lambda>s0.
     let c = (case cv_context (os_conversation s0) of Some c \<Rightarrow> c | None \<Rightarrow> context_default)
      in andthen (fire env (LStart (event_of env ())))
           (\<lambda>_. reading (\<lambda>s. with_drop_guard env (os_dirty s) (os_conversation s)
              (run_body env c (tool_context_of env (os_conversation s))))))"

end
