(* ===== verification/Agent_Loop.thy ===== *)
theory Agent_Loop
  imports Orchestrator
begin

text \<open>
  What the agent loop of \<open>Orchestrator\<close> promises: the order of tool results, the pairing of the
  history it keeps and saves, when it ends and when it cannot.
\<close>

section \<open>Order of tool results\<close>

lemma task_lower:
  assumes "is_task tc"
  shows "is_task_call tc"
proof -
  have "to_lowercase s = map ascii_lower s" if "map ascii_lower s = map ascii_lower (kind_name KTask)" for s
  proof -
    have "map ascii_lower s = [116, 97, 115, 107]"
      using that by (simp add: lit_def ascii_lower_def)
    then have "ascii_lower c \<in> {116, 97, 115, 107}" if "c \<in> set s" for c
      using that by (metis (no_types, lifting) image_eqI list.set(1,2) list.set_map)
    then have "char_lower c = [ascii_lower c]" if "c \<in> set s" for c
      using that by (fastforce simp: ascii_lower_def char_lower_def split: if_splits)
    then show ?thesis
      by (induction s) (auto simp: to_lowercase_def)
  qed
  then show ?thesis
    using assms by (auto simp: is_task_def is_task_call_def eq_ignore_ascii_case_def lit_def ascii_lower_def)
qed

lemma reconstruct_needs:
  "reconstruct tcs ts os = Some recs \<Longrightarrow> length (filter (\<lambda>tc. \<not> is_task tc) tcs) \<le> length os"
  by (induction tcs ts os arbitrary: recs rule: reconstruct.induct) (fastforce split: if_splits list.splits)+

lemma misnamed_task_counts:
  "tc \<in> set tcs \<Longrightarrow> is_task_call tc \<Longrightarrow> \<not> is_task tc \<Longrightarrow>
     length (filter (\<lambda>tc. \<not> is_task_call tc) tcs) < length (filter (\<lambda>tc. \<not> is_task tc) tcs)"
proof (induction tcs)
  case (Cons c tcs)
  have "length (filter (\<lambda>tc. \<not> is_task_call tc) xs) \<le> length (filter (\<lambda>tc. \<not> is_task tc) xs)"
    for xs :: "'a tool_call_full list"
    using task_lower by (induction xs) auto
  from this [of tcs] Cons task_lower show ?case by (auto simp: less_Suc_eq_le)
qed simp

lemma reconstruct_agreeing:
  assumes "\<And>tc. tc \<in> set tcs \<Longrightarrow> is_task tc = is_task_call tc"
    and "map fst ts = filter is_task_call tcs" "map fst os = filter (\<lambda>tc. \<not> is_task_call tc) tcs"
  shows "\<exists>recs. reconstruct tcs ts os = Some recs \<and> map fst recs = tcs \<and> set recs = set ts \<union> set os"
  using assms
proof (induction tcs ts os rule: reconstruct.induct)
  case (2 tc tcs ts os)
  then show ?case
    by (cases "is_task_call tc"; cases ts; cases os) auto
qed simp

text \<open>
  The name is taken from the partition by \<open>to_lowercase\<close>, and looked up with
  \<open>eq_ignore_ascii_case\<close>; when they agree the records are the calls in order, and when they do not
  there are none.
\<close>

lemma reconstruct_cases:
  assumes "map fst ts = filter is_task_call tcs" "map fst os = filter (\<lambda>tc. \<not> is_task_call tc) tcs"
  shows "(\<forall>tc \<in> set tcs. is_task tc = is_task_call tc) \<and>
      (\<exists>recs. reconstruct tcs ts os = Some recs \<and> map fst recs = tcs \<and> set recs = set ts \<union> set os)
    \<or> (\<exists>tc \<in> set tcs. is_task_call tc \<and> \<not> is_task tc) \<and> reconstruct tcs ts os = None"
proof (cases "\<forall>tc \<in> set tcs. is_task tc = is_task_call tc")
  case True
  then show ?thesis using reconstruct_agreeing assms by blast
next
  case False
  then obtain tc where tc: "tc \<in> set tcs" "is_task_call tc" "\<not> is_task tc"
    using task_lower by blast
  have "length os = length (filter (\<lambda>tc. \<not> is_task_call tc) tcs)"
    using assms(2) by (metis length_map)
  then have "reconstruct tcs ts os = None"
    using misnamed_task_counts [OF tc] reconstruct_needs by (metis not_less option.exhaust)
  with tc show ?thesis by blast
qed

text \<open>The pairs a batch of tools produces.\<close>

lemma execute_other_fst: "yields I (execute_other env tcx tc) (\<lambda>rec. fst rec = tc)"
  by (auto simp: yields_def execute_other_def Let_def andthen_Inr_iff ret_apply)

lemma execute_others_fst:
  assumes "map_act (execute_other env tcx) tcs s = Some (Inr recs, s')"
  shows "map fst recs = tcs"
proof -
  have "yields (\<lambda>_. True) (map_act (execute_other env tcx) tcs) (list_all2 (\<lambda>tc rec. fst rec = tc) tcs)"
    by (intro yields_map_act keeps_True execute_other_fst)
  with assms have "list_all2 (\<lambda>tc rec. fst rec = tc) tcs recs"
    by (auto dest: yieldsD)
  then show ?thesis
    by (induction rule: list_all2_induct) auto
qed

lemma expect_Inr_iff:
  "(case x of Some y \<Rightarrow> ret y | None \<Rightarrow> panic) s = Some (Inr z, s') \<longleftrightarrow> x = Some z \<and> s' = s"
  by (auto simp: ret_apply panic_apply split: option.split)

lemma execute_tool_calls_Inr_iff:
  "execute_tool_calls env tcx tcs s = Some (Inr recs, s') \<longleftrightarrow>
     (\<exists>results s1 others.
        on_tools (sv_join (en_services env) (en_agent env) tcx (filter is_task_call tcs)) s = Some (Inr results, s1)
        \<and> map_act (execute_other env tcx) (filter (\<lambda>tc. \<not> is_task_call tc) tcs) s1 = Some (Inr others, s')
        \<and> reconstruct tcs (zip (filter is_task_call tcs)
             (map results [0..<length (filter is_task_call tcs)])) others = Some recs)"
  by (simp add: execute_tool_calls_def Let_def andthen_Inr_iff expect_Inr_iff)

text \<open>In the order of the calls, and each kind in the order it was made.\<close>

lemma reconstruct_parts:
  "\<lbrakk>reconstruct tcs ts os = Some recs; map fst ts = filter is_task_call tcs;
    map fst os = filter (\<lambda>tc. \<not> is_task_call tc) tcs; \<And>tc. tc \<in> set tcs \<Longrightarrow> is_task tc = is_task_call tc\<rbrakk>
   \<Longrightarrow> filter (\<lambda>rec. is_task_call (fst rec)) recs = ts \<and> filter (\<lambda>rec. \<not> is_task_call (fst rec)) recs = os"
proof (induction tcs ts os arbitrary: recs rule: reconstruct.induct)
  case (2 tc tcs ts os)
  then show ?case
    by (cases "is_task_call tc"; cases ts; cases os) (fastforce split: if_splits)+
qed simp

lemma execute_other_result:
  fixes s :: "('v, 'w) orch"
  shows "execute_other env tcx tc s = Some (Inr rec, s') \<Longrightarrow>
     \<exists>t t' :: ('v, 'w) orch. on_tools (sv_call (en_services env) (en_agent env) tcx tc) t = Some (Inr (snd rec), t')"
proof -
  assume "execute_other env tcx tc s = Some (Inr rec, s')"
  then obtain t t' :: "('v, 'w) orch" and r where
    "on_tools (sv_call (en_services env) (en_agent env) tcx tc) t = Some (Inr r, t')" "rec = (tc, r)"
    unfolding execute_other_def Let_def andthen_Inr_iff ret_apply by (elim exE conjE) simp
  then show ?thesis by auto
qed

lemma execute_others_results:
  fixes s :: "('v, 'w) orch"
  assumes "map_act (execute_other env tcx) tcs s = Some (Inr recs, s')" "rec \<in> set recs"
  shows "\<exists>t t' :: ('v, 'w) orch. on_tools (sv_call (en_services env) (en_agent env) tcx (fst rec)) t = Some (Inr (snd rec), t')"
  using assms
proof (induction tcs arbitrary: s recs)
  case (Cons tc tcs)
  then obtain rec1 recs1 s1 where "execute_other env tcx tc s = Some (Inr rec1, s1)"
    "map_act (execute_other env tcx) tcs s1 = Some (Inr recs1, s')" "recs = rec1 # recs1"
    by (auto simp: andthen_Inr_iff ret_apply)
  moreover from this(1) have "fst rec1 = tc" by (rule yieldsD [OF execute_other_fst]) simp
  ultimately show ?case
    using Cons.IH [of s1 recs1] Cons.prems(2) execute_other_result [of env tcx tc s rec1 s1] by (cases "rec = rec1") auto
qed (simp add: ret_apply)

text \<open>C8: The results come back in the order of the calls, whatever mix of concurrent task calls and
  sequential other calls was made: record by record they are the calls; the result of the i-th task call is the one the
  concurrent run gave for its position, whichever task was done first, and the result of any other call is one that the
  tool service gave for this very call.\<close>

theorem tool_records_in_order:
  fixes s :: "('v, 'w) orch"
  assumes "execute_tool_calls env tcx tcs s = Some (Inr recs, s')"
  shows "map fst recs = tcs
    \<and> (\<exists>results s1. on_tools (sv_join (en_services env) (en_agent env) tcx (filter is_task_call tcs)) s = Some (Inr results, s1)
         \<and> map snd (filter (\<lambda>rec. is_task_call (fst rec)) recs) = map results [0..<length (filter is_task_call tcs)])
    \<and> (\<forall>rec\<in>set recs. \<not> is_task_call (fst rec) \<longrightarrow>
         (\<exists>t t' :: ('v, 'w) orch. on_tools (sv_call (en_services env) (en_agent env) tcx (fst rec)) t = Some (Inr (snd rec), t')))"
proof -
  obtain results s1 others where
    join: "on_tools (sv_join (en_services env) (en_agent env) tcx (filter is_task_call tcs)) s = Some (Inr results, s1)"
    and others: "map_act (execute_other env tcx) (filter (\<lambda>tc. \<not> is_task_call tc) tcs) s1 = Some (Inr others, s')"
    and recs: "reconstruct tcs (zip (filter is_task_call tcs)
             (map results [0..<length (filter is_task_call tcs)])) others = Some recs"
    using assms by (auto simp: execute_tool_calls_Inr_iff)
  let ?ts = "zip (filter is_task_call tcs) (map results [0..<length (filter is_task_call tcs)])"
  note fsts = execute_others_fst [OF others]
  have "map fst recs = tcs" "\<forall>tc\<in>set tcs. is_task tc = is_task_call tc"
    using reconstruct_cases [of ?ts tcs others] fsts recs by auto
  moreover from this(2) have parts: "filter (\<lambda>rec. is_task_call (fst rec)) recs = ?ts"
    "filter (\<lambda>rec. \<not> is_task_call (fst rec)) recs = others"
    using reconstruct_parts [OF recs _ fsts] by simp_all
  moreover have "\<exists>t t' :: ('v, 'w) orch. on_tools (sv_call (en_services env) (en_agent env) tcx (fst rec)) t = Some (Inr (snd rec), t')"
    if "rec \<in> set recs" "\<not> is_task_call (fst rec)" for rec
    using execute_others_results [OF others, of rec] that parts(2) by fastforce
  ultimately show ?thesis using join by auto
qed

text \<open>A call whose name only becomes \<open>task\<close> by a lower-casing outside ASCII is run with the tasks
  but looked up among the others: the whole batch then panics instead of returning any results.\<close>

theorem misnamed_task_panics:
  assumes "tc \<in> set tcs" "is_task_call tc" "\<not> is_task tc"
    and "execute_tool_calls env tcx tcs s = Some (r, s')"
  shows "\<exists>a. r = Inl a"
proof (cases r)
  case (Inr recs)
  then obtain results others where
    o: "map fst others = filter (\<lambda>tc. \<not> is_task_call tc) tcs"
    and recs: "reconstruct tcs (zip (filter is_task_call tcs)
             (map results [0..<length (filter is_task_call tcs)])) others = Some recs"
    using assms(4) by (auto simp: execute_tool_calls_Inr_iff dest: execute_others_fst)
  from reconstruct_cases [of "zip (filter is_task_call tcs)
      (map results [0..<length (filter is_task_call tcs)])" tcs others] o recs assms(1-3)
  show ?thesis by auto
qed simp

section \<open>Retrying\<close>

lemma attempts_keeps:
  "attempts again notify oper n s r s' \<Longrightarrow> keeps I oper \<Longrightarrow> (\<And>e. keeps I (notify e)) \<Longrightarrow> I s \<Longrightarrow> I s'"
  by (induction rule: attempts.induct) (blast dest: keepsD)+

lemma retry_keeps:
  assumes "retry_documented (en_retry env)" "keeps I oper" "\<And>e. keeps I (notify_retry env e)"
  shows "keeps I (retry_with_config env oper)"
  using assms(1) attempts_keeps [where notify = "notify_retry env", OF _ assms(2,3)]
  unfolding retry_documented_def retry_with_config_def by (intro keepsI) blast

lemma returns_retry:
  "retry_documented (en_retry env) \<Longrightarrow> returns oper \<Longrightarrow> (\<And>e. returns (notify_retry env e)) \<Longrightarrow> returns (retry_with_config env oper)"
  unfolding retry_documented_def returns_def retry_with_config_def by blast

section \<open>The history the loop keeps\<close>

text \<open>What is assumed of the services: an invariant of the world that every one of them keeps, the
  store only when it is given a paired history; and that a tool answers under the id of its call.\<close>

definition services_keep :: "('v message_entry list \<Rightarrow> bool) \<Rightarrow> ('w \<Rightarrow> bool) \<Rightarrow> ('v, 'w, 'e) services \<Rightarrow> bool" where
  "services_keep H J sv \<longleftrightarrow>
     (\<forall>m c p. keeps J (sv_chat sv m c p))
   \<and> (\<forall>a t tc. keeps (\<lambda>(_, w). J w) (sv_call sv a t tc))
   \<and> (\<forall>a t tcs. keeps (\<lambda>(_, w). J w) (sv_join sv a t tcs))
   \<and> (\<forall>cv. H (conv_messages cv) \<longrightarrow> keeps J (sv_update sv cv))
   \<and> (\<forall>m. keeps J (sv_send sv m)) \<and> (\<forall>tc. keeps J (sv_acknowledged sv tc))
   \<and> (\<forall>name w. J w \<longrightarrow> J (sv_count sv name w))"

definition services_answer :: "('v, 'w, 'e) services \<Rightarrow> bool" where
  "services_answer sv \<longleftrightarrow>
     (\<forall>a t tc. yields (\<lambda>_. True) (sv_call sv a t tc) (\<lambda>r. tr_call_id r = tc_call_id tc))
   \<and> (\<forall>a t tcs. yields (\<lambda>_. True) (sv_join sv a t tcs)
        (\<lambda>rs. \<forall>i < length tcs. tr_call_id (rs i) = tc_call_id (tcs ! i)))"

definition conv_inv :: "('v message_entry list \<Rightarrow> bool) \<Rightarrow> ('w \<Rightarrow> bool) \<Rightarrow> 'v conversation \<times> 'w \<Rightarrow> bool" where
  "conv_inv H J = (\<lambda>(cv, w). H (conv_messages cv) \<and> J w)"

definition loop_inv :: "('v message_entry list \<Rightarrow> bool) \<Rightarrow> ('w \<Rightarrow> bool) \<Rightarrow> ('v, 'w) orch \<Rightarrow> bool" where
  "loop_inv H J s \<longleftrightarrow> H (conv_messages (os_conversation s)) \<and> J (os_world s)"

text \<open>An environment whose parts keep the invariant.\<close>

definition env_keeps :: "('v message_entry list \<Rightarrow> bool) \<Rightarrow> ('w \<Rightarrow> bool) \<Rightarrow> ('v, 'w, 'e, 'j) orch_env \<Rightarrow> bool" where
  "env_keeps H J env \<longleftrightarrow>
     services_keep H J (en_services env) \<and> services_answer (en_services env)
     \<and> hook_keeps (conv_inv H J) (en_hook env) \<and> retry_documented (en_retry env)"

lemma env_keeps_retry: "env_keeps H J env \<Longrightarrow> retry_documented (en_retry env)"
  by (simp add: env_keeps_def)

definition answered :: "'v tool_call_full \<times> tool_result \<Rightarrow> bool" where
  "answered rec \<longleftrightarrow> tr_call_id (snd rec) = tc_call_id (fst rec)"

lemma ignoring_keeps: "keeps I m \<Longrightarrow> keeps I (ignoring m)"
  by (fastforce simp: keeps_def ignoring_def split: option.splits sum.splits abort.splits)

lemma yields_on_tools: "yields (\<lambda>_. True) m Q \<Longrightarrow> yields I (on_tools m) Q"
  unfolding on_tools_def by (intro yields_map_error yields_zoom) auto

lemma execute_other_answered:
  "services_answer (en_services env) \<Longrightarrow> yields (\<lambda>_. True) (execute_other env tcx tc) answered"
  unfolding execute_other_def Let_def
  by (intro yields_andthen_any keeps_True
      yields_andthen [where P = "\<lambda>r. tr_call_id r = tc_call_id tc"] yields_on_tools)
    (auto simp: services_answer_def answered_def intro: yields_ret)

lemma execute_tool_calls_answered:
  assumes "services_answer (en_services env)"
  shows "yields (\<lambda>_. True) (execute_tool_calls env tcx tcs) (list_all answered)"
  unfolding yields_def
proof (intro allI impI)
  fix s recs s'
  assume "execute_tool_calls env tcx tcs s = Some (Inr recs, s')"
  then obtain results s1 others where
    join: "on_tools (sv_join (en_services env) (en_agent env) tcx (filter is_task_call tcs)) s
        = Some (Inr results, s1)"
    and others: "map_act (execute_other env tcx) (filter (\<lambda>tc. \<not> is_task_call tc) tcs) s1 = Some (Inr others, s')"
    and recs: "reconstruct tcs (zip (filter is_task_call tcs)
             (map results [0..<length (filter is_task_call tcs)])) others = Some recs"
    by (auto simp: execute_tool_calls_Inr_iff)
  have "yields (\<lambda>_. True) (map_act (execute_other env tcx) (filter (\<lambda>tc. \<not> is_task_call tc) tcs))
      (list_all2 (\<lambda>_. answered) (filter (\<lambda>tc. \<not> is_task_call tc) tcs))"
    by (intro yields_map_act keeps_True execute_other_answered assms)
  from yieldsD [OF this others] have "\<forall>rec \<in> set others. answered rec"
    by (metis in_set_conv_nth list_all2_conv_all_nth)
  moreover have "\<forall>i < length (filter is_task_call tcs).
      tr_call_id (results i) = tc_call_id (filter is_task_call tcs ! i)"
    using yieldsD [OF yields_on_tools join, of "\<lambda>rs. \<forall>i < length (filter is_task_call tcs).
      tr_call_id (rs i) = tc_call_id (filter is_task_call tcs ! i)" "\<lambda>_. True"] assms
    by (simp add: services_answer_def)
  then have "\<forall>rec \<in> set (zip (filter is_task_call tcs)
             (map results [0..<length (filter is_task_call tcs)])). answered rec"
    by (auto simp: answered_def in_set_zip)
  ultimately show "list_all answered recs"
    using reconstruct_cases [of "zip (filter is_task_call tcs)
      (map results [0..<length (filter is_task_call tcs)])" tcs others] execute_others_fst [OF others] recs
    by (auto simp: list_all_iff)
qed

lemma annotate_keeps: "keeps I (annotate env t rec)"
  by (auto simp: annotate_def Let_def intro!: keeps_intros)

lemma annotate_answered: "answered rec \<Longrightarrow> yields I (annotate env t rec) answered"
  unfolding annotate_def Let_def
  by (auto intro!: yields_ret yields_andthen_any keeps_intros simp: answered_def)

declare until_yield.simps [simp del]

lemma until_yield_induct [consumes 1, case_names yield stop turn]:
  assumes "until_yield body l s = Some y"
    and "\<And>l s. lo_yield l \<Longrightarrow> P l s (Inr l, s)"
    and "\<And>l s a s'. \<not> lo_yield l \<Longrightarrow> body l s = Some (Inl a, s') \<Longrightarrow> P l s (Inl a, s')"
    and "\<And>l s l' s' y. \<not> lo_yield l \<Longrightarrow> body l s = Some (Inr l', s') \<Longrightarrow> P l' s' y \<Longrightarrow> P l s y"
  shows "P l s y"
proof -
  have "body' = body \<longrightarrow> P l s y" if "until_yield body' l s = Some y" for body'
  proof (rule until_yield.raw_induct [where P = "\<lambda>body' l s y. body' = body \<longrightarrow> P l s y", OF _ that])
    fix loop body' l s y
    assume IH: "\<And>body' l s y. loop body' l s = Some y \<Longrightarrow> body' = body \<longrightarrow> P l s y"
      and step: "(if lo_yield l then Some (Inr l, s)
        else Option.bind (body' l s) (\<lambda>(r, s'). case r of Inl a \<Rightarrow> Some (Inl a, s')
          | Inr l' \<Rightarrow> loop body' l' s')) = Some y"
    show "body' = body \<longrightarrow> P l s y"
    proof
      assume eq: "body' = body"
      show "P l s y"
      proof (cases "lo_yield l")
        case True
        with step assms(2) show ?thesis by auto
      next
        case False
        with step eq obtain r s1 where s1: "body l s = Some (r, s1)"
          and rest: "(case r of Inl a \<Rightarrow> Some (Inl a, s1) | Inr l' \<Rightarrow> loop body l' s1) = Some y"
          by (auto simp: bind_eq_Some_conv)
        show ?thesis
        proof (cases r)
          case (Inl a)
          with rest s1 False assms(3) show ?thesis by auto
        next
          case (Inr l')
          with IH [of body l' s1 y] rest have "P l' s1 y" by simp
          with assms(4) False s1 Inr show ?thesis by blast
        qed
      qed
    qed
  qed
  with assms(1) show ?thesis by blast
qed

text \<open>Whatever holds of the locals and the state at the top of every turn holds at the end.\<close>

lemma until_yield_keeps:
  assumes "until_yield body l s = Some (r, s')" "Q l" "I s"
    and "\<And>l. Q l \<Longrightarrow> keeps I (body l)" "\<And>l. Q l \<Longrightarrow> yields I (body l) Q"
  shows "I s'"
proof -
  have "Q l \<longrightarrow> I s \<longrightarrow> I (snd (r, s'))"
    using assms(1)
    by (induction rule: until_yield_induct)
      (use assms(4,5) in \<open>auto dest: keepsD yieldsD\<close>)
  with assms show ?thesis by simp
qed

text \<open>
  A property of histories that the loop maintains: adding a turn whose results answer its calls
  keeps it. Inside the locale it is carried through every action of the loop.
\<close>

locale history_invariant =
  fixes H :: "'v message_entry list \<Rightarrow> bool"
  assumes turn_added: "H (ctx_messages c) \<Longrightarrow> list_all answered recs \<Longrightarrow>
    H (ctx_messages (set_model m (append_message c content sig reasoning details usage recs phase)))"
begin

lemma loop_inv_updates [simp]:
  "loop_inv H J (s\<lparr>os_dirty := d\<rparr>) = loop_inv H J s"
  "loop_inv H J (s\<lparr>os_tracker := t\<rparr>) = loop_inv H J s"
  "loop_inv H J (s\<lparr>os_metrics := m\<rparr>) = loop_inv H J s"
  "loop_inv H J (s\<lparr>os_conversation := (os_conversation s)\<lparr>cv_metrics := m\<rparr>\<rparr>) = loop_inv H J s"
  by (simp_all add: loop_inv_def conv_messages_def)

lemma keeps_on_world: "keeps J m \<Longrightarrow> keeps (loop_inv H J) (on_world m)"
  unfolding on_world_def by (intro keeps_intros keeps_zoom [where J = J]) (auto simp: loop_inv_def)

lemma keeps_on_tools: "keeps (\<lambda>(_, w). J w) m \<Longrightarrow> keeps (loop_inv H J) (on_tools m)"
  unfolding on_tools_def
  by (intro keeps_intros keeps_zoom [where J = "\<lambda>(_, w). J w"]) (auto simp: loop_inv_def)

lemma keeps_on_conversation: "keeps (conv_inv H J) m \<Longrightarrow> keeps (loop_inv H J) (on_conversation m)"
  unfolding on_conversation_def
  by (intro keeps_intros keeps_zoom [where J = "conv_inv H J"]) (auto simp: loop_inv_def conv_inv_def)

lemma send_keeps: "env_keeps H J env \<Longrightarrow> keeps (loop_inv H J) (send env m)"
  by (auto simp: send_def env_keeps_def services_keep_def intro!: keeps_on_world keeps_intros)

lemma await_keeps: "env_keeps H J env \<Longrightarrow> keeps (loop_inv H J) (await_notified env tc)"
  by (auto simp: await_notified_def env_keeps_def services_keep_def intro!: keeps_on_world keeps_intros)

lemma fire_keeps: "env_keeps H J env \<Longrightarrow> keeps (loop_inv H J) (fire env ev)"
  by (auto simp: fire_def env_keeps_def hook_keeps_def intro!: keeps_on_conversation)

lemma count_keeps: "env_keeps H J env \<Longrightarrow> keeps (loop_inv H J) (count env name)"
  by (auto simp: count_def env_keeps_def services_keep_def loop_inv_def intro!: keeps_update)

lemma persist_keeps: "env_keeps H J env \<Longrightarrow> keeps (loop_inv H J) (persist env)"
  unfolding persist_def mark_dirty_def flush_if_dirty_def
  by (intro keeps_intros keeps_update keeps_reading)
    (auto simp: env_keeps_def services_keep_def loop_inv_def
      intro!: keeps_intros keeps_update keeps_on_world)

lemma store_keeps: "H (ctx_messages c) \<Longrightarrow> keeps (loop_inv H J) (store_context c)"
  by (auto simp: store_context_def loop_inv_def conv_messages_def intro!: keeps_update)

lemma execute_chat_turn_keeps: "env_keeps H J env \<Longrightarrow> keeps (loop_inv H J) (execute_chat_turn env c b)"
  unfolding execute_chat_turn_def
  by (intro keeps_intros keeps_reading)
    (auto simp: env_keeps_def services_keep_def Let_def split_beta split: sum.split
      intro!: keeps_on_world keeps_intros keeps_map_act ignoring_keeps send_keeps)

lemma notify_retry_keeps: "env_keeps H J env \<Longrightarrow> keeps (loop_inv H J) (notify_retry env e)"
  by (auto simp: notify_retry_def count_def [symmetric] intro!: keeps_intros ignoring_keeps send_keeps count_keeps)

lemma ask_model_keeps:
  "env_keeps H J env \<Longrightarrow> H (ctx_messages c) \<Longrightarrow> keeps (loop_inv H J) (ask_model env c n)"
  unfolding ask_model_def
  by (intro keeps_intros store_keeps persist_keeps fire_keeps count_keeps retry_keeps env_keeps_retry
      execute_chat_turn_keeps notify_retry_keeps)

text \<open>The tools.\<close>

lemma execute_other_keeps: "env_keeps H J env \<Longrightarrow> keeps (loop_inv H J) (execute_other env tcx tc)"
  unfolding execute_other_def Let_def
  by (auto simp: env_keeps_def services_keep_def
      intro!: keeps_intros send_keeps await_keeps fire_keeps keeps_on_tools)

lemma execute_tool_calls_keeps: "env_keeps H J env \<Longrightarrow> keeps (loop_inv H J) (execute_tool_calls env tcx tcs)"
  unfolding execute_tool_calls_def Let_def
  by (auto simp: env_keeps_def services_keep_def split: option.split
      intro!: keeps_intros keeps_on_tools keeps_map_act execute_other_keeps)

lemma run_tools_keeps: "env_keeps H J env \<Longrightarrow> keeps (loop_inv H J) (run_tools env tcx tcs)"
  unfolding run_tools_def
  by (intro keeps_intros execute_tool_calls_keeps keeps_update keeps_reading keeps_map_act annotate_keeps)
    simp_all

lemma run_tools_answered:
  fixes env :: "('v, 'w, 'e, 'j) orch_env"
  shows "env_keeps H J env \<Longrightarrow> yields (\<lambda>_. True) (run_tools env tcx tcs) (list_all answered)"
proof -
  assume env: "env_keeps H J env"
  have "yields (\<lambda>_. True) (map_act (annotate env t) recs) (list_all answered)"
    if "list_all answered recs" for t and recs :: "('v tool_call_full \<times> tool_result) list"
  proof -
    have "yields (\<lambda>_. True) (map_act (annotate env t) recs) (list_all2 (\<lambda>_. answered) recs)"
      using that by (intro yields_map_act keeps_True annotate_answered) (simp add: list_all_iff)
    then show ?thesis
      unfolding yields_def list_all2_conv_all_nth list_all_length by metis
  qed
  then show ?thesis
    using execute_tool_calls_answered env unfolding run_tools_def env_keeps_def
    by (intro yields_andthen [where P = "list_all answered"] keeps_True yields_andthen_any yields_reading) auto
qed

text \<open>The end of a turn.\<close>

lemma check_keeps:
  assumes "env_keeps H J env"
  shows "keeps (loop_inv H J) (check_failures env b)" "keeps (loop_inv H J) (check_requests env n b)"
  unfolding check_failures_def check_requests_def
  by (auto intro!: keeps_reading keeps_intros send_keeps assms split: option.split)

lemma loop_inv_context: "loop_inv H J s \<Longrightarrow> cv_context (os_conversation s) = Some c \<Longrightarrow> H (ctx_messages c)"
  by (simp add: loop_inv_def conv_messages_def)

lemma finish_keeps:
  assumes "env_keeps H J env" "H (ctx_messages c)"
  shows "keeps (loop_inv H J) (finish env c)"
    "yields (loop_inv H J) (finish env c) (\<lambda>result. H (ctx_messages (fst result)))"
proof -
  show "keeps (loop_inv H J) (finish env c)"
    unfolding finish_def
    by (auto intro!: keeps_reading keeps_intros fire_keeps persist_keeps assms split: option.split)
  show "yields (loop_inv H J) (finish env c) (\<lambda>result. H (ctx_messages (fst result)))"
    unfolding finish_def
    by (intro yields_reading yields_andthen_any fire_keeps persist_keeps assms)
      (auto intro!: yields_ret dest: loop_inv_context simp: assms split: option.split)
qed

lemma conclude_keeps:
  assumes "env_keeps H J env" "H (ctx_messages c)" "list_all answered recs"
  shows "keeps (loop_inv H J) (conclude env message recs n c)"
    "yields (loop_inv H J) (conclude env message recs n c) (\<lambda>l. H (ctx_messages (lo_context l)))"
proof -
  let ?c = "append_message c (cf_content message) (cf_thought_signature message) (cf_reasoning message)
    (cf_reasoning_details message) (cf_usage message) recs (cf_phase message)"
  have c: "H (ctx_messages (set_model m ?c))" for m
    using assms(2,3) by (rule turn_added)
  show "keeps (loop_inv H J) (conclude env message recs n c)"
    unfolding conclude_def Let_def
    by (auto intro!: keeps_intros check_keeps assms store_keeps persist_keeps keeps_update finish_keeps c)
  show "yields (loop_inv H J) (conclude env message recs n c) (\<lambda>l. H (ctx_messages (lo_context l)))"
    unfolding conclude_def Let_def
    by (intro yields_andthen_any check_keeps assms store_keeps persist_keeps keeps_update c
        yields_andthen [where P = "\<lambda>result. H (ctx_messages (fst result))"])
      (auto intro!: yields_ret keeps_intros finish_keeps assms c)
qed

lemma turn_context:
  "loop_inv H J s \<Longrightarrow> H (ctx_messages c0) \<Longrightarrow>
     H (ctx_messages (case cv_context (os_conversation s) of Some c \<Rightarrow> c | None \<Rightarrow> c0))"
  by (auto dest: loop_inv_context split: option.split)

lemma turn_keeps:
  assumes "env_keeps H J env" "H (ctx_messages (lo_context l))"
  shows "keeps (loop_inv H J) (turn env tcx l)"
    "yields (loop_inv H J) (turn env tcx l) (\<lambda>l'. H (ctx_messages (lo_context l')))"
proof -
  have answers: "yields (loop_inv H J) (run_tools env tcx tcs) (list_all answered)" for tcs
    using run_tools_answered [OF assms(1)] by (auto simp: yields_def)
  show "keeps (loop_inv H J) (turn env tcx l)"
    unfolding turn_def
    by (intro keeps_andthen ask_model_keeps keeps_andthen_yields [where Q = "list_all answered"]
        run_tools_keeps answers keeps_reading conclude_keeps turn_context assms)
  show "yields (loop_inv H J) (turn env tcx l) (\<lambda>l'. H (ctx_messages (lo_context l')))"
    unfolding turn_def
    by (intro yields_andthen_any ask_model_keeps yields_andthen [where P = "list_all answered"]
        run_tools_keeps answers yields_reading conclude_keeps turn_context assms)
qed

section \<open>The loop\<close>

lemma run_body_keeps:
  assumes "env_keeps H J env" "H (ctx_messages c)"
  shows "keeps (loop_inv H J) (run_body env c tcx)"
proof -
  have "keeps (loop_inv H J) (until_yield (turn env tcx) \<lparr>lo_context = c, lo_yield = False,
      lo_complete = False, lo_count = 0\<rparr>)"
    by (rule keepsI, erule until_yield_keeps [where Q = "\<lambda>l. H (ctx_messages (lo_context l))"
          and I = "loop_inv H J"])
      (simp_all add: turn_keeps assms)
  then show ?thesis
    unfolding run_body_def
    by (auto intro!: keeps_andthen keeps_update persist_keeps send_keeps assms keeps_intros)
qed

lemma guard_keeps:
  assumes "env_keeps H J env" "H (conv_messages cv)" "keeps (loop_inv H J) m"
  shows "keeps (loop_inv H J) (with_drop_guard env d cv m)"
proof (rule keepsI)
  fix s r s'
  assume I: "loop_inv H J s" and r: "with_drop_guard env d cv m s = Some (r, s')"
  obtain r1 s1 where s1: "m s = Some (r1, s1)"
    using r by (auto simp: with_drop_guard_def split: option.splits)
  have "loop_inv H J s1" using assms(3) s1 I by (auto dest: keepsD)
  moreover have "keeps J (sv_update (en_services env) cv)"
    using assms(1,2) by (simp add: env_keeps_def services_keep_def)
  ultimately show "loop_inv H J s'"
    using r s1 by (auto simp: with_drop_guard_def loop_inv_def dest: keepsD split: if_splits)
qed

lemma run_keeps:
  assumes "env_keeps H J env"
  shows "keeps (loop_inv H J) (run env)"
proof -
  have start: "H (ctx_messages (case cv_context (os_conversation s) of Some c \<Rightarrow> c | None \<Rightarrow> context_default))"
    if "loop_inv H J s" for s
    using that by (simp add: loop_inv_def conv_messages_def context_default_def split: option.splits)
  show ?thesis
    unfolding run_def Let_def
    by (intro keeps_reading keeps_andthen fire_keeps guard_keeps run_body_keeps assms start)
      (simp_all add: loop_inv_def)
qed

end

lemma paired_turn_added:
  assumes "paired (ctx_messages c)" "list_all answered recs"
  shows "paired (ctx_messages (set_model m (append_message c content sig reasoning details usage recs phase)))"
proof -
  let ?c = "append_message c content sig reasoning details usage recs phase"
  have "paired (ctx_messages ?c)"
    using assms by (intro append_paired) (simp_all add: answered_def list_all_iff split_beta)
  then show ?thesis
    using paired_shape [of "ctx_messages (set_model m ?c)" "ctx_messages ?c"]
    by (simp add: set_model_def map_text_shape)
qed

interpretation paired_history: history_invariant paired
  by unfold_locales (rule paired_turn_added)

section \<open>When the loop ends\<close>

text \<open>Everything the loop waits for answers.\<close>

definition services_return :: "('v, 'w, 'e) services \<Rightarrow> bool" where
  "services_return sv \<longleftrightarrow>
     (\<forall>m c p. returns (sv_chat sv m c p)) \<and> (\<forall>a t tc. returns (sv_call sv a t tc))
   \<and> (\<forall>a t tcs. returns (sv_join sv a t tcs)) \<and> (\<forall>cv. returns (sv_update sv cv))
   \<and> (\<forall>m. returns (sv_send sv m)) \<and> (\<forall>tc. returns (sv_acknowledged sv tc))"

definition env_returns :: "('v, 'w, 'e, 'j) orch_env \<Rightarrow> bool" where
  "env_returns env \<longleftrightarrow> services_return (en_services env) \<and> en_has_sender env
     \<and> (\<forall>ev. returns (hook_handle (en_hook env) ev)) \<and> retry_documented (en_retry env)"

lemma returns_on:
  "returns m \<Longrightarrow> returns (on_world m)"
  "returns m' \<Longrightarrow> returns (on_tools m')"
  "returns m'' \<Longrightarrow> returns (on_conversation m'')"
  by (simp_all add: on_world_def on_tools_def on_conversation_def returns_intros)

lemma basic_returns:
  assumes "env_returns env"
  shows "returns (send env m)" "returns (await_notified env tc)" "returns (fire env ev)"
    "returns (count env name)" "returns (persist env)"
  using assms
  by (auto simp: send_def await_notified_def fire_def count_def persist_def mark_dirty_def
      flush_if_dirty_def env_returns_def services_return_def
      intro!: returns_on returns_intros returns_reading)

lemma returns_ignoring: "returns m \<Longrightarrow> returns (ignoring m)"
  by (auto simp: returns_def ignoring_def split: option.split sum.split abort.split)

lemma ask_model_returns:
  assumes "env_returns env"
  shows "returns (ask_model env c n)"
proof -
  have "returns (execute_chat_turn env c b)" for b
    using assms unfolding execute_chat_turn_def
    by (intro returns_intros returns_reading)
      (auto simp: env_returns_def services_return_def Let_def split_beta split: sum.split
        intro!: returns_on returns_intros returns_map_act returns_ignoring basic_returns assms)
  moreover have "returns (notify_retry env e)" for e
    by (auto simp: notify_retry_def intro!: returns_intros returns_ignoring basic_returns assms)
  ultimately show ?thesis
    using assms unfolding ask_model_def store_context_def
    by (intro returns_intros basic_returns assms returns_retry) (simp_all add: env_returns_def)
qed

lemma run_tools_returns:
  assumes "env_returns env"
  shows "returns (run_tools env tcx tcs)"
proof -
  have "returns (execute_other env tcx tc)" for tc
    using assms unfolding execute_other_def Let_def
    by (auto simp: env_returns_def services_return_def intro!: returns_intros basic_returns assms returns_on)
  moreover have "returns (annotate env t rec)" for t and rec :: "'a tool_call_full \<times> tool_result"
    by (auto simp: annotate_def Let_def intro!: returns_intros)
  ultimately show ?thesis
    using assms unfolding run_tools_def execute_tool_calls_def Let_def
    by (intro returns_intros returns_reading returns_map_act returns_on)
      (auto simp: env_returns_def services_return_def split: option.split intro!: returns_intros)
qed

lemma turn_returns:
  assumes "env_returns env"
  shows "returns (turn env tcx l)"
proof -
  have "returns (conclude env message recs n c)" for message recs n c
    unfolding conclude_def Let_def check_failures_def check_requests_def store_context_def finish_def
    by (auto intro!: returns_intros returns_reading basic_returns assms split: option.split)
  then show ?thesis
    unfolding turn_def by (intro returns_intros returns_reading ask_model_returns run_tools_returns assms)
qed

text \<open>An \<open>End\<close> hook that leaves the number of messages alone.\<close>

definition quiet_end :: "('v, 'w, 'e) hook \<Rightarrow> bool" where
  "quiet_end h \<longleftrightarrow> (\<forall>ev cv w cv' w'. hook_handle h (LEnd ev) (cv, w) = Some (Inr (), (cv', w'))
     \<longrightarrow> conv_len cv' \<le> conv_len cv)"

lemma persist_conversation: "keeps (\<lambda>s. os_conversation s = cv) (persist env)"
  unfolding persist_def mark_dirty_def flush_if_dirty_def on_world_def
  by (intro keeps_intros keeps_update keeps_reading)
    (auto intro!: keeps_intros keeps_update keeps_zoom [where J = "\<lambda>_. True"] keeps_True)

lemma fire_hook:
  assumes "fire env ev s = Some (Inr (), s')"
  shows "hook_handle (en_hook env) ev (os_conversation s, os_world s)
      = Some (Inr (), (os_conversation s', os_world s'))" "os_metrics s' = os_metrics s"
  using assms by (auto simp: fire_def on_conversation_def map_error_def zoom_def dest!: map_sum_InrD [OF sym])

lemma finish_result:
  assumes "finish env c s = Some (Inr (c', y), s')"
  shows "\<exists>s1. fire env (LEnd (event_of env ())) s = Some (Inr (), s1)
    \<and> (y \<longleftrightarrow> conv_len (os_conversation s1) \<le> conv_len (os_conversation s))"
proof -
  obtain s1 s2 where s1: "fire env (LEnd (event_of env ())) s = Some (Inr (), s1)"
    and s2: "persist env s1 = Some (Inr (), s2)"
    and y: "y \<longleftrightarrow> \<not> conv_len (os_conversation s) < conv_len (os_conversation s2)"
    using assms by (auto simp: finish_def reading_def andthen_Inr_iff ret_apply split: if_splits)
  have "os_conversation s2 = os_conversation s1"
    using keepsD [OF persist_conversation s2] by simp
  with s1 y show ?thesis by auto
qed

lemma turn_counts:
  assumes "ag_max_requests_per_turn (en_agent env) = Some n" "quiet_end (en_hook env)"
  shows "yields (\<lambda>_. True) (turn env tcx l)
    (\<lambda>l'. lo_count l' = lo_count l + 1 \<and> (\<not> lo_yield l' \<longrightarrow> lo_count l' < n))"
proof -
  have requests: "yields (\<lambda>_. True) (check_requests env k b) (\<lambda>y. \<not> y \<longrightarrow> k < n)" for k b
    unfolding check_requests_def using assms(1)
    by (auto intro!: yields_ret yields_andthen_any keeps_True)
  have finish: "yields (\<lambda>_. True) (finish env c) snd" for c
    unfolding yields_def
  proof (intro allI impI)
    fix s r s'
    assume "finish env c s = Some (Inr r, s')"
    then obtain s1 where s1: "fire env (LEnd (event_of env ())) s = Some (Inr (), s1)"
      and y: "snd r \<longleftrightarrow> conv_len (os_conversation s1) \<le> conv_len (os_conversation s)"
      using finish_result [of env c s "fst r" "snd r" s'] by auto
    show "snd r"
      using assms(2) [unfolded quiet_end_def, rule_format, OF fire_hook(1) [OF s1]] y by simp
  qed
  have "yields (\<lambda>_. True) (if y then finish env c else ret (c, False))
      (\<lambda>result. \<not> snd result \<longrightarrow> k < n)" if "\<not> y \<longrightarrow> k < n" for y c k
    using finish [of c] that by (auto simp: yields_def ret_apply)
  then have "yields (\<lambda>_. True) (conclude env message recs k c)
      (\<lambda>l'. lo_count l' = k \<and> (\<not> lo_yield l' \<longrightarrow> k < n))" for message recs k c
    unfolding conclude_def Let_def
    by (intro yields_andthen_any keeps_True yields_andthen [where P = "\<lambda>y. \<not> y \<longrightarrow> k < n"] requests
        yields_andthen [where P = "\<lambda>result. \<not> snd result \<longrightarrow> k < n"])
      (auto intro!: yields_ret)
  then show ?thesis
    unfolding turn_def by (intro yields_andthen_any keeps_True yields_reading) (simp add: yields_def)
qed

lemma loop_returns:
  assumes "env_returns env" "ag_max_requests_per_turn (en_agent env) = Some n" "quiet_end (en_hook env)"
  shows "until_yield (turn env tcx) l s \<noteq> None"
proof (induction "n - lo_count l" arbitrary: l s rule: less_induct)
  case less
  show ?case
  proof (cases "lo_yield l")
    case False
    obtain r s1 where s1: "turn env tcx l s = Some (r, s1)"
      using turn_returns [OF assms(1), of tcx l, unfolded returns_def, rule_format, of s] by auto
    have "until_yield (turn env tcx) l' s1 \<noteq> None" if "r = Inr l'" for l'
    proof (cases "lo_yield l'")
      case False
      with yieldsD [OF turn_counts [OF assms(2,3)] s1 [unfolded that]]
      have "lo_count l' = lo_count l + 1" "lo_count l' < n" by simp_all
      then show ?thesis by (intro less) simp
    qed (simp add: until_yield.simps)
    with s1 False show ?thesis
      by (subst until_yield.simps) (auto split: sum.split)
  qed (simp add: until_yield.simps)
qed

lemma run_returns:
  assumes "env_returns env" "ag_max_requests_per_turn (en_agent env) = Some n" "quiet_end (en_hook env)"
  shows "returns (run env)"
proof -
  have loop: "returns (until_yield (turn env tcx) l)" for tcx l
    unfolding returns_def by (intro allI loop_returns [OF assms])
  have guard: "returns m \<Longrightarrow> returns (with_drop_guard env d cv m)" for d cv m
    using assms(1) by (auto simp: returns_def with_drop_guard_def env_returns_def services_return_def
        split: option.split)
  show ?thesis
    unfolding run_def run_body_def Let_def
    by (auto intro!: returns_reading returns_intros basic_returns assms(1) guard loop)
qed

section \<open>How often the model is asked\<close>

text \<open>A count of the world that one call of the model raises by at most one and nothing else raises.\<close>

definition asks_counted :: "('w \<Rightarrow> nat) \<Rightarrow> ('v, 'w, 'e, 'j) orch_env \<Rightarrow> bool" where
  "asks_counted asked env \<longleftrightarrow> (let sv = en_services env in
     (\<forall>m c p w r w'. sv_chat sv m c p w = Some (r, w') \<longrightarrow> asked w' \<le> asked w + 1)
   \<and> (\<forall>a t tc n. keeps (\<lambda>(_, w). asked w \<le> n) (sv_call sv a t tc))
   \<and> (\<forall>a t tcs n. keeps (\<lambda>(_, w). asked w \<le> n) (sv_join sv a t tcs))
   \<and> (\<forall>cv n. keeps (\<lambda>w. asked w \<le> n) (sv_update sv cv))
   \<and> (\<forall>m n. keeps (\<lambda>w. asked w \<le> n) (sv_send sv m)) \<and> (\<forall>tc n. keeps (\<lambda>w. asked w \<le> n) (sv_acknowledged sv tc))
   \<and> (\<forall>name w. asked (sv_count sv name w) \<le> asked w)
   \<and> (\<forall>ev n. keeps (\<lambda>(_, w). asked w \<le> n) (hook_handle (en_hook env) ev)))"

definition asks_at_most :: "('w \<Rightarrow> nat) \<Rightarrow> nat \<Rightarrow> (('v, 'w) orch, 'e, 'a) act \<Rightarrow> bool" where
  "asks_at_most asked k m \<longleftrightarrow> (\<forall>s r s'. m s = Some (r, s') \<longrightarrow> asked (os_world s') \<le> asked (os_world s) + k)"

lemma asks_at_mostD: "asks_at_most asked k m \<Longrightarrow> m s = Some (r, s') \<Longrightarrow> asked (os_world s') \<le> asked (os_world s) + k"
  by (simp add: asks_at_most_def)

lemma asks_none: "(\<And>n. keeps (\<lambda>s. asked (os_world s) \<le> n) m) \<Longrightarrow> asks_at_most asked 0 m"
  unfolding asks_at_most_def by (auto dest: keepsD)

lemma asks_andthen: "asks_at_most asked j m \<Longrightarrow> (\<And>x. asks_at_most asked k (f x)) \<Longrightarrow> asks_at_most asked (j + k) (andthen m f)"
  unfolding asks_at_most_def andthen_Some_iff by fastforce

lemma asks_then: "asks_at_most asked 0 m \<Longrightarrow> (\<And>x. asks_at_most asked k (f x)) \<Longrightarrow> asks_at_most asked k (andthen m f)"
  using asks_andthen [of asked 0 m k f] by simp

lemma asks_reading: "(\<And>s. asks_at_most asked k (g s)) \<Longrightarrow> asks_at_most asked k (reading g)"
  by (auto simp: asks_at_most_def reading_def)

lemma asks_retry:
  assumes "retry_documented (en_retry env)" "asks_at_most asked 1 oper" "\<And>e. asks_at_most asked 0 (notify_retry env e)"
  shows "asks_at_most asked (en_max_attempts env + 1) (retry_with_config env oper)"
proof -
  have "asked (os_world s') \<le> asked (os_world s) + (n + 1)" if "attempts again (notify_retry env) oper n s r s'" for s r s' n again
    using that
  proof induction
    case (attempt_final s r s' n)
    then show ?case using asks_at_mostD [OF assms(2)] by force
  next
    case (attempt_again s e s1 s2 n r s')
    then show ?case using asks_at_mostD [OF assms(2) attempt_again(1)] asks_at_mostD [OF assms(3) attempt_again(3)] by simp
  next
    case (attempt_unnotified s e s1 a s' n)
    then show ?case using asks_at_mostD [OF assms(2) attempt_unnotified(1)] asks_at_mostD [OF assms(3) attempt_unnotified(3)] by simp
  qed
  then show ?thesis using assms(1) unfolding retry_documented_def asks_at_most_def retry_with_config_def by blast
qed

lemma keeps_asked_on:
  "(\<And>n. keeps (\<lambda>w. asked w \<le> n) m) \<Longrightarrow> keeps (\<lambda>s. asked (os_world s) \<le> n) (on_world m)"
  "(\<And>n. keeps (\<lambda>(_, w). asked w \<le> n) m') \<Longrightarrow> keeps (\<lambda>s. asked (os_world s) \<le> n) (on_tools m')"
  "(\<And>n. keeps (\<lambda>(_, w). asked w \<le> n) m'') \<Longrightarrow> keeps (\<lambda>s. asked (os_world s) \<le> n) (on_conversation m'')"
  unfolding on_world_def on_tools_def on_conversation_def
  by (intro keeps_intros keeps_zoom [where J = "\<lambda>w. asked w \<le> n"] keeps_zoom [where J = "\<lambda>(_, w). asked w \<le> n"]; auto)+

lemma keeps_asked_basic:
  assumes "asks_counted asked env"
  shows "keeps (\<lambda>s. asked (os_world s) \<le> n) (send env m)" "keeps (\<lambda>s. asked (os_world s) \<le> n) (await_notified env tc)"
    "keeps (\<lambda>s. asked (os_world s) \<le> n) (fire env ev)" "keeps (\<lambda>s. asked (os_world s) \<le> n) (count env name)"
    "keeps (\<lambda>s. asked (os_world s) \<le> n) (store_context c)" "keeps (\<lambda>s. asked (os_world s) \<le> n) (persist env)"
proof -
  have "asked (sv_count (en_services env) name w) \<le> n" if "asked w \<le> n" for w
  proof -
    have "asked (sv_count (en_services env) name w) \<le> asked w" using assms by (simp add: asks_counted_def Let_def)
    then show ?thesis using that by (rule le_trans)
  qed
  then show "keeps (\<lambda>s. asked (os_world s) \<le> n) (count env name)"
    by (auto simp: count_def intro!: keeps_update)
qed (use assms in \<open>auto simp: asks_counted_def Let_def send_def await_notified_def fire_def store_context_def persist_def
      mark_dirty_def flush_if_dirty_def intro!: keeps_intros keeps_asked_on keeps_update keeps_reading\<close>)

lemma keeps_asked_tools:
  assumes "asks_counted asked env"
  shows "keeps (\<lambda>s. asked (os_world s) \<le> n) (run_tools env tcx tcs)"
  using assms unfolding run_tools_def execute_tool_calls_def execute_other_def Let_def
  by (auto simp: asks_counted_def Let_def split: option.split
      intro!: keeps_intros keeps_asked_basic [OF assms] keeps_asked_on keeps_reading keeps_map_act keeps_update annotate_keeps)

lemma keeps_asked_conclude:
  assumes "asks_counted asked env"
  shows "keeps (\<lambda>s. asked (os_world s) \<le> n) (conclude env message recs k c)"
  unfolding conclude_def finish_def check_failures_def check_requests_def Let_def
  by (auto split: option.split intro!: keeps_intros keeps_reading keeps_asked_basic [OF assms] keeps_update)

lemma turn_asks:
  fixes env :: "('v, 'w, 'e, 'j) orch_env"
  assumes "asks_counted asked env" "retry_documented (en_retry env)"
  shows "asks_at_most asked (en_max_attempts env + 1) (turn env tcx l)"
proof -
  have chat: "asks_at_most asked 1 (on_world (sv_chat (en_services env) m c p) :: (('v, 'w) orch, 'e run_error, _) act)" for m c p
    using assms(1) by (auto simp: asks_counted_def Let_def asks_at_most_def on_world_def map_error_def zoom_def)
  have rest: "asks_at_most asked 0 (andthen (map_act (\<lambda>d. ignoring (send env (delta_response d))) ds)
      (\<lambda>_. case r of Inl e \<Rightarrow> fail (stream_failure e) | Inr m \<Rightarrow> ret m))" for ds and r :: "'e stream_error + 'v completion_full"
    by (auto split: sum.split intro!: asks_none keeps_intros keeps_map_act ignoring_keeps keeps_asked_basic [OF assms(1)])
  have request: "asks_at_most asked 1 (execute_chat_turn env c b)" for c b
  proof -
    have "asks_at_most asked 1 (andthen (on_world (sv_chat (en_services env) m c p)) f :: (('v, 'w) orch, 'e run_error, 'v completion_full) act)"
      if "\<And>x. asks_at_most asked 0 (f x)" for m c p f
      using asks_andthen [OF chat that] by simp
    from this [OF asks_reading] show ?thesis
      unfolding execute_chat_turn_def by (simp add: Let_def split_beta rest)
  qed
  have notify: "asks_at_most asked 0 (notify_retry env e)" for e
    by (auto simp: notify_retry_def count_def [symmetric]
        intro!: asks_none keeps_intros ignoring_keeps keeps_asked_basic [OF assms(1)])
  have after: "asks_at_most asked 0 (andthen (count env (lit ''forge.model_exec''))
      (\<lambda>_. andthen (fire env (LResponse ev)) (\<lambda>_. ret message)))" for ev message
    by (intro asks_none keeps_intros keeps_asked_basic [OF assms(1)])
  have "asks_at_most asked (en_max_attempts env + 1) (ask_model env c n)" for c n
    unfolding ask_model_def
    by (intro asks_then asks_none keeps_asked_basic [OF assms(1)]
        asks_andthen [where k = 0, simplified, OF asks_retry [OF assms(2) request notify]] after)
  then show ?thesis
    unfolding turn_def
    by (intro asks_andthen [where k = 0, simplified] asks_none keeps_intros keeps_asked_tools [OF assms(1)] keeps_reading
        keeps_asked_conclude [OF assms(1)])
qed

lemma loop_asks:
  assumes "asks_counted asked env" "retry_documented (en_retry env)"
    and "ag_max_requests_per_turn (en_agent env) = Some n" "quiet_end (en_hook env)"
    and "until_yield (turn env tcx) l s = Some (r, s')"
  shows "asked (os_world s') \<le> asked (os_world s)
    + (if lo_yield l then 0 else max 1 (n - lo_count l)) * (en_max_attempts env + 1)"
proof -
  let ?a = "\<lambda>s. asked (os_world s)" and ?k = "en_max_attempts env + 1"
  have once: "1 * ?k \<le> max 1 m * ?k" for m by (rule mult_le_mono1) simp
  have "?a (snd (r, s')) \<le> ?a s + (if lo_yield l then 0 else max 1 (n - lo_count l)) * ?k"
    using assms(5)
  proof (induction rule: until_yield_induct)
    case (stop l s a s')
    then show ?case using asks_at_mostD [OF turn_asks [OF assms(1,2)] stop(2)] once [of "n - lo_count l"] by simp
  next
    case (turn l s l' s' y)
    have step: "?a s' \<le> ?a s + ?k" using asks_at_mostD [OF turn_asks [OF assms(1,2)] turn(2)] .
    show ?case
    proof (cases "lo_yield l'")
      case True
      then show ?thesis using step turn once [of "n - lo_count l"] by simp
    next
      case False
      with yieldsD [OF turn_counts [OF assms(3,4)] turn(2)]
      have "lo_count l' = lo_count l + 1" "lo_count l' < n" by simp_all
      then have "max 1 (n - lo_count l) = 1 + max 1 (n - lo_count l')" by simp
      then show ?thesis using False step turn by (simp add: add_mult_distrib)
    qed
  qed simp
  then show ?thesis by simp
qed

lemma run_asks:
  assumes "asks_counted asked env" "retry_documented (en_retry env)"
    and "ag_max_requests_per_turn (en_agent env) = Some n" "quiet_end (en_hook env)"
  shows "asks_at_most asked (max 1 n * (en_max_attempts env + 1)) (run env)"
proof -
  let ?k = "max 1 n * (en_max_attempts env + 1)"
  have loop: "asks_at_most asked ?k (until_yield (turn env tcx) \<lparr>lo_context = c, lo_yield = False, lo_complete = False, lo_count = 0\<rparr>)"
    for tcx c
    using loop_asks [OF assms] by (fastforce simp: asks_at_most_def)
  have body: "asks_at_most asked ?k (run_body env c tcx)" for c tcx
    unfolding run_body_def
    by (intro asks_then asks_none keeps_update asks_andthen [where k = 0, simplified, OF loop])
      (auto intro!: keeps_intros keeps_asked_basic [OF assms(1)])
  have guard: "asks_at_most asked ?k (with_drop_guard env d cv m)" if "asks_at_most asked ?k m" for d cv m
    unfolding asks_at_most_def
  proof (intro allI impI)
    fix s r s'
    assume r: "with_drop_guard env d cv m s = Some (r, s')"
    then obtain r1 s1 where s1: "m s = Some (r1, s1)" by (auto simp: with_drop_guard_def split: option.splits)
    have "keeps (\<lambda>w. asked w \<le> asked (os_world s1)) (sv_update (en_services env) cv)"
      using assms(1) by (simp add: asks_counted_def Let_def)
    then have "asked (os_world s') \<le> asked (os_world s1)"
      using r s1 by (auto simp: with_drop_guard_def dest: keepsD split: if_splits)
    then show "asked (os_world s') \<le> asked (os_world s) + ?k" using asks_at_mostD [OF that s1] by simp
  qed
  show ?thesis
    unfolding run_def Let_def
    by (intro asks_reading asks_then asks_none keeps_asked_basic [OF assms(1)] guard body)
qed

section \<open>When the loop cannot complete\<close>

text \<open>A property of the tool metrics that the tools keep, under which the \<open>End\<close> hook always adds a
  message.\<close>

definition tools_keep :: "(metrics \<Rightarrow> bool) \<Rightarrow> ('v, 'w, 'e) services \<Rightarrow> bool" where
  "tools_keep K sv \<longleftrightarrow>
     (\<forall>a t tc. keeps (\<lambda>(m, _). K m) (sv_call sv a t tc))
   \<and> (\<forall>a t tcs. keeps (\<lambda>(m, _). K m) (sv_join sv a t tcs))"

definition insistent_end :: "(metrics \<Rightarrow> bool) \<Rightarrow> ('v, 'w, 'e) hook \<Rightarrow> bool" where
  "insistent_end K h \<longleftrightarrow> (\<forall>ev cv w cv' w'. K (cv_metrics cv) \<longrightarrow> cv_context cv \<noteq> None \<longrightarrow>
     hook_handle h (LEnd ev) (cv, w) = Some (Inr (), (cv', w')) \<longrightarrow> conv_len cv < conv_len cv')"

lemma keeps_metrics_on:
  "keeps (\<lambda>s. K (os_metrics s)) (on_world m)"
  "keeps (\<lambda>s. K (os_metrics s)) (on_conversation m')"
  by (auto simp: keeps_def on_world_def on_conversation_def map_error_def zoom_def)

lemma keeps_metrics_tools:
  "keeps (\<lambda>(t, _). K t) m \<Longrightarrow> keeps (\<lambda>s. K (os_metrics s)) (on_tools m)"
  unfolding on_tools_def
  by (intro keeps_intros keeps_zoom [where J = "\<lambda>(t, _). K t"]) auto

lemma keeps_metrics_basic:
  "keeps (\<lambda>s. K (os_metrics s)) (send env m)"
  "keeps (\<lambda>s. K (os_metrics s)) (await_notified env tc)"
  "keeps (\<lambda>s. K (os_metrics s)) (fire env ev)"
  "keeps (\<lambda>s. K (os_metrics s)) (count env name)"
  "keeps (\<lambda>s. K (os_metrics s)) (store_context c)"
  "keeps (\<lambda>s. K (os_metrics s)) (persist env)"
  by (auto simp: send_def await_notified_def fire_def count_def store_context_def persist_def
      mark_dirty_def flush_if_dirty_def
      intro!: keeps_intros keeps_metrics_on keeps_update keeps_reading)

lemma notify_metrics: "keeps (\<lambda>s. K (os_metrics s)) (notify_retry env e)"
  by (auto simp: notify_retry_def intro!: keeps_intros keeps_metrics_basic ignoring_keeps keeps_update)

lemma ask_model_metrics:
  "retry_documented (en_retry env) \<Longrightarrow> keeps (\<lambda>s. K (os_metrics s)) (ask_model env c n)"
  unfolding ask_model_def execute_chat_turn_def
  by (auto simp: Let_def split_beta split: sum.split
      intro!: keeps_intros keeps_metrics_basic keeps_metrics_on keeps_reading keeps_map_act
        ignoring_keeps retry_keeps notify_metrics keeps_update)

lemma run_tools_metrics:
  "tools_keep K (en_services env) \<Longrightarrow> keeps (\<lambda>s. K (os_metrics s)) (run_tools env tcx tcs)"
  unfolding run_tools_def execute_tool_calls_def execute_other_def Let_def
  by (auto simp: tools_keep_def split: option.split
      intro!: keeps_intros keeps_metrics_basic keeps_metrics_tools keeps_reading keeps_map_act
        keeps_update annotate_keeps)

lemma send_conversation: "keeps (\<lambda>s. os_conversation s = cv) (send env m)"
  by (auto simp: send_def on_world_def intro!: keeps_intros keeps_zoom [where J = "\<lambda>_. True"] keeps_True)

lemma check_requests_conversation: "keeps (\<lambda>s. os_conversation s = cv) (check_requests env n b)"
  by (auto simp: check_requests_def split: option.split intro!: keeps_intros send_conversation)

lemma check_metrics:
  "keeps (\<lambda>s. K (os_metrics s)) (check_failures env b)"
  "keeps (\<lambda>s. K (os_metrics s)) (check_requests env n b)"
  by (auto simp: check_failures_def check_requests_def split: option.split
      intro!: keeps_reading keeps_intros keeps_metrics_basic)

lemma finish_metrics: "keeps (\<lambda>s. K (os_metrics s)) (finish env c)"
  unfolding finish_def
  by (auto intro!: keeps_reading keeps_intros keeps_metrics_basic)

lemma conclude_metrics: "keeps (\<lambda>s. K (os_metrics s)) (conclude env message recs n c)"
  unfolding conclude_def Let_def
  by (auto intro!: keeps_intros check_metrics keeps_metrics_basic finish_metrics keeps_update)

lemma conclude_never_yields:
  assumes "insistent_end K (en_hook env)"
  shows "yields (\<lambda>s. K (os_metrics s)) (conclude env message recs n c) (\<lambda>l. \<not> lo_yield l)"
  unfolding yields_def
proof (intro allI impI)
  fix s l s'
  let ?c = "set_model (ag_model (en_agent env)) (append_message c (cf_content message)
    (cf_thought_signature message) (cf_reasoning message) (cf_reasoning_details message)
    (cf_usage message) recs (cf_phase message))"
  assume K: "K (os_metrics s)" and "conclude env message recs n c s = Some (Inr l, s')"
  then obtain y1 s1 s2 y s3 result s4 where
    s1: "check_failures env (response_yields message) s = Some (Inr y1, s1)"
    and s2: "persist env (s1\<lparr>os_conversation := (os_conversation s1)\<lparr>cv_context := Some ?c\<rparr>\<rparr>) = Some (Inr (), s2)"
    and s3: "check_requests env n y1 s2 = Some (Inr y, s3)"
    and s4: "(if y then finish env ?c else ret (?c, False))
        (s3\<lparr>os_conversation := (os_conversation s3)\<lparr>cv_metrics := os_metrics s3\<rparr>\<rparr>) = Some (Inr result, s4)"
    and l: "lo_yield l = snd result"
    by (auto simp: conclude_def Let_def andthen_Inr_iff store_context_def update_def ret_apply)
  have "K (os_metrics s1)" using check_metrics(1) s1 K by (rule keepsD)
  then have "K (os_metrics s2)"
    using keepsD [OF keeps_metrics_basic(6) s2] by simp
  then have metrics: "K (os_metrics s3)" using check_metrics(2) s3 by (blast dest: keepsD)
  have "os_conversation s2 = (os_conversation s1)\<lparr>cv_context := Some ?c\<rparr>"
    using keepsD [OF persist_conversation s2] by simp
  then have stored: "cv_context (os_conversation s3) = Some ?c"
    using keepsD [OF check_requests_conversation s3] by simp
  show "\<not> lo_yield l"
  proof (cases y)
    case True
    let ?s = "s3\<lparr>os_conversation := (os_conversation s3)\<lparr>cv_metrics := os_metrics s3\<rparr>\<rparr>"
    obtain s5 where s5: "fire env (LEnd (event_of env ())) ?s = Some (Inr (), s5)"
      and y: "snd result \<longleftrightarrow> conv_len (os_conversation s5) \<le> conv_len (os_conversation ?s)"
      using finish_result [of env ?c ?s "fst result" "snd result" s4] s4 True by auto
    have "conv_len (os_conversation ?s) < conv_len (os_conversation s5)"
      using assms [unfolded insistent_end_def, rule_format, OF _ _ fire_hook(1) [OF s5]] metrics stored
      by simp
    with y l show ?thesis by simp
  next
    case False
    with s4 l show ?thesis by (auto simp: ret_apply)
  qed
qed

lemma loop_never_yields:
  assumes "insistent_end K (en_hook env)" "tools_keep K (en_services env)" "retry_documented (en_retry env)"
    and "until_yield (turn env tcx) l s = Some (r, s')" "\<not> lo_yield l" "K (os_metrics s)"
  shows "\<exists>a. r = Inl a"
proof -
  have turn: "keeps (\<lambda>s. K (os_metrics s)) (turn env tcx l)"
    "yields (\<lambda>s. K (os_metrics s)) (turn env tcx l) (\<lambda>l'. \<not> lo_yield l')" for l
    unfolding turn_def
    by (intro keeps_andthen ask_model_metrics run_tools_metrics assms(2,3) keeps_reading conclude_metrics
        yields_andthen_any yields_reading conclude_never_yields assms(1))+
  have "\<not> lo_yield l \<longrightarrow> K (os_metrics s) \<longrightarrow> (\<exists>a. fst (r, s') = Inl a)"
    using assms(4)
    by (induction rule: until_yield_induct) (auto dest: keepsD [OF turn(1)] yieldsD [OF turn(2)])
  with assms(5,6) show ?thesis by simp
qed

lemma run_body_never_completes:
  assumes "insistent_end K (en_hook env)" "tools_keep K (en_services env)" "retry_documented (en_retry env)"
    and "run_body env c tcx s = Some (r, s')" "K (cv_metrics (os_conversation s))"
  shows "\<exists>a. r = Inl a"
proof -
  let ?s = "s\<lparr>os_metrics := cv_metrics (os_conversation s)\<rparr>"
  let ?l = "\<lparr>lo_context = c, lo_yield = False, lo_complete = False, lo_count = 0\<rparr>"
  obtain r1 s1 where loop: "until_yield (turn env tcx) ?l ?s = Some (r1, s1)"
    using assms(4) by (auto simp: run_body_def andthen_Some_iff update_def)
  moreover obtain a where "r1 = Inl a"
    using loop_never_yields [OF assms(1-3) loop] assms(5) by auto
  ultimately show ?thesis
    using assms(4) by (auto simp: run_body_def andthen_Some_iff update_def)
qed

lemma guard_case: "\<exists>b. (case q of Inl Panicked \<Rightarrow> Inl Panicked | _ \<Rightarrow> Inl a) = Inl b"
  by (auto split: sum.split abort.split)

lemma with_drop_guard_Inl:
  assumes "with_drop_guard env d cv m s = Some (r, s')" "\<And>r s'. m s = Some (r, s') \<Longrightarrow> \<exists>a. r = Inl a"
  shows "\<exists>a. r = Inl a"
proof -
  obtain r1 s1 where m: "m s = Some (r1, s1)"
    using assms(1) by (auto simp: with_drop_guard_def split: option.splits)
  then obtain a where "r1 = Inl a" using assms(2) by blast
  with m assms(1) show ?thesis
    by (auto simp: with_drop_guard_def guard_case split: if_splits)
qed

lemma run_never_completes:
  assumes "insistent_end K (en_hook env)" "tools_keep K (en_services env)" "retry_documented (en_retry env)"
    and start: "\<And>ev cv w r cv' w'. K (cv_metrics cv) \<Longrightarrow>
      hook_handle (en_hook env) (LStart ev) (cv, w) = Some (r, (cv', w')) \<Longrightarrow> K (cv_metrics cv')"
    and r: "run env s = Some (r, s')" "K (cv_metrics (os_conversation s))"
  shows "\<exists>a. r = Inl a"
proof (cases "fire env (LStart (event_of env ())) s")
  case None
  with r show ?thesis by (simp add: run_def reading_def Let_def andthen_apply)
next
  case (Some p)
  obtain r1 s1 where p: "p = (r1, s1)" by force
  show ?thesis
  proof (cases r1)
    case (Inl a)
    with r Some p show ?thesis by (auto simp: run_def reading_def Let_def andthen_apply)
  next
    case (Inr u)
    then have s1: "fire env (LStart (event_of env ())) s = Some (Inr (), s1)" using Some p by simp
    have "K (cv_metrics (os_conversation s1))"
      using start [OF r(2) fire_hook(1) [OF s1]] .
    moreover have "with_drop_guard env (os_dirty s1) (os_conversation s1)
        (run_body env (case cv_context (os_conversation s) of Some c \<Rightarrow> c | None \<Rightarrow> context_default)
          (tool_context_of env (os_conversation s1))) s1 = Some (r, s')"
      using r(1) s1 by (simp add: run_def reading_def Let_def andthen_apply)
    ultimately show ?thesis
      by (elim with_drop_guard_Inl) (auto dest: run_body_never_completes [OF assms(1-3)])
  qed
qed

section \<open>The properties of a run\<close>

text \<open>C1: The agent loop keeps the history paired and never saves one that is not: if the tools answer
  under the ids of their calls, the hooks keep a paired conversation paired and the driver of retries
  does what its documentation says, then after any run, whether it completed, failed or panicked at any point, every tool call in the history is
  followed by its result; and an invariant of the store that saving paired conversations
  maintains holds, so at no point of the run was anything else saved.\<close>

theorem run_keeps_history_paired:
  assumes "services_keep paired J (en_services env)" "services_answer (en_services env)"
    and "hook_keeps (conv_inv paired J) (en_hook env)"
    and "retry_documented (en_retry env)"
    and "run env s = Some (r, s')" "paired (conv_messages (os_conversation s))" "J (os_world s)"
  shows "paired (conv_messages (os_conversation s')) \<and> J (os_world s')"
  using keepsD [OF paired_history.run_keeps, of J env s r s'] assms by (simp add: env_keeps_def loop_inv_def)

text \<open>C7: A run ends when the number of requests is limited, and the limit holds: if the services and the hooks return,
  the user interface is there to acknowledge, the driver of retries does what its documentation says and the \<open>End\<close> hook
  does not add messages, then the loop ends after at most as many turns as the limit says (one if it is zero), so that
  the model is called at most that many times the number of attempts of a request, whatever counts the calls.\<close>

theorem run_terminates_with_limit:
  assumes "env_returns env" "quiet_end (en_hook env)"
    and "ag_max_requests_per_turn (en_agent env) = Some n" "asks_counted asked env"
  shows "\<exists>r s'. run env s = Some (r, s')
    \<and> asked (os_world s') \<le> asked (os_world s) + max 1 n * (en_max_attempts env + 1)"
proof -
  obtain r s' where "run env s = Some (r, s')"
    using run_returns [OF assms(1,3,2)] by (fastforce simp: returns_def)
  moreover have "asks_at_most asked (max 1 n * (en_max_attempts env + 1)) (run env)"
    using assms by (intro run_asks) (simp_all add: env_returns_def)
  ultimately show ?thesis by (blast dest: asks_at_mostD)
qed

section \<open>The context a Start hook prepares\<close>

definition with_start :: "('v, 'w, 'e, unit) handler \<Rightarrow> ('v, 'w, 'e, 'j) orch_env \<Rightarrow> ('v, 'w, 'e, 'j) orch_env" where
  "with_start h env = env\<lparr>en_hook := (en_hook env)\<lparr>hk_on_start := h\<rparr>\<rparr>"

lemma with_start_fields [simp]:
  "en_services (with_start h env) = en_services env" "en_codecs (with_start h env) = en_codecs env"
  "en_agent (with_start h env) = en_agent env" "en_models (with_start h env) = en_models env"
  "en_tool_definitions (with_start h env) = en_tool_definitions env"
  "en_has_sender (with_start h env) = en_has_sender env"
  "en_max_attempts (with_start h env) = en_max_attempts env"
  "en_retryable (with_start h env) = en_retryable env" "en_retry (with_start h env) = en_retry env"
  "en_retry_text (with_start h env) = en_retry_text env" "en_glob (with_start h env) = en_glob env"
  by (simp_all add: with_start_def)

lemma with_start_basic [simp]:
  "send (with_start h env) = send env" "await_notified (with_start h env) = await_notified env"
  "count (with_start h env) = count env" "flush_if_dirty (with_start h env) = flush_if_dirty env"
  "event_of (with_start h env) = event_of env" "annotate (with_start h env) = annotate env"
  "request_context (with_start h env) = request_context env"
  "is_tool_supported (with_start h env) = is_tool_supported env"
  "tool_context_of (with_start h env) = tool_context_of env"
  "with_drop_guard (with_start h env) = with_drop_guard env"
  unfolding fun_eq_iff send_def await_notified_def count_def flush_if_dirty_def event_of_def
      annotate_def request_context_def is_tool_supported_def tool_context_of_def with_drop_guard_def
      with_start_fields
  by (simp_all only: simp_thms)

lemma with_start_persist [simp]: "persist (with_start h env) = persist env"
  by (simp add: persist_def)

lemma with_start_fire [simp]:
  "fire (with_start h env) (LEnd e1) = fire env (LEnd e1)"
  "fire (with_start h env) (LRequest e2) = fire env (LRequest e2)"
  "fire (with_start h env) (LResponse e3) = fire env (LResponse e3)"
  "fire (with_start h env) (LToolcallStart e4) = fire env (LToolcallStart e4)"
  "fire (with_start h env) (LToolcallEnd e5) = fire env (LToolcallEnd e5)"
  by (simp_all add: fire_def with_start_def)

lemma with_start_turn [simp]: "turn (with_start h env) tcx l = turn env tcx l"
proof -
  have "execute_chat_turn (with_start h env) c b = execute_chat_turn env c b"
    "notify_retry (with_start h env) = notify_retry env" for c b
    unfolding execute_chat_turn_def notify_retry_def fun_eq_iff with_start_fields with_start_basic
    by (simp_all only: simp_thms)
  then have "ask_model (with_start h env) c n = ask_model env c n" for c n
    by (simp add: ask_model_def retry_with_config_def)
  moreover have "execute_other (with_start h env) tcx tc = execute_other env tcx tc" for tc
    unfolding execute_other_def with_start_fields with_start_basic with_start_fire by (rule refl)
  then have "execute_other (with_start h env) tcx = execute_other env tcx"
    by (rule ext)
  then have "run_tools (with_start h env) tcx tcs = run_tools env tcx tcs" for tcs
    by (simp add: run_tools_def execute_tool_calls_def)
  moreover have "check_failures (with_start h env) = check_failures env"
    "check_requests (with_start h env) = check_requests env" "finish (with_start h env) = finish env"
    unfolding fun_eq_iff check_failures_def check_requests_def finish_def with_start_fields
      with_start_basic with_start_persist with_start_fire
    by (simp_all only: simp_thms)
  then have "conclude (with_start h env) message recs n c = conclude env message recs n c" for message recs n c
    unfolding conclude_def by (simp only: with_start_fields with_start_persist cong: if_cong)
  ultimately show ?thesis by (simp add: turn_def)
qed

lemma run_body_overwrites:
  "run_body env c tcx (s\<lparr>os_conversation := (os_conversation s)\<lparr>cv_context := x\<rparr>\<rparr>) = run_body env c tcx s"
proof -
  have "turn env tcx l (t\<lparr>os_conversation := (os_conversation t)\<lparr>cv_context := x\<rparr>\<rparr>) = turn env tcx l t" for l t
    by (simp add: turn_def ask_model_def andthen_assoc andthen_def store_context_def update_def)
  then have "until_yield (turn env tcx) l (t\<lparr>os_conversation := (os_conversation t)\<lparr>cv_context := x\<rparr>\<rparr>)
      = until_yield (turn env tcx) l t" if "\<not> lo_yield l" for l t
    using that by (subst (1 2) until_yield.simps) simp
  from this [of "\<lparr>lo_context = c, lo_yield = False, lo_complete = False, lo_count = 0\<rparr>"
      "s\<lparr>os_metrics := cv_metrics (os_conversation s)\<rparr>"]
  have "until_yield (turn env tcx) \<lparr>lo_context = c, lo_yield = False, lo_complete = False, lo_count = 0\<rparr>
      (s\<lparr>os_conversation := (os_conversation s)\<lparr>cv_context := x\<rparr>, os_metrics := cv_metrics (os_conversation s)\<rparr>)
    = until_yield (turn env tcx) \<lparr>lo_context = c, lo_yield = False, lo_complete = False, lo_count = 0\<rparr>
      (s\<lparr>os_metrics := cv_metrics (os_conversation s)\<rparr>)"
    by (cases s) simp
  then show ?thesis
    by (simp add: run_body_def andthen_def update_def)
qed

lemma run_body_env: "(\<And>tcx l. turn env' tcx l = turn env tcx l) \<Longrightarrow> persist env' = persist env
   \<Longrightarrow> send env' = send env \<Longrightarrow> run_body env' c tcx = run_body env c tcx"
proof -
  assume "\<And>tcx l. turn env' tcx l = turn env tcx l" "persist env' = persist env" "send env' = send env"
  moreover from this have "turn env' tcx = turn env tcx" by blast
  ultimately show ?thesis unfolding run_body_def by (simp cong: if_cong)
qed

text \<open>What a \<open>Start\<close> hook does to the context of the conversation is lost: for a fresh
  orchestrator, a run whose \<open>Start\<close> hook also rewrites the context, in whatever way, is the run
  without the rewriting, in its outcome and in everything it sends and saves.\<close>

theorem start_hook_context_is_lost:
  assumes "\<not> os_dirty s"
  shows "run (with_start (and_handler (hk_on_start (en_hook env))
      (\<lambda>_. update (\<lambda>(cv, w). (cv\<lparr>cv_context := g cv\<rparr>, w)))) env) s = run env s"
proof -
  let ?h = "and_handler (hk_on_start (en_hook env)) (\<lambda>_. update (\<lambda>(cv, w). (cv\<lparr>cv_context := g cv\<rparr>, w)))"
  let ?rewrite = "\<lambda>t. t\<lparr>os_conversation := (os_conversation t)\<lparr>cv_context := g (os_conversation t)\<rparr>\<rparr>"
  have start: "fire (with_start ?h env) (LStart ev) t =
      (case fire env (LStart ev) t of
         Some (Inr u, t') \<Rightarrow> Some (Inr u, ?rewrite t') | r \<Rightarrow> r)" for ev t
    by (auto simp: fire_def with_start_def on_conversation_def map_error_def zoom_def and_handler_def
        andthen_def update_def split: option.splits sum.splits prod.splits)
  have dirty: "os_dirty t' = os_dirty t" if "fire env ev t = Some (r, t')" for ev t r t'
    using that by (auto simp: fire_def on_conversation_def map_error_def zoom_def)
  have guard: "with_drop_guard env False cv m = m" for cv m
    by (auto simp: with_drop_guard_def fun_eq_iff split: option.split)
  have body: "run_body (with_start ?h env) c tcx = run_body env c tcx" for c tcx
    by (rule run_body_env) simp_all
  show ?thesis
    using assms dirty [of "LStart (event_of env ())" s]
    by (auto simp: run_def reading_def Let_def andthen_def start body guard run_body_overwrites
        tool_context_of_def split: option.split sum.split)
qed

section \<open>A concrete environment\<close>

text \<open>
  The model asks for one tool call, sees its result and stops; the store is the list of the
  conversations saved.
\<close>

definition demo_call :: "unit tool_call_full" where
  "demo_call = \<lparr>tc_name = lit ''read'', tc_call_id = Some [1], tc_arguments = Parsed (),
     tc_thought_signature = None\<rparr>"

definition demo_reply :: "unit chat_context \<Rightarrow> unit completion_message" where
  "demo_reply c =
     (if list_ex (\<lambda>e. has_tool_result (me_message e)) (ctx_messages c)
      then completion_default\<lparr>cm_content := Some (CFull (lit ''done'')), cm_finish_reason := Some FRStop\<rparr>
      else completion_default\<lparr>cm_tool_calls := [TCFull demo_call], cm_finish_reason := Some FRToolCalls\<rparr>)"

definition demo_result :: "unit tool_call_full \<Rightarrow> tool_result" where
  "demo_result tc = \<lparr>tr_name = tc_name tc, tr_call_id = tc_call_id tc, tr_output = output_text (lit ''ok'')\<rparr>"

definition demo_services :: "(unit, unit conversation list, unit) services" where
  "demo_services =
     \<lparr>sv_chat = \<lambda>m c p. ret [Inr (demo_reply c)], sv_call = \<lambda>a t tc. ret (demo_result tc),
      sv_join = \<lambda>a t tcs. ret (\<lambda>i. demo_result (tcs ! i)), sv_update = \<lambda>cv. update (\<lambda>saved. cv # saved),
      sv_send = \<lambda>m. ret (), sv_acknowledged = \<lambda>tc. ret (), sv_count = \<lambda>name saved. saved\<rparr>"

text \<open>A driver of retries as it is documented.\<close>

primrec demo_retry :: "('s, 'e, 'a) retrier" where
  "demo_retry 0 again notify oper = oper"
| "demo_retry (Suc n) again notify oper = (\<lambda>s.
     case oper s of
       Some (Inl (Fail e), s') \<Rightarrow>
         if again e then andthen (notify e) (\<lambda>_. demo_retry n again notify oper) s'
         else Some (Inl (Fail e), s')
     | r \<Rightarrow> r)"

lemma demo_retry_documented: "retry_documented (demo_retry :: ('a, 'b, 'c) retrier)"
proof -
  have "demo_retry n again notify oper s = Some (r, s') \<Longrightarrow> attempts again notify oper n s r s'"
    for n again s r s' and notify :: "'b \<Rightarrow> ('a, 'b, unit) act" and oper :: "('a, 'b, 'c) act"
  proof (induction n arbitrary: s)
    case (Suc n)
    show ?case
    proof (cases "\<exists>e s1. oper s = Some (Inl (Fail e), s1) \<and> again e")
      case True
      then obtain e s1 where e: "oper s = Some (Inl (Fail e), s1)" "again e" by blast
      then have "andthen (notify e) (\<lambda>_. demo_retry n again notify oper) s1 = Some (r, s')" using Suc.prems by simp
      then show ?thesis
        using e Suc.IH by (auto simp: andthen_Some_iff intro: attempts.intros)
    next
      case False
      then have "oper s = Some (r, s')"
        using Suc.prems by (auto split: option.splits sum.splits abort.splits if_splits)
      then show ?thesis by (rule attempt_final)
    qed
  qed (auto intro: attempt_final)
  moreover have "\<lbrakk>\<forall>s. oper s \<noteq> None; \<forall>e s. notify e s \<noteq> None\<rbrakk> \<Longrightarrow> demo_retry n again notify oper s \<noteq> None"
    for n again s and notify :: "'b \<Rightarrow> ('a, 'b, unit) act" and oper :: "('a, 'b, 'c) act"
  proof (induction n arbitrary: s)
    case (Suc n)
    have "andthen (notify e) (\<lambda>_. demo_retry n again notify oper) s' \<noteq> None" for e s'
      using Suc by (auto simp: andthen_None_iff)
    then show ?case using Suc.prems(1) by (auto split: option.split sum.split abort.split)
  qed simp
  ultimately show ?thesis unfolding retry_documented_def by blast
qed

definition demo_env ::
  "(unit, unit conversation list, unit) hook \<Rightarrow> (unit, unit conversation list, unit, unit) orch_env" where
  "demo_env h =
     \<lparr>en_services = demo_services,
      en_codecs = \<lparr>cd_parse_call = \<lambda>s. Inl (), cd_gen_id = \<lambda>w. [7], cd_empty_object = (),
        cd_type_order = \<lambda>ks. ks, cd_repair = \<lambda>s. Inl (), cd_raw_object = \<lambda>s. (), cd_escape = \<lambda>s. s\<rparr>,
      en_hook = h,
      en_agent = (agent_new (lit ''forge'') (lit ''p'') (lit ''m''))\<lparr>ag_max_requests_per_turn := Some 5\<rparr>,
      en_tool_definitions = [\<lparr>td_name = lit ''read'', td_description = [], td_input_schema = ()\<rparr>],
      en_models = [], en_has_sender = True, en_max_attempts = 2, en_retryable = \<lambda>e. False, en_retry = demo_retry,
      en_retry_text = \<lambda>n m. Inr [], en_glob = \<lambda>s. None\<rparr>"

definition demo_state :: "rstr \<Rightarrow> (unit, unit conversation list) orch" where
  "demo_state content =
     \<lparr>os_conversation = demo_todo_conversation content, os_dirty = False, os_tracker = tracker_new 3,
      os_metrics = metrics_default, os_world = []\<rparr>"

definition saved_paired :: "unit conversation list \<Rightarrow> bool" where
  "saved_paired saved \<longleftrightarrow> list_all (\<lambda>cv. paired (conv_messages cv)) saved"

lemma demo_services_ok:
  "services_keep paired saved_paired demo_services" "services_answer demo_services"
  "services_return demo_services" "tools_keep K demo_services"
  by (auto simp: services_keep_def services_answer_def services_return_def tools_keep_def
      demo_services_def demo_result_def saved_paired_def
      intro!: keeps_intros yields_ret returns_intros keeps_update)

lemma demo_env_fields [simp]:
  "en_services (demo_env h) = demo_services" "en_hook (demo_env h) = h" "en_has_sender (demo_env h)"
  "ag_max_requests_per_turn (en_agent (demo_env h)) = Some 5" "en_retry (demo_env h) = demo_retry"
  "en_max_attempts (demo_env h) = 2"
  by (simp_all add: demo_env_def agent_new_def)

lemma default_hook_quiet: "hook_handle hook_default ev = ret ()"
  by (cases ev) (simp_all add: hook_default_def noop_handler_def [abs_def])

lemma demo_default:
  "env_returns (demo_env hook_default)" "quiet_end (hook_default :: (unit, unit conversation list, unit) hook)"
  by (auto simp: env_returns_def demo_services_ok quiet_end_def demo_retry_documented default_hook_quiet ret_apply
      simp del: hook_handle.simps intro!: returns_intros)

lemma demo_start: "paired (conv_messages (os_conversation (demo_state content)))" "saved_paired (os_world (demo_state content))"
  by (simp_all add: demo_state_def demo_todo_conversation_def conv_messages_def context_default_def saved_paired_def)

text \<open>The same with a model that counts its calls.\<close>

definition counting_services :: "(unit, nat, unit) services" where
  "counting_services =
     \<lparr>sv_chat = \<lambda>m c p. andthen (update Suc) (\<lambda>_. ret [Inr (demo_reply c)]), sv_call = \<lambda>a t tc. ret (demo_result tc),
      sv_join = \<lambda>a t tcs. ret (\<lambda>i. demo_result (tcs ! i)), sv_update = \<lambda>cv. ret (),
      sv_send = \<lambda>m. ret (), sv_acknowledged = \<lambda>tc. ret (), sv_count = \<lambda>name w. w\<rparr>"

definition counting_env :: "(unit, nat, unit, unit) orch_env" where
  "counting_env =
     \<lparr>en_services = counting_services,
      en_codecs = \<lparr>cd_parse_call = \<lambda>s. Inl (), cd_gen_id = \<lambda>w. [7], cd_empty_object = (),
        cd_type_order = \<lambda>ks. ks, cd_repair = \<lambda>s. Inl (), cd_raw_object = \<lambda>s. (), cd_escape = \<lambda>s. s\<rparr>,
      en_hook = hook_default,
      en_agent = (agent_new (lit ''forge'') (lit ''p'') (lit ''m''))\<lparr>ag_max_requests_per_turn := Some 1\<rparr>,
      en_tool_definitions = [], en_models = [], en_has_sender = True, en_max_attempts = 0, en_retryable = \<lambda>e. False,
      en_retry = demo_retry, en_retry_text = \<lambda>n m. Inr [], en_glob = \<lambda>s. None\<rparr>"

definition counting_state :: "(unit, nat) orch" where
  "counting_state =
     \<lparr>os_conversation = demo_todo_conversation [], os_dirty = False, os_tracker = tracker_new 3,
      os_metrics = metrics_default, os_world = 0\<rparr>"

theorem run_terminates_with_limit_witness:
  "\<exists>r s'. run counting_env counting_state = Some (r, s') \<and> os_world s' \<le> 1"
proof -
  have "\<exists>r s'. run counting_env counting_state = Some (r, s')
      \<and> os_world s' \<le> os_world counting_state + max 1 1 * (en_max_attempts counting_env + 1)"
  proof (rule run_terminates_with_limit)
    show "env_returns counting_env"
      by (auto simp: env_returns_def services_return_def counting_env_def counting_services_def default_hook_quiet
          demo_retry_documented simp del: hook_handle.simps intro!: returns_intros)
    show "quiet_end (en_hook counting_env)"
      by (auto simp: counting_env_def quiet_end_def default_hook_quiet ret_apply simp del: hook_handle.simps)
    show "asks_counted (\<lambda>w. w) counting_env"
      by (auto simp: asks_counted_def counting_env_def counting_services_def default_hook_quiet andthen_apply update_apply ret_apply
          simp del: hook_handle.simps intro!: keeps_intros)
  qed (simp add: counting_env_def agent_new_def)
  then show ?thesis by (simp add: counting_env_def counting_state_def)
qed

theorem run_keeps_history_paired_witness:
  "\<exists>r s'. run (demo_env hook_default) (demo_state (lit ''ship'')) = Some (r, s')
     \<and> paired (conv_messages (os_conversation s')) \<and> saved_paired (os_world s')"
proof -
  obtain r s' where run: "run (demo_env hook_default) (demo_state (lit ''ship'')) = Some (r, s')"
    using run_returns [of "demo_env hook_default" 5, unfolded returns_def, rule_format,
        of "demo_state (lit ''ship'')"] demo_default by auto
  have "paired (conv_messages (os_conversation s')) \<and> saved_paired (os_world s')"
    by (rule run_keeps_history_paired [OF _ _ _ _ run])
      (simp_all add: demo_services_ok demo_start hook_keeps_default demo_retry_documented)
  with run show ?thesis by blast
qed

theorem start_hook_context_is_lost_witness:
  "run (with_start (and_handler (hk_on_start (en_hook (demo_env hook_default)))
      (\<lambda>_. update (\<lambda>(cv, w). (cv\<lparr>cv_context := None\<rparr>, w)))) (demo_env hook_default)) (demo_state [])
   = run (demo_env hook_default) (demo_state [])"
  by (rule start_hook_context_is_lost) (simp add: demo_state_def)

definition demo_batch :: "unit tool_call_full list" where
  "demo_batch = [demo_call, demo_call\<lparr>tc_name := lit ''Task''\<rparr>]"

lemma demo_batch_runs:
  "map_option fst (execute_tool_calls (demo_env hook_default)
     (tool_context_of (demo_env hook_default) (demo_todo_conversation [])) demo_batch (demo_state []))
   = Some (Inr [(demo_call, demo_result demo_call),
       (demo_call\<lparr>tc_name := lit ''Task''\<rparr>, demo_result (demo_call\<lparr>tc_name := lit ''Task''\<rparr>))])"
  by code_simp

theorem tool_records_in_order_witness:
  "\<exists>recs s'. execute_tool_calls (demo_env hook_default)
       (tool_context_of (demo_env hook_default) (demo_todo_conversation [])) demo_batch (demo_state []) = Some (Inr recs, s')
     \<and> map fst recs = demo_batch"
proof -
  obtain s' where run: "execute_tool_calls (demo_env hook_default)
     (tool_context_of (demo_env hook_default) (demo_todo_conversation [])) demo_batch (demo_state [])
   = Some (Inr [(demo_call, demo_result demo_call),
       (demo_call\<lparr>tc_name := lit ''Task''\<rparr>, demo_result (demo_call\<lparr>tc_name := lit ''Task''\<rparr>))], s')"
    using demo_batch_runs by auto
  with tool_records_in_order [OF run] show ?thesis by blast
qed

definition kelvin_call :: "unit tool_call_full" where
  "kelvin_call = demo_call\<lparr>tc_name := [116, 97, 115, 8490]\<rparr>"

lemma kelvin_runs:
  "map_option fst (execute_tool_calls (demo_env hook_default)
     (tool_context_of (demo_env hook_default) (demo_todo_conversation [])) [demo_call, kelvin_call] (demo_state []))
   = Some (Inl Panicked)"
  by code_simp

theorem misnamed_task_panics_witness:
  "case map_option fst (execute_tool_calls (demo_env hook_default)
     (tool_context_of (demo_env hook_default) (demo_todo_conversation [])) [demo_call, kelvin_call] (demo_state []))
   of Some (Inl a) \<Rightarrow> True | _ \<Rightarrow> False"
proof -
  obtain r s' where run: "execute_tool_calls (demo_env hook_default)
     (tool_context_of (demo_env hook_default) (demo_todo_conversation [])) [demo_call, kelvin_call] (demo_state [])
     = Some (r, s')"
    using kelvin_runs by auto
  have "is_task_call kelvin_call" "\<not> is_task kelvin_call" by code_simp+
  then obtain a where "r = Inl a"
    using misnamed_task_panics [OF _ _ _ run, of kelvin_call] by auto
  with run show ?thesis by simp
qed

end
