(* ===== verification/Compression.thy ===== *)
theory Compression
  imports Compactor Lifecycle
begin

text \<open>
  The reductions that run before compaction (\<open>forge_app/src/compression\<close>, \<open>forge_app/src/prune\<close>)
  and the hook that runs all of them on every response (\<open>hooks/compaction.rs\<close>). \<open>Vec::remove\<close> out of
  range panics: \<open>None\<close>. The scores of compression are the rationals their \<open>f64\<close> values are; the
  scores of pruning only order the messages and are written as the source writes them.
\<close>

section \<open>Compression\<close>

record compression_report =
  cr_removed :: "nat list"
  cr_summarized :: "nat list"
  cr_truncated :: bool
  cr_tokens_saved :: nat
  cr_remaining_tokens :: nat

definition report_default :: compression_report where
  "report_default = \<lparr>cr_removed = [], cr_summarized = [], cr_truncated = False, cr_tokens_saved = 0,
     cr_remaining_tokens = 0\<rparr>"

definition remove_at :: "nat \<Rightarrow> 'a list \<Rightarrow> 'a list" where
  "remove_at i xs = take i xs @ drop (Suc i) xs"

definition remove_message :: "nat \<Rightarrow> 'v chat_context \<Rightarrow> 'v chat_context" where
  "remove_message i c = c\<lparr>ctx_messages := remove_at i (ctx_messages c)\<rparr>"

definition token_budget :: "compact \<Rightarrow> nat" where
  "token_budget cc = (case cc_token_threshold cc of Some n \<Rightarrow> n | None \<Rightarrow> 80000)"

definition indices_where :: "(nat \<Rightarrow> 'a \<Rightarrow> bool) \<Rightarrow> 'a list \<Rightarrow> nat list" where
  "indices_where P xs = map fst (filter (\<lambda>(i, x). P i x) (enumerate 0 xs))"

definition compress_programmatic ::
  "('v \<Rightarrow> rstr) \<Rightarrow> compact \<Rightarrow> 'v chat_context \<Rightarrow> 'v chat_context \<times> compression_report" where
  "compress_programmatic ts cc c =
     (let tokens_before = context_token_count_approx ts c;
          retention = max (cc_retention_window cc) 12;
          n_total = total_messages c;
          (c', report) =
            (if retention * 2 < n_total
             then let droppable_indices = indices_where (\<lambda>_ m. is_droppable (me_message m)) (ctx_messages c);
                      max_drop = n_total - retention;
                      to_drop = take max_drop droppable_indices
                  in (foldl (\<lambda>c idx. if idx < length (ctx_messages c) then remove_message idx c else c)
                        c (rev to_drop), report_default\<lparr>cr_removed := to_drop\<rparr>)
             else (c, report_default))
      in (c', report\<lparr>cr_tokens_saved := tokens_before - context_token_count_approx ts c'\<rparr>))"

text \<open>
  The loop the semantic and the AI-driven strategy share: indices are tried in turn while the
  context is over budget; \<open>current\<close> is its token count.
\<close>

fun remove_while ::
  "('v \<Rightarrow> rstr) \<Rightarrow> nat \<Rightarrow> (nat \<Rightarrow> bool) \<Rightarrow> nat list \<Rightarrow> 'v chat_context \<Rightarrow> nat list
     \<Rightarrow> 'v chat_context \<times> nat list" where
  "remove_while ts budget eligible [] c removed = (c, removed)"
| "remove_while ts budget eligible (idx # idxs) c removed =
     (if context_token_count_approx ts c \<le> budget then (c, removed)
      else if idx < length (ctx_messages c) \<and> eligible idx
      then remove_while ts budget eligible idxs (remove_message idx c) (removed @ [idx])
      else remove_while ts budget eligible idxs c removed)"

definition semantic_candidate :: "nat \<Rightarrow> nat \<Rightarrow> 'v message_entry \<Rightarrow> bool" where
  "semantic_candidate n_total i m \<longleftrightarrow> 6 \<le> i \<and> i < n_total - 6
     \<and> (is_droppable (me_message m) \<or> entry_has_role m Assistant) \<and> \<not> has_tool_call (me_message m)"

definition compress_semantic ::
  "('v \<Rightarrow> rstr) \<Rightarrow> compact \<Rightarrow> 'v chat_context \<Rightarrow> 'v chat_context \<times> compression_report" where
  "compress_semantic ts cc c =
     (let tokens_before = context_token_count_approx ts c; budget = token_budget cc
      in if tokens_before \<le> budget then (c, report_default)
         else let candidates = indices_where (semantic_candidate (length (ctx_messages c))) (ctx_messages c);
                  (c', removed) = remove_while ts budget (\<lambda>_. True) (rev candidates) c []
              in (c', report_default\<lparr>cr_summarized := removed,
                   cr_tokens_saved := tokens_before - context_token_count_approx ts c'\<rparr>))"

text \<open>0.3, 0.2 and 0.1 as \<open>f64\<close>.\<close>

definition score_message_importance :: "'v message_entry \<Rightarrow> rat" where
  "score_message_importance m =
     (let score = 1 / 2;
          score = (if has_tool_call (me_message m) then f64_add score (5404319552844595 / 18014398509481984) else score);
          score = (if has_tool_result (me_message m) then f64_add score (1 / 4) else score);
          score = (if is_droppable (me_message m) then f64_add score (- 3602879701896397 / 18014398509481984) else score);
          score = (if has_reasoning_details (me_message m) then f64_add score (3602879701896397 / 36028797018963968) else score)
      in max 0 (min 1 score))"

definition ai_score :: "nat \<Rightarrow> nat \<Rightarrow> 'v message_entry \<Rightarrow> rat" where
  "ai_score n_total i m =
     (if i = 0 \<or> i = n_total - 1 then 1
      else if entry_has_role m System then 8106479329266893 / 9007199254740992
      else score_message_importance m)"

definition compress_ai ::
  "('v \<Rightarrow> rstr) \<Rightarrow> compact \<Rightarrow> 'v chat_context \<Rightarrow> 'v chat_context \<times> compression_report" where
  "compress_ai ts cc c =
     (let tokens_before = context_token_count_approx ts c; budget = token_budget cc;
          n_total = length (ctx_messages c)
      in if tokens_before \<le> budget then (c, report_default)
         else if n_total < 4 then (c, report_default)
         else let scores = map (\<lambda>(i, m). ai_score n_total i m) (enumerate 0 (ctx_messages c));
                  (c', removed) = remove_while ts budget
                     (\<lambda>idx. scores ! idx < cc_min_importance_threshold cc) (rev [0..<n_total]) c []
              in (c', report_default\<lparr>cr_summarized := removed,
                   cr_tokens_saved := tokens_before - context_token_count_approx ts c'\<rparr>))"

definition merge_report :: "compression_report \<Rightarrow> compression_report \<Rightarrow> compression_report" where
  "merge_report report r = report\<lparr>cr_summarized := cr_summarized report @ cr_summarized r,
     cr_tokens_saved := cr_tokens_saved report + cr_tokens_saved r\<rparr>"

definition compress ::
  "('v \<Rightarrow> rstr) \<Rightarrow> compact \<Rightarrow> 'v chat_context \<Rightarrow> 'v chat_context \<times> compression_report" where
  "compress ts cc c =
     (let budget = token_budget cc; level = cc_context_compression_level cc
      in if context_token_count_approx ts c \<le> budget then (c, report_default)
         else let (c, report) =
                    (if 1 \<le> level
                     then let (c1, r) = compress_programmatic ts cc c
                          in (c1, report_default\<lparr>cr_removed := cr_removed r, cr_tokens_saved := cr_tokens_saved r\<rparr>)
                     else (c, report_default));
                  (c, report) =
                    (if 2 \<le> level \<and> budget < context_token_count_approx ts c
                     then let (c2, r) = compress_semantic ts cc c in (c2, merge_report report r)
                     else (c, report));
                  (c, report) =
                    (if 3 \<le> level \<and> budget < context_token_count_approx ts c
                     then let (c3, r) = compress_ai ts cc c in (c3, merge_report report r)
                     else (c, report));
                  remaining = context_token_count_approx ts c
              in (c, report\<lparr>cr_remaining_tokens := remaining, cr_truncated := budget < remaining\<rparr>))"

section \<open>Pruning\<close>

record prune_report =
  pr_pruned :: "nat list"
  pr_tokens_saved :: nat
  pr_remaining_tokens :: nat
  pr_did_prune :: bool

definition prune_score :: "nat \<Rightarrow> nat \<Rightarrow> 'v message_entry \<Rightarrow> rat" where
  "prune_score n_total i m =
     (if i = 0 \<or> i = n_total - 1 \<or> entry_has_role m System then 1
      else if is_droppable (me_message m) then 1 / 5
      else if has_tool_call (me_message m) \<or> has_tool_result (me_message m) then 4 / 5
      else if has_reasoning_details (me_message m) then 3 / 5
      else 2 / 5)"

text \<open>The stable sort by ascending score.\<close>

definition prune_order :: "'v message_entry list \<Rightarrow> nat list" where
  "prune_order ms =
     map fst (sort_key snd (map (\<lambda>(i, m). (i, prune_score (length ms) i m)) (enumerate 0 ms)))"

fun prune_loop ::
  "('v \<Rightarrow> rstr) \<Rightarrow> nat \<Rightarrow> nat \<Rightarrow> nat list \<Rightarrow> 'v chat_context \<Rightarrow> nat list
     \<Rightarrow> ('v chat_context \<times> nat list) option" where
  "prune_loop ts budget prune_threshold [] c pruned = Some (c, pruned)"
| "prune_loop ts budget prune_threshold (idx # idxs) c pruned =
     (if context_token_count_approx ts c \<le> budget then Some (c, pruned)
      else if prune_threshold \<le> length pruned then Some (c, pruned)
      else if idx = 0 \<or> idx = length (ctx_messages c) - 1
      then prune_loop ts budget prune_threshold idxs c pruned
      else if idx < length (ctx_messages c) \<and> entry_has_role (ctx_messages c ! idx) System
      then prune_loop ts budget prune_threshold idxs c pruned
      else if length (ctx_messages c) \<le> idx then None
      else prune_loop ts budget prune_threshold idxs (remove_message idx c) (pruned @ [idx]))"

definition prune ::
  "('v \<Rightarrow> rstr) \<Rightarrow> compact \<Rightarrow> 'v chat_context \<Rightarrow> ('v chat_context \<times> prune_report) option" where
  "prune ts cc c =
     (let current_tokens = context_token_count_approx ts c; budget = token_budget cc
      in if current_tokens \<le> budget
         then Some (c, \<lparr>pr_pruned = [], pr_tokens_saved = 0, pr_remaining_tokens = current_tokens,
                pr_did_prune = False\<rparr>)
         else map_option (\<lambda>(remaining, pruned).
            let tokens_after = context_token_count_approx ts remaining
            in (remaining, \<lparr>pr_pruned = pruned, pr_tokens_saved = current_tokens - tokens_after,
                 pr_remaining_tokens = tokens_after, pr_did_prune = (pruned \<noteq> [])\<rparr>))
            (prune_loop ts budget (cc_prune_threshold cc) (prune_order (ctx_messages c)) c []))"

section \<open>The compaction hook\<close>

definition compaction_handle ::
  "('v message_entry list \<Rightarrow> 'e + rstr) \<Rightarrow> ('v \<Rightarrow> rstr) \<Rightarrow> compact \<Rightarrow> 'v chat_context
     \<Rightarrow> ('e + 'v chat_context) option" where
  "compaction_handle render ts cc c =
     (let token_count = context_token_count_approx ts c;
          compressed = (if cc_enable_semantic_compression cc then fst (compress ts cc c) else c)
      in case (if cc_enable_structural_dedup cc then map_option fst (prune ts cc compressed)
               else Some compressed) of
           None \<Rightarrow> None
         | Some pruned \<Rightarrow>
             if should_compact cc pruned token_count then compact_context render ts cc pruned False
             else Some (Inr pruned))"

definition compaction_handler ::
  "('v message_entry list \<Rightarrow> 'e + rstr) \<Rightarrow> ('v \<Rightarrow> rstr) \<Rightarrow> compact
     \<Rightarrow> ('v, 'w, 'e, 'v response_payload) handler" where
  "compaction_handler render ts cc ev = (\<lambda>(cv, w).
     case cv_context cv of
       None \<Rightarrow> Some (Inr (), (cv, w))
     | Some c \<Rightarrow>
         (case compaction_handle render ts cc c of
            None \<Rightarrow> Some (Inl Panicked, (cv, w))
          | Some (Inl e) \<Rightarrow> Some (Inl (Fail e), (cv, w))
          | Some (Inr c') \<Rightarrow> Some (Inr (), (cv\<lparr>cv_context := Some c'\<rparr>, w))))"

section \<open>Lemmas\<close>

text \<open>
  The histories the hook is meant for: paired, droppable messages outside exchanges, and a first
  message that is neither droppable nor the assistant's.
\<close>

definition kept_history :: "'v message_entry list \<Rightarrow> bool" where
  "kept_history ms \<longleftrightarrow> paired ms
     \<and> list_all (\<lambda>m. \<not> is_droppable (me_message m) \<or> plain_message (me_message m)) ms
     \<and> (case ms of [] \<Rightarrow> False | m # _ \<Rightarrow> kept m \<and> \<not> entry_has_role m Assistant)"

lemma length_remove_at [simp]: "i < length xs \<Longrightarrow> length (remove_at i xs) = length xs - 1"
  by (simp add: remove_at_def)

lemma nth_remove_at [simp]: "j < i \<Longrightarrow> i < length xs \<Longrightarrow> remove_at i xs ! j = xs ! j"
  by (simp add: remove_at_def nth_append)

lemma remove_at_filter:
  assumes "i < length xs"
  shows "\<exists>ys zs. xs = ys @ xs ! i # zs \<and> length ys = i \<and> remove_at i xs = ys @ zs"
  by (rule exI [of _ "take i xs"], rule exI [of _ "drop (Suc i) xs"])
    (use assms id_take_nth_drop [of i xs] in \<open>simp add: remove_at_def\<close>)

lemma paired_remove:
  assumes "paired (ys @ m # zs)" "plain_message (me_message m)"
  shows "paired (ys @ zs)"
  using assms by (auto simp: paired_def pair_run_append pair_step_plain split: option.splits if_splits)

lemma kept_history_remove:
  assumes "kept_history ms" "0 < i" "i < length ms" "plain_message (me_message (ms ! i))"
  shows "kept_history (remove_at i ms)"
proof -
  obtain ys m zs where ms: "ms = ys @ m # zs" "length ys = i" "remove_at i ms = ys @ zs"
    using remove_at_filter [OF assms(3)] by blast
  obtain y ys' where ys: "ys = y # ys'" using ms(2) assms(2) by (cases ys) auto
  have "plain_message (me_message m)" using assms(4) ms(1,2) by auto
  then have "paired (ys @ zs)"
    using assms(1) ms(1) paired_remove [of ys m zs] by (simp add: kept_history_def)
  with assms(1) show ?thesis unfolding ms(3) by (simp add: kept_history_def ms(1) ys)
qed

text \<open>Indices in descending order still name the messages they named before a removal.\<close>

lemma remove_while_kept:
  assumes "sorted_wrt (>) idxs" "kept_history (ctx_messages c)"
    and "\<And>i. i \<in> set idxs \<Longrightarrow> i < length (ctx_messages c) \<Longrightarrow> eligible i \<Longrightarrow>
      0 < i \<and> plain_message (me_message (ctx_messages c ! i))"
  shows "kept_history (ctx_messages (fst (remove_while ts budget eligible idxs c removed)))"
  using assms
proof (induction idxs arbitrary: c removed)
  case (Cons idx idxs)
  let ?c = "remove_message idx c"
  show ?case
  proof (cases "context_token_count_approx ts c \<le> budget \<or> \<not> (idx < length (ctx_messages c) \<and> eligible idx)")
    case True
    then show ?thesis using Cons by auto
  next
    case False
    then have idx: "idx < length (ctx_messages c)" "eligible idx" by auto
    have "kept_history (ctx_messages ?c)"
      using Cons.prems(2) Cons.prems(3) [of idx] idx by (simp add: remove_message_def kept_history_remove)
    moreover have "0 < i \<and> plain_message (me_message (ctx_messages ?c ! i))"
      if "i \<in> set idxs" "i < length (ctx_messages ?c)" "eligible i" for i
    proof -
      have "i < idx" using Cons.prems(1) that(1) by auto
      then show ?thesis
        using Cons.prems(3) [of i] idx(1) that by (simp add: remove_message_def)
    qed
    ultimately have "kept_history (ctx_messages (fst (remove_while ts budget eligible idxs ?c (removed @ [idx]))))"
      using Cons.prems(1) by (intro Cons.IH) auto
    with False show ?thesis by simp
  qed
qed simp

lemma indices_where_sorted: "sorted_wrt (<) (indices_where P xs)"
proof -
  have "sorted_wrt (<) (map fst (filter Q (enumerate n xs)))" for Q n
    by (induction xs arbitrary: n) (auto simp: in_set_enumerate_eq)
  then show ?thesis by (simp add: indices_where_def)
qed

lemma indices_where_iff: "i \<in> set (indices_where P xs) \<longleftrightarrow> i < length xs \<and> P i (xs ! i)"
  by (force simp: indices_where_def in_set_enumerate_eq)

lemma descending: "sorted_wrt (<) xs \<Longrightarrow> sorted_wrt (>) (rev xs)"
  by (simp add: sorted_wrt_rev)

lemma drop_indices_kept:
  assumes "sorted_wrt (>) idxs" "kept_history (ctx_messages c)"
    and "\<And>i. i \<in> set idxs \<Longrightarrow> i < length (ctx_messages c) \<Longrightarrow>
      0 < i \<and> plain_message (me_message (ctx_messages c ! i))"
  shows "kept_history (ctx_messages
    (foldl (\<lambda>c idx. if idx < length (ctx_messages c) then remove_message idx c else c) c idxs))"
  using assms
proof (induction idxs arbitrary: c)
  case (Cons idx idxs)
  show ?case
  proof (cases "idx < length (ctx_messages c)")
    case True
    have "kept_history (ctx_messages (remove_message idx c))"
      using Cons.prems(2) Cons.prems(3) [of idx] True by (simp add: remove_message_def kept_history_remove)
    moreover have "0 < i \<and> plain_message (me_message (ctx_messages (remove_message idx c) ! i))"
      if "i \<in> set idxs" "i < length (ctx_messages (remove_message idx c))" for i
    proof -
      have "i < idx" using Cons.prems(1) that(1) by auto
      then show ?thesis using Cons.prems(3) [of i] True that by (simp add: remove_message_def)
    qed
    ultimately show ?thesis using True Cons.prems(1) by (simp add: Cons.IH)
  next
    case False
    with Cons show ?thesis by simp
  qed
qed simp

lemma kept_history_droppable:
  assumes "kept_history ms" "i < length ms" "is_droppable (me_message (ms ! i))"
  shows "0 < i \<and> plain_message (me_message (ms ! i))"
proof -
  have "i \<noteq> 0"
  proof
    assume "i = 0"
    with assms show False by (cases ms) (simp_all add: kept_history_def)
  qed
  then show ?thesis using assms by (auto simp: kept_history_def list_all_length)
qed

lemma compress_programmatic_kept:
  assumes "kept_history (ctx_messages c)"
  shows "kept_history (ctx_messages (fst (compress_programmatic ts cc c)))"
proof -
  have "kept_history (ctx_messages (foldl (\<lambda>c idx. if idx < length (ctx_messages c)
      then remove_message idx c else c) c (rev (take n (indices_where (\<lambda>_ m. is_droppable (me_message m))
        (ctx_messages c))))))" for n
    using assms
    by (intro drop_indices_kept descending sorted_wrt_take indices_where_sorted)
      (auto dest!: in_set_takeD simp: indices_where_iff kept_history_droppable)
  then show ?thesis
    using assms by (simp add: compress_programmatic_def Let_def)
qed

lemma assistant_plain: "entry_has_role m Assistant \<Longrightarrow> \<not> has_tool_call (me_message m) \<Longrightarrow> plain_message (me_message m)"
  by (cases "me_message m") (auto simp: plain_message_def)

lemma compress_semantic_kept:
  assumes "kept_history (ctx_messages c)"
  shows "kept_history (ctx_messages (fst (compress_semantic ts cc c)))"
proof -
  have "kept_history (ctx_messages (fst (remove_while ts b (\<lambda>_. True)
      (rev (indices_where (semantic_candidate n) (ctx_messages c))) c [])))" for b n
    using assms
    by (intro remove_while_kept descending indices_where_sorted)
      (auto simp: indices_where_iff semantic_candidate_def assistant_plain
        dest: kept_history_droppable [OF assms])
  then show ?thesis
    using assms by (simp add: compress_semantic_def Let_def split_beta)
qed

lemma score_adds:
  "f64_add (1 / 2) (5404319552844595 / 18014398509481984) = 3602879701896397 / 4503599627370496"
  "f64_add (3602879701896397 / 4503599627370496) (3602879701896397 / 36028797018963968)
     = 8106479329266893 / 9007199254740992"
  "f64_add (1 / 2) (1 / 4) = 3 / 4"
  by code_simp+

lemma exchange_score:
  assumes "\<not> plain_message (me_message m)" "kept m"
  shows "3 / 4 \<le> ai_score n i m"
proof (cases "me_message m")
  case (CText t)
  then show ?thesis
    using assms by (simp add: ai_score_def score_message_importance_def plain_message_def score_adds Let_def)
next
  case (CTool r)
  then show ?thesis
    by (simp add: ai_score_def score_message_importance_def score_adds Let_def)
next
  case (CImage i)
  then show ?thesis using assms by (simp add: plain_message_def)
qed

lemma compress_ai_kept:
  assumes "kept_history (ctx_messages c)" "cc_min_importance_threshold cc \<le> 3 / 4"
  shows "kept_history (ctx_messages (fst (compress_ai ts cc c)))"
proof -
  let ?n = "length (ctx_messages c)"
  let ?scores = "map (\<lambda>(i, m). ai_score ?n i m) (enumerate 0 (ctx_messages c))"
  have "0 < i \<and> plain_message (me_message (ctx_messages c ! i))"
    if "i < ?n" "?scores ! i < cc_min_importance_threshold cc" for i
  proof -
    have score: "ai_score ?n i (ctx_messages c ! i) < 3 / 4"
      using that assms(2) by (simp add: nth_enumerate_eq)
    then have "i \<noteq> 0" by (cases "i = 0") (simp_all add: ai_score_def)
    moreover have "plain_message (me_message (ctx_messages c ! i)) \<or> kept (ctx_messages c ! i)"
      using kept_history_droppable [OF assms(1) that(1)] by blast
    ultimately show ?thesis
      using score exchange_score [of "ctx_messages c ! i" ?n i] leD by blast
  qed
  then have "kept_history (ctx_messages (fst (remove_while ts b
      (\<lambda>idx. ?scores ! idx < cc_min_importance_threshold cc) (rev [0..<?n]) c [])))" for b
    using assms(1) by (intro remove_while_kept descending) (simp_all add: sorted_wrt_upt)
  then show ?thesis
    using assms by (simp add: compress_ai_def Let_def split_beta)
qed

lemma compress_kept:
  assumes "kept_history (ctx_messages c)" "cc_min_importance_threshold cc \<le> 3 / 4"
  shows "kept_history (ctx_messages (fst (compress ts cc c)))"
proof -
  have prog: "kept_history (ctx_messages c1)" if "compress_programmatic ts cc c = (c1, r)" for c1 r
    using compress_programmatic_kept [OF assms(1), of ts cc] that by simp
  have sem: "kept_history (ctx_messages x2)"
    if "compress_semantic ts cc x = (x2, r)" "kept_history (ctx_messages x)" for x x2 r
    using compress_semantic_kept [OF that(2), of ts cc] that by simp
  have ai: "kept_history (ctx_messages x3)"
    if "compress_ai ts cc x = (x3, r)" "kept_history (ctx_messages x)" for x x3 r
    using compress_ai_kept [OF that(2) assms(2), of ts] that by simp
  show ?thesis
    unfolding compress_def Let_def
    using assms(1) by (auto split: prod.split dest!: prog dest: sem ai)
qed

text \<open>What is removed is only removed: the rest stays in order, and the token count falls.\<close>

lemma subseq_remove_at: "subseq (remove_at i xs) xs"
proof -
  have "suffix (drop (Suc i) xs) (drop i xs)"
    by (metis drop_drop plus_1_eq_Suc suffix_drop)
  then have "subseq (take i xs @ drop (Suc i) xs) (take i xs @ drop i xs)"
    by (intro list_emb_append_mono suffix_imp_subseq) simp
  then show ?thesis by (simp add: remove_at_def)
qed

lemma subseq_tokens:
  "subseq (ctx_messages c') (ctx_messages c) \<Longrightarrow> context_token_count_approx ts c' \<le> context_token_count_approx ts c"
proof -
  assume "subseq (ctx_messages c') (ctx_messages c)"
  then have "sum_list (map f (ctx_messages c')) \<le> sum_list (map f (ctx_messages c))" for f :: "'a message_entry \<Rightarrow> nat"
    by (induction rule: list_emb.induct) auto
  then show ?thesis by (simp add: context_token_count_approx_def)
qed

lemma remove_message_subseq: "subseq (ctx_messages (remove_message i c)) (ctx_messages c)"
  by (simp add: remove_message_def subseq_remove_at)

lemma remove_while_subseq:
  "subseq (ctx_messages (fst (remove_while ts b el idxs c removed))) (ctx_messages c)"
proof (induction idxs arbitrary: c removed)
  case (Cons idx idxs)
  from Cons [of "remove_message idx c" "removed @ [idx]"] Cons [of c removed] show ?case
    by (auto intro: subseq_order.trans [OF _ remove_message_subseq])
qed simp

lemma drop_indices_subseq:
  "subseq (ctx_messages (foldl (\<lambda>c idx. if idx < length (ctx_messages c) then remove_message idx c else c) c idxs))
     (ctx_messages c)"
proof (induction idxs arbitrary: c)
  case (Cons idx idxs)
  from Cons [of "remove_message idx c"] Cons [of c] show ?case
    by (auto intro: subseq_order.trans [OF _ remove_message_subseq])
qed simp

lemma stage_accounts:
  "subseq (ctx_messages (fst (compress_programmatic ts cc c))) (ctx_messages c)
     \<and> cr_tokens_saved (snd (compress_programmatic ts cc c))
       = context_token_count_approx ts c - context_token_count_approx ts (fst (compress_programmatic ts cc c))"
  "subseq (ctx_messages (fst (compress_semantic ts cc c))) (ctx_messages c)
     \<and> cr_tokens_saved (snd (compress_semantic ts cc c))
       = context_token_count_approx ts c - context_token_count_approx ts (fst (compress_semantic ts cc c))"
  "subseq (ctx_messages (fst (compress_ai ts cc c))) (ctx_messages c)
     \<and> cr_tokens_saved (snd (compress_ai ts cc c))
       = context_token_count_approx ts c - context_token_count_approx ts (fst (compress_ai ts cc c))"
  by (simp_all add: compress_programmatic_def compress_semantic_def compress_ai_def Let_def split_beta
      report_default_def remove_while_subseq drop_indices_subseq)

lemma stage_accountsD:
  "compress_programmatic ts cc c = (c', r) \<Longrightarrow> subseq (ctx_messages c') (ctx_messages c)
     \<and> cr_tokens_saved r + context_token_count_approx ts c' = context_token_count_approx ts c"
  "compress_semantic ts cc c = (c', r) \<Longrightarrow> subseq (ctx_messages c') (ctx_messages c)
     \<and> cr_tokens_saved r + context_token_count_approx ts c' = context_token_count_approx ts c"
  "compress_ai ts cc c = (c', r) \<Longrightarrow> subseq (ctx_messages c') (ctx_messages c)
     \<and> cr_tokens_saved r + context_token_count_approx ts c' = context_token_count_approx ts c"
  using stage_accounts [of ts cc c] subseq_tokens [of c' c ts] by auto

text \<open>The order of pruning ends with the last message: its score is maximal and the sort is stable.\<close>

lemma insort_key_last: "f y \<le> f x \<Longrightarrow> insort_key f y (zs @ [x]) = insort_key f y zs @ [x]"
  by (induction zs) auto

lemma sort_key_last: "(\<And>y. y \<in> set ys \<Longrightarrow> f y \<le> f x) \<Longrightarrow> sort_key f (ys @ [x]) = sort_key f ys @ [x]"
  by (induction ys) (simp_all add: insort_key_last)

lemma prune_score_le: "prune_score n i m \<le> 1"
  by (simp add: prune_score_def)

lemma prune_order_last:
  assumes "ms \<noteq> []"
  shows "\<exists>idxs. prune_order ms = idxs @ [length ms - 1]"
proof -
  obtain xs x where ms: "ms = xs @ [x]" using assms by (metis rev_exhaust)
  let ?score = "\<lambda>(i, m). (i, prune_score (length ms) i m)"
  have "map ?score (enumerate 0 ms) = map ?score (enumerate 0 xs) @ [(length xs, 1)]"
    by (simp add: ms enumerate_append_eq prune_score_def)
  then have "prune_order ms = map fst (sort_key snd (map ?score (enumerate 0 xs)) @ [(length xs, 1)])"
    unfolding prune_order_def by (subst sort_key_last [symmetric]) (auto simp: prune_score_le)
  then show ?thesis by (simp add: ms)
qed

lemma set_prune_order: "set (prune_order ms) = {..<length ms}"
proof -
  have "map fst (map (\<lambda>(i, m). (i, prune_score (length ms) i m)) (enumerate 0 ms)) = [0..<length ms]"
    by (simp add: comp_def split_beta)
  then have "fst ` set (map (\<lambda>(i, m). (i, prune_score (length ms) i m)) (enumerate 0 ms)) = {0..<length ms}"
    by (metis set_map set_upt)
  then show ?thesis by (simp add: prune_order_def atLeast0LessThan)
qed

lemma length_remove_message: "i < length (ctx_messages c) \<Longrightarrow> length (ctx_messages (remove_message i c)) = length (ctx_messages c) - 1"
  by (simp add: remove_message_def)

lemma prune_loop_cases:
  assumes "prune_loop ts b th (idx # idxs) c pruned = Some (c', pruned')"
  obtains (stop) "context_token_count_approx ts c \<le> b \<or> th \<le> length pruned" "c' = c" "pruned' = pruned"
  | (skip) "\<not> context_token_count_approx ts c \<le> b" "length pruned < th"
      "idx = 0 \<or> idx = length (ctx_messages c) - 1
        \<or> idx < length (ctx_messages c) \<and> entry_has_role (ctx_messages c ! idx) System"
      "prune_loop ts b th idxs c pruned = Some (c', pruned')"
  | (cut) "0 < idx" "Suc idx < length (ctx_messages c)"
      "prune_loop ts b th idxs (remove_message idx c) (pruned @ [idx]) = Some (c', pruned')"
  using assms by (auto simp: not_le split: if_splits)

lemma prune_loop_facts:
  "prune_loop ts b th idxs c pruned = Some (c', pruned') \<Longrightarrow>
     subseq (ctx_messages c') (ctx_messages c)
   \<and> length pruned' + length (ctx_messages c') = length pruned + length (ctx_messages c)
   \<and> take 1 (ctx_messages c') = take 1 (ctx_messages c)
   \<and> (2 \<le> length (ctx_messages c) \<longrightarrow> 2 \<le> length (ctx_messages c'))
   \<and> length pruned \<le> length pruned'"
proof (induction idxs arbitrary: c pruned)
  case (Cons idx idxs)
  from Cons.prems show ?case
  proof (cases rule: prune_loop_cases)
    case cut
    have "take 1 (ctx_messages (remove_message idx c)) = take 1 (ctx_messages c)"
      using cut(1) by (simp add: remove_message_def remove_at_def min_def)
    moreover have "subseq (ctx_messages c') (ctx_messages c)"
      using Cons.IH [OF cut(3)] remove_message_subseq subseq_order.trans by blast
    ultimately show ?thesis
      using Cons.IH [OF cut(3)] cut(1,2) by (simp add: length_remove_message)
  qed (use Cons.IH in auto)
qed simp

text \<open>The loop gives up on the last index only by panicking, when it has removed anything.\<close>

lemma prune_loop_last:
  assumes "prune_loop ts b th (idxs @ [n - 1]) c pruned = Some (c', pruned')"
    and "length (ctx_messages c) \<le> n" "pruned \<noteq> [] \<Longrightarrow> length (ctx_messages c) < n"
  shows "context_token_count_approx ts c' \<le> b \<or> th \<le> length pruned' \<or> pruned' = []"
  using assms
proof (induction idxs arbitrary: c pruned)
  case Nil
  have empty: "context_token_count_approx ts c = 0" if "length (ctx_messages c) = 0"
    using that by (simp add: context_token_count_approx_def)
  from Nil(1) have "prune_loop ts b th [n - 1] c pruned = Some (c', pruned')" by simp
  then show ?case
  proof (cases rule: prune_loop_cases)
    case skip
    show ?thesis
    proof (cases "pruned = [] \<or> context_token_count_approx ts c \<le> b")
      case True
      with skip(4) show ?thesis by (auto split: if_splits)
    next
      case False
      then have "length (ctx_messages c) < n" "0 < length (ctx_messages c)"
        using Nil(3) empty by auto
      with skip(3) show ?thesis by linarith
    qed
  next
    case cut
    with Nil(2) show ?thesis by linarith
  qed auto
next
  case (Cons idx idxs)
  from Cons.prems(1) have "prune_loop ts b th (idx # (idxs @ [n - 1])) c pruned = Some (c', pruned')" by simp
  then show ?case
  proof (cases rule: prune_loop_cases)
    case cut
    from Cons.IH [OF cut(3)] cut(2) Cons.prems(2) show ?thesis by (simp add: length_remove_message)
  qed (use Cons in auto)
qed

lemma prune_loop_stops:
  assumes "prune_loop ts b th (prune_order (ctx_messages c)) c [] = Some (c', pruned)" "ctx_messages c \<noteq> []"
  shows "context_token_count_approx ts c' \<le> b \<or> th \<le> length pruned \<or> pruned = []"
proof -
  obtain idxs where "prune_order (ctx_messages c) = idxs @ [length (ctx_messages c) - 1]"
    using prune_order_last [OF assms(2)] by blast
  with assms(1) show ?thesis
    using prune_loop_last [of ts b th idxs "length (ctx_messages c)" c "[]" c' pruned] by simp
qed

lemma prune_loop_idle:
  assumes "prune_loop ts b th idxs c [] = Some (c', [])"
  shows "context_token_count_approx ts c \<le> b \<or> th = 0
    \<or> (\<forall>i \<in> set idxs. i = 0 \<or> i = length (ctx_messages c) - 1
        \<or> i < length (ctx_messages c) \<and> entry_has_role (ctx_messages c ! i) System)"
  using assms
proof (induction idxs)
  case (Cons idx idxs)
  from Cons.prems show ?case
  proof (cases rule: prune_loop_cases)
    case cut
    with prune_loop_facts [OF cut(3)] show ?thesis by simp
  qed (use Cons.IH in auto)
qed simp

text \<open>Compaction after the other two.\<close>

lemma compact_kept:
  assumes "compact_context render ts cc c use_max = Some (Inr c')" "kept_history (ctx_messages c)"
  shows "kept_history (ctx_messages c')"
  using assms(1)
proof (cases rule: compact_context_cases)
  case same
  with assms show ?thesis by simp
next
  case (summarized xs part ys summary s e)
  obtain m ms where c: "ctx_messages c = m # ms"
    using summarized(1,3,4) by (cases "xs @ part @ ys") auto
  have m: "kept m" "\<not> entry_has_role m Assistant"
    using assms(2) by (simp_all add: kept_history_def c)
  then have first: "find_index (\<lambda>m. entry_has_role m Assistant) (ctx_messages c) \<noteq> Some 0"
    by (auto simp: c)
  have "0 < s" using summarized(5) first by (auto simp: seq_result_def intro: gr0I)
  then obtain xs' where xs: "xs = m # xs'"
    using summarized(1,2) c by (cases xs) auto
  let ?new = "filter kept xs @ summary_entry summary part # filter kept ys"
  have same: "list_all2 same_but_reasoning ?new (ctx_messages c')"
    using compacted_messages [of xs summary part ys c] summarized(7) by simp
  have "list_all kept ?new" by (auto simp: list_all_iff)
  with same have "list_all kept (ctx_messages c')"
    by (induction rule: list_all2_induct) (auto dest: same_but_reasoning_role)
  moreover obtain n ns where "ctx_messages c' = n # ns" "same_but_reasoning m n"
    using same m(1) by (auto simp: xs list_all2_Cons1)
  moreover have "paired (ctx_messages c')"
    using compact_pairs [OF assms(1)] assms(2) first by (simp add: kept_history_def)
  ultimately show ?thesis
    using m same_but_reasoning_role [of m n] by (auto simp: kept_history_def list_all_iff)
qed

lemma compaction_handle_kept:
  assumes "compaction_handle render ts cc c = Some (Inr c')" "kept_history (ctx_messages c)"
    and "\<not> cc_enable_structural_dedup cc" "cc_min_importance_threshold cc \<le> 3 / 4"
  shows "kept_history (ctx_messages c')"
  using assms(1,3) compress_kept [OF assms(2,4), of ts] assms(2)
  by (auto simp: compaction_handle_def Let_def split: if_splits intro: compact_kept)

section \<open>Properties\<close>

text \<open>Compression only removes messages, and its report is right: the tokens it says were saved and
  those it says remain are those of the context it was given, and it is called truncated exactly
  when it is still over the budget.\<close>

theorem compression_accounts:
  assumes "compress ts cc c = (c', report)" "token_budget cc < context_token_count_approx ts c"
  shows "subseq (ctx_messages c') (ctx_messages c)
    \<and> cr_remaining_tokens report = context_token_count_approx ts c'
    \<and> cr_tokens_saved report + cr_remaining_tokens report = context_token_count_approx ts c
    \<and> (cr_truncated report \<longleftrightarrow> token_budget cc < context_token_count_approx ts c')"
proof -
  note D = stage_accountsD
  show ?thesis
    using assms unfolding compress_def Let_def
    by (auto split: prod.splits if_splits dest!: D simp: merge_report_def report_default_def
        intro: subseq_order.trans)
qed

text \<open>What pruning promises when it returns: it only removed messages and reports the tokens left;
  and it is within the budget unless it removed as many messages as it may, or none at all.\<close>

theorem prune_result:
  assumes "prune ts cc c = Some (c', report)" "token_budget cc < context_token_count_approx ts c"
  shows "subseq (ctx_messages c') (ctx_messages c)
    \<and> pr_remaining_tokens report = context_token_count_approx ts c'
    \<and> length (pr_pruned report) = length (ctx_messages c) - length (ctx_messages c')
    \<and> (pr_remaining_tokens report \<le> token_budget cc \<or> pr_pruned report = []
       \<or> cc_prune_threshold cc \<le> length (pr_pruned report))"
proof -
  from assms obtain pruned where
    loop: "prune_loop ts (token_budget cc) (cc_prune_threshold cc) (prune_order (ctx_messages c)) c [] = Some (c', pruned)"
    and r: "pr_pruned report = pruned" "pr_remaining_tokens report = context_token_count_approx ts c'"
    by (auto simp: prune_def Let_def)
  have "ctx_messages c \<noteq> []"
    using assms(2) by (auto simp: context_token_count_approx_def)
  with prune_loop_stops [OF loop] prune_loop_facts [OF loop] r show ?thesis by auto
qed

text \<open>When it cannot reach the budget it panics: if the first message alone is over the budget, an
  inner message is not a system message, and the limit on removals is not reached before the inner
  messages run out, the index of the last message is removed after the history has shrunk.\<close>

theorem prune_panics:
  assumes "token_budget cc < token_count_approx ts (me_message (ctx_messages c ! 0))"
    and "0 < j" "Suc j < length (ctx_messages c)" "\<not> entry_has_role (ctx_messages c ! j) System"
    and "length (ctx_messages c) < cc_prune_threshold cc + 2"
  shows "prune ts cc c = None"
proof (rule ccontr)
  have over: "token_budget cc < context_token_count_approx ts x"
    if "take 1 (ctx_messages x) = take 1 (ctx_messages c)" for x
    using that assms(1,3)
    by (cases "ctx_messages x"; cases "ctx_messages c") (auto simp: context_token_count_approx_def)
  have c: "token_budget cc < context_token_count_approx ts c" by (rule over) simp
  assume "prune ts cc c \<noteq> None"
  then obtain c' pruned where
    loop: "prune_loop ts (token_budget cc) (cc_prune_threshold cc) (prune_order (ctx_messages c)) c [] = Some (c', pruned)"
    using c by (auto simp: prune_def Let_def)
  note facts = prune_loop_facts [OF loop]
  have ne: "ctx_messages c \<noteq> []" using assms(3) by auto
  note prune_loop_stops [OF loop ne]
  moreover have "token_budget cc < context_token_count_approx ts c'"
    using over facts by blast
  moreover have "length pruned < cc_prune_threshold cc"
    using facts assms(3,5) by auto
  ultimately have "pruned = []" by simp
  with loop have idle: "prune_loop ts (token_budget cc) (cc_prune_threshold cc) (prune_order (ctx_messages c)) c [] = Some (c', [])"
    by simp
  have "j \<in> set (prune_order (ctx_messages c))" using assms(3) by (simp add: set_prune_order)
  with prune_loop_idle [OF idle] c assms(2-5) show False by force
qed

section \<open>Witnesses\<close>

text \<open>A text counts its characters here, four to a token.\<close>

definition demo_long :: "unit message_entry list" where
  "demo_long =
     [entry_of (msg_system (lit ''system system system'')), entry_of (msg_user (lit ''question one'') None),
      entry_of (msg_user (lit ''question two'') None)]"

definition demo_budget :: compact where
  "demo_budget = compact_default\<lparr>cc_token_threshold := Some 2, cc_context_compression_level := 3,
     cc_min_importance_threshold := 3 / 4\<rparr>"

definition demo_stale :: "unit chat_context" where
  "demo_stale = context_default\<lparr>ctx_messages :=
     take 2 demo_turn @ [entry_of (msg_user (lit ''and more'') None)] @ drop 2 demo_turn\<rparr>"

abbreviation demo_prune :: "unit chat_context \<times> prune_report" where
  "demo_prune \<equiv> the (prune (\<lambda>_. []) (demo_budget\<lparr>cc_token_threshold := Some 6\<rparr>) demo_stale)"

theorem compression_accounts_witness:
  "subseq (ctx_messages (fst (compress (\<lambda>_. []) demo_budget demo_stale))) (ctx_messages demo_stale)
   \<and> cr_tokens_saved (snd (compress (\<lambda>_. []) demo_budget demo_stale)) = 5"
proof -
  have "token_budget demo_budget < context_token_count_approx (\<lambda>_. []) demo_stale" by code_simp
  note accounts = compression_accounts [OF surjective_pairing this]
  have "context_token_count_approx (\<lambda>_. []) demo_stale = 8" by code_simp
  moreover have "cr_remaining_tokens (snd (compress (\<lambda>_. []) demo_budget demo_stale)) = 3" by code_simp
  ultimately show ?thesis using accounts by simp
qed

lemma demo_prune_Some:
  "prune (\<lambda>_. []) (demo_budget\<lparr>cc_token_threshold := Some 6\<rparr>) demo_stale = Some (fst demo_prune, snd demo_prune)"
proof -
  have "prune (\<lambda>_. []) (demo_budget\<lparr>cc_token_threshold := Some 6\<rparr>) demo_stale \<noteq> None" by code_simp
  then show ?thesis by auto
qed

theorem prune_result_witness:
  "subseq (ctx_messages (fst demo_prune)) (ctx_messages demo_stale)
   \<and> pr_remaining_tokens (snd demo_prune) = context_token_count_approx (\<lambda>_. []) (fst demo_prune)"
proof -
  have "token_budget (demo_budget\<lparr>cc_token_threshold := Some 6\<rparr>) < context_token_count_approx (\<lambda>_. []) demo_stale"
    by code_simp
  from prune_result [OF demo_prune_Some this] show ?thesis by blast
qed

text \<open>
  Indices in ascending order are stale after the first removal: here the call of a tool is removed
  in place of the message before it, and its result is left over.
\<close>

lemma prune_breaks_pairing: "paired (ctx_messages demo_stale) \<and> \<not> paired (ctx_messages (fst demo_prune))"
  by (rule conjI; code_simp)

theorem prune_panics_witness:
  "prune (\<lambda>_. []) demo_budget (context_default\<lparr>ctx_messages := demo_long\<rparr>) = None"
  by (rule prune_panics [of _ _ _ 1]) code_simp+

end
