(* ===== verification/App_Hooks.thy ===== *)
theory App_Hooks
  imports Agent_Loop Compression
begin

text \<open>
  How \<open>ForgeApp\<close> (\<open>forge_app/src/app.rs\<close>) wires the agent loop: the hook it builds from the handlers
  of \<open>forge_app/src/hooks\<close>, the saving of the conversation after the run, and compaction on demand.
  The handlers that only log (\<open>hooks/tracing.rs\<close>) are the one that does nothing.
\<close>

section \<open>Titles\<close>

text \<open>
  \<open>hooks/title_generation.rs\<close>: a task per conversation id that generates a title in the background;
  the tasks are part of the world, which finishes them. The tasks still running at the end are
  aborted.
\<close>

datatype title_task = Generating | Generated "rstr option"

type_synonym title_tasks = "rstr \<Rightarrow> title_task option"

definition title_prompt :: "'v conversation \<Rightarrow> rstr option" where
  "title_prompt cv =
     Option.bind (Option.bind (Option.bind (cv_context cv)
        (\<lambda>c. List.find (\<lambda>m. entry_has_role m User) (ctx_messages c)))
        (\<lambda>e. msg_as_value (me_message e)))
        (\<lambda>v. case v of EText p \<Rightarrow> Some p | ECommand _ \<Rightarrow> None)"

definition title_start_handle :: "'v conversation \<Rightarrow> title_tasks \<Rightarrow> title_tasks" where
  "title_start_handle cv tasks =
     (if cv_title cv \<noteq> None then tasks
      else case title_prompt cv of
             None \<Rightarrow> tasks
           | Some _ \<Rightarrow> if tasks (cv_id cv) = None then tasks(cv_id cv \<mapsto> Generating) else tasks)"

definition title_end_handle :: "'v conversation \<Rightarrow> title_tasks \<Rightarrow> 'v conversation \<times> title_tasks" where
  "title_end_handle cv tasks =
     (case tasks (cv_id cv) of
        None \<Rightarrow> (cv, tasks)
      | Some Generating \<Rightarrow> (cv, tasks(cv_id cv := None))
      | Some (Generated None) \<Rightarrow> (cv, tasks(cv_id cv := None))
      | Some (Generated (Some title)) \<Rightarrow> (cv\<lparr>cv_title := Some title\<rparr>, tasks(cv_id cv := None)))"

definition title_on_start :: "('v, title_tasks \<times> 'w, 'e, unit) handler" where
  "title_on_start ev = update (\<lambda>(cv, tasks, w). (cv, title_start_handle cv tasks, w))"

definition title_on_end :: "('v, title_tasks \<times> 'w, 'e, unit) handler" where
  "title_on_end ev = update (\<lambda>(cv, tasks, w).
     case title_end_handle cv tasks of (cv', tasks') \<Rightarrow> (cv', tasks', w))"

section \<open>The hook of the application\<close>

text \<open>The template engine and the configuration the handlers use.\<close>

record ('v, 'e) hook_config =
  hc_render_doom :: "nat \<Rightarrow> 'e + rstr"
  hc_render_todos :: "(rstr \<times> rstr) list \<Rightarrow> 'e + rstr"
  hc_render_summary :: "'v message_entry list \<Rightarrow> 'e + rstr"
  hc_escape :: "rstr \<Rightarrow> rstr"
  hc_source :: "'v \<Rightarrow> rstr"
  hc_verify_todos :: bool

definition tracing_handler :: "('v, 'w, 'e, 'p) handler" where
  "tracing_handler ev = ret ()"

definition on_end_hook :: "('v, 'e) hook_config \<Rightarrow> ('v, title_tasks \<times> 'w, 'e, unit) handler" where
  "on_end_hook hc =
     (if hc_verify_todos hc
      then and_handler (and_handler tracing_handler title_on_end)
             (pure_handler (\<lambda>_. pending_todos_handle (hc_render_todos hc) (hc_escape hc)))
      else and_handler tracing_handler title_on_end)"

definition app_hook :: "('v, 'e) hook_config \<Rightarrow> agent \<Rightarrow> ('v, title_tasks \<times> 'w, 'e) hook" where
  "app_hook hc a =
     \<lparr>hk_on_start = and_handler tracing_handler title_on_start,
      hk_on_end = on_end_hook hc,
      hk_on_request = and_handler tracing_handler
        (pure_handler (\<lambda>_. doom_loop_handler (hc_render_doom hc) default_threshold)),
      hk_on_response = and_handler tracing_handler
        (compaction_handler (hc_render_summary hc) (hc_source hc) (ag_compact a)),
      hk_on_toolcall_start = tracing_handler,
      hk_on_toolcall_end = and_handler (and_handler tracing_handler
        (\<lambda>ev. pure_handler (\<lambda>_ cv. Inr (auto_repair_handle auto_repair_new ev cv)) ev))
        (\<lambda>ev. pure_handler (\<lambda>_ cv. Inr (snd (sandbox_handle True ev cv))) ev)\<rparr>"

section \<open>The end of a chat\<close>

text \<open>
  What the task that \<open>chat\<close> spawns does: it runs the loop, saves the conversation whatever the
  outcome, stores its digest (\<open>remember\<close>, which never fails) and reports the first error. A panic
  ends the task.
\<close>

definition dispatch ::
  "('v, 'w, 'e, 'j) orch_env \<Rightarrow> ('v conversation \<Rightarrow> 'w \<Rightarrow> 'w) \<Rightarrow> ('e run_error \<Rightarrow> ('w, 'e, unit) act)
     \<Rightarrow> (('v, 'w) orch, 'e run_error, unit) act" where
  "dispatch env remember report s =
     (case run env s of
        None \<Rightarrow> None
      | Some (Inl Panicked, s1) \<Rightarrow> Some (Inl Panicked, s1)
      | Some (r, s1) \<Rightarrow>
          (case on_world (sv_update (en_services env) (os_conversation s1)) s1 of
             None \<Rightarrow> None
           | Some (Inl Panicked, s2) \<Rightarrow> Some (Inl Panicked, s2)
           | Some (saved, s2) \<Rightarrow>
               let s3 = s2\<lparr>os_world := remember (os_conversation s1) (os_world s2)\<rparr>
               in case (r, saved) of
                    (Inl (Fail e), _) \<Rightarrow> ignoring (on_world (report e)) s3
                  | (_, Inl (Fail e)) \<Rightarrow> ignoring (on_world (report e)) s3
                  | _ \<Rightarrow> Some (Inr (), s3)))"

section \<open>Compaction on demand\<close>

record compaction_result =
  cp_original_tokens :: nat
  cp_compacted_tokens :: nat
  cp_original_messages :: nat
  cp_compacted_messages :: nat

definition token_reduction_percentage :: "compaction_result \<Rightarrow> rat" where
  "token_reduction_percentage r =
     (if cp_original_tokens r = 0 \<or> cp_compacted_tokens r = 0 then 0
      else f64_mul (f64_round (f64_of_usize (cp_original_tokens r - cp_compacted_tokens r)
             / f64_of_usize (cp_original_tokens r))) 100)"

definition message_reduction_percentage :: "compaction_result \<Rightarrow> rat" where
  "message_reduction_percentage r =
     (if cp_original_messages r = 0 \<or> cp_compacted_messages r = 0 then 0
      else f64_mul (f64_round (f64_of_usize (cp_original_messages r - cp_compacted_messages r)
             / f64_of_usize (cp_original_messages r))) 100)"

fun tok_value :: "tok_count \<Rightarrow> nat" where
  "tok_value (Actual n) = n"
| "tok_value (Approx n) = n"

datatype 'e app_error = AppFailed 'e | ConversationNotFound rstr

record ('v, 'w, 'e) app_services =
  as_find :: "rstr \<Rightarrow> ('w, 'e, 'v conversation option) act"
  as_config :: "('w, 'e, workflow_config) act"
  as_agent :: "rstr \<Rightarrow> ('w, 'e, agent option) act"
  as_upsert :: "'v conversation \<Rightarrow> ('w, 'e, unit) act"
  as_forget :: "'v conversation \<Rightarrow> 'w \<Rightarrow> 'w"

text \<open>The compaction settings of an agent under a configuration.\<close>

definition configured_compact :: "workflow_config \<Rightarrow> agent \<Rightarrow> compact" where
  "configured_compact config a =
     (let a = apply_config config a in set_compact_model_if_none (ag_model a) (ag_compact a))"

definition compact_conversation ::
  "('v, 'w, 'e) app_services \<Rightarrow> ('v message_entry list \<Rightarrow> 'e + rstr) \<Rightarrow> ('v \<Rightarrow> rstr) \<Rightarrow> rstr \<Rightarrow> rstr
     \<Rightarrow> ('w, 'e app_error, compaction_result) act" where
  "compact_conversation sv render ts active_agent_id conversation_id =
     andthen (map_error AppFailed (as_find sv conversation_id)) (\<lambda>found.
       case found of
         None \<Rightarrow> fail (ConversationNotFound conversation_id)
       | Some cv \<Rightarrow>
       (case cv_context cv of
          None \<Rightarrow> ret \<lparr>cp_original_tokens = 0, cp_compacted_tokens = 0, cp_original_messages = 0,
                    cp_compacted_messages = 0\<rparr>
        | Some c \<Rightarrow>
            let original_messages = length (ctx_messages c);
                original_token_count = tok_value (token_count ts c)
            in andthen (map_error AppFailed (as_config sv)) (\<lambda>config.
               andthen (map_error AppFailed (as_agent sv active_agent_id)) (\<lambda>found_agent.
               case found_agent of
                 None \<Rightarrow> ret \<lparr>cp_original_tokens = original_token_count, cp_compacted_tokens = 0,
                           cp_original_messages = original_messages, cp_compacted_messages = 0\<rparr>
               | Some a \<Rightarrow>
                   (case compact_context render ts (configured_compact config a) c True of
                      None \<Rightarrow> panic
                    | Some r \<Rightarrow> andthen (map_error AppFailed (lift_sum r)) (\<lambda>compacted_context.
                        let compacted = cv\<lparr>cv_context := Some compacted_context\<rparr>
                        in andthen (map_error AppFailed (as_upsert sv compacted)) (\<lambda>_.
                           andthen (update (as_forget sv compacted)) (\<lambda>_.
                           ret \<lparr>cp_original_tokens = original_token_count,
                                cp_compacted_tokens = tok_value (token_count ts compacted_context),
                                cp_original_messages = original_messages,
                                cp_compacted_messages = length (ctx_messages compacted_context)\<rparr>))))))))"

section \<open>The histories it keeps\<close>

lemma kept_history_reminders:
  assumes "kept_history ms" "list_all (\<lambda>e. reminder_message (me_message e)) rs"
  shows "kept_history (ms @ rs)"
proof -
  have "paired rs"
    using assms(2) by (intro paired_plain) (auto simp: reminder_message_def list_all_iff)
  moreover have "list_all (\<lambda>m. \<not> is_droppable (me_message m) \<or> plain_message (me_message m)) rs"
    using assms(2) by (auto simp: reminder_message_def list_all_iff)
  ultimately show ?thesis
    using assms(1) by (auto simp: kept_history_def paired_append split: list.splits)
qed

lemma kept_history_map:
  fixes f :: "'v message_entry \<Rightarrow> 'v message_entry"
  assumes "\<And>e. msg_shape (me_message (f e)) = msg_shape (me_message e)"
    and "\<And>e. is_droppable (me_message (f e)) = is_droppable (me_message e)"
  shows "kept_history (map f ms) \<longleftrightarrow> kept_history ms"
proof -
  have shape: "plain_message m = plain_message n \<and> has_role m Assistant = has_role n Assistant"
    if "msg_shape m = msg_shape n" for m n :: "'v context_message"
    using that by (cases m; cases n) (auto simp: plain_message_def)
  have "paired (map f ms) \<longleftrightarrow> paired ms"
    by (rule paired_shape) (simp add: assms(1))
  then show ?thesis
    using assms(2) shape [OF assms(1)]
    by (auto simp: kept_history_def list_all_iff split: list.split)
qed

lemma kept_history_turn_added:
  assumes "kept_history (ctx_messages c)" "list_all answered recs"
  shows "kept_history (ctx_messages (set_model m (append_message c content sig reasoning details usage recs phase)))"
proof -
  let ?c = "append_message c content sig reasoning details usage recs phase"
  obtain merged where new: "ctx_messages ?c = ctx_messages c @ appended_assistant content sig merged usage recs phase
      # map (\<lambda>r. entry_of (msg_tool_result (snd r))) recs"
    using append_message_messages [of details c content sig reasoning usage recs phase] by blast
  have "paired (ctx_messages ?c)"
    using assms by (intro append_paired) (simp_all add: kept_history_def answered_def list_all_iff split_beta)
  then have "kept_history (ctx_messages ?c)"
    using assms(1) unfolding new
    by (auto simp: kept_history_def appended_assistant_def msg_tool_result_def list_all_iff split: list.splits)
  then have "kept_history (map (map_text (\<lambda>t. if tm_model t = None then t\<lparr>tm_model := Some m\<rparr> else t)) (ctx_messages ?c))"
    by (subst kept_history_map) (simp_all add: map_text_shape map_text_def split: context_message.split)
  then show ?thesis by (simp add: set_model_def)
qed

interpretation kept: history_invariant kept_history
  by unfold_locales (rule kept_history_turn_added)

lemma compaction_handler_keeps:
  assumes "\<not> cc_enable_structural_dedup cc" "cc_min_importance_threshold cc \<le> 3 / 4"
  shows "keeps (conv_inv kept_history J) (compaction_handler render ts cc ev)"
  unfolding keeps_def compaction_handler_def conv_inv_def
  using compaction_handle_kept [OF _ _ assms]
  by (auto simp: conv_messages_def split: option.splits sum.splits)

lemma title_keeps:
  "keeps (conv_inv H (\<lambda>(_, w). K w)) (title_on_start ev)"
  "keeps (conv_inv H (\<lambda>(_, w). K w)) (title_on_end ev)"
  by (auto simp: title_on_start_def title_on_end_def title_end_handle_def conv_inv_def conv_messages_def
      intro!: keeps_update split: option.splits title_task.splits)

lemma app_hook_keeps:
  assumes "\<not> cc_enable_structural_dedup (ag_compact a)" "cc_min_importance_threshold (ag_compact a) \<le> 3 / 4"
  shows "hook_keeps (conv_inv kept_history (\<lambda>(_, w). K w)) (app_hook hc a)"
proof -
  note reminders = auto_repair.handler_keeps_history sandbox.handler_keeps_history
    pending_todos.handler_keeps_history doom_loop.handler_keeps_history
  have "keeps (conv_inv kept_history (\<lambda>(_, w). K w)) (hook_handle (app_hook hc a) ev)" for ev
    unfolding conv_inv_def
    by (cases ev) (auto simp: app_hook_def on_end_hook_def tracing_handler_def [abs_def]
        intro!: and_handler_keeps keeps_intros reminders kept_history_reminders
          compaction_handler_keeps [OF assms, unfolded conv_inv_def] title_keeps [unfolded conv_inv_def])
  then show ?thesis by (simp add: hook_keeps_def)
qed

lemma dispatch_keeps:
  fixes env :: "('v, 'w, 'e, 'j) orch_env"
  assumes "env_keeps kept_history J env" "\<And>cv w. J w \<Longrightarrow> J (remember cv w)" "\<And>e. keeps J (report e)"
  shows "keeps (loop_inv kept_history J) (dispatch env remember report)"
proof (rule keepsI)
  fix s r s'
  assume I: "loop_inv kept_history J s" and d: "dispatch env remember report s = Some (r, s')"
  obtain r1 s1 where s1: "run env s = Some (r1, s1)"
    using d by (auto simp: dispatch_def split: option.splits)
  have I1: "loop_inv kept_history J s1"
    using kept.run_keeps [OF assms(1)] s1 I by (auto dest: keepsD)
  have report: "keeps (loop_inv kept_history J) (ignoring (on_world (report e)) :: (('v, 'w) orch, 'e run_error, unit) act)" for e
    by (intro ignoring_keeps kept.keeps_on_world assms(3))
  show "loop_inv kept_history J s'"
  proof (cases "r1 = Inl Panicked")
    case True
    with d s1 I1 show ?thesis by (simp add: dispatch_def)
  next
    case False
    have "keeps J (sv_update (en_services env) (os_conversation s1))"
      using assms(1) I1 by (simp add: env_keeps_def services_keep_def loop_inv_def)
    then have save: "keeps (loop_inv kept_history J) (on_world (sv_update (en_services env) (os_conversation s1))
        :: (('v, 'w) orch, 'e run_error, unit) act)"
      by (rule kept.keeps_on_world)
    obtain saved s2 where s2: "on_world (sv_update (en_services env) (os_conversation s1)) s1 = Some (saved, s2)"
      using d s1 False by (auto simp: dispatch_def split: option.splits sum.splits abort.splits)
    have I2: "loop_inv kept_history J s2" using keepsD [OF save s2 I1] .
    then have I3: "loop_inv kept_history J (s2\<lparr>os_world := remember (os_conversation s1) (os_world s2)\<rparr>)"
      using assms(2) by (simp add: loop_inv_def)
    show ?thesis
      using d s1 s2 I2 I3 keepsD [OF report _ I3] False
      by (auto simp: dispatch_def Let_def split: sum.splits abort.splits)
  qed
qed

text \<open>The hook always returns, and without the check of todos its end adds no message.\<close>

lemma app_hook_returns: "returns (hook_handle (app_hook hc a) ev)"
proof -
  have "returns (compaction_handler render ts cc ev)" for render ts cc ev
    by (simp add: returns_def compaction_handler_def split: option.split sum.split)
  then show ?thesis
    by (cases ev) (auto simp: app_hook_def on_end_hook_def tracing_handler_def [abs_def] title_on_start_def
        title_on_end_def intro!: and_handler_returns returns_intros auto_repair.handler_returns
        sandbox.handler_returns pending_todos.handler_returns doom_loop.handler_returns)
qed

lemma app_hook_quiet: "\<not> hc_verify_todos hc \<Longrightarrow> quiet_end (app_hook hc a)"
  by (auto simp: quiet_end_def app_hook_def on_end_hook_def and_handler_def tracing_handler_def
      title_on_end_def update_def title_end_handle_def conv_len_def split: option.splits title_task.splits)

lemma dispatch_returns:
  fixes env :: "('v, 'w, 'e, 'j) orch_env"
  assumes "returns (run env)" "\<And>cv. returns (sv_update (en_services env) cv)" "\<And>e. returns (report e)"
  shows "returns (dispatch env remember report)"
proof -
  have save: "returns (on_world (sv_update (en_services env) cv) :: (('v, 'w) orch, 'e run_error, unit) act)" for cv
    by (intro returns_on assms)
  have report: "returns (ignoring (on_world (report e)) :: (('v, 'w) orch, 'e run_error, unit) act)" for e
    by (intro returns_on returns_ignoring assms)
  have "dispatch env remember report s \<noteq> None" for s
  proof -
    obtain r s1 where s1: "run env s = Some (r, s1)"
      using assms(1) by (force simp: returns_def)
    obtain saved s2 where s2: "on_world (sv_update (en_services env) (os_conversation s1)) s1 = Some (saved, s2)"
      using save [of "os_conversation s1"] by (force simp: returns_def)
    show ?thesis
      using s1 s2 report [unfolded returns_def] by (simp add: dispatch_def Let_def split: sum.split abort.split)
  qed
  then show ?thesis by (simp add: returns_def)
qed

section \<open>Properties\<close>

text \<open>C2: A chat keeps its history well formed from end to end, with the application's own hook: if the
  history starts well formed (paired, first message neither droppable nor the assistant's) and
  the tools answer under the ids of their calls and the driver of retries does what its
  documentation says, then through any number of turns of tool calls, reminders, compression and compaction the history stays well formed, and nothing
  else is ever saved, whether the run completes, fails or panics; provided pruning is off and the importance
  threshold of compression is at most 3/4.\<close>

theorem chat_keeps_history:
  assumes "en_hook env = app_hook hc (en_agent env)"
    and "\<not> cc_enable_structural_dedup (ag_compact (en_agent env))"
    and "cc_min_importance_threshold (ag_compact (en_agent env)) \<le> 3 / 4"
    and "services_keep kept_history (\<lambda>(_, w). K w) (en_services env)" "services_answer (en_services env)"
    and "retry_documented (en_retry env)"
    and "\<And>cv tasks w. K w \<Longrightarrow> K (snd (remember cv (tasks, w)))" "\<And>e. keeps (\<lambda>(_, w). K w) (report e)"
    and "dispatch env remember report s = Some (r, s')"
    and "kept_history (conv_messages (os_conversation s))" "K (snd (os_world s))"
  shows "kept_history (conv_messages (os_conversation s')) \<and> K (snd (os_world s'))"
proof -
  have "env_keeps kept_history (\<lambda>(_, w). K w) env"
    using assms(1-6) by (simp add: env_keeps_def app_hook_keeps)
  then have "keeps (loop_inv kept_history (\<lambda>(_, w). K w)) (dispatch env remember report)"
    by (rule dispatch_keeps) (use assms(7,8) in \<open>auto simp: split_beta\<close>)
  from keepsD [OF this assms(9)] show ?thesis
    using assms(10,11) by (simp add: loop_inv_def split_beta)
qed

text \<open>The tools keep a todo of two lines: then the end of every turn adds a reminder.\<close>

definition multiline_todo :: "metrics \<Rightarrow> bool" where
  "multiline_todo m \<longleftrightarrow> (\<exists>t \<in> set (get_active_todos m). 10 \<in> set (tdo_content t))"

lemma app_hook_insistent:
  assumes "hc_verify_todos hc" "hc_render_todos hc = (\<lambda>items. Inr (reminder_template items))"
  shows "insistent_end multiline_todo (app_hook hc a)"
  unfolding insistent_end_def
proof (intro allI impI)
  fix ev cv w cv' w'
  assume todo: "multiline_todo (cv_metrics cv)" and "cv_context cv \<noteq> None"
    and run: "hook_handle (app_hook hc a) (LEnd ev) (cv, w) = Some (Inr (), (cv', w'))"
  obtain tasks u where w: "w = (tasks, u)" by (cases w)
  obtain cv1 tasks1 where title: "title_end_handle cv tasks = (cv1, tasks1)" by fastforce
  then have "cv_metrics cv1 = cv_metrics cv" "cv_context cv1 = cv_context cv"
    by (auto simp: title_end_handle_def split: option.splits title_task.splits)
  moreover from this have len: "conv_len cv1 = conv_len cv" by (simp add: conv_len_def)
  ultimately have "case pending_todos_handle (hc_render_todos hc) (hc_escape hc) cv1 of
      Inl e \<Rightarrow> False | Inr cv' \<Rightarrow> conv_len cv' = Suc (conv_len cv1) \<and> cv_metrics cv' = cv_metrics cv1 \<and> cv_context cv' \<noteq> None"
    unfolding assms(2) using todo \<open>cv_context cv \<noteq> None\<close> reminder_grows [of _ cv1] by (auto simp: multiline_todo_def)
  then show "conv_len cv < conv_len cv'"
    using run assms(1) title len
    by (auto simp: w app_hook_def on_end_hook_def and_handler_def tracing_handler_def title_on_end_def pure_handler_def
        update_apply andthen_def split: sum.splits)
qed

text \<open>C30: With a todo of two lines pending, and no tool that settles it, the application's own check of todos at the
  end of a turn keeps the loop going: with the hook of the application, the check enabled and its template as it is, the
  run never completes, whatever the model answers and whatever limits are set on requests and tool failures.\<close>

theorem pending_multiline_todo_never_completes:
  assumes "en_hook env = app_hook hc (en_agent env)" "hc_verify_todos hc"
    and "hc_render_todos hc = (\<lambda>items. Inr (reminder_template items))"
    and "tools_keep multiline_todo (en_services env)" "retry_documented (en_retry env)"
    and "multiline_todo (cv_metrics (os_conversation s))"
  shows "run env s \<noteq> Some (Inr (), s')"
proof
  assume run: "run env s = Some (Inr (), s')"
  have "insistent_end multiline_todo (en_hook env)"
    unfolding assms(1) by (rule app_hook_insistent [OF assms(2,3)])
  moreover have "multiline_todo (cv_metrics cv')"
    if "multiline_todo (cv_metrics cv)" "hook_handle (en_hook env) (LStart ev) (cv, w) = Some (r, cv', w')" for ev cv w r cv' w'
    using that by (auto simp: assms(1) app_hook_def and_handler_def tracing_handler_def title_on_start_def update_apply
        split: prod.splits)
  ultimately show False
    using run_never_completes [OF _ assms(4,5) _ run assms(6)] by blast
qed

text \<open>Compaction on demand reports the truth: when it succeeds for a conversation with a context and
  a known agent, what it saved is the conversation with the compacted context, the counts it reports are those of
  the context before and after, and the messages did not become more.\<close>

theorem compact_conversation_reports:
  assumes "as_find sv i w = Some (Inr (Some cv), w1)" "cv_context cv = Some c"
    and "as_config sv w1 = Some (Inr config, w2)" "as_agent sv a w2 = Some (Inr (Some ag), w3)"
    and "compact_conversation sv render ts a i w = Some (Inr res, w')"
  shows "\<exists>c' w4. compact_context render ts (configured_compact config ag) c True
        = Some (Inr c')
    \<and> as_upsert sv (cv\<lparr>cv_context := Some c'\<rparr>) w3 = Some (Inr (), w4)
    \<and> w' = as_forget sv (cv\<lparr>cv_context := Some c'\<rparr>) w4
    \<and> cp_original_messages res = length (ctx_messages c) \<and> cp_compacted_messages res = length (ctx_messages c')
    \<and> cp_compacted_messages res \<le> cp_original_messages res
    \<and> cp_original_tokens res = tok_value (token_count ts c) \<and> cp_compacted_tokens res = tok_value (token_count ts c')"
proof -
  obtain r where r: "compact_context render ts (configured_compact config ag) c True = Some r"
    and result: "case r of Inl err \<Rightarrow> \<exists>evicted. render evicted = Inl err
      | Inr c' \<Rightarrow> c'\<lparr>ctx_messages := ctx_messages c\<rparr> = c \<and> length (ctx_messages c') \<le> length (ctx_messages c)"
    using compact_result by blast
  have small: "length (ctx_messages c') \<le> length (ctx_messages c)" if "r = Inr c'" for c'
    using result that by simp
  have run: "compact_conversation sv render ts a i w =
      (andthen (map_error AppFailed (lift_sum r)) (\<lambda>c'.
         andthen (map_error AppFailed (as_upsert sv (cv\<lparr>cv_context := Some c'\<rparr>))) (\<lambda>_.
         andthen (update (as_forget sv (cv\<lparr>cv_context := Some c'\<rparr>))) (\<lambda>_.
         ret \<lparr>cp_original_tokens = tok_value (token_count ts c),
              cp_compacted_tokens = tok_value (token_count ts c'),
              cp_original_messages = length (ctx_messages c),
              cp_compacted_messages = length (ctx_messages c')\<rparr>)))) w3"
    using assms(1-4) r
    by (simp add: compact_conversation_def andthen_apply map_error_def Let_def)
  obtain c' where "r = Inr c'"
    using assms(5) run by (cases r) (auto simp: lift_sum_def map_error_def fail_def andthen_def)
  with assms(5) run small r show ?thesis
    by (fastforce simp: lift_sum_def andthen_Inr_iff map_error_def ret_apply update_apply
        dest!: map_sum_InrD [OF sym])
qed

section \<open>Witnesses\<close>

text \<open>The environment of \<open>Agent_Loop\<close> with the application's hook and a store beside the title tasks.\<close>

definition demo_hooks :: "(unit, unit) hook_config" where
  "demo_hooks =
     \<lparr>hc_render_doom = \<lambda>n. Inr [], hc_render_todos = \<lambda>items. Inr [], hc_render_summary = \<lambda>ms. Inr (lit ''summary''),
      hc_escape = \<lambda>s. s, hc_source = \<lambda>v. [], hc_verify_todos = False\<rparr>"

definition demo_app_services :: "(unit, title_tasks \<times> unit conversation list, unit) services" where
  "demo_app_services =
     \<lparr>sv_chat = \<lambda>m c p. ret [Inr (demo_reply c)], sv_call = \<lambda>a t tc. ret (demo_result tc),
      sv_join = \<lambda>a t tcs. ret (\<lambda>i. demo_result (tcs ! i)),
      sv_update = \<lambda>cv. update (\<lambda>(tasks, saved). (tasks, cv # saved)),
      sv_send = \<lambda>m. ret (), sv_acknowledged = \<lambda>tc. ret (), sv_count = \<lambda>name w. w\<rparr>"

definition demo_agent :: agent where
  "demo_agent = (agent_new (lit ''forge'') (lit ''p'') (lit ''m''))\<lparr>ag_max_requests_per_turn := Some 5,
     ag_compact := compact_default\<lparr>cc_message_threshold := Some 3, cc_retention_window := 1\<rparr>\<rparr>"

definition demo_app :: "(unit, title_tasks \<times> unit conversation list, unit, unit) orch_env" where
  "demo_app =
     \<lparr>en_services = demo_app_services, en_codecs =
        \<lparr>cd_parse_call = \<lambda>s. Inl (), cd_gen_id = \<lambda>w. [7], cd_empty_object = (),
         cd_type_order = \<lambda>ks. ks, cd_repair = \<lambda>s. Inl (), cd_raw_object = \<lambda>s. (), cd_escape = \<lambda>s. s\<rparr>,
      en_hook = app_hook demo_hooks demo_agent, en_agent = demo_agent,
      en_tool_definitions = [\<lparr>td_name = lit ''read'', td_description = [], td_input_schema = ()\<rparr>],
      en_models = [], en_has_sender = True, en_max_attempts = 2, en_retryable = \<lambda>e. False, en_retry = demo_retry,
      en_retry_text = \<lambda>n m. Inr [], en_glob = \<lambda>s. None\<rparr>"

definition demo_app_state :: "(unit, title_tasks \<times> unit conversation list) orch" where
  "demo_app_state =
     \<lparr>os_conversation = (conversation_new [1] 0)\<lparr>cv_context := Some (context_default\<lparr>ctx_messages :=
        [entry_of (msg_system (lit ''s'')), entry_of (msg_user (lit ''u'') None)]\<rparr>)\<rparr>,
      os_dirty = False, os_tracker = tracker_new 3, os_metrics = metrics_default, os_world = (Map.empty, [])\<rparr>"

definition all_kept :: "unit conversation list \<Rightarrow> bool" where
  "all_kept saved \<longleftrightarrow> list_all (\<lambda>cv. kept_history (conv_messages cv)) saved"

lemma demo_app_services_ok:
  "services_keep kept_history (\<lambda>(_, w). all_kept w) demo_app_services" "services_answer demo_app_services"
  by (auto simp: services_keep_def services_answer_def demo_app_services_def demo_result_def all_kept_def
      intro!: keeps_intros yields_ret keeps_update)

lemma demo_app_returns: "returns (dispatch demo_app (\<lambda>cv w. w) (\<lambda>e. ret ()))"
proof -
  have "services_return demo_app_services"
    by (auto simp: services_return_def demo_app_services_def intro!: returns_intros)
  then have "env_returns demo_app" "\<And>cv. returns (sv_update (en_services demo_app) cv)"
    by (auto simp: env_returns_def demo_app_def demo_retry_documented app_hook_returns services_return_def)
  moreover have "quiet_end (en_hook demo_app)"
    by (simp add: demo_app_def demo_hooks_def app_hook_quiet)
  moreover have "ag_max_requests_per_turn (en_agent demo_app) = Some 5"
    by (simp add: demo_app_def demo_agent_def)
  ultimately show ?thesis
    by (intro dispatch_returns run_returns returns_intros)
qed

theorem chat_keeps_history_witness:
  "\<exists>r s'. dispatch demo_app (\<lambda>cv w. w) (\<lambda>e. ret ()) demo_app_state = Some (r, s')
     \<and> kept_history (conv_messages (os_conversation s')) \<and> all_kept (snd (os_world s'))"
proof -
  obtain r s' where run: "dispatch demo_app (\<lambda>cv w. w) (\<lambda>e. ret ()) demo_app_state = Some (r, s')"
    using demo_app_returns [unfolded returns_def, rule_format, of demo_app_state] by auto
  have "kept_history (conv_messages (os_conversation s')) \<and> all_kept (snd (os_world s'))"
  proof (rule chat_keeps_history [OF _ _ _ _ _ _ _ _ run])
    show "en_hook demo_app = app_hook demo_hooks (en_agent demo_app)" by (simp add: demo_app_def)
    show "kept_history (conv_messages (os_conversation demo_app_state))" by code_simp
    show "services_keep kept_history (\<lambda>(_, w). all_kept w) (en_services demo_app)"
      "services_answer (en_services demo_app)"
      by (simp_all add: demo_app_def demo_app_services_ok)
  qed (auto simp: demo_app_def demo_agent_def demo_retry_documented compact_default_def all_kept_def demo_app_state_def intro!: keeps_intros)
  with run show ?thesis by blast
qed

definition demo_checked :: "(unit, title_tasks \<times> unit conversation list, unit, unit) orch_env" where
  "demo_checked = demo_app\<lparr>en_hook := app_hook (demo_hooks\<lparr>hc_verify_todos := True,
     hc_render_todos := \<lambda>items. Inr (reminder_template items)\<rparr>) demo_agent\<rparr>"

theorem pending_multiline_todo_never_completes_witness:
  "run demo_checked (demo_app_state\<lparr>os_conversation := demo_todo_conversation [97, 10, 98]\<rparr>) \<noteq> Some (Inr (), demo_app_state)"
  by (rule pending_multiline_todo_never_completes [where hc = "demo_hooks\<lparr>hc_verify_todos := True,
     hc_render_todos := \<lambda>items. Inr (reminder_template items)\<rparr>"])
    (auto simp: demo_checked_def demo_app_def demo_app_services_def tools_keep_def demo_retry_documented multiline_todo_def
      demo_todo_active intro!: keeps_intros)

definition demo_config :: workflow_config where
  "demo_config = \<lparr>wf_temperature = None, wf_top_p = None, wf_top_k = None, wf_max_tokens = None,
     wf_max_tool_failure_per_turn = None, wf_max_requests_per_turn = None, wf_tool_supported = True,
     wf_compact = None, wf_reasoning = None\<rparr>"

definition demo_store :: "(unit, unit conversation option, unit) app_services" where
  "demo_store =
     \<lparr>as_find = \<lambda>i. (\<lambda>w. Some (Inr w, w)), as_config = ret demo_config,
      as_agent = \<lambda>i. ret (Some (demo_agent\<lparr>ag_compact := demo_cfg\<rparr>)),
      as_upsert = \<lambda>cv. update (\<lambda>_. Some cv), as_forget = \<lambda>cv w. w\<rparr>"

definition demo_stored :: "unit conversation" where
  "demo_stored = (conversation_new [1] 0)\<lparr>cv_context := Some demo_paired\<rparr>"

definition demo_report :: compaction_result where
  "demo_report = \<lparr>cp_original_tokens = 6, cp_compacted_tokens = 6, cp_original_messages = 7,
     cp_compacted_messages = 5\<rparr>"

lemma demo_compacts:
  "map_option fst (compact_conversation demo_store demo_render (\<lambda>_. []) [2] [1] (Some demo_stored)) = Some (Inr demo_report)"
  by code_simp

theorem compact_conversation_reports_witness:
  "cp_compacted_messages demo_report \<le> cp_original_messages demo_report"
proof -
  obtain w' where run: "compact_conversation demo_store demo_render (\<lambda>_. []) [2] [1] (Some demo_stored)
      = Some (Inr demo_report, w')"
    using demo_compacts by auto
  have find: "as_find demo_store [1] (Some demo_stored) = Some (Inr (Some demo_stored), Some demo_stored)"
    by (simp add: demo_store_def)
  have rest: "as_config demo_store (Some demo_stored) = Some (Inr demo_config, Some demo_stored)"
    "as_agent demo_store [2] (Some demo_stored)
       = Some (Inr (Some (demo_agent\<lparr>ag_compact := demo_cfg\<rparr>)), Some demo_stored)"
    by (simp_all add: demo_store_def ret_apply)
  show ?thesis
    using compact_conversation_reports [OF find _ rest run, of demo_paired] by (auto simp: demo_stored_def)
qed

end
