(* ===== verification/Guardian.thy ===== *)
theory Guardian
  imports Policies Catalog
begin

text \<open>
  \<open>forge_guardian\<close>: the risk model, the heuristic judge, the session modes, the adjudicator that wraps the
  decision of the rule engine, the parser of a model's verdict and the store of learned decisions.
  Scores are only compared: the decimal constants stand for the doubles nearest to them, whose
  order is the same.
\<close>

section \<open>Risk\<close>

datatype risk_label =
    WriteOutsideWorkspace | MutateTrackedFile | DestructiveCommand | SensitivePath | NetworkFetch
  | SensitiveRead | ExpiredGrant

datatype risk_level = LowRisk | MediumRisk | HighRisk

record risk_factor =
  rf_label :: risk_label
  rf_weight :: rat

text \<open>A double that is clamped to the unit interval: not a number stays not a number.\<close>

datatype score = Score rat | ScoreNaN

record risk =
  rk_score :: score
  rk_factors :: "risk_factor list"

fun clamp01 :: "score \<Rightarrow> score" where
  "clamp01 (Score x) = Score (max 0 (min 1 x))"
| "clamp01 ScoreNaN = ScoreNaN"

fun level_from_score :: "score \<Rightarrow> risk_level" where
  "level_from_score (Score s) =
     (if s < 33 / 100 then LowRisk else if s < 66 / 100 then MediumRisk else HighRisk)"
| "level_from_score ScoreNaN = HighRisk"

fun level_label :: "risk_level \<Rightarrow> rstr" where
  "level_label LowRisk = lit ''low''"
| "level_label MediumRisk = lit ''medium''"
| "level_label HighRisk = lit ''high''"

definition risk_new :: "score \<Rightarrow> risk_factor list \<Rightarrow> risk" where
  "risk_new s factors = \<lparr>rk_score = clamp01 s, rk_factors = factors\<rparr>"

definition risk_low :: risk where
  "risk_low = \<lparr>rk_score = Score 0, rk_factors = []\<rparr>"

definition risk_high :: risk where
  "risk_high = \<lparr>rk_score = Score 1, rk_factors = []\<rparr>"

definition risk_level_of :: "risk \<Rightarrow> risk_level" where
  "risk_level_of r = level_from_score (rk_score r)"

fun label_str :: "risk_label \<Rightarrow> rstr" where
  "label_str WriteOutsideWorkspace = lit ''write-outside-workspace''"
| "label_str MutateTrackedFile = lit ''mutate-tracked-file''"
| "label_str DestructiveCommand = lit ''destructive-command''"
| "label_str SensitivePath = lit ''sensitive-path''"
| "label_str NetworkFetch = lit ''network-fetch''"
| "label_str SensitiveRead = lit ''sensitive-read''"
| "label_str ExpiredGrant = lit ''expired-grant''"

section \<open>The heuristic judge\<close>

record heuristic_judge =
  hj_workspace :: "rstr option"
  hj_destructive :: "rstr list"
  hj_sensitive :: "rstr list"

definition heuristic_default :: heuristic_judge where
  "heuristic_default =
     \<lparr>hj_workspace = None,
      hj_destructive = [lit ''rm -rf'', lit ''rm -fr'', lit ''git push --force'', lit ''git push -f'',
        lit ''git reset --hard'', lit '':(){ :|:& };:'', lit ''mkfs'', lit ''dd if=/dev/zero of=/dev/''],
      hj_sensitive = [lit ''.ssh'', lit ''.env'', lit ''id_rsa'', lit ''id_ed25519'', lit ''credential'',
        lit ''secret'', lit ''token'', lit ''password'', lit ''.pem'', lit ''.key'', lit ''aws'']\<rparr>"

text \<open>\<open>canonicalize\<close> asks the file system: the parameter \<open>canon\<close>.\<close>

definition is_outside_workspace :: "(rstr \<Rightarrow> rstr option) \<Rightarrow> heuristic_judge \<Rightarrow> rstr \<Rightarrow> bool" where
  "is_outside_workspace canon j path =
     (case hj_workspace j of
        None \<Rightarrow> False
      | Some ws \<Rightarrow>
          (case (canon path, canon ws) of
             (Some p, Some w) \<Rightarrow> path_strip_prefix p w = None
           | _ \<Rightarrow> \<not> starts_with path ws))"

definition contains_marker :: "rstr list \<Rightarrow> rstr \<Rightarrow> bool" where
  "contains_marker markers s \<longleftrightarrow>
     list_ex (\<lambda>m. str_contains (to_lowercase s) (to_lowercase m)) markers"

definition has_destructive :: "heuristic_judge \<Rightarrow> rstr \<Rightarrow> bool" where
  "has_destructive j command = contains_marker (hj_destructive j) command"

definition touches_sensitive :: "heuristic_judge \<Rightarrow> rstr \<Rightarrow> bool" where
  "touches_sensitive j path = contains_marker (hj_sensitive j) path"

text \<open>\<open>Path::file_name\<close> and \<open>Path::extension\<close>; 46 is the dot, 47 the slash.\<close>

definition path_file_name :: "rstr \<Rightarrow> rstr option" where
  "path_file_name path =
     (case dropWhile dull_piece (rev (split_on 47 path)) of
        [] \<Rightarrow> None
      | p # _ \<Rightarrow> if p = [46, 46] then None else Some p)"

definition path_extension :: "rstr \<Rightarrow> rstr option" where
  "path_extension path =
     Option.bind (path_file_name path) (\<lambda>name.
       let parts = split_on 46 name
       in if length parts < 2 \<or> length parts = 2 \<and> hd parts = [] then None else Some (last parts))"

definition is_tracked_file :: "rstr \<Rightarrow> bool" where
  "is_tracked_file path =
     (case path_extension path of
        None \<Rightarrow> False
      | Some e \<Rightarrow> e \<in> {lit ''rs'', lit ''toml'', lit ''ts'', lit ''tsx'', lit ''js'', lit ''jsx'', lit ''py'', lit ''go'',
          lit ''c'', lit ''h'', lit ''cpp'', lit ''hpp'', lit ''json'', lit ''yaml'', lit ''yml''})"

fun heuristic_factors ::
  "(rstr \<Rightarrow> rstr option) \<Rightarrow> heuristic_judge \<Rightarrow> permission_operation \<Rightarrow> risk_factor list" where
  "heuristic_factors canon j (OpWrite path _ _) =
     (if is_outside_workspace canon j path then [\<lparr>rf_label = WriteOutsideWorkspace, rf_weight = 7 / 10\<rparr>]
      else if touches_sensitive j path then [\<lparr>rf_label = SensitivePath, rf_weight = 9 / 10\<rparr>]
      else if is_tracked_file path then [\<lparr>rf_label = MutateTrackedFile, rf_weight = 4 / 10\<rparr>]
      else [])"
| "heuristic_factors canon j (OpRead path _ _) =
     (if touches_sensitive j path then [\<lparr>rf_label = SensitiveRead, rf_weight = 8 / 10\<rparr>] else [])"
| "heuristic_factors canon j (OpExecute command _) =
     (if has_destructive j command then [\<lparr>rf_label = DestructiveCommand, rf_weight = 95 / 100\<rparr>] else [])
     @ (if contains_marker (hj_sensitive j) command
        then [\<lparr>rf_label = SensitivePath, rf_weight = 1 / 2\<rparr>] else [])"
| "heuristic_factors canon j (OpFetch _ _ _) = [\<lparr>rf_label = NetworkFetch, rf_weight = 1 / 2\<rparr>]"

definition heuristic_score ::
  "(rstr \<Rightarrow> rstr option) \<Rightarrow> heuristic_judge \<Rightarrow> permission_operation \<Rightarrow> risk" where
  "heuristic_score canon j oper =
     (let factors = heuristic_factors canon j oper
      in risk_new (Score (foldl max 0 (map rf_weight factors))) factors)"

section \<open>Session modes\<close>

datatype session_mode = PlanMode | BuildMode | AcceptEdits | Yolo

definition forces_confirm_for_side_effects :: "session_mode \<Rightarrow> bool" where
  "forces_confirm_for_side_effects m \<longleftrightarrow> m = PlanMode"

definition downgrades_confirm_to_allow :: "session_mode \<Rightarrow> bool" where
  "downgrades_confirm_to_allow m \<longleftrightarrow> m = Yolo"

definition is_plan :: "session_mode \<Rightarrow> bool" where
  "is_plan m \<longleftrightarrow> m = PlanMode"

definition mode_apply :: "session_mode \<Rightarrow> permission \<Rightarrow> bool \<Rightarrow> permission" where
  "mode_apply m rule is_side_effecting =
     (if m = PlanMode \<and> is_side_effecting then Confirm
      else if m = Yolo \<and> rule = Confirm then Allow
      else rule)"

fun display_mode :: "session_mode \<Rightarrow> rstr" where
  "display_mode PlanMode = lit ''plan''"
| "display_mode BuildMode = lit ''build''"
| "display_mode AcceptEdits = lit ''accept-edits''"
| "display_mode Yolo = lit ''yolo''"

section \<open>The adjudicator\<close>

fun op_is_side_effecting :: "permission_operation \<Rightarrow> bool" where
  "op_is_side_effecting (OpRead _ _ _) = False"
| "op_is_side_effecting _ = True"

fun op_desc :: "permission_operation \<Rightarrow> rstr" where
  "op_desc (OpWrite path _ _) = lit ''write '' @ path"
| "op_desc (OpRead path _ _) = lit ''read '' @ path"
| "op_desc (OpExecute command _) = lit ''exec '' @
     (case split_whitespace command of w # _ \<Rightarrow> w | [] \<Rightarrow> lit ''cmd'')"
| "op_desc (OpFetch url _ _) = lit ''fetch '' @ url"

record rule_verdict =
  rv_verdict :: permission
  rv_risk :: risk
  rv_reason :: rstr
  rv_session_adjusted :: bool

definition verdict_is_allowed :: "rule_verdict \<Rightarrow> bool" where
  "verdict_is_allowed v \<longleftrightarrow> rv_verdict v = Allow"

definition verdict_requires_confirm :: "rule_verdict \<Rightarrow> bool" where
  "verdict_requires_confirm v \<longleftrightarrow> rv_verdict v = Confirm"

datatype session_adjust = AdjustNone | AdjustConfirm | AdjustAllow

definition mode_gate :: "session_mode \<Rightarrow> permission_operation \<Rightarrow> session_adjust" where
  "mode_gate m oper =
     (if is_plan m then AdjustConfirm
      else if forces_confirm_for_side_effects m \<and> op_is_side_effecting oper then AdjustConfirm
      else if downgrades_confirm_to_allow m then AdjustAllow
      else AdjustNone)"

definition build_reason :: "session_mode \<Rightarrow> permission_operation \<Rightarrow> risk \<Rightarrow> bool \<Rightarrow> rstr" where
  "build_reason m oper r session_adjusted =
     (let parts = [lit ''risk='' @ level_label (risk_level_of r)]
            @ map (\<lambda>f. label_str (rf_label f)) (take 2 (rk_factors r))
            @ (if session_adjusted then [lit ''mode='' @ display_mode m] else [])
      in op_desc oper @ lit '': '' @ join (lit '', '') parts)"

text \<open>The verdict, and what is recorded in the ledger (\<open>AdjudicatorEffect\<close>).\<close>

definition adjudicate ::
  "(permission_operation \<Rightarrow> risk) \<Rightarrow> session_mode \<Rightarrow> permission_operation
     \<Rightarrow> (permission_operation \<Rightarrow> permission) \<Rightarrow> (permission_operation \<times> rule_verdict) list
     \<Rightarrow> rule_verdict \<times> (permission_operation \<times> rule_verdict) list" where
  "adjudicate judge m oper policy ledger =
     (let mode_forces = mode_gate m oper;
          verdict = policy oper;
          r = judge oper;
          (verdict, session_adjusted) =
            (if mode_forces = AdjustConfirm \<and> verdict \<noteq> Deny then (Confirm, True)
             else if mode_forces = AdjustAllow \<and> verdict = Confirm then (Allow, True)
             else (verdict, False));
          rule = \<lparr>rv_verdict = verdict, rv_risk = r, rv_reason = build_reason m oper r session_adjusted,
            rv_session_adjusted = session_adjusted\<rparr>
      in (rule, ledger @ [(oper, rule)]))"

section \<open>A model's verdict\<close>

record judgement =
  jd_risk :: risk
  jd_explanation :: rstr
  jd_level :: risk_level
  jd_parse_failed :: bool

definition judgement_unparsed :: "rstr \<Rightarrow> judgement" where
  "judgement_unparsed raw =
     \<lparr>jd_risk = risk_high, jd_explanation = lit ''Model verdict unparsed: '' @ raw, jd_level = HighRisk,
      jd_parse_failed = True\<rparr>"

definition resolved_level :: "score \<Rightarrow> rstr \<Rightarrow> risk_level" where
  "resolved_level s label =
     (if label = lit ''low'' then LowRisk
      else if label = lit ''medium'' then MediumRisk
      else if label = lit ''high'' then HighRisk
      else if label = lit ''critical'' then HighRisk
      else if label = lit ''moderate'' then MediumRisk
      else if label = lit ''safe'' then LowRisk
      else level_from_score s)"

text \<open>\<open>splitn(3, '|')\<close> with the missing parts empty; 124 is the bar.\<close>

definition split3 :: "rstr \<Rightarrow> rstr \<times> rstr \<times> rstr" where
  "split3 body =
     (case split_on 124 body of
        [] \<Rightarrow> ([], [], [])
      | [a] \<Rightarrow> (a, [], [])
      | [a, b] \<Rightarrow> (a, b, [])
      | a # b # rest \<Rightarrow> (a, b, join [124] rest))"

text \<open>\<open>parse_f64\<close> is \<open>str::parse::<f64>\<close>; an infinity is any score outside the unit interval.\<close>

definition parse_judgement :: "(rstr \<Rightarrow> score option) \<Rightarrow> rstr \<Rightarrow> judgement" where
  "parse_judgement parse_f64 raw =
     (let trimmed = str_trim raw;
          body = (case strip_prefix (lit ''RISK:'') trimmed of
              Some b \<Rightarrow> b
            | None \<Rightarrow> (case strip_prefix (lit ''risk:'') trimmed of Some b \<Rightarrow> b | None \<Rightarrow> trimmed));
          (s, l, e) = split3 body;
          label = str_trim l; explanation = str_trim e
      in case parse_f64 (str_trim s) of
           Some x \<Rightarrow>
             let clamped = clamp01 x;
                 label = (if label = [] then level_label (level_from_score clamped) else label)
             in \<lparr>jd_risk = risk_new clamped [], jd_explanation = explanation,
                  jd_level = resolved_level clamped label, jd_parse_failed = False\<rparr>
         | None \<Rightarrow>
             let low = to_lowercase trimmed;
                 level = (if str_contains low (lit ''critical'') \<or> str_contains low (lit ''high'') then HighRisk
                   else if str_contains low (lit ''medium'') \<or> str_contains low (lit ''moderate'') then MediumRisk
                   else LowRisk);
                 x = (case level of HighRisk \<Rightarrow> 3 / 4 | MediumRisk \<Rightarrow> 4 / 10 | LowRisk \<Rightarrow> 1 / 10)
             in \<lparr>jd_risk = risk_new (Score x) [], jd_explanation = explanation, jd_level = level,
                  jd_parse_failed = False\<rparr>)"

definition build_prompt :: "rstr \<Rightarrow> rstr" where
  "build_prompt operation_desc =
     lit ''You are a code-safety adjudicator. Judge this agent operation for risk.'' @ [10]
     @ lit ''Operation: '' @ operation_desc @ [10]
     @ lit ''Reply with exactly one line: RISK:<0.0..1.0>|<low|medium|high|critical>|<reason>''"

text \<open>\<open>LlmRiskJudge::judge\<close>: the driver's answer or the text of its error.\<close>

definition llm_judge :: "(rstr \<Rightarrow> score option) \<Rightarrow> (rstr \<Rightarrow> rstr + rstr) \<Rightarrow> rstr \<Rightarrow> judgement" where
  "llm_judge parse_f64 driver operation_desc =
     (case driver (build_prompt operation_desc) of
        Inr raw \<Rightarrow>
          let j = parse_judgement parse_f64 raw
          in if rk_score (jd_risk j) = ScoreNaN then judgement_unparsed raw else j
      | Inl e \<Rightarrow> judgement_unparsed (lit ''ERR: '' @ e))"

definition keyword_score :: "rstr \<Rightarrow> rat" where
  "keyword_score prompt =
     (let text1 = to_lowercase prompt
      in if str_contains text1 (lit ''rm -rf'') \<or> str_contains text1 (lit ''git push --force'')
            \<or> str_contains text1 (lit ''.env'') \<or> str_contains text1 (lit ''.ssh'')
            \<or> str_contains text1 (lit ''format c:'') then 95 / 100
         else if str_contains text1 (lit ''delete'') \<or> str_contains text1 (lit ''force'')
            \<or> str_contains text1 (lit ''overwrite'') then 6 / 10
         else if str_contains text1 (lit ''write'') \<or> str_contains text1 (lit ''create'')
            \<or> str_contains text1 (lit ''modify'') then 3 / 10
         else 5 / 100)"

text \<open>\<open>fmt_f64\<close> is the formatting of a double.\<close>

definition keyword_driver :: "(rat \<Rightarrow> rstr) \<Rightarrow> rstr \<Rightarrow> rstr + rstr" where
  "keyword_driver fmt_f64 prompt =
     (let s = keyword_score prompt;
          label = (if 8 / 10 \<le> s then lit ''high'' else if 1 / 2 \<le> s then lit ''medium'' else lit ''low'')
      in Inr (lit ''RISK:'' @ fmt_f64 s @ [124] @ label @ [124] @ lit ''heuristic keyword fallback''))"

section \<open>Breaking ties by the sandbox\<close>

record sandbox_policy =
  sp_active :: bool
  sp_network_isolated :: bool
  sp_workspace_confined :: bool

definition sandbox_fully_containing :: sandbox_policy where
  "sandbox_fully_containing =
     \<lparr>sp_active = True, sp_network_isolated = True, sp_workspace_confined = True\<rparr>"

definition sandbox_none :: sandbox_policy where
  "sandbox_none = \<lparr>sp_active = False, sp_network_isolated = False, sp_workspace_confined = False\<rparr>"

definition can_contain :: "sandbox_policy \<Rightarrow> bool" where
  "can_contain cap \<longleftrightarrow> sp_active cap \<and> sp_network_isolated cap \<and> sp_workspace_confined cap"

datatype tie_break = TieAllow | TieConfirm

definition break_tie :: "sandbox_policy \<Rightarrow> tie_break" where
  "break_tie cap = (if can_contain cap then TieAllow else TieConfirm)"

text \<open>\<open>fmt\<close> formats the score with two decimals.\<close>

definition tie_break_reason :: "('s \<Rightarrow> rstr) \<Rightarrow> tie_break \<Rightarrow> sandbox_policy \<Rightarrow> 's \<Rightarrow> rstr" where
  "tie_break_reason fmt decision cap s =
     (let display = (\<lambda>b. if b then lit ''true'' else lit ''false'')
      in case decision of
           TieAllow \<Rightarrow> lit ''sandbox-contained (net='' @ display (sp_network_isolated cap) @ lit '', fs=''
             @ display (sp_workspace_confined cap) @ lit ''): allowed ambiguous score '' @ fmt s
         | TieConfirm \<Rightarrow>
             if \<not> sp_active cap then lit ''no OS sandbox active: confirm ambiguous score '' @ fmt s
             else if \<not> sp_network_isolated cap
             then lit ''sandbox not network-isolated (exfil risk): confirm score '' @ fmt s
             else lit ''sandbox not workspace-confined (write risk): confirm score '' @ fmt s)"

definition gap_label :: "sandbox_policy \<Rightarrow> risk_label" where
  "gap_label cap = (if \<not> sp_network_isolated cap then NetworkFetch else SensitivePath)"

definition append_tie_break_factor :: "risk \<Rightarrow> sandbox_policy \<Rightarrow> risk" where
  "append_tie_break_factor r cap =
     (if can_contain cap then r
      else r\<lparr>rk_factors := rk_factors r @ [\<lparr>rf_label = gap_label cap,
             rf_weight = (if sp_active cap then 12 / 100 else 25 / 100)\<rparr>]\<rparr>)"

section \<open>Learned decisions\<close>

record learned_decision =
  ld_key :: rstr
  ld_override :: permission
  ld_strength :: nat
  ld_reason :: "rstr option"
  ld_risk_level :: "risk_level option"
  ld_factors :: "risk_factor list"

text \<open>
  The store: the index in memory and the lines of the file, each the decision it is the JSON of;
  an absent file has no lines. \<open>writable\<close> says whether the append succeeds.
\<close>

record learning_store =
  ls_index :: "rstr \<Rightarrow> learned_decision option"
  ls_file :: "learned_decision list"

definition load_entries :: "learned_decision list \<Rightarrow> rstr \<Rightarrow> learned_decision option" where
  "load_entries ds = foldl (\<lambda>m d. m(ld_key d \<mapsto> d)) Map.empty ds"

definition learning_open :: "learned_decision list \<Rightarrow> learning_store" where
  "learning_open file = \<lparr>ls_index = load_entries file, ls_file = file\<rparr>"

definition learning_get :: "learning_store \<Rightarrow> rstr \<Rightarrow> learned_decision option" where
  "learning_get st key = ls_index st key"

definition learned_update ::
  "learned_decision option \<Rightarrow> rstr \<Rightarrow> permission \<Rightarrow> rstr option \<Rightarrow> risk_level option
     \<Rightarrow> risk_factor list \<Rightarrow> learned_decision" where
  "learned_update existing key override reason level factors =
     (case existing of
        Some prev \<Rightarrow>
          if ld_override prev = override
          then prev\<lparr>ld_strength := ld_strength prev + 1,
                 ld_reason := (case reason of Some r \<Rightarrow> Some r | None \<Rightarrow> ld_reason prev),
                 ld_risk_level := (case level of Some l \<Rightarrow> Some l | None \<Rightarrow> ld_risk_level prev),
                 ld_factors := (if factors \<noteq> [] then factors else ld_factors prev)\<rparr>
          else \<lparr>ld_key = key, ld_override = override, ld_strength = 1, ld_reason = reason,
                 ld_risk_level = level, ld_factors = factors\<rparr>
      | None \<Rightarrow> \<lparr>ld_key = key, ld_override = override, ld_strength = 1, ld_reason = reason,
                 ld_risk_level = level, ld_factors = factors\<rparr>)"

definition learning_record ::
  "bool \<Rightarrow> rstr \<Rightarrow> permission \<Rightarrow> rstr option \<Rightarrow> risk_level option \<Rightarrow> risk_factor list
     \<Rightarrow> learning_store \<Rightarrow> (unit + unit) \<times> learning_store" where
  "learning_record writable key override reason level factors st =
     (let decision = learned_update (ls_index st key) key override reason level factors;
          previous = ls_index st key;
          st = st\<lparr>ls_index := (ls_index st)(key \<mapsto> decision)\<rparr>
      in if previous = None
         then if writable then (Inr (), st\<lparr>ls_file := ls_file st @ [decision]\<rparr>) else (Inl (), st)
         else (Inr (), st))"

definition learning_demote :: "rstr \<Rightarrow> learning_store \<Rightarrow> bool \<times> learning_store" where
  "learning_demote key st =
     (ls_index st key \<noteq> None, st\<lparr>ls_index := (ls_index st)(key := None)\<rparr>)"

section \<open>Properties\<close>

text \<open>C28: What the guardian does to the decision of the rule engine: a denial stays a denial in every
  mode, plan mode turns everything else into a question, yolo mode turns questions into
  permissions, and the other two modes change nothing; every verdict is recorded. The pure gate
  of the session mode agrees with it except in plan mode, where it turns a denial of a side
  effect into a question and lets an allowed read pass.\<close>

theorem adjudicate_decides:
  "rv_verdict (fst (adjudicate judge m oper policy ledger)) =
     (if m = PlanMode then (if policy oper = Deny then Deny else Confirm)
      else if m = Yolo \<and> policy oper = Confirm then Allow else policy oper)
   \<and> snd (adjudicate judge m oper policy ledger) = ledger @ [(oper, fst (adjudicate judge m oper policy ledger))]
   \<and> (rv_verdict (fst (adjudicate judge m oper policy ledger))
        = mode_apply m (policy oper) (op_is_side_effecting oper)
      \<longleftrightarrow> \<not> (m = PlanMode \<and> policy oper = (if op_is_side_effecting oper then Deny else Allow)))"
  by (cases m; cases "policy oper")
    (simp_all add: adjudicate_def Let_def mode_gate_def is_plan_def forces_confirm_for_side_effects_def
      downgrades_confirm_to_allow_def mode_apply_def)

text \<open>The levels of the heuristic judge, for every judge and operation: high for a write outside the
  workspace or to a sensitive path, a read of a sensitive path and a destructive command; medium
  for a write to a source file, a command that names a sensitive path and a fetch; low for the rest.\<close>

theorem heuristic_levels:
  "risk_level_of (heuristic_score canon j oper) =
     (case oper of
        OpWrite path _ _ \<Rightarrow>
          if is_outside_workspace canon j path \<or> touches_sensitive j path then HighRisk
          else if is_tracked_file path then MediumRisk else LowRisk
      | OpRead path _ _ \<Rightarrow> if touches_sensitive j path then HighRisk else LowRisk
      | OpExecute command _ \<Rightarrow>
          if has_destructive j command then HighRisk
          else if contains_marker (hj_sensitive j) command then MediumRisk else LowRisk
      | OpFetch _ _ _ \<Rightarrow> MediumRisk)"
  by (cases oper) (simp_all add: heuristic_score_def risk_level_of_def risk_new_def Let_def)

text \<open>An answer of the model that cannot be read is taken for a low risk: if the answer has no score
  and none of the words for the levels, the judgement is low and not marked as unparsed, while
  a driver that fails gives a high risk.\<close>

theorem unreadable_verdict_is_low:
  assumes "driver (build_prompt d) = Inr raw"
    and "\<And>s. parse_f64 s = None"
    and "\<And>w. w \<in> {lit ''critical'', lit ''high'', lit ''medium'', lit ''moderate''} \<Longrightarrow>
      \<not> str_contains (to_lowercase (str_trim raw)) w"
  shows "jd_level (llm_judge parse_f64 driver d) = LowRisk
    \<and> jd_risk (llm_judge parse_f64 driver d) = risk_new (Score (1 / 10)) []
    \<and> \<not> jd_parse_failed (llm_judge parse_f64 driver d)
    \<and> jd_level (llm_judge parse_f64 (\<lambda>_. Inl e) d) = HighRisk"
  using assms
  by (simp add: llm_judge_def parse_judgement_def judgement_unparsed_def Let_def risk_new_def split_beta)

text \<open>What the file would give back after a restart.\<close>

definition reloaded :: "learning_store \<Rightarrow> learning_store" where
  "reloaded st = learning_open (ls_file st)"

definition durable :: "learning_store \<Rightarrow> bool" where
  "durable st \<longleftrightarrow> (\<forall>key. map_option ld_override (learning_get (reloaded st) key) = map_option ld_override (learning_get st key))
     \<and> (\<forall>key d. ls_index st key = Some d \<longrightarrow> ld_key d = key)"

lemma load_entries_snoc: "load_entries (ds @ [d]) = (load_entries ds)(ld_key d \<mapsto> d)"
  by (simp add: load_entries_def)

lemma learned_update_key:
  "existing = None \<or> ld_key (the existing) = key \<Longrightarrow>
     ld_key (learned_update existing key override reason level factors) = key
   \<and> ld_override (learned_update existing key override reason level factors) = override"
  by (cases existing) (simp_all add: learned_update_def)

text \<open>Learning is durable only for decisions that are never changed: recording a decision that is new
  or repeats the last one keeps what the file would give back in step with the index; recording a
  different decision for a known key changes the index and not the file, so that after a restart the
  old decision is back.\<close>

theorem changed_decision_is_lost:
  assumes "durable st"
  shows "(durable (snd (learning_record True key override reason level factors st)) \<longleftrightarrow>
      (ls_index st key = None \<or> map_option ld_override (ls_index st key) = Some override))
    \<and> map_option ld_override (learning_get (snd (learning_record True key override reason level factors st)) key)
      = Some override"
proof -
  define d where "d = learned_update (ls_index st key) key override reason level factors"
  have keys: "ld_key x = k" if "ls_index st k = Some x" for k x
    using assms that by (simp add: durable_def)
  have agree: "map_option ld_override (load_entries (ls_file st) k) = map_option ld_override (ls_index st k)" for k
    using assms by (simp add: durable_def reloaded_def learning_open_def learning_get_def)
  have d: "ld_key d = key" "ld_override d = override"
    unfolding d_def using learned_update_key [of "ls_index st key" key override reason level factors] keys
    by (cases "ls_index st key"; simp)+
  have rec: "snd (learning_record True key override reason level factors st) =
      \<lparr>ls_index = (ls_index st)(key \<mapsto> d),
       ls_file = (if ls_index st key = None then ls_file st @ [d] else ls_file st)\<rparr>"
    by (simp add: learning_record_def Let_def d_def)
  have "durable (snd (learning_record True key override reason level factors st)) \<longleftrightarrow>
      (ls_index st key = None \<or> map_option ld_override (ls_index st key) = Some override)"
    unfolding rec using keys d agree
    by (auto simp: durable_def reloaded_def learning_open_def learning_get_def load_entries_snoc)
  then show ?thesis
    unfolding rec using d by (simp add: learning_get_def)
qed

section \<open>Witnesses\<close>

theorem unreadable_verdict_is_low_witness:
  "jd_level (llm_judge (\<lambda>_. None) (\<lambda>_. Inr (lit ''I cannot judge this'')) (lit ''exec rm'')) = LowRisk"
proof -
  have "\<not> str_contains (to_lowercase (str_trim (lit ''I cannot judge this''))) (lit ''critical'')"
    "\<not> str_contains (to_lowercase (str_trim (lit ''I cannot judge this''))) (lit ''high'')"
    "\<not> str_contains (to_lowercase (str_trim (lit ''I cannot judge this''))) (lit ''medium'')"
    "\<not> str_contains (to_lowercase (str_trim (lit ''I cannot judge this''))) (lit ''moderate'')"
    by code_simp+
  then show ?thesis
    using unreadable_verdict_is_low [of "\<lambda>_. Inr (lit ''I cannot judge this'')" "lit ''exec rm''"
        "lit ''I cannot judge this''" "\<lambda>_. None" "[]"] by auto
qed

definition demo_decision :: learned_decision where
  "demo_decision = \<lparr>ld_key = lit ''write:/x'', ld_override = Allow, ld_strength = 1, ld_reason = None,
     ld_risk_level = None, ld_factors = []\<rparr>"

theorem changed_decision_is_lost_witness:
  "\<not> durable (snd (learning_record True (lit ''write:/x'') Deny None None [] (learning_open [demo_decision])))"
proof -
  have "durable (learning_open [demo_decision])"
    by (auto simp: durable_def reloaded_def learning_open_def load_entries_def split: if_splits)
  from changed_decision_is_lost [OF this, of "lit ''write:/x''" Deny None None "[]"]
  show ?thesis by (simp add: learning_open_def load_entries_def demo_decision_def)
qed

end
