(* ===== verification/Permissions.thy ===== *)
theory Permissions
  imports Guardian Effects
begin

text \<open>
  \<open>forge_services/src/policy.rs\<close>: the permission of an operation, decided by the policies of the
  permissions file, created on first use, or by the user, whose choice may be remembered. The file
  system, the prompt, the YAML codec and the URL parser are the record \<open>policy_infra\<close>; the
  recursion of \<open>get_or_create_policies\<close> may not end and is a partial function.
\<close>

section \<open>The service\<close>

datatype policy_choice = Accept | Reject | AcceptAndRemember

record policy_decision =
  pd_allowed :: bool
  pd_path :: "rstr option"

record ('w, 'e) policy_infra =
  pi_exists :: "('w, 'e, bool) act"
  pi_read :: "('w, 'e, rstr) act"
  pi_write :: "rstr \<Rightarrow> ('w, 'e, unit) act"
  pi_select :: "rstr \<Rightarrow> ('w, 'e, policy_choice option) act"
  pi_guardian :: bool
  pi_parse :: "rstr \<Rightarrow> 'e + policy_config"
  pi_print :: "policy_config \<Rightarrow> 'e + rstr"
  pi_permissions_path :: rstr
  pi_url_host :: "rstr \<Rightarrow> rstr option option"
  pi_glob :: globber

text \<open>\<open>permissions.default.yaml\<close>, read into the sorted set.\<close>

definition default_policies :: policy_config where
  "default_policies = foldl add_policy config_new
     [Simple Allow (RRead (lit ''**/*'') None), Simple Allow (RWrite (lit ''**/*'') None),
      Simple Allow (RExecute (lit ''*'') None), Simple Allow (RFetch (lit ''*'') None)]"

definition create_file_policy :: "rstr \<Rightarrow> (rstr \<Rightarrow> rule) \<Rightarrow> policy option" where
  "create_file_policy path rule_constructor =
     map_option (\<lambda>extension. Simple Allow (rule_constructor (lit ''*.'' @ extension))) (path_extension path)"

fun create_policy_for_operation ::
  "(rstr \<Rightarrow> rstr option option) \<Rightarrow> permission_operation \<Rightarrow> rstr option \<Rightarrow> policy option" where
  "create_policy_for_operation url_host (OpRead path _ _) dir =
     create_file_policy path (\<lambda>pat. RRead pat None)"
| "create_policy_for_operation url_host (OpWrite path _ _) dir =
     create_file_policy path (\<lambda>pat. RWrite pat None)"
| "create_policy_for_operation url_host (OpFetch url _ _) dir =
     (case url_host url of
        Some host \<Rightarrow> map_option (\<lambda>h. Simple Allow (RFetch (h @ lit ''*'') None)) host
      | None \<Rightarrow> Some (Simple Allow (RFetch url None)))"
| "create_policy_for_operation url_host (OpExecute command _) dir =
     (case split_whitespace command of
        [] \<Rightarrow> None
      | [cmd] \<Rightarrow> Some (Simple Allow (RExecute (cmd @ lit ''*'') dir))
      | cmd # subcmd # _ \<Rightarrow> Some (Simple Allow (RExecute (cmd @ lit '' '' @ subcmd @ lit ''*'') dir)))"

definition read_policies :: "('w, 'e) policy_infra \<Rightarrow> ('w, 'e, policy_config option) act" where
  "read_policies env =
     andthen (pi_exists env) (\<lambda>found.
       if \<not> found then ret None
       else andthen (pi_read env) (\<lambda>content.
            andthen (lift_sum (pi_parse env content)) (\<lambda>policies. ret (Some policies))))"

definition modify_policy :: "('w, 'e) policy_infra \<Rightarrow> policy \<Rightarrow> ('w, 'e, unit) act" where
  "modify_policy env p =
     andthen (read_policies env) (\<lambda>policies.
       let policies = add_policy (case policies of Some cfg \<Rightarrow> cfg | None \<Rightarrow> config_new) p
       in andthen (lift_sum (pi_print env policies)) (\<lambda>new_content. pi_write env new_content))"

definition init_policies :: "('w, 'e) policy_infra \<Rightarrow> ('w, 'e, unit) act" where
  "init_policies env =
     andthen (pi_exists env) (\<lambda>found.
       if found then ret ()
       else andthen (lift_sum (pi_print env default_policies)) (\<lambda>content. pi_write env content))"

definition add_policy_for_operation ::
  "('w, 'e) policy_infra \<Rightarrow> permission_operation \<Rightarrow> ('w, 'e, rstr option) act" where
  "add_policy_for_operation env oper =
     (case create_policy_for_operation (pi_url_host env) oper None of
        Some new_policy \<Rightarrow> andthen (modify_policy env new_policy) (\<lambda>_. ret (Some (pi_permissions_path env)))
      | None \<Rightarrow> ret None)"

partial_function (option) get_or_create_policies ::
  "('w, 'e) policy_infra \<Rightarrow> 'w \<Rightarrow> (('e abort + policy_config \<times> rstr option) \<times> 'w) option" where
  "get_or_create_policies env w =
     Option.bind (read_policies env w) (\<lambda>(r, w1).
       case r of
         Inl a \<Rightarrow> Some (Inl a, w1)
       | Inr (Some policies) \<Rightarrow> Some (Inr (policies, None), w1)
       | Inr None \<Rightarrow>
           Option.bind (init_policies env w1) (\<lambda>(r2, w2).
             case r2 of
               Inl a \<Rightarrow> Some (Inl a, w2)
             | Inr _ \<Rightarrow>
                 Option.bind (get_or_create_policies env w2) (\<lambda>(r3, w3).
                   case r3 of
                     Inl a \<Rightarrow> Some (Inl a, w3)
                   | Inr (policies, _) \<Rightarrow> Some (Inr (policies, Some (pi_permissions_path env)), w3))))"

fun confirmation_msg :: "permission_operation \<Rightarrow> rstr" where
  "confirmation_msg (OpRead _ _ message) = message @ lit ''. How would you like to proceed?''"
| "confirmation_msg (OpWrite _ _ message) = message @ lit ''. How would you like to proceed?''"
| "confirmation_msg (OpExecute _ _) = lit ''How would you like to proceed?''"
| "confirmation_msg (OpFetch _ _ message) = message @ lit ''. How would you like to proceed?''"

text \<open>The decision of the rules, through the guardian in its build mode when it is enabled.\<close>

definition guarded_permission :: "bool \<Rightarrow> globber \<Rightarrow> policy_config \<Rightarrow> permission_operation \<Rightarrow> permission" where
  "guarded_permission guardian glob policies oper =
     (if guardian
      then rv_verdict (fst (adjudicate (heuristic_score (\<lambda>_. None) heuristic_default) BuildMode oper
             (\<lambda>_. can_perform glob policies oper) []))
      else can_perform glob policies oper)"

definition check_operation_permission ::
  "('w, 'e) policy_infra \<Rightarrow> permission_operation \<Rightarrow> ('w, 'e, policy_decision) act" where
  "check_operation_permission env oper =
     andthen (get_or_create_policies env) (\<lambda>(policies, path).
       case guarded_permission (pi_guardian env) (pi_glob env) policies oper of
         Deny \<Rightarrow> ret \<lparr>pd_allowed = False, pd_path = path\<rparr>
       | Allow \<Rightarrow> ret \<lparr>pd_allowed = True, pd_path = path\<rparr>
       | Confirm \<Rightarrow>
           andthen (pi_select env (confirmation_msg oper)) (\<lambda>choice.
             case choice of
               Some Accept \<Rightarrow> ret \<lparr>pd_allowed = True, pd_path = path\<rparr>
             | Some AcceptAndRemember \<Rightarrow>
                 andthen (add_policy_for_operation env oper) (\<lambda>update_path.
                   ret \<lparr>pd_allowed = True,
                        pd_path = (case update_path of Some p \<Rightarrow> Some p | None \<Rightarrow> path)\<rparr>)
             | _ \<Rightarrow> ret \<lparr>pd_allowed = False, pd_path = path\<rparr>))"

section \<open>The file\<close>

text \<open>
  What is assumed of the environment: a file that holds what was written to it, a user who
  answers, and a codec that reads back every configuration it wrote.
\<close>

definition policy_file :: "('w \<Rightarrow> rstr option) \<Rightarrow> ('w, 'e) policy_infra \<Rightarrow> bool" where
  "policy_file file env \<longleftrightarrow>
     (\<forall>w. pi_exists env w = Some (Inr (file w \<noteq> None), w))
   \<and> (\<forall>w s. file w = Some s \<longrightarrow> pi_read env w = Some (Inr s, w))
   \<and> (\<forall>w s. \<exists>w'. pi_write env s w = Some (Inr (), w') \<and> file w' = Some s)
   \<and> (\<forall>w q. \<exists>choice w'. pi_select env q w = Some (Inr choice, w') \<and> file w' = file w)
   \<and> (\<forall>cfg. config_inv cfg \<longrightarrow> (\<exists>s. pi_print env cfg = Inr s \<and> pi_parse env s = Inr cfg))"

text \<open>The configuration the file of a world holds.\<close>

definition holds_config :: "('w \<Rightarrow> rstr option) \<Rightarrow> ('w, 'e) policy_infra \<Rightarrow> 'w \<Rightarrow> policy_config \<Rightarrow> bool" where
  "holds_config file env w cfg \<longleftrightarrow>
     config_inv cfg \<and> (\<exists>s. file w = Some s \<and> pi_parse env s = Inr cfg)"

lemma guarded_permission_eq [simp]: "guarded_permission guardian glob cfg oper = can_perform glob cfg oper"
  by (simp add: guarded_permission_def adjudicate_def mode_gate_def is_plan_def Let_def
      forces_confirm_for_side_effects_def downgrades_confirm_to_allow_def)

lemma default_policies_inv: "config_inv default_policies"
proof -
  have "config_inv config_new" by (simp add: config_inv_def config_new_def)
  from config_inv_adds [OF this] show ?thesis by (simp only: default_policies_def)
qed

lemma read_policies_apply:
  assumes "policy_file file env"
  shows "holds_config file env w cfg \<Longrightarrow> read_policies env w = Some (Inr (Some cfg), w)"
    and "file w = None \<Longrightarrow> read_policies env w = Some (Inr None, w)"
  using assms
  by (auto simp: policy_file_def holds_config_def read_policies_def lift_sum_def andthen_def ret_def)

lemma write_config:
  assumes "policy_file file env" "config_inv cfg"
  shows "\<exists>s w'. pi_print env cfg = Inr s \<and> pi_write env s w = Some (Inr (), w') \<and> holds_config file env w' cfg"
proof -
  obtain s where s: "pi_print env cfg = Inr s" "pi_parse env s = Inr cfg"
    using assms by (auto simp: policy_file_def)
  moreover obtain w' where "pi_write env s w = Some (Inr (), w')" "file w' = Some s"
    using assms(1) unfolding policy_file_def by blast
  ultimately show ?thesis using assms(2) by (auto simp: holds_config_def)
qed

lemma get_policies_existing:
  "policy_file file env \<Longrightarrow> holds_config file env w cfg \<Longrightarrow>
     get_or_create_policies env w = Some (Inr (cfg, None), w)"
  by (subst get_or_create_policies.simps) (simp add: read_policies_apply)

lemma get_policies_fresh:
  assumes "policy_file file env" "file w = None"
  shows "\<exists>w'. get_or_create_policies env w = Some (Inr (default_policies, Some (pi_permissions_path env)), w')
    \<and> holds_config file env w' default_policies"
proof -
  obtain s w' where w': "pi_print env default_policies = Inr s" "pi_write env s w = Some (Inr (), w')"
    "holds_config file env w' default_policies"
    using write_config [OF assms(1) default_policies_inv] by blast
  have "pi_exists env w = Some (Inr False, w)"
    using assms by (simp add: policy_file_def)
  then have "init_policies env w = Some (Inr (), w')"
    using w' by (simp add: init_policies_def andthen_def lift_sum_def ret_def)
  then show ?thesis
    using w'(3) by (subst get_or_create_policies.simps)
      (simp add: read_policies_apply [OF assms(1)] assms(2) get_policies_existing [OF assms(1)])
qed

lemma modify_policy_apply:
  assumes "policy_file file env" "holds_config file env w cfg"
  shows "\<exists>w'. modify_policy env p w = Some (Inr (), w') \<and> holds_config file env w' (add_policy cfg p)"
proof -
  have "config_inv (add_policy cfg p)"
    using assms(2) by (simp add: holds_config_def config_inv_add)
  from write_config [OF assms(1) this, of w] show ?thesis
    using read_policies_apply(1) [OF assms]
    by (auto simp: modify_policy_def andthen_def lift_sum_def ret_def Let_def)
qed

text \<open>A question stays a question when permissions are added.\<close>

lemma find_map_insort: "f p = None \<Longrightarrow> find_map f (insort_insert p cfg) = find_map f cfg"
proof -
  assume "f p = None"
  then have "find_map f (insort p cfg) = find_map f cfg"
    by (induction cfg) (auto split: option.split)
  then show ?thesis by (simp add: insort_insert_key_def)
qed

lemma confirm_remains:
  assumes "can_perform glob cfg oper = Confirm"
  shows "can_perform glob (add_policy cfg (Simple Allow r)) oper = Confirm"
proof -
  let ?f = "\<lambda>p. case policy_eval glob oper p of Some Allow \<Rightarrow> None | q \<Rightarrow> q"
  have "find_map ?f (add_policy cfg (Simple Allow r)) = find_map ?f cfg"
    unfolding add_policy_def by (rule find_map_insort) simp
  then show ?thesis
    using assms by (simp add: can_perform_refusal split: option.splits if_splits)
qed

lemma remembered_policy_allows: "create_policy_for_operation url_host oper dir = Some p \<Longrightarrow> \<exists>r. p = Simple Allow r"
  by (cases oper) (auto simp: create_file_policy_def split: option.splits list.splits)

section \<open>Properties\<close>

text \<open>C4: An operation is permitted exactly when the policies of the file allow it, or ask and the user
  accepts; the user is asked in no other case, nothing is written unless the user wants the choice
  remembered, and the guardian, when it is enabled, makes no difference.\<close>

theorem permission_check_decides:
  assumes "policy_file file env" "holds_config file env w cfg"
    and "pi_select env (confirmation_msg oper) w = Some (Inr choice, w1)"
  shows "\<exists>d w'. check_operation_permission env oper w = Some (Inr d, w')
    \<and> (pd_allowed d \<longleftrightarrow> can_perform (pi_glob env) cfg oper = Allow
        \<or> can_perform (pi_glob env) cfg oper = Confirm \<and> choice \<in> {Some Accept, Some AcceptAndRemember})
    \<and> (can_perform (pi_glob env) cfg oper \<noteq> Confirm \<longrightarrow> w' = w)
    \<and> (choice \<noteq> Some AcceptAndRemember \<longrightarrow> file w' = file w)"
proof -
  note get = get_policies_existing [OF assms(1,2)]
  obtain w1' choice' where "pi_select env (confirmation_msg oper) w = Some (Inr choice', w1')" "file w1' = file w"
    using assms(1) unfolding policy_file_def by blast
  then have w1: "file w1 = file w" using assms(3) by simp
  then have holds: "holds_config file env w1 cfg"
    using assms(2) by (simp add: holds_config_def)
  have "\<exists>p w2. add_policy_for_operation env oper w1 = Some (Inr p, w2)"
  proof (cases "create_policy_for_operation (pi_url_host env) oper None")
    case None
    then show ?thesis by (simp add: add_policy_for_operation_def ret_def)
  next
    case (Some p)
    with modify_policy_apply [OF assms(1) holds, of p] show ?thesis
      by (auto simp: add_policy_for_operation_def andthen_def ret_def)
  qed
  then show ?thesis
    using get assms(3) w1
    by (cases "can_perform (pi_glob env) cfg oper"; cases choice; (cases "the choice")?)
      (auto simp: check_operation_permission_def andthen_def ret_def)
qed

text \<open>The permissions file is created on first use: the service returns with the default policies
  after one round, the file then holds them, and the next operation finds them there.\<close>

theorem policies_are_created:
  assumes "policy_file file env" "file w = None"
  shows "\<exists>w'. get_or_create_policies env w = Some (Inr (default_policies, Some (pi_permissions_path env)), w')
    \<and> holds_config file env w' default_policies
    \<and> get_or_create_policies env w' = Some (Inr (default_policies, None), w')"
  using get_policies_fresh [OF assms] get_policies_existing [OF assms(1)] by blast

text \<open>The choice to accept and remember is not heeded: the operation is permitted and a policy that
  allows it is added to the file, but the policies go on asking for the very same operation, since
  a policy that asks is found before one that allows counts.\<close>

theorem remembered_choice_is_ignored:
  assumes "policy_file file env" "holds_config file env w cfg"
    and "can_perform (pi_glob env) cfg oper = Confirm"
    and "pi_select env (confirmation_msg oper) w = Some (Inr (Some AcceptAndRemember), w1)"
    and "create_policy_for_operation (pi_url_host env) oper None = Some p"
  shows "\<exists>w'. check_operation_permission env oper w
        = Some (Inr \<lparr>pd_allowed = True, pd_path = Some (pi_permissions_path env)\<rparr>, w')
    \<and> holds_config file env w' (add_policy cfg p) \<and> p \<in> set (add_policy cfg p)
    \<and> can_perform (pi_glob env) (add_policy cfg p) oper = Confirm"
proof -
  obtain w1' choice' where "pi_select env (confirmation_msg oper) w = Some (Inr choice', w1')" "file w1' = file w"
    using assms(1) unfolding policy_file_def by blast
  then have "holds_config file env w1 cfg"
    using assms(2,4) by (simp add: holds_config_def)
  from modify_policy_apply [OF assms(1) this, of p] obtain w' where
    w': "modify_policy env p w1 = Some (Inr (), w')" "holds_config file env w' (add_policy cfg p)" by blast
  have "p \<in> set (add_policy cfg p)" by (simp add: add_policy_def set_insort_insert)
  moreover have "can_perform (pi_glob env) (add_policy cfg p) oper = Confirm"
    using confirm_remains [OF assms(3)] remembered_policy_allows [OF assms(5)] by blast
  moreover have "check_operation_permission env oper w
        = Some (Inr \<lparr>pd_allowed = True, pd_path = Some (pi_permissions_path env)\<rparr>, w')"
    using get_policies_existing [OF assms(1,2)] assms(3-5) w'(1)
    by (simp add: check_operation_permission_def add_policy_for_operation_def andthen_def ret_def)
  ultimately show ?thesis using w'(2) by blast
qed

section \<open>Witnesses\<close>

text \<open>
  A world that is the content of the file, and a user who gives one answer. The codec writes a
  configuration as the tokens of its order, which determine it.
\<close>

definition demo_policy_env :: "policy_choice option \<Rightarrow> (rstr option, unit) policy_infra" where
  "demo_policy_env choice =
     \<lparr>pi_exists = \<lambda>w. Some (Inr (w \<noteq> None), w),
      pi_read = \<lambda>w. Some (case w of Some s \<Rightarrow> Inr s | None \<Rightarrow> Inl (Fail ()), w),
      pi_write = \<lambda>s. update (\<lambda>_. Some s), pi_select = \<lambda>q. ret choice, pi_guardian = True,
      pi_parse = \<lambda>s. Inr (the_inv (\<lambda>cfg. policy_tokens (All cfg)) s),
      pi_print = \<lambda>cfg. Inr (policy_tokens (All cfg)), pi_permissions_path = lit ''/p'',
      pi_url_host = \<lambda>u. None, pi_glob = \<lambda>pat. Some (\<lambda>s. starts_with s (butlast pat))\<rparr>"

lemma demo_codec: "the_inv (\<lambda>cfg. policy_tokens (All cfg)) (policy_tokens (All cfg)) = cfg"
  by (rule the_inv_f_f) (simp_all only: inj_def policy_tokens_inj policy.inject simp_thms)

lemma demo_policy_file: "policy_file id (demo_policy_env choice)"
  by (auto simp: policy_file_def demo_policy_env_def update_def ret_def demo_codec simp del: policy_tokens.simps)

definition demo_asking :: policy_config where
  "demo_asking = [Simple Confirm (RExecute (lit ''*'') None)]"

definition demo_file :: "rstr option" where
  "demo_file = Some (policy_tokens (All demo_asking))"

lemma demo_holds: "holds_config id (demo_policy_env choice) demo_file demo_asking"
  by (simp add: holds_config_def demo_policy_env_def demo_codec demo_file_def config_inv_def demo_asking_def
      del: policy_tokens.simps)

lemma demo_asks: "can_perform (pi_glob (demo_policy_env choice)) demo_asking (OpExecute (lit ''git push'') []) = Confirm"
  by (simp add: demo_policy_env_def demo_asking_def can_perform_def match_pattern_def dir_matches_def lit_def
      starts_with_def)

theorem permission_check_decides_witness:
  "\<exists>d w'. check_operation_permission (demo_policy_env (Some Accept)) (OpExecute (lit ''git push'') []) demo_file
      = Some (Inr d, w') \<and> pd_allowed d"
proof -
  have "pi_select (demo_policy_env (Some Accept)) (confirmation_msg (OpExecute (lit ''git push'') [])) demo_file
      = Some (Inr (Some Accept), demo_file)"
    by (simp add: demo_policy_env_def ret_def)
  from permission_check_decides [OF demo_policy_file demo_holds this] show ?thesis
    by (auto simp: demo_asks)
qed

theorem policies_are_created_witness:
  "\<exists>w'. get_or_create_policies (demo_policy_env None) None
      = Some (Inr (default_policies, Some (pi_permissions_path (demo_policy_env None))), w')"
  using policies_are_created [OF demo_policy_file [of None], of None] by auto

theorem remembered_choice_is_ignored_witness:
  "\<exists>w'. check_operation_permission (demo_policy_env (Some AcceptAndRemember)) (OpExecute (lit ''git push'') []) demo_file
      = Some (Inr \<lparr>pd_allowed = True, pd_path = Some (lit ''/p'')\<rparr>, w')"
proof -
  have p: "create_policy_for_operation (pi_url_host (demo_policy_env (Some AcceptAndRemember)))
      (OpExecute (lit ''git push'') []) None = Some (Simple Allow (RExecute (lit ''git push*'') None))"
    by (simp add: demo_policy_env_def) code_simp
  have "pi_select (demo_policy_env (Some AcceptAndRemember)) q demo_file = Some (Inr (Some AcceptAndRemember), demo_file)" for q
    by (simp add: demo_policy_env_def ret_def)
  from remembered_choice_is_ignored [OF demo_policy_file demo_holds demo_asks this p] show ?thesis
    by (auto simp: demo_policy_env_def)
qed

end
