(* ===== verification/Tool_Registry.thy ===== *)
theory Tool_Registry
  imports Permissions Orchestrator
begin

text \<open>
  Which tools an agent has (\<open>forge_app/src/tool_resolver.rs\<close>) and what happens to a call
  (\<open>tool_registry.rs\<close>, with the guards of \<open>tool_executor.rs\<close> and \<open>ToolResult::output\<close> of
  \<open>forge_domain/src/tools/result.rs\<close>). The services behind the registry are the record
  \<open>registry\<close>; a call acts on the metrics of its tool context and the world, as \<open>sv_call\<close> of the
  agent loop does.
\<close>

section \<open>Resolving tools\<close>

definition deprecated_tool_aliases :: "rstr \<Rightarrow> rstr option" where
  "deprecated_tool_aliases = map_of
     [(lit ''search'', lit ''fs_search''), (lit ''Read'', lit ''read''), (lit ''Write'', lit ''write''),
      (lit ''Task'', lit ''task'')]"

definition current_name :: "rstr \<Rightarrow> rstr" where
  "current_name name = (case deprecated_tool_aliases name of Some n \<Rightarrow> n | None \<Rightarrow> name)"

text \<open>The patterns come out of a hash set: only whether one of them matches is ever asked.\<close>

definition build_patterns :: "globber \<Rightarrow> agent \<Rightarrow> (rstr \<Rightarrow> bool) list" where
  "build_patterns glob a =
     List.map_filter glob (remdups (map current_name (case ag_tools a of Some ts \<Rightarrow> ts | None \<Rightarrow> [])))"

definition is_allowed_pattern :: "(rstr \<Rightarrow> bool) list \<Rightarrow> rstr \<Rightarrow> bool" where
  "is_allowed_pattern patterns tool_name \<longleftrightarrow> list_ex (\<lambda>pat. pat tool_name) patterns"

definition is_allowed :: "globber \<Rightarrow> agent \<Rightarrow> rstr \<Rightarrow> bool" where
  "is_allowed glob a tool_name =
     (let normalized = current_name tool_name;
          patterns = build_patterns glob a
      in is_allowed_pattern patterns normalized
         \<or> (case to_legacy_mcp_name normalized of
              Some legacy \<Rightarrow> is_allowed_pattern patterns legacy
            | None \<Rightarrow> False))"

definition match_tools :: "(rstr \<Rightarrow> bool) list \<Rightarrow> 'v tool_definition list \<Rightarrow> 'v tool_definition list" where
  "match_tools patterns tools = filter (\<lambda>t. is_allowed_pattern patterns (td_name t)) tools"

fun dedupe_from :: "rstr set \<Rightarrow> 'v tool_definition list \<Rightarrow> 'v tool_definition list" where
  "dedupe_from seen [] = []"
| "dedupe_from seen (t # ts) =
     (if td_name t \<in> seen then dedupe_from seen ts
      else t # dedupe_from (insert (td_name t) seen) ts)"

definition dedupe_tools :: "'v tool_definition list \<Rightarrow> 'v tool_definition list" where
  "dedupe_tools tools = dedupe_from {} tools"

definition resolve_tools :: "globber \<Rightarrow> 'v tool_definition list \<Rightarrow> agent \<Rightarrow> 'v tool_definition list" where
  "resolve_tools glob all_tools a =
     sort_tools (agent_tool_order glob a) (dedupe_tools (match_tools (build_patterns glob a) all_tools))"

section \<open>Errors and their results\<close>

datatype 'e reg_error =
    RegFailed 'e
  | RegNotFound rstr
  | RegCallTimeout rstr nat
  | RegNotAllowed rstr rstr
  | RegUnsupportedModality rstr rstr rstr
  | RegReadFirst rstr

text \<open>
  \<open>ToolResult::output\<close> of an error with the messages of its chain: the error, then each source.
\<close>

fun cause_lines :: "nat \<Rightarrow> rstr list \<Rightarrow> rstr list" where
  "cause_lines i [] = []"
| "cause_lines i (m # ms) = (lit ''    '' @ decimal i @ lit '': '' @ m) # cause_lines (Suc i) ms"

definition error_output :: "(rstr \<Rightarrow> rstr) \<Rightarrow> rstr \<Rightarrow> rstr \<times> rstr list \<Rightarrow> tool_output" where
  "error_output esc reflection chain =
     (let message = fst chain # (if snd chain \<noteq> [] then [[10] @ lit ''Caused by:''] else []) @ cause_lines 0 (snd chain)
      in (output_text (element_render (element_append
            [element_text esc reflection (element_new (lit ''reflection''))]
            (element_append [element_cdata (join [10] message) (element_new (lit ''cause''))]
               (element_new (lit ''tool_call_error''))))))\<lparr>to_is_error := True\<rparr>)"

section \<open>The registry\<close>

record ('v, 'w, 'e) registry =
  rg_glob :: globber
  rg_cwd :: rstr
  rg_parse_tool :: "'v tool_call_full \<Rightarrow> 'e + tool_catalog"
  rg_parse_agent :: "'v tool_call_full \<Rightarrow> 'e + rstr list"
  rg_parse_session :: "rstr \<Rightarrow> rstr option"
  rg_config :: "('w, 'e, bool \<times> nat) act"
  rg_check :: "permission_operation \<Rightarrow> ('w, 'e, policy_decision) act"
  rg_announce :: "tool_catalog \<Rightarrow> ('w, 'e, unit) act"
  rg_title :: "rstr \<Rightarrow> rstr option \<Rightarrow> ('w, 'e, unit) act"
  rg_agent_names :: "('w, 'e, rstr list) act"
  rg_mcp_names :: "('w, 'e, rstr list) act"
  rg_model :: "('w, 'e, model option) act"
  rg_run_agents :: "rstr \<Rightarrow> rstr list \<Rightarrow> rstr option \<Rightarrow> rstr option \<Rightarrow> ('w, 'e, ('e + tool_output) list) act"
  rg_perform :: "tool_catalog \<Rightarrow> (metrics \<times> 'w, 'e, tool_output) act"
  rg_mcp :: "'v tool_call_full \<Rightarrow> ('w, 'e, tool_output) act"
  rg_tool_text :: "rstr \<Rightarrow> ('w, 'e, unit) act"
  rg_timeout :: "nat \<Rightarrow> (metrics \<times> 'w, 'e reg_error, tool_output) act
     \<Rightarrow> (metrics \<times> 'w, 'e reg_error, tool_output option) act"
  rg_chain :: "'e reg_error \<Rightarrow> rstr \<times> rstr list"
  rg_escape :: "rstr \<Rightarrow> rstr"
  rg_reflection :: rstr

definition on_reg :: "('w, 'e, 'a) act \<Rightarrow> (metrics \<times> 'w, 'e reg_error, 'a) act" where
  "on_reg m = map_error RegFailed (zoom snd (\<lambda>w s. (fst s, w)) m)"

definition has_image_extension :: "rstr \<Rightarrow> bool" where
  "has_image_extension path \<longleftrightarrow>
     list_ex (\<lambda>ext. ends_with (to_lowercase path) ext)
       [lit ''.png'', lit ''.jpg'', lit ''.jpeg'', lit ''.gif'', lit ''.bmp'', lit ''.webp'', lit ''.svg'', lit ''.pdf'']"

definition validate_tool_modality :: "tool_catalog \<Rightarrow> model option \<Rightarrow> 'e reg_error + unit" where
  "validate_tool_modality input model =
     (case input of
        TRead i \<Rightarrow>
          if has_image_extension (fr_file_path i)
          then let supports_image = (case model of Some m \<Rightarrow> MImage \<in> set (md_input_modalities m) | None \<Rightarrow> False)
               in if \<not> supports_image
                  then Inl (RegUnsupportedModality (kind_name KRead) (lit ''image'')
                    (case model of
                       Some m \<Rightarrow> join (lit '', '') (map (\<lambda>im. case im of MText \<Rightarrow> lit ''text'' | MImage \<Rightarrow> lit ''image'')
                         (md_input_modalities m))
                     | None \<Rightarrow> lit ''unknown''))
                  else Inr ()
          else Inr ()
      | _ \<Rightarrow> Inr ())"

definition validate_tool_call :: "globber \<Rightarrow> agent \<Rightarrow> rstr \<Rightarrow> 'e reg_error + unit" where
  "validate_tool_call glob a tool_name =
     (if is_allowed glob a tool_name then Inr ()
      else Inl (RegNotAllowed tool_name (join (lit '', '') (case ag_tools a of Some ts \<Rightarrow> ts | None \<Rightarrow> []))))"

text \<open>\<open>Ok(true)\<close> is a denial.\<close>

definition check_tool_permission ::
  "('v, 'w, 'e) registry \<Rightarrow> tool_catalog \<Rightarrow> (metrics \<times> 'w, 'e reg_error, bool) act" where
  "check_tool_permission env input =
     (case to_policy_operation input (rg_cwd env) of
        None \<Rightarrow> ret False
      | Some operation \<Rightarrow>
          andthen (on_reg (rg_check env operation)) (\<lambda>decision.
          andthen (case pd_path decision of
                     Some p \<Rightarrow> on_reg (rg_title env (lit ''Permissions Update'')
                       (Some (format_display_path p (rg_cwd env))))
                   | None \<Rightarrow> ret ())
          (\<lambda>_. ret (\<not> pd_allowed decision))))"

definition permission_denied_output :: tool_output where
  "permission_denied_output = output_text (element_render (element_cdata
     (lit ''User has denied the permission to execute this tool'')
     (element_new (lit ''permission_denied''))))"

definition call_with_timeout ::
  "('v, 'w, 'e) registry \<Rightarrow> rstr \<Rightarrow> (metrics \<times> 'w, 'e reg_error, tool_output) act
     \<Rightarrow> (metrics \<times> 'w, 'e reg_error, tool_output) act" where
  "call_with_timeout env tool_name m =
     andthen (on_reg (rg_config env)) (\<lambda>config.
     andthen (rg_timeout env (snd config) m) (\<lambda>result.
       case result of
         Some out \<Rightarrow> ret out
       | None \<Rightarrow> fail (RegCallTimeout tool_name (snd config div 60))))"

text \<open>The results of \<open>join_all\<close>: the first error, or all outputs combined.\<close>

definition collect_outputs :: "('e + tool_output) list \<Rightarrow> 'e reg_error + tool_output" where
  "collect_outputs rs =
     (case find_map (\<lambda>r. case r of Inl e \<Rightarrow> Some e | Inr _ \<Rightarrow> None) rs of
        Some e \<Rightarrow> Inl (RegFailed e)
      | None \<Rightarrow> Inr (output_from_iter (List.map_filter (\<lambda>r. case r of Inr out \<Rightarrow> Some out | Inl _ \<Rightarrow> None) rs)))"

section \<open>The guards of the executor\<close>

text \<open>\<open>PathBuf::join\<close> of a relative path to the working directory, displayed.\<close>

definition normalize_path :: "rstr \<Rightarrow> rstr \<Rightarrow> rstr" where
  "normalize_path cwd path =
     (if starts_with path [47] then path
      else if cwd = [] \<or> ends_with cwd [47] then cwd @ path
      else cwd @ [47] @ path)"

definition require_prior_read ::
  "rstr \<Rightarrow> rstr \<Rightarrow> rstr \<Rightarrow> (metrics \<times> 'w, 'e reg_error, unit) act" where
  "require_prior_read cwd raw_path action = reading (\<lambda>s.
     if normalize_path cwd raw_path \<in> mt_files_accessed (fst s) \<or> raw_path \<in> mt_files_accessed (fst s)
     then ret () else fail (RegReadFirst action))"

fun edited_path :: "tool_catalog \<Rightarrow> rstr option" where
  "edited_path (TPatch i) = Some (fp_file_path i)"
| "edited_path (TMultiPatch i) = Some (mp_file_path i)"
| "edited_path _ = None"

fun overwritten_path :: "tool_catalog \<Rightarrow> rstr option" where
  "overwritten_path (TWrite i) = (if fw_overwrite i then Some (fw_file_path i) else None)"
| "overwritten_path _ = None"

text \<open>
  \<open>ToolExecutor::execute\<close>; what comes after the guards (the service of the tool, its message and
  output) is \<open>rg_perform\<close>.
\<close>

definition execute_tool ::
  "('v, 'w, 'e) registry \<Rightarrow> tool_catalog \<Rightarrow> (metrics \<times> 'w, 'e reg_error, tool_output) act" where
  "execute_tool env input =
     andthen (on_reg (rg_config env)) (\<lambda>_.
     andthen (case edited_path input of
                Some p \<Rightarrow> require_prior_read (rg_cwd env) p (lit ''edit it'') | None \<Rightarrow> ret ()) (\<lambda>_.
     andthen (case overwritten_path input of
                Some p \<Rightarrow> require_prior_read (rg_cwd env) p (lit ''overwrite it'') | None \<Rightarrow> ret ()) (\<lambda>_.
     map_error RegFailed (rg_perform env input))))"

section \<open>Calls\<close>

definition call_catalog ::
  "('v, 'w, 'e) registry \<Rightarrow> rstr \<Rightarrow> tool_catalog \<Rightarrow> (metrics \<times> 'w, 'e reg_error, tool_output) act" where
  "call_catalog env tool_name input =
     andthen (on_reg (rg_announce env input)) (\<lambda>_.
     andthen (on_reg (rg_config env)) (\<lambda>config.
     andthen (if fst config then check_tool_permission env input else ret False) (\<lambda>denied.
       if denied
       then andthen (on_reg (rg_title env (lit ''Permission Denied'') None)) (\<lambda>_. ret permission_denied_output)
       else andthen (case input of
              TRead i \<Rightarrow> if has_image_extension (fr_file_path i)
                then andthen (on_reg (rg_model env)) (\<lambda>model. lift_sum (validate_tool_modality input model))
                else ret ()
            | _ \<Rightarrow> ret ()) (\<lambda>_.
            call_with_timeout env tool_name (execute_tool env input)))))"

definition call_agents ::
  "('v, 'w, 'e) registry \<Rightarrow> rstr \<Rightarrow> rstr list \<Rightarrow> rstr option \<Rightarrow> rstr option
     \<Rightarrow> (metrics \<times> 'w, 'e reg_error, tool_output) act" where
  "call_agents env agent_id tasks conversation_id parent_id =
     andthen (on_reg (rg_run_agents env agent_id tasks conversation_id parent_id))
       (\<lambda>results. lift_sum (collect_outputs results))"

definition call_mcp ::
  "('v, 'w, 'e) registry \<Rightarrow> 'v tool_call_full \<Rightarrow> (metrics \<times> 'w, 'e reg_error, tool_output) act" where
  "call_mcp env tc =
     andthen (call_with_timeout env (tc_name tc)
        (andthen (on_reg (rg_title env (lit ''MCP'') (Some (tc_name tc)))) (\<lambda>_. on_reg (rg_mcp env tc))))
       (\<lambda>out.
         let text1 = foldl (\<lambda>a b. a @ [10] @ b) [] (List.map_filter tv_as_str (to_values out))
         in andthen (if str_trim text1 \<noteq> [] then on_reg (rg_tool_text env text1) else ret ())
              (\<lambda>_. ret out))"

text \<open>\<open>McpExecutor::contains_tool\<close>.\<close>

definition mcp_contains :: "rstr list \<Rightarrow> rstr \<Rightarrow> bool" where
  "mcp_contains names tool_name \<longleftrightarrow>
     list_ex (\<lambda>n. n = tool_name \<or> to_legacy_mcp_name tool_name = Some n) names"

definition call_inner ::
  "('v, 'w, 'e) registry \<Rightarrow> agent \<Rightarrow> tool_context \<Rightarrow> 'v tool_call_full
     \<Rightarrow> (metrics \<times> 'w, 'e reg_error, tool_output) act" where
  "call_inner env a tcx tc =
     andthen (lift_sum (validate_tool_call (rg_glob env) a (tc_name tc))) (\<lambda>_.
       if catalog_contains (tc_name tc)
       then andthen (lift_sum (map_sum RegFailed id (rg_parse_tool env tc))) (\<lambda>input.
         case input of
           TTask t \<Rightarrow> call_agents env (tk_agent_id t) (tk_tasks t)
             (Option.bind (tk_session_id t) (rg_parse_session env)) (tcx_conversation_id tcx)
         | _ \<Rightarrow> call_catalog env (tc_name tc) input)
       else andthen (on_reg (rg_agent_names env)) (\<lambda>agents.
         if tc_name tc \<in> set agents
         then andthen (lift_sum (map_sum RegFailed id (rg_parse_agent env tc))) (\<lambda>tasks.
           call_agents env (tc_name tc) tasks None (tcx_conversation_id tcx))
         else andthen (on_reg (rg_mcp_names env)) (\<lambda>names.
           if mcp_contains names (tc_name tc) then call_mcp env tc
           else fail (RegNotFound (tc_name tc)))))"

definition failed_result :: "('v, 'w, 'e) registry \<Rightarrow> tool_result \<Rightarrow> 'e reg_error \<Rightarrow> tool_result" where
  "failed_result env r e = r\<lparr>tr_output := error_output (rg_escape env) (rg_reflection env) (rg_chain env e)\<rparr>"

text \<open>\<open>ToolRegistry::call\<close>: an error becomes the output of the result.\<close>

definition registry_call ::
  "('v, 'w, 'e) registry \<Rightarrow> agent \<Rightarrow> tool_context \<Rightarrow> 'v tool_call_full \<Rightarrow> (metrics \<times> 'w, 'e, tool_result) act" where
  "registry_call env a tcx tc s =
     (let r = \<lparr>tr_name = tc_name tc, tr_call_id = tc_call_id tc, tr_output = output_default\<rparr>
      in case call_inner env a tcx tc s of
           None \<Rightarrow> None
         | Some (Inl Panicked, s') \<Rightarrow> Some (Inl Panicked, s')
         | Some (Inl (Fail e), s') \<Rightarrow> Some (Inr (failed_result env r e), s')
         | Some (Inr out, s') \<Rightarrow> Some (Inr (r\<lparr>tr_output := out\<rparr>), s'))"

text \<open>\<open>AgentService::call\<close>: the registry is made for every call, which reads the configuration.\<close>

definition agent_call ::
  "('v, 'w, 'e) registry \<Rightarrow> agent \<Rightarrow> tool_context \<Rightarrow> 'v tool_call_full \<Rightarrow> (metrics \<times> 'w, 'e, tool_result) act" where
  "agent_call env a tcx tc s =
     (case on_reg (rg_config env) s of
        None \<Rightarrow> None
      | Some (Inl Panicked, s') \<Rightarrow> Some (Inl Panicked, s')
      | Some (Inl (Fail e), s') \<Rightarrow> Some (Inr (failed_result env (result_new (tc_name tc)) e), s')
      | Some (Inr _, s') \<Rightarrow> registry_call env a tcx tc s')"

section \<open>Lemmas\<close>

lemma dedupe_from_names: "td_name ` set (dedupe_from seen ts) = td_name ` set ts - seen"
  by (induction ts arbitrary: seen) auto

lemma dedupe_from_fresh: "u \<in> set (dedupe_from seen ts) \<Longrightarrow> td_name u \<notin> seen"
  using dedupe_from_names [of seen ts] by blast

lemma dedupe_from_distinct: "distinct (map td_name (dedupe_from seen ts))"
proof (induction ts arbitrary: seen)
  case (Cons t ts)
  have "td_name t \<notin> td_name ` set (dedupe_from (insert (td_name t) seen) ts)"
    unfolding dedupe_from_names by simp
  with Cons show ?case by simp
qed simp

lemma dedupe_from_subset: "set (dedupe_from seen ts) \<subseteq> set ts"
  by (induction ts arbitrary: seen) auto

lemma dedupe_from_first: "u \<in> set (dedupe_from seen ts) \<Longrightarrow> find (\<lambda>v. td_name v = td_name u) ts = Some u"
proof (induction ts arbitrary: seen)
  case (Cons t ts)
  show ?case
  proof (cases "td_name t \<in> seen")
    case True
    then have "u \<in> set (dedupe_from seen ts)" using Cons.prems by simp
    moreover have "td_name t \<noteq> td_name u" using dedupe_from_fresh [OF calculation] True by metis
    ultimately show ?thesis using Cons.IH by simp
  next
    case False
    then have "u = t \<or> u \<in> set (dedupe_from (insert (td_name t) seen) ts)"
      using Cons.prems by simp
    then show ?thesis
      using Cons.IH dedupe_from_fresh [of u "insert (td_name t) seen" ts] by force
  qed
qed simp

lemma find_filter: "\<forall>y. P y \<longrightarrow> Q y \<Longrightarrow> find P (filter Q xs) = find P xs"
  by (induction xs) simp_all

text \<open>Where the tool itself is run is the only place of a call that depends on \<open>rg_perform\<close>.\<close>

lemma perform_unused:
  "call_agents (env\<lparr>rg_perform := h\<rparr>) = call_agents env"
  "call_mcp (env\<lparr>rg_perform := h\<rparr>) = call_mcp env"
  "check_tool_permission (env\<lparr>rg_perform := h\<rparr>) = check_tool_permission env"
  by (simp_all add: fun_eq_iff call_agents_def call_mcp_def call_with_timeout_def check_tool_permission_def
      cong: if_cong option.case_cong)

lemma call_inner_perform:
  assumes "\<And>input. rg_parse_tool env tc = Inr input \<Longrightarrow>
      call_catalog (env\<lparr>rg_perform := f\<rparr>) (tc_name tc) input = call_catalog (env\<lparr>rg_perform := g\<rparr>) (tc_name tc) input"
  shows "call_inner (env\<lparr>rg_perform := f\<rparr>) a tcx tc = call_inner (env\<lparr>rg_perform := g\<rparr>) a tcx tc"
proof (cases "rg_parse_tool env tc")
  case (Inl e)
  then show ?thesis by (simp add: call_inner_def lift_sum_def perform_unused cong: if_cong)
next
  case (Inr input)
  with assms show ?thesis
    by (cases input) (simp_all add: call_inner_def lift_sum_def perform_unused cong: if_cong)
qed

lemma andthen_same:
  "(\<And>x s'. m s = Some (Inr x, s') \<Longrightarrow> f x s' = g x s') \<Longrightarrow> andthen m f s = andthen m g s"
  by (simp add: andthen_def split: option.split sum.split prod.split)

lemma on_reg_Inr: "on_reg m s = Some (Inr x, s') \<Longrightarrow> \<exists>w w'. m w = Some (Inr x, w')"
  by (auto simp: on_reg_def map_error_def zoom_def dest!: map_sum_InrD [OF sym])

lemma registry_call_answers:
  "registry_call env a tcx tc s = Some (r, s') \<Longrightarrow>
     r = Inl Panicked \<or> (\<exists>res. r = Inr res \<and> tr_name res = tc_name tc \<and> tr_call_id res = tc_call_id tc)"
  by (auto simp: registry_call_def Let_def failed_result_def split: option.splits sum.splits abort.splits)

lemma registry_yields: "yields I (registry_call env a tcx tc) (\<lambda>r. tr_call_id r = tc_call_id tc)"
  using registry_call_answers by (fastforce simp: yields_def)

section \<open>Properties\<close>

text \<open>The tools an agent is shown: each name once, exactly the names that match the agent's patterns, each
  with the first definition of that name, in the agent's order.\<close>

theorem resolve_tools_spec:
  "distinct (map td_name (resolve_tools glob tools a))
   \<and> td_name ` set (resolve_tools glob tools a) =
      {td_name t | t. t \<in> set tools \<and> is_allowed_pattern (build_patterns glob a) (td_name t)}
   \<and> list_all (\<lambda>t. find (\<lambda>u. td_name u = td_name t) tools = Some t) (resolve_tools glob tools a)
   \<and> sorted (map (\<lambda>t. rank (agent_tool_order glob a) (td_name t)) (resolve_tools glob tools a))"
proof -
  let ?ts = "dedupe_tools (match_tools (build_patterns glob a) tools)"
  have mset: "mset (resolve_tools glob tools a) = mset ?ts"
    by (simp add: resolve_tools_def sort_tools_rank mset_sort_by)
  then have set: "set (resolve_tools glob tools a) = set ?ts" by (rule mset_eq_setD)
  have "distinct (map td_name (resolve_tools glob tools a)) \<longleftrightarrow> distinct (map td_name ?ts)"
    using mset by (metis mset_eq_imp_distinct_iff mset_map)
  then have unique: "distinct (map td_name (resolve_tools glob tools a))"
    by (simp add: dedupe_tools_def dedupe_from_distinct)
  have first: "find (\<lambda>u. td_name u = td_name t) tools = Some t" if "t \<in> set ?ts" for t
  proof -
    have "t \<in> set (match_tools (build_patterns glob a) tools)" and
      "find (\<lambda>u. td_name u = td_name t) (match_tools (build_patterns glob a) tools) = Some t"
      using that dedupe_from_first dedupe_from_subset unfolding dedupe_tools_def by (blast, blast)
    then show ?thesis unfolding match_tools_def by (simp add: find_filter)
  qed
  have names: "td_name ` set ?ts = td_name ` set (match_tools (build_patterns glob a) tools)"
    by (simp add: dedupe_tools_def dedupe_from_names)
  have order: "sorted (map (\<lambda>t. rank (agent_tool_order glob a) (td_name t)) (resolve_tools glob tools a))"
    unfolding resolve_tools_def by (rule sort_tools_sorted_rank(2))
  show ?thesis
    using unique first names order set by (auto simp: list_all_iff match_tools_def)
qed

text \<open>An agent may call every tool it is shown, provided the tool's name is not one of the deprecated
  names, which are read as the names that replaced them.\<close>

theorem resolved_tools_callable:
  assumes "t \<in> set (resolve_tools glob tools a)" "deprecated_tool_aliases (td_name t) = None"
  shows "is_allowed glob a (td_name t)"
proof -
  have "mset (resolve_tools glob tools a) = mset (dedupe_tools (match_tools (build_patterns glob a) tools))"
    by (simp add: resolve_tools_def sort_tools_rank mset_sort_by)
  then have "t \<in> set (dedupe_tools (match_tools (build_patterns glob a) tools))"
    using assms(1) by (metis mset_eq_setD)
  then have "td_name t \<in> td_name ` set (match_tools (build_patterns glob a) tools)"
    unfolding dedupe_tools_def using dedupe_from_names by blast
  then show ?thesis
    using assms(2) by (auto simp: match_tools_def is_allowed_def current_name_def)
qed

text \<open>C3: In restricted mode nothing is done without permission: if the policies and the user do not permit the operation of a
  tool, then what the tool itself would do has no influence on the call, its result and the state.\<close>

theorem denied_tool_is_not_run:
  assumes "rg_parse_tool env tc = Inr input" "to_policy_operation input (rg_cwd env) = Some oper"
    and "\<And>w c w'. rg_config env w = Some (Inr c, w') \<Longrightarrow> fst c"
    and "\<And>w d w'. rg_check env oper w = Some (Inr d, w') \<Longrightarrow> \<not> pd_allowed d"
  shows "call_inner (env\<lparr>rg_perform := f\<rparr>) a tcx tc = call_inner (env\<lparr>rg_perform := g\<rparr>) a tcx tc"
proof (rule call_inner_perform)
  fix input' assume "rg_parse_tool env tc = Inr input'"
  then have input: "input' = input" using assms(1) by simp
  have config: "on_reg (rg_config env) s = Some (Inr c, s') \<Longrightarrow> fst c" for s c s'
    using on_reg_Inr [of "rg_config env" s c s'] assms(3) by blast
  have check: "check_tool_permission env input s = Some (Inr b, s') \<Longrightarrow> b" for s b s'
    using assms(2,4)
    by (auto simp: check_tool_permission_def andthen_Inr_iff ret_apply dest!: on_reg_Inr)
  have "call_catalog (env\<lparr>rg_perform := h\<rparr>) name input s =
      andthen (on_reg (rg_announce env input)) (\<lambda>_. andthen (on_reg (rg_config env)) (\<lambda>_.
        andthen (check_tool_permission env input) (\<lambda>_.
        andthen (on_reg (rg_title env (lit ''Permission Denied'') None)) (\<lambda>_. ret permission_denied_output)))) s"
    for h name s
    unfolding call_catalog_def perform_unused
    by (simp, intro andthen_same) (auto dest!: config check intro!: andthen_same)
  then show "call_catalog (env\<lparr>rg_perform := f\<rparr>) (tc_name tc) input' = call_catalog (env\<lparr>rg_perform := g\<rparr>) (tc_name tc) input'"
    unfolding input fun_eq_iff by simp
qed

text \<open>C25: No file is edited or overwritten unread: for a patch, or a write that overwrites, of a file that was
  not read in this conversation under the path given or the absolute path, the executor fails
  without running the tool.\<close>

theorem edit_requires_read:
  assumes "edited_path input = Some p \<or> overwritten_path input = Some p"
    and "p \<notin> mt_files_accessed m" "normalize_path (rg_cwd env) p \<notin> mt_files_accessed m"
  shows "execute_tool (env\<lparr>rg_perform := f\<rparr>) input (m, w) = execute_tool (env\<lparr>rg_perform := g\<rparr>) input (m, w)
    \<and> execute_tool env input (m, w) \<noteq> Some (Inr out, s')"
proof -
  have metrics: "fst s1 = m" if "on_reg (rg_config env) (m, w) = Some (r, s1)" for r s1
    using that by (auto simp: on_reg_def map_error_def zoom_def)
  have blocked: "(case on_reg (rg_config env) (m, w) of
        None \<Rightarrow> None | Some (Inl x, s1) \<Rightarrow> Some (Inl x, s1)
      | Some (Inr c, s1) \<Rightarrow> Some (Inl (Fail (RegReadFirst
          (if edited_path input \<noteq> None then lit ''edit it'' else lit ''overwrite it''))), s1))
    = execute_tool (env\<lparr>rg_perform := h\<rparr>) input (m, w)" for h
    using assms metrics
    by (cases input)
      (auto simp: execute_tool_def andthen_def require_prior_read_def reading_def fail_def ret_def
        split: option.split sum.split prod.split if_splits)
  have "execute_tool env input (m, w) = execute_tool (env\<lparr>rg_perform := rg_perform env\<rparr>) input (m, w)" by simp
  also have "\<dots> \<noteq> Some (Inr out, s')"
    unfolding blocked [symmetric] by (simp split: option.split sum.split prod.split)
  finally show ?thesis using blocked [of f] blocked [of g] by simp
qed

text \<open>What is asked of the services around the tools: each returns, and \<open>tokio::time::timeout\<close> does what it documents: it
  returns in any case, with the outcome of what it is given or, when that takes too long, with nothing. The tools
  themselves (\<open>rg_perform\<close>, \<open>rg_mcp\<close>) may never return. Agents are run without a timeout.\<close>

definition surroundings_return :: "('v, 'w, 'e) registry \<Rightarrow> bool" where
  "surroundings_return env \<longleftrightarrow> returns (rg_config env) \<and> (\<forall>oper. returns (rg_check env oper)) \<and> (\<forall>i. returns (rg_announce env i))
     \<and> (\<forall>t st. returns (rg_title env t st)) \<and> returns (rg_agent_names env) \<and> returns (rg_mcp_names env)
     \<and> returns (rg_model env) \<and> (\<forall>i ts c p. returns (rg_run_agents env i ts c p)) \<and> (\<forall>t. returns (rg_tool_text env t))"

definition timeout_documented :: "('v, 'w, 'e) registry \<Rightarrow> bool" where
  "timeout_documented env \<longleftrightarrow> (\<forall>d m s. \<exists>r s'. rg_timeout env d m s = Some (r, s')
     \<and> (r = Inr None \<or> andthen m (\<lambda>out. ret (Some out)) s = Some (r, s')))"

lemma returns_on_reg: "returns m \<Longrightarrow> returns (on_reg m)"
  unfolding on_reg_def by (intro returns_intros)

lemma surroundings_config: "surroundings_return env \<Longrightarrow> returns (rg_config env)"
  by (simp add: surroundings_return_def)

lemma returned: "returns m \<Longrightarrow> (\<And>r s'. m s = Some (r, s') \<Longrightarrow> thesis) \<Longrightarrow> thesis"
  unfolding returns_def by (cases "m s") (metis, metis surj_pair)

lemma timeout_returns: "timeout_documented env \<Longrightarrow> returns (rg_timeout env d m)"
  unfolding timeout_documented_def returns_def by (metis option.distinct(1))

lemma call_inner_returns:
  assumes "surroundings_return env" "timeout_documented env"
  shows "returns (call_inner env a tcx tc)"
proof -
  have timed: "returns (call_with_timeout env name m)" for name m
    using assms(1) timeout_returns [OF assms(2)] unfolding call_with_timeout_def surroundings_return_def
    by (auto intro!: returns_intros returns_on_reg split: option.split)
  have agents: "returns (call_agents env i ts c p)" for i ts c p
    using assms(1) unfolding call_agents_def surroundings_return_def by (intro returns_intros returns_on_reg) simp
  have mcp: "returns (call_mcp env tc)"
    using assms(1) timed unfolding call_mcp_def surroundings_return_def Let_def by (auto intro!: returns_intros returns_on_reg)
  have check: "returns (check_tool_permission env input)" for input
    using assms(1) unfolding check_tool_permission_def surroundings_return_def
    by (auto intro!: returns_intros returns_on_reg split: option.split)
  have catalog: "returns (call_catalog env name input)" for name input
    using assms(1) check timed unfolding call_catalog_def surroundings_return_def
    by (auto intro!: returns_intros returns_on_reg split: tool_catalog.split)
  show ?thesis
    using assms(1) agents mcp catalog unfolding call_inner_def surroundings_return_def
    by (auto intro!: returns_intros returns_on_reg split: tool_catalog.split)
qed

lemma error_output_is_error: "result_is_error \<lparr>tr_name = n, tr_call_id = i, tr_output = error_output esc reflection chain\<rparr>"
  by (simp add: result_is_error_def error_output_def Let_def)

lemma registry_call_outcome:
  assumes "call_inner env a tcx tc s = Some (q, s')"
  shows "registry_call env a tcx tc s = Some (case q of
      Inl Panicked \<Rightarrow> Inl Panicked
    | Inl (Fail e) \<Rightarrow> Inr \<lparr>tr_name = tc_name tc, tr_call_id = tc_call_id tc,
        tr_output = error_output (rg_escape env) (rg_reflection env) (rg_chain env e)\<rparr>
    | Inr out \<Rightarrow> Inr \<lparr>tr_name = tc_name tc, tr_call_id = tc_call_id tc, tr_output = out\<rparr>, s')"
  using assms by (simp add: registry_call_def failed_result_def Let_def split: sum.split abort.split)

lemma outcome_cases: obtains e where "q = Inl (Fail e)" | "q = Inl Panicked" | x where "q = Inr x"
  by (cases q) (auto intro: abort.exhaust)

text \<open>C26: Every call is answered, even if the tool never returns: when the services around the tools and the agents return
  and the timeout does what it documents, a call returns, unless a service panics, with a result under the name and the
  id of the call. The result has the output of the tool, or is an error that tells what went wrong, a timeout included.
  The one exception is a configuration that cannot be read, where the error comes back under the name without an id.\<close>

theorem calls_are_answered:
  assumes "surroundings_return env" "timeout_documented env"
  shows "\<exists>r s'. agent_call env a tcx tc s = Some (r, s') \<and> (r = Inl Panicked \<or> (\<exists>res. r = Inr res \<and> tr_name res = tc_name tc \<and>
     (case the (on_reg (rg_config env) s) of
        (Inl _, _) \<Rightarrow> tr_call_id res = None \<and> result_is_error res
      | (Inr _, s1) \<Rightarrow> tr_call_id res = tc_call_id tc \<and>
          (case the (call_inner env a tcx tc s1) of
             (Inl (Fail e), _) \<Rightarrow> tr_output res = error_output (rg_escape env) (rg_reflection env) (rg_chain env e) \<and> result_is_error res
           | (Inr out, _) \<Rightarrow> tr_output res = out
           | _ \<Rightarrow> False))))"
proof -
  obtain q s1 where q: "on_reg (rg_config env) s = Some (q, s1)"
    using returns_on_reg [OF surroundings_config [OF assms(1)]] by (rule returned)
  obtain o2 s2 where c: "call_inner env a tcx tc s1 = Some (o2, s2)"
    using call_inner_returns [OF assms] by (rule returned)
  show ?thesis
  proof (cases q)
    case (Inl x)
    then show ?thesis
      by (cases x) (simp_all add: agent_call_def q failed_result_def result_new_def error_output_is_error)
  next
    case (Inr config)
    have "agent_call env a tcx tc s = registry_call env a tcx tc s1" by (simp add: agent_call_def q Inr)
    then show ?thesis
      by (cases o2 rule: outcome_cases) (simp_all add: q Inr c registry_call_outcome [OF c] error_output_is_error)
  qed
qed

text \<open>A tool that never returns: the call of it fails with the timeout of the configuration, in minutes.\<close>

lemma hanging_tool_times_out:
  assumes "timeout_documented env" "rg_config env w = Some (Inr c, w)"
  shows "\<exists>s'. call_with_timeout env name hang (m, w) = Some (Inl (Fail (RegCallTimeout name (snd c div 60))), s')"
proof -
  have "on_reg (rg_config env) (m, w) = Some (Inr c, (m, w))"
    using assms(2) by (simp add: on_reg_def map_error_def zoom_def)
  moreover obtain s' where "rg_timeout env (snd c) hang (m, w) = Some (Inr None, s')"
    using assms(1) unfolding timeout_documented_def by (fastforce simp: hang_def)
  ultimately show ?thesis by (simp add: call_with_timeout_def act_simps)
qed

section \<open>Witnesses\<close>

definition demo_reader :: agent where
  "demo_reader = (agent_new (lit ''forge'') (lit ''p'') (lit ''m''))\<lparr>ag_tools := Some [lit ''read'', lit ''shell'']\<rparr>"

definition exact_glob :: globber where
  "exact_glob pat = Some (\<lambda>s. s = pat)"

definition demo_tools :: "unit tool_definition list" where
  "demo_tools = map demo_tool [lit ''shell'', lit ''fetch'', lit ''read'']"

definition demo_shell :: tool_catalog where
  "demo_shell = TShell \<lparr>sh_command = lit ''make'', sh_cwd = None, sh_keep_ansi = False, sh_env = None,
     sh_description = None\<rparr>"

definition demo_write :: tool_catalog where
  "demo_write = TWrite \<lparr>fw_file_path = lit ''a.rs'', fw_content = [], fw_overwrite = True\<rparr>"

definition demo_registry :: "bool \<Rightarrow> tool_catalog \<Rightarrow> (unit, unit, unit) registry" where
  "demo_registry permitted input =
     \<lparr>rg_glob = exact_glob, rg_cwd = lit ''/w'', rg_parse_tool = (\<lambda>_. Inr input), rg_parse_agent = (\<lambda>_. Inl ()),
      rg_parse_session = Some, rg_config = ret (True, 300),
      rg_check = (\<lambda>_. ret \<lparr>pd_allowed = permitted, pd_path = None\<rparr>), rg_announce = (\<lambda>_. ret ()),
      rg_title = (\<lambda>_ _. ret ()), rg_agent_names = ret [], rg_mcp_names = ret [], rg_model = ret None,
      rg_run_agents = (\<lambda>_ _ _ _. ret []), rg_perform = (\<lambda>_. ret (output_text (lit ''done''))),
      rg_mcp = (\<lambda>_. fail ()), rg_tool_text = (\<lambda>_. ret ()),
      rg_timeout = (\<lambda>_ m. andthen m (\<lambda>out. ret (Some out))), rg_chain = (\<lambda>_. (lit ''failed'', [])),
      rg_escape = id, rg_reflection = []\<rparr>"

definition demo_shell_call :: "unit tool_call_full" where
  "demo_shell_call = \<lparr>tc_name = lit ''shell'', tc_call_id = Some [1], tc_arguments = Parsed (), tc_thought_signature = None\<rparr>"

lemma demo_parse_read: "resolve_tools exact_glob demo_tools demo_reader = [demo_tool (lit ''read''), demo_tool (lit ''shell'')]"
  by code_simp

theorem resolved_tools_callable_witness: "is_allowed exact_glob demo_reader (lit ''shell'')"
proof -
  have "demo_tool (lit ''shell'') \<in> set (resolve_tools exact_glob demo_tools demo_reader)"
    unfolding demo_parse_read by simp
  moreover have "deprecated_tool_aliases (td_name (demo_tool (lit ''shell''))) = None" by code_simp
  ultimately have "is_allowed exact_glob demo_reader (td_name (demo_tool (lit ''shell'')))"
    by (rule resolved_tools_callable)
  then show ?thesis by (simp add: demo_tool_def)
qed

theorem denied_tool_is_not_run_witness:
  "call_inner ((demo_registry False demo_shell)\<lparr>rg_perform := (\<lambda>_. panic)\<rparr>) demo_reader
       \<lparr>tcx_has_sender = True, tcx_conversation_id = None, tcx_parent_id = None, tcx_source = None\<rparr> demo_shell_call
   = call_inner ((demo_registry False demo_shell)\<lparr>rg_perform := (\<lambda>_. hang)\<rparr>) demo_reader
       \<lparr>tcx_has_sender = True, tcx_conversation_id = None, tcx_parent_id = None, tcx_source = None\<rparr> demo_shell_call"
  by (rule denied_tool_is_not_run [where input = demo_shell and oper = "OpExecute (lit ''make'') (lit ''/w'')"])
    (auto simp: demo_registry_def demo_shell_def ret_def)

theorem edit_requires_read_witness:
  "execute_tool (demo_registry True demo_write) demo_write (metrics_default, ())
     \<noteq> Some (Inr (output_text (lit ''done'')), (metrics_default, ()))"
  using edit_requires_read [of demo_write "lit ''a.rs''" metrics_default "demo_registry True demo_write"
      "\<lambda>_. panic" "()" "\<lambda>_. hang"]
  by (simp add: demo_write_def metrics_default_def)

text \<open>A shell command that never returns, under a timeout that waits for what does.\<close>

definition hanging_registry :: "(unit, unit, unit) registry" where
  "hanging_registry = (demo_registry True demo_shell)\<lparr>rg_perform := (\<lambda>_. hang),
     rg_timeout := (\<lambda>_ m s. case andthen m (\<lambda>out. ret (Some out)) s of None \<Rightarrow> Some (Inr None, s) | Some p \<Rightarrow> Some p)\<rparr>"

lemma hanging_registry_documented: "surroundings_return hanging_registry" "timeout_documented hanging_registry"
  by (auto simp: surroundings_return_def timeout_documented_def hanging_registry_def demo_registry_def intro!: returns_intros
      split: option.split)

theorem calls_are_answered_witness:
  "\<exists>r s'. agent_call hanging_registry demo_reader
       \<lparr>tcx_has_sender = True, tcx_conversation_id = None, tcx_parent_id = None, tcx_source = None\<rparr>
       demo_shell_call (metrics_default, ()) = Some (Inr r, s') \<and> tr_call_id r = Some [1] \<and> result_is_error r"
proof -
  let ?tcx = "\<lparr>tcx_has_sender = True, tcx_conversation_id = None, tcx_parent_id = None, tcx_source = None\<rparr>"
  have config: "on_reg (rg_config hanging_registry) (metrics_default, ()) = Some (Inr (True, 300), (metrics_default, ()))"
    by (simp add: on_reg_def map_error_def zoom_def ret_def hanging_registry_def demo_registry_def)
  have "map_option fst (call_inner hanging_registry demo_reader ?tcx demo_shell_call (metrics_default, ()))
      = Some (Inl (Fail (RegCallTimeout (lit ''shell'') 5)))"
    by code_simp
  then obtain s1 where inner: "call_inner hanging_registry demo_reader ?tcx demo_shell_call (metrics_default, ())
      = Some (Inl (Fail (RegCallTimeout (lit ''shell'') 5)), s1)"
    by auto
  have panics: "agent_call hanging_registry demo_reader ?tcx demo_shell_call (metrics_default, ()) \<noteq> Some (Inl Panicked, s')" for s'
    unfolding agent_call_def config by (simp add: registry_call_outcome [OF inner])
  show ?thesis
    using calls_are_answered [OF hanging_registry_documented, of demo_reader ?tcx demo_shell_call "(metrics_default, ())"]
      panics config inner by (auto simp: demo_shell_call_def)
qed

end
