(* ===== verification/Event_Stream.thy ===== *)
theory Event_Stream
  imports Prelude
begin

text \<open>
  The stream of server-sent events the providers answer with (\<open>forge_eventsource_stream/src\<close>): bytes are decoded
  as they come (\<open>utf8_stream.rs\<close>), lines are parsed as soon as they are complete (\<open>parser.rs\<close>), and the fields
  of the lines make up events (\<open>event_stream.rs\<close>). The transport is the list of the chunks it gives, each a
  list of bytes or an error; a \<open>Poll::Pending\<close> leaves everything as it is and is not represented.
\<close>

section \<open>UTF-8\<close>

definition cont :: "int \<Rightarrow> bool" where
  "cont b \<longleftrightarrow> 128 \<le> b \<and> b \<le> 191"

text \<open>The well-formed sequences of two, three and four bytes, by the table of the standard library.\<close>

definition seq2 :: "int \<Rightarrow> int \<Rightarrow> bool" where
  "seq2 a b \<longleftrightarrow> 194 \<le> a \<and> a \<le> 223 \<and> cont b"

definition seq3 :: "int \<Rightarrow> int \<Rightarrow> int \<Rightarrow> bool" where
  "seq3 a b c \<longleftrightarrow> cont c \<and> (a = 224 \<and> 160 \<le> b \<and> b \<le> 191 \<or> 225 \<le> a \<and> a \<le> 236 \<and> cont b
     \<or> a = 237 \<and> 128 \<le> b \<and> b \<le> 159 \<or> 238 \<le> a \<and> a \<le> 239 \<and> cont b)"

definition seq4 :: "int \<Rightarrow> int \<Rightarrow> int \<Rightarrow> int \<Rightarrow> bool" where
  "seq4 a b c d \<longleftrightarrow> cont c \<and> cont d \<and> (a = 240 \<and> 144 \<le> b \<and> b \<le> 191 \<or> 241 \<le> a \<and> a \<le> 243 \<and> cont b
     \<or> a = 244 \<and> 128 \<le> b \<and> b \<le> 143)"

text \<open>The first character of a byte string; \<open>None\<close> when the bytes do not begin with a whole character.\<close>

definition utf8_char :: "int list \<Rightarrow> (int \<times> int list) option" where
  "utf8_char bs =
     (case bs of
        [] \<Rightarrow> None
      | a # r1 \<Rightarrow>
          if 0 \<le> a \<and> a < 128 then Some (a, r1)
          else case r1 of
            [] \<Rightarrow> None
          | b # r2 \<Rightarrow>
              if seq2 a b then Some ((a - 192) * 64 + (b - 128), r2)
              else case r2 of
                [] \<Rightarrow> None
              | c # r3 \<Rightarrow>
                  if seq3 a b c then Some ((a - 224) * 4096 + (b - 128) * 64 + (c - 128), r3)
                  else case r3 of
                    [] \<Rightarrow> None
                  | d # r4 \<Rightarrow>
                      if seq4 a b c d
                      then Some ((a - 240) * 262144 + (b - 128) * 4096 + (c - 128) * 64 + (d - 128), r4)
                      else None)"

lemma utf8_char_shorter: "utf8_char bs = Some (c, r) \<Longrightarrow> length r < length bs"
  by (auto simp: utf8_char_def split: list.splits if_splits)

text \<open>The longest valid prefix, decoded, and what is left at \<open>valid_up_to\<close>; the whole is valid if nothing
  is left.\<close>

function utf8_decode :: "int list \<Rightarrow> rstr \<times> int list" where
  "utf8_decode bs =
     (case utf8_char bs of
        None \<Rightarrow> ([], bs)
      | Some (c, r) \<Rightarrow> let (s, left) = utf8_decode r in (c # s, left))"
  by pat_completeness auto

termination
  by (relation "measure length") (auto simp: utf8_char_shorter)

declare utf8_decode.simps [simp del]

definition max_utf8_buffer :: nat where
  "max_utf8_buffer = 4 * 1024"

datatype 'e utf8_stream_error = Utf8Invalid | Utf8Transport 'e

text \<open>
  \<open>Utf8Stream::poll_next\<close>: what the transport gave (\<open>None\<close> when it has ended) to the item, the buffer and
  whether the stream has terminated.
\<close>

definition utf8_poll ::
  "int list \<Rightarrow> ('e + int list) option \<Rightarrow> ('e utf8_stream_error + rstr) option \<times> int list \<times> bool" where
  "utf8_poll buffer given =
     (case given of
        Some (Inr bytes) \<Rightarrow>
          (let (s, left) = utf8_decode (buffer @ bytes)
           in if left = [] then (Some (Inr s), [], False)
              else if length left > max_utf8_buffer then (Some (Inl Utf8Invalid), [], False)
              else (Some (Inr s), left, False))
      | Some (Inl e) \<Rightarrow> (Some (Inl (Utf8Transport e)), buffer, False)
      | None \<Rightarrow>
          (if buffer = [] then (None, [], True)
           else let (s, left) = utf8_decode buffer
                in (Some (if left = [] then Inr s else Inl Utf8Invalid), [], True)))"

section \<open>Lines\<close>

text \<open>
  The parsers of \<open>nom\<close>, by their documentation: a streaming parser that would need more input to decide is
  \<open>PIncomplete\<close>; an alternative is only tried after an error.
\<close>

datatype 'a presult = POk rstr 'a | PIncomplete | PError

type_synonym 'a parser = "rstr \<Rightarrow> 'a presult"

definition tag :: "rstr \<Rightarrow> rstr parser" where
  "tag t s = (if starts_with s t then POk (drop (length t) s) t
     else if starts_with t s then PIncomplete else PError)"

definition take_one :: "(int \<Rightarrow> bool) \<Rightarrow> rstr parser" where
  "take_one P s = (case s of [] \<Rightarrow> PIncomplete | c # r \<Rightarrow> if P c then POk r [c] else PError)"

definition take_one_complete :: "(int \<Rightarrow> bool) \<Rightarrow> rstr parser" where
  "take_one_complete P s = (case s of [] \<Rightarrow> PError | c # r \<Rightarrow> if P c then POk r [c] else PError)"

definition take_while :: "(int \<Rightarrow> bool) \<Rightarrow> rstr parser" where
  "take_while P s =
     (if dropWhile P s = [] then PIncomplete else POk (dropWhile P s) (takeWhile P s))"

definition take_while1 :: "(int \<Rightarrow> bool) \<Rightarrow> rstr parser" where
  "take_while1 P s =
     (if dropWhile P s = [] then PIncomplete
      else if takeWhile P s = [] then PError else POk (dropWhile P s) (takeWhile P s))"

definition pbind :: "'a parser \<Rightarrow> ('a \<Rightarrow> 'b parser) \<Rightarrow> 'b parser" where
  "pbind p f s = (case p s of POk r x \<Rightarrow> f x r | PIncomplete \<Rightarrow> PIncomplete | PError \<Rightarrow> PError)"

definition preturn :: "'a \<Rightarrow> 'a parser" where
  "preturn x s = POk s x"

definition palt :: "'a parser \<Rightarrow> 'a parser \<Rightarrow> 'a parser" where
  "palt p q s = (case p s of PError \<Rightarrow> q s | r \<Rightarrow> r)"

definition popt :: "'a parser \<Rightarrow> 'a option parser" where
  "popt p s = (case p s of POk r x \<Rightarrow> POk r (Some x) | PError \<Rightarrow> POk s None | PIncomplete \<Rightarrow> PIncomplete)"

definition preceded :: "'a parser \<Rightarrow> 'b parser \<Rightarrow> 'b parser" where
  "preceded p q = pbind p (\<lambda>_. q)"

definition terminated :: "'a parser \<Rightarrow> 'b parser \<Rightarrow> 'a parser" where
  "terminated p q = pbind p (\<lambda>x. pbind q (\<lambda>_. preturn x))"

datatype raw_event_line = LComment rstr | LField rstr "rstr option" | LEmpty

definition is_lf :: "int \<Rightarrow> bool" where "is_lf c \<longleftrightarrow> c = 10"
definition is_cr :: "int \<Rightarrow> bool" where "is_cr c \<longleftrightarrow> c = 13"
definition is_space :: "int \<Rightarrow> bool" where "is_space c \<longleftrightarrow> c = 32"
definition is_colon :: "int \<Rightarrow> bool" where "is_colon c \<longleftrightarrow> c = 58"
definition is_bom :: "int \<Rightarrow> bool" where "is_bom c \<longleftrightarrow> c = 65279"

definition is_name_char :: "int \<Rightarrow> bool" where
  "is_name_char c \<longleftrightarrow> 0 \<le> c \<and> c \<le> 9 \<or> 11 \<le> c \<and> c \<le> 12 \<or> 14 \<le> c \<and> c \<le> 57 \<or> 59 \<le> c \<and> c \<le> 1114111"

definition is_any_char :: "int \<Rightarrow> bool" where
  "is_any_char c \<longleftrightarrow> 0 \<le> c \<and> c \<le> 9 \<or> 11 \<le> c \<and> c \<le> 12 \<or> 14 \<le> c \<and> c \<le> 1114111"

definition crlf :: "rstr parser" where
  "crlf = tag [13, 10]"

definition end_of_line :: "rstr parser" where
  "end_of_line = palt crlf (palt (take_one_complete is_cr) (take_one_complete is_lf))"

definition comment :: "raw_event_line parser" where
  "comment = pbind (preceded (take_one is_colon) (terminated (take_while is_any_char) end_of_line))
     (\<lambda>c. preturn (LComment c))"

definition field :: "raw_event_line parser" where
  "field = pbind (terminated
       (pbind (take_while1 is_name_char) (\<lambda>name.
        pbind (popt (preceded (take_one is_colon)
                 (preceded (popt (take_one is_space)) (take_while is_any_char)))) (\<lambda>data.
        preturn (name, data))))
       end_of_line)
     (\<lambda>(name, data). preturn (LField name data))"

definition empty :: "raw_event_line parser" where
  "empty = pbind end_of_line (\<lambda>_. preturn LEmpty)"

definition line :: "raw_event_line parser" where
  "line = palt comment (palt field empty)"

section \<open>Events\<close>

record sse_event =
  ev_event :: rstr
  ev_data :: rstr
  ev_id :: rstr
  ev_retry :: "nat option"

definition event_default :: sse_event where
  "event_default = \<lparr>ev_event = [], ev_data = [], ev_id = [], ev_retry = None\<rparr>"

record event_builder =
  eb_event :: sse_event
  eb_is_complete :: bool

definition builder_default :: event_builder where
  "builder_default = \<lparr>eb_event = event_default, eb_is_complete = False\<rparr>"

text \<open>\<open>str::parse::<u64>\<close>: digits after an optional plus sign, within the range of the type.\<close>

definition parse_u64 :: "rstr \<Rightarrow> nat option" where
  "parse_u64 s =
     (let digits = (case s of c # r \<Rightarrow> if c = 43 then r else s | [] \<Rightarrow> []);
          n = foldl (\<lambda>n d. n * 10 + nat (d - 48)) 0 digits
      in if digits \<noteq> [] \<and> list_all (\<lambda>c. 48 \<le> c \<and> c \<le> 57) digits \<and> n < 2 ^ 64 then Some n else None)"

definition builder_add :: "event_builder \<Rightarrow> raw_event_line \<Rightarrow> event_builder" where
  "builder_add b l =
     (case l of
        LField name value \<Rightarrow>
          let val = (case value of Some v \<Rightarrow> v | None \<Rightarrow> []); e = eb_event b
          in if name = lit ''event'' then b\<lparr>eb_event := e\<lparr>ev_event := val\<rparr>\<rparr>
             else if name = lit ''data'' then b\<lparr>eb_event := e\<lparr>ev_data := ev_data e @ val @ [10]\<rparr>\<rparr>
             else if name = lit ''id'' \<and> 0 \<notin> set val then b\<lparr>eb_event := e\<lparr>ev_id := val\<rparr>\<rparr>
             else if name = lit ''retry''
             then (case parse_u64 val of Some n \<Rightarrow> b\<lparr>eb_event := e\<lparr>ev_retry := Some n\<rparr>\<rparr> | None \<Rightarrow> b)
             else b
      | LComment _ \<Rightarrow> b
      | LEmpty \<Rightarrow> b\<lparr>eb_is_complete := True\<rparr>)"

definition builder_dispatch :: "event_builder \<Rightarrow> sse_event option \<times> event_builder" where
  "builder_dispatch b =
     (let e = eb_event b;
          b' = builder_default\<lparr>eb_event := event_default\<lparr>ev_id := ev_id e\<rparr>\<rparr>
      in if ev_data e = [] then (None, b')
         else let e = (if is_lf (last (ev_data e)) then e\<lparr>ev_data := butlast (ev_data e)\<rparr> else e);
                  e = (if ev_event e = [] then e\<lparr>ev_event := lit ''message''\<rparr> else e)
              in (Some e, b'))"

section \<open>Parsing the buffer\<close>

lemma dropWhile_shorter: "takeWhile P s \<noteq> [] \<Longrightarrow> length (dropWhile P s) < length s"
  by (cases s) (simp_all add: length_dropWhile_le le_imp_less_Suc split: if_splits)

lemma end_of_line_shorter: "end_of_line s = POk r x \<Longrightarrow> length r < length s"
  by (auto simp: end_of_line_def palt_def crlf_def tag_def take_one_complete_def starts_with_prefix
      dest!: prefix_length_le split: if_splits list.splits presult.splits)

lemma take_while_shorter: "take_while P s = POk r x \<Longrightarrow> length r \<le> length s"
  by (auto simp: take_while_def length_dropWhile_le split: if_splits)

lemma opt_value_shorter:
  "popt (preceded (take_one P) (preceded (popt (take_one Q)) (take_while R))) s = POk r x \<Longrightarrow> length r \<le> length s"
  by (auto simp: popt_def preceded_def pbind_def take_one_def dest!: take_while_shorter
      split: presult.splits list.splits if_splits)

lemma line_shorter:
  assumes "line s = POk r x"
  shows "length r < length s"
proof -
  have comment: "length r < length s" if "comment s = POk r x" for s r x
    using that
    by (auto simp: comment_def preceded_def terminated_def pbind_def preturn_def take_one_def
        dest!: take_while_shorter end_of_line_shorter split: presult.splits list.splits if_splits)
  have field: "length r < length s" if "field s = POk r x" for s r x
    using that dropWhile_shorter [of is_name_char s]
    by (auto simp: field_def terminated_def pbind_def preturn_def take_while1_def
        dest!: opt_value_shorter end_of_line_shorter split: presult.splits if_splits)
  show ?thesis
    using assms comment field
    by (auto simp: line_def palt_def empty_def pbind_def preturn_def dest!: end_of_line_shorter
        split: presult.splits)
qed

text \<open>\<open>parse_event\<close>: the buffer and the builder are changed in place; an error of the parser is \<open>Inl\<close>.\<close>

function parse_event ::
  "rstr \<Rightarrow> event_builder \<Rightarrow> (unit + sse_event option) \<times> rstr \<times> event_builder" where
  "parse_event buffer builder =
     (if buffer = [] then (Inr None, buffer, builder)
      else case line buffer of
        POk rem next_line \<Rightarrow>
          let b = builder_add builder next_line
          in if eb_is_complete b
             then (case builder_dispatch b of
                 (Some event, b') \<Rightarrow> (Inr (Some event), rem, b')
               | (None, b') \<Rightarrow> parse_event rem b')
             else parse_event rem b
      | PIncomplete \<Rightarrow> (Inr None, buffer, builder)
      | PError \<Rightarrow> (Inl (), buffer, builder))"
  by pat_completeness auto

termination
  by (relation "measure (\<lambda>(buffer, _). length buffer)") (simp_all add: line_shorter)

declare parse_event.simps [simp del]

section \<open>The stream\<close>

definition max_event_buffer :: nat where
  "max_event_buffer = 1024 * 1024"

datatype event_stream_state = NotStarted | Started | Terminated

record event_stream =
  es_bytes :: "int list"
  es_ended :: bool
  es_buffer :: rstr
  es_builder :: event_builder
  es_state :: event_stream_state
  es_last_event_id :: rstr

definition event_stream_new :: event_stream where
  "event_stream_new = \<lparr>es_bytes = [], es_ended = False, es_buffer = [], es_builder = builder_default,
     es_state = NotStarted, es_last_event_id = []\<rparr>"

definition set_last_event_id :: "rstr \<Rightarrow> event_stream \<Rightarrow> event_stream" where
  "set_last_event_id i s = s\<lparr>es_last_event_id := i\<rparr>"

datatype 'e event_stream_error = SseUtf8 | SseParser | SseTransport 'e

fun stream_error_of :: "'e utf8_stream_error \<Rightarrow> 'e event_stream_error" where
  "stream_error_of Utf8Invalid = SseUtf8"
| "stream_error_of (Utf8Transport e) = SseTransport e"

text \<open>The call of \<open>parse_event\<close> at the two places of \<open>poll_next\<close>: \<open>None\<close> if there is no whole event yet.\<close>

definition parse_next :: "event_stream \<Rightarrow> ('e event_stream_error + sse_event) option \<times> event_stream" where
  "parse_next s =
     (case parse_event (es_buffer s) (es_builder s) of
        (r, buffer, builder) \<Rightarrow>
          let s = s\<lparr>es_buffer := buffer, es_builder := builder\<rparr>
          in case r of
               Inr (Some event) \<Rightarrow> (Some (Inr event), s\<lparr>es_last_event_id := ev_id event\<rparr>)
             | Inl _ \<Rightarrow> (Some (Inl SseParser), s)
             | Inr None \<Rightarrow> (None, s))"

definition strip_bom :: "rstr \<Rightarrow> rstr" where
  "strip_bom s = (case s of [] \<Rightarrow> [] | c # r \<Rightarrow> if is_bom c then r else s)"

text \<open>A decoded string is taken into the buffer, unless that gets too long.\<close>

definition take_in :: "rstr \<Rightarrow> event_stream \<Rightarrow> 'e event_stream_error option \<times> event_stream" where
  "take_in text1 s =
     (let slice = (if es_state s = Started then text1 else strip_bom text1);
          s = s\<lparr>es_state := Started\<rparr>
      in if utf8_len (es_buffer s) + utf8_len slice > max_event_buffer
         then (Some SseParser, s\<lparr>es_buffer := []\<rparr>)
         else (None, s\<lparr>es_buffer := es_buffer s @ slice\<rparr>))"

lemma utf8_poll_ended: "utf8_poll buffer None = (item, bytes, ended) \<Longrightarrow> ended"
  by (auto simp: utf8_poll_def split: if_splits prod.splits)

lemma keeps_ended [simp]:
  "es_ended (snd (parse_next s)) = es_ended s" "es_ended (snd (take_in text1 s)) = es_ended s"
  by (simp_all add: parse_next_def take_in_def Let_def split: prod.split sum.split option.split)

lemma ended_kept:
  "(r, s') = parse_next s \<Longrightarrow> es_ended s' = es_ended s" "(e, s') = take_in text1 s \<Longrightarrow> es_ended s' = es_ended s"
  by (metis keeps_ended snd_conv)+

text \<open>The transport: the chunks it is still going to give, then its end.\<close>

function poll_bytes ::
  "event_stream \<Rightarrow> ('e + int list) list
     \<Rightarrow> ('e event_stream_error + sse_event) option \<times> event_stream \<times> ('e + int list) list" where
  "poll_bytes s given =
     (if es_ended s then (None, s\<lparr>es_state := Terminated\<rparr>, given)
      else let (item, bytes, ended) = utf8_poll (es_bytes s) (case given of [] \<Rightarrow> None | g # _ \<Rightarrow> Some g);
               s = s\<lparr>es_bytes := bytes, es_ended := ended\<rparr>
           in case item of
                None \<Rightarrow> (None, s\<lparr>es_state := Terminated\<rparr>, tl given)
              | Some (Inl e) \<Rightarrow> (Some (Inl (stream_error_of e)), s, tl given)
              | Some (Inr text1) \<Rightarrow>
                  if text1 = [] then poll_bytes s (tl given)
                  else case take_in text1 s of
                    (Some e, s) \<Rightarrow> (Some (Inl e), s, tl given)
                  | (None, s) \<Rightarrow>
                      (case parse_next s of
                         (Some r, s) \<Rightarrow> (Some r, s, tl given)
                       | (None, s) \<Rightarrow> poll_bytes s (tl given)))"
  by pat_completeness auto

termination
proof (relation "measure (\<lambda>(s, given). length given + (if es_ended s then 0 else 1))", goal_cases)
  case (2 s given x item y bytes ended a b)
  then show ?case by (cases given) (auto dest: utf8_poll_ended [OF sym])
next
  case prems: (3 s given x item y bytes ended a b)
  then show ?case by (cases given) (auto dest!: utf8_poll_ended [OF sym] ended_kept)
qed simp

declare poll_bytes.simps [simp del]

definition poll_next ::
  "event_stream \<Rightarrow> ('e + int list) list
     \<Rightarrow> ('e event_stream_error + sse_event) option \<times> event_stream \<times> ('e + int list) list" where
  "poll_next s given =
     (case parse_next s of
        (Some r, s) \<Rightarrow> (Some r, s, given)
      | (None, s) \<Rightarrow> if es_state s = Terminated then (None, s, given) else poll_bytes s given)"

text \<open>A consumer that polls until the end: the items in order.\<close>

partial_function (option) collect ::
  "event_stream \<Rightarrow> ('e + int list) list \<Rightarrow> ('e event_stream_error + sse_event) list option" where
  "collect s given =
     (case poll_next s given of
        (None, _, _) \<Rightarrow> Some []
      | (Some item, s', given') \<Rightarrow> Option.bind (collect s' given') (\<lambda>items. Some (item # items)))"

section \<open>Decoding in pieces\<close>

lemma utf8_char_append: "utf8_char bs = Some (c, r) \<Longrightarrow> utf8_char (bs @ t) = Some (c, r @ t)"
  by (auto simp: utf8_char_def split: list.splits if_splits)

lemma utf8_char_needs: "utf8_char bs = None \<Longrightarrow> utf8_char (bs @ t) \<noteq> None \<Longrightarrow> length bs \<le> 3"
  by (auto simp: utf8_char_def split: list.splits if_splits)

definition is_char :: "int \<Rightarrow> bool" where
  "is_char c \<longleftrightarrow> 0 \<le> c \<and> c \<le> 1114111"

lemma utf8_char_is_char: "utf8_char bs = Some (c, r) \<Longrightarrow> is_char c"
proof -
  have "is_char ((a - 192) * 64 + (b - 128))" if "seq2 a b" for a b
    using that by (simp add: seq2_def cont_def is_char_def)
  moreover have "is_char ((a - 224) * 4096 + (b - 128) * 64 + (c - 128))" if "seq3 a b c" for a b c
  proof -
    have "224 \<le> a" "a \<le> 239" "128 \<le> b" "b \<le> 191" "128 \<le> c" "c \<le> 191"
      using that by (auto simp: seq3_def cont_def)
    then show ?thesis by (simp add: is_char_def)
  qed
  moreover have "is_char ((a - 240) * 262144 + (b - 128) * 4096 + (c - 128) * 64 + (d - 128))" if "seq4 a b c d" for a b c d
  proof -
    have "240 \<le> a" "128 \<le> b" "128 \<le> c" "c \<le> 191" "128 \<le> d" "d \<le> 191"
      "a \<le> 243 \<and> b \<le> 191 \<or> a \<le> 244 \<and> b \<le> 143"
      using that by (auto simp: seq4_def cont_def)
    then show ?thesis by (auto simp: is_char_def)
  qed
  moreover have "is_char a" if "0 \<le> a" "a < 128" for a
    using that by (simp add: is_char_def)
  ultimately show "utf8_char bs = Some (c, r) \<Longrightarrow> is_char c"
    by (simp add: utf8_char_def split: list.splits if_splits) blast+
qed

lemma utf8_decode_append:
  "utf8_decode (bs @ t) =
     (let (s, left) = utf8_decode bs; (s', left') = utf8_decode (left @ t) in (s @ s', left'))"
proof (induction bs rule: utf8_decode.induct)
  case (1 bs)
  show ?case
  proof (cases "utf8_char bs")
    case None
    then show ?thesis by (simp add: utf8_decode.simps [of bs] split: prod.split)
  next
    case (Some p)
    then obtain c r where "utf8_char bs = Some (c, r)" by (cases p) simp
    then show ?thesis
      using 1 utf8_char_append [of bs c r t]
      by (simp add: utf8_decode.simps [of bs] utf8_decode.simps [of "bs @ t"] split: prod.split)
  qed
qed

lemma utf8_decode_is_char: "utf8_decode bs = (s, left) \<Longrightarrow> list_all is_char s"
proof (induction bs arbitrary: s rule: utf8_decode.induct)
  case (1 bs)
  then show ?case
    by (auto simp: utf8_decode.simps [of bs] split: option.splits prod.splits dest: utf8_char_is_char)
qed

lemma utf8_left_None: "utf8_decode bs = (s, left) \<Longrightarrow> utf8_char left = None"
proof (induction bs arbitrary: s rule: utf8_decode.induct)
  case (1 bs)
  then show ?case
    by (auto simp: utf8_decode.simps [of bs] split: option.splits prod.splits)
qed

lemma utf8_undecoded: "utf8_char bs = None \<Longrightarrow> utf8_decode bs = ([], bs)"
  by (simp add: utf8_decode.simps)

text \<open>What is left of a prefix of valid bytes is at most three bytes of a character.\<close>

lemma utf8_left_short:
  assumes "utf8_decode bs = (s, left)" "utf8_decode (left @ t) = (s', [])"
  shows "length left \<le> 3"
proof (cases "left = []")
  case False
  have none: "utf8_char left = None" by (rule utf8_left_None [OF assms(1)])
  have "utf8_char (left @ t) \<noteq> None"
    using assms(2) False by (auto simp: utf8_decode.simps [of "left @ t"] split: option.splits)
  then show ?thesis using none by (rule utf8_char_needs [rotated])
qed simp

section \<open>Lines of the text\<close>

abbreviation is_nl :: "int \<Rightarrow> bool" where
  "is_nl c \<equiv> c = 10 \<or> c = 13"

text \<open>The first line of a text without its end, and the rest; a carriage return at the very end might
  be half of an end of line.\<close>

fun take_line :: "rstr \<Rightarrow> (rstr \<times> rstr) option" where
  "take_line [] = None"
| "take_line (c # s) =
     (if c = 10 then Some ([], s)
      else if c = 13 then (case s of [] \<Rightarrow> None | d # r \<Rightarrow> Some ([], if d = 10 then r else s))
      else map_option (\<lambda>(l, r). (c # l, r)) (take_line s))"

definition line_of :: "rstr \<Rightarrow> raw_event_line" where
  "line_of l =
     (case l of
        [] \<Rightarrow> LEmpty
      | c # s \<Rightarrow>
          if c = 58 then LComment s
          else LField (takeWhile (\<lambda>c. c \<noteq> 58) l)
            (case dropWhile (\<lambda>c. c \<noteq> 58) l of
               [] \<Rightarrow> None
             | _ # v \<Rightarrow> Some (case v of [] \<Rightarrow> [] | d # v' \<Rightarrow> if d = 32 then v' else v)))"

lemma take_line_append: "take_line s = Some (l, r) \<Longrightarrow> take_line (s @ t) = Some (l, r @ t)"
proof (induction s arbitrary: l)
  case (Cons c s)
  then show ?case by (cases s) (auto split: if_splits)
qed simp

lemma take_line_shorter: "take_line s = Some (l, r) \<Longrightarrow> length r < length s"
proof (induction s arbitrary: l)
  case (Cons c s)
  then show ?case by (cases s) (auto split: if_splits)
qed simp

lemma end_of_line_simps [simp]:
  "end_of_line [] = PIncomplete"
  "end_of_line (10 # s) = POk s [10]"
  "end_of_line [13] = PIncomplete"
  "end_of_line (13 # c # s) = (if c = 10 then POk s [13, 10] else POk (c # s) [13])"
  by (simp_all add: end_of_line_def palt_def crlf_def tag_def take_one_complete_def starts_with_def
      is_cr_def is_lf_def)

lemma take_line_eol:
  "(case end_of_line (dropWhile (\<lambda>c. \<not> is_nl c) s) of POk r _ \<Rightarrow> take_line s = Some (takeWhile (\<lambda>c. \<not> is_nl c) s, r)
    | PIncomplete \<Rightarrow> take_line s = None | PError \<Rightarrow> False)"
proof (induction s)
  case (Cons c s)
  then show ?case by (cases s) (auto split: presult.splits)
qed simp

lemma chars_of_text:
  assumes "is_char c"
  shows "is_any_char c \<longleftrightarrow> \<not> is_nl c" "is_name_char c \<longleftrightarrow> \<not> is_nl c \<and> c \<noteq> 58"
  using assms by (auto simp: is_char_def is_any_char_def is_name_char_def)

lemma takeWhile_chars:
  assumes "list_all is_char s"
  shows "takeWhile is_any_char s = takeWhile (\<lambda>c. \<not> is_nl c) s"
    "dropWhile is_any_char s = dropWhile (\<lambda>c. \<not> is_nl c) s"
    "takeWhile is_name_char s = takeWhile (\<lambda>c. \<not> is_nl c \<and> c \<noteq> 58) s"
    "dropWhile is_name_char s = dropWhile (\<lambda>c. \<not> is_nl c \<and> c \<noteq> 58) s"
  using assms chars_of_text
  by (auto simp: list_all_iff intro!: takeWhile_cong dropWhile_cong)

definition text_to_eol :: "rstr parser" where
  "text_to_eol = terminated (take_while is_any_char) end_of_line"

lemma text_to_eol:
  assumes "list_all is_char s"
  shows "text_to_eol s = (case take_line s of None \<Rightarrow> PIncomplete | Some (l, r) \<Rightarrow> POk r l)"
  using take_line_eol [of s]
  by (cases "dropWhile (\<lambda>c. \<not> is_nl c) s = []")
    (simp_all add: text_to_eol_def terminated_def pbind_def preturn_def take_while_def takeWhile_chars [OF assms]
      del: dropWhile_eq_Nil_conv split: presult.splits)


lemma take_line_no_nl: "list_all (\<lambda>c. \<not> is_nl c) n \<Longrightarrow> take_line (n @ s) = map_option (\<lambda>(l, r). (n @ l, r)) (take_line s)"
  by (cases "take_line s"; induction n) auto

lemma take_line_nl:
  "is_nl c \<Longrightarrow> take_line (c # s) = (case end_of_line (c # s) of POk r _ \<Rightarrow> Some ([], r) | _ \<Rightarrow> None)
     \<and> end_of_line (c # s) \<noteq> PError"
  by (cases s) auto

lemma take_while_no_error: "take_while P s \<noteq> PError"
  by (simp add: take_while_def)

lemma take_line_hd: "take_line (x # s) = Some (l, r) \<Longrightarrow> l = [] \<or> hd l = x"
  by (cases s) (auto split: if_splits)

lemma line_of_field:
  assumes "n \<noteq> []" "58 \<notin> set n"
  shows "line_of (n @ 58 # l) = LField n (Some (case l of [] \<Rightarrow> [] | d # l' \<Rightarrow> if d = 32 then l' else l))"
proof -
  have "takeWhile (\<lambda>c. c \<noteq> 58) (n @ 58 # l) = n" "dropWhile (\<lambda>c. c \<noteq> 58) (n @ 58 # l) = 58 # l"
    using assms(2) by (auto simp: takeWhile_append dropWhile_append)
  moreover have "hd n \<noteq> 58" using assms by (metis list.set_sel(1))
  ultimately show ?thesis using assms(1) by (cases n) (simp_all add: line_of_def)
qed

lemma line_of_name:
  assumes "n \<noteq> []" "58 \<notin> set n"
  shows "line_of n = LField n None"
proof -
  have "takeWhile (\<lambda>c. c \<noteq> 58) n = n" "dropWhile (\<lambda>c. c \<noteq> 58) n = []"
    using assms(2) by auto
  moreover have "hd n \<noteq> 58" using assms by (metis list.set_sel(1))
  moreover have "line_of n = (if hd n = 58 then LComment (tl n) else LField (takeWhile (\<lambda>c. c \<noteq> 58) n)
      (case dropWhile (\<lambda>c. c \<noteq> 58) n of
         [] \<Rightarrow> None
       | _ # v \<Rightarrow> Some (case v of [] \<Rightarrow> [] | d # v' \<Rightarrow> if d = 32 then v' else v)))"
    using assms(1) by (simp add: line_of_def split: list.split)
  ultimately show ?thesis by (simp only: if_False list.case)
qed

lemma field_line:
  assumes chars: "list_all is_char s" and s: "s = c # s'" and c: "\<not> is_nl c" "c \<noteq> 58"
  shows "field s = (case take_line s of None \<Rightarrow> PIncomplete | Some (l, r) \<Rightarrow> POk r (line_of l))"
proof -
  let ?P = "\<lambda>c. \<not> is_nl c \<and> c \<noteq> 58"
  let ?n = "takeWhile ?P s" and ?d = "dropWhile ?P s"
  have n: "?n = c # takeWhile ?P s'" using c s by simp
  have take1: "take_while1 is_name_char s = (if ?d = [] then PIncomplete else POk ?d ?n)"
    using n by (simp add: take_while1_def takeWhile_chars [OF chars] del: dropWhile_eq_Nil_conv)
  have "list_all (\<lambda>c. \<not> is_nl c) ?n" by (auto simp: list_all_iff dest: set_takeWhileD)
  then have split: "take_line s = map_option (\<lambda>(l, r). (?n @ l, r)) (take_line ?d)"
    using take_line_no_nl [of ?n ?d] by simp
  have chars_d: "list_all is_char ?d"
    using chars by (auto simp: list_all_iff dest: set_dropWhileD)
  show ?thesis
  proof (cases ?d)
    case Nil
    then show ?thesis using take1 split by (simp add: field_def terminated_def pbind_def del: dropWhile_eq_Nil_conv)
  next
    case (Cons e d)
    then have e: "is_nl e \<or> e = 58" by (metis (mono_tags, lifting) dropWhile_eq_Cons_conv)
    show ?thesis
    proof (cases "e = 58")
      case True
      have chars_v: "list_all is_char d" using chars_d Cons by simp
      have plain_n: "58 \<notin> set ?n" by (auto dest: set_takeWhileD)
      show ?thesis
      proof (cases d)
        case Nil
        then show ?thesis
          using Cons take1 split True n
          by (simp add: field_def terminated_def pbind_def popt_def preceded_def take_one_def is_colon_def)
      next
        case d: (Cons x d')
        define v where "v = (if x = 32 then d' else d)"
        have "field s = (case text_to_eol v of POk r l \<Rightarrow> POk r (LField ?n (Some l))
            | PIncomplete \<Rightarrow> PIncomplete | PError \<Rightarrow> PError)"
          using Cons take1 True n d take_while_no_error [of is_any_char v]
          by (cases "take_while is_any_char v"; cases "x = 32")
            (simp_all add: field_def terminated_def pbind_def popt_def preceded_def take_one_def is_colon_def
              is_space_def text_to_eol_def preturn_def v_def split: presult.splits)
        moreover have "list_all is_char v" using chars_v d by (simp add: v_def)
        moreover have "take_line s = map_option (\<lambda>(l, r). (?n @ 58 # (if x = 32 then 32 # l else l), r)) (take_line v)"
        proof (cases "x = 32")
          case True
          then show ?thesis
            using split Cons \<open>e = 58\<close> d by (cases "take_line d'") (auto simp: v_def)
        next
          case False
          then show ?thesis
            using split Cons \<open>e = 58\<close> by (cases "take_line d") (auto simp: v_def)
        qed
        moreover have "line_of (?n @ 58 # (if x = 32 then 32 # l else l)) = LField ?n (Some l)"
          if "take_line v = Some (l, r)" for l r
          using line_of_field [of ?n "if x = 32 then 32 # l else l"] n plain_n that d take_line_hd [of x d' l r]
          by (cases l) (auto simp: v_def split: if_splits)
        ultimately show ?thesis
          by (auto simp: text_to_eol split: option.split)
      qed
    next
      case False
      then have "is_nl e" using e by simp
      from take_line_nl [OF this, of d]
      have eol: "end_of_line (e # d) \<noteq> PError"
        "take_line (e # d) = (case end_of_line (e # d) of POk r _ \<Rightarrow> Some ([], r) | _ \<Rightarrow> None)" by blast+
      have "line_of ?n = LField ?n None"
        using n by (intro line_of_name) (simp, blast dest: set_takeWhileD)
      then show ?thesis
        using Cons take1 split False eol
        by (cases "end_of_line (e # d)")
          (simp_all add: field_def terminated_def pbind_def preturn_def popt_def preceded_def take_one_def
            is_colon_def del: take_line.simps)
    qed
  qed
qed

text \<open>The streaming parser is the splitting into lines: it waits exactly when no line is complete, and
  never fails.\<close>

lemma line_spec:
  assumes "list_all is_char s"
  shows "line s = (case take_line s of None \<Rightarrow> PIncomplete | Some (l, r) \<Rightarrow> POk r (line_of l))"
proof (cases s)
  case Nil
  then show ?thesis by (simp add: line_def palt_def comment_def preceded_def pbind_def take_one_def)
next
  case (Cons c s')
  consider "c = 58" | "is_nl c" | "\<not> is_nl c" "c \<noteq> 58" by blast
  then show ?thesis
  proof cases
    case 1
    have "comment s = (case text_to_eol s' of POk r l \<Rightarrow> POk r (LComment l) | PIncomplete \<Rightarrow> PIncomplete | PError \<Rightarrow> PError)"
      using Cons 1
      by (simp add: comment_def preceded_def pbind_def take_one_def is_colon_def text_to_eol_def preturn_def split: presult.split)
    moreover have "list_all is_char s'" using assms Cons by simp
    ultimately show ?thesis
      using Cons 1 by (auto simp: line_def palt_def text_to_eol line_of_def split: option.split)
  next
    case 2
    then have "\<not> is_name_char c" "c \<noteq> 58" using Cons assms chars_of_text by auto
    then have "comment s = PError" "field s = PError"
      using Cons
      by (simp_all add: comment_def preceded_def pbind_def take_one_def is_colon_def field_def terminated_def
          take_while1_def)
    then show ?thesis
      using Cons take_line_nl [OF 2, of s']
      by (auto simp: line_def palt_def empty_def pbind_def preturn_def line_of_def split: presult.splits)
  next
    case 3
    then have "comment s = PError"
      using Cons by (simp add: comment_def preceded_def pbind_def take_one_def is_colon_def)
    then show ?thesis
      using field_line [OF assms Cons 3] by (auto simp: line_def palt_def split: option.split)
  qed
qed

section \<open>The events of a text\<close>

text \<open>The reference: the complete lines of a text and what is left, and the events the lines make.\<close>

function complete_lines :: "rstr \<Rightarrow> rstr list \<times> rstr" where
  "complete_lines s =
     (case take_line s of
        None \<Rightarrow> ([], s)
      | Some (l, r) \<Rightarrow> let (ls, left) = complete_lines r in (l # ls, left))"
  by pat_completeness auto

termination
  by (relation "measure length") (auto simp: take_line_shorter)

declare complete_lines.simps [simp del]

fun feed :: "event_builder \<Rightarrow> rstr list \<Rightarrow> sse_event list \<times> event_builder" where
  "feed b [] = ([], b)"
| "feed b (l # ls) =
     (let b1 = builder_add b (line_of l)
      in if eb_is_complete b1
         then (case builder_dispatch b1 of
             (Some e, b2) \<Rightarrow> (let (es, b3) = feed b2 ls in (e # es, b3))
           | (None, b2) \<Rightarrow> feed b2 ls)
         else feed b1 ls)"

definition events_of :: "event_builder \<Rightarrow> rstr \<Rightarrow> sse_event list" where
  "events_of b s = fst (feed b (fst (complete_lines s)))"

lemma complete_lines_append:
  "complete_lines (s @ t) =
     (let (ls, left) = complete_lines s; (ls', left') = complete_lines (left @ t) in (ls @ ls', left'))"
proof (induction s rule: complete_lines.induct)
  case (1 s)
  show ?case
  proof (cases "take_line s")
    case None
    then show ?thesis by (simp add: complete_lines.simps [of s] split: prod.split)
  next
    case (Some p)
    then obtain l r where "take_line s = Some (l, r)" by (cases p) simp
    then show ?thesis
      using 1 take_line_append [of s l r t]
      by (simp add: complete_lines.simps [of s] complete_lines.simps [of "s @ t"] split: prod.split)
  qed
qed

lemma complete_lines_left: "complete_lines s = (ls, left) \<Longrightarrow> take_line left = None"
proof (induction s arbitrary: ls rule: complete_lines.induct)
  case (1 s)
  then show ?case by (auto simp: complete_lines.simps [of s] split: option.splits prod.splits)
qed

lemma take_line_suffix: "take_line s = Some (l, r) \<Longrightarrow> suffix r s"
proof (induction s arbitrary: l)
  case (Cons c s)
  then show ?case by (cases s) (auto intro: suffix_ConsI split: if_splits)
qed simp

lemma events_of_line:
  "take_line s = Some (l, r) \<Longrightarrow> events_of b (s @ t) =
     (let b1 = builder_add b (line_of l)
      in if eb_is_complete b1
         then (case builder_dispatch b1 of
             (Some e, b2) \<Rightarrow> e # events_of b2 (r @ t) | (None, b2) \<Rightarrow> events_of b2 (r @ t))
         else events_of b1 (r @ t))"
  using take_line_append [of s l r t]
  by (cases "complete_lines (r @ t)"; cases "builder_dispatch (builder_add b (line_of l))"; cases "fst (builder_dispatch (builder_add b (line_of l)))")
    (simp_all add: events_of_def complete_lines.simps [of "s @ t"] Let_def split: prod.split)

text \<open>\<open>parse_event\<close> takes the first of these events.\<close>

lemma parse_event_spec:
  assumes "list_all is_char s"
  shows "case parse_event s b of
      (Inl _, _, _) \<Rightarrow> False
    | (Inr None, s', b') \<Rightarrow> take_line s' = None \<and> suffix s' s \<and> (\<forall>t. events_of b (s @ t) = events_of b' (s' @ t))
    | (Inr (Some e), s', b') \<Rightarrow> length s' < length s \<and> suffix s' s \<and> (\<forall>t. events_of b (s @ t) = e # events_of b' (s' @ t))"
  using assms
proof (induction s b rule: parse_event.induct)
  case (1 s b)
  let ?P = "\<lambda>s b. case parse_event s b of
      (Inl _, _, _) \<Rightarrow> False
    | (Inr None, s', b') \<Rightarrow> take_line s' = None \<and> suffix s' s \<and> (\<forall>t. events_of b (s @ t) = events_of b' (s' @ t))
    | (Inr (Some e), s', b') \<Rightarrow> length s' < length s \<and> suffix s' s \<and> (\<forall>t. events_of b (s @ t) = e # events_of b' (s' @ t))"
  show ?case
  proof (cases "take_line s")
    case None
    then have "parse_event s b = (Inr None, s, b)"
      using line_spec [OF 1(3)] by (simp add: parse_event.simps [of s b])
    then show ?thesis using None by simp
  next
    case (Some p)
    then obtain l r where take: "take_line s = Some (l, r)" by (cases p) simp
    then have "line s = POk r (line_of l)" using line_spec [OF 1(3)] by simp
    moreover have "s \<noteq> []" using take by auto
    moreover have "list_all is_char r"
      using take_line_suffix [OF take] 1(3) by (auto simp: suffix_def)
    ultimately have IH:
      "eb_is_complete (builder_add b (line_of l)) \<Longrightarrow> builder_dispatch (builder_add b (line_of l)) = (None, b2) \<Longrightarrow> ?P r b2"
      "\<not> eb_is_complete (builder_add b (line_of l)) \<Longrightarrow> ?P r (builder_add b (line_of l))" for b2
      using 1(1,2) by simp_all
    have weaken: "?P s b" if "parse_event s b = parse_event r b'" "\<And>t. events_of b (s @ t) = events_of b' (r @ t)" "?P r b'" for b'
      using that take_line_shorter [OF take] take_line_suffix [OF take]
      by (auto split: prod.splits sum.splits option.splits intro: suffix_order.trans)
    note parse = parse_event.simps [of s b] and events = events_of_line [OF take, of b]
    note line = \<open>line s = POk r (line_of l)\<close> \<open>s \<noteq> []\<close>
    show ?thesis
    proof (cases "eb_is_complete (builder_add b (line_of l))")
      case False
      with parse events line IH(2) show ?thesis by (intro weaken) simp_all
    next
      case complete: True
      show ?thesis
      proof (cases "builder_dispatch (builder_add b (line_of l))")
        case (Pair e b2)
        show ?thesis
        proof (cases e)
          case None
          with parse events line IH(1) complete Pair show ?thesis by (intro weaken [of b2]) simp_all
        next
          case (Some e)
          with parse events line complete Pair take_line_shorter [OF take] take_line_suffix [OF take]
          show ?thesis by simp
        qed
      qed
    qed
  qed
qed

section \<open>The events of a stream\<close>

text \<open>What is still to be parsed when the transport is going to give the chunks \<open>bs\<close>.\<close>

definition pending_rest :: "event_stream \<Rightarrow> int list list \<Rightarrow> rstr" where
  "pending_rest s bs =
     (let rest = fst (utf8_decode (es_bytes s @ concat bs))
      in if es_state s = Started then rest else strip_bom rest)"

definition pending_text :: "event_stream \<Rightarrow> int list list \<Rightarrow> rstr" where
  "pending_text s bs = es_buffer s @ pending_rest s bs"

text \<open>The streams that neither malformed bytes nor the caps on the buffers interrupt.\<close>

definition sound :: "event_stream \<Rightarrow> int list list \<Rightarrow> bool" where
  "sound s bs \<longleftrightarrow> \<not> es_ended s \<and> es_state s \<noteq> Terminated
     \<and> snd (utf8_decode (es_bytes s @ concat bs)) = [] \<and> utf8_char (es_bytes s) = None
     \<and> list_all is_char (es_buffer s) \<and> utf8_len (pending_text s bs) \<le> max_event_buffer"

lemma take_in_sound:
  assumes "sound s (b # bs)" "utf8_decode (es_bytes s @ b) = (str1, left)" "str1 \<noteq> []"
    and s1: "s1 = s\<lparr>es_bytes := left, es_ended := False\<rparr>"
  shows "\<exists>s2. take_in str1 s1 = (None :: 'e event_stream_error option, s2) \<and> sound s2 bs \<and> es_builder s2 = es_builder s
    \<and> pending_text s2 bs = pending_text s (b # bs)"
proof -
  obtain rest where rest: "utf8_decode (left @ concat bs) = (rest, [])"
    "utf8_decode (es_bytes s @ b @ concat bs) = (str1 @ rest, [])"
    using assms(1,2) utf8_decode_append [of "es_bytes s @ b" "concat bs"]
    by (auto simp: sound_def split: prod.splits)
  define slice where "slice = (if es_state s = Started then str1 else strip_bom str1)"
  have pending: "pending_text s (b # bs) = es_buffer s @ slice @ rest"
    using rest assms(3) by (cases str1) (simp_all add: pending_text_def pending_rest_def slice_def strip_bom_def)
  then have len: "utf8_len (es_buffer s) + utf8_len slice \<le> max_event_buffer"
    using assms(1) by (simp add: sound_def)
  have chars: "list_all is_char slice"
    using utf8_decode_is_char [OF assms(2)] by (auto simp: slice_def strip_bom_def split: list.split)
  define s2 where "s2 = s\<lparr>es_bytes := left, es_ended := False, es_state := Started, es_buffer := es_buffer s @ slice\<rparr>"
  have "take_in str1 s1 = (None, s2)"
    using len by (simp add: take_in_def s1 s2_def slice_def)
  moreover have "pending_text s2 bs = pending_text s (b # bs)"
    using rest pending by (simp add: pending_text_def pending_rest_def s2_def)
  moreover have "sound s2 bs"
    using assms(1) chars rest utf8_left_None [OF assms(2)] calculation(2)
    by (simp add: sound_def s2_def)
  ultimately show ?thesis by (auto simp: s2_def)
qed

lemma parse_next_sound:
  assumes "sound s bs"
  shows "case (parse_next s :: ('e event_stream_error + sse_event) option \<times> event_stream) of
      (None, s') \<Rightarrow> sound s' bs \<and> take_line (es_buffer s') = None \<and> es_state s' = es_state s
        \<and> events_of (es_builder s) (pending_text s bs) = events_of (es_builder s') (pending_text s' bs)
    | (Some (Inl _), _) \<Rightarrow> False
    | (Some (Inr e), s') \<Rightarrow> sound s' bs \<and> length (es_buffer s') < length (es_buffer s)
        \<and> events_of (es_builder s) (pending_text s bs) = e # events_of (es_builder s') (pending_text s' bs)"
proof -
  obtain r buffer b where parse: "parse_event (es_buffer s) (es_builder s) = (r, buffer, b)"
    by (cases "parse_event (es_buffer s) (es_builder s)") auto
  have chars: "list_all is_char (es_buffer s)" using assms by (simp add: sound_def)
  note spec = parse_event_spec [OF chars, of "es_builder s", unfolded parse]
  have rest: "pending_rest (s\<lparr>es_buffer := buffer, es_builder := b, es_last_event_id := i\<rparr>) bs = pending_rest s bs" for i
    by (simp add: pending_rest_def)
  have keep: "sound (s\<lparr>es_buffer := buffer, es_builder := b, es_last_event_id := i\<rparr>) bs" if "suffix buffer (es_buffer s)" for i
    using assms that rest by (auto simp: sound_def pending_text_def suffix_def)
  show ?thesis
  proof (cases r)
    case (Inl u)
    then show ?thesis using spec by simp
  next
    case (Inr q)
    show ?thesis
    proof (cases q)
      case None
      then have "take_line buffer = None" "suffix buffer (es_buffer s)"
        "\<And>t. events_of (es_builder s) (es_buffer s @ t) = events_of b (buffer @ t)"
        using spec Inr by simp_all
      then show ?thesis
        using Inr None parse keep [of "es_last_event_id s"] rest [of "es_last_event_id s"]
        unfolding parse_next_def by (simp add: pending_text_def)
    next
      case (Some e)
      then have "length buffer < length (es_buffer s)" "suffix buffer (es_buffer s)"
        "\<And>t. events_of (es_builder s) (es_buffer s @ t) = e # events_of b (buffer @ t)"
        using spec Inr by simp_all
      then show ?thesis
        using Inr Some parse keep [of "ev_id e"] rest [of "ev_id e"]
        unfolding parse_next_def by (simp add: pending_text_def)
    qed
  qed
qed

lemma poll_bytes_sound:
  assumes "sound s bs" "take_line (es_buffer s) = None"
  shows "case poll_bytes s (map Inr bs :: ('e + int list) list) of
      (None, s', _) \<Rightarrow> events_of (es_builder s) (pending_text s bs) = []
    | (Some (Inl _), _, _) \<Rightarrow> False
    | (Some (Inr e), s', given) \<Rightarrow> \<exists>bs'. given = map Inr bs' \<and> sound s' bs' \<and> length bs' < length bs
        \<and> events_of (es_builder s) (pending_text s bs) = e # events_of (es_builder s') (pending_text s' bs')"
  using assms
proof (induction bs arbitrary: s)
  case Nil
  then have "es_bytes s = []" by (auto simp: sound_def dest: utf8_undecoded)
  then have "pending_text s [] = es_buffer s"
    by (simp add: pending_text_def pending_rest_def utf8_undecoded utf8_char_def strip_bom_def)
  then show ?case
    using Nil \<open>es_bytes s = []\<close>
    by (simp add: poll_bytes.simps sound_def utf8_poll_def events_of_def complete_lines.simps)
next
  case (Cons b bs)
  obtain str1 left where dec: "utf8_decode (es_bytes s @ b) = (str1, left)" by fastforce
  define s1 where "s1 = s\<lparr>es_bytes := left, es_ended := False\<rparr>"
  have running: "\<not> es_ended s" using Cons.prems by (simp add: sound_def)
  obtain rest where "utf8_decode (left @ concat bs) = (rest, [])"
    "utf8_decode (es_bytes s @ b @ concat bs) = (str1 @ rest, [])"
    using Cons.prems(1) dec utf8_decode_append [of "es_bytes s @ b" "concat bs"]
    by (auto simp: sound_def split: prod.splits)
  then have "length left \<le> 3" using utf8_left_short [OF dec] by blast
  then have poll: "utf8_poll (es_bytes s) (Some (Inr b :: 'e + int list)) = (Some (Inr str1), left, False)"
    using dec by (simp add: utf8_poll_def max_utf8_buffer_def)
  show ?case
  proof (cases "str1 = []")
    case True
    have "sound s1 bs" "pending_text s1 bs = pending_text s (b # bs)"
      using Cons.prems(1) dec True utf8_decode_append [of "es_bytes s @ b" "concat bs"] utf8_left_None [OF dec]
      by (simp_all add: sound_def s1_def pending_text_def pending_rest_def split: prod.splits)
    moreover have "poll_bytes s (map Inr (b # bs) :: ('e + int list) list) = poll_bytes s1 (map Inr bs)"
      using running poll True by (simp add: poll_bytes.simps [of s] s1_def)
    ultimately show ?thesis
      using Cons.IH [of s1] Cons.prems(2) by (fastforce simp: s1_def split: option.splits sum.splits prod.splits)
  next
    case False
    obtain s2 where s2: "take_in str1 s1 = (None :: 'e event_stream_error option, s2)" "sound s2 bs"
      "es_builder s2 = es_builder s" "pending_text s2 bs = pending_text s (b # bs)"
      using take_in_sound [OF Cons.prems(1) dec False s1_def] by blast
    obtain r s3 where parsed: "parse_next s2 = (r :: ('e event_stream_error + sse_event) option, s3)" by fastforce
    have step: "poll_bytes s (map Inr (b # bs) :: ('e + int list) list) =
        (case r of Some r \<Rightarrow> (Some r, s3, map Inr bs) | None \<Rightarrow> poll_bytes s3 (map Inr bs))"
      using running poll False s2(1) parsed by (cases r) (simp_all add: poll_bytes.simps [of s] s1_def)
    note sound = parse_next_sound [OF s2(2), where 'e = 'e, unfolded parsed]
    show ?thesis
    proof (cases r)
      case None
      then have "sound s3 bs" "take_line (es_buffer s3) = None"
        "events_of (es_builder s) (pending_text s (b # bs)) = events_of (es_builder s3) (pending_text s3 bs)"
        using sound s2 by simp_all
      then show ?thesis
        using Cons.IH [of s3] step None by (fastforce split: option.splits sum.splits prod.splits)
    next
      case (Some q)
      then show ?thesis using sound s2 step by (cases q) auto
    qed
  qed
qed

lemma poll_next_sound:
  assumes "sound s bs"
  shows "case poll_next s (map Inr bs :: ('e + int list) list) of
      (None, s', _) \<Rightarrow> events_of (es_builder s) (pending_text s bs) = []
    | (Some (Inl _), _, _) \<Rightarrow> False
    | (Some (Inr e), s', given) \<Rightarrow> \<exists>bs'. given = map Inr bs' \<and> sound s' bs'
        \<and> (length bs' < length bs \<or> bs' = bs \<and> length (es_buffer s') < length (es_buffer s))
        \<and> events_of (es_builder s) (pending_text s bs) = e # events_of (es_builder s') (pending_text s' bs')"
proof -
  obtain r s2 where parsed: "parse_next s = (r :: ('e event_stream_error + sse_event) option, s2)" by fastforce
  note sound = parse_next_sound [OF assms, where 'e = 'e, unfolded parsed]
  show ?thesis
  proof (cases r)
    case None
    then have "sound s2 bs" "take_line (es_buffer s2) = None" "es_state s2 \<noteq> Terminated"
      "events_of (es_builder s) (pending_text s bs) = events_of (es_builder s2) (pending_text s2 bs)"
      using sound by (auto simp: sound_def)
    with poll_bytes_sound [OF this(1,2), where 'e = 'e] show ?thesis
      using parsed None unfolding poll_next_def by (fastforce split: option.splits sum.splits prod.splits)
  next
    case (Some q)
    then show ?thesis using sound parsed by (cases q) (auto simp: poll_next_def)
  qed
qed

lemma collect_sound:
  "sound s bs \<Longrightarrow> collect s (map Inr bs :: ('e + int list) list) =
     Some (map Inr (events_of (es_builder s) (pending_text s bs)))"
proof (induction "(length bs, length (es_buffer s))" arbitrary: s bs rule: wf_induct_rule [OF wf_lex_prod [OF wf_less wf_less]])
  case 1
  note step = poll_next_sound [OF 1(2), where 'e = 'e]
  obtain r s' given where poll: "poll_next s (map Inr bs :: ('e + int list) list) = (r, s', given)"
    by (cases "poll_next s (map Inr bs :: ('e + int list) list)") auto
  show ?case
  proof (cases r)
    case None
    then show ?thesis using step poll by (simp add: collect.simps [of s])
  next
    case (Some q)
    then obtain e bs' where "q = Inr e" "given = map Inr bs'" "sound s' bs'"
      "length bs' < length bs \<or> bs' = bs \<and> length (es_buffer s') < length (es_buffer s)"
      "events_of (es_builder s) (pending_text s bs) = e # events_of (es_builder s') (pending_text s' bs')"
      using step poll by (cases q) auto
    moreover have "collect s' (map Inr bs' :: ('e + int list) list) =
        Some (map Inr (events_of (es_builder s') (pending_text s' bs')))"
      using 1(1) [of bs' s'] calculation by auto
    ultimately show ?thesis
      using Some poll by (simp add: collect.simps [of s])
  qed
qed

section \<open>Properties\<close>

lemma collect_valid:
  assumes "utf8_decode (concat chunks) = (s, [])" "utf8_len s \<le> max_event_buffer"
  shows "collect event_stream_new (map Inr chunks :: ('e + int list) list) =
    Some (map Inr (events_of builder_default (strip_bom s)))"
proof -
  have "utf8_len (strip_bom s) \<le> utf8_len s"
    by (cases s) (simp_all add: strip_bom_def utf8_len_def)
  then have "sound event_stream_new chunks"
    using assms by (simp add: sound_def event_stream_new_def pending_text_def pending_rest_def utf8_char_def)
  from collect_sound [OF this] show ?thesis
    using assms by (simp add: event_stream_new_def pending_text_def pending_rest_def)
qed

text \<open>What a server writes for an event: its lines of data, its type and its id.\<close>

definition render_event :: "rstr list \<Rightarrow> rstr \<Rightarrow> rstr \<Rightarrow> rstr" where
  "render_event data name i =
     lit ''event: '' @ name @ [10] @ lit ''id: '' @ i @ [10]
     @ concat (map (\<lambda>d. lit ''data: '' @ d @ [10]) data) @ [10]"

definition one_line :: "rstr \<Rightarrow> bool" where
  "one_line s \<longleftrightarrow> list_all (\<lambda>c. \<not> is_nl c) s"

lemma complete_lines_line:
  assumes "one_line l"
  shows "complete_lines (l @ 10 # s) = (let (ls, left) = complete_lines s in (l # ls, left))"
proof -
  have "take_line (l @ 10 # s) = Some (l, s)"
    using take_line_no_nl [of l "10 # s"] assms by (simp add: one_line_def)
  then show ?thesis by (simp add: complete_lines.simps [of "l @ 10 # s"])
qed

lemma one_line_simps [simp]: "one_line []" "one_line (c # s) \<longleftrightarrow> \<not> is_nl c \<and> one_line s"
  by (simp_all add: one_line_def)

lemma one_line_append [simp]: "one_line (s @ t) \<longleftrightarrow> one_line s \<and> one_line t"
  by (simp add: one_line_def)

lemma field_line_of:
  assumes "n \<noteq> []" "58 \<notin> set n"
  shows "line_of (n @ [58, 32] @ v) = LField n (Some v)"
  using line_of_field [OF assms, of "32 # v"] by simp

lemma render_lines:
  assumes "one_line name" "one_line i" "list_all one_line data"
  shows "complete_lines (render_event data name i @ s) =
    (let (ls, left) = complete_lines s
     in ((lit ''event'' @ [58, 32] @ name) # (lit ''id'' @ [58, 32] @ i)
         # map (\<lambda>d. lit ''data'' @ [58, 32] @ d) data @ [] # ls, left))"
proof -
  have prefixes: "lit ''event: '' = lit ''event'' @ [58, 32]" "lit ''id: '' = lit ''id'' @ [58, 32]"
    "lit ''data: '' = lit ''data'' @ [58, 32]" "one_line (lit ''event'' @ [58, 32])" "one_line (lit ''id'' @ [58, 32])"
    "one_line (lit ''data'' @ [58, 32])"
    by (simp_all add: lit_def one_line_def)
  have data: "complete_lines (concat (map (\<lambda>d. lit ''data: '' @ d @ [10]) data) @ t) =
      (let (ls, left) = complete_lines t in (map (\<lambda>d. lit ''data'' @ [58, 32] @ d) data @ ls, left))" for t
    using assms(3)
  proof (induction data)
    case (Cons d data)
    then have "one_line ((lit ''data'' @ [58, 32]) @ d)" using prefixes by simp
    from complete_lines_line [OF this] show ?case
      using Cons unfolding prefixes by (simp split: prod.split)
  qed (simp split: prod.split)
  have "one_line ((lit ''event'' @ [58, 32]) @ name)" "one_line ((lit ''id'' @ [58, 32]) @ i)" "one_line []"
    using assms prefixes by (simp_all add: one_line_def)
  note lines = this [THEN complete_lines_line]
  show ?thesis
    unfolding render_event_def prefixes(1,2)
    using lines(1) lines(2) lines(3) [of s] data [of "10 # s"]
    by (simp split: prod.split)
qed

definition builder_with_id :: "rstr \<Rightarrow> event_builder" where
  "builder_with_id i = builder_default\<lparr>eb_event := event_default\<lparr>ev_id := i\<rparr>\<rparr>"

lemma concat_lines: "data \<noteq> [] \<Longrightarrow> concat (map (\<lambda>d. d @ [10]) data) = join [10] data @ [10]"
proof (induction data)
  case (Cons d data)
  then show ?case by (cases data) simp_all
qed simp

lemma feed_data:
  assumes "\<not> eb_is_complete b"
  shows "feed b (map (\<lambda>d. lit ''data'' @ [58, 32] @ d) data @ ls) =
    feed (b\<lparr>eb_event := (eb_event b)\<lparr>ev_data := ev_data (eb_event b) @ concat (map (\<lambda>d. d @ [10]) data)\<rparr>\<rparr>) ls"
  using assms
proof (induction data arbitrary: b)
  case (Cons d data)
  have "line_of (lit ''data'' @ [58, 32] @ d) = LField (lit ''data'') (Some d)"
    by (rule field_line_of) (simp_all add: lit_def)
  moreover have "lit ''data'' \<noteq> lit ''event''" by (simp add: lit_def)
  ultimately show ?case using Cons by (simp add: builder_add_def Let_def)
qed simp

lemma feed_event:
  assumes "data \<noteq> []" "name \<noteq> []" "0 \<notin> set i"
  shows "feed (builder_with_id i0) ((lit ''event'' @ [58, 32] @ name) # (lit ''id'' @ [58, 32] @ i)
       # map (\<lambda>d. lit ''data'' @ [58, 32] @ d) data @ [] # ls) =
    (let (es, b) = feed (builder_with_id i) ls
     in (\<lparr>ev_event = name, ev_data = join [10] data, ev_id = i, ev_retry = None\<rparr> # es, b))"
proof -
  have names: "lit ''id'' \<noteq> lit ''event''" "lit ''id'' \<noteq> lit ''data''"
    "lit ''event'' \<noteq> []" "lit ''id'' \<noteq> []" "58 \<notin> set (lit ''event'')" "58 \<notin> set (lit ''id'')"
    by (simp_all add: lit_def)
  have event: "line_of (lit ''event'' @ [58, 32] @ name) = LField (lit ''event'') (Some name)"
    by (rule field_line_of) (use names in simp_all)
  have id: "line_of (lit ''id'' @ [58, 32] @ i) = LField (lit ''id'') (Some i)"
    by (rule field_line_of) (use names in simp_all)
  have empty: "line_of [] = LEmpty" by (simp add: line_of_def)
  note data = feed_data [where data = data, simplified append_Cons append_Nil]
  show ?thesis
    using assms event id empty names
    by (simp add: Let_def builder_add_def builder_with_id_def builder_default_def event_default_def data
        builder_dispatch_def concat_lines is_lf_def split: prod.split)
qed

lemma events_of_render:
  assumes "data \<noteq> [] \<and> name \<noteq> [] \<and> 0 \<notin> set i \<and> one_line name \<and> one_line i \<and> list_all one_line data"
  shows "events_of (builder_with_id i0) (render_event data name i @ s) =
    \<lparr>ev_event = name, ev_data = join [10] data, ev_id = i, ev_retry = None\<rparr> # events_of (builder_with_id i) s"
proof -
  obtain ls left where s: "complete_lines s = (ls, left)" by fastforce
  then show ?thesis
    using assms render_lines [of name i data s] feed_event [of data name i i0 ls]
    by (simp add: events_of_def Let_def del: feed.simps append_Cons split: prod.splits)
qed

text \<open>Events rendered as their type, id and lines of data come out of the stream one by one, with these lines
  joined, however the bytes are cut.\<close>

lemma sse_roundtrip:
  assumes "utf8_decode (concat chunks) = (concat (map (\<lambda>(data, name, i). render_event data name i) evs), [])"
    and "utf8_len (concat (map (\<lambda>(data, name, i). render_event data name i) evs)) \<le> max_event_buffer"
    and "\<And>data name i. (data, name, i) \<in> set evs \<Longrightarrow> data \<noteq> [] \<and> name \<noteq> [] \<and> 0 \<notin> set i
      \<and> one_line name \<and> one_line i \<and> list_all one_line data"
  shows "collect event_stream_new (map Inr chunks :: ('e + int list) list) =
    Some (map (\<lambda>(data, name, i). Inr \<lparr>ev_event = name, ev_data = join [10] data, ev_id = i, ev_retry = None\<rparr>) evs)"
proof -
  have events: "events_of (builder_with_id i0) (concat (map (\<lambda>(data, name, i). render_event data name i) evs)) =
      map (\<lambda>(data, name, i). \<lparr>ev_event = name, ev_data = join [10] data, ev_id = i, ev_retry = None\<rparr>) evs" for i0
    using assms(3)
  proof (induction evs arbitrary: i0)
    case Nil
    then show ?case by (simp add: events_of_def complete_lines.simps)
  next
    case (Cons ev evs)
    obtain data name i where ev: "ev = (data, name, i)" by (cases ev)
    then have "(data, name, i) \<in> set (ev # evs)" by simp
    note Cons.prems [OF this]
    moreover note Cons.IH [OF Cons.prems [OF list.set_intros(2)], of i]
    ultimately show ?case by (simp add: ev events_of_render)
  qed
  have start: "builder_default = builder_with_id []"
    by (simp add: builder_default_def builder_with_id_def event_default_def)
  have "strip_bom (concat (map (\<lambda>(data, name, i). render_event data name i) evs)) =
      concat (map (\<lambda>(data, name, i). render_event data name i) evs)"
    by (cases evs) (simp_all add: strip_bom_def render_event_def lit_def is_bom_def split: prod.split)
  with collect_valid [OF assms(1,2), where 'e = 'e] show ?thesis
    unfolding start by (simp add: events comp_def case_prod_beta)
qed

text \<open>C35: It does not matter how the bytes of an answer are cut into chunks, be it in the middle of a line, of
  an end of line or of a character: for valid text within the cap on the buffer, two ways to cut it give the
  same events, and the stream ends without an error.\<close>

theorem chunks_do_not_matter:
  assumes "concat chunks = concat chunks'" "utf8_decode (concat chunks) = (s, [])" "utf8_len s \<le> max_event_buffer"
  shows "\<exists>events. collect event_stream_new (map Inr chunks :: ('e + int list) list) = Some (map Inr events)
    \<and> collect event_stream_new (map Inr chunks' :: ('e + int list) list) = Some (map Inr events)"
  using collect_valid [of chunks s] collect_valid [of chunks' s] assms by auto

theorem chunks_do_not_matter_witness:
  "\<exists>events. collect event_stream_new (map Inr [[100, 97, 116, 97, 58, 195], [169, 13], [10], [10]] :: (unit + int list) list) =
      Some (map Inr events)
    \<and> collect event_stream_new (map Inr [[100, 97, 116, 97, 58, 195, 169, 13, 10, 10]] :: (unit + int list) list) =
      Some (map Inr events)"
proof (rule chunks_do_not_matter)
  show "utf8_decode (concat [[100, 97, 116, 97, 58, 195], [169, 13], [10], [10]]) =
      ([100, 97, 116, 97, 58, 233, 13, 10, 10], [])"
    by (simp add: utf8_decode.simps utf8_char_def seq2_def cont_def)
  show "utf8_len [100, 97, 116, 97, 58, 233, 13, 10, 10] \<le> max_event_buffer"
    by (simp add: utf8_len_def utf8_width_def max_event_buffer_def)
qed simp

end
