(* ===== verification/Event_Source.thy ===== *)
theory Event_Source
  imports Event_Stream
begin

text \<open>
  The client of an event stream (\<open>forge_eventsource/src\<close>): the request that is sent, the stream of its
  answer, the delay after which it is sent again, and the policy that chooses the delay. A \<open>Duration\<close> is its
  number of nanoseconds. A panic of the source is \<open>None\<close>.

  The HTTP client is a parameter: what a poll finds of it is a \<open>source_env\<close>. Two of its functions are arguments:
  \<open>mime\<close>, whether a content type parses as \<open>text/event-stream\<close>, and \<open>header_ok\<close>, whether a string may be
  the value of a header.
\<close>

section \<open>Durations\<close>

definition nanos_per_sec :: nat where
  "nanos_per_sec = 1000000000"

definition as_secs_f64 :: "nat \<Rightarrow> rat" where
  "as_secs_f64 d = f64_add (f64_of_usize (d div nanos_per_sec)) (f64_div (of_nat (d mod nanos_per_sec)) (of_nat nanos_per_sec))"

text \<open>\<open>Duration::mul_f64\<close>: it panics when the product is negative or does not fit.\<close>

definition mul_f64 :: "nat \<Rightarrow> rat \<Rightarrow> nat option" where
  "mul_f64 d factor =
     (let t = f64_mul factor (as_secs_f64 d); n = round_half_even (t * of_nat nanos_per_sec)
      in if t < 0 \<or> 2 ^ 64 * int nanos_per_sec \<le> n then None else Some (nat n))"

lemma f64_round_le_pow2:
  assumes "x \<le> rat_pow2 k"
  shows "f64_round x \<le> rat_pow2 k"
proof (cases "x \<le> 0")
  case True
  then have "0 \<le> f64_round (- x)" by (simp add: f64_round_nonneg)
  then show ?thesis by (simp add: f64_round_minus) (use rat_pow2_pos [of k] in linarith)
next
  case False
  then have x: "0 < x" by simp
  show ?thesis
  proof (cases "rat_ilog2 x < k")
    case True
    then have "rat_pow2 (rat_ilog2 x + 1) \<le> rat_pow2 k" by (intro rat_pow2_mono) simp
    with significand_bounds(2) [OF x] show ?thesis by linarith
  next
    case False
    then have "rat_pow2 k \<le> rat_pow2 (rat_ilog2 x)" by (intro rat_pow2_mono) simp
    with rat_ilog2_lower [OF x] assms have eq: "x = rat_pow2 k" "rat_pow2 (rat_ilog2 x) = rat_pow2 k" by linarith+
    let ?c = "rat_pow2 (rat_ilog2 x - 52)"
    have split: "rat_pow2 (rat_ilog2 x) = of_int (2 ^ 52) * ?c"
      using rat_pow2_add [of 52 "rat_ilog2 x - 52"] by (simp add: rat_pow2_def algebra_simps)
    have "?c \<noteq> 0" using rat_pow2_pos [of "rat_ilog2 x - 52"] by linarith
    have "x = of_int (2 ^ 52) * ?c" using eq split by metis
    with \<open>?c \<noteq> 0\<close> have "x / ?c = of_int (2 ^ 52)" by (rule nonzero_divide_eq_eq [THEN iffD2])
    then have "f64_round x = of_int (2 ^ 52) * ?c"
      unfolding f64_round_pos [OF x] by (simp only: round_half_even_of_int)
    then show ?thesis using eq split by simp
  qed
qed

lemma as_secs_f64_bounds:
  assumes "d div nanos_per_sec \<le> 2 ^ 55"
  shows "0 \<le> as_secs_f64 d" "as_secs_f64 d \<le> rat_pow2 56"
proof -
  have secs: "f64_of_usize (d div nanos_per_sec) \<le> rat_pow2 55"
    unfolding f64_of_usize_def
  proof (rule f64_round_le_pow2)
    have "(of_nat (d div nanos_per_sec) :: rat) \<le> of_nat (2 ^ 55)" using assms by (simp only: of_nat_le_iff)
    then show "(of_nat (d div nanos_per_sec) :: rat) \<le> rat_pow2 55" by (simp add: rat_pow2_def)
  qed
  have "(of_nat (d mod nanos_per_sec) :: rat) \<le> of_nat nanos_per_sec"
    by (simp only: of_nat_le_iff) (simp add: nanos_per_sec_def)
  then have "f64_div (of_nat (d mod nanos_per_sec)) (of_nat nanos_per_sec) \<le> rat_pow2 0"
    unfolding f64_div_def by (intro f64_round_le_pow2) (simp add: rat_pow2_def nanos_per_sec_def)
  with secs have "f64_of_usize (d div nanos_per_sec)
      + f64_div (of_nat (d mod nanos_per_sec)) (of_nat nanos_per_sec) \<le> rat_pow2 56"
    by (simp add: rat_pow2_def)
  then show "as_secs_f64 d \<le> rat_pow2 56"
    unfolding as_secs_f64_def f64_add_def by (rule f64_round_le_pow2)
  show "0 \<le> as_secs_f64 d"
    by (simp add: as_secs_f64_def f64_add_def f64_of_usize_def f64_div_def f64_round_nonneg)
qed

lemma mul_f64_fits:
  assumes "d div nanos_per_sec \<le> 2 ^ 55" "0 \<le> factor" "factor \<le> 128"
  obtains n where "mul_f64 d factor = Some n"
proof -
  note b = as_secs_f64_bounds [OF assms(1)]
  let ?t = "f64_mul factor (as_secs_f64 d)"
  have "factor * as_secs_f64 d \<le> 128 * rat_pow2 56" using assms b by (intro mult_mono) auto
  then have "?t \<le> rat_pow2 63"
    unfolding f64_mul_def by (intro f64_round_le_pow2) (simp add: rat_pow2_def)
  then have "?t * of_nat nanos_per_sec \<le> rat_pow2 63 * of_nat nanos_per_sec" by (simp add: mult_right_mono)
  also have "\<dots> = of_int (2 ^ 63 * int nanos_per_sec)" by (simp add: rat_pow2_def)
  finally have "round_half_even (?t * of_nat nanos_per_sec) \<le> 2 ^ 63 * int nanos_per_sec"
    by (rule round_half_even_le)
  also have "\<dots> < 2 ^ 64 * int nanos_per_sec" by (simp add: nanos_per_sec_def)
  finally have "round_half_even (?t * of_nat nanos_per_sec) < 2 ^ 64 * int nanos_per_sec" .
  moreover have "0 \<le> ?t" using assms b by (simp add: f64_mul_def f64_round_nonneg)
  ultimately have "mul_f64 d factor = Some (nat (round_half_even (?t * of_nat nanos_per_sec)))"
    by (simp add: mul_f64_def Let_def)
  then show ?thesis by (rule that)
qed

section \<open>Retry policies\<close>

record exponential_backoff =
  xb_start :: nat
  xb_factor :: rat
  xb_max_duration :: "nat option"
  xb_max_retries :: "nat option"

record constant_retry =
  cr_delay :: nat
  cr_max_retries :: "nat option"

datatype retry_policy = Exponential exponential_backoff | Constant constant_retry | Never

text \<open>The bound on the retries, and \<open>retry\<close> of the three policies; \<open>Some None\<close> is a refusal.\<close>

definition may_retry :: "nat option \<Rightarrow> nat \<Rightarrow> bool" where
  "may_retry max_retries retry_num \<longleftrightarrow> (case max_retries of None \<Rightarrow> True | Some m \<Rightarrow> retry_num < m)"

definition exponential_retry :: "exponential_backoff \<Rightarrow> (nat \<times> nat) option \<Rightarrow> nat option option" where
  "exponential_retry p last_retry =
     (case last_retry of
        None \<Rightarrow> Some (Some (xb_start p))
      | Some (retry_num, last_duration) \<Rightarrow>
          if may_retry (xb_max_retries p) retry_num
          then map_option (\<lambda>duration. Some (case xb_max_duration p of Some m \<Rightarrow> min duration m | None \<Rightarrow> duration))
            (mul_f64 last_duration (xb_factor p))
          else Some None)"

definition constant_delay :: "constant_retry \<Rightarrow> (nat \<times> nat) option \<Rightarrow> nat option option" where
  "constant_delay p last_retry =
     (case last_retry of
        None \<Rightarrow> Some (Some (cr_delay p))
      | Some (retry_num, _) \<Rightarrow> Some (if may_retry (cr_max_retries p) retry_num then Some (cr_delay p) else None))"

fun retry :: "retry_policy \<Rightarrow> (nat \<times> nat) option \<Rightarrow> nat option option" where
  "retry (Exponential p) last_retry = exponential_retry p last_retry"
| "retry (Constant p) last_retry = constant_delay p last_retry"
| "retry Never _ = Some None"

fun set_reconnection_time :: "nat \<Rightarrow> retry_policy \<Rightarrow> retry_policy" where
  "set_reconnection_time d (Exponential p) =
     Exponential (p\<lparr>xb_start := d, xb_max_duration := map_option (\<lambda>m. max m d) (xb_max_duration p)\<rparr>)"
| "set_reconnection_time d (Constant p) = Constant (p\<lparr>cr_delay := d\<rparr>)"
| "set_reconnection_time d Never = Never"

definition default_retry :: retry_policy where
  "default_retry = Exponential \<lparr>xb_start = 300000000, xb_factor = 2, xb_max_duration = Some 5000000000,
     xb_max_retries = None\<rparr>"

text \<open>
  The contract of the trait \<open>RetryPolicy\<close>: a policy that is \<open>ok\<close> answers (it does not panic) with a delay of at
  most \<open>bound\<close>, as long as the delays and the reconnection times it is given are.
\<close>

locale retry_contract =
  fixes ask :: "'p \<Rightarrow> (nat \<times> nat) option \<Rightarrow> nat option option"
    and set_time :: "nat \<Rightarrow> 'p \<Rightarrow> 'p"
    and ok :: "'p \<Rightarrow> bool"
    and bound :: nat
  assumes ask_ok: "\<lbrakk>ok p; pred_option (\<lambda>(_, d). d \<le> bound) last_retry\<rbrakk>
      \<Longrightarrow> \<exists>r. ask p last_retry = Some r \<and> pred_option (\<lambda>d. d \<le> bound) r"
    and set_time_ok: "\<lbrakk>ok p; d \<le> bound\<rbrakk> \<Longrightarrow> ok (set_time d p)"
begin

lemma answers:
  assumes "ok p" "pred_option (\<lambda>(_, d). d \<le> bound) last_retry"
  obtains (refused) "ask p last_retry = Some None" | (delay) d where "ask p last_retry = Some (Some d)" "d \<le> bound"
proof -
  from ask_ok [OF assms] obtain r where "ask p last_retry = Some r" "pred_option (\<lambda>d. d \<le> bound) r" by auto
  then show ?thesis using refused delay by (cases r) simp_all
qed

lemma set_times_ok: "\<lbrakk>ok p; list_all (\<lambda>d. d \<le> bound) ds\<rbrakk> \<Longrightarrow> ok (foldl (\<lambda>p d. set_time d p) p ds)"
  by (induction ds arbitrary: p) (simp_all add: set_time_ok)

end

text \<open>What the server may set: a \<open>u64\<close> number of milliseconds.\<close>

definition max_delay :: nat where
  "max_delay = (2 ^ 64 - 1) * 1000000"

fun policy_ok :: "retry_policy \<Rightarrow> bool" where
  "policy_ok (Exponential p) \<longleftrightarrow> xb_start p \<le> max_delay \<and> 0 \<le> xb_factor p \<and> xb_factor p \<le> 128
     \<and> (case xb_max_duration p of Some m \<Rightarrow> m \<le> max_delay | None \<Rightarrow> False)"
| "policy_ok (Constant p) \<longleftrightarrow> cr_delay p \<le> max_delay"
| "policy_ok Never \<longleftrightarrow> True"

lemma max_delay_secs: "d \<le> max_delay \<Longrightarrow> d div nanos_per_sec \<le> 2 ^ 55"
  using div_le_mono [of d max_delay nanos_per_sec] by (simp add: max_delay_def nanos_per_sec_def)

interpretation policy: retry_contract retry set_reconnection_time policy_ok max_delay
proof
  fix p and last_retry :: "(nat \<times> nat) option"
  assume ok: "policy_ok p" and last: "pred_option (\<lambda>(_, d). d \<le> max_delay) last_retry"
  show "\<exists>r. retry p last_retry = Some r \<and> pred_option (\<lambda>d. d \<le> max_delay) r"
  proof (cases p)
    case (Exponential x)
    show ?thesis
    proof (cases last_retry)
      case (Some nd)
      obtain n d where nd: "nd = (n, d)" by (cases nd)
      have "d div nanos_per_sec \<le> 2 ^ 55" using last Some nd by (intro max_delay_secs) simp
      then obtain k where "mul_f64 d (xb_factor x) = Some k"
        using ok Exponential mul_f64_fits [of d "xb_factor x"] by auto
      then show ?thesis
        using Some nd ok Exponential by (auto simp: exponential_retry_def split: option.splits)
    qed (use ok Exponential in \<open>simp add: exponential_retry_def\<close>)
  next
    case (Constant x)
    then show ?thesis using ok by (auto simp: constant_delay_def split: option.split)
  qed simp
next
  fix p d
  assume "policy_ok p" "d \<le> max_delay"
  then show "policy_ok (set_reconnection_time d p)" by (cases p) (auto split: option.splits)
qed

section \<open>The source\<close>

text \<open>What the program reads of an error of the HTTP client, and of an answer.\<close>

record reqwest_error =
  rq_status :: "nat option"
  rq_is_timeout :: bool
  rq_is_connect :: bool
  rq_is_request :: bool

record response =
  rs_status :: nat
  rs_content_type :: "rstr option"
  rs_body :: "(reqwest_error + int list) list"

datatype source_error =
    SrcUtf8 | SrcParser | SrcTransport reqwest_error | SrcInvalidContentType rstr response
  | SrcInvalidStatusCode response | SrcInvalidLastEventId rstr | SrcStreamEnded

fun source_error_of :: "reqwest_error event_stream_error \<Rightarrow> source_error" where
  "source_error_of SseUtf8 = SrcUtf8"
| "source_error_of SseParser = SrcParser"
| "source_error_of (SseTransport e) = SrcTransport e"

datatype source_event = SrcOpen | SrcMessage sse_event

datatype ready_state_kind = Connecting | Open | Closed

text \<open>
  The request in flight is the \<open>Last-Event-ID\<close> it carries, if any; the stream of an answer is the state of its
  \<open>EventStream\<close> and what the transport is still to give. A body that is not there yet leaves the stream as it is.
\<close>

record event_source =
  src_cloneable :: bool
  src_next_response :: "rstr option option"
  src_cur_stream :: "(event_stream \<times> (reqwest_error + int list) list) option"
  src_delay :: "nat option"
  src_is_closed :: bool
  src_policy :: retry_policy
  src_last_event_id :: rstr
  src_last_retry :: "(nat \<times> nat) option"

definition source_new :: "bool \<Rightarrow> event_source option" where
  "source_new cloneable =
     (if cloneable
      then Some \<lparr>src_cloneable = cloneable, src_next_response = Some None, src_cur_stream = None, src_delay = None,
        src_is_closed = False, src_policy = default_retry, src_last_event_id = [], src_last_retry = None\<rparr>
      else None)"

definition source_close :: "event_source \<Rightarrow> event_source" where
  "source_close s = s\<lparr>src_is_closed := True\<rparr>"

definition set_retry_policy :: "retry_policy \<Rightarrow> event_source \<Rightarrow> event_source" where
  "set_retry_policy p s = s\<lparr>src_policy := p\<rparr>"

definition ready_state :: "event_source \<Rightarrow> ready_state_kind" where
  "ready_state s =
     (if src_is_closed s then Closed
      else if src_delay s \<noteq> None \<or> src_next_response s \<noteq> None then Connecting
      else Open)"

definition check_response :: "(rstr \<Rightarrow> bool) \<Rightarrow> response \<Rightarrow> source_error + response" where
  "check_response mime res =
     (if rs_status res \<noteq> 200 then Inl (SrcInvalidStatusCode res)
      else case rs_content_type res of
        None \<Rightarrow> Inl (SrcInvalidContentType [] res)
      | Some content_type \<Rightarrow>
          if mime content_type then Inr res else Inl (SrcInvalidContentType content_type res))"

definition clear_fetch :: "event_source \<Rightarrow> event_source" where
  "clear_fetch s = s\<lparr>src_next_response := None, src_cur_stream := None\<rparr>"

definition retry_fetch :: "(rstr \<Rightarrow> bool) \<Rightarrow> event_source \<Rightarrow> ((source_error + unit) \<times> event_source) option" where
  "retry_fetch header_ok s =
     (let s = s\<lparr>src_cur_stream := None\<rparr>
      in if \<not> src_cloneable s then None
         else if \<not> header_ok (src_last_event_id s) then Some (Inl (SrcInvalidLastEventId (src_last_event_id s)), s)
         else Some (Inr (), s\<lparr>src_next_response := Some (Some (src_last_event_id s))\<rparr>))"

definition handle_response :: "response \<Rightarrow> event_source \<Rightarrow> event_source" where
  "handle_response res s =
     (let s = s\<lparr>src_last_retry := None\<rparr>;
          stream = set_last_event_id (src_last_event_id s) event_stream_new
      in s\<lparr>src_cur_stream := Some (stream, rs_body res)\<rparr>)"

definition handle_event :: "sse_event \<Rightarrow> event_source \<Rightarrow> event_source" where
  "handle_event event s =
     (let s = s\<lparr>src_last_event_id := ev_id event\<rparr>
      in case ev_retry event of
           Some millis \<Rightarrow> s\<lparr>src_policy := set_reconnection_time (millis * 1000000) (src_policy s)\<rparr>
         | None \<Rightarrow> s)"

definition handle_error :: "source_error \<Rightarrow> event_source \<Rightarrow> event_source option" where
  "handle_error e s =
     (let s = clear_fetch s
      in case retry (src_policy s) (src_last_retry s) of
           None \<Rightarrow> None
         | Some (Some retry_delay) \<Rightarrow>
             let retry_num = (case src_last_retry s of Some (n, _) \<Rightarrow> n | None \<Rightarrow> 1)
             in Some (s\<lparr>src_last_retry := Some (retry_num, retry_delay), src_delay := Some retry_delay\<rparr>)
         | Some None \<Rightarrow> Some (s\<lparr>src_is_closed := True\<rparr>))"

section \<open>Polling\<close>

datatype 'a poll = Pending | Ready 'a

record source_env =
  env_elapsed :: bool
  env_reply :: "(reqwest_error + response) option"

type_synonym source_item = "(source_error + source_event) option poll"

text \<open>The error is reported, and dealt with by \<open>handle_error\<close>.\<close>

definition fail_with :: "source_error \<Rightarrow> event_source \<Rightarrow> (source_item \<times> event_source) option" where
  "fail_with e s = map_option (\<lambda>s'. (Ready (Some (Inl e)), s')) (handle_error e s)"

definition poll_stream :: "event_source \<Rightarrow> (source_item \<times> event_source) option" where
  "poll_stream s =
     (case src_cur_stream s of
        None \<Rightarrow> None
      | Some (stream, given) \<Rightarrow>
          (case poll_next stream given of
             (item, stream', given') \<Rightarrow>
               let s = s\<lparr>src_cur_stream := Some (stream', given')\<rparr>
               in case item of
                    Some (Inl e) \<Rightarrow> fail_with (source_error_of e) s
                  | Some (Inr event) \<Rightarrow> Some (Ready (Some (Inr (SrcMessage event))), handle_event event s)
                  | None \<Rightarrow> fail_with SrcStreamEnded s))"

definition poll_response :: "(rstr \<Rightarrow> bool) \<Rightarrow> source_env \<Rightarrow> event_source \<Rightarrow> (source_item \<times> event_source) option" where
  "poll_response mime env s =
     (case src_next_response s of
        None \<Rightarrow> poll_stream s
      | Some _ \<Rightarrow>
          (case env_reply env of
             None \<Rightarrow> Some (Pending, s)
           | Some (Inr res) \<Rightarrow>
               let s = clear_fetch s
               in (case check_response mime res of
                     Inr res \<Rightarrow> Some (Ready (Some (Inr SrcOpen)), handle_response res s)
                   | Inl e \<Rightarrow> Some (Ready (Some (Inl e)), s\<lparr>src_is_closed := True\<rparr>))
           | Some (Inl e) \<Rightarrow> fail_with (SrcTransport e) s))"

definition source_poll ::
  "(rstr \<Rightarrow> bool) \<Rightarrow> (rstr \<Rightarrow> bool) \<Rightarrow> source_env \<Rightarrow> event_source \<Rightarrow> (source_item \<times> event_source) option" where
  "source_poll mime header_ok env s =
     (if src_is_closed s then Some (Ready None, s)
      else case src_delay s of
        Some _ \<Rightarrow>
          if \<not> env_elapsed env then Some (Pending, s)
          else (case retry_fetch header_ok (s\<lparr>src_delay := None\<rparr>) of
                  None \<Rightarrow> None
                | Some (Inl e, s) \<Rightarrow> Some (Ready (Some (Inl e)), s\<lparr>src_is_closed := True\<rparr>)
                | Some (Inr _, s) \<Rightarrow> poll_response mime env s)
      | None \<Rightarrow> poll_response mime env s)"

section \<open>Reconnection times are bounded\<close>

definition event_bounded :: "sse_event \<Rightarrow> bool" where
  "event_bounded e \<longleftrightarrow> pred_option (\<lambda>n. n < 2 ^ 64) (ev_retry e)"

abbreviation builder_bounded :: "event_builder \<Rightarrow> bool" where
  "builder_bounded b \<equiv> event_bounded (eb_event b)"

lemma builder_add_bounded: "builder_bounded b \<Longrightarrow> builder_bounded (builder_add b l)"
  by (auto simp: builder_add_def event_bounded_def parse_u64_def Let_def
      split: raw_event_line.split option.splits if_splits)

lemma builder_dispatch_bounded:
  "\<lbrakk>builder_dispatch b = (e, b'); builder_bounded b\<rbrakk> \<Longrightarrow> builder_bounded b' \<and> pred_option event_bounded e"
  by (auto simp: builder_dispatch_def event_bounded_def event_default_def builder_default_def Let_def split: if_splits)

lemma parse_event_bounded:
  "\<lbrakk>parse_event buffer b = (r, buffer', b'); builder_bounded b\<rbrakk>
    \<Longrightarrow> builder_bounded b' \<and> (\<forall>e. r = Inr (Some e) \<longrightarrow> event_bounded e)"
proof (induction buffer b arbitrary: r buffer' b' rule: parse_event.induct)
  case (1 buffer b)
  show ?case
  proof (cases "buffer \<noteq> [] \<and> (\<exists>rem l. line buffer = POk rem l)")
    case False
    then show ?thesis
      using 1(4,3) by (subst (asm) parse_event.simps) (auto split: if_splits presult.splits)
  next
    case True
    then obtain rem l where l: "buffer \<noteq> []" "line buffer = POk rem l" by blast
    let ?b = "builder_add b l"
    have add: "builder_bounded ?b" using 1(4) by (rule builder_add_bounded)
    show ?thesis
    proof (cases "eb_is_complete ?b")
      case False
      then have "parse_event rem ?b = (r, buffer', b')"
        using 1(3) l by (subst (asm) parse_event.simps) simp
      from 1(2) [OF l refl False this add] show ?thesis .
    next
      case complete: True
      obtain e b1 where d: "builder_dispatch ?b = (e, b1)" by fastforce
      note b1 = builder_dispatch_bounded [OF d add]
      show ?thesis
      proof (cases e)
        case None
        then have "parse_event rem b1 = (r, buffer', b')"
          using 1(3) l complete d by (subst (asm) parse_event.simps) simp
        from 1(1) [OF l refl complete d [symmetric] None this] b1 show ?thesis by simp
      next
        case (Some x)
        then have "r = Inr (Some x)" "b' = b1"
          using 1(3) l complete d by (simp_all add: parse_event.simps [of buffer])
        then show ?thesis using b1 Some by simp
      qed
    qed
  qed
qed

lemma parse_next_bounded:
  assumes "parse_next s = (r, s')" "builder_bounded (es_builder s)"
  shows "builder_bounded (es_builder s') \<and> (\<forall>e. r = Some (Inr e) \<longrightarrow> event_bounded e)"
proof -
  obtain q buffer b where p: "parse_event (es_buffer s) (es_builder s) = (q, buffer, b)" by (metis prod_cases3)
  from parse_event_bounded [OF p assms(2)] assms(1) p show ?thesis
    by (auto simp: parse_next_def Let_def split: sum.splits option.splits)
qed

lemma take_in_builder: "take_in t s = (e, s') \<Longrightarrow> es_builder s' = es_builder s"
  by (auto simp: take_in_def Let_def split: if_splits)

lemma poll_bytes_bounded:
  "\<lbrakk>poll_bytes s (given :: ('e + int list) list) = (r, s', given'); builder_bounded (es_builder s)\<rbrakk>
    \<Longrightarrow> builder_bounded (es_builder s') \<and> (\<forall>e. r = Some (Inr e) \<longrightarrow> event_bounded e)"
proof (induction s given arbitrary: r s' given' rule: poll_bytes.induct)
  case (1 s given)
  obtain item bytes ended where
    u: "utf8_poll (es_bytes s) (case given of [] \<Rightarrow> None | g # _ \<Rightarrow> Some g) = (item, bytes, ended)"
    by (metis prod_cases3)
  let ?s = "s\<lparr>es_bytes := bytes, es_ended := ended\<rparr>"
  show ?case
  proof (cases "\<not> es_ended s \<and> (\<exists>t. item = Some (Inr t))")
    case False
    then show ?thesis
      using 1(3,4) u by (subst (asm) poll_bytes.simps) (auto simp: Let_def split: if_splits option.splits sum.splits)
  next
    case True
    then obtain t where t: "\<not> es_ended s" "item = Some (Inr t)" by blast
    show ?thesis
    proof (cases "t = []")
      case True
      then have "poll_bytes ?s (tl given) = (r, s', given')"
        using 1(3) t u by (subst (asm) poll_bytes.simps) (simp add: Let_def)
      from 1(1) [OF t(1) u [symmetric] refl refl refl t(2) refl True this] 1(4) show ?thesis by simp
    next
      case nonempty: False
      obtain e s1 where i: "(take_in t ?s :: 'e event_stream_error option \<times> _) = (e, s1)" by fastforce
      then have b1: "builder_bounded (es_builder s1)" using take_in_builder [OF i] 1(4) by simp
      show ?thesis
      proof (cases e)
        case (Some x)
        then have "r = Some (Inl x)" "s' = s1"
          using 1(3) t u nonempty i by (simp_all add: poll_bytes.simps [of s] Let_def)
        then show ?thesis using b1 by simp
      next
        case None
        obtain q s2 where n: "(parse_next s1 :: ('e event_stream_error + _) option \<times> _) = (q, s2)" by fastforce
        note b2 = parse_next_bounded [OF n b1]
        show ?thesis
        proof (cases q)
          case (Some x)
          then have "r = Some x" "s' = s2"
            using 1(3) t u nonempty i \<open>e = None\<close> n by (simp_all add: poll_bytes.simps [of s] Let_def)
          then show ?thesis using b2 Some by simp
        next
          case None
          then have "poll_bytes s2 (tl given) = (r, s', given')"
            using 1(3) t u nonempty i \<open>e = None\<close> n by (subst (asm) poll_bytes.simps) (simp add: Let_def)
          from 1(2) [OF t(1) u [symmetric] refl refl refl t(2) refl nonempty i [symmetric] \<open>e = None\<close> n [symmetric] None this] b2 show ?thesis by simp
        qed
      qed
    qed
  qed
qed

lemma poll_next_bounded:
  assumes "poll_next s (given :: ('e + int list) list) = (r, s', given')" "builder_bounded (es_builder s)"
  shows "builder_bounded (es_builder s') \<and> (\<forall>e. r = Some (Inr e) \<longrightarrow> event_bounded e)"
proof -
  obtain q s1 where n: "(parse_next s :: ('e event_stream_error + _) option \<times> _) = (q, s1)" by fastforce
  note b1 = parse_next_bounded [OF n assms(2)]
  show ?thesis
  proof (cases "q = None \<and> es_state s1 \<noteq> Terminated")
    case True
    then show ?thesis using assms(1) n b1 poll_bytes_bounded by (simp add: poll_next_def)
  next
    case False
    then show ?thesis using assms(1) n b1 by (auto simp: poll_next_def split: option.splits if_splits)
  qed
qed

section \<open>The invariant\<close>

text \<open>
  A source that is not closed waits for one thing: the delay, the answer to a request, or the next event. The number
  that is kept of the last retry is 1.
\<close>

definition waits_for_one :: "event_source \<Rightarrow> bool" where
  "waits_for_one s \<longleftrightarrow>
     (case (src_delay s, src_next_response s, src_cur_stream s) of
        (Some _, None, None) \<Rightarrow> True
      | (None, Some _, None) \<Rightarrow> True
      | (None, None, Some (st, _)) \<Rightarrow> builder_bounded (es_builder st) \<and> src_last_retry s = None
      | _ \<Rightarrow> False)"

definition source_inv :: "event_source \<Rightarrow> bool" where
  "source_inv s \<longleftrightarrow> src_cloneable s \<and> policy_ok (src_policy s)
     \<and> pred_option (\<lambda>(n, d). n = 1 \<and> d \<le> max_delay) (src_last_retry s)
     \<and> (src_is_closed s \<or> waits_for_one s)"

lemma waits_for_one_cases:
  assumes "waits_for_one s"
  obtains (delay) d where "src_delay s = Some d" "src_next_response s = None" "src_cur_stream s = None"
  | (response) q where "src_delay s = None" "src_next_response s = Some q" "src_cur_stream s = None"
  | (stream) st given where "src_delay s = None" "src_next_response s = None" "src_cur_stream s = Some (st, given)"
      "builder_bounded (es_builder st)" "src_last_retry s = None"
  using assms by (auto simp: waits_for_one_def split: option.splits)

lemma waits_for_one_policy [simp]: "waits_for_one (s\<lparr>src_policy := p\<rparr>) = waits_for_one s"
  by (simp add: waits_for_one_def split: option.split)

lemma source_new_inv: "source_new cloneable = Some s \<Longrightarrow> source_inv s"
  by (auto simp: source_new_def source_inv_def default_retry_def max_delay_def waits_for_one_def split: if_splits)

lemma handle_error_inv:
  assumes "source_inv s" "src_delay s = None"
  obtains s' where "handle_error e s = Some s'" "source_inv s'"
proof -
  have last: "pred_option (\<lambda>(_, d). d \<le> max_delay) (src_last_retry s)"
    using assms(1) by (auto simp: source_inv_def pred_option_def split: option.splits)
  have ok: "policy_ok (src_policy s)" using assms(1) by (simp add: source_inv_def)
  consider "retry (src_policy s) (src_last_retry s) = Some None"
    | d where "retry (src_policy s) (src_last_retry s) = Some (Some d)" "d \<le> max_delay"
    by (rule policy.answers [OF ok last])
  then show ?thesis
  proof cases
    case 1
    have "handle_error e s = Some ((clear_fetch s)\<lparr>src_is_closed := True\<rparr>)"
      using 1 by (simp add: handle_error_def clear_fetch_def)
    then show ?thesis using that assms by (simp add: source_inv_def clear_fetch_def)
  next
    case (2 d)
    let ?n = "case src_last_retry s of Some (n, _) \<Rightarrow> n | None \<Rightarrow> 1"
    have "handle_error e s = Some ((clear_fetch s)\<lparr>src_last_retry := Some (?n, d), src_delay := Some d\<rparr>)"
      using 2 by (simp add: handle_error_def clear_fetch_def Let_def)
    moreover have "?n = 1" using assms by (auto simp: source_inv_def split: option.splits)
    ultimately show ?thesis
      using that 2 assms by (simp add: source_inv_def clear_fetch_def waits_for_one_def split: option.splits)
  qed
qed

lemma fail_with_inv:
  assumes "source_inv s" "src_delay s = None"
  obtains s' where "fail_with e s = Some (Ready (Some (Inl e)), s')" "source_inv s'"
  using handle_error_inv [OF assms, of e] that by (auto simp: fail_with_def)

lemma handle_event_inv: "\<lbrakk>source_inv s; event_bounded e\<rbrakk> \<Longrightarrow> source_inv (handle_event e s)"
  by (auto simp: source_inv_def handle_event_def event_bounded_def waits_for_one_def max_delay_def Let_def
      intro!: policy.set_time_ok split: option.split)

lemma poll_stream_inv:
  assumes "source_inv s" "src_delay s = None" "src_next_response s = None" "src_cur_stream s = Some (st, given)"
    "builder_bounded (es_builder st)" "src_last_retry s = None"
  obtains r s' where "poll_stream s = Some (r, s')" "source_inv s'"
proof -
  obtain item st' given' where n: "poll_next st given = (item, st', given')" by (metis prod_cases3)
  note b = poll_next_bounded [OF n assms(5)]
  let ?s = "s\<lparr>src_cur_stream := Some (st', given')\<rparr>"
  have inv: "source_inv ?s" "src_delay ?s = None"
    using assms b by (simp_all add: source_inv_def waits_for_one_def)
  consider "item = None" | e where "item = Some (Inl e)" | e where "item = Some (Inr e)" by (metis option.exhaust sum.exhaust)
  then show ?thesis
  proof cases
    case 1
    from fail_with_inv [OF inv, of SrcStreamEnded] obtain s' where
      "fail_with SrcStreamEnded ?s = Some (Ready (Some (Inl SrcStreamEnded)), s')" "source_inv s'" .
    then show ?thesis using that 1 assms(4) n by (simp add: poll_stream_def)
  next
    case (2 e)
    from fail_with_inv [OF inv, of "source_error_of e"] obtain s' where
      "fail_with (source_error_of e) ?s = Some (Ready (Some (Inl (source_error_of e))), s')" "source_inv s'" .
    then show ?thesis using that 2 assms(4) n by (simp add: poll_stream_def)
  next
    case (3 e)
    then have "event_bounded e" using b by simp
    from handle_event_inv [OF inv(1) this] show ?thesis
      using that 3 assms(4) n by (simp add: poll_stream_def)
  qed
qed

lemma poll_response_inv:
  assumes "source_inv s" "\<not> src_is_closed s" "src_delay s = None"
  obtains r s' where "poll_response mime env s = Some (r, s')" "source_inv s'"
proof -
  from assms have "waits_for_one s" by (simp add: source_inv_def)
  then show ?thesis
  proof (cases rule: waits_for_one_cases)
    case (response q)
    consider "env_reply env = None" | e where "env_reply env = Some (Inl e)" | res where "env_reply env = Some (Inr res)"
      by (metis option.exhaust sum.exhaust)
    then show ?thesis
    proof cases
      case 1
      then show ?thesis using that assms(1) response by (simp add: poll_response_def)
    next
      case (2 e)
      from fail_with_inv [OF assms(1,3), of "SrcTransport e"] that show ?thesis
        using 2 response by (auto simp: poll_response_def)
    next
      case (3 res)
      have "source_inv (handle_response res' (clear_fetch s))" for res'
        using assms by (simp add: source_inv_def handle_response_def clear_fetch_def waits_for_one_def Let_def
            set_last_event_id_def event_stream_new_def builder_default_def event_default_def event_bounded_def)
      moreover have "source_inv ((clear_fetch s)\<lparr>src_is_closed := True\<rparr>)"
        using assms by (simp add: source_inv_def clear_fetch_def)
      ultimately show ?thesis
        using that 3 response by (cases "check_response mime res") (simp_all add: poll_response_def)
    qed
  next
    case (stream st given)
    from poll_stream_inv [OF assms(1) stream] that show ?thesis
      using stream by (auto simp: poll_response_def)
  qed (use assms in simp)
qed

lemma source_poll_inv:
  assumes "source_inv s"
  obtains r s' where "source_poll mime header_ok env s = Some (r, s')" "source_inv s'"
proof (cases "src_is_closed s")
  case True
  then show ?thesis using that assms by (simp add: source_poll_def)
next
  case open1: False
  show ?thesis
  proof (cases "src_delay s")
    case None
    from poll_response_inv [OF assms open1 this] that show ?thesis
      using open1 None by (auto simp: source_poll_def)
  next
    case (Some d)
    show ?thesis
    proof (cases "env_elapsed env")
      case False
      then show ?thesis using that assms open1 Some by (simp add: source_poll_def)
    next
      case elapsed: True
      have inv: "source_inv (s\<lparr>src_delay := None, src_cur_stream := None, src_next_response := Some q\<rparr>)"
        "source_inv (s\<lparr>src_delay := None, src_cur_stream := None, src_is_closed := True\<rparr>)" for q
        using assms by (simp_all add: source_inv_def waits_for_one_def)
      show ?thesis
      proof (cases "header_ok (src_last_event_id s)")
        case True
        let ?s = "s\<lparr>src_delay := None, src_cur_stream := None, src_next_response := Some (Some (src_last_event_id s))\<rparr>"
        obtain r s' where "poll_response mime env ?s = Some (r, s')" "source_inv s'"
          by (rule poll_response_inv [OF inv(1) [of "Some (src_last_event_id s)"]]) (use open1 in simp_all)
        then show ?thesis
          using that assms open1 Some elapsed True
          by (simp add: source_poll_def retry_fetch_def Let_def source_inv_def)
      next
        case False
        then show ?thesis
          using that inv(2) assms open1 Some elapsed
          by (simp add: source_poll_def retry_fetch_def Let_def source_inv_def)
      qed
    qed
  qed
qed

text \<open>What the program can do with a source.\<close>

inductive source_reach :: "(rstr \<Rightarrow> bool) \<Rightarrow> (rstr \<Rightarrow> bool) \<Rightarrow> event_source \<Rightarrow> bool"
  for mime header_ok where
  start: "source_new cloneable = Some s \<Longrightarrow> source_reach mime header_ok s"
| close: "source_reach mime header_ok s \<Longrightarrow> source_reach mime header_ok (source_close s)"
| policy: "\<lbrakk>source_reach mime header_ok s; policy_ok p\<rbrakk> \<Longrightarrow> source_reach mime header_ok (set_retry_policy p s)"
| poll: "\<lbrakk>source_reach mime header_ok s; source_poll mime header_ok env s = Some (r, s')\<rbrakk> \<Longrightarrow> source_reach mime header_ok s'"

lemma source_reach_inv: "source_reach mime header_ok s \<Longrightarrow> source_inv s"
proof (induction rule: source_reach.induct)
  case (poll s env r s')
  then show ?case by (metis source_poll_inv option.inject prod.inject)
next
  case (start cloneable s)
  then show ?case by (rule source_new_inv)
next
  case (close s)
  then show ?case by (simp add: source_inv_def source_close_def)
next
  case (policy s p)
  then show ?case by (simp add: source_inv_def set_retry_policy_def)
qed

section \<open>Properties\<close>

text \<open>C23: Whatever the server answers and whenever, polling an event source does not panic, for a source that has the
  default policy or one with a longest delay: the stream that is unwrapped is there, the request can be cloned, and the
  delay of the policy does not overflow, whatever reconnection time the server has set; and the source says that it is
  open exactly if it has a stream. The delays of a policy are at most the greatest that a server can set, and its factor
  is from 0 to 128; an exponential policy must have a longest delay, since without one the delay grows until it overflows.\<close>

theorem source_never_panics:
  assumes "source_reach mime header_ok s"
  shows "source_poll mime header_ok env s \<noteq> None
    \<and> ready_state s = (if src_is_closed s then Closed else if src_cur_stream s \<noteq> None then Open else Connecting)"
proof
  note inv = source_reach_inv [OF assms]
  obtain r s' where "source_poll mime header_ok env s = Some (r, s')" by (rule source_poll_inv [OF inv])
  then show "source_poll mime header_ok env s \<noteq> None" by simp
  show "ready_state s = (if src_is_closed s then Closed else if src_cur_stream s \<noteq> None then Open else Connecting)"
  proof (cases "src_is_closed s")
    case False
    with inv have "waits_for_one s" by (simp add: source_inv_def)
    then show ?thesis using False by (cases rule: waits_for_one_cases) (simp_all add: ready_state_def)
  qed (simp add: ready_state_def)
qed

theorem source_never_panics_witness:
  "\<exists>s. source_new True = Some s \<and> source_poll (\<lambda>_. True) (\<lambda>_. True) \<lparr>env_elapsed = True, env_reply = None\<rparr> s \<noteq> None"
proof -
  obtain s where s: "source_new True = Some s" by (simp add: source_new_def)
  with source_never_panics [OF source_reach.start [OF s], of "\<lambda>_. True" "\<lambda>_. True" "\<lparr>env_elapsed = True, env_reply = None\<rparr>"]
  show ?thesis by blast
qed

text \<open>The bound on the retries that a policy has.\<close>

fun policy_bound :: "retry_policy \<Rightarrow> nat option" where
  "policy_bound (Exponential p) = xb_max_retries p"
| "policy_bound (Constant p) = cr_max_retries p"
| "policy_bound Never = Some 0"

text \<open>C39: The bound on the number of retries of a policy does not end a source: with a bound of two or more, or
  none, no error that is left to the policy (of the transport, in the text, or the end of the stream) closes the source,
  however often it happens; the source waits and tries again. As for the absence of panics, the delays of the policy are
  bounded.\<close>

theorem retries_never_run_out:
  assumes "source_reach mime header_ok s" "\<not> src_is_closed s" "pred_option (\<lambda>m. 2 \<le> m) (policy_bound (src_policy s))"
  shows "\<exists>s'. handle_error e s = Some s' \<and> \<not> src_is_closed s' \<and> src_delay s' \<noteq> None"
proof -
  note inv = source_reach_inv [OF assms(1)]
  then have last: "pred_option (\<lambda>(n, d). n = 1 \<and> d \<le> max_delay) (src_last_retry s)" and ok: "policy_ok (src_policy s)"
    by (simp_all add: source_inv_def)
  then have bounded: "pred_option (\<lambda>(n, d). d \<le> max_delay) (src_last_retry s)"
    by (auto simp: pred_option_def split: option.splits)
  have "retry (src_policy s) (src_last_retry s) \<noteq> Some None"
    using last assms(3)
    by (cases "src_policy s")
      (auto simp: exponential_retry_def constant_delay_def may_retry_def split: option.splits prod.splits if_splits)
  then obtain d where "retry (src_policy s) (src_last_retry s) = Some (Some d)"
    using policy.answers [OF ok bounded] by metis
  then show ?thesis using assms(2) by (simp add: handle_error_def clear_fetch_def Let_def)
qed

text \<open>C38: When the stream of a message ends, the source reports it, then waits for the delay that its policy gives for
  a first retry, and when it has passed asks again, for what follows the id of that message. The policy is not the one
  that never retries, and the id may be the value of a header.\<close>

theorem asks_for_what_follows:
  assumes "source_reach mime header_ok s" "\<not> src_is_closed s"
    and "src_cur_stream s = Some (st, given)" "poll_next st given = (Some (Inr event), st', given')"
    and "poll_next st' given' = (None, st'', given'')" "header_ok (ev_id event)"
    and "env_elapsed env'" "env_reply env' = None" "src_policy s \<noteq> Never"
  shows "\<exists>s1 s2 s3 d. source_poll mime header_ok env s = Some (Ready (Some (Inr (SrcMessage event))), s1)
    \<and> source_poll mime header_ok env s1 = Some (Ready (Some (Inl SrcStreamEnded)), s2)
    \<and> retry (src_policy s1) None = Some (Some d) \<and> src_delay s2 = Some d
    \<and> (\<forall>waiting. \<not> env_elapsed waiting \<longrightarrow> source_poll mime header_ok waiting s2 = Some (Pending, s2))
    \<and> source_poll mime header_ok env' s2 = Some (Pending, s3)
    \<and> src_next_response s3 = Some (Some (ev_id event))"
proof -
  have inv: "source_inv s" using assms(1) by (rule source_reach_inv)
  with assms(2) have "waits_for_one s" by (simp add: source_inv_def)
  then have w: "src_delay s = None" "src_next_response s = None" "src_last_retry s = None"
    using assms(3) by (cases rule: waits_for_one_cases, simp_all)+
  let ?s1 = "handle_event event (s\<lparr>src_cur_stream := Some (st', given')\<rparr>)"
  have p1: "source_poll mime header_ok env s = Some (Ready (Some (Inr (SrcMessage event))), ?s1)"
    using assms(2-4) w by (simp add: source_poll_def poll_response_def poll_stream_def)
  have s1: "src_delay ?s1 = None" "src_next_response ?s1 = None" "src_cur_stream ?s1 = Some (st', given')"
    "\<not> src_is_closed ?s1" "src_last_event_id ?s1 = ev_id event" "src_last_retry ?s1 = None" "src_cloneable ?s1"
    using w assms(2) inv by (simp_all add: handle_event_def source_inv_def Let_def split: option.split)
  have "\<exists>d. retry (src_policy ?s1) None = Some (Some d)"
    using assms(9) by (cases "src_policy s") (auto simp: handle_event_def Let_def exponential_retry_def constant_delay_def split: option.split)
  then obtain d where d: "retry (src_policy ?s1) None = Some (Some d)" ..
  let ?s2 = "?s1\<lparr>src_cur_stream := None, src_last_retry := Some (1, d), src_delay := Some d, src_next_response := None\<rparr>"
  have p2: "source_poll mime header_ok env ?s1 = Some (Ready (Some (Inl SrcStreamEnded)), ?s2)"
    using s1 d assms(5)
    by (simp add: source_poll_def poll_response_def poll_stream_def fail_with_def handle_error_def clear_fetch_def Let_def)
  have "source_poll mime header_ok env' ?s2 = Some (Pending, ?s2\<lparr>src_delay := None, src_next_response := Some (Some (ev_id event))\<rparr>)"
    using s1 assms(6-8) by (simp add: source_poll_def retry_fetch_def poll_response_def Let_def)
  moreover have "source_poll mime header_ok waiting ?s2 = Some (Pending, ?s2)" if "\<not> env_elapsed waiting" for waiting
    using s1 that by (simp add: source_poll_def)
  ultimately show ?thesis using p1 p2 d by (intro exI conjI) (assumption | simp)+
qed

text \<open>An answer with one event, the source that reads it, and the rest of the answer after the event.\<close>

definition sample_response :: response where
  "sample_response = \<lparr>rs_status = 200, rs_content_type = Some (lit ''text/event-stream''),
     rs_body = [Inr (lit ''id: 4'' @ [10] @ lit ''data: b'' @ [10, 10])]\<rparr>"

definition sample_env :: source_env where
  "sample_env = \<lparr>env_elapsed = True, env_reply = Some (Inr sample_response)\<rparr>"

definition sample_source :: "retry_policy \<Rightarrow> event_source" where
  "sample_source p = \<lparr>src_cloneable = True, src_next_response = None,
     src_cur_stream = Some (event_stream_new, rs_body sample_response), src_delay = None, src_is_closed = False,
     src_policy = p, src_last_event_id = [], src_last_retry = None\<rparr>"

lemma sample_source_reach:
  assumes "policy_ok p"
  shows "source_reach (\<lambda>_. True) (\<lambda>_. True) (sample_source p)"
proof -
  obtain s where s: "source_new True = Some s" by (simp add: source_new_def)
  have "source_poll (\<lambda>_. True) (\<lambda>_. True) sample_env (set_retry_policy p s) = Some (Ready (Some (Inr SrcOpen)), sample_source p)"
    using s by (auto simp: source_new_def source_poll_def poll_response_def sample_env_def sample_response_def check_response_def
        handle_response_def clear_fetch_def set_retry_policy_def sample_source_def set_last_event_id_def event_stream_new_def)
  then show ?thesis
    using source_reach.start [OF s] assms by (blast intro: source_reach.policy source_reach.poll)
qed

theorem retries_never_run_out_witness:
  "\<exists>s'. handle_error SrcStreamEnded (sample_source (Exponential \<lparr>xb_start = 1, xb_factor = 1, xb_max_duration = Some 1, xb_max_retries = Some 2\<rparr>)) = Some s'
    \<and> \<not> src_is_closed s' \<and> src_delay s' \<noteq> None"
proof -
  let ?p = "\<lparr>xb_start = 1, xb_factor = 1, xb_max_duration = Some 1, xb_max_retries = Some 2\<rparr>"
  have ok: "policy_ok (Exponential ?p)" by (simp add: max_delay_def)
  show ?thesis
    by (rule retries_never_run_out [OF sample_source_reach [OF ok]]) (simp_all add: sample_source_def)
qed

theorem asks_for_what_follows_witness:
  "\<exists>s1 s2 s3. source_poll (\<lambda>_. True) (\<lambda>_. True) sample_env (sample_source default_retry) =
      Some (Ready (Some (Inr (SrcMessage \<lparr>ev_event = lit ''message'', ev_data = lit ''b'', ev_id = lit ''4'', ev_retry = None\<rparr>))), s1)
    \<and> source_poll (\<lambda>_. True) (\<lambda>_. True) sample_env s1 = Some (Ready (Some (Inl SrcStreamEnded)), s2)
    \<and> source_poll (\<lambda>_. True) (\<lambda>_. True) \<lparr>env_elapsed = True, env_reply = None\<rparr> s2 = Some (Pending, s3)
    \<and> src_next_response s3 = Some (Some (lit ''4''))"
proof -
  let ?e = "\<lparr>ev_event = lit ''message'', ev_data = lit ''b'', ev_id = lit ''4'', ev_retry = None\<rparr>"
  have ok: "policy_ok default_retry" by (simp add: default_retry_def max_delay_def)
  let ?st = "event_stream_new\<lparr>es_state := Started, es_builder := builder_default\<lparr>eb_event := event_default\<lparr>ev_id := lit ''4''\<rparr>\<rparr>,
    es_last_event_id := lit ''4''\<rparr>"
  have decode: "utf8_decode (lit ''id: 4'' @ [10] @ lit ''data: b'' @ [10, 10]) = (lit ''id: 4'' @ [10] @ lit ''data: b'' @ [10, 10], [])"
    by (simp add: utf8_decode.simps utf8_char_def lit_def)
  have lines: "line (lit ''id: 4'' @ [10] @ lit ''data: b'' @ [10, 10]) = POk (lit ''data: b'' @ [10, 10]) (LField (lit ''id'') (Some (lit ''4'')))"
    "line (lit ''data: b'' @ [10, 10]) = POk [10] (LField (lit ''data'') (Some (lit ''b'')))"
    "line [10] = POk [] LEmpty"
    by code_simp+
  have first: "poll_next event_stream_new (rs_body sample_response) = (Some (Inr ?e), ?st, [])"
    using decode lines
    by (simp add: poll_next_def parse_next_def event_stream_new_def parse_event.simps poll_bytes.simps utf8_poll_def
       sample_response_def take_in_def strip_bom_def is_bom_def max_event_buffer_def utf8_len_def utf8_width_def
       builder_add_def builder_dispatch_def builder_default_def event_default_def is_lf_def Let_def lit_def)
  have second: "\<exists>st' given'. poll_next ?st [] = (None :: (reqwest_error event_stream_error + _) option, st', given')"
    by (simp add: poll_next_def parse_next_def event_stream_new_def parse_event.simps poll_bytes.simps utf8_poll_def)
  then obtain st' given' where second: "poll_next ?st [] = (None :: (reqwest_error event_stream_error + _) option, st', given')"
    by blast
  show ?thesis
    using asks_for_what_follows [OF sample_source_reach [OF ok] _ _ first second, of "\<lparr>env_elapsed = True, env_reply = None\<rparr>" sample_env]
    by (simp add: sample_source_def default_retry_def, blast)
qed

text \<open>Requests that fail one after the other, each sent when the delay of the last one has passed.\<close>

fun failures :: "(rstr \<Rightarrow> bool) \<Rightarrow> (rstr \<Rightarrow> bool) \<Rightarrow> reqwest_error list \<Rightarrow> event_source \<Rightarrow> event_source option" where
  "failures mime header_ok [] s = Some s"
| "failures mime header_ok (e # es) s =
     (case source_poll mime header_ok \<lparr>env_elapsed = True, env_reply = Some (Inl e)\<rparr> s of
        Some (Ready (Some (Inl _)), s') \<Rightarrow> failures mime header_ok es s'
      | _ \<Rightarrow> None)"

definition waits_after :: "nat \<Rightarrow> event_source \<Rightarrow> bool" where
  "waits_after d s \<longleftrightarrow> src_cloneable s \<and> \<not> src_is_closed s \<and> src_delay s = Some d \<and> src_last_retry s = Some (1, d)
     \<and> src_policy s = default_retry \<and> src_last_event_id s = []"

lemma round_half_even_error: "\<bar>of_int (round_half_even x) - x\<bar> \<le> 1 / 2"
proof -
  have "of_int \<lfloor>x\<rfloor> \<le> x" "x < of_int \<lfloor>x\<rfloor> + 1" by linarith+
  then show ?thesis by (auto simp: round_half_even_def Let_def abs_le_iff)
qed

lemma round_half_even_near:
  assumes "\<bar>x - of_int n\<bar> < 1 / 2"
  shows "round_half_even x = n"
proof -
  have "\<bar>of_int (round_half_even x) - of_int n :: rat\<bar> < 1"
    using round_half_even_error [of x] assms by linarith
  then have "\<bar>of_int (round_half_even x - n) :: rat\<bar> < of_int 1" by simp
  then have "\<bar>round_half_even x - n\<bar> < 1" by (simp only: of_int_abs [symmetric] of_int_less_iff)
  then show ?thesis by simp
qed

lemma f64_round_error:
  assumes "0 \<le> x" "x \<le> rat_pow2 k"
  shows "\<bar>f64_round x - x\<bar> \<le> rat_pow2 (k - 53)"
proof (cases "x = 0")
  case True
  then show ?thesis by (simp add: f64_round_def less_imp_le)
next
  case False
  with assms have x: "0 < x" by simp
  let ?c = "rat_pow2 (rat_ilog2 x - 52)"
  have c: "0 < ?c" by simp
  have "rat_pow2 (rat_ilog2 x) \<le> rat_pow2 k" using rat_ilog2_lower [OF x] assms by linarith
  also have "rat_pow2 (k + 1) = 2 * rat_pow2 k" using rat_pow2_add [of 1 k] by (simp add: rat_pow2_def [of 1] add.commute)
  then have "rat_pow2 k < rat_pow2 (k + 1)" using rat_pow2_pos [of k] by linarith
  finally have "rat_ilog2 x \<le> k" using rat_pow2_less_cancel by fastforce
  then have "?c \<le> rat_pow2 (k - 52)" by (intro rat_pow2_mono) simp
  moreover have "rat_pow2 (k - 52) = 2 * rat_pow2 (k - 53)"
    using rat_pow2_add [of 1 "k - 53"] by (simp add: rat_pow2_def)
  moreover have "\<bar>of_int (round_half_even (x / ?c)) * ?c - x\<bar> = \<bar>of_int (round_half_even (x / ?c)) - x / ?c\<bar> * ?c"
  proof -
    have "of_int (round_half_even (x / ?c)) * ?c - x = (of_int (round_half_even (x / ?c)) - x / ?c) * ?c"
      using less_imp_neq [OF c, symmetric] by (simp add: left_diff_distrib)
    then show ?thesis by (simp only: abs_mult abs_of_pos [OF c])
  qed
  moreover have "\<dots> \<le> 1 / 2 * ?c" by (intro mult_right_mono round_half_even_error less_imp_le [OF c])
  ultimately show ?thesis unfolding f64_round_pos [OF x] by linarith
qed

lemma mul_f64_two:
  assumes "d < 8 * nanos_per_sec"
  shows "mul_f64 d 2 = Some (2 * d)"
proof -
  define S where "S = (of_nat (d div nanos_per_sec) :: rat)"
  define R where "R = (of_nat (d mod nanos_per_sec) :: rat)"
  define Q where "Q = R / 1000000000"
  define S1 where "S1 = f64_round S"
  define Q1 where "Q1 = f64_round Q"
  define A where "A = f64_round (S1 + Q1)"
  define T where "T = f64_round (2 * A)"
  have secs: "as_secs_f64 d = A"
    by (simp add: as_secs_f64_def f64_add_def f64_of_usize_def f64_div_def S_def R_def Q_def S1_def Q1_def A_def nanos_per_sec_def)
  have d: "of_nat d = S * 1000000000 + R"
    unfolding S_def R_def by (metis div_mult_mod_eq nanos_per_sec_def of_nat_add of_nat_mult of_nat_numeral)
  have "d div nanos_per_sec \<le> 7" using assms by (simp add: nanos_per_sec_def)
  then have "S \<le> of_nat 7" unfolding S_def by (simp only: of_nat_le_iff)
  then have s: "0 \<le> S" "S \<le> 7" by (simp_all add: S_def)
  have "R \<le> of_nat nanos_per_sec" unfolding R_def by (simp only: of_nat_le_iff) (simp add: nanos_per_sec_def)
  then have q: "0 \<le> Q" "Q \<le> 1" "Q * 1000000000 = R" by (simp_all add: Q_def nanos_per_sec_def R_def)
  have pos: "0 \<le> S1" "0 \<le> Q1" "0 \<le> A" "0 \<le> T"
    using s q by (simp_all add: S1_def Q1_def A_def T_def f64_round_nonneg)
  have "\<bar>S1 - S\<bar> \<le> rat_pow2 (3 - 53)"
    unfolding S1_def using s by (intro f64_round_error) (simp_all add: rat_pow2_def)
  then have e1: "\<bar>S1 - S\<bar> \<le> 1 / 1000000000000" by (simp add: rat_pow2_def)
  have "\<bar>Q1 - Q\<bar> \<le> rat_pow2 (0 - 53)"
    unfolding Q1_def using q by (intro f64_round_error) (simp_all add: rat_pow2_def)
  then have e2: "\<bar>Q1 - Q\<bar> \<le> 1 / 1000000000000" by (simp add: rat_pow2_def)
  have "S1 + Q1 \<le> 16" using e1 e2 s q by linarith
  then have "\<bar>A - (S1 + Q1)\<bar> \<le> rat_pow2 (4 - 53)"
    unfolding A_def using pos by (intro f64_round_error) (simp_all add: rat_pow2_def)
  then have e3: "\<bar>A - (S1 + Q1)\<bar> \<le> 1 / 1000000000000" by (simp add: rat_pow2_def)
  have "2 * A \<le> 32" using e1 e2 e3 s q by linarith
  then have "\<bar>T - 2 * A\<bar> \<le> rat_pow2 (5 - 53)"
    unfolding T_def using pos by (intro f64_round_error) (simp_all add: rat_pow2_def)
  then have e4: "\<bar>T - 2 * A\<bar> \<le> 1 / 1000000000000" by (simp add: rat_pow2_def)
  have "\<bar>T * 1000000000 - (S * 2000000000 + 2 * R)\<bar> < 1 / 2"
    using e1 e2 e3 e4 q(3) by linarith
  moreover have "S * 2000000000 + 2 * R = of_int (int (2 * d))"
    using d by simp
  ultimately have "round_half_even (T * 1000000000) = int (2 * d)" by (intro round_half_even_near) simp
  then show ?thesis
    using assms pos secs by (simp add: mul_f64_def f64_mul_def T_def Let_def nanos_per_sec_def nat_mult_distrib)
qed

lemma waits_after_step:
  assumes "waits_after d s" "d \<le> 5000000000" "header_ok []"
  shows "\<exists>s'. source_poll mime header_ok \<lparr>env_elapsed = True, env_reply = Some (Inl e)\<rparr> s =
      Some (Ready (Some (Inl (SrcTransport e))), s') \<and> waits_after (min (2 * d) 5000000000) s'"
proof -
  have "mul_f64 d 2 = Some (2 * d)" using assms(2) by (intro mul_f64_two) (simp add: nanos_per_sec_def)
  then show ?thesis
    using assms(1,3)
    by (simp add: waits_after_def source_poll_def retry_fetch_def poll_response_def fail_with_def handle_error_def
        clear_fetch_def default_retry_def exponential_retry_def may_retry_def Let_def)
qed

lemma failures_delay:
  "\<lbrakk>waits_after d s; d \<le> 5000000000; header_ok []\<rbrakk>
    \<Longrightarrow> \<exists>s'. failures mime header_ok es s = Some s' \<and> waits_after (min (d * 2 ^ length es) 5000000000) s'"
proof (induction es arbitrary: d s)
  case Nil
  then show ?case by (simp add: min_absorb1)
next
  case (Cons e es)
  from waits_after_step [where header_ok = header_ok and mime = mime and e = e, OF Cons.prems] obtain s1 where
    p: "source_poll mime header_ok \<lparr>env_elapsed = True, env_reply = Some (Inl e)\<rparr> s =
      Some (Ready (Some (Inl (SrcTransport e))), s1)" and w: "waits_after (min (2 * d) 5000000000) s1" by blast
  have "min (min (2 * d) 5000000000 * 2 ^ length es) 5000000000 = min (d * 2 ^ length (e # es)) 5000000000"
  proof (cases "2 * d \<le> 5000000000")
    case False
    have "d * (2 * 1) \<le> d * (2 * 2 ^ length es)" by (intro mult_le_mono2) simp
    with False have "5000000000 \<le> d * (2 * 2 ^ length es)" by linarith
    with False show ?thesis by (simp add: min_absorb2)
  qed (simp add: min_absorb1 mult.assoc mult.left_commute)
  moreover have "min (2 * d) 5000000000 \<le> 5000000000" by simp
  ultimately show ?case using Cons.IH [OF w _ Cons.prems(3)] p by simp
qed

text \<open>While the server cannot be reached, a source with the default policy asks again after 0.3 seconds,
  then after twice the last delay each time, up to 5 seconds, and for ever.\<close>

theorem default_backoff:
  assumes "source_new True = Some s" "header_ok []" "es \<noteq> []"
  shows "\<exists>s'. failures mime header_ok es s = Some s'
    \<and> src_delay s' = Some (min (300000000 * 2 ^ (length es - 1)) 5000000000) \<and> ready_state s' = Connecting"
proof -
  from assms(3) obtain e rest where es: "es = e # rest" by (cases es) auto
  obtain s1 where s1: "source_poll mime header_ok \<lparr>env_elapsed = True, env_reply = Some (Inl e)\<rparr> s =
      Some (Ready (Some (Inl (SrcTransport e))), s1)" "waits_after 300000000 s1"
    using assms(1)
    by (auto simp: source_new_def waits_after_def source_poll_def poll_response_def fail_with_def handle_error_def
        clear_fetch_def default_retry_def exponential_retry_def Let_def)
  have "\<exists>s'. failures mime header_ok rest s1 = Some s'
      \<and> waits_after (min (300000000 * 2 ^ length rest) 5000000000) s'"
    by (rule failures_delay [where header_ok = header_ok, OF s1(2) _ assms(2)]) simp
  then show ?thesis
    using s1(1) es by (auto simp: waits_after_def ready_state_def)
qed

theorem default_backoff_witness:
  "\<exists>s s'. source_new True = Some s \<and> failures (\<lambda>_. True) (\<lambda>_. True)
      (replicate 3 \<lparr>rq_status = None, rq_is_timeout = True, rq_is_connect = True, rq_is_request = True\<rparr>) s = Some s'
    \<and> src_delay s' = Some 1200000000"
proof -
  obtain s where s: "source_new True = Some s" by (simp add: source_new_def)
  show ?thesis
    using default_backoff [OF s, of "\<lambda>_. True"
        "replicate 3 \<lparr>rq_status = None, rq_is_timeout = True, rq_is_connect = True, rq_is_request = True\<rparr>" "\<lambda>_. True"] s
    by (auto simp: numeral_3_eq_3)
qed

end
