(* ===== verification/Provider_Stream.thy ===== *)
theory Provider_Stream
  imports Event_Source Tool_Calls
begin

text \<open>
  From the events of a provider to the messages of a completion (\<open>forge_repo/src/provider\<close>): \<open>event.rs\<close>, the
  classification of errors in \<open>retry.rs\<close> with the error bodies of \<open>forge_app/src/dto/openai/error.rs\<close>, the choice of
  the backend in \<open>chat.rs\<close> and \<open>opencode.rs\<close>, and the two transformers of the requests to Bedrock. The parser of a
  message (\<open>serde\<close> and \<open>TryFrom\<close>), the text of an answer and the name of a status are arguments.
\<close>

definition is_some_and :: "('a \<Rightarrow> bool) \<Rightarrow> 'a option \<Rightarrow> bool" where
  "is_some_and P x \<longleftrightarrow> (case x of Some a \<Rightarrow> P a | None \<Rightarrow> False)"

lemma is_some_and_simps [simp]: "is_some_and P None \<longleftrightarrow> False" "is_some_and P (Some a) \<longleftrightarrow> P a"
  by (simp_all add: is_some_and_def)

lemma is_some_and_iff: "is_some_and P x \<longleftrightarrow> (\<exists>a. x = Some a \<and> P a)"
  by (cases x) simp_all

section \<open>Errors of the providers\<close>

datatype error_code = CodeString rstr | CodeNumber nat

text \<open>\<open>parse::<u16>\<close> accepts what \<open>parse::<u64>\<close> does, within its range.\<close>

definition parse_u16 :: "rstr \<Rightarrow> nat option" where
  "parse_u16 s = (case parse_u64 s of Some n \<Rightarrow> if n < 2 ^ 16 then Some n else None | None \<Rightarrow> None)"

fun as_number :: "error_code \<Rightarrow> nat option" where
  "as_number (CodeString s) = parse_u16 s"
| "as_number (CodeNumber n) = Some n"

fun as_str :: "error_code \<Rightarrow> rstr option" where
  "as_str (CodeString s) = Some s"
| "as_str (CodeNumber _) = None"

text \<open>
  The fields of a body that the program reads: of the untyped \<open>type\<close>, whether it is a string. The others are kept
  for the display of the error only.
\<close>

datatype error_response =
  ErrorResponse (er_error: "error_response option") (er_message: "rstr option") (er_code: "error_code option")
    (er_type: "rstr option")

datatype openai_error = ApiResponse error_response | ApiInvalidStatusCode nat

text \<open>The causes of an \<open>anyhow\<close> error that are looked for by \<open>downcast_ref\<close>, under any number of contexts.\<close>

datatype root_cause =
    ApiError openai_error | RequestError reqwest_error | StreamError source_error | AnthropicOverloaded rstr
  | OtherCause rstr

record chat_error =
  ce_contexts :: "rstr list"
  ce_root :: root_cause

definition with_context :: "rstr \<Rightarrow> chat_error \<Rightarrow> chat_error" where
  "with_context c e = e\<lparr>ce_contexts := c # ce_contexts e\<rparr>"

definition error_of :: "root_cause \<Rightarrow> chat_error" where
  "error_of r = \<lparr>ce_contexts = [], ce_root = r\<rparr>"

fun get_code_deep :: "error_response \<Rightarrow> error_code option" where
  "get_code_deep (ErrorResponse nested _ code _) =
     (case code of
        Some c \<Rightarrow> Some c
      | None \<Rightarrow> (case nested of Some e \<Rightarrow> get_code_deep e | None \<Rightarrow> None))"

definition transport_error_codes :: "rstr list" where
  "transport_error_codes = [lit ''ERR_STREAM_PREMATURE_CLOSE'', lit ''ECONNRESET'', lit ''ETIMEDOUT'']"

definition openai_retryable_error_codes :: "rstr list" where
  "openai_retryable_error_codes = [lit ''server_is_overloaded'', lit ''server_error'']"

datatype retryable_code = TransportCode | OpenAIServerCode

fun retryable_matches :: "retryable_code \<Rightarrow> rstr \<Rightarrow> bool" where
  "retryable_matches TransportCode code \<longleftrightarrow> code \<in> set transport_error_codes"
| "retryable_matches OpenAIServerCode code \<longleftrightarrow> code \<in> set openai_retryable_error_codes"

fun has_error_code :: "error_response \<Rightarrow> retryable_code \<Rightarrow> bool" where
  "has_error_code (ErrorResponse nested message code type_of) k \<longleftrightarrow>
     is_some_and (retryable_matches k) (Option.bind code as_str)
     \<or> is_some_and (retryable_matches k) type_of
     \<or> (case nested of Some e \<Rightarrow> has_error_code e k | None \<Rightarrow> False)"

definition is_api_error_with :: "retryable_code \<Rightarrow> chat_error \<Rightarrow> bool" where
  "is_api_error_with k e \<longleftrightarrow> (case ce_root e of ApiError (ApiResponse r) \<Rightarrow> has_error_code r k | _ \<Rightarrow> False)"

definition is_empty_error :: "chat_error \<Rightarrow> bool" where
  "is_empty_error e \<longleftrightarrow>
     (case ce_root e of
        ApiError (ApiResponse r) \<Rightarrow> er_message r = None \<and> er_code r = None \<and> er_error r = None
      | _ \<Rightarrow> False)"

definition is_req_transport_error :: "chat_error \<Rightarrow> bool" where
  "is_req_transport_error e \<longleftrightarrow>
     (case ce_root e of RequestError r \<Rightarrow> rq_is_timeout r \<or> rq_is_connect r \<or> rq_is_request r | _ \<Rightarrow> False)"

definition is_event_transport_error :: "chat_error \<Rightarrow> bool" where
  "is_event_transport_error e \<longleftrightarrow> (case ce_root e of StreamError (SrcTransport _) \<Rightarrow> True | _ \<Rightarrow> False)"

definition is_anthropic_overloaded_error :: "chat_error \<Rightarrow> bool" where
  "is_anthropic_overloaded_error e \<longleftrightarrow> (case ce_root e of AnthropicOverloaded _ \<Rightarrow> True | _ \<Rightarrow> False)"

definition get_req_status_code :: "chat_error \<Rightarrow> nat option" where
  "get_req_status_code e = (case ce_root e of RequestError r \<Rightarrow> rq_status r | _ \<Rightarrow> None)"

definition get_event_req_status_code :: "chat_error \<Rightarrow> nat option" where
  "get_event_req_status_code e =
     (case ce_root e of
        StreamError (SrcInvalidStatusCode res) \<Rightarrow> Some (rs_status res)
      | StreamError (SrcInvalidContentType _ res) \<Rightarrow> Some (rs_status res)
      | _ \<Rightarrow> None)"

definition get_api_status_code :: "chat_error \<Rightarrow> nat option" where
  "get_api_status_code e =
     (case ce_root e of
        ApiError (ApiResponse r) \<Rightarrow> Option.bind (get_code_deep r) as_number
      | ApiError (ApiInvalidStatusCode code) \<Rightarrow> Some code
      | _ \<Rightarrow> None)"

definition or_else :: "'a option \<Rightarrow> 'a option \<Rightarrow> 'a option" where
  "or_else x y = (case x of Some _ \<Rightarrow> x | None \<Rightarrow> y)"

text \<open>\<open>into_retry\<close>: the error is wrapped as retryable, or returned as it is.\<close>

datatype provider_error = Failed chat_error | Retryable chat_error

definition into_retry :: "nat list \<Rightarrow> chat_error \<Rightarrow> provider_error" where
  "into_retry status_codes e =
     (let code = or_else (or_else (get_req_status_code e) (get_event_req_status_code e)) (get_api_status_code e)
      in if is_some_and (\<lambda>c. c \<in> set status_codes) code then Retryable e
         else if is_api_error_with TransportCode e \<or> is_req_transport_error e \<or> is_event_transport_error e
             \<or> is_empty_error e \<or> is_anthropic_overloaded_error e \<or> is_api_error_with OpenAIServerCode e
         then Retryable e
         else Failed e)"

section \<open>The messages of a stream\<close>

definition is_sse_terminal :: "rstr \<Rightarrow> bool" where
  "is_sse_terminal d \<longleftrightarrow> d = lit ''[DONE]'' \<or> d = []"

text \<open>
  What \<open>event.rs\<close> needs besides the stream: the parser of the data of an event (the errors of \<open>serde_json\<close> and of
  \<open>TryFrom\<close> are told apart), the text of a body if it can be read, and the display of a status code.
\<close>

record 'm message_format =
  mf_parse :: "rstr \<Rightarrow> (bool \<times> chat_error) + 'm"
  mf_body :: "response \<Rightarrow> rstr option"
  mf_status :: "nat \<Rightarrow> rstr"

definition format_http_context :: "nat option \<Rightarrow> rstr \<Rightarrow> rstr \<Rightarrow> rstr" where
  "format_http_context status verb url =
     (case status of
        Some s \<Rightarrow> decimal s @ lit '' '' @ verb @ lit '' '' @ url
      | None \<Rightarrow> verb @ lit '' '' @ url)"

definition parse_message :: "'m message_format \<Rightarrow> rstr \<Rightarrow> chat_error + 'm" where
  "parse_message f d =
     (case mf_parse f d of
        Inr message \<Rightarrow> Inr message
      | Inl (parsed, e) \<Rightarrow>
          Inl (with_context ((if parsed then lit ''Failed to create completion message: ''
                              else lit ''Failed to parse provider response: '') @ d) e))"

definition stream_item :: "'m message_format \<Rightarrow> (source_error + source_event) \<Rightarrow> (chat_error + 'm) option" where
  "stream_item f item =
     (case item of
        Inr SrcOpen \<Rightarrow> None
      | Inr (SrcMessage event) \<Rightarrow> if is_sse_terminal (ev_data event) then None else Some (parse_message f (ev_data event))
      | Inl SrcStreamEnded \<Rightarrow> None
      | Inl (SrcInvalidStatusCode res) \<Rightarrow>
          Some (Inl (with_context
            (mf_status f (rs_status res) @ lit '' Reason: ''
             @ (case mf_body f res of Some body \<Rightarrow> body | None \<Rightarrow> lit ''[Unknown]''))
            (error_of (ApiError (ApiInvalidStatusCode (rs_status res))))))
      | Inl (SrcInvalidContentType t res) \<Rightarrow>
          Some (Inl (with_context (lit ''Http Status: '' @ mf_status f (rs_status res))
            (error_of (StreamError (SrcInvalidContentType t res)))))
      | Inl e \<Rightarrow> Some (Inl (error_of (StreamError e))))"

definition into_chat_completion_message ::
  "'m message_format \<Rightarrow> rstr \<Rightarrow> (source_error + source_event) list \<Rightarrow> (chat_error + 'm) list" where
  "into_chat_completion_message f url items =
     List.map_filter
       (\<lambda>item. map_option (map_sum (with_context (format_http_context None (lit ''POST'') url)) id) (stream_item f item))
       (takeWhile (\<lambda>item. item \<noteq> Inl SrcStreamEnded) items)"

section \<open>Which backend answers\<close>

datatype provider_response = RespOpenAI | RespOpenAIResponses | RespAnthropic | RespBedrock | RespGoogle | RespOpenCode

datatype backend = ChatCompletions | Responses | AnthropicMessages | BedrockConverse | GoogleGenerate | OpenCodeZen

definition route_chat :: "rstr \<Rightarrow> rstr \<Rightarrow> provider_response option \<Rightarrow> backend option" where
  "route_chat model provider_id resp =
     (case resp of
        Some RespOpenAI \<Rightarrow>
          if str_contains model (lit ''gpt-5'')
             \<and> (provider_id = lit ''openai'' \<or> provider_id = lit ''github_copilot'' \<or> provider_id = lit ''codex'')
          then Some Responses
          else if provider_id = lit ''codex'' then Some Responses
          else Some ChatCompletions
      | Some RespOpenAIResponses \<Rightarrow> Some Responses
      | Some RespAnthropic \<Rightarrow> Some AnthropicMessages
      | Some RespBedrock \<Rightarrow> Some BedrockConverse
      | Some RespGoogle \<Rightarrow> Some GoogleGenerate
      | Some RespOpenCode \<Rightarrow> Some OpenCodeZen
      | None \<Rightarrow> None)"

datatype open_code_backend = OCOpenAI | OCOpenAIResponses | OCAnthropic | OCGoogle

definition get_backend :: "rstr \<Rightarrow> open_code_backend" where
  "get_backend model =
     (if starts_with model (lit ''claude-'') then OCAnthropic
      else if starts_with model (lit ''gpt-5'') then OCOpenAIResponses
      else if starts_with model (lit ''gemini-'') then OCGoogle
      else OCOpenAI)"

record ('m) provider_route =
  pr_url :: rstr
  pr_response :: "provider_response option"
  pr_rest :: 'm

definition trim_end_slashes :: "rstr \<Rightarrow> rstr" where
  "trim_end_slashes s = rev (dropWhile (\<lambda>c. c = 47) (rev s))"

definition build_provider :: "'m provider_route \<Rightarrow> rstr \<Rightarrow> 'm provider_route" where
  "build_provider p model =
     (let base = trim_end_slashes (pr_url p)
      in case get_backend model of
           OCAnthropic \<Rightarrow> p\<lparr>pr_url := base @ lit ''/v1/messages'', pr_response := Some RespAnthropic\<rparr>
         | OCOpenAIResponses \<Rightarrow> p\<lparr>pr_url := base @ lit ''/v1/responses'', pr_response := Some RespOpenAIResponses\<rparr>
         | OCGoogle \<Rightarrow> p\<lparr>pr_url := base @ lit ''/v1'', pr_response := Some RespGoogle\<rparr>
         | OCOpenAI \<Rightarrow> p\<lparr>pr_url := base @ lit ''/v1/chat/completions'', pr_response := Some RespOpenAI\<rparr>)"

definition open_code_chat :: "rstr \<Rightarrow> backend" where
  "open_code_chat model =
     (case get_backend model of
        OCAnthropic \<Rightarrow> AnthropicMessages
      | OCOpenAIResponses \<Rightarrow> Responses
      | OCGoogle \<Rightarrow> GoogleGenerate
      | OCOpenAI \<Rightarrow> ChatCompletions)"

section \<open>Requests to Bedrock\<close>

text \<open>What the transformers do not look at is opaque: the content of a block, and a block of another kind.\<close>

datatype 'o content_block =
    BToolUse rstr rstr 'o
  | BToolResult rstr "'o list" "'o option"
  | BCachePoint
  | BOther 'o

datatype 'o system_block = SysCachePoint | SysOther 'o

record 'o bedrock_message =
  bm_content :: "'o content_block list"
  bm_role :: 'o

record 'o bedrock_request =
  br_messages :: "'o bedrock_message list option"
  br_system :: "'o system_block list option"

definition invalid_id_char :: "int \<Rightarrow> bool" where
  "invalid_id_char c \<longleftrightarrow>
     \<not> (97 \<le> c \<and> c \<le> 122 \<or> 65 \<le> c \<and> c \<le> 90 \<or> 48 \<le> c \<and> c \<le> 57 \<or> c = 95 \<or> c = 45)"

definition sanitize_id :: "rstr \<Rightarrow> rstr" where
  "sanitize_id s = map (\<lambda>c. if invalid_id_char c then 95 else c) s"

fun sanitize_block :: "'o content_block \<Rightarrow> 'o content_block" where
  "sanitize_block (BToolUse i n input) = BToolUse (sanitize_id i) n input"
| "sanitize_block (BToolResult i content status) = BToolResult (sanitize_id i) content status"
| "sanitize_block b = b"

definition sanitize_tool_ids :: "'o bedrock_request \<Rightarrow> 'o bedrock_request" where
  "sanitize_tool_ids r =
     r\<lparr>br_messages := map_option (map (\<lambda>m. m\<lparr>bm_content := map sanitize_block (bm_content m)\<rparr>)) (br_messages r)\<rparr>"

definition set_cache :: "'o bedrock_request \<Rightarrow> 'o bedrock_request" where
  "set_cache r =
     (let sys_len = (case br_system r of Some l \<Rightarrow> length l | None \<Rightarrow> 0);
          msg_len = (case br_messages r of Some l \<Rightarrow> length l | None \<Rightarrow> 0)
      in if sys_len = 0 \<and> msg_len = 0 then r
         else
           let r = (case br_system r of
                 Some (s # ss) \<Rightarrow> r\<lparr>br_system := Some (s # SysCachePoint # ss)\<rparr>
               | _ \<Rightarrow> r)
           in case br_messages r of
                Some ms \<Rightarrow>
                  if ms = [] then r
                  else let m = last ms
                       in r\<lparr>br_messages := Some (butlast ms @ [m\<lparr>bm_content := bm_content m @ [BCachePoint]\<rparr>])\<rparr>
              | None \<Rightarrow> r)"

section \<open>Errors: what is retried\<close>

text \<open>The levels of an error body, outermost first.\<close>

fun levels :: "error_response \<Rightarrow> error_response list" where
  "levels (ErrorResponse nested message code type_of) =
     ErrorResponse nested message code type_of # (case nested of Some e \<Rightarrow> levels e | None \<Rightarrow> [])"

lemma get_code_deep_levels:
  "get_code_deep e = (case List.map_filter er_code (levels e) of [] \<Rightarrow> None | c # _ \<Rightarrow> Some c)"
  by (induction e rule: get_code_deep.induct) (auto simp: map_filter_simps split: option.split)

lemma has_error_code_levels:
  "has_error_code e k \<longleftrightarrow>
    (\<exists>l \<in> set (levels e). is_some_and (retryable_matches k) (Option.bind (er_code l) as_str)
      \<or> is_some_and (retryable_matches k) (er_type l))"
  by (induction e k rule: has_error_code.induct) (auto split: option.splits)

lemma as_str_eq_Some [simp]: "as_str c = Some s \<longleftrightarrow> c = CodeString s"
  by (cases c) simp_all

lemma has_either_code:
  "has_error_code r TransportCode \<or> has_error_code r OpenAIServerCode \<longleftrightarrow>
    (\<exists>l \<in> set (levels r). \<exists>s. (er_code l = Some (CodeString s) \<or> er_type l = Some s)
      \<and> s \<in> set (transport_error_codes @ openai_retryable_error_codes))"
  by (auto simp: has_error_code_levels is_some_and_iff bind_eq_Some_conv)

definition is_retryable :: "provider_error \<Rightarrow> bool" where
  "is_retryable e \<longleftrightarrow> (case e of Retryable _ \<Rightarrow> True | Failed _ \<Rightarrow> False)"

text \<open>Which errors of a provider are tried again: a status of the configured ones wherever it comes from, a
  request that timed out, did not connect or was not sent, a broken stream, an overloaded server by one of the
  known codes at any level of the body, and a body that says nothing; nothing else is, and the contexts that
  were added on the way do not matter.\<close>

theorem into_retry_spec:
  "is_retryable (into_retry codes e) \<longleftrightarrow>
    (case ce_root e of
       ApiError (ApiInvalidStatusCode c) \<Rightarrow> c \<in> set codes
     | ApiError (ApiResponse r) \<Rightarrow>
         (\<exists>c \<in> set codes. Option.bind (case List.map_filter er_code (levels r) of [] \<Rightarrow> None | c # _ \<Rightarrow> Some c) as_number = Some c)
         \<or> (\<exists>l \<in> set (levels r). \<exists>s. (er_code l = Some (CodeString s) \<or> er_type l = Some s)
               \<and> s \<in> set (transport_error_codes @ openai_retryable_error_codes))
         \<or> er_message r = None \<and> er_code r = None \<and> er_error r = None
     | RequestError q \<Rightarrow>
         (\<exists>c \<in> set codes. rq_status q = Some c) \<or> rq_is_timeout q \<or> rq_is_connect q \<or> rq_is_request q
     | StreamError (SrcTransport _) \<Rightarrow> True
     | StreamError (SrcInvalidStatusCode res) \<Rightarrow> rs_status res \<in> set codes
     | StreamError (SrcInvalidContentType _ res) \<Rightarrow> rs_status res \<in> set codes
     | AnthropicOverloaded _ \<Rightarrow> True
     | _ \<Rightarrow> False)"
proof -
  note defs = into_retry_def is_retryable_def get_req_status_code_def get_event_req_status_code_def get_api_status_code_def
    or_else_def is_api_error_with_def is_empty_error_def is_req_transport_error_def is_event_transport_error_def
    is_anthropic_overloaded_error_def
  show ?thesis
  proof (cases "ce_root e")
    case (ApiError a)
    show ?thesis
    proof (cases a)
      case (ApiResponse r)
      have "is_retryable (into_retry codes e) \<longleftrightarrow>
          is_some_and (\<lambda>c. c \<in> set codes) (Option.bind (get_code_deep r) as_number)
          \<or> (has_error_code r TransportCode \<or> has_error_code r OpenAIServerCode)
          \<or> er_message r = None \<and> er_code r = None \<and> er_error r = None"
        using ApiError ApiResponse by (auto simp: defs)
      then show ?thesis
        unfolding has_either_code get_code_deep_levels is_some_and_iff
        using ApiError ApiResponse by auto
    qed (use ApiError in \<open>simp add: defs\<close>)
  next
    case (RequestError q)
    then show ?thesis by (cases "rq_status q") (simp_all add: defs)
  next
    case (StreamError x)
    then show ?thesis by (cases x) (simp_all add: defs)
  qed (simp_all add: defs)
qed

section \<open>From the server to the messages\<close>

text \<open>Polls of a source, one after the other, in the given environments.\<close>

fun source_items ::
  "(rstr \<Rightarrow> bool) \<Rightarrow> (rstr \<Rightarrow> bool) \<Rightarrow> source_env list \<Rightarrow> event_source \<Rightarrow> (source_error + source_event) list option" where
  "source_items mime header_ok [] s = Some []"
| "source_items mime header_ok (env # envs) s =
     (case source_poll mime header_ok env s of
        None \<Rightarrow> None
      | Some (item, s') \<Rightarrow>
          map_option (\<lambda>items. (case item of Ready (Some x) \<Rightarrow> x # items | _ \<Rightarrow> items)) (source_items mime header_ok envs s'))"

lemma stream_items:
  assumes "collect st given = Some (map Inr events)" "source_inv s" "\<not> src_is_closed s"
    "src_cur_stream s = Some (st, given)"
  shows "source_items mime header_ok (replicate (length events + 1) env) s =
    Some (map (\<lambda>e. Inr (SrcMessage e)) events @ [Inl SrcStreamEnded])"
  using assms
proof (induction events arbitrary: st given s)
  case Nil
  from Nil.prems(2,3) have "waits_for_one s" by (simp add: source_inv_def)
  then have w: "src_delay s = None" "src_next_response s = None"
    using Nil.prems(4) by (cases rule: waits_for_one_cases, simp_all)+
  obtain st' given' where n: "poll_next st given = (None, st', given')"
    using Nil.prems(1) by (subst (asm) collect.simps) (auto simp: Option.bind_eq_Some_conv split: prod.splits option.splits)
  have "source_inv (s\<lparr>src_cur_stream := Some (st', given')\<rparr>)"
    using Nil.prems(2-4) w poll_next_bounded [OF n] by (simp add: source_inv_def waits_for_one_def)
  from fail_with_inv [OF this, of SrcStreamEnded] obtain s' where
    "fail_with SrcStreamEnded (s\<lparr>src_cur_stream := Some (st', given')\<rparr>) = Some (Ready (Some (Inl SrcStreamEnded)), s')"
    using w by auto
  then show ?case using Nil.prems w n by (simp add: source_poll_def poll_response_def poll_stream_def)
next
  case (Cons event events)
  from Cons.prems(2,3) have "waits_for_one s" by (simp add: source_inv_def)
  then have w: "src_delay s = None" "src_next_response s = None"
    using Cons.prems(4) by (cases rule: waits_for_one_cases, simp_all)+
  obtain st' given' where n: "poll_next st given = (Some (Inr event), st', given')"
    and rest: "collect st' given' = Some (map Inr events)"
    using Cons.prems(1) by (subst (asm) collect.simps) (auto simp: Option.bind_eq_Some_conv split: prod.splits option.splits)
  let ?s = "s\<lparr>src_cur_stream := Some (st', given')\<rparr>"
  have inv: "source_inv ?s" "event_bounded event"
    using Cons.prems(2-4) w poll_next_bounded [OF n] by (simp_all add: source_inv_def waits_for_one_def)
  have "\<not> src_is_closed (handle_event event ?s)" "src_cur_stream (handle_event event ?s) = Some (st', given')"
    using Cons.prems(3) by (simp_all add: handle_event_def Let_def split: option.split)
  from Cons.IH [OF rest handle_event_inv [OF inv] this]
  show ?case using Cons.prems w n by (simp add: source_poll_def poll_response_def poll_stream_def)
qed

definition request_context :: "rstr \<Rightarrow> rstr" where
  "request_context url = lit ''POST '' @ url"

text \<open>
  The data of the events of a text, by its lines: the values of the \<open>data\<close> fields up to an empty line, joined; other
  fields, comments and lines that are not complete do not count, and neither do events without data.
\<close>

fun event_data :: "rstr list \<Rightarrow> rstr list \<Rightarrow> rstr list" where
  "event_data ds [] = []"
| "event_data ds (l # ls) =
     (case line_of l of
        LEmpty \<Rightarrow> (if ds = [] then [] else [join [10] ds]) @ event_data [] ls
      | LField name value \<Rightarrow>
          event_data (if name = lit ''data'' then ds @ [case value of Some v \<Rightarrow> v | None \<Rightarrow> []] else ds) ls
      | LComment _ \<Rightarrow> event_data ds ls)"

definition sse_data :: "rstr \<Rightarrow> rstr list" where
  "sse_data s = event_data [] (fst (complete_lines (strip_bom s)))"

lemma feed_data_lines:
  "\<not> eb_is_complete b \<Longrightarrow> ev_data (eb_event b) = concat (map (\<lambda>d. d @ [10]) ds) \<Longrightarrow>
     map ev_data (fst (feed b ls)) = event_data ds ls"
proof (induction ls arbitrary: b ds)
  case (Cons l ls)
  have default: "\<not> eb_is_complete (builder_default\<lparr>eb_event := event_default\<lparr>ev_id := i\<rparr>\<rparr>)"
    "ev_data (eb_event (builder_default\<lparr>eb_event := event_default\<lparr>ev_id := i\<rparr>\<rparr>)) = concat (map (\<lambda>d. d @ [10]) [])" for i
    by (simp_all add: builder_default_def event_default_def)
  show ?case
  proof (cases "line_of l")
    case LEmpty
    then have "eb_is_complete (builder_add b (line_of l))" "eb_event (builder_add b (line_of l)) = eb_event b"
      by (simp_all add: builder_add_def)
    then show ?thesis
      using Cons.IH [OF default, of "ev_id (eb_event b)"] Cons.prems(2) LEmpty concat_lines [of ds]
      by (cases "ds = []") (auto simp: builder_dispatch_def Let_def is_lf_def split: prod.split)
  next
    case (LComment c)
    then have "builder_add b (line_of l) = b" by (simp add: builder_add_def)
    then show ?thesis using Cons LComment by simp
  next
    case (LField name val)
    let ?b = "builder_add b (line_of l)" and ?ds = "if name = lit ''data'' then ds @ [case val of Some v \<Rightarrow> v | None \<Rightarrow> []] else ds"
    have "\<not> eb_is_complete ?b" "ev_data (eb_event ?b) = concat (map (\<lambda>d. d @ [10]) ?ds)"
      using Cons.prems LField by (auto simp: builder_add_def Let_def lit_def split: option.split)
    from Cons.IH [OF this] \<open>\<not> eb_is_complete ?b\<close> show ?thesis by (simp add: LField)
  qed
qed simp

lemma sse_data_events: "map ev_data (events_of builder_default (strip_bom s)) = sse_data s"
  unfolding events_of_def sse_data_def
  by (rule feed_data_lines) (simp_all add: builder_default_def event_default_def)

text \<open>C20: A server that answers with an event stream is understood, however its bytes are cut, whatever ends its lines
  and whatever other fields and comments it sends: the messages of the completion are those parsed from the joined data of
  its events, in the order they were sent, without the terminal markers; an event that does not parse is an error in its
  place that names the request. The answer has the status 200 and the content type of event streams, and is valid text
  of at most the size of the buffer.\<close>

theorem provider_stream_delivers:
  assumes "source_new True = Some s" "env_reply env = Some (Inr res)"
    and "rs_status res = 200" "rs_content_type res = Some t" "mime t" "rs_body res = map Inr chunks"
    and "utf8_decode (concat chunks) = (text1, [])" "utf8_len text1 \<le> max_event_buffer"
  shows "map_option (into_chat_completion_message f url)
      (source_items mime header_ok (replicate (length (sse_data text1) + 2) env) s) =
    Some (map (\<lambda>d. map_sum (with_context (request_context url)) id (parse_message f d))
      (filter (\<lambda>d. \<not> is_sse_terminal d) (sse_data text1)))"
proof -
  let ?events = "events_of builder_default (strip_bom text1)"
  have inv: "source_inv s" "\<not> src_is_closed s" "src_delay s = None" "src_next_response s = Some None"
    using source_new_inv [OF assms(1)] assms(1) by (auto simp: source_new_def split: if_splits)
  let ?s = "handle_response res (clear_fetch s)"
  have poll: "source_poll mime header_ok env s = Some (Ready (Some (Inr SrcOpen)), ?s)"
    using inv assms(2-5) by (simp add: source_poll_def poll_response_def check_response_def)
  have s: "source_inv ?s" "\<not> src_is_closed ?s"
    "src_cur_stream ?s = Some (set_last_event_id [] event_stream_new, map Inr chunks)"
    using inv assms(1,6)
    by (auto simp: source_new_def handle_response_def clear_fetch_def source_inv_def waits_for_one_def Let_def
        set_last_event_id_def event_stream_new_def builder_default_def event_default_def event_bounded_def split: if_splits)
  have "collect (set_last_event_id [] event_stream_new) (map Inr chunks :: (reqwest_error + int list) list)
      = Some (map Inr ?events)"
    using collect_valid [OF assms(7,8), where 'e = reqwest_error] by (simp add: set_last_event_id_def event_stream_new_def)
  from stream_items [OF this s, of mime header_ok env]
  have items: "source_items mime header_ok (replicate (length ?events + 2) env) s =
      Some (Inr SrcOpen # map (\<lambda>e. Inr (SrcMessage e)) ?events @ [Inl SrcStreamEnded])"
    using poll by simp
  have ctx: "format_http_context None (lit ''POST'') url = request_context url"
    by (simp add: format_http_context_def request_context_def lit_def)
  have opened: "stream_item f (Inr SrcOpen) = None" by (simp add: stream_item_def)
  have data: "map ev_data ?events = sse_data text1" by (simp add: sse_data_events)
  then have count: "length (sse_data text1) = length ?events" by (metis length_map)
  have upto: "takeWhile (\<lambda>item. item \<noteq> Inl SrcStreamEnded) (map (\<lambda>e. Inr (SrcMessage e)) es @ [Inl SrcStreamEnded])
      = map (\<lambda>e. Inr (SrcMessage e)) es" for es
    by (induction es) simp_all
  have messages: "List.map_filter (\<lambda>item. map_option (map_sum (with_context (request_context url)) id) (stream_item f item))
      (map (\<lambda>e. Inr (SrcMessage e)) es) =
     map (\<lambda>d. map_sum (with_context (request_context url)) id (parse_message f d)) (filter (\<lambda>d. \<not> is_sse_terminal d) (map ev_data es))"
    for es
    by (induction es) (simp_all add: map_filter_simps stream_item_def)
  show ?thesis
    unfolding count items
    unfolding into_chat_completion_message_def ctx data [symmetric] messages [symmetric]
    using upto [of ?events] by (simp add: map_filter_simps opened del: map_map)
qed

text \<open>A comment, data without the name of an event, both kinds of ends of lines, and the terminal marker.\<close>

definition sample_bytes :: "int list list" where
  "sample_bytes = [lit '': hi'' @ [13, 10] @ lit ''data: x'' @ [13, 10] @ lit ''da'',
     lit ''ta: y'' @ [13, 10, 13, 10] @ lit ''event: a'' @ [10] @ lit ''id: 8'' @ [10] @ lit ''data: [DONE]'' @ [10, 10]]"

lemma sample_data: "sse_data (concat sample_bytes) = [lit ''x'' @ [10] @ lit ''y'', lit ''[DONE]'']"
  by (simp add: sse_data_def sample_bytes_def strip_bom_def is_bom_def complete_lines.simps line_of_def lit_def)

theorem provider_stream_delivers_witness:
  "\<exists>s. source_new True = Some s \<and>
    map_option (into_chat_completion_message \<lparr>mf_parse = Inr, mf_body = (\<lambda>_. None), mf_status = decimal\<rparr> (lit ''u''))
      (source_items (\<lambda>_. True) (\<lambda>_. True)
        (replicate 4 \<lparr>env_elapsed = True, env_reply = Some (Inr \<lparr>rs_status = 200,
           rs_content_type = Some (lit ''text/event-stream''), rs_body = map Inr sample_bytes\<rparr>)\<rparr>) s) =
    Some [Inr (lit ''x'' @ [10] @ lit ''y'')]"
proof -
  obtain s where s: "source_new True = Some s" by (simp add: source_new_def)
  let ?res = "\<lparr>rs_status = 200, rs_content_type = Some (lit ''text/event-stream''), rs_body = map Inr sample_bytes\<rparr>"
  let ?env = "\<lparr>env_elapsed = True, env_reply = Some (Inr ?res)\<rparr>"
  let ?f = "\<lparr>mf_parse = Inr, mf_body = (\<lambda>_. None), mf_status = decimal\<rparr>"
  have "map_option (into_chat_completion_message ?f (lit ''u''))
      (source_items (\<lambda>_. True) (\<lambda>_. True) (replicate (length (sse_data (concat sample_bytes)) + 2) ?env) s) =
    Some (map (\<lambda>d. map_sum (with_context (request_context (lit ''u''))) id (parse_message ?f d))
      (filter (\<lambda>d. \<not> is_sse_terminal d) (sse_data (concat sample_bytes))))"
  proof (rule provider_stream_delivers [OF s, where res = ?res])
    show "utf8_decode (concat sample_bytes) = (concat sample_bytes, [])"
      by (simp add: utf8_decode.simps utf8_char_def lit_def sample_bytes_def)
    show "utf8_len (concat sample_bytes) \<le> max_event_buffer"
      by (simp add: utf8_len_def utf8_width_def max_event_buffer_def lit_def sample_bytes_def)
  qed auto
  also have "\<dots> = Some [Inr (lit ''x'' @ [10] @ lit ''y'')]"
    unfolding sample_data by (simp add: is_sse_terminal_def lit_def parse_message_def)
  moreover have count: "length (sse_data (concat sample_bytes)) + 2 = 4" by (simp add: sample_data)
  ultimately show ?thesis using s unfolding count by metis
qed

section \<open>Requests to Bedrock, and backends\<close>

fun block_id :: "'o content_block \<Rightarrow> rstr option" where
  "block_id (BToolUse i _ _) = Some i"
| "block_id (BToolResult i _ _) = Some i"
| "block_id _ = None"

definition request_blocks :: "'o bedrock_request \<Rightarrow> 'o content_block list" where
  "request_blocks r = concat (map bm_content (case br_messages r of Some ms \<Rightarrow> ms | None \<Rightarrow> []))"

lemma request_blocks_sanitize: "request_blocks (sanitize_tool_ids r) = map sanitize_block (request_blocks r)"
  by (simp add: request_blocks_def sanitize_tool_ids_def map_concat comp_def split: option.split)

lemma block_id_sanitize: "block_id (sanitize_block b) = map_option sanitize_id (block_id b)"
  by (cases b) simp_all

lemma sanitize_id_valid: "list_all (\<lambda>c. \<not> invalid_id_char c) (sanitize_id s)"
  by (auto simp: sanitize_id_def list_all_iff invalid_id_char_def)

lemma sanitize_id_valid_id: "list_all (\<lambda>c. \<not> invalid_id_char c) s \<Longrightarrow> sanitize_id s = s"
  by (simp add: sanitize_id_def list_all_iff map_idI)

lemma sanitize_id_idem: "sanitize_id (sanitize_id s) = sanitize_id s"
  by (rule sanitize_id_valid_id [OF sanitize_id_valid])

text \<open>Two ids that differ in a character that is not allowed become one.\<close>

lemma sanitize_id_collides: "sanitize_id (lit ''a.1'') = sanitize_id (lit ''a:1'')" "lit ''a.1'' \<noteq> lit ''a:1''"
  by (simp_all add: sanitize_id_def invalid_id_char_def lit_def)

lemma set_cache_blocks:
  "filter (\<lambda>b. b \<noteq> BCachePoint) (request_blocks (set_cache r)) = filter (\<lambda>b. b \<noteq> BCachePoint) (request_blocks r)"
proof (cases "br_messages r")
  case (Some ms)
  show ?thesis
  proof (cases ms rule: rev_cases)
    case (snoc ms' m)
    with Some have "br_messages (set_cache r) = Some (ms' @ [m\<lparr>bm_content := bm_content m @ [BCachePoint]\<rparr>])"
      by (simp add: set_cache_def Let_def split: option.split list.split)
    with Some snoc show ?thesis by (simp add: request_blocks_def)
  qed (use Some in \<open>simp add: request_blocks_def set_cache_def Let_def split: option.split list.split\<close>)
qed (simp add: request_blocks_def set_cache_def Let_def split: option.split list.split)

lemma set_cache_system:
  "map_option (filter (\<lambda>b. b \<noteq> SysCachePoint)) (br_system (set_cache r)) =
    map_option (filter (\<lambda>b. b \<noteq> SysCachePoint)) (br_system r)"
  by (simp add: set_cache_def Let_def split: option.split list.split)

lemma sanitize_tool_ids_idem: "sanitize_tool_ids (sanitize_tool_ids r) = sanitize_tool_ids r"
proof -
  have "sanitize_block (sanitize_block b) = sanitize_block b" for b :: "'a content_block"
    by (cases b) (simp_all add: sanitize_id_idem)
  then show ?thesis by (simp add: sanitize_tool_ids_def comp_def option.map_comp)
qed

text \<open>The ids of a request to Bedrock are made of the characters it accepts, calls and their results are renamed
  alike, a second pass changes nothing, and the cache points are added without touching anything else.\<close>

theorem bedrock_request_spec:
  "list_all (\<lambda>b. case block_id b of Some i \<Rightarrow> list_all (\<lambda>c. \<not> invalid_id_char c) i | None \<Rightarrow> True)
      (request_blocks (sanitize_tool_ids r))
    \<and> map block_id (request_blocks (sanitize_tool_ids r)) = map (map_option sanitize_id) (map block_id (request_blocks r))
    \<and> sanitize_tool_ids (sanitize_tool_ids r) = sanitize_tool_ids r
    \<and> filter (\<lambda>b. b \<noteq> BCachePoint) (request_blocks (set_cache r)) = filter (\<lambda>b. b \<noteq> BCachePoint) (request_blocks r)
    \<and> map_option (filter (\<lambda>b. b \<noteq> SysCachePoint)) (br_system (set_cache r)) = map_option (filter (\<lambda>b. b \<noteq> SysCachePoint)) (br_system r)"
  by (simp add: request_blocks_sanitize set_cache_blocks set_cache_system sanitize_tool_ids_idem comp_def
      block_id_sanitize list_all_iff sanitize_id_valid [unfolded list_all_iff] split: option.split)

end
