(* ===== verification/Fs_Patch.thy ===== *)
theory Fs_Patch
  imports Catalog Lifecycle
begin

text \<open>
  How an edit changes the text of a file (\<open>forge_services/src/tool_services/fs_patch.rs\<close>): the search of the text,
  the normalisation of line endings, the operations, and the two fallbacks of a search that finds nothing. Offsets
  count characters; the code counts the bytes of the same characters, which is what the error for a range out of
  bounds reports. The services behind the fallbacks are arguments.
\<close>

section \<open>Searching and replacing in strings\<close>

text \<open>\<open>str::replace\<close>: all occurrences from the left, not overlapping. The empty pattern occurs before every character
  and at the end.\<close>

function str_replace :: "rstr \<Rightarrow> rstr \<Rightarrow> rstr \<Rightarrow> rstr" where
  "str_replace p t s =
     (if p = [] then t @ concat (map (\<lambda>c. c # t) s)
      else case str_find s p of
        None \<Rightarrow> s
      | Some i \<Rightarrow> take i s @ t @ str_replace p t (drop (i + length p) s))"
  by pat_completeness auto

termination
proof (relation "measure (\<lambda>(p, t, s). length s)", goal_cases)
  case (2 p t s i)
  then show ?case using str_find_SomeD(1) [of s p i] by (cases p) auto
qed simp

declare str_replace.simps [simp del]

section \<open>Ranges\<close>

record frange =
  rg_start :: nat
  rg_length :: nat

definition rg_end :: "frange \<Rightarrow> nat" where
  "rg_end r = rg_start r + rg_length r"

definition find_exact :: "rstr \<Rightarrow> rstr \<Rightarrow> frange option" where
  "find_exact source search = map_option (\<lambda>start. \<lparr>rg_start = start, rg_length = length search\<rparr>) (str_find source search)"

definition detect_line_ending :: "rstr \<Rightarrow> rstr" where
  "detect_line_ending source = (if str_contains source [13, 10] then [13, 10] else [10])"

definition normalize_search_line_endings :: "rstr \<Rightarrow> rstr \<Rightarrow> rstr" where
  "normalize_search_line_endings source search =
     (if detect_line_ending source = [13, 10]
      then str_replace [10] [13, 10] (str_replace [13, 10] [10] search)
      else str_replace [13, 10] [10] search)"

record search_match =
  sm_start_line :: nat
  sm_end_line :: nat

text \<open>The difference of the indices is a wrapping subtraction of \<open>usize\<close>.\<close>

definition usize_sub :: "nat \<Rightarrow> nat \<Rightarrow> nat" where
  "usize_sub a b = nat ((int a - int b) mod 2 ^ 64)"

definition from_search_match :: "rstr \<Rightarrow> search_match \<Rightarrow> frange" where
  "from_search_match source m =
     (let ls = str_lines source
      in if ls = [] then \<lparr>rg_start = 0, rg_length = 0\<rparr>
         else
           let start_idx = min (sm_start_line m) (length ls);
               end_idx = min (sm_end_line m + 1) (length ls);
               raw = split_on 10 source;
               start_pos = min (sum_list (map (\<lambda>l. length l + 1) (take start_idx raw))) (length source);
               len =
                 (if start_idx = end_idx
                  then (if length ls \<le> start_idx then 0
                        else case get_at ls start_idx of Some l \<Rightarrow> length l | None \<Rightarrow> 0)
                  else
                    let content_len =
                          (if length ls \<le> start_idx \<or> length ls < end_idx then 0
                           else case get_range ls start_idx end_idx of
                             Some slice \<Rightarrow> sum_list (map length slice) | None \<Rightarrow> 0);
                        newlines_between = usize_sub (usize_sub end_idx start_idx) 1;
                        newline_bytes = sum_list (map (\<lambda>l. if ends_with l [13] then 2 else 1)
                          (take newlines_between (drop start_idx raw)))
                    in content_len + newline_bytes)
           in \<lparr>rg_start = start_pos, rg_length = len\<rparr>)"

section \<open>Operations\<close>

datatype patch_operation = Prepend | Append | Replace | ReplaceAll | Swap

datatype patch_error =
    FileOperation | NoMatch rstr | NoSwapTarget rstr | MultipleMatches rstr
  | RangeOutOfBounds nat nat nat | PatchBuild rstr

definition compute_range :: "rstr \<Rightarrow> rstr option \<Rightarrow> patch_operation \<Rightarrow> patch_error + frange option" where
  "compute_range source search operation =
     (case search of
        Some s \<Rightarrow>
          if s \<noteq> [] then
            (case find_exact source (normalize_search_line_endings source s) of
               Some r \<Rightarrow> Inr (Some r)
             | None \<Rightarrow> if operation \<in> {Replace, ReplaceAll, Swap} then Inl (NoMatch s) else Inr None)
          else Inr None
      | None \<Rightarrow> Inr None)"

text \<open>The offset in bytes of a position; past the end the positions go on one by one.\<close>

definition byte_offset :: "rstr \<Rightarrow> nat \<Rightarrow> nat" where
  "byte_offset s i = utf8_len (take i s) + (i - length s)"

definition out_of_bounds :: "rstr \<Rightarrow> nat \<Rightarrow> nat \<Rightarrow> patch_error" where
  "out_of_bounds s a b = RangeOutOfBounds (byte_offset s a) (byte_offset s b) (utf8_len s)"

text \<open>\<open>haystack.get(a..b)\<close> with its error.\<close>

definition slice :: "rstr \<Rightarrow> nat \<Rightarrow> nat \<Rightarrow> patch_error + rstr" where
  "slice s a b = (case get_range s a b of Some t \<Rightarrow> Inr t | None \<Rightarrow> Inl (out_of_bounds s a b))"

definition and_then :: "'e + 'a \<Rightarrow> ('a \<Rightarrow> 'e + 'b) \<Rightarrow> 'e + 'b" where
  "and_then x f = (case x of Inl e \<Rightarrow> Inl e | Inr a \<Rightarrow> f a)"

text \<open>The loop that looks for a second match.\<close>

function match_loop :: "rstr \<Rightarrow> rstr \<Rightarrow> nat \<Rightarrow> nat \<Rightarrow> bool" where
  "match_loop haystack needle search_start match_count =
     (case str_find (drop search_start haystack) needle of
        None \<Rightarrow> False
      | Some pos \<Rightarrow>
          if match_count + 1 > 1 then True
          else match_loop haystack needle (search_start + pos + length needle) (match_count + 1))"
  by pat_completeness auto

termination
  by (relation "measure (\<lambda>(_, _, _, n). 2 - n)") auto

declare match_loop.simps [simp del]

text \<open>The text in place of the range \<open>r\<close>.\<close>

definition splice :: "rstr \<Rightarrow> frange \<Rightarrow> rstr \<Rightarrow> patch_error + rstr" where
  "splice haystack r t =
     and_then (slice haystack 0 (rg_start r)) (\<lambda>before1.
     and_then (slice haystack (rg_end r) (length haystack)) (\<lambda>after1.
       Inr (before1 @ t @ after1)))"

definition swap_with :: "rstr \<Rightarrow> frange \<Rightarrow> rstr \<Rightarrow> rstr \<Rightarrow> patch_error + rstr" where
  "swap_with haystack patch content normalized =
     (case find_exact haystack content of
        None \<Rightarrow> Inl (NoSwapTarget content)
      | Some target \<Rightarrow>
          if rg_start patch \<le> rg_start target \<and> rg_end patch > rg_start target
             \<or> rg_start target \<le> rg_start patch \<and> rg_end target > rg_start patch
          then splice haystack patch normalized
          else if rg_start patch < rg_start target then
            and_then (slice haystack 0 (rg_start patch)) (\<lambda>part1.
            and_then (slice haystack (rg_end patch) (rg_start target)) (\<lambda>part2.
            and_then (slice haystack (rg_start patch) (rg_end patch)) (\<lambda>part3.
            and_then (slice haystack (rg_end target) (length haystack)) (\<lambda>part4.
              Inr (part1 @ normalized @ part2 @ part3 @ part4)))))
          else
            and_then (slice haystack 0 (rg_start target)) (\<lambda>part1.
            and_then (slice haystack (rg_start patch) (rg_end patch)) (\<lambda>part2.
            and_then (slice haystack (rg_end target) (rg_start patch)) (\<lambda>part3.
            and_then (slice haystack (rg_end patch) (length haystack)) (\<lambda>part4.
              Inr (part1 @ part2 @ part3 @ normalized @ part4))))))"

definition apply_replacement :: "rstr \<Rightarrow> frange option \<Rightarrow> patch_operation \<Rightarrow> rstr \<Rightarrow> patch_error + rstr" where
  "apply_replacement haystack rng operation content =
     (let line_ending = detect_line_ending haystack;
          normalized = normalize_search_line_endings haystack content
      in case rng of
        Some patch \<Rightarrow>
          if rg_end patch > length haystack then Inl (out_of_bounds haystack (rg_start patch) (rg_end patch))
          else
            and_then (slice haystack (rg_start patch) (rg_end patch)) (\<lambda>needle.
              case operation of
                Prepend \<Rightarrow>
                  and_then (slice haystack 0 (rg_start patch)) (\<lambda>before1.
                  and_then (slice haystack (rg_start patch) (length haystack)) (\<lambda>after1.
                    Inr (before1 @ normalized @ after1)))
              | ReplaceAll \<Rightarrow> Inr (str_replace needle normalized haystack)
              | Append \<Rightarrow>
                  and_then (slice haystack 0 (rg_end patch)) (\<lambda>before1.
                  and_then (slice haystack (rg_end patch) (length haystack)) (\<lambda>after1.
                    Inr (before1 @ line_ending @ normalized @ after1)))
              | Replace \<Rightarrow>
                  if match_loop haystack needle 0 0 then Inl (MultipleMatches needle)
                  else splice haystack patch normalized
              | Swap \<Rightarrow> swap_with haystack patch content normalized)
      | None \<Rightarrow>
          (case operation of
             Append \<Rightarrow> Inr (haystack @ line_ending @ normalized)
           | Prepend \<Rightarrow> Inr (normalized @ haystack)
           | Replace \<Rightarrow> Inr normalized
           | ReplaceAll \<Rightarrow> Inr normalized
           | Swap \<Rightarrow> Inr haystack))"

section \<open>Fallbacks, and the edits of a call\<close>

text \<open>
  The services asked when nothing matches: the fuzzy search (search text and content to line ranges, \<open>None\<close> for
  an error) and the text patch (content, search and replacement to the patched text, or an error).
\<close>

record patch_services =
  ps_fuzzy :: "rstr \<Rightarrow> rstr \<Rightarrow> search_match list option"
  ps_text_patch :: "rstr \<Rightarrow> rstr \<Rightarrow> rstr \<Rightarrow> rstr + rstr"
  ps_use_text_patch :: bool

definition apply_fuzzy_search_fallback ::
  "patch_services \<Rightarrow> rstr \<Rightarrow> rstr \<Rightarrow> rstr \<Rightarrow> patch_operation \<Rightarrow> patch_error + rstr" where
  "apply_fuzzy_search_fallback sv current search content operation =
     (case ps_fuzzy sv search current of
        Some (m # ms) \<Rightarrow> apply_replacement current (Some (from_search_match current m)) operation content
      | _ \<Rightarrow> Inl (NoMatch search))"

definition apply_text_patch_fallback :: "patch_services \<Rightarrow> rstr \<Rightarrow> rstr \<Rightarrow> rstr \<Rightarrow> patch_error + rstr" where
  "apply_text_patch_fallback sv current search content =
     (case ps_text_patch sv current (normalize_search_line_endings current search)
         (normalize_search_line_endings current content) of
        Inl message \<Rightarrow> Inl (PatchBuild message)
      | Inr patched \<Rightarrow> Inr patched)"

definition apply_replace_operation ::
  "patch_services \<Rightarrow> rstr \<Rightarrow> rstr \<Rightarrow> rstr \<Rightarrow> patch_operation \<Rightarrow> patch_error + rstr" where
  "apply_replace_operation sv current search content operation =
     (case compute_range current (Some search) operation of
        Inr rng \<Rightarrow> apply_replacement current rng operation content
      | Inl (NoMatch text1) \<Rightarrow>
          if operation \<in> {Replace, ReplaceAll, Swap} then
            (if ps_use_text_patch sv then apply_text_patch_fallback sv current text1 content
             else apply_fuzzy_search_fallback sv current text1 content operation)
          else Inl (NoMatch text1)
      | Inl e \<Rightarrow> Inl e)"

definition patch_operation_of :: "bool \<Rightarrow> patch_operation" where
  "patch_operation_of replace_all = (if replace_all then ReplaceAll else Replace)"

text \<open>The loop of \<open>multi_patch\<close> over its edits.\<close>

fun apply_edits :: "patch_services \<Rightarrow> rstr \<Rightarrow> patch_edit list \<Rightarrow> patch_error + rstr" where
  "apply_edits sv current [] = Inr current"
| "apply_edits sv current (e # es) =
     and_then (apply_replace_operation sv current (pe_old_string e) (pe_new_string e) (patch_operation_of (pe_replace_all e)))
       (\<lambda>current'. apply_edits sv current' es)"

section \<open>Lemmas\<close>

lemma starts_with_simps [simp]: "starts_with s [] \<longleftrightarrow> True" "starts_with (c # s) [d] \<longleftrightarrow> c = d" "starts_with [] [d] \<longleftrightarrow> False"
  by (auto simp: starts_with_def)

text \<open>Replacing cuts the text at the occurrences and puts it together again.\<close>

lemma str_replace_join:
  assumes "p \<noteq> []"
  shows "\<exists>parts. parts \<noteq> [] \<and> s = join p parts \<and> str_replace p t s = join t parts
    \<and> list_all (\<lambda>x. \<not> str_contains x p) parts"
  using assms
proof (induction p t s rule: str_replace.induct)
  case (1 p t s)
  show ?case
  proof (cases "str_find s p")
    case None
    then have "\<not> str_contains s p" by (simp add: str_find_None_iff)
    moreover have "str_replace p t s = s" using 1(2) None by (simp add: str_replace.simps [of p t s])
    ultimately have "list_all (\<lambda>x. \<not> str_contains x p) [s]" "str_replace p t s = join t [s]" "s = join p [s]" "[s] \<noteq> []"
      by simp_all
    then show ?thesis by blast
  next
    case (Some i)
    from 1(1) [OF 1(2) Some 1(2)] obtain parts where parts: "parts \<noteq> []" "drop (i + length p) s = join p parts"
      "str_replace p t (drop (i + length p) s) = join t parts" "list_all (\<lambda>x. \<not> str_contains x p) parts" by blast
    have "\<not> str_contains (take i s) p"
    proof
      assume "str_contains (take i s) p"
      then obtain a b where ab: "take i s = a @ p @ b" by (auto simp: str_contains_sublist sublist_def)
      then have "length a + length p \<le> i" by (metis append.assoc length_append length_take le_add1 min.cobounded2 order_trans)
      moreover have "s = a @ p @ (b @ drop i s)" using ab by (metis append.assoc append_take_drop_id)
      then obtain j where "str_find s p = Some j" "j \<le> length a" by (rule str_find_least)
      ultimately show False using Some 1(2) by (cases p) auto
    qed
    with parts Some 1(2) show ?thesis
      using str_find_split [OF Some]
      by (intro exI [of _ "take i s # parts"]) (cases parts, simp_all add: str_replace.simps [of p t s])
  qed
qed

lemma str_contains_find: "str_contains s p \<longleftrightarrow> str_find s p \<noteq> None"
  by (simp add: str_find_None_iff)

lemma str_replace_single: "str_replace [c] t s = concat (map (\<lambda>d. if d = c then t else [d]) s)"
proof (induction s)
  case Nil
  then show ?case by (simp add: str_replace.simps)
next
  case (Cons d s)
  show ?case
  proof (cases "d = c")
    case True
    then show ?thesis using Cons by (subst str_replace.simps) simp
  next
    case False
    then have "str_replace [c] t (d # s) = d # str_replace [c] t s"
      by (simp add: str_replace.simps [of "[c]" t "d # s"] str_replace.simps [of "[c]" t s] split: option.split)
    with Cons False show ?thesis by simp
  qed
qed

lemma str_replace_eq_Nil:
  assumes "p \<noteq> []" "t \<noteq> []"
  shows "str_replace p t s = [] \<longleftrightarrow> s = []"
proof -
  obtain parts where "parts \<noteq> []" "s = join p parts" "str_replace p t s = join t parts"
    using str_replace_join [OF assms(1)] by blast
  then show ?thesis
    using assms by (cases parts; cases "tl parts") auto
qed

lemma normalize_eq_Nil [simp]: "normalize_search_line_endings source s = [] \<longleftrightarrow> s = []"
  by (simp add: normalize_search_line_endings_def str_replace_eq_Nil)

lemma match_loop_iff:
  "match_loop haystack needle 0 0 \<longleftrightarrow>
    (case str_find haystack needle of
       None \<Rightarrow> False
     | Some i \<Rightarrow> str_contains (drop (i + length needle) haystack) needle)"
  by (simp add: match_loop.simps [of _ _ 0] match_loop.simps [of _ _ _ "Suc 0"] str_contains_find split: option.split)

lemma slice_simps [simp]: "a \<le> b \<Longrightarrow> b \<le> length s \<Longrightarrow> slice s a b = Inr (take (b - a) (drop a s))"
  by (simp add: slice_def get_range_def)

lemma and_then_simps [simp]: "and_then (Inr a) f = f a" "and_then (Inl e) f = Inl e"
  by (simp_all add: and_then_def)

lemma splice_split:
  assumes "rg_start r = length a" "rg_length r = length n"
  shows "splice (a @ n @ b) r t = Inr (a @ t @ b)"
  using assms by (simp add: splice_def rg_end_def)

section \<open>Line endings\<close>

text \<open>Every line feed follows a carriage return; \<open>p\<close> tells whether the text before ends with one.\<close>

fun crlf_only :: "bool \<Rightarrow> rstr \<Rightarrow> bool" where
  "crlf_only p [] \<longleftrightarrow> True"
| "crlf_only p (c # s) \<longleftrightarrow> (c = 10 \<longrightarrow> p) \<and> crlf_only (c = 13) s"

lemma crlf_only_mono: "crlf_only False s \<Longrightarrow> crlf_only p s"
  by (cases s) auto

lemma crlf_only_append: "crlf_only p (s @ t) \<longleftrightarrow> crlf_only p s \<and> crlf_only (if s = [] then p else last s = 13) t"
  by (induction s arbitrary: p) auto

lemma crlf_only_converted: "crlf_only p (concat (map (\<lambda>d. if d = 10 then [13, 10] else [d]) s))"
  by (induction s arbitrary: p) auto

lemma crlf_only_normalized:
  "str_contains source [13, 10] \<Longrightarrow> crlf_only p (normalize_search_line_endings source s)"
  by (simp add: normalize_search_line_endings_def detect_line_ending_def str_replace_single crlf_only_converted)

lemma crlf_only_joined:
  assumes "list_all (crlf_only False) parts" "crlf_only False t"
  shows "crlf_only p (join t parts)"
  using assms
proof (induction t parts arbitrary: p rule: join.induct)
  case (3 sep x y xs)
  then show ?case using crlf_only_mono by (auto simp: crlf_only_append)
qed (auto intro: crlf_only_mono)

lemma crlf_only_parts:
  assumes "crlf_only p (join n parts)" "n \<noteq> []" "last n \<noteq> 13" "crlf_only False (hd (parts @ [[]]))"
  shows "list_all (crlf_only False) parts"
  using assms
proof (induction n parts arbitrary: p rule: join.induct)
  case (3 sep x y xs)
  then have "crlf_only False (join sep (y # xs))" by (simp add: crlf_only_append)
  moreover from this have "crlf_only False y" by (cases xs) (simp_all add: crlf_only_append)
  ultimately have "list_all (crlf_only False) (y # xs)" using 3 by (intro "3.IH" [of False]) simp_all
  then show ?case using 3 by simp
qed simp_all

section \<open>Properties\<close>

lemma compute_range_found:
  assumes "s \<noteq> []" "str_find current (normalize_search_line_endings current s) = Some i"
  shows "compute_range current (Some s) operation =
    Inr (Some \<lparr>rg_start = i, rg_length = length (normalize_search_line_endings current s)\<rparr>)"
  using assms by (simp add: compute_range_def find_exact_def)

lemma apply_replacement_found:
  assumes "current = a @ n @ b"
  shows "apply_replacement current (Some \<lparr>rg_start = length a, rg_length = length n\<rparr>) Replace content =
      (if match_loop current n 0 0 then Inl (MultipleMatches n)
       else Inr (a @ normalize_search_line_endings current content @ b))"
    and "apply_replacement current (Some \<lparr>rg_start = length a, rg_length = length n\<rparr>) ReplaceAll content =
      Inr (str_replace n (normalize_search_line_endings current content) current)"
  using assms splice_split [of "\<lparr>rg_start = length a, rg_length = length n\<rparr>" a n b]
  by (simp_all add: apply_replacement_def rg_end_def)

text \<open>C21: A replacement of a text that occurs once puts the new text, with the line endings of the file, in its
  place and leaves the rest of the file as it is; a text that occurs again after its first occurrence is
  refused.\<close>

theorem patch_replaces_match:
  assumes "search \<noteq> []" "current = a @ normalize_search_line_endings current search @ b"
    and "\<not> str_contains (butlast (a @ normalize_search_line_endings current search)) (normalize_search_line_endings current search)"
  shows "apply_replace_operation sv current search content Replace =
    (if str_contains b (normalize_search_line_endings current search)
     then Inl (MultipleMatches (normalize_search_line_endings current search))
     else Inr (a @ normalize_search_line_endings current content @ b))"
proof -
  let ?n = "normalize_search_line_endings current search"
  have n: "?n \<noteq> []" using assms(1) by simp
  obtain i where i: "str_find current ?n = Some i" "i \<le> length a" by (rule str_find_least [OF assms(2)])
  have "i = length a"
  proof (rule ccontr)
    assume "i \<noteq> length a"
    with i have le: "i + length ?n \<le> length a + length ?n - 1" by simp
    have cut: "butlast (a @ ?n) = take (length a + length ?n - 1) current"
      unfolding assms(2) [symmetric] using n by (subst assms(2)) (simp add: butlast_conv_take)
    obtain y where y: "current = take i current @ ?n @ y" using str_find_split [OF i(1)] by blast
    have "length (take i current) = i" using str_find_SomeD(1) [OF i(1)] by simp
    with le have "take (length a + length ?n - 1) (take i current @ ?n @ y) =
        take i current @ ?n @ take (length a + length ?n - 1 - (i + length ?n)) y" by simp
    with cut y have "butlast (a @ ?n) = take i current @ ?n @ take (length a + length ?n - 1 - (i + length ?n)) y"
      by simp
    with assms(3) show False by (auto simp: str_contains_sublist sublist_def)
  qed
  with i(1) have "str_find current ?n = Some (length a)" by simp
  moreover have "drop (length a + length ?n) current = b" by (subst assms(2)) simp
  ultimately have "str_find current ?n = Some (length a)" "match_loop current ?n 0 0 \<longleftrightarrow> str_contains b ?n"
    by (simp_all add: match_loop_iff)
  then show ?thesis
    using compute_range_found [OF assms(1)] apply_replacement_found(1) [OF assms(2)]
    by (simp add: apply_replace_operation_def)
qed

theorem patch_replaces_match_witness:
  "apply_replace_operation \<lparr>ps_fuzzy = (\<lambda>_ _. None), ps_text_patch = (\<lambda>_ _ _. Inl []), ps_use_text_patch = False\<rparr>
      (lit ''let x = 1;'') (lit ''x = 1'') (lit ''y = 2'') Replace = Inr (lit ''let y = 2;'')"
proof -
  have current: "lit ''let x = 1;'' = lit ''let '' @ normalize_search_line_endings (lit ''let x = 1;'') (lit ''x = 1'') @ lit '';''"
    by code_simp
  show ?thesis
    using patch_replaces_match [OF _ current, of "\<lparr>ps_fuzzy = (\<lambda>_ _. None), ps_text_patch = (\<lambda>_ _ _. Inl []), ps_use_text_patch = False\<rparr>" "lit ''y = 2''"]
    by (simp add: lit_def normalize_search_line_endings_def detect_line_ending_def str_replace_single starts_with_def str_replace.simps [of "[13, 10]"])
qed

text \<open>Replacing all occurrences replaces each of them and nothing else: the file is some parts, without an
  occurrence in them, joined by the searched text, and the result is these parts joined by the new text.\<close>

theorem patch_replaces_all:
  assumes "search \<noteq> []" "str_contains current (normalize_search_line_endings current search)"
  shows "\<exists>parts. current = join (normalize_search_line_endings current search) parts
    \<and> list_all (\<lambda>x. \<not> str_contains x (normalize_search_line_endings current search)) parts
    \<and> apply_replace_operation sv current search content ReplaceAll =
      Inr (join (normalize_search_line_endings current content) parts)"
proof -
  let ?n = "normalize_search_line_endings current search"
  obtain i where i: "str_find current ?n = Some i" using assms(2) by (auto simp: str_contains_find)
  obtain a b where ab: "current = a @ ?n @ b" "length a = i"
    using str_find_split [OF i] str_find_SomeD(1) [OF i] by (metis add_leD1 length_take min.absorb2)
  have "apply_replace_operation sv current search content ReplaceAll =
      Inr (str_replace ?n (normalize_search_line_endings current content) current)"
    using compute_range_found [OF assms(1) i] apply_replacement_found(2) [OF ab(1), of content] ab(2)
    by (simp add: apply_replace_operation_def)
  moreover obtain parts where "current = join ?n parts" "list_all (\<lambda>x. \<not> str_contains x ?n) parts"
    "str_replace ?n (normalize_search_line_endings current content) current = join (normalize_search_line_endings current content) parts"
    using str_replace_join [of ?n current "normalize_search_line_endings current content"] assms(1) by auto
  ultimately show ?thesis by auto
qed

text \<open>Pieces without a bare line feed can be put together in any way.\<close>

lemma crlf_only_concat: "list_all (crlf_only False) xs \<Longrightarrow> crlf_only p (concat xs)"
  by (induction xs arbitrary: p) (auto simp: crlf_only_append intro: crlf_only_mono)

lemma crlf_only_around:
  assumes "crlf_only False (a @ n @ b)" "n \<noteq> []" "last n \<noteq> 13"
  shows "crlf_only False a" "crlf_only False b"
  using assms by (simp_all add: crlf_only_append)

lemma apply_replacement_beside:
  assumes "current = a @ n @ b"
  shows "apply_replacement current (Some \<lparr>rg_start = length a, rg_length = length n\<rparr>) Prepend content =
      Inr (a @ normalize_search_line_endings current content @ n @ b)"
    and "apply_replacement current (Some \<lparr>rg_start = length a, rg_length = length n\<rparr>) Append content =
      Inr (a @ n @ detect_line_ending current @ normalize_search_line_endings current content @ b)"
  using assms by (simp_all add: apply_replacement_def rg_end_def slice_def and_then_def get_range_def)

text \<open>C36: A file that has line endings, each a carriage return and a line feed, keeps that form when a text is replaced, all
  its occurrences are replaced, or something is put before or after it, with whatever line endings the search text and the
  new text are written. The search text is not empty, occurs in the file once its line endings are those of the file, and
  does not end with a lone carriage return.\<close>

theorem patch_keeps_crlf:
  assumes "crlf_only False current" "str_contains current [13, 10]" "search \<noteq> []"
    and "last (normalize_search_line_endings current search) \<noteq> 13"
    and "str_contains current (normalize_search_line_endings current search)"
    and "operation \<noteq> Swap"
    and "apply_replace_operation sv current search content operation = Inr result"
  shows "crlf_only False result"
proof -
  define n where "n = normalize_search_line_endings current search"
  define c where "c = normalize_search_line_endings current content"
  have n: "n \<noteq> []" "last n \<noteq> 13" using assms(3,4) by (simp_all add: n_def)
  have new: "crlf_only False n" "crlf_only False c"
    by (simp_all add: n_def c_def crlf_only_normalized [OF assms(2)])
  note found = compute_range_found [OF assms(3), of current, folded n_def]
  obtain i where i: "str_find current n = Some i" using assms(5) by (auto simp: str_contains_find n_def)
  obtain a b where ab: "current = a @ n @ b" "length a = i"
    using str_find_split [OF i] str_find_SomeD(1) [OF i] by (metis add_leD1 length_take min.absorb2)
  have parts: "crlf_only False a" "crlf_only False b"
    using crlf_only_around [of a n b] assms(1) n ab(1) by simp_all
  note result = assms(7) [unfolded apply_replace_operation_def found [OF i]]
  have together: "crlf_only False (concat xs)" if "set xs \<subseteq> {a, b, c, n, [13, 10]}" for xs
    using that new parts by (intro crlf_only_concat) (auto simp: list_all_iff)
  show ?thesis
  proof (cases operation)
    case Replace
    then have "result = concat [a, c, b]"
      using result apply_replacement_found(1) [OF ab(1), of content] ab(2) by (simp add: c_def split: if_splits)
    then show ?thesis using together [of "[a, c, b]"] by simp
  next
    case Prepend
    then have "result = concat [a, c, n, b]"
      using result apply_replacement_beside(1) [OF ab(1), of content] ab(2) by (simp add: c_def)
    then show ?thesis using together [of "[a, c, n, b]"] by simp
  next
    case Append
    moreover have "detect_line_ending current = [13, 10]" using assms(2) by (simp add: detect_line_ending_def)
    ultimately have "result = concat [a, n, [13, 10], c, b]"
      using result apply_replacement_beside(2) [OF ab(1), of content] ab(2) by (simp add: c_def)
    then show ?thesis using together [of "[a, n, [13, 10], c, b]"] by simp
  next
    case ReplaceAll
    then have "result = str_replace n c current"
      using result apply_replacement_found(2) [OF ab(1), of content] ab(2) by (simp add: c_def)
    then obtain ps where ps: "ps \<noteq> []" "current = join n ps" "result = join c ps"
      using str_replace_join [OF n(1), of current c] by auto
    have "crlf_only False (hd (ps @ [[]]))"
      using assms(1) ps(1) unfolding ps(2) by (cases ps; cases "tl ps") (auto simp: crlf_only_append)
    then have "list_all (crlf_only False) ps"
      using assms(1) n ps(2) by (intro crlf_only_parts [of False n]) simp_all
    then show ?thesis unfolding ps(3) by (rule crlf_only_joined) (rule new(2))
  qed (use assms(6) in simp)
qed

definition no_services :: patch_services where
  "no_services = \<lparr>ps_fuzzy = (\<lambda>_ _. None), ps_text_patch = (\<lambda>_ _ _. Inl []), ps_use_text_patch = False\<rparr>"

theorem patch_replaces_all_witness:
  "\<exists>parts. lit ''a-b-c'' = join (normalize_search_line_endings (lit ''a-b-c'') (lit ''-'')) parts
    \<and> list_all (\<lambda>x. \<not> str_contains x (normalize_search_line_endings (lit ''a-b-c'') (lit ''-''))) parts
    \<and> apply_replace_operation no_services (lit ''a-b-c'') (lit ''-'') (lit ''+'') ReplaceAll =
      Inr (join (normalize_search_line_endings (lit ''a-b-c'') (lit ''+'')) parts)"
proof (rule patch_replaces_all)
  show "str_contains (lit ''a-b-c'') (normalize_search_line_endings (lit ''a-b-c'') (lit ''-''))" by code_simp
qed (simp add: lit_def)

theorem patch_keeps_crlf_witness:
  "crlf_only False (lit ''a'' @ [13, 10] @ lit ''x'' @ [10] @ lit ''y'' @ [13, 10]) = False
    \<and> crlf_only False (lit ''a'' @ [13, 10] @ lit ''x'' @ [13, 10] @ lit ''y'' @ [13, 10])"
proof -
  let ?s = "lit ''a'' @ [13, 10] @ lit ''b'' @ [13, 10]"
  have "apply_replace_operation no_services ?s (lit ''b'') (lit ''x'' @ [10] @ lit ''y'') Replace =
      Inr (lit ''a'' @ [13, 10] @ lit ''x'' @ [13, 10] @ lit ''y'' @ [13, 10])"
    by code_simp
  moreover have "str_contains ?s (normalize_search_line_endings ?s (lit ''b''))"
    "last (normalize_search_line_endings ?s (lit ''b'')) \<noteq> 13" "str_contains ?s [13, 10]" "crlf_only False ?s"
    by code_simp+
  ultimately show ?thesis
    using patch_keeps_crlf [of ?s "lit ''b''" Replace no_services "lit ''x'' @ [10] @ lit ''y''"]
    by (simp add: lit_def)
qed

section \<open>The range of a fuzzy match\<close>

definition cat_lines :: "rstr list \<Rightarrow> rstr" where
  "cat_lines ls = concat (map (\<lambda>l. l @ [10]) ls)"

lemma cat_lines_simps [simp]: "cat_lines [] = []" "cat_lines (l # ls) = l @ 10 # cat_lines ls"
  "cat_lines (ls @ ls') = cat_lines ls @ cat_lines ls'"
  by (simp_all add: cat_lines_def)

lemma length_cat_lines: "length (cat_lines ls) = sum_list (map (\<lambda>l. length l + 1) ls)"
  by (induction ls) simp_all

lemma join_at: "join [10] (xs @ z # zs) = cat_lines xs @ z @ (if zs = [] then [] else 10 # join [10] zs)"
proof (induction xs)
  case Nil
  then show ?case by (cases zs) simp_all
next
  case (Cons x xs)
  then show ?case by (cases xs) simp_all
qed

lemma join_split_on: "join [d] (split_on d s) = s"
proof (induction s)
  case (Cons c s)
  then show ?case by (cases "split_on d s"; cases "tl (split_on d s)") (auto split: list.splits)
qed simp

lemma length_strip_cr: "length (strip_cr l) + (if ends_with l [13] then 2 else 1) = length l + 1"
  by (cases l rule: rev_cases) (auto simp: strip_cr_def ends_with_def)

lemma no_newline_count: "10 \<notin> set l \<Longrightarrow> filter (\<lambda>c. c = 10) l = []"
  by (auto simp: filter_empty_conv)

lemma str_lines_at:
  assumes "e < length (str_lines src)"
  obtains xs z zs where "split_on 10 src = xs @ z # zs" "length xs = e"
    "take (e + 1) (str_lines src) = map strip_cr xs @ [if zs = [] then z else strip_cr z]"
proof -
  let ?raw = "split_on 10 src"
  have len: "e < length ?raw" using assms by (auto simp: str_lines_def Let_def split: if_splits)
  then have raw: "?raw = take e ?raw @ ?raw ! e # drop (Suc e) ?raw" by (rule id_take_nth_drop)
  show ?thesis
  proof (cases "drop (Suc e) ?raw = []")
    case True
    then have last: "e = length ?raw - 1" using len by simp
    then have "?raw ! e = last ?raw" "butlast ?raw = take e ?raw"
      by (simp_all add: last_conv_nth butlast_conv_take)
    moreover have "last ?raw \<noteq> []" using assms last by (auto simp: str_lines_def Let_def split: if_splits)
    ultimately have "take (e + 1) (str_lines src) = map strip_cr (take e ?raw) @ [?raw ! e]"
      using len by (simp add: str_lines_def Let_def)
    with that [OF raw] len True show ?thesis by simp
  next
    case False
    then have "Suc e < length ?raw" by simp
    then have "take (Suc e) (butlast ?raw) = take (Suc e) ?raw" by (simp add: take_butlast)
    moreover have "take (Suc e) (map strip_cr (butlast ?raw) @ ys) = map strip_cr (take (Suc e) (butlast ?raw))" for ys
      using \<open>Suc e < length ?raw\<close> by (simp add: take_map)
    ultimately have "take (e + 1) (str_lines src) = map strip_cr (take (Suc e) ?raw)"
      by (simp add: str_lines_def Let_def)
    also have "take (Suc e) ?raw = take e ?raw @ [?raw ! e]" using len by (rule take_Suc_conv_app_nth)
    finally show ?thesis using that [OF raw] len False by simp
  qed
qed

lemma usize_sub_id: "b \<le> a \<Longrightarrow> a < 2 ^ 64 \<Longrightarrow> usize_sub a b = a - b"
  by (simp add: usize_sub_def of_nat_diff [symmetric] zmod_int [symmetric] del: of_nat_diff)

lemma sum_lengths:
  "sum_list (map length (map strip_cr ys)) + sum_list (map (\<lambda>l. if ends_with l [13] then 2 else 1) ys) = length (cat_lines ys)"
proof (induction ys)
  case (Cons y ys)
  then show ?case using length_strip_cr [of y] by simp
qed simp

lemma from_search_match_at:
  assumes "split_on 10 src = xs @ ys @ z # zs" "length xs = sm_start_line m" "length ys = sm_end_line m - sm_start_line m"
    and "sm_start_line m \<le> sm_end_line m" "sm_end_line m < length (str_lines src)" "sm_end_line m < 2 ^ 32"
    and "take (sm_end_line m + 1) (str_lines src) = map strip_cr (xs @ ys) @ [l]"
  shows "from_search_match src m = \<lparr>rg_start = length (cat_lines xs), rg_length = length (cat_lines ys) + length l\<rparr>"
proof -
  let ?ls = "str_lines src"
  have src: "src = cat_lines (xs @ ys) @ z @ (if zs = [] then [] else 10 # join [10] zs)"
    using join_split_on [of 10 src] join_at [of "xs @ ys" z zs] assms(1) by simp
  have idx: "min (sm_start_line m) (length ?ls) = sm_start_line m" "min (sm_end_line m + 1) (length ?ls) = sm_end_line m + 1"
    "sm_start_line m \<noteq> sm_end_line m + 1" "?ls \<noteq> []" "\<not> length ?ls \<le> sm_start_line m" "\<not> length ?ls < sm_end_line m + 1"
    using assms(4,5) by auto
  have "sum_list (map (\<lambda>l. length l + 1) (take (sm_start_line m) (split_on 10 src))) = length (cat_lines xs)"
    unfolding assms(1) using assms(2) by (simp add: length_cat_lines)
  moreover have "length (cat_lines xs) \<le> length src" by (subst src) simp
  ultimately have start: "min (sum_list (map (\<lambda>l. length l + 1) (take (sm_start_line m) (split_on 10 src)))) (length src)
      = length (cat_lines xs)" by simp
  have "take (sm_end_line m + 1 - sm_start_line m) (drop (sm_start_line m) ?ls) = drop (sm_start_line m) (take (sm_end_line m + 1) ?ls)"
    by (simp add: drop_take)
  also have "\<dots> = map strip_cr ys @ [l]" unfolding assms(7) using assms(2) by simp
  finally have lines: "get_range ?ls (sm_start_line m) (sm_end_line m + 1) = Some (map strip_cr ys @ [l])"
    using assms(4,5) by (simp add: get_range_def)
  have "usize_sub (usize_sub (sm_end_line m + 1) (sm_start_line m)) 1 = length ys"
    using assms(3,4,6) by (simp add: usize_sub_id)
  then have newlines: "take (usize_sub (usize_sub (sm_end_line m + 1) (sm_start_line m)) 1) (drop (sm_start_line m) (split_on 10 src)) = ys"
    unfolding assms(1) using assms(2) by simp
  show ?thesis
    unfolding from_search_match_def Let_def idx start lines newlines
    using idx sum_lengths [of ys] by simp
qed

text \<open>C37: The range of a fuzzy match is the matched lines: it starts after as many line feeds as the first line has
  lines before it, holds as many as there are lines after the first, ends at the end of the last line, before
  its line ending if it has one, and never reaches out of the file.\<close>

theorem fuzzy_range_is_the_lines:
  assumes "sm_start_line m \<le> sm_end_line m" "sm_end_line m < length (str_lines src)" "sm_end_line m < 2 ^ 32"
  shows "\<exists>a t b. src = a @ t @ b \<and> from_search_match src m = \<lparr>rg_start = length a, rg_length = length t\<rparr>
    \<and> length (filter (\<lambda>c. c = 10) a) = sm_start_line m
    \<and> length (filter (\<lambda>c. c = 10) t) = sm_end_line m - sm_start_line m
    \<and> (a = [] \<or> last a = 10) \<and> (b = [] \<or> hd b = 10 \<or> take 2 b = [13, 10])"
proof -
  obtain ws z zs where ws: "split_on 10 src = ws @ z # zs" "length ws = sm_end_line m"
    "take (sm_end_line m + 1) (str_lines src) = map strip_cr ws @ [if zs = [] then z else strip_cr z]"
    using str_lines_at [OF assms(2)] by blast
  let ?xs = "take (sm_start_line m) ws" and ?ys = "drop (sm_start_line m) ws"
  let ?l = "if zs = [] then z else strip_cr z"
  let ?cr = "if zs \<noteq> [] \<and> ends_with z [13] then [13] else []"
  have match: "from_search_match src m = \<lparr>rg_start = length (cat_lines ?xs), rg_length = length (cat_lines ?ys) + length ?l\<rparr>"
    using ws assms by (intro from_search_match_at [where z = z and zs = zs]) simp_all
  have z: "z = ?l @ ?cr"
    by (cases z rule: rev_cases) (auto simp: strip_cr_def ends_with_def)
  have "src = cat_lines ws @ z @ (if zs = [] then [] else 10 # join [10] zs)"
    using join_split_on [of 10 src] join_at [of ws z zs] ws(1) by simp
  also have "cat_lines ws = cat_lines ?xs @ cat_lines ?ys" by (metis append_take_drop_id cat_lines_simps(3))
  finally have src: "src = cat_lines ?xs @ (cat_lines ?ys @ ?l) @ ?cr @ (if zs = [] then [] else 10 # join [10] zs)"
    using z by simp
  have no_newline: "10 \<notin> set x" if "x \<in> set (ws @ [z])" for x
    using that split_on_parts [of x 10 src] ws(1) by auto
  have count: "length (filter (\<lambda>c. c = 10) (cat_lines ls)) = length ls" if "set ls \<subseteq> set ws" for ls
    using that by (induction ls) (auto simp: no_newline_count no_newline)
  have l: "filter (\<lambda>c. c = 10) ?l = []"
    using no_newline [of z] strip_cr_subset [of z] by (intro no_newline_count) auto
  have ends: "cat_lines ls = [] \<or> last (cat_lines ls) = 10" for ls
    by (cases ls rule: rev_cases) simp_all
  let ?b = "?cr @ (if zs = [] then [] else 10 # join [10] zs)"
  have "length (filter (\<lambda>c. c = 10) (cat_lines ?xs)) = sm_start_line m"
    using count [of ?xs] ws(2) assms(1) set_take_subset [of "sm_start_line m" ws] by simp
  moreover have "length (filter (\<lambda>c. c = 10) (cat_lines ?ys @ ?l)) = sm_end_line m - sm_start_line m"
    using count [of ?ys] ws(2) l set_drop_subset [of "sm_start_line m" ws] by simp
  moreover have "?b = [] \<or> hd ?b = 10 \<or> take 2 ?b = [13, 10]" by simp
  moreover have "from_search_match src m = \<lparr>rg_start = length (cat_lines ?xs), rg_length = length (cat_lines ?ys @ ?l)\<rparr>"
    using match by simp
  ultimately show ?thesis using src ends [of ?xs] by blast
qed

theorem fuzzy_range_is_the_lines_witness:
  "\<exists>a t b. lit ''ab'' @ [13, 10] @ lit ''cd'' @ [10] @ lit ''e'' = a @ t @ b
    \<and> from_search_match (lit ''ab'' @ [13, 10] @ lit ''cd'' @ [10] @ lit ''e'') \<lparr>sm_start_line = 1, sm_end_line = 2\<rparr>
      = \<lparr>rg_start = length a, rg_length = length t\<rparr>
    \<and> length (filter (\<lambda>c. c = 10) a) = 1 \<and> length (filter (\<lambda>c. c = 10) t) = 1
    \<and> (a = [] \<or> last a = 10) \<and> (b = [] \<or> hd b = 10 \<or> take 2 b = [13, 10])"
  using fuzzy_range_is_the_lines [of "\<lparr>sm_start_line = 1, sm_end_line = 2\<rparr>" "lit ''ab'' @ [13, 10] @ lit ''cd'' @ [10] @ lit ''e''"]
  by (simp add: lit_def str_lines_def)

end
