(* ===== verification/File_Tools.thy ===== *)
theory File_Tools
  imports Fs_Patch
begin

text \<open>
  The tools that change files, and the snapshots that let them be undone: \<open>forge_services/src/tool_services\<close>
  (\<open>fs_write.rs\<close>, \<open>fs_patch.rs\<close>, \<open>fs_remove.rs\<close>, \<open>fs_undo.rs\<close>), \<open>forge_snaps/src/service.rs\<close> and
  \<open>forge_domain/src/snapshot.rs\<close>, on a Unix system. The file system and what the code takes from other crates
  (symbolic links, the clock and its format, the hash of a path) are arguments.
\<close>

section \<open>The file system\<close>

text \<open>A file whose bytes are UTF-8 is given as its text. A directory is not represented: a tool cannot read, write or
  remove one as a file.\<close>

datatype file_content = TextFile rstr | BinaryFile "int list"

text \<open>The regular files by their resolved path, and the files below the snapshot directory, by the name of their
  directory: the name and content of each. The user's files and the snapshots are apart.\<close>

record file_state =
  fs_files :: "rstr \<Rightarrow> file_content option"
  fs_snapshots :: "rstr \<Rightarrow> (rstr \<times> file_content) list option"

text \<open>
  The path a path resolves to, the hash of a path in hexadecimal, a time as
  \<open>YYYY-MM-DD_HH-MM-SS-nnnnnnnnn\<close>, the paths that may be written (their directory exists or can be made) and
  removed, the text of a binary file, and the services of a patch.
\<close>

record file_env =
  fe_real :: "rstr \<Rightarrow> rstr"
  fe_hash :: "rstr \<Rightarrow> rstr"
  fe_stamp :: "nat \<Rightarrow> rstr"
  fe_can_write :: "rstr \<Rightarrow> bool"
  fe_can_remove :: "rstr \<Rightarrow> bool"
  fe_lossy :: "int list \<Rightarrow> rstr"
  fe_patch :: patch_services

datatype file_error =
    NotAbsolute | CannotRead | CannotWrite | CannotRemove | AlreadyExists | NoSnapshots | NoValidSnapshots
  | PatchFailed patch_error

definition file_at :: "file_env \<Rightarrow> file_state \<Rightarrow> rstr \<Rightarrow> file_content option" where
  "file_at env st p = fs_files st (fe_real env p)"

definition put_file :: "file_env \<Rightarrow> rstr \<Rightarrow> file_content option \<Rightarrow> file_state \<Rightarrow> file_state" where
  "put_file env p c st = st\<lparr>fs_files := (fs_files st)(fe_real env p := c)\<rparr>"

definition is_absolute :: "rstr \<Rightarrow> bool" where
  "is_absolute p \<longleftrightarrow> starts_with p (lit ''/'')"

definition assert_absolute_path :: "rstr \<Rightarrow> file_error + unit" where
  "assert_absolute_path p = (if \<not> is_absolute p then Inl NotAbsolute else Inr ())"

definition write_file :: "file_env \<Rightarrow> rstr \<Rightarrow> file_content \<Rightarrow> file_state \<Rightarrow> (file_error + unit) \<times> file_state" where
  "write_file env p c st =
     (if fe_can_write env p then (Inr (), put_file env p (Some c) st) else (Inl CannotWrite, st))"

definition read_lossy :: "file_env \<Rightarrow> file_content \<Rightarrow> rstr" where
  "read_lossy env c = (case c of TextFile t \<Rightarrow> t | BinaryFile b \<Rightarrow> fe_lossy env b)"

section \<open>Snapshots\<close>

record snapshot =
  sn_timestamp :: nat
  sn_path :: rstr

definition snapshot_create :: "file_env \<Rightarrow> file_state \<Rightarrow> nat \<Rightarrow> rstr \<Rightarrow> file_error + snapshot" where
  "snapshot_create env st now p =
     (if file_at env st p \<noteq> None then Inr \<lparr>sn_timestamp = now, sn_path = fe_real env p\<rparr>
      else if is_absolute p then Inr \<lparr>sn_timestamp = now, sn_path = p\<rparr>
      else Inl NotAbsolute)"

definition path_hash :: "file_env \<Rightarrow> snapshot \<Rightarrow> rstr" where
  "path_hash env s = fe_hash env (sn_path s)"

definition snap_name :: "file_env \<Rightarrow> nat \<Rightarrow> rstr" where
  "snap_name env t = fe_stamp env t @ lit ''.snap''"

text \<open>The directory and the name of a snapshot.\<close>

definition snapshot_path :: "file_env \<Rightarrow> snapshot \<Rightarrow> rstr \<times> rstr" where
  "snapshot_path env s = (path_hash env s, snap_name env (sn_timestamp s))"

definition create_dir :: "rstr \<Rightarrow> file_state \<Rightarrow> file_state" where
  "create_dir d st =
     (case fs_snapshots st d of
        None \<Rightarrow> st\<lparr>fs_snapshots := (fs_snapshots st)(d := Some [])\<rparr>
      | Some _ \<Rightarrow> st)"

definition create_snapshot ::
  "file_env \<Rightarrow> nat \<Rightarrow> rstr \<Rightarrow> file_state \<Rightarrow> (file_error + snapshot) \<times> file_state" where
  "create_snapshot env now p st =
     (case snapshot_create env st now p of
        Inl e \<Rightarrow> (Inl e, st)
      | Inr s \<Rightarrow>
          let (d, n) = snapshot_path env s;
              st = create_dir d st
          in case file_at env st (sn_path s) of
               None \<Rightarrow> (Inl CannotRead, st)
             | Some content \<Rightarrow>
                 (Inr s, st\<lparr>fs_snapshots := (fs_snapshots st)
                    (d := map_option (\<lambda>es. AList.update n content es) (fs_snapshots st d))\<rparr>))"

text \<open>The entry with the greatest name, the first of them, in one pass over the directory.\<close>

fun recent_snapshot :: "(rstr \<times> file_content) option \<Rightarrow> (rstr \<times> file_content) list \<Rightarrow> (rstr \<times> file_content) option" where
  "recent_snapshot latest [] = latest"
| "recent_snapshot latest (e # es) =
     recent_snapshot
       (if ends_with (fst e) (lit ''.snap'') \<and> (case latest of None \<Rightarrow> True | Some l \<Rightarrow> fst l < fst e)
        then Some e else latest) es"

definition find_recent_snapshot :: "(rstr \<times> file_content) list \<Rightarrow> (rstr \<times> file_content) option" where
  "find_recent_snapshot es = recent_snapshot None es"

definition undo_snapshot :: "file_env \<Rightarrow> nat \<Rightarrow> rstr \<Rightarrow> file_state \<Rightarrow> (file_error + unit) \<times> file_state" where
  "undo_snapshot env now p st =
     (case snapshot_create env st now p of
        Inl e \<Rightarrow> (Inl e, st)
      | Inr s \<Rightarrow>
          let d = path_hash env s
          in case fs_snapshots st d of
               None \<Rightarrow> (Inl NoSnapshots, st)
             | Some es \<Rightarrow>
                 (case find_recent_snapshot es of
                    None \<Rightarrow> (Inl NoValidSnapshots, st)
                  | Some (n, content) \<Rightarrow>
                      (case write_file env p content st of
                         (Inl e, st) \<Rightarrow> (Inl e, st)
                       | (Inr _, st) \<Rightarrow>
                           (Inr (), st\<lparr>fs_snapshots := (fs_snapshots st)(d := map_option (AList.delete n) (fs_snapshots st d))\<rparr>))))"

section \<open>The tools\<close>

text \<open>What a tool returns of the change: the content before, if any, and after.\<close>

type_synonym file_change = "rstr option \<times> rstr option"

text \<open>The end that \<open>patch\<close> and \<open>multi_patch\<close> share: the snapshot, then the file.\<close>

definition save_patched ::
  "file_env \<Rightarrow> nat \<Rightarrow> rstr \<Rightarrow> rstr \<Rightarrow> rstr \<Rightarrow> file_state \<Rightarrow> (file_error + file_change) \<times> file_state" where
  "save_patched env now p old new st =
     (case create_snapshot env now p st of
        (Inl e, st) \<Rightarrow> (Inl e, st)
      | (Inr _, st) \<Rightarrow>
          (case write_file env p (TextFile new) st of
             (Inl e, st) \<Rightarrow> (Inl e, st)
           | (Inr _, st) \<Rightarrow> (Inr (Some old, Some new), st)))"

definition read_to_string :: "file_env \<Rightarrow> file_state \<Rightarrow> rstr \<Rightarrow> file_error + rstr" where
  "read_to_string env st p = (case file_at env st p of Some (TextFile t) \<Rightarrow> Inr t | _ \<Rightarrow> Inl CannotRead)"

definition patch_file ::
  "file_env \<Rightarrow> nat \<Rightarrow> rstr \<Rightarrow> rstr \<Rightarrow> rstr \<Rightarrow> bool \<Rightarrow> file_state \<Rightarrow> (file_error + file_change) \<times> file_state" where
  "patch_file env now p search content replace_all st =
     (case assert_absolute_path p of
        Inl e \<Rightarrow> (Inl e, st)
      | Inr _ \<Rightarrow>
          (case read_to_string env st p of
             Inl e \<Rightarrow> (Inl e, st)
           | Inr old \<Rightarrow>
               (case apply_replace_operation (fe_patch env) old search content (patch_operation_of replace_all) of
                  Inl e \<Rightarrow> (Inl (PatchFailed e), st)
                | Inr new \<Rightarrow> save_patched env now p old new st)))"

definition multi_patch_file ::
  "file_env \<Rightarrow> nat \<Rightarrow> rstr \<Rightarrow> patch_edit list \<Rightarrow> file_state \<Rightarrow> (file_error + file_change) \<times> file_state" where
  "multi_patch_file env now p edits st =
     (case assert_absolute_path p of
        Inl e \<Rightarrow> (Inl e, st)
      | Inr _ \<Rightarrow>
          (case read_to_string env st p of
             Inl e \<Rightarrow> (Inl e, st)
           | Inr old \<Rightarrow>
               (case apply_edits (fe_patch env) old edits of
                  Inl e \<Rightarrow> (Inl (PatchFailed e), st)
                | Inr new \<Rightarrow> save_patched env now p old new st)))"

text \<open>The line ending of the file that is there, else of the platform.\<close>

definition normalized_content :: "rstr option \<Rightarrow> rstr \<Rightarrow> rstr" where
  "normalized_content existing content =
     str_replace [10] (case existing of Some t \<Rightarrow> detect_line_ending t | None \<Rightarrow> [10]) (str_replace [13, 10] [10] content)"

definition write_tool ::
  "file_env \<Rightarrow> nat \<Rightarrow> rstr \<Rightarrow> rstr \<Rightarrow> bool \<Rightarrow> file_state \<Rightarrow> (file_error + file_change) \<times> file_state" where
  "write_tool env now p content overwrite st =
     (case assert_absolute_path p of
        Inl e \<Rightarrow> (Inl e, st)
      | Inr _ \<Rightarrow>
          if \<not> fe_can_write env p then (Inl CannotWrite, st)
          else
            let existing = map_option (read_lossy env) (file_at env st p)
            in if existing \<noteq> None \<and> \<not> overwrite then (Inl AlreadyExists, st)
               else
                 let snap = (if existing \<noteq> None then create_snapshot env now p st
                             else (Inr \<lparr>sn_timestamp = now, sn_path = p\<rparr>, st));
                     new = normalized_content existing content
                 in (case snap of
                       (Inl e, st) \<Rightarrow> (Inl e, st)
                     | (Inr _, st) \<Rightarrow>
                         (case write_file env p (TextFile new) st of
                            (Inl e, st) \<Rightarrow> (Inl e, st)
                          | (Inr _, st) \<Rightarrow> (Inr (existing, Some new), st))))"

definition remove_tool :: "file_env \<Rightarrow> nat \<Rightarrow> rstr \<Rightarrow> file_state \<Rightarrow> (file_error + file_change) \<times> file_state" where
  "remove_tool env now p st =
     (case assert_absolute_path p of
        Inl e \<Rightarrow> (Inl e, st)
      | Inr _ \<Rightarrow>
          let content = (case file_at env st p of Some c \<Rightarrow> read_lossy env c | None \<Rightarrow> [])
          in (case create_snapshot env now p st of
                (Inl e, st) \<Rightarrow> (Inl e, st)
              | (Inr _, st) \<Rightarrow>
                  if fe_can_remove env p then (Inr (Some content, None), put_file env p None st)
                  else (Inl CannotRemove, st)))"

definition undo_tool :: "file_env \<Rightarrow> nat \<Rightarrow> rstr \<Rightarrow> file_state \<Rightarrow> (file_error + file_change) \<times> file_state" where
  "undo_tool env now p st =
     (case assert_absolute_path p of
        Inl e \<Rightarrow> (Inl e, st)
      | Inr _ \<Rightarrow>
          let before_undo = map_option (read_lossy env) (file_at env st p)
          in (case undo_snapshot env now p st of
                (Inl e, st) \<Rightarrow> (Inl e, st)
              | (Inr _, st) \<Rightarrow> (Inr (before_undo, map_option (read_lossy env) (file_at env st p)), st)))"

section \<open>The contract: a stack of contents for every file\<close>

datatype file_op =
    OpPatch rstr rstr rstr bool | OpMultiPatch rstr "patch_edit list" | OpWrite rstr rstr bool
  | OpRemove rstr | OpUndo rstr

fun run_op :: "file_env \<Rightarrow> nat \<Rightarrow> file_op \<Rightarrow> file_state \<Rightarrow> (file_error + file_change) \<times> file_state" where
  "run_op env now (OpPatch p search content replace_all) st = patch_file env now p search content replace_all st"
| "run_op env now (OpMultiPatch p edits) st = multi_patch_file env now p edits st"
| "run_op env now (OpWrite p content overwrite) st = write_tool env now p content overwrite st"
| "run_op env now (OpRemove p) st = remove_tool env now p st"
| "run_op env now (OpUndo p) st = undo_tool env now p st"

fun file_op_path :: "file_op \<Rightarrow> rstr" where
  "file_op_path (OpPatch p _ _ _) = p"
| "file_op_path (OpMultiPatch p _) = p"
| "file_op_path (OpWrite p _ _) = p"
| "file_op_path (OpRemove p) = p"
| "file_op_path (OpUndo p) = p"

record undo_state =
  us_files :: "rstr \<Rightarrow> file_content option"
  us_stack :: "rstr \<Rightarrow> file_content list"

definition spec_change :: "rstr \<Rightarrow> file_content option \<Rightarrow> undo_state \<Rightarrow> undo_state" where
  "spec_change p new u =
     \<lparr>us_files = (us_files u)(p := new),
      us_stack = (case us_files u p of None \<Rightarrow> us_stack u | Some old \<Rightarrow> (us_stack u)(p := old # us_stack u p))\<rparr>"

definition spec_undo :: "rstr \<Rightarrow> undo_state \<Rightarrow> (file_content \<times> undo_state) option" where
  "spec_undo p u =
     (case us_stack u p of
        [] \<Rightarrow> None
      | c # cs \<Rightarrow> Some (c, \<lparr>us_files = (us_files u)(p := Some c), us_stack = (us_stack u)(p := cs)\<rparr>))"

text \<open>What an operation does to the files and the stacks; \<open>None\<close> is a failure, which changes nothing.\<close>

definition spec_patched :: "rstr \<Rightarrow> (rstr \<Rightarrow> patch_error + rstr) \<Rightarrow> undo_state \<Rightarrow> file_change option \<times> undo_state" where
  "spec_patched p f u =
     (case us_files u p of
        Some (TextFile old) \<Rightarrow>
          (case f old of
             Inl _ \<Rightarrow> (None, u)
           | Inr new \<Rightarrow> (Some (Some old, Some new), spec_change p (Some (TextFile new)) u))
      | _ \<Rightarrow> (None, u))"

fun spec_op :: "file_env \<Rightarrow> file_op \<Rightarrow> undo_state \<Rightarrow> file_change option \<times> undo_state" where
  "spec_op env (OpPatch p search content replace_all) u =
     (if is_absolute p
      then spec_patched p (\<lambda>old. apply_replace_operation (fe_patch env) old search content (patch_operation_of replace_all)) u
      else (None, u))"
| "spec_op env (OpMultiPatch p edits) u =
     (if is_absolute p then spec_patched p (\<lambda>old. apply_edits (fe_patch env) old edits) u else (None, u))"
| "spec_op env (OpWrite p content overwrite) u =
     (let old = map_option (read_lossy env) (us_files u p);
          new = normalized_content old content
      in if is_absolute p \<and> (old = None \<or> overwrite)
         then (Some (old, Some new), spec_change p (Some (TextFile new)) u)
         else (None, u))"
| "spec_op env (OpRemove p) u =
     (case us_files u p of
        Some c \<Rightarrow> if is_absolute p then (Some (Some (read_lossy env c), None), spec_change p None u) else (None, u)
      | None \<Rightarrow> (None, u))"
| "spec_op env (OpUndo p) u =
     (case spec_undo p u of
        Some (c, u') \<Rightarrow>
          if is_absolute p then (Some (map_option (read_lossy env) (us_files u p), Some (read_lossy env c)), u') else (None, u)
      | None \<Rightarrow> (None, u))"

section \<open>Snapshots are a stack\<close>

text \<open>What is assumed of the surroundings: the hash does not collide on the paths in play (\<open>S\<close>), of two moments up to
  the last one the later gives the greater name, and the path is not a link, and may be written and removed.\<close>

definition clock_ok :: "file_env \<Rightarrow> nat \<Rightarrow> bool" where
  "clock_ok env n \<longleftrightarrow> (\<forall>s t. s < t \<longrightarrow> t < n \<longrightarrow> snap_name env s < snap_name env t)"

definition path_ok :: "file_env \<Rightarrow> rstr \<Rightarrow> bool" where
  "path_ok env p \<longleftrightarrow> fe_real env p = p \<and> fe_can_write env p \<and> fe_can_remove env p"

definition snaps_ok :: "file_env \<Rightarrow> nat \<Rightarrow> file_state \<Rightarrow> bool" where
  "snaps_ok env now st \<longleftrightarrow>
     (\<forall>d es. fs_snapshots st d = Some es \<longrightarrow>
        sorted_wrt (<) (map fst es) \<and> (\<forall>n \<in> set (map fst es). \<exists>t < now. n = snap_name env t))"

definition stack_of :: "(rstr \<times> file_content) list option \<Rightarrow> file_content list" where
  "stack_of es = (case es of None \<Rightarrow> [] | Some es \<Rightarrow> rev (map snd es))"

definition undo_abs :: "file_env \<Rightarrow> rstr set \<Rightarrow> file_state \<Rightarrow> undo_state" where
  "undo_abs env S st = \<lparr>us_files = fs_files st,
     us_stack = (\<lambda>p. if p \<in> S then stack_of (fs_snapshots st (fe_hash env p)) else [])\<rparr>"

lemma recent_snapshot_snoc:
  "recent_snapshot l (es @ [e]) =
    (let l' = recent_snapshot l es
     in if ends_with (fst e) (lit ''.snap'') \<and> (case l' of None \<Rightarrow> True | Some l \<Rightarrow> fst l < fst e) then Some e else l')"
  by (induction es arbitrary: l) (simp_all add: Let_def)

lemma ends_with_snap [simp]: "ends_with (snap_name env t) (lit ''.snap'')"
  by (simp add: snap_name_def ends_with_def)

lemma find_recent_snapshot_last:
  assumes "sorted_wrt (<) (map fst es)" "\<forall>n \<in> set (map fst es). \<exists>t. n = snap_name env t"
  shows "find_recent_snapshot es = (if es = [] then None else Some (last es))"
  using assms
proof (induction es rule: rev_induct)
  case Nil
  then show ?case by (simp add: find_recent_snapshot_def)
next
  case (snoc e es)
  then have "find_recent_snapshot es = (if es = [] then None else Some (last es))"
    by (simp add: sorted_wrt_append)
  moreover have "ends_with (fst e) (lit ''.snap'')" using snoc.prems(2) by auto
  moreover have "es \<noteq> [] \<Longrightarrow> fst (last es) < fst e" using snoc.prems(1) by (simp add: sorted_wrt_append)
  ultimately show ?case by (simp add: find_recent_snapshot_def recent_snapshot_snoc)
qed

lemma alist_update_new: "n \<notin> set (map fst es) \<Longrightarrow> AList.update n c es = es @ [(n, c)]"
  by (induction es) auto

lemma alist_delete_last: "n \<notin> set (map fst es) \<Longrightarrow> AList.delete n (es @ [(n, c)]) = es"
  by (induction es) (auto simp: AList.delete_eq)

lemma clock_ok_le: "clock_ok env n \<Longrightarrow> k \<le> n \<Longrightarrow> clock_ok env k"
  by (simp add: clock_ok_def)

lemma snaps_ok_later: "snaps_ok env now st \<Longrightarrow> now \<le> now' \<Longrightarrow> snaps_ok env now' st"
  unfolding snaps_ok_def by (meson order_less_le_trans)

lemma snaps_ok_files [simp]: "snaps_ok env now (st\<lparr>fs_files := f\<rparr>) = snaps_ok env now st"
  by (simp add: snaps_ok_def)

lemma undo_abs_put [simp]:
  "fe_real env p = p \<Longrightarrow> undo_abs env S (put_file env p c st) = (undo_abs env S st)\<lparr>us_files := (fs_files st)(p := c)\<rparr>"
  by (simp add: undo_abs_def put_file_def cong: if_cong)

lemma snaps_ok_put [simp]: "snaps_ok env now (put_file env p c st) = snaps_ok env now st"
  by (simp add: put_file_def)

text \<open>A snapshot of a file that is there is pushed on its stack.\<close>

lemma create_snapshot_pushes:
  assumes "snaps_ok env now st" "clock_ok env (Suc now)" "inj_on (fe_hash env) S" "p \<in> S" "fe_real env p = p" "fs_files st p = Some c"
  obtains st' s where "create_snapshot env now p st = (Inr s, st')" "snaps_ok env (Suc now) st'" "fs_files st' = fs_files st"
    "undo_abs env S st' = (undo_abs env S st)\<lparr>us_stack := (us_stack (undo_abs env S st))(p := c # us_stack (undo_abs env S st) p)\<rparr>"
proof -
  let ?d = "fe_hash env p"
  define es where "es = (case fs_snapshots st ?d of None \<Rightarrow> [] | Some es \<Rightarrow> es)"
  let ?n = "snap_name env now"
  let ?st = "st\<lparr>fs_snapshots := (fs_snapshots st)(?d := Some (es @ [(?n, c)]))\<rparr>"
  have "sorted_wrt (<) (map fst es) \<and> (\<forall>n \<in> set (map fst es). \<exists>t < now. n = snap_name env t)"
    using assms(1) unfolding snaps_ok_def es_def by (cases "fs_snapshots st ?d") simp_all
  note es = this [THEN conjunct1] this [THEN conjunct2]
  have new: "?n \<notin> set (map fst es)"
  proof
    assume "?n \<in> set (map fst es)"
    then obtain t where "t < now" "?n = snap_name env t" using es(2) by blast
    then show False using assms(2) by (metis clock_ok_def lessI order_less_irrefl)
  qed
  have "create_snapshot env now p st = (Inr \<lparr>sn_timestamp = now, sn_path = p\<rparr>, ?st)"
    using assms(5,6) new
    by (cases "fs_snapshots st ?d")
      (simp_all add: create_snapshot_def snapshot_create_def snapshot_path_def path_hash_def create_dir_def file_at_def
        es_def alist_update_new)
  moreover have "snaps_ok env (Suc now) ?st"
  proof -
    have "n < ?n" if "n \<in> set (map fst es)" for n
    proof -
      from es(2) that obtain t where "t < now" "n = snap_name env t" by blast
      then show ?thesis using assms(2) by (simp add: clock_ok_def)
    qed
    then have "sorted_wrt (<) (map fst (es @ [(?n, c)]))" using es(1) by (simp add: sorted_wrt_append)
    moreover have "\<exists>t < Suc now. n = snap_name env t" if "n \<in> set (map fst (es @ [(?n, c)]))" for n
    proof (cases "n = ?n")
      case False
      with that es(2) obtain t where "t < now" "n = snap_name env t" by auto
      then show ?thesis using less_SucI by blast
    qed blast
    ultimately show ?thesis
      using snaps_ok_later [OF assms(1), of "Suc now"] unfolding snaps_ok_def by simp
  qed
  moreover have "undo_abs env S ?st = (undo_abs env S st)\<lparr>us_stack := (us_stack (undo_abs env S st))(p := c # us_stack (undo_abs env S st) p)\<rparr>"
    using assms(3,4) by (auto simp: undo_abs_def stack_of_def es_def fun_eq_iff inj_on_eq_iff split: option.split)
  ultimately show ?thesis using that by simp
qed

lemma create_snapshot_absent:
  assumes "fe_real env p = p" "fs_files st p = None" "is_absolute p"
  shows "\<exists>e st'. create_snapshot env now p st = (Inl e, st') \<and> undo_abs env S st' = undo_abs env S st
    \<and> (snaps_ok env now st \<longrightarrow> snaps_ok env now st')"
  using assms
  by (auto simp: create_snapshot_def snapshot_create_def snapshot_path_def path_hash_def create_dir_def file_at_def
      undo_abs_def stack_of_def fun_eq_iff snaps_ok_def split: option.splits)

text \<open>Undoing pops it.\<close>

lemma undo_snapshot_pops:
  assumes "snaps_ok env now st" "inj_on (fe_hash env) S" "p \<in> S" "path_ok env p" "is_absolute p"
    "us_stack (undo_abs env S st) p = c # cs"
  obtains st' where "undo_snapshot env now p st = (Inr (), st')" "snaps_ok env now st'"
    "undo_abs env S st' = \<lparr>us_files = (fs_files st)(p := Some c), us_stack = (us_stack (undo_abs env S st))(p := cs)\<rparr>"
proof -
  let ?d = "fe_hash env p"
  have real: "fe_real env p = p" and writable: "fe_can_write env p" using assms(4) by (simp_all add: path_ok_def)
  from assms(6) obtain es0 where es0: "fs_snapshots st ?d = Some es0" "rev (map snd es0) = c # cs"
    by (auto simp: undo_abs_def stack_of_def split: option.splits if_splits)
  then obtain es n where es: "es0 = es @ [(n, c)]" "rev (map snd es) = cs"
    by (cases es0 rule: rev_cases) auto
  have ok: "sorted_wrt (<) (map fst es0)" "\<forall>n \<in> set (map fst es0). \<exists>t < now. n = snap_name env t"
    using assms(1) es0(1) by (auto simp: snaps_ok_def)
  then have recent: "find_recent_snapshot es0 = Some (n, c)"
    using find_recent_snapshot_last [of es0 env] es(1) by auto
  have fresh: "n \<notin> set (map fst es)" using ok(1) es(1) by (auto simp: sorted_wrt_append)
  let ?st = "(put_file env p (Some c) st)\<lparr>fs_snapshots := (fs_snapshots st)(?d := Some es)\<rparr>"
  have "undo_snapshot env now p st = (Inr (), ?st)"
    using es0(1) recent real writable assms(5) alist_delete_last [OF fresh] es(1)
    by (simp add: undo_snapshot_def snapshot_create_def path_hash_def write_file_def put_file_def Let_def)
  moreover have "snaps_ok env now ?st"
    using assms(1) ok es(1) by (auto simp: snaps_ok_def put_file_def sorted_wrt_append)
  moreover have "undo_abs env S ?st = \<lparr>us_files = (fs_files st)(p := Some c), us_stack = (us_stack (undo_abs env S st))(p := cs)\<rparr>"
    using real es(2) assms(2,3) by (auto simp: undo_abs_def put_file_def stack_of_def fun_eq_iff inj_on_eq_iff)
  ultimately show ?thesis using that by blast
qed

lemma undo_snapshot_empty:
  assumes "snaps_ok env now st" "p \<in> S" "fe_real env p = p" "is_absolute p" "us_stack (undo_abs env S st) p = []"
  shows "\<exists>e. undo_snapshot env now p st = (Inl e, st)"
  using assms
  by (auto simp: undo_snapshot_def snapshot_create_def path_hash_def undo_abs_def stack_of_def find_recent_snapshot_def
      split: option.splits)

section \<open>The operations keep the contract\<close>

definition outcome :: "'e + 'a \<Rightarrow> 'a option" where
  "outcome r = (case r of Inl _ \<Rightarrow> None | Inr a \<Rightarrow> Some a)"

lemma outcome_simps [simp]: "outcome (Inl e) = None" "outcome (Inr a) = Some a"
  by (simp_all add: outcome_def)

definition refines_op :: "file_env \<Rightarrow> rstr set \<Rightarrow> nat \<Rightarrow> file_op \<Rightarrow> file_state \<Rightarrow> bool" where
  "refines_op env S now op st \<longleftrightarrow>
     (case run_op env now op st of
        (r, st') \<Rightarrow> spec_op env op (undo_abs env S st) = (outcome r, undo_abs env S st') \<and> snaps_ok env (Suc now) st')"

lemma spec_change_abs:
  assumes "fs_files st p = Some c"
    and "undo_abs env S st' = (undo_abs env S st)\<lparr>us_stack := (us_stack (undo_abs env S st))(p := c # us_stack (undo_abs env S st) p)\<rparr>"
    and "fs_files st' = fs_files st" "fe_real env p = p"
  shows "undo_abs env S (put_file env p new st') = spec_change p new (undo_abs env S st)"
  using assms by (simp add: spec_change_def) (simp add: undo_abs_def)

lemma save_patched_refines:
  assumes "snaps_ok env now st" "clock_ok env (Suc now)" "inj_on (fe_hash env) S" "p \<in> S" "path_ok env p" "fs_files st p = Some (TextFile old)"
  shows "\<exists>st'. save_patched env now p old new st = (Inr (Some old, Some new), st')
    \<and> undo_abs env S st' = spec_change p (Some (TextFile new)) (undo_abs env S st) \<and> snaps_ok env (Suc now) st'"
proof -
  have p: "fe_real env p = p" "fe_can_write env p" using assms(5) by (simp_all add: path_ok_def)
  obtain st1 s where s: "create_snapshot env now p st = (Inr s, st1)" "snaps_ok env (Suc now) st1" "fs_files st1 = fs_files st"
    "undo_abs env S st1 = (undo_abs env S st)\<lparr>us_stack := (us_stack (undo_abs env S st))(p := TextFile old # us_stack (undo_abs env S st) p)\<rparr>"
    by (rule create_snapshot_pushes [OF assms(1-4) p(1) assms(6)])
  from spec_change_abs [OF assms(6) s(4,3) p(1)] s p show ?thesis
    by (simp add: save_patched_def write_file_def)
qed

lemma undo_abs_files [simp]: "us_files (undo_abs env S st) = fs_files st"
  by (simp add: undo_abs_def)

text \<open>The two tools that patch do so by a function of the old text.\<close>

definition patch_with ::
  "file_env \<Rightarrow> nat \<Rightarrow> rstr \<Rightarrow> (rstr \<Rightarrow> patch_error + rstr) \<Rightarrow> file_state \<Rightarrow> (file_error + file_change) \<times> file_state" where
  "patch_with env now p f st =
     (case assert_absolute_path p of
        Inl e \<Rightarrow> (Inl e, st)
      | Inr _ \<Rightarrow>
          (case read_to_string env st p of
             Inl e \<Rightarrow> (Inl e, st)
           | Inr old \<Rightarrow>
               (case f old of
                  Inl e \<Rightarrow> (Inl (PatchFailed e), st)
                | Inr new \<Rightarrow> save_patched env now p old new st)))"

lemma patch_with_eqs:
  "patch_file env now p search content replace_all =
    patch_with env now p (\<lambda>old. apply_replace_operation (fe_patch env) old search content (patch_operation_of replace_all))"
  "multi_patch_file env now p edits = patch_with env now p (\<lambda>old. apply_edits (fe_patch env) old edits)"
  by (simp_all add: fun_eq_iff patch_file_def multi_patch_file_def patch_with_def)

lemma patch_with_refines:
  assumes "snaps_ok env now st" "clock_ok env (Suc now)" "inj_on (fe_hash env) S" "p \<in> S" "path_ok env p"
  shows "case patch_with env now p f st of
    (r, st') \<Rightarrow> (if is_absolute p then spec_patched p f (undo_abs env S st) else (None, undo_abs env S st))
        = (outcome r, undo_abs env S st') \<and> snaps_ok env (Suc now) st'"
proof -
  have later: "snaps_ok env (Suc now) st" using assms(1) by (rule snaps_ok_later) simp
  have p: "fe_real env p = p" using assms(5) by (simp add: path_ok_def)
  show ?thesis
  proof (cases "is_absolute p \<and> (\<exists>old new. fs_files st p = Some (TextFile old) \<and> f old = Inr new)")
    case True
    then obtain old new where a: "is_absolute p" "fs_files st p = Some (TextFile old)" "f old = Inr new" by blast
    from save_patched_refines [OF assms a(2), of new] a p show ?thesis
      by (auto simp: patch_with_def assert_absolute_path_def read_to_string_def file_at_def spec_patched_def)
  next
    case False
    then show ?thesis
      using later p
      by (auto simp: patch_with_def assert_absolute_path_def read_to_string_def file_at_def spec_patched_def
          split: option.splits file_content.splits sum.splits)
  qed
qed

lemma op_refines:
  assumes "snaps_ok env now st" "clock_ok env (Suc now)" "inj_on (fe_hash env) S" "file_op_path op \<in> S"
    and "path_ok env (file_op_path op)"
  shows "refines_op env S now op st"
proof -
  have later: "snaps_ok env (Suc now) st" using assms(1) by (rule snaps_ok_later) simp
  show ?thesis
  proof (cases op)
  case (OpPatch p search content replace_all)
  then show ?thesis
    using patch_with_refines [OF assms(1-3)] assms(4,5) by (simp add: refines_op_def patch_with_eqs)
next
  case (OpMultiPatch p edits)
  then show ?thesis
    using patch_with_refines [OF assms(1-3)] assms(4,5) by (simp add: refines_op_def patch_with_eqs)
next
  case (OpWrite p content overwrite)
  then have p: "fe_real env p = p" "fe_can_write env p" "p \<in> S" using assms(4,5) by (simp_all add: path_ok_def)
  show ?thesis
  proof (cases "is_absolute p \<and> (\<exists>c. fs_files st p = Some c \<and> overwrite)")
    case True
    then obtain c where c: "is_absolute p" "fs_files st p = Some c" "overwrite" by blast
    obtain st1 s where s: "create_snapshot env now p st = (Inr s, st1)" "snaps_ok env (Suc now) st1" "fs_files st1 = fs_files st"
      "undo_abs env S st1 = (undo_abs env S st)\<lparr>us_stack := (us_stack (undo_abs env S st))(p := c # us_stack (undo_abs env S st) p)\<rparr>"
      by (rule create_snapshot_pushes [OF assms(1-3) p(3,1) c(2)])
    from spec_change_abs [OF c(2) s(4,3) p(1)] s(1,2) c p OpWrite show ?thesis
      by (simp add: refines_op_def write_tool_def assert_absolute_path_def file_at_def write_file_def Let_def)
  next
    case False
    then show ?thesis
      using later p OpWrite
      by (cases "fs_files st p")
        (auto simp: refines_op_def write_tool_def assert_absolute_path_def file_at_def write_file_def spec_change_def undo_abs_def put_file_def Let_def)
  qed
next
  case (OpRemove p)
  then have p: "fe_real env p = p" "fe_can_remove env p" "p \<in> S" using assms(4,5) by (simp_all add: path_ok_def)
  show ?thesis
  proof (cases "fs_files st p")
    case (Some c)
    obtain st1 s where s: "create_snapshot env now p st = (Inr s, st1)" "snaps_ok env (Suc now) st1" "fs_files st1 = fs_files st"
      "undo_abs env S st1 = (undo_abs env S st)\<lparr>us_stack := (us_stack (undo_abs env S st))(p := c # us_stack (undo_abs env S st) p)\<rparr>"
      by (rule create_snapshot_pushes [OF assms(1-3) p(3,1) Some])
    from spec_change_abs [OF Some s(4,3) p(1), of None] s(1,2) Some p OpRemove later show ?thesis
      by (simp add: refines_op_def remove_tool_def assert_absolute_path_def file_at_def Let_def)
  next
    case None
    show ?thesis
    proof (cases "is_absolute p")
      case True
      from create_snapshot_absent [where now = now, OF p(1) None True] obtain e st' where
        "create_snapshot env now p st = (Inl e, st')" "undo_abs env S st' = undo_abs env S st" "snaps_ok env now st'"
        using assms(1) by blast
      then show ?thesis
        using None OpRemove True snaps_ok_later [of env now st' "Suc now"]
        by (simp add: refines_op_def remove_tool_def assert_absolute_path_def Let_def)
    qed (use None OpRemove later in \<open>simp add: refines_op_def remove_tool_def assert_absolute_path_def\<close>)
  qed
next
  case (OpUndo p)
  then have ok: "path_ok env p" and p: "p \<in> S" "fe_real env p = p" using assms(4,5) by (simp_all add: path_ok_def)
  show ?thesis
  proof (cases "is_absolute p")
    case abs: True
    show ?thesis
    proof (cases "us_stack (undo_abs env S st) p")
      case Nil
      from undo_snapshot_empty [OF assms(1) p abs Nil] Nil OpUndo abs later show ?thesis
        by (auto simp: refines_op_def undo_tool_def assert_absolute_path_def spec_undo_def)
    next
      case (Cons c cs)
      obtain st' where u: "undo_snapshot env now p st = (Inr (), st')" "snaps_ok env now st'"
        "undo_abs env S st' = \<lparr>us_files = (fs_files st)(p := Some c), us_stack = (us_stack (undo_abs env S st))(p := cs)\<rparr>"
        by (rule undo_snapshot_pops [OF assms(1,3) p(1) ok abs Cons])
      have "fs_files st' p = Some c" using arg_cong [OF u(3), of us_files] by simp
      with u Cons OpUndo abs p snaps_ok_later [OF u(2), of "Suc now"] show ?thesis
        by (simp add: refines_op_def undo_tool_def assert_absolute_path_def spec_undo_def file_at_def Let_def)
    qed
  next
    case False
    then show ?thesis
      using OpUndo later by (auto simp: refines_op_def undo_tool_def assert_absolute_path_def split: option.split)
  qed
qed
qed

section \<open>Sequences of operations\<close>

text \<open>The clock advances between the operations.\<close>

fun run_ops :: "file_env \<Rightarrow> nat \<Rightarrow> file_op list \<Rightarrow> file_state \<Rightarrow> file_change option list \<times> file_state" where
  "run_ops env now [] st = ([], st)"
| "run_ops env now (op # ops) st =
     (let (r, st) = run_op env now op st; (rs, st) = run_ops env (Suc now) ops st in (outcome r # rs, st))"

fun spec_ops :: "file_env \<Rightarrow> file_op list \<Rightarrow> undo_state \<Rightarrow> file_change option list \<times> undo_state" where
  "spec_ops env [] u = ([], u)"
| "spec_ops env (op # ops) u =
     (let (r, u) = spec_op env op u; (rs, u) = spec_ops env ops u in (r # rs, u))"

lemma run_ops_refines:
  assumes "clock_ok env (now + length ops)" "inj_on (fe_hash env) S" "\<And>op. op \<in> set ops \<Longrightarrow> file_op_path op \<in> S"
    and "list_all (\<lambda>op. path_ok env (file_op_path op)) ops" "snaps_ok env now st"
  shows "fst (run_ops env now ops st) = fst (spec_ops env ops (undo_abs env S st))
    \<and> undo_abs env S (snd (run_ops env now ops st)) = snd (spec_ops env ops (undo_abs env S st))"
  using assms(1,3-5)
proof (induction ops arbitrary: now st)
  case (Cons op ops)
  have clock: "clock_ok env (Suc now)" "clock_ok env (Suc now + length ops)"
    using Cons.prems(1) by (auto intro: clock_ok_le)
  obtain r st1 where r: "run_op env now op st = (r, st1)" by fastforce
  from Cons.prems op_refines [OF Cons.prems(4) clock(1) assms(2), of op]
  have "spec_op env op (undo_abs env S st) = (outcome r, undo_abs env S st1)" "snaps_ok env (Suc now) st1"
    by (simp_all add: refines_op_def r)
  with Cons.IH [of "Suc now" st1] clock(2) Cons.prems r show ?case by (simp add: split_beta)
qed simp

lemma spec_ops_append:
  "spec_ops env (ops @ ops') u =
    (let (rs, u) = spec_ops env ops u; (rs', u) = spec_ops env ops' u in (rs @ rs', u))"
  by (induction ops arbitrary: u) (simp_all add: split_beta)

section \<open>Properties\<close>

text \<open>C19: The snapshot directory is an undo history: starting from an empty directory of snapshots, a sequence of
  patches, writes, removals and undos has the same results and leaves the same files as on a machine that keeps, for each
  file, a stack of its earlier contents, pushed by a change of a file that is there and popped by an undo. This holds for
  paths that are not links and may be written and removed, whose hashes do not collide with each other, and while the
  clock, once for each operation, gives greater and greater names.\<close>

theorem snapshots_refine_undo_stack:
  assumes "clock_ok env (now + length ops)" "inj_on (fe_hash env) (file_op_path ` set ops)"
    and "list_all (\<lambda>op. path_ok env (file_op_path op)) ops" "fs_snapshots st = (\<lambda>_. None)"
  shows "fst (run_ops env now ops st) = fst (spec_ops env ops \<lparr>us_files = fs_files st, us_stack = (\<lambda>_. [])\<rparr>)
    \<and> fs_files (snd (run_ops env now ops st)) = us_files (snd (spec_ops env ops \<lparr>us_files = fs_files st, us_stack = (\<lambda>_. [])\<rparr>))"
proof -
  let ?S = "file_op_path ` set ops"
  have "undo_abs env ?S st = \<lparr>us_files = fs_files st, us_stack = (\<lambda>_. [])\<rparr>"
    using assms(4) by (auto simp: undo_abs_def stack_of_def)
  moreover have "snaps_ok env now st" using assms(4) by (simp add: snaps_ok_def)
  ultimately show ?thesis
    using run_ops_refines [OF assms(1,2) _ assms(3), of st] by (metis undo_abs_files imageI)
qed

fun is_edit :: "rstr \<Rightarrow> file_op \<Rightarrow> bool" where
  "is_edit p (OpPatch q _ _ _) \<longleftrightarrow> p = q"
| "is_edit p (OpMultiPatch q _) \<longleftrightarrow> p = q"
| "is_edit p (OpWrite q _ _) \<longleftrightarrow> p = q"
| "is_edit p _ \<longleftrightarrow> False"

lemma spec_edit:
  assumes "is_edit p op" "us_files u p = Some c" "spec_op env op u = (Some ch, u')"
  shows "\<exists>c'. us_files u' p = Some c' \<and> us_stack u' p = c # us_stack u p \<and> is_absolute p"
  using assms
  by (cases op) (auto simp: spec_patched_def spec_change_def Let_def split: if_splits option.splits file_content.splits sum.splits)

lemma spec_edits_undone:
  assumes "list_all (is_edit p) ops" "us_files u p = Some c" "None \<notin> set (fst (spec_ops env ops u))"
  shows "case spec_ops env (ops @ replicate (length ops) (OpUndo p)) u of
    (rs, u') \<Rightarrow> None \<notin> set rs \<and> us_files u' p = us_files u p \<and> us_stack u' p = us_stack u p"
  using assms
proof (induction ops arbitrary: u c)
  case (Cons op ops)
  obtain r u1 where r: "spec_op env op u = (r, u1)" by fastforce
  with Cons.prems obtain ch where ch: "r = Some ch" by (cases r) (auto simp: split_beta)
  obtain c' where c': "us_files u1 p = Some c'" "us_stack u1 p = c # us_stack u p" "is_absolute p"
    using spec_edit [of p op u c env ch u1] Cons.prems r ch by auto
  have "None \<notin> set (fst (spec_ops env ops u1))" using Cons.prems(3) r by (simp add: split_beta)
  from Cons.IH [OF _ c'(1) this] Cons.prems(1) obtain rs u2 where u2:
    "spec_ops env (ops @ replicate (length ops) (OpUndo p)) u1 = (rs, u2)" "None \<notin> set rs"
    "us_stack u2 p = c # us_stack u p"
    using c'(2) by (auto split: prod.splits)
  have "replicate (Suc (length ops)) (OpUndo p) = replicate (length ops) (OpUndo p) @ [OpUndo p]"
    by (simp add: replicate_append_same)
  then have ops: "(op # ops) @ replicate (length (op # ops)) (OpUndo p) = op # (ops @ replicate (length ops) (OpUndo p)) @ [OpUndo p]"
    by simp
  obtain ch' u3 where u3: "spec_ops env [OpUndo p] u2 = ([Some ch'], u3)" "us_files u3 p = Some c" "us_stack u3 p = us_stack u p"
    using u2(3) c'(3) by (auto simp: spec_undo_def)
  have "spec_ops env ((ops @ replicate (length ops) (OpUndo p)) @ [OpUndo p]) u1 = (rs @ [Some ch'], u3)"
    by (subst spec_ops_append) (simp add: u2(1) u3(1) del: append_assoc spec_ops.simps)
  then have "spec_ops env ((op # ops) @ replicate (length (op # ops)) (OpUndo p)) u = (r # rs @ [Some ch'], u3)"
    unfolding ops by (simp add: r)
  then show ?case using u2(2) u3 ch Cons.prems(2) by simp
qed simp

text \<open>C34: Undoing is the inverse of editing: after any number of successful patches and writes to a file that is there,
  as many undos succeed and the file is what it was; for a path that is not a link and may be written and removed, while
  the clock gives greater and greater names.\<close>

theorem undo_reverts_edits:
  assumes "clock_ok env (now + 2 * length ops)" "path_ok env p" "snaps_ok env now st"
    and "fs_files st p = Some c" "list_all (is_edit p) ops" "None \<notin> set (fst (run_ops env now ops st))"
  shows "None \<notin> set (fst (run_ops env now (ops @ replicate (length ops) (OpUndo p)) st))
    \<and> fs_files (snd (run_ops env now (ops @ replicate (length ops) (OpUndo p)) st)) p = Some c"
proof -
  let ?ops = "ops @ replicate (length ops) (OpUndo p)"
  have "file_op_path op = p" if "is_edit p op" for op using that by (cases op) simp_all
  then have on_p: "file_op_path op \<in> {p}" if "op \<in> set ?ops" for op
    using assms(5) that by (auto simp: list_all_iff)
  then have paths: "list_all (\<lambda>op. path_ok env (file_op_path op)) ops" "list_all (\<lambda>op. path_ok env (file_op_path op)) ?ops"
    using assms(2) by (auto simp: list_all_iff)
  have clock: "clock_ok env (now + length ops)" "clock_ok env (now + length ?ops)"
    using assms(1) by (auto intro: clock_ok_le)
  have single: "inj_on (fe_hash env) {p}" by simp
  have "fst (run_ops env now ops st) = fst (spec_ops env ops (undo_abs env {p} st))"
    using run_ops_refines [OF clock(1) single _ paths(1) assms(3)] on_p by simp
  with assms(6) have "None \<notin> set (fst (spec_ops env ops (undo_abs env {p} st)))" by simp
  from spec_edits_undone [OF assms(5) _ this, of c] assms(4)
  show ?thesis
    using run_ops_refines [OF clock(2) single on_p paths(2) assms(3)] by (metis (mono_tags, lifting) case_prod_beta undo_abs_files)
qed

lemma spec_patches:
  assumes "is_absolute p" "us_files u p = Some (TextFile old)"
  shows "case spec_ops env (map (\<lambda>e. OpPatch p (pe_old_string e) (pe_new_string e) (pe_replace_all e)) edits) u of
    (rs, u') \<Rightarrow> (case apply_edits (fe_patch env) old edits of
        Inl e \<Rightarrow> None \<in> set rs
      | Inr new \<Rightarrow> None \<notin> set rs \<and> us_files u' = (us_files u)(p := Some (TextFile new)))"
  using assms(2)
proof (induction edits arbitrary: u old)
  case Nil
  then show ?case by (simp add: fun_upd_idem)
next
  case (Cons e es)
  let ?apply = "apply_replace_operation (fe_patch env) old (pe_old_string e) (pe_new_string e) (patch_operation_of (pe_replace_all e))"
  show ?case
  proof (cases ?apply)
    case (Inl x)
    then show ?thesis using Cons.prems assms(1) by (simp add: spec_patched_def split_beta)
  next
    case (Inr new)
    let ?u = "spec_change p (Some (TextFile new)) u"
    have "us_files ?u p = Some (TextFile new)" by (simp add: spec_change_def)
    from Cons.IH [OF this] show ?thesis
      using Cons.prems assms(1) Inr
      by (auto simp: spec_patched_def spec_change_def split: prod.splits sum.splits)
  qed
qed

text \<open>C22: Several edits of a text file in one call leave the same files as these edits one call after the other, when
  each of them applies (the undo history gets one entry instead of one for each edit); and if one does not, the call leaves
  the files and the snapshots as they were, and of the calls one fails. This holds for an absolute path that is not a link
  and may be written, while the clock gives greater and greater names.\<close>

theorem multi_patch_is_all_or_nothing:
  assumes "clock_ok env (now + length edits + 1)" "path_ok env p" "snaps_ok env now st"
    and "is_absolute p" "fs_files st p = Some (TextFile old)"
  shows "case multi_patch_file env now p edits st of
      (Inr _, st') \<Rightarrow>
        (case run_ops env now (map (\<lambda>e. OpPatch p (pe_old_string e) (pe_new_string e) (pe_replace_all e)) edits) st of
           (rs, st'') \<Rightarrow> None \<notin> set rs \<and> fs_files st'' = fs_files st')
    | (Inl _, st') \<Rightarrow>
        st' = st \<and> None \<in> set (fst (run_ops env now (map (\<lambda>e. OpPatch p (pe_old_string e) (pe_new_string e) (pe_replace_all e)) edits) st))"
proof -
  let ?ops = "map (\<lambda>e. OpPatch p (pe_old_string e) (pe_new_string e) (pe_replace_all e)) edits"
  obtain rs st2 where run: "run_ops env now ?ops st = (rs, st2)" by fastforce
  have "list_all (\<lambda>op. path_ok env (file_op_path op)) ?ops" using assms(2) by (simp add: list_all_iff)
  moreover have "clock_ok env (now + length ?ops)" and clock: "clock_ok env (Suc now)"
    using assms(1) by (auto intro: clock_ok_le)
  moreover have single: "inj_on (fe_hash env) {p}" by simp
  ultimately have refined: "fst (run_ops env now ?ops st) = fst (spec_ops env ?ops (undo_abs env {p} st))
      \<and> undo_abs env {p} (snd (run_ops env now ?ops st)) = snd (spec_ops env ?ops (undo_abs env {p} st))"
    using assms(3) by (intro run_ops_refines) auto
  from refined run
  have "rs = fst (spec_ops env ?ops (undo_abs env {p} st))" "fs_files st2 = us_files (snd (spec_ops env ?ops (undo_abs env {p} st)))"
    by (metis fst_conv snd_conv undo_abs_files)+
  moreover have "us_files (undo_abs env {p} st) p = Some (TextFile old)" using assms(5) by simp
  ultimately have seq: "case apply_edits (fe_patch env) old edits of
      Inl e \<Rightarrow> None \<in> set rs
    | Inr new \<Rightarrow> None \<notin> set rs \<and> fs_files st2 = (fs_files st)(p := Some (TextFile new))"
    using spec_patches [OF assms(4), of "undo_abs env {p} st" old env edits] by (auto split: prod.splits sum.splits)
  have p: "fe_real env p = p" using assms(2) by (simp add: path_ok_def)
  show ?thesis
  proof (cases "apply_edits (fe_patch env) old edits")
    case (Inl e)
    then show ?thesis
      using seq run assms(4,5) p
      by (simp add: multi_patch_file_def assert_absolute_path_def read_to_string_def file_at_def)
  next
    case (Inr new)
    obtain st1 where "save_patched env now p old new st = (Inr (Some old, Some new), st1)"
      "undo_abs env {p} st1 = spec_change p (Some (TextFile new)) (undo_abs env {p} st)"
      using save_patched_refines [OF assms(3) clock single _ assms(2,5)] by blast
    moreover from this(2) have "fs_files st1 = (fs_files st)(p := Some (TextFile new))"
      by (metis spec_change_def undo_abs_files undo_state.select_convs(1))
    ultimately show ?thesis
      using seq run assms(4,5) p Inr
      by (simp add: multi_patch_file_def assert_absolute_path_def read_to_string_def file_at_def)
  qed
qed

text \<open>What the undo tool does not undo: the creation of a file, although it is said to; and the removal of a file
  that was named by a path through a link, since the snapshots of a path that is gone are looked for under the
  path itself and not under what it led to.\<close>

theorem creation_is_not_undone:
  assumes "fs_files st (fe_real env p) = None" "is_absolute p" "fe_can_write env p"
    and "fs_snapshots st (fe_hash env (fe_real env p)) = None"
  shows "case write_tool env now p content overwrite st of
    (r, st') \<Rightarrow> r = Inr (None, Some (normalized_content None content)) \<and> undo_tool env (Suc now) p st' = (Inl NoSnapshots, st')"
  using assms
  by (simp add: write_tool_def undo_tool_def undo_snapshot_def snapshot_create_def path_hash_def assert_absolute_path_def
      file_at_def write_file_def put_file_def Let_def)

theorem linked_removal_is_not_undone:
  assumes "fs_files st (fe_real env p) = Some c" "is_absolute p" "fe_can_remove env p"
    and "fe_real env (fe_real env p) = fe_real env p" "fe_hash env (fe_real env p) \<noteq> fe_hash env p"
    and "fs_snapshots st (fe_hash env p) = None"
  shows "case remove_tool env now p st of
    (r, st') \<Rightarrow> r = Inr (Some (read_lossy env c), None) \<and> undo_tool env (Suc now) p st' = (Inl NoSnapshots, st')"
  using assms
  by (simp add: remove_tool_def undo_tool_def undo_snapshot_def snapshot_create_def create_snapshot_def snapshot_path_def
      create_dir_def path_hash_def assert_absolute_path_def file_at_def write_file_def put_file_def Let_def split: option.split)

section \<open>Witnesses\<close>

definition sample_env :: file_env where
  "sample_env = \<lparr>fe_real = (\<lambda>p. if p = lit ''/l'' then lit ''/f'' else p), fe_hash = (\<lambda>p. p), fe_stamp = (\<lambda>t. [int t]),
     fe_can_write = (\<lambda>_. True), fe_can_remove = (\<lambda>_. True), fe_lossy = (\<lambda>b. b), fe_patch = no_services\<rparr>"

definition sample_files :: file_state where
  "sample_files = \<lparr>fs_files = [lit ''/f'' \<mapsto> TextFile (lit ''a'')], fs_snapshots = (\<lambda>_. None)\<rparr>"

lemma sample_env_ok:
  "clock_ok sample_env n" "inj_on (fe_hash sample_env) S" "path_ok sample_env (lit ''/f'')" "snaps_ok sample_env now sample_files"
  by (auto simp: clock_ok_def snap_name_def sample_env_def path_ok_def lit_def snaps_ok_def sample_files_def)

theorem snapshots_refine_undo_stack_witness:
  "fst (run_ops sample_env 0 [OpRemove (lit ''/f''), OpUndo (lit ''/f'')] sample_files) =
    [Some (Some (lit ''a''), None), Some (None, Some (lit ''a''))]"
proof -
  have "fst (run_ops sample_env 0 [OpRemove (lit ''/f''), OpUndo (lit ''/f'')] sample_files) =
      fst (spec_ops sample_env [OpRemove (lit ''/f''), OpUndo (lit ''/f'')]
        \<lparr>us_files = fs_files sample_files, us_stack = (\<lambda>_. [])\<rparr>)"
    using snapshots_refine_undo_stack [OF sample_env_ok(1,2), where ops = "[OpRemove (lit ''/f''), OpUndo (lit ''/f'')]" and st = sample_files and now = 0]
      sample_env_ok(3) by (simp add: sample_files_def)
  then show ?thesis
    by (simp add: sample_files_def spec_change_def spec_undo_def is_absolute_def starts_with_def lit_def read_lossy_def)
qed

theorem undo_reverts_edits_witness:
  "fs_files (snd (run_ops sample_env 0 [OpWrite (lit ''/f'') (lit ''b'') True, OpUndo (lit ''/f'')] sample_files)) (lit ''/f'') =
    Some (TextFile (lit ''a''))"
proof -
  have "None \<notin> set (fst (run_ops sample_env 0 [OpWrite (lit ''/f'') (lit ''b'') True] sample_files))"
    by (simp add: write_tool_def assert_absolute_path_def is_absolute_def starts_with_def file_at_def create_snapshot_def
        snapshot_create_def snapshot_path_def path_hash_def create_dir_def write_file_def sample_env_def sample_files_def
        lit_def Let_def)
  then show ?thesis
    using undo_reverts_edits [OF sample_env_ok(1,3,4), where c = "TextFile (lit ''a'')" and ops = "[OpWrite (lit ''/f'') (lit ''b'') True]" and now = 0]
    by (simp add: sample_files_def del: run_ops.simps)
qed

theorem multi_patch_is_all_or_nothing_witness:
  "case multi_patch_file sample_env 0 (lit ''/f'') [\<lparr>pe_old_string = lit ''x'', pe_new_string = lit ''y'', pe_replace_all = False\<rparr>] sample_files of
     (Inr _, _) \<Rightarrow> False
   | (Inl _, st') \<Rightarrow> st' = sample_files"
proof -
  have abs: "is_absolute (lit ''/f'')" by (simp add: is_absolute_def starts_with_def lit_def)
  have there: "fs_files sample_files (lit ''/f'') = Some (TextFile (lit ''a''))" by (simp add: sample_files_def)
  have "multi_patch_file sample_env 0 (lit ''/f'') [\<lparr>pe_old_string = lit ''x'', pe_new_string = lit ''y'', pe_replace_all = False\<rparr>] sample_files
      = (Inl (PatchFailed (NoMatch (lit ''x''))), sample_files)"
    by (simp add: multi_patch_file_def assert_absolute_path_def is_absolute_def read_to_string_def file_at_def sample_env_def sample_files_def
        apply_replace_operation_def compute_range_def find_exact_def normalize_search_line_endings_def detect_line_ending_def
        str_replace.simps patch_operation_of_def apply_fuzzy_search_fallback_def no_services_def lit_def starts_with_def)
  with multi_patch_is_all_or_nothing [OF sample_env_ok(1,3,4) abs there, where now = 0
      and edits = "[\<lparr>pe_old_string = lit ''x'', pe_new_string = lit ''y'', pe_replace_all = False\<rparr>]"]
  show ?thesis by simp
qed

theorem creation_is_not_undone_witness:
  "case write_tool sample_env 0 (lit ''/g'') (lit ''b'') False sample_files of
    (r, st') \<Rightarrow> r = Inr (None, Some (normalized_content None (lit ''b''))) \<and> undo_tool sample_env 1 (lit ''/g'') st' = (Inl NoSnapshots, st')"
  using creation_is_not_undone [where st = sample_files and env = sample_env and p = "lit ''/g''" and content = "lit ''b''" and overwrite = False and now = 0]
  by (simp add: sample_env_def sample_files_def is_absolute_def starts_with_def lit_def)

theorem linked_removal_is_not_undone_witness:
  "case remove_tool sample_env 0 (lit ''/l'') sample_files of
    (r, st') \<Rightarrow> r = Inr (Some (lit ''a''), None) \<and> undo_tool sample_env 1 (lit ''/l'') st' = (Inl NoSnapshots, st')"
  using linked_removal_is_not_undone [where st = sample_files and env = sample_env and p = "lit ''/l''" and c = "TextFile (lit ''a'')" and now = 0]
  by (simp add: sample_env_def sample_files_def is_absolute_def starts_with_def lit_def read_lossy_def)

end
