(* ===== verification/Context_Summary.thy ===== *)
theory Context_Summary
  imports Compactor Catalog
begin

text \<open>
  The summary that takes the place of the messages a compaction evicts (\<open>forge_domain/src/compact/summary.rs\<close>) and
  the transformers that shorten it (\<open>forge_app/src/transformers/\<close>). Reading the arguments of a tool call
  (\<open>ToolCatalog::try_from\<close>) is the parameter \<open>parse\<close>, as in the tool registry; the template engine that writes the
  text is the parameter \<open>template\<close>.
\<close>

section \<open>The data of a summary\<close>

datatype todo_change_kind = Added | Updated | Removed

record todo_change =
  tch_todo :: todo
  tch_kind :: todo_change_kind

datatype summary_tool =
    SFileRead rstr
  | SFileUpdate rstr
  | SFileRemove rstr
  | SShell rstr
  | SSearch rstr
  | SSemSearch "search_query list"
  | SUndo rstr
  | SFetch rstr
  | SFollowup rstr
  | SPlan rstr
  | SSkill rstr
  | STask rstr
  | SMcp rstr
  | STodoWrite "todo_change list"
  | STodoRead

record summary_tool_call =
  stc_id :: "rstr option"
  stc_tool :: summary_tool
  stc_is_success :: bool

datatype summary_message = SText rstr | SToolCall summary_tool_call

record summary_block =
  sb_role :: role
  sb_contents :: "summary_message list"

record context_summary =
  cs_messages :: "summary_block list"

section \<open>Summarising a context\<close>

text \<open>What a todo call changes: the entries of the list before it are looked up by content, in a hash map, where a
  later entry replaces an earlier one.\<close>

definition todo_change_of :: "todo list \<Rightarrow> todo_item \<Rightarrow> todo_change option" where
  "todo_change_of current_todos item =
     (let before_map = map_of (rev (map (\<lambda>t. (tdo_content t, t)) current_todos))
      in if ti_status item = Cancelled
         then map_option (\<lambda>prev. \<lparr>tch_todo = prev, tch_kind = Removed\<rparr>) (before_map (ti_content item))
         else case before_map (ti_content item) of
             None \<Rightarrow> Some \<lparr>tch_todo = \<lparr>tdo_id = [], tdo_content = ti_content item, tdo_status = ti_status item\<rparr>,
                           tch_kind = Added\<rparr>
           | Some prev \<Rightarrow>
               if tdo_status prev \<noteq> ti_status item
               then Some \<lparr>tch_todo = \<lparr>tdo_id = tdo_id prev, tdo_content = ti_content item, tdo_status = ti_status item\<rparr>,
                          tch_kind = Updated\<rparr>
               else None)"

definition todo_changes :: "todo list \<Rightarrow> todo_item list \<Rightarrow> todo_change list" where
  "todo_changes current_todos items = List.map_filter (todo_change_of current_todos) items"

fun catalog_summary :: "todo list \<Rightarrow> tool_catalog \<Rightarrow> summary_tool" where
  "catalog_summary ts (TRead i) = SFileRead (fr_file_path i)"
| "catalog_summary ts (TWrite i) = SFileUpdate (fw_file_path i)"
| "catalog_summary ts (TPatch i) = SFileUpdate (fp_file_path i)"
| "catalog_summary ts (TMultiPatch i) = SFileUpdate (mp_file_path i)"
| "catalog_summary ts (TRemove path) = SFileRemove path"
| "catalog_summary ts (TShell i) = SShell (sh_command i)"
| "catalog_summary ts (TFsSearch i) =
     SSearch (case fs_glob i of Some g \<Rightarrow> g
       | None \<Rightarrow> (case fs_file_type i of Some t \<Rightarrow> t | None \<Rightarrow> fs_pattern i))"
| "catalog_summary ts (TSemSearch queries) = SSemSearch queries"
| "catalog_summary ts (TUndo path) = SUndo path"
| "catalog_summary ts (TFetch i) = SFetch (nf_url i)"
| "catalog_summary ts (TFollowup i) = SFollowup (fu_question i)"
| "catalog_summary ts (TPlan i) = SPlan (pc_plan_name i)"
| "catalog_summary ts (TSkill name) = SSkill name"
| "catalog_summary ts (TTodoWrite items) = STodoWrite (todo_changes ts items)"
| "catalog_summary ts TTodoRead = STodoRead"
| "catalog_summary ts (TTask i) = STask (tk_agent_id i)"

definition extract_tool_info ::
  "('v tool_call_full \<Rightarrow> 'e + tool_catalog) \<Rightarrow> 'v tool_call_full \<Rightarrow> todo list \<Rightarrow> summary_tool option" where
  "extract_tool_info parse call current_todos =
     (case parse call of
        Inr tool \<Rightarrow> Some (catalog_summary current_todos tool)
      | Inl _ \<Rightarrow> Some (SMcp (tc_name call)))"

definition extract_summary_messages ::
  "('v tool_call_full \<Rightarrow> 'e + tool_catalog) \<Rightarrow> 'v text_message \<Rightarrow> todo list \<Rightarrow> summary_message list" where
  "extract_summary_messages parse text_msg current_todos =
     (if tm_content text_msg \<noteq> [] then [SText (tm_content text_msg)] else [])
     @ (case tm_tool_calls text_msg of
          None \<Rightarrow> []
        | Some calls \<Rightarrow> List.map_filter (\<lambda>tool_call.
            map_option (\<lambda>call. SToolCall \<lparr>stc_id = tc_call_id tool_call, stc_tool = call, stc_is_success = False\<rparr>)
              (extract_tool_info parse tool_call current_todos)) calls)"

text \<open>The list of todos that the calls of a message leave, with empty ids.\<close>

definition update_todos ::
  "('v tool_call_full \<Rightarrow> 'e + tool_catalog) \<Rightarrow> 'v text_message \<Rightarrow> todo list \<Rightarrow> todo list" where
  "update_todos parse text_msg current_todos =
     (case tm_tool_calls text_msg of
        None \<Rightarrow> current_todos
      | Some calls \<Rightarrow> foldl (\<lambda>ts call.
          case parse call of
            Inr (TTodoWrite items) \<Rightarrow> snd (foldl (apply_todo_item (\<lambda>_. [])) (0, ts) items)
          | _ \<Rightarrow> ts) current_todos calls)"

text \<open>The local variables of \<open>ContextSummary::from\<close>, and the body of its loop.\<close>

record summary_state =
  ss_messages :: "summary_block list"
  ss_buffer :: "summary_message list"
  ss_tool_results :: "rstr \<Rightarrow> tool_result option"
  ss_current_role :: role
  ss_current_todos :: "todo list"

definition summary_start :: summary_state where
  "summary_start = \<lparr>ss_messages = [], ss_buffer = [], ss_tool_results = Map.empty, ss_current_role = System,
     ss_current_todos = []\<rparr>"

definition summary_flush :: "summary_state \<Rightarrow> summary_state" where
  "summary_flush s =
     (if ss_buffer s \<noteq> []
      then s\<lparr>ss_messages := ss_messages s @ [\<lparr>sb_role = ss_current_role s, sb_contents = ss_buffer s\<rparr>], ss_buffer := []\<rparr>
      else s)"

definition summary_step ::
  "('v tool_call_full \<Rightarrow> 'e + tool_catalog) \<Rightarrow> summary_state \<Rightarrow> 'v message_entry \<Rightarrow> summary_state" where
  "summary_step parse s msg =
     (case me_message msg of
        CText text_msg \<Rightarrow>
          if tm_role text_msg = System then s
          else let s = (if ss_current_role s \<noteq> tm_role text_msg
                        then (summary_flush s)\<lparr>ss_current_role := tm_role text_msg\<rparr> else s)
               in s\<lparr>ss_buffer := ss_buffer s @ extract_summary_messages parse text_msg (ss_current_todos s),
                    ss_current_todos := update_todos parse text_msg (ss_current_todos s)\<rparr>
      | CTool r \<Rightarrow>
          (case tr_call_id r of
             Some call_id \<Rightarrow> s\<lparr>ss_tool_results := (ss_tool_results s)(call_id \<mapsto> r)\<rparr>
           | None \<Rightarrow> s)
      | CImage _ \<Rightarrow> s)"

fun set_success :: "(rstr \<Rightarrow> tool_result option) \<Rightarrow> summary_message \<Rightarrow> summary_message" where
  "set_success tool_results (SToolCall tool_data) =
     (case Option.bind (stc_id tool_data) tool_results of
        Some result \<Rightarrow> SToolCall (tool_data\<lparr>stc_is_success := \<not> result_is_error result\<rparr>)
      | None \<Rightarrow> SToolCall tool_data)"
| "set_success tool_results (SText t) = SText t"

definition summary_of_messages ::
  "('v tool_call_full \<Rightarrow> 'e + tool_catalog) \<Rightarrow> 'v message_entry list \<Rightarrow> context_summary" where
  "summary_of_messages parse ms =
     (let s = summary_flush (foldl (summary_step parse) summary_start ms)
      in \<lparr>cs_messages = map (\<lambda>b. b\<lparr>sb_contents := map (set_success (ss_tool_results s)) (sb_contents b)\<rparr>)
            (ss_messages s)\<rparr>)"

section \<open>The transformers\<close>

definition drop_role :: "role \<Rightarrow> context_summary \<Rightarrow> context_summary" where
  "drop_role r summary = summary\<lparr>cs_messages := filter (\<lambda>b. sb_role b \<noteq> r) (cs_messages summary)\<rparr>"

text \<open>\<open>contents.drain(1..)\<close> panics on an empty vector: \<open>None\<close> stands for that.\<close>

definition drain_rest :: "'a list \<Rightarrow> 'a list option" where
  "drain_rest xs = (if xs = [] then None else Some (take 1 xs))"

fun dedupe_loop :: "role \<Rightarrow> role \<Rightarrow> summary_block list \<Rightarrow> summary_block list option" where
  "dedupe_loop r last_role [] = Some []"
| "dedupe_loop r last_role (b # bs) =
     Option.bind
       (if sb_role b = r
        then if last_role \<noteq> r
             then map_option (\<lambda>cs. [b\<lparr>sb_contents := cs\<rparr>]) (drain_rest (sb_contents b))
             else Some []
        else Some [b])
       (\<lambda>out. map_option ((@) out) (dedupe_loop r (sb_role b) bs))"

definition dedupe_role :: "role \<Rightarrow> context_summary \<Rightarrow> context_summary option" where
  "dedupe_role r summary =
     map_option (\<lambda>bs. \<lparr>cs_messages = bs\<rparr>) (dedupe_loop r System (cs_messages summary))"

datatype operation =
    OFile rstr
  | OShell rstr
  | OSearch rstr
  | OCodebaseSearch "search_query list"
  | OFetch rstr
  | OFollowup rstr
  | OPlan rstr
  | OSkill rstr
  | OTask rstr
  | OMcp rstr
  | OTodo

fun to_op :: "summary_tool \<Rightarrow> operation" where
  "to_op (SFileRead path) = OFile path"
| "to_op (SFileUpdate path) = OFile path"
| "to_op (SFileRemove path) = OFile path"
| "to_op (SUndo path) = OFile path"
| "to_op (SShell command) = OShell command"
| "to_op (SSearch p) = OSearch p"
| "to_op (SSemSearch queries) = OCodebaseSearch queries"
| "to_op (SFetch url) = OFetch url"
| "to_op (SFollowup question) = OFollowup question"
| "to_op (SPlan plan_name) = OPlan plan_name"
| "to_op (SSkill name) = OSkill name"
| "to_op (STask agent_id) = OTask agent_id"
| "to_op (SMcp name) = OMcp name"
| "to_op (STodoWrite _) = OTodo"
| "to_op STodoRead = OTodo"

text \<open>The blocks of an assistant message, one after the other, onto \<open>block_seq\<close>.\<close>

fun same_op :: "summary_message \<Rightarrow> summary_message \<Rightarrow> bool" where
  "same_op (SToolCall a) (SToolCall b) \<longleftrightarrow> to_op (stc_tool a) = to_op (stc_tool b)"
| "same_op _ _ \<longleftrightarrow> False"

definition trim_push :: "summary_message list \<Rightarrow> summary_message \<Rightarrow> summary_message list" where
  "trim_push block_seq block =
     (if block_seq \<noteq> [] \<and> same_op (last block_seq) block then butlast block_seq else block_seq) @ [block]"

definition trim_block :: "summary_block \<Rightarrow> summary_block" where
  "trim_block b =
     (if sb_role b \<noteq> Assistant then b else b\<lparr>sb_contents := foldl trim_push [] (sb_contents b)\<rparr>)"

definition trim_context_summary :: "context_summary \<Rightarrow> context_summary" where
  "trim_context_summary summary = summary\<lparr>cs_messages := map trim_block (cs_messages summary)\<rparr>"

definition strip_working_dir_path :: "rstr \<Rightarrow> rstr \<Rightarrow> rstr" where
  "strip_working_dir_path working_dir path =
     (case path_strip_prefix path working_dir of Some p \<Rightarrow> p | None \<Rightarrow> path)"

fun strip_tool :: "rstr \<Rightarrow> summary_tool \<Rightarrow> summary_tool" where
  "strip_tool wd (SFileRead path) = SFileRead (strip_working_dir_path wd path)"
| "strip_tool wd (SFileUpdate path) = SFileUpdate (strip_working_dir_path wd path)"
| "strip_tool wd (SFileRemove path) = SFileRemove (strip_working_dir_path wd path)"
| "strip_tool wd (SUndo path) = SUndo (strip_working_dir_path wd path)"
| "strip_tool wd tool = tool"

fun strip_message :: "rstr \<Rightarrow> summary_message \<Rightarrow> summary_message" where
  "strip_message wd (SToolCall tool_data) = SToolCall (tool_data\<lparr>stc_tool := strip_tool wd (stc_tool tool_data)\<rparr>)"
| "strip_message wd (SText t) = SText t"

definition strip_working_dir :: "rstr \<Rightarrow> context_summary \<Rightarrow> context_summary" where
  "strip_working_dir wd summary = summary\<lparr>cs_messages :=
     map (\<lambda>b. b\<lparr>sb_contents := map (strip_message wd) (sb_contents b)\<rparr>) (cs_messages summary)\<rparr>"

definition summary_transform :: "rstr \<Rightarrow> context_summary \<Rightarrow> context_summary option" where
  "summary_transform working_dir summary =
     map_option (strip_working_dir working_dir \<circ> trim_context_summary)
       (dedupe_role User (drop_role System summary))"

section \<open>The summary of a compaction\<close>

text \<open>\<open>Inl None\<close> stands for a panic, \<open>Inl (Some e)\<close> for an error of the template engine.\<close>

definition render_summary ::
  "('v tool_call_full \<Rightarrow> 'f + tool_catalog) \<Rightarrow> rstr \<Rightarrow> (context_summary \<Rightarrow> 'e + rstr)
     \<Rightarrow> 'v message_entry list \<Rightarrow> 'e option + rstr" where
  "render_summary parse working_dir template ms =
     (case summary_transform working_dir (summary_of_messages parse ms) of
        None \<Rightarrow> Inl None
      | Some summary \<Rightarrow> (case template summary of Inl e \<Rightarrow> Inl (Some e) | Inr summary_text \<Rightarrow> Inr summary_text))"

definition compact_and_summarize ::
  "('v tool_call_full \<Rightarrow> 'f + tool_catalog) \<Rightarrow> rstr \<Rightarrow> (context_summary \<Rightarrow> 'e + rstr) \<Rightarrow> ('v \<Rightarrow> rstr)
     \<Rightarrow> compact \<Rightarrow> 'v chat_context \<Rightarrow> bool \<Rightarrow> ('e option + 'v chat_context) option" where
  "compact_and_summarize parse working_dir template ts cc c use_max =
     compact_context (render_summary parse working_dir template) ts cc c use_max"

section \<open>What the summary is\<close>

text \<open>The reference: every text message that is not a system message, with what it contributes; the runs of messages of
  one role put together; and the last result of each call.\<close>

fun pieces ::
  "('v tool_call_full \<Rightarrow> 'e + tool_catalog) \<Rightarrow> todo list \<Rightarrow> 'v message_entry list \<Rightarrow> (role \<times> summary_message list) list" where
  "pieces parse todos [] = []"
| "pieces parse todos (m # ms) =
     (case me_message m of
        CText t \<Rightarrow> if tm_role t = System then pieces parse todos ms
          else (tm_role t, extract_summary_messages parse t todos) # pieces parse (update_todos parse t todos) ms
      | _ \<Rightarrow> pieces parse todos ms)"

fun group_runs :: "('r \<times> 'a list) list \<Rightarrow> ('r \<times> 'a list) list" where
  "group_runs [] = []"
| "group_runs ((r, xs) # ps) =
     (case group_runs ps of
        [] \<Rightarrow> [(r, xs)]
      | (r', ys) # gs \<Rightarrow> if r = r' then (r, xs @ ys) # gs else (r, xs) # (r', ys) # gs)"

definition last_results :: "'v message_entry list \<Rightarrow> rstr \<Rightarrow> tool_result option" where
  "last_results ms = map_of (rev (List.map_filter (\<lambda>m.
     case as_tool_result (me_message m) of
       Some r \<Rightarrow> map_option (\<lambda>i. (i, r)) (tr_call_id r)
     | None \<Rightarrow> None) ms))"

abbreviation block_of :: "role \<times> summary_message list \<Rightarrow> summary_block" where
  "block_of p \<equiv> \<lparr>sb_role = fst p, sb_contents = snd p\<rparr>"

lemma group_runs_head: "\<exists>ys gs. group_runs ((r, xs) # ps) = (r, ys) # gs"
  by (auto split: list.split)

lemma group_runs_same: "group_runs ((r, xs) # (r, ys) # ps) = group_runs ((r, xs @ ys) # ps)"
  by (auto split: list.split)

lemma group_runs_other: "r \<noteq> r' \<Longrightarrow> group_runs ((r, xs) # (r', ys) # ps) = (r, xs) # group_runs ((r', ys) # ps)"
  using group_runs_head [of r' ys ps] by (auto simp del: group_runs.simps(2) simp: group_runs.simps(2) [of r xs])

lemma pieces_roles: "(r, xs) \<in> set (pieces parse todos ms) \<Longrightarrow> r \<noteq> System"
  by (induction ms arbitrary: todos) (auto split: context_message.splits if_splits)

lemma summary_flush_simps [simp]:
  "ss_tool_results (summary_flush s) = ss_tool_results s"
  "ss_current_role (summary_flush s) = ss_current_role s"
  "ss_current_todos (summary_flush s) = ss_current_todos s"
  "ss_buffer (summary_flush s) = []"
  by (simp_all add: summary_flush_def)

lemma summary_flush_messages:
  "ss_messages (summary_flush s) =
     ss_messages s @ (if ss_buffer s = [] then [] else [block_of (ss_current_role s, ss_buffer s)])"
  by (simp_all add: summary_flush_def)

lemma summary_step_other:
  assumes "\<not> (\<exists>t. me_message m = CText t \<and> tm_role t \<noteq> System)"
  shows "ss_messages (summary_step parse s m) = ss_messages s" "ss_buffer (summary_step parse s m) = ss_buffer s"
    "ss_current_role (summary_step parse s m) = ss_current_role s"
    "ss_current_todos (summary_step parse s m) = ss_current_todos s"
    "pieces parse todos (m # ms) = pieces parse todos ms"
  using assms by (auto simp: summary_step_def split: context_message.split option.split)

lemma summary_step_text:
  fixes parse :: "'v tool_call_full \<Rightarrow> 'e + tool_catalog" and s :: summary_state
  assumes "me_message m = CText t" "tm_role t \<noteq> System"
  defines "new \<equiv> extract_summary_messages parse t (ss_current_todos s)" and "same \<equiv> ss_current_role s = tm_role t"
  shows "ss_messages (summary_step parse s m) = (if same then ss_messages s else ss_messages (summary_flush s))"
    "ss_buffer (summary_step parse s m) = (if same then ss_buffer s @ new else new)"
    "ss_current_role (summary_step parse s m) = tm_role t"
    "ss_current_todos (summary_step parse s m) = update_todos parse t (ss_current_todos s)"
    "pieces parse (ss_current_todos s) (m # ms) =
       (tm_role t, new) # pieces parse (update_todos parse t (ss_current_todos s)) ms"
  using assms by (auto simp: summary_step_def Let_def)

lemma summary_loop_groups:
  "ss_messages (summary_flush (foldl (summary_step parse) s ms)) = ss_messages s @ map block_of
     (filter (\<lambda>p. snd p \<noteq> []) (group_runs ((ss_current_role s, ss_buffer s) # pieces parse (ss_current_todos s) ms)))"
proof (induction ms arbitrary: s)
  case (Cons m ms)
  note ih = Cons.IH [of "summary_step parse s m"]
  show ?case
  proof (cases "\<exists>t. me_message m = CText t \<and> tm_role t \<noteq> System")
    case False
    show ?thesis
      using ih unfolding foldl_Cons summary_step_other [OF False] .
  next
    case True
    then obtain t where t: "me_message m = CText t" "tm_role t \<noteq> System" by blast
    show ?thesis
      using ih unfolding foldl_Cons summary_step_text [OF t]
      by (auto simp: group_runs_same group_runs_other summary_flush_messages [of s] simp del: group_runs.simps)
  qed
qed (simp add: summary_flush_messages)

lemma summary_loop_results:
  "ss_tool_results (foldl (summary_step parse) s ms) = ss_tool_results s ++ last_results ms"
proof (induction ms arbitrary: s)
  case (Cons m ms)
  then show ?case
    by (auto simp: last_results_def summary_step_def List.map_filter_simps Let_def map_add_def fun_eq_iff
        split: context_message.splits option.splits)
qed (simp add: last_results_def List.map_filter_simps)

lemma group_runs_start:
  assumes "\<And>r xs. (r, xs) \<in> set ps \<Longrightarrow> r \<noteq> q"
  shows "filter (\<lambda>p. snd p \<noteq> []) (group_runs ((q, []) # ps)) = filter (\<lambda>p. snd p \<noteq> []) (group_runs ps)"
proof (cases ps)
  case (Cons p ps')
  then show ?thesis using assms [of "fst p" "snd p"] by (cases p) (simp add: group_runs_other del: group_runs.simps)
qed simp

lemma summary_blocks:
  "cs_messages (summary_of_messages parse ms) =
     map (\<lambda>(r, cs). \<lparr>sb_role = r, sb_contents = map (set_success (last_results ms)) cs\<rparr>)
       (filter (\<lambda>p. snd p \<noteq> []) (group_runs (pieces parse [] ms)))"
proof -
  have "ss_messages (summary_flush (foldl (summary_step parse) summary_start ms)) =
      map block_of (filter (\<lambda>p. snd p \<noteq> []) (group_runs (pieces parse [] ms)))"
    using group_runs_start [of "pieces parse [] ms" System] pieces_roles [of _ _ parse "[]" ms]
    by (simp add: summary_loop_groups summary_start_def del: group_runs.simps)
  moreover have "ss_tool_results (foldl (summary_step parse) summary_start ms) = last_results ms"
    by (simp add: summary_loop_results summary_start_def)
  ultimately show ?thesis
    by (simp add: summary_of_messages_def Let_def case_prod_unfold)
qed

text \<open>The summary of the evicted messages is their grouping by role: each run of text messages of one role that are
  not system messages becomes one block, with the texts and the calls of the run in order, every call marked with the
  success of the last result that answers it; a run that contributes nothing leaves no block.\<close>

theorem summary_groups_by_role:
  "cs_messages (summary_of_messages parse ms) =
     map (\<lambda>(r, cs). \<lparr>sb_role = r, sb_contents = map (set_success (last_results ms)) cs\<rparr>)
       (filter (\<lambda>p. snd p \<noteq> []) (group_runs (pieces parse [] ms)))"
  by (rule summary_blocks)

section \<open>Trimming\<close>

text \<open>The reference: of calls with the same operation in a row only the last stays.\<close>

fun keep_last_of_runs :: "('a \<Rightarrow> 'a \<Rightarrow> bool) \<Rightarrow> 'a list \<Rightarrow> 'a list" where
  "keep_last_of_runs R (x # y # ys) =
     (if R x y then keep_last_of_runs R (y # ys) else x # keep_last_of_runs R (y # ys))"
| "keep_last_of_runs R xs = xs"

lemma same_op_trans: "same_op a b \<Longrightarrow> same_op b c \<Longrightarrow> same_op a c"
  by (cases a; cases b; cases c) simp_all

lemma same_op_sym: "same_op a b \<Longrightarrow> same_op b a"
  by (cases a; cases b) simp_all

lemma trim_push_snoc: "foldl trim_push (acc @ [x]) ys = acc @ keep_last_of_runs same_op (x # ys)"
proof (induction ys arbitrary: acc x)
  case (Cons y ys)
  have "trim_push (acc @ [x]) y = (if same_op x y then acc @ [y] else (acc @ [x]) @ [y])"
    by (simp add: trim_push_def)
  then show ?case using Cons.IH [of acc y] Cons.IH [of "acc @ [x]" y] by simp
qed simp

lemma trim_keeps_last: "foldl trim_push [] xs = keep_last_of_runs same_op xs"
proof (cases xs)
  case (Cons x ys)
  then show ?thesis using trim_push_snoc [of "[]" x ys] by (simp add: trim_push_def)
qed simp

lemma keep_last_of_runs_Nil [simp]: "keep_last_of_runs R xs = [] \<longleftrightarrow> xs = []"
  by (induction R xs rule: keep_last_of_runs.induct) auto

lemma keep_last_represents:
  assumes "x \<in> set xs" "\<And>a b c. R a b \<Longrightarrow> R b c \<Longrightarrow> R a c"
  obtains y where "y \<in> set (keep_last_of_runs R xs)" "y = x \<or> R x y"
proof -
  have "\<exists>y \<in> set (keep_last_of_runs R xs). y = x \<or> R x y"
    using assms(1)
  proof (induction xs arbitrary: x rule: induct_list012)
    case (3 a b ys)
    show ?case
    proof (cases "x = a \<and> R a b")
      case True
      then obtain y where "y \<in> set (keep_last_of_runs R (b # ys))" "y = b \<or> R b y" using 3(2) [of b] by auto
      then show ?thesis using True assms(2) by auto
    next
      case False
      then show ?thesis using 3 by (cases "x = a") auto
    qed
  qed auto
  then show thesis using that by blast
qed

text \<open>Trimming keeps, of calls with the same operation in a row, the last one, and everything else; the blocks of
  other roles stay as they are.\<close>

theorem trim_keeps_last_of_runs:
  "cs_messages (trim_context_summary summary) = map (\<lambda>b.
     if sb_role b = Assistant then b\<lparr>sb_contents := keep_last_of_runs same_op (sb_contents b)\<rparr> else b)
     (cs_messages summary)"
  by (simp add: trim_context_summary_def trim_block_def trim_keeps_last)

section \<open>What survives\<close>

lemma dedupe_loop_ok:
  assumes "list_all (\<lambda>b. sb_contents b \<noteq> []) bs"
  obtains bs' where "dedupe_loop r q bs = Some bs'" "filter (\<lambda>b. sb_role b \<noteq> r) bs' = filter (\<lambda>b. sb_role b \<noteq> r) bs"
proof -
  have "\<exists>bs'. dedupe_loop r q bs = Some bs' \<and> filter (\<lambda>b. sb_role b \<noteq> r) bs' = filter (\<lambda>b. sb_role b \<noteq> r) bs"
    using assms by (induction r q bs rule: dedupe_loop.induct) (auto simp: drain_rest_def)
  then show thesis using that by blast
qed

lemma summary_blocks_nonempty: "list_all (\<lambda>b. sb_contents b \<noteq> []) (cs_messages (summary_of_messages parse ms))"
  by (auto simp: summary_blocks list_all_iff)

lemma summary_blocks_not_system: "list_all (\<lambda>b. sb_role b \<noteq> System) (cs_messages (summary_of_messages parse ms))"
proof -
  have "\<exists>ys. (r, ys) \<in> set ps" if "(r, xs) \<in> set (group_runs ps)" for r xs and ps :: "(role \<times> summary_message list) list"
    using that
  proof (induction ps arbitrary: xs rule: group_runs.induct)
    case (2 q qs ps)
    show ?case
    proof (cases "r = q")
      case False
      then have "(r, xs) \<in> set (group_runs ps)"
        using 2(2) by (cases "group_runs ps") (auto split: if_splits)
      then show ?thesis using 2(1) by auto
    qed auto
  qed simp
  then show ?thesis
    using pieces_roles [of _ _ parse "[]" ms] by (fastforce simp: summary_blocks list_all_iff)
qed

lemma summary_transform_ok:
  obtains bs where "summary_transform wd (summary_of_messages parse ms) =
      Some \<lparr>cs_messages = map (\<lambda>b. b\<lparr>sb_contents := map (strip_message wd) (sb_contents b)\<rparr>) (map trim_block bs)\<rparr>"
    "\<And>b. b \<in> set (cs_messages (summary_of_messages parse ms)) \<Longrightarrow> sb_role b = Assistant \<Longrightarrow> b \<in> set bs"
proof -
  let ?s = "summary_of_messages parse ms"
  have all: "filter (\<lambda>b. sb_role b \<noteq> System) (cs_messages ?s) = cs_messages ?s"
    using summary_blocks_not_system [of parse ms] by (simp add: filter_id_conv list_all_iff)
  obtain bs where bs: "dedupe_loop User System (cs_messages ?s) = Some bs"
    "filter (\<lambda>b. sb_role b \<noteq> User) bs = filter (\<lambda>b. sb_role b \<noteq> User) (cs_messages ?s)"
    by (rule dedupe_loop_ok [OF summary_blocks_nonempty])
  have "b \<in> set bs" if "b \<in> set (cs_messages ?s)" "sb_role b = Assistant" for b
  proof -
    have "b \<in> set (filter (\<lambda>b. sb_role b \<noteq> User) (cs_messages ?s))" using that by simp
    then show ?thesis unfolding bs(2) [symmetric] by simp
  qed
  moreover have "summary_transform wd ?s =
      Some \<lparr>cs_messages = map (\<lambda>b. b\<lparr>sb_contents := map (strip_message wd) (sb_contents b)\<rparr>) (map trim_block bs)\<rparr>"
    by (simp add: summary_transform_def dedupe_role_def drop_role_def all bs(1) strip_working_dir_def
        trim_context_summary_def)
  ultimately show thesis using that by blast
qed

text \<open>What an assistant message contributes ends up in an assistant block.\<close>

lemma group_runs_member:
  assumes "(r, xs) \<in> set ps"
  obtains ys where "(r, ys) \<in> set (group_runs ps)" "set xs \<subseteq> set ys"
proof -
  have "\<exists>ys. (r, ys) \<in> set (group_runs ps) \<and> set xs \<subseteq> set ys"
    using assms by (induction ps rule: group_runs.induct) (fastforce split: list.splits prod.splits if_splits)+
  then show thesis using that by blast
qed

lemma pieces_member:
  assumes "m \<in> set ms" "me_message m = CText t" "tm_role t \<noteq> System"
  obtains todos' where "(tm_role t, extract_summary_messages parse t todos') \<in> set (pieces parse todos ms)"
proof -
  have "\<exists>todos'. (tm_role t, extract_summary_messages parse t todos') \<in> set (pieces parse todos ms)"
    using assms by (induction ms arbitrary: todos) (auto split: context_message.splits)
  then show thesis using that by blast
qed

lemma assistant_in_summary:
  assumes "m \<in> set ms" "me_message m = CText t" "tm_role t = Assistant"
  obtains todos where "\<And>x. x \<in> set (extract_summary_messages parse t todos) \<Longrightarrow>
    \<exists>b \<in> set (cs_messages (summary_of_messages parse ms)). sb_role b = Assistant
      \<and> set_success (last_results ms) x \<in> set (sb_contents b)"
proof -
  obtain todos where "(Assistant, extract_summary_messages parse t todos) \<in> set (pieces parse [] ms)"
    using pieces_member [OF assms(1,2), of parse "[]"] assms(3) by auto
  then obtain ys where ys: "(Assistant, ys) \<in> set (group_runs (pieces parse [] ms))"
    "set (extract_summary_messages parse t todos) \<subseteq> set ys"
    by (rule group_runs_member)
  let ?b = "\<lparr>sb_role = Assistant, sb_contents = map (set_success (last_results ms)) ys\<rparr>"
  have b: "ys \<noteq> [] \<Longrightarrow> ?b \<in> set (cs_messages (summary_of_messages parse ms))"
    using ys(1) by (force simp: summary_blocks)
  show thesis
  proof (rule that [of todos])
    fix x assume "x \<in> set (extract_summary_messages parse t todos)"
    then have x: "x \<in> set ys" using ys(2) by blast
    then have "?b \<in> set (cs_messages (summary_of_messages parse ms))" by (intro b) auto
    moreover have "set_success (last_results ms) x \<in> set (sb_contents ?b)" using x by simp
    ultimately show "\<exists>b \<in> set (cs_messages (summary_of_messages parse ms)). sb_role b = Assistant
      \<and> set_success (last_results ms) x \<in> set (sb_contents b)" by (metis summary_block.select_convs(1))
  qed
qed

lemma to_op_strip_cong: "to_op a = to_op b \<Longrightarrow> to_op (strip_tool wd a) = to_op (strip_tool wd b)"
  by (cases a; cases b) simp_all

text \<open>The transformers keep a text of an assistant block, and of a call its operation.\<close>

fun same_content :: "rstr \<Rightarrow> summary_message \<Rightarrow> summary_message \<Rightarrow> bool" where
  "same_content wd (SText t) y \<longleftrightarrow> y = SText t"
| "same_content wd (SToolCall c) y \<longleftrightarrow> (\<exists>c'. y = SToolCall c' \<and> to_op (stc_tool c') = to_op (strip_tool wd (stc_tool c)))"

lemma same_content_success [simp]: "same_content wd (set_success f x) y = same_content wd x y"
  by (cases x) (auto split: option.split)

lemma same_content_strip: "y = x \<or> same_op x y \<Longrightarrow> same_content wd x (strip_message wd y)"
  by (cases x; cases y) (auto intro: to_op_strip_cong)

lemma trim_block_Assistant:
  "sb_role b = Assistant \<Longrightarrow> sb_contents (trim_block b) = keep_last_of_runs same_op (sb_contents b)"
  by (simp add: trim_block_def trim_keeps_last)

lemma transform_keeps:
  assumes "b \<in> set (cs_messages (summary_of_messages parse ms))" "sb_role b = Assistant" "x \<in> set (sb_contents b)"
    and "summary_transform wd (summary_of_messages parse ms) = Some out"
  shows "\<exists>b' \<in> set (cs_messages out). sb_role b' = Assistant \<and> (\<exists>y \<in> set (sb_contents b'). same_content wd x y)"
proof -
  obtain bs where out: "cs_messages out =
      map (\<lambda>b. b\<lparr>sb_contents := map (strip_message wd) (sb_contents b)\<rparr>) (map trim_block bs)" and b: "b \<in> set bs"
  proof (rule summary_transform_ok [of wd parse ms], goal_cases)
    case (1 bs)
    then show ?case using 1(1) [of bs] assms(1,2,4) by simp
  qed
  obtain y where y: "y \<in> set (sb_contents (trim_block b))" "y = x \<or> same_op x y"
    unfolding trim_block_Assistant [OF assms(2)]
    by (rule keep_last_represents [of x "sb_contents b" same_op, OF assms(3)]) (auto intro: same_op_trans)
  let ?b = "(trim_block b)\<lparr>sb_contents := map (strip_message wd) (sb_contents (trim_block b))\<rparr>"
  have "?b \<in> set (cs_messages out)" using b by (simp add: out)
  moreover have "sb_role ?b = Assistant" using assms(2) by (simp add: trim_block_def)
  moreover have "strip_message wd y \<in> set (sb_contents ?b)" using y(1) by simp
  ultimately show ?thesis using same_content_strip [OF y(2)] by blast
qed

lemma summary_keeps:
  assumes "m \<in> set ms" "me_message m = CText t" "tm_role t = Assistant"
    and "summary_transform wd (summary_of_messages parse ms) = Some out"
  obtains todos where "\<And>x. x \<in> set (extract_summary_messages parse t todos) \<Longrightarrow>
    \<exists>b \<in> set (cs_messages out). sb_role b = Assistant \<and> (\<exists>y \<in> set (sb_contents b). same_content wd x y)"
proof -
  obtain todos where todos: "\<And>x. x \<in> set (extract_summary_messages parse t todos) \<Longrightarrow>
    \<exists>b \<in> set (cs_messages (summary_of_messages parse ms)). sb_role b = Assistant
      \<and> set_success (last_results ms) x \<in> set (sb_contents b)"
    by (rule assistant_in_summary [where parse = parse, OF assms(1-3)]) blast
  show thesis
  proof (rule that [of todos])
    fix x assume "x \<in> set (extract_summary_messages parse t todos)"
    with todos obtain b where b: "b \<in> set (cs_messages (summary_of_messages parse ms))" "sb_role b = Assistant"
      "set_success (last_results ms) x \<in> set (sb_contents b)" by blast
    from transform_keeps [OF b assms(4)]
    show "\<exists>b \<in> set (cs_messages out). sb_role b = Assistant \<and> (\<exists>y \<in> set (sb_contents b). same_content wd x y)"
      by simp
  qed
qed

text \<open>The path of the file a call is about.\<close>

fun file_of :: "tool_catalog \<Rightarrow> rstr option" where
  "file_of (TRead i) = Some (fr_file_path i)"
| "file_of (TWrite i) = Some (fw_file_path i)"
| "file_of (TPatch i) = Some (fp_file_path i)"
| "file_of (TMultiPatch i) = Some (mp_file_path i)"
| "file_of (TRemove path) = Some path"
| "file_of (TUndo path) = Some path"
| "file_of _ = None"

lemma file_of_op: "file_of tool = Some path \<Longrightarrow> to_op (strip_tool wd (catalog_summary ts tool)) = OFile (strip_working_dir_path wd path)"
  by (cases tool) auto

text \<open>C6: The summary of an eviction never loses what an assistant message says nor a file it worked on: its text is in
  an assistant block of the summary, and every file it read, wrote, patched, removed or restored is named, relative to
  the working directory, by a call of an assistant block.\<close>

theorem summary_names_every_file:
  assumes "m \<in> set ms" "me_message m = CText t" "tm_role t = Assistant"
    and "summary_transform wd (summary_of_messages parse ms) = Some out"
  shows "(tm_content t \<noteq> [] \<longrightarrow>
      (\<exists>b \<in> set (cs_messages out). sb_role b = Assistant \<and> SText (tm_content t) \<in> set (sb_contents b)))
    \<and> (\<forall>calls call tool path. tm_tool_calls t = Some calls \<and> call \<in> set calls \<and> parse call = Inr tool \<and> file_of tool = Some path \<longrightarrow>
      (\<exists>b \<in> set (cs_messages out). sb_role b = Assistant
        \<and> (\<exists>c. SToolCall c \<in> set (sb_contents b) \<and> to_op (stc_tool c) = OFile (strip_working_dir_path wd path))))"
proof -
  obtain todos where keeps: "\<And>x. x \<in> set (extract_summary_messages parse t todos) \<Longrightarrow>
    \<exists>b \<in> set (cs_messages out). sb_role b = Assistant \<and> (\<exists>y \<in> set (sb_contents b). same_content wd x y)"
    by (rule summary_keeps [OF assms]) blast
  have "\<exists>b \<in> set (cs_messages out). sb_role b = Assistant \<and> SText (tm_content t) \<in> set (sb_contents b)"
    if "tm_content t \<noteq> []"
    using keeps [of "SText (tm_content t)"] that by (simp add: extract_summary_messages_def)
  moreover have "\<exists>b \<in> set (cs_messages out). sb_role b = Assistant
      \<and> (\<exists>c. SToolCall c \<in> set (sb_contents b) \<and> to_op (stc_tool c) = OFile (strip_working_dir_path wd path))"
    if "tm_tool_calls t = Some calls" "call \<in> set calls" "parse call = Inr tool" "file_of tool = Some path"
    for calls call tool path
  proof -
    let ?c = "\<lparr>stc_id = tc_call_id call, stc_tool = catalog_summary todos tool, stc_is_success = False\<rparr>"
    have "SToolCall ?c \<in> set (extract_summary_messages parse t todos)"
      using that(1-3) by (force simp: extract_summary_messages_def extract_tool_info_def List.map_filter_def)
    from keeps [OF this] show ?thesis using file_of_op [OF that(4), of wd todos] by auto
  qed
  ultimately show ?thesis by blast
qed

section \<open>Compaction with its summary\<close>

lemma render_summary_cases:
  "render_summary parse wd template ms = Inl err \<Longrightarrow> \<exists>e summary. err = Some e \<and> template summary = Inl e"
  by (rule summary_transform_ok [of wd parse ms]) (auto simp: render_summary_def split: sum.splits)

text \<open>C24: A compaction with its summary always returns and never panics: draining the user blocks never meets an empty
  one, and the only error is one of the template engine.\<close>

theorem compaction_never_panics:
  "\<exists>r. compact_and_summarize parse wd template ts cc c use_max = Some r \<and>
     (case r of
        Inl err \<Rightarrow> \<exists>e summary. err = Some e \<and> template summary = Inl e
      | Inr c' \<Rightarrow> length (ctx_messages c') \<le> length (ctx_messages c))"
  using compact_result [of "render_summary parse wd template" ts cc c use_max]
  by (fastforce simp: compact_and_summarize_def split: sum.splits dest: render_summary_cases)

section \<open>Todo changes\<close>

text \<open>What differs between two maps, at one key.\<close>

fun difference :: "'a option \<Rightarrow> 'a option \<Rightarrow> todo_change_kind option" where
  "difference None (Some _) = Some Added"
| "difference (Some a) (Some b) = (if a = b then None else Some Updated)"
| "difference (Some _) None = Some Removed"
| "difference None None = None"

lemma foldl_change_map_other:
  "k \<notin> ti_content ` set items \<Longrightarrow> foldl change_map f items k = f k"
  by (induction items arbitrary: f) (auto simp: change_map_def)

lemma foldl_change_map_at:
  "distinct (map ti_content items) \<Longrightarrow> item \<in> set items \<Longrightarrow>
   foldl change_map f items (ti_content item) = (if ti_status item = Cancelled then None else Some (ti_status item))"
  by (induction items arbitrary: f) (auto simp: foldl_change_map_other, simp_all add: change_map_def)

lemma todo_lookup:
  assumes "todos_inv ts"
  shows "map_option tdo_status (map_of (rev (map (\<lambda>t. (tdo_content t, t)) ts)) k) = todo_map ts k"
  using assms
proof (induction ts)
  case (Cons t ts)
  then have inv: "todos_inv ts" and new: "todo_map ts (tdo_content t) = None"
    by (auto simp: todos_inv_def todo_map_None_iff)
  show ?case using Cons.IH [OF inv] new by (cases "k = tdo_content t") (auto simp: map_add_def split: option.splits)
qed simp

text \<open>The todo changes that a summary shows, for items of different contents: for each item, in order, what became of its
  content between the list before and the list after the items.\<close>

theorem todo_changes_are_the_difference:
  assumes "todos_inv before" "distinct (map ti_content items)"
    and "after = snd (foldl (apply_todo_item uuid) (n, before) items)"
  shows "map (\<lambda>ch. (tdo_content (tch_todo ch), tch_kind ch)) (todo_changes before items) =
    List.map_filter (\<lambda>item. map_option (Pair (ti_content item))
      (difference (todo_map before (ti_content item)) (todo_map after (ti_content item)))) items"
proof -
  have after: "todo_map after = foldl change_map (todo_map before) items"
    using foldl_apply_todo_item_map [of "(n, before)" uuid items] assms(1,3) by simp
  have one: "map_option (\<lambda>ch. (tdo_content (tch_todo ch), tch_kind ch)) (todo_change_of before item) =
      map_option (Pair (ti_content item)) (difference (todo_map before (ti_content item)) (todo_map after (ti_content item)))"
    if "item \<in> set items" for item
  proof -
    let ?prev = "map_of (rev (map (\<lambda>t. (tdo_content t, t)) before)) (ti_content item)"
    have prev: "todo_map before (ti_content item) = map_option tdo_status ?prev"
      using todo_lookup [OF assms(1)] by simp
    have "tdo_content t = ti_content item" if "?prev = Some t" for t
      using map_of_SomeD [OF that] by auto
    then show ?thesis
      unfolding after prev foldl_change_map_at [OF assms(2) that]
      by (cases ?prev) (auto simp: todo_change_of_def)
  qed
  have "map g (List.map_filter f xs) = List.map_filter h xs" if "\<And>x. x \<in> set xs \<Longrightarrow> map_option g (f x) = h x"
    for g :: "'x \<Rightarrow> 'y" and f :: "'z \<Rightarrow> 'x option" and h xs
    using that
  proof (induction xs)
    case (Cons x xs)
    have "h x = map_option g (f x)" using Cons.prems [of x] by simp
    then show ?case using Cons by (cases "f x") (simp_all add: List.map_filter_simps)
  qed (simp add: List.map_filter_simps)
  from this [OF one] show ?thesis by (simp add: todo_changes_def)
qed

theorem todo_changes_are_the_difference_witness:
  "map (\<lambda>ch. (tdo_content (tch_todo ch), tch_kind ch))
     (todo_changes [\<lparr>tdo_id = [], tdo_content = lit ''a'', tdo_status = Pending\<rparr>]
        [\<lparr>ti_content = lit ''b'', ti_status = Pending\<rparr>, \<lparr>ti_content = lit ''a'', ti_status = Completed\<rparr>])
   = [(lit ''b'', Added), (lit ''a'', Updated)]"
proof -
  let ?before = "[\<lparr>tdo_id = [], tdo_content = lit ''a'', tdo_status = Pending\<rparr>]"
  let ?items = "[\<lparr>ti_content = lit ''b'', ti_status = Pending\<rparr>, \<lparr>ti_content = lit ''a'', ti_status = Completed\<rparr>]"
  have "todos_inv ?before" "distinct (map ti_content ?items)" by (simp_all add: todos_inv_def lit_def)
  from todo_changes_are_the_difference [OF this refl, of "\<lambda>_. []" 0] show ?thesis
    by (simp add: lit_def List.map_filter_simps apply_todo_item_def)
qed

section \<open>Samples\<close>

text \<open>A client whose calls carry the tool they stand for, and an assistant message that writes a file and then fails to
  read it again.\<close>

definition sample_call :: "rstr \<Rightarrow> tool_catalog \<Rightarrow> tool_catalog tool_call_full" where
  "sample_call i tool = \<lparr>tc_name = [], tc_call_id = Some i, tc_arguments = Parsed tool, tc_thought_signature = None\<rparr>"

definition sample_parse :: "tool_catalog tool_call_full \<Rightarrow> unit + tool_catalog" where
  "sample_parse call = (case tc_arguments call of Parsed tool \<Rightarrow> Inr tool | Unparsed _ \<Rightarrow> Inl ())"

definition sample_text :: "tool_catalog tool_call_full list \<Rightarrow> tool_catalog text_message" where
  "sample_text calls = (text_new Assistant (lit ''ok''))\<lparr>tm_tool_calls := Some calls\<rparr>"

definition sample_evicted :: "tool_catalog message_entry list" where
  "sample_evicted =
     [entry_of (CText (sample_text
        [sample_call (lit ''1'') (TWrite \<lparr>fw_file_path = lit ''/w/a'', fw_content = [], fw_overwrite = False\<rparr>),
         sample_call (lit ''2'') (TRead \<lparr>fr_file_path = lit ''/w/a'', fr_range = None, fr_show_line_numbers = True\<rparr>)])),
      entry_of (CTool \<lparr>tr_name = [], tr_call_id = Some (lit ''1''), tr_output = output_text (lit ''done'')\<rparr>),
      entry_of (CTool \<lparr>tr_name = [], tr_call_id = Some (lit ''2''),
        tr_output = (output_text (lit ''no''))\<lparr>to_is_error := True\<rparr>\<rparr>)]"

text \<open>Trimming does not look at the success of a call: the failed read replaces the write that succeeded, and the summary
  no longer shows that the file was changed.\<close>

theorem failed_call_replaces_successful:
  "cs_messages (summary_of_messages sample_parse sample_evicted) =
     [\<lparr>sb_role = Assistant, sb_contents = [SText (lit ''ok''),
        SToolCall \<lparr>stc_id = Some (lit ''1''), stc_tool = SFileUpdate (lit ''/w/a''), stc_is_success = True\<rparr>,
        SToolCall \<lparr>stc_id = Some (lit ''2''), stc_tool = SFileRead (lit ''/w/a''), stc_is_success = False\<rparr>]\<rparr>]
   \<and> summary_transform (lit ''/w'') (summary_of_messages sample_parse sample_evicted) =
     Some \<lparr>cs_messages = [\<lparr>sb_role = Assistant, sb_contents = [SText (lit ''ok''),
        SToolCall \<lparr>stc_id = Some (lit ''2''), stc_tool = SFileRead (lit ''a''), stc_is_success = False\<rparr>]\<rparr>]\<rparr>"
  by code_simp

theorem summary_names_every_file_witness:
  "\<exists>out. summary_transform (lit ''/w'') (summary_of_messages sample_parse sample_evicted) = Some out
    \<and> (\<exists>b \<in> set (cs_messages out). sb_role b = Assistant \<and> SText (lit ''ok'') \<in> set (sb_contents b))
    \<and> (\<exists>b \<in> set (cs_messages out). sb_role b = Assistant
        \<and> (\<exists>c. SToolCall c \<in> set (sb_contents b) \<and> to_op (stc_tool c) = OFile (lit ''a'')))"
proof -
  obtain out where out: "summary_transform (lit ''/w'') (summary_of_messages sample_parse sample_evicted) = Some out"
    by (rule summary_transform_ok)
  let ?w = "TWrite \<lparr>fw_file_path = lit ''/w/a'', fw_content = [], fw_overwrite = False\<rparr>"
  let ?r = "TRead \<lparr>fr_file_path = lit ''/w/a'', fr_range = None, fr_show_line_numbers = True\<rparr>"
  let ?t = "sample_text [sample_call (lit ''1'') ?w, sample_call (lit ''2'') ?r]"
  have m: "entry_of (CText ?t) \<in> set sample_evicted" "me_message (entry_of (CText ?t)) = CText ?t" "tm_role ?t = Assistant"
    by (simp_all add: sample_evicted_def entry_of_def sample_text_def text_new_def)
  have "strip_working_dir_path (lit ''/w'') (lit ''/w/a'') = lit ''a''" by code_simp
  note keeps = summary_names_every_file [OF m out]
  have "\<exists>b \<in> set (cs_messages out). sb_role b = Assistant
      \<and> (\<exists>c. SToolCall c \<in> set (sb_contents b) \<and> to_op (stc_tool c) = OFile (strip_working_dir_path (lit ''/w'') (lit ''/w/a'')))"
    by (rule mp [OF spec [OF spec [OF spec [OF spec [OF conjunct2 [OF keeps]]]]],
          of "[sample_call (lit ''1'') ?w, sample_call (lit ''2'') ?r]" "sample_call (lit ''1'') ?w" ?w])
      (simp add: sample_text_def sample_parse_def sample_call_def)
  moreover have "\<exists>b \<in> set (cs_messages out). sb_role b = Assistant \<and> SText (lit ''ok'') \<in> set (sb_contents b)"
    using conjunct1 [OF keeps] by (simp add: sample_text_def text_new_def lit_def)
  ultimately show ?thesis using out \<open>strip_working_dir_path (lit ''/w'') (lit ''/w/a'') = lit ''a''\<close> by metis
qed

text \<open>Calls that change or read the todo list count as one operation, so of two in a row the changes of the first are
  gone.\<close>

theorem todo_changes_are_merged:
  assumes "stc_tool a = STodoWrite changes" "stc_tool b \<in> {STodoWrite changes', STodoRead}"
  shows "foldl trim_push [] [SToolCall a, SToolCall b] = [SToolCall b]"
  using assms by (auto simp: trim_push_def)

theorem todo_changes_are_merged_witness:
  "foldl trim_push []
     [SToolCall \<lparr>stc_id = None, stc_tool = STodoWrite (todo_changes [] [\<lparr>ti_content = lit ''a'', ti_status = Pending\<rparr>]), stc_is_success = True\<rparr>,
      SToolCall \<lparr>stc_id = None, stc_tool = STodoRead, stc_is_success = True\<rparr>]
   = [SToolCall \<lparr>stc_id = None, stc_tool = STodoRead, stc_is_success = True\<rparr>]"
  by (rule todo_changes_are_merged [where changes = "todo_changes [] [\<lparr>ti_content = lit ''a'', ti_status = Pending\<rparr>]"]) simp_all

text \<open>The summary follows the items of a todo call also when the call was rejected: a call with an empty content changes no
  todo of the session, but the summary takes its other items as added.\<close>

definition rejected_items :: "todo_item list" where
  "rejected_items = [\<lparr>ti_content = lit ''a'', ti_status = Pending\<rparr>, \<lparr>ti_content = [], ti_status = Pending\<rparr>]"

theorem rejected_todos_are_summarized:
  "apply_todo_changes uuid m rejected_items = (Inl TodoEmpty, m)
   \<and> update_todos sample_parse (sample_text [sample_call [] (TTodoWrite rejected_items)]) [] =
     [\<lparr>tdo_id = [], tdo_content = lit ''a'', tdo_status = Pending\<rparr>, \<lparr>tdo_id = [], tdo_content = [], tdo_status = Pending\<rparr>]"
  by (simp add: rejected_items_def apply_todo_changes_def check_todo_item_def update_todos_def sample_parse_def sample_text_def
      sample_call_def apply_todo_item_def lit_def str_trim_def trim_start_def trim_end_def is_whitespace_def utf8_len_def utf8_width_def)

end
