(* ===== verification/Json_Repair.thy ===== *)
theory Json_Repair
  imports Prelude
begin

text \<open>
  The repair of malformed JSON (\<open>forge_json_repair/src/parser.rs\<close>): the parser that walks over a text and writes a
  repaired one. The functions of the source that call each other are one partial function \<open>repair_run\<close> on the calls
  (\<open>repair_call\<close>), so that a call that never returns is \<open>None\<close>; each function is a definition that takes the recursive
  calls as the argument \<open>rec\<close>. The field \<open>chars\<close>, which never changes, is the argument \<open>cs\<close>. Positions count
  characters. Of \<open>serde_json\<close>, writing a string (\<open>quote\<close>) and reading a value (\<open>de\<close>) are parameters.
\<close>

section \<open>Characters\<close>

definition json_ws :: "int \<Rightarrow> bool \<Rightarrow> bool" where
  "json_ws ch skip_newline \<longleftrightarrow> ch \<in> (if skip_newline then {32, 10, 9, 13} else {32, 9, 13})"

definition is_special_whitespace :: "int \<Rightarrow> bool" where
  "is_special_whitespace ch \<longleftrightarrow> ch = 160 \<or> (8192 \<le> ch \<and> ch \<le> 8202) \<or> ch = 8239 \<or> ch = 8287 \<or> ch = 12288"

definition is_quote :: "int option \<Rightarrow> bool" where
  "is_quote ch \<longleftrightarrow> ch \<in> {Some 34, Some 39, Some 96, Some 8216, Some 8217, Some 8220, Some 8221, Some 180}"

definition is_digit :: "int option \<Rightarrow> bool" where
  "is_digit ch \<longleftrightarrow> (case ch of Some c \<Rightarrow> 48 \<le> c \<and> c \<le> 57 | None \<Rightarrow> False)"

definition is_hex :: "int \<Rightarrow> bool" where
  "is_hex ch \<longleftrightarrow> (48 \<le> ch \<and> ch \<le> 57) \<or> (65 \<le> ch \<and> ch \<le> 70) \<or> (97 \<le> ch \<and> ch \<le> 102)"

definition is_ascii_letter :: "int \<Rightarrow> bool" where
  "is_ascii_letter ch \<longleftrightarrow> (65 \<le> ch \<and> ch \<le> 90) \<or> (97 \<le> ch \<and> ch \<le> 122)"

definition is_function_name_char_start :: "int option \<Rightarrow> bool" where
  "is_function_name_char_start ch \<longleftrightarrow> (case ch of Some c \<Rightarrow> is_ascii_letter c \<or> c = 95 \<or> c = 36 | None \<Rightarrow> False)"

definition is_function_name_char :: "int option \<Rightarrow> bool" where
  "is_function_name_char ch \<longleftrightarrow>
     (case ch of Some c \<Rightarrow> is_ascii_letter c \<or> (48 \<le> c \<and> c \<le> 57) \<or> c = 95 \<or> c = 36 | None \<Rightarrow> False)"

text \<open>The characters comma, colon, brackets, slash, braces, parentheses, line feed and plus.\<close>

definition is_delimiter :: "int option \<Rightarrow> bool" where
  "is_delimiter ch \<longleftrightarrow> (case ch of Some c \<Rightarrow> c \<in> {44, 58, 91, 93, 47, 123, 125, 40, 41, 10, 43} | None \<Rightarrow> False)"

definition is_unquoted_string_delimiter :: "int \<Rightarrow> bool" where
  "is_unquoted_string_delimiter ch \<longleftrightarrow> ch \<in> {44, 91, 93, 47, 123, 125, 10, 43}"

definition is_start_of_value :: "int option \<Rightarrow> bool" where
  "is_start_of_value ch \<longleftrightarrow> is_quote ch \<or>
     (case ch of Some c \<Rightarrow> c = 91 \<or> c = 123 \<or> is_ascii_letter c \<or> (48 \<le> c \<and> c \<le> 57) \<or> c = 95 \<or> c = 45 | None \<Rightarrow> False)"

definition is_control_character :: "int \<Rightarrow> bool" where
  "is_control_character ch \<longleftrightarrow> ch \<in> {10, 13, 9, 8, 12}"

definition is_valid_string_character :: "int \<Rightarrow> bool" where
  "is_valid_string_character ch \<longleftrightarrow> 32 \<le> ch"

definition is_url_start :: "rstr \<Rightarrow> bool" where
  "is_url_start s \<longleftrightarrow> 7 \<le> length s \<and>
     (starts_with s (lit ''http://'') \<or> starts_with s (lit ''https://'') \<or> starts_with s (lit ''ftp://'')
      \<or> starts_with s (lit ''mailto:'') \<or> starts_with s (lit ''file://'') \<or> starts_with s (lit ''data:'')
      \<or> starts_with s (lit ''irc://''))"

definition is_url_char :: "int \<Rightarrow> bool" where
  "is_url_char ch \<longleftrightarrow> is_ascii_letter ch \<or> (48 \<le> ch \<and> ch \<le> 57) \<or> ch \<in> set (lit ''-._~:/?#@!$&'' @ [39] @ lit ''()*+;='')"

definition end_quote_matches :: "int \<Rightarrow> int \<Rightarrow> bool" where
  "end_quote_matches quote_char ch \<longleftrightarrow>
     (if quote_char = 34 then ch = 34
      else if quote_char = 39 then ch = 39
      else if quote_char = 8216 \<or> quote_char = 8217 then ch = 8216 \<or> ch = 8217
      else if quote_char = 8220 \<or> quote_char = 8221 then ch = 8220 \<or> ch = 8221
      else if quote_char = 96 \<or> quote_char = 180 then ch = 96 \<or> ch = 180 \<or> ch = 39
      else ch = 34)"

definition get_control_character_escape :: "int \<Rightarrow> rstr" where
  "get_control_character_escape ch =
     (if ch = 8 then lit [CHR 92, CHR ''b''] else if ch = 12 then lit [CHR 92, CHR ''f'']
      else if ch = 10 then lit [CHR 92, CHR ''n''] else if ch = 13 then lit [CHR 92, CHR ''r'']
      else if ch = 9 then lit [CHR 92, CHR ''t''] else [ch])"

text \<open>\<open>str::parse::<f64>\<close> accepts a text: an optional sign, then \<open>inf\<close>, \<open>infinity\<close> or \<open>nan\<close> in any case, or digits with
  at most one point among them and an optional exponent.\<close>

definition drop_sign :: "rstr \<Rightarrow> rstr" where
  "drop_sign s = (case s of c # t \<Rightarrow> if c = 43 \<or> c = 45 then t else s | [] \<Rightarrow> s)"

definition parses_as_f64 :: "rstr \<Rightarrow> bool" where
  "parses_as_f64 s =
     (let t = drop_sign s; digit = (\<lambda>c. 48 \<le> c \<and> c \<le> 57);
          whole = takeWhile digit t; t1 = dropWhile digit t;
          frac = (case t1 of c # u \<Rightarrow> if c = 46 then takeWhile digit u else [] | [] \<Rightarrow> []);
          t2 = (case t1 of c # u \<Rightarrow> if c = 46 then dropWhile digit u else t1 | [] \<Rightarrow> t1)
      in map ascii_lower t \<in> {lit ''inf'', lit ''infinity'', lit ''nan''}
         \<or> ((whole \<noteq> [] \<or> frac \<noteq> []) \<and>
            (case t2 of [] \<Rightarrow> True
             | c # u \<Rightarrow> (c = 101 \<or> c = 69) \<and> drop_sign u \<noteq> [] \<and> list_all digit (drop_sign u))))"

section \<open>The parser\<close>

record parser_state =
  jp_i :: nat
  jp_out :: rstr

datatype 'e json_repair_error =
    InvalidCharacter int nat
  | UnexpectedCharacter int nat
  | UnexpectedEnd nat
  | ObjectKeyExpected nat
  | ColonExpected nat
  | InvalidUnicodeCharacter rstr nat
  | JsonError 'e

type_synonym 'e repair_result = "('e json_repair_error + bool \<times> parser_state) option"

abbreviation done_with :: "bool \<Rightarrow> parser_state \<Rightarrow> 'e repair_result" where
  "done_with b s \<equiv> Some (Inr (b, s))"

text \<open>The operator \<open>?\<close>, and \<open>a()? || b()?\<close>.\<close>

definition and_then :: "'e repair_result \<Rightarrow> (bool \<Rightarrow> parser_state \<Rightarrow> 'e repair_result) \<Rightarrow> 'e repair_result" where
  "and_then m f = Option.bind m (\<lambda>r. case r of Inl e \<Rightarrow> Some (Inl e) | Inr p \<Rightarrow> f (fst p) (snd p))"

definition or_try :: "'e repair_result \<Rightarrow> (parser_state \<Rightarrow> 'e repair_result) \<Rightarrow> 'e repair_result" where
  "or_try m f = and_then m (\<lambda>processed s. if processed then done_with True s else f s)"

definition char_at :: "rstr \<Rightarrow> parser_state \<Rightarrow> int option" where
  "char_at cs s = get_at cs (jp_i s)"

definition push :: "rstr \<Rightarrow> parser_state \<Rightarrow> parser_state" where
  "push t s = s\<lparr>jp_out := jp_out s @ t\<rparr>"

definition goto :: "nat \<Rightarrow> parser_state \<Rightarrow> parser_state" where
  "goto i s = s\<lparr>jp_i := i\<rparr>"

definition skip :: "nat \<Rightarrow> parser_state \<Rightarrow> parser_state" where
  "skip n s = s\<lparr>jp_i := jp_i s + n\<rparr>"

text \<open>\<open>chars.get(a..b)\<close> collected, empty out of range.\<close>

definition text_between :: "rstr \<Rightarrow> nat \<Rightarrow> nat \<Rightarrow> rstr" where
  "text_between cs a b = (case get_range cs a b of Some t \<Rightarrow> t | None \<Rightarrow> [])"

text \<open>The loops \<open>while self.i < self.chars.len() && p { self.i += 1 }\<close>: \<open>p\<close> looks at the character, or at the position.\<close>

definition skip_while :: "(int \<Rightarrow> bool) \<Rightarrow> rstr \<Rightarrow> nat \<Rightarrow> nat" where
  "skip_while p cs i = i + length (takeWhile p (drop i cs))"

fun advance :: "(nat \<Rightarrow> bool) \<Rightarrow> nat \<Rightarrow> nat \<Rightarrow> nat" where
  "advance p 0 i = i"
| "advance p (Suc n) i = (if p i then advance p n (Suc i) else i)"

definition advance_while :: "(nat \<Rightarrow> bool) \<Rightarrow> rstr \<Rightarrow> nat \<Rightarrow> nat" where
  "advance_while p cs i = advance p (length cs - i) i"

section \<open>White space and comments\<close>

definition parse_whitespace :: "bool \<Rightarrow> rstr \<Rightarrow> parser_state \<Rightarrow> parser_state" where
  "parse_whitespace skip_newline cs s =
     (let ws = takeWhile (\<lambda>c. json_ws c skip_newline \<or> is_special_whitespace c) (drop (jp_i s) cs)
      in push (map (\<lambda>c. if json_ws c skip_newline then c else 32) ws) (skip (length ws) s))"

definition at_end_of_block_comment :: "rstr \<Rightarrow> nat \<Rightarrow> bool" where
  "at_end_of_block_comment cs i \<longleftrightarrow> get_at cs i = Some 42 \<and> get_at cs (i + 1) = Some 47"

definition parse_comment :: "rstr \<Rightarrow> parser_state \<Rightarrow> bool \<times> parser_state" where
  "parse_comment cs s =
     (if char_at cs s = Some 47 \<and> get_at cs (jp_i s + 1) = Some 42 then
        (True, goto (advance_while (\<lambda>i. \<not> at_end_of_block_comment cs i) cs (jp_i s) + 2) s)
      else if char_at cs s = Some 47 \<and> get_at cs (jp_i s + 1) = Some 47 then
        (True, goto (skip_while (\<lambda>c. c \<noteq> 10) cs (jp_i s)) s)
      else (False, s))"

lemma advance_le: "i \<le> advance p n i"
  by (induction p n i rule: advance.induct) auto

lemma parse_comment_progress: "parse_comment cs s = (True, s') \<Longrightarrow> jp_i s < jp_i s' \<and> jp_i s < length cs \<and> jp_out s' = jp_out s"
  using advance_le [of "jp_i s"]
  by (auto simp: parse_comment_def char_at_def goto_def advance_while_def skip_while_def less_Suc_eq_le le_SucI
      Cons_nth_drop_Suc [symmetric] split: if_splits)

function skip_comments :: "bool \<Rightarrow> rstr \<Rightarrow> parser_state \<Rightarrow> parser_state" where
  "skip_comments skip_newline cs s =
     (if fst (parse_comment cs s)
      then skip_comments skip_newline cs (parse_whitespace skip_newline cs (snd (parse_comment cs s)))
      else s)"
  by pat_completeness auto

termination
proof (relation "measure (\<lambda>(nl, cs, s). length cs - jp_i s)", goal_cases)
  case (2 nl cs s)
  then show ?case
    using parse_comment_progress [of cs s "snd (parse_comment cs s)"]
    by (cases "parse_comment cs s") (auto simp: parse_whitespace_def push_def skip_def Let_def)
qed simp

declare skip_comments.simps [simp del]

definition skip_ws :: "bool \<Rightarrow> rstr \<Rightarrow> parser_state \<Rightarrow> parser_state" where
  "skip_ws skip_newline cs s = skip_comments skip_newline cs (parse_whitespace skip_newline cs s)"

lemma parse_whitespace_progress: "jp_i s \<le> jp_i (parse_whitespace nl cs s)"
  by (simp add: parse_whitespace_def push_def skip_def Let_def)

lemma skip_comments_progress: "jp_i s \<le> jp_i (skip_comments nl cs s)"
proof (induction nl cs s rule: skip_comments.induct)
  case (1 nl cs s)
  show ?case
  proof (cases "fst (parse_comment cs s)")
    case True
    then have "jp_i s < jp_i (snd (parse_comment cs s))"
      using parse_comment_progress [of cs s "snd (parse_comment cs s)"] by (cases "parse_comment cs s") simp
    then show ?thesis
      using 1 [OF True] parse_whitespace_progress [of "snd (parse_comment cs s)" nl cs] True
      by (subst skip_comments.simps) simp
  qed (simp add: skip_comments.simps)
qed

lemma skip_ws_progress: "jp_i s \<le> jp_i (skip_ws nl cs s)"
  unfolding skip_ws_def using parse_whitespace_progress skip_comments_progress by (rule order_trans)

section \<open>Markers and single characters\<close>

fun skip_markdown_code_block :: "rstr list \<Rightarrow> rstr \<Rightarrow> parser_state \<Rightarrow> bool \<times> parser_state" where
  "skip_markdown_code_block [] cs s = (False, s)"
| "skip_markdown_code_block (b # bs) cs s =
     (if get_range cs (jp_i s) (jp_i s + length b) = Some b then (True, skip (length b) s)
      else skip_markdown_code_block bs cs s)"

definition parse_markdown_code_block :: "rstr list \<Rightarrow> rstr \<Rightarrow> parser_state \<Rightarrow> parser_state" where
  "parse_markdown_code_block blocks cs s =
     (let (found, s) = skip_markdown_code_block blocks cs s
      in if found
         then skip_ws True cs
           (if is_function_name_char_start (char_at cs s)
            then goto (skip_while (\<lambda>c. is_function_name_char (Some c)) cs (jp_i s)) s else s)
         else s)"

definition parse_character :: "int \<Rightarrow> rstr \<Rightarrow> parser_state \<Rightarrow> bool \<times> parser_state" where
  "parse_character expected cs s =
     (if char_at cs s = Some expected then (True, skip 1 (push [expected] s)) else (False, s))"

definition skip_character :: "int \<Rightarrow> rstr \<Rightarrow> parser_state \<Rightarrow> bool \<times> parser_state" where
  "skip_character expected cs s = (if char_at cs s = Some expected then (True, skip 1 s) else (False, s))"

definition skip_ellipsis :: "rstr \<Rightarrow> parser_state \<Rightarrow> parser_state" where
  "skip_ellipsis cs s =
     (let s = skip_ws True cs s
      in if char_at cs s = Some 46 \<and> get_at cs (jp_i s + 1) = Some 46 \<and> get_at cs (jp_i s + 2) = Some 46
         then snd (skip_character 44 cs (skip_ws True cs (skip 3 s)))
         else s)"

section \<open>The output\<close>

definition insert_before_last_whitespace_str :: "rstr \<Rightarrow> rstr \<Rightarrow> rstr" where
  "insert_before_last_whitespace_str t t' =
     (let n = length t - length (takeWhile (\<lambda>c. json_ws c True) (rev t)) in take n t @ t' @ drop n t)"

definition insert_before_last_whitespace :: "rstr \<Rightarrow> parser_state \<Rightarrow> parser_state" where
  "insert_before_last_whitespace t s = s\<lparr>jp_out := insert_before_last_whitespace_str (jp_out s) t\<rparr>"

definition strip_last_occurrence_with_remaining :: "rstr \<Rightarrow> bool \<Rightarrow> parser_state \<Rightarrow> parser_state" where
  "strip_last_occurrence_with_remaining t strip_remaining s =
     (case str_rfind (jp_out s) t of
        Some k \<Rightarrow> s\<lparr>jp_out := take k (jp_out s) @ (if strip_remaining then [] else drop (k + length t) (jp_out s))\<rparr>
      | None \<Rightarrow> s)"

definition strip_last_occurrence :: "rstr \<Rightarrow> parser_state \<Rightarrow> parser_state" where
  "strip_last_occurrence t = strip_last_occurrence_with_remaining t False"

definition remove_at_index :: "nat \<Rightarrow> nat \<Rightarrow> parser_state \<Rightarrow> parser_state" where
  "remove_at_index start count s = s\<lparr>jp_out := take start (jp_out s) @ drop (start + count) (jp_out s)\<rparr>"

text \<open>The regular expression: a comma or a line feed, then blanks, tabs and carriage returns up to the end.\<close>

definition ends_with_comma_or_newline :: "parser_state \<Rightarrow> bool" where
  "ends_with_comma_or_newline s \<longleftrightarrow>
     (case dropWhile (\<lambda>c. c \<in> {32, 9, 13}) (rev (jp_out s)) of c # _ \<Rightarrow> c = 44 \<or> c = 10 | [] \<Rightarrow> False)"

text \<open>Back from a position over white space; not from a position behind the end.\<close>

fun prev_non_whitespace_index :: "rstr \<Rightarrow> nat \<Rightarrow> nat" where
  "prev_non_whitespace_index cs 0 = 0"
| "prev_non_whitespace_index cs (Suc prev) =
     (case get_at cs (Suc prev) of
        Some c \<Rightarrow> if json_ws c True then prev_non_whitespace_index cs prev else Suc prev
      | None \<Rightarrow> Suc prev)"

section \<open>Numbers, keywords, regular expressions\<close>

definition at_end_of_number :: "rstr \<Rightarrow> nat \<Rightarrow> bool" where
  "at_end_of_number cs i \<longleftrightarrow> length cs \<le> i \<or> is_delimiter (get_at cs i)
     \<or> (case get_at cs i of Some c \<Rightarrow> json_ws c True | None \<Rightarrow> False)"

definition repair_number_ending_with_numeric_symbol :: "rstr \<Rightarrow> nat \<Rightarrow> parser_state \<Rightarrow> parser_state" where
  "repair_number_ending_with_numeric_symbol cs start s = push (text_between cs start (jp_i s) @ [48]) s"

text \<open>The three parts of a number, each with its two early returns, and the end.\<close>

definition digits_from :: "rstr \<Rightarrow> nat \<Rightarrow> nat" where
  "digits_from cs i = skip_while (\<lambda>c. is_digit (Some c)) cs i"

definition number_end :: "(rstr \<Rightarrow> rstr) \<Rightarrow> rstr \<Rightarrow> parser_state \<Rightarrow> nat \<Rightarrow> bool \<times> parser_state" where
  "number_end quote cs s i =
     (if \<not> at_end_of_number cs i then (False, s)
      else if jp_i s < i then
        let num = text_between cs (jp_i s) i;
            has_invalid_leading_zero = 1 < length num \<and> starts_with num [48] \<and> is_digit (get_at num 1)
        in (True, push (if has_invalid_leading_zero then quote num else num) (goto i s))
      else (False, goto i s))"

definition number_part ::
  "rstr \<Rightarrow> parser_state \<Rightarrow> nat \<Rightarrow> (nat \<Rightarrow> bool \<times> parser_state) \<Rightarrow> bool \<times> parser_state" where
  "number_part cs s i continue =
     (if at_end_of_number cs i then (True, repair_number_ending_with_numeric_symbol cs (jp_i s) (goto i s))
      else if \<not> is_digit (get_at cs i) then (False, s)
      else continue (digits_from cs i))"

definition number_exponent :: "(rstr \<Rightarrow> rstr) \<Rightarrow> rstr \<Rightarrow> parser_state \<Rightarrow> nat \<Rightarrow> bool \<times> parser_state" where
  "number_exponent quote cs s i =
     (if get_at cs i \<in> {Some 101, Some 69}
      then number_part cs s (if get_at cs (i + 1) \<in> {Some 45, Some 43} then i + 2 else i + 1) (number_end quote cs s)
      else number_end quote cs s i)"

definition number_fraction :: "(rstr \<Rightarrow> rstr) \<Rightarrow> rstr \<Rightarrow> parser_state \<Rightarrow> nat \<Rightarrow> bool \<times> parser_state" where
  "number_fraction quote cs s i =
     (if get_at cs i = Some 46 then number_part cs s (i + 1) (number_exponent quote cs s)
      else number_exponent quote cs s i)"

definition parse_number :: "(rstr \<Rightarrow> rstr) \<Rightarrow> rstr \<Rightarrow> parser_state \<Rightarrow> bool \<times> parser_state" where
  "parse_number quote cs s =
     (if char_at cs s = Some 45 then number_part cs s (jp_i s + 1) (number_fraction quote cs s)
      else number_fraction quote cs s (digits_from cs (jp_i s)))"

definition parse_keyword :: "rstr \<Rightarrow> rstr \<Rightarrow> rstr \<Rightarrow> parser_state \<Rightarrow> bool \<times> parser_state" where
  "parse_keyword name val cs s =
     (if get_range cs (jp_i s) (jp_i s + length name) = Some name
      then (True, skip (length name) (push val s)) else (False, s))"

fun first_keyword :: "(rstr \<times> rstr) list \<Rightarrow> rstr \<Rightarrow> parser_state \<Rightarrow> bool \<times> parser_state" where
  "first_keyword [] cs s = (False, s)"
| "first_keyword ((name, val) # ks) cs s =
     (let (found, s) = parse_keyword name val cs s in if found then (True, s) else first_keyword ks cs s)"

definition parse_keywords :: "rstr \<Rightarrow> parser_state \<Rightarrow> bool \<times> parser_state" where
  "parse_keywords =
     first_keyword [(lit ''true'', lit ''true''), (lit ''false'', lit ''false''), (lit ''null'', lit ''null''),
       (lit ''True'', lit ''true''), (lit ''False'', lit ''false''), (lit ''None'', lit ''null'')]"

definition parse_regex :: "(rstr \<Rightarrow> rstr) \<Rightarrow> rstr \<Rightarrow> parser_state \<Rightarrow> bool \<times> parser_state" where
  "parse_regex quote cs s =
     (if char_at cs s = Some 47 then
        let start = jp_i s;
            i = advance_while (\<lambda>i. get_at cs i \<noteq> Some 47 \<or> (0 < i \<and> get_at cs (i - 1) = Some 92)) cs (start + 1);
            i = (if i < length cs then i + 1 else i)
        in (True, push (quote (text_between cs start i)) (goto i s))
      else (False, s))"

section \<open>The functions that call each other\<close>

text \<open>The locals of the loop in \<open>parse_string\<close>.\<close>

record string_locals =
  sl_stop_at_delimiter :: bool
  sl_stop_at_index :: "nat option"
  sl_skip_escape_chars :: bool
  sl_quote_char :: int
  sl_i_before :: nat
  sl_o_before :: nat
  sl_str_content :: rstr

datatype repair_call =
    CValue
  | CObject
  | CObjectLoop bool
  | CArray
  | CArrayLoop bool
  | CString bool "nat option"
  | CStringLoop string_locals
  | CConcatenated bool
  | CUnquoted bool

type_synonym 'e repair_rec = "repair_call \<Rightarrow> parser_state \<Rightarrow> 'e repair_result"

abbreviation pure_step :: "(parser_state \<Rightarrow> bool \<times> parser_state) \<Rightarrow> parser_state \<Rightarrow> 'e repair_result" where
  "pure_step f s \<equiv> Some (Inr (f s))"

definition parse_value :: "(rstr \<Rightarrow> rstr) \<Rightarrow> rstr \<Rightarrow> 'e repair_rec \<Rightarrow> parser_state \<Rightarrow> 'e repair_result" where
  "parse_value quote cs rec s =
     and_then
       (or_try (or_try (or_try (or_try (or_try (or_try
         (rec CObject (skip_ws True cs s))
         (rec CArray))
         (rec (CString False None)))
         (pure_step (parse_number quote cs)))
         (pure_step (parse_keywords cs)))
         (rec (CUnquoted False)))
         (pure_step (parse_regex quote cs)))
       (\<lambda>processed s. done_with processed (skip_ws True cs s))"

text \<open>The ends of \<open>parse_object\<close> and of \<open>parse_array\<close>, after their loops.\<close>

definition close_bracket :: "int \<Rightarrow> rstr \<Rightarrow> parser_state \<Rightarrow> 'e repair_result" where
  "close_bracket bracket cs s =
     (if char_at cs s = Some bracket then done_with True (skip 1 (push [bracket] s))
      else done_with True (insert_before_last_whitespace [bracket] s))"

text \<open>The beginnings: the bracket, and a comma that should not be there.\<close>

definition open_bracket :: "int \<Rightarrow> rstr \<Rightarrow> parser_state \<Rightarrow> parser_state" where
  "open_bracket bracket cs s =
     (let s = skip_ws True cs (skip 1 (push [bracket] s));
          (comma, s) = skip_character 44 cs s
      in if comma then skip_ws True cs s else s)"

definition parse_object :: "rstr \<Rightarrow> 'e repair_rec \<Rightarrow> parser_state \<Rightarrow> 'e repair_result" where
  "parse_object cs rec s =
     (if char_at cs s \<noteq> Some 123 then done_with False s else rec (CObjectLoop True) (open_bracket 123 cs s))"

definition comma_or_repair :: "rstr \<Rightarrow> parser_state \<Rightarrow> parser_state" where
  "comma_or_repair cs s =
     (let (comma, s) = parse_character 44 cs s in if comma then s else insert_before_last_whitespace [44] s)"

definition object_member :: "rstr \<Rightarrow> 'e repair_rec \<Rightarrow> parser_state \<Rightarrow> 'e repair_result" where
  "object_member cs rec s =
     (let s = skip_ws True cs s;
          (processed_colon, s) = parse_character 58 cs s;
          truncated_text = (length cs \<le> jp_i s)
      in if \<not> processed_colon \<and> \<not> (is_start_of_value (char_at cs s) \<or> truncated_text)
         then Some (Inl (ColonExpected (jp_i s)))
         else and_then (rec CValue (if processed_colon then s else insert_before_last_whitespace [58] s))
           (\<lambda>processed_value s.
             if processed_value then rec (CObjectLoop False) s
             else if processed_colon \<or> truncated_text then rec (CObjectLoop False) (push (lit ''null'') s)
             else Some (Inl (ColonExpected (jp_i s)))))"

definition object_loop :: "rstr \<Rightarrow> 'e repair_rec \<Rightarrow> bool \<Rightarrow> parser_state \<Rightarrow> 'e repair_result" where
  "object_loop cs rec initial s =
     (if jp_i s < length cs \<and> char_at cs s \<noteq> Some 125 then
        let s = (if initial then s else skip_ws True cs (comma_or_repair cs s))
        in and_then (or_try (rec (CString False None) (skip_ellipsis cs s)) (rec (CUnquoted True)))
          (\<lambda>processed_key s.
            if processed_key then object_member cs rec s
            else if char_at cs s \<in> {Some 125, Some 123, Some 93, Some 91, None}
            then close_bracket 125 cs (strip_last_occurrence [44] s)
            else Some (Inl (ObjectKeyExpected (jp_i s))))
      else close_bracket 125 cs s)"

definition parse_array :: "rstr \<Rightarrow> 'e repair_rec \<Rightarrow> parser_state \<Rightarrow> 'e repair_result" where
  "parse_array cs rec s =
     (if char_at cs s \<noteq> Some 91 then done_with False s else rec (CArrayLoop True) (open_bracket 91 cs s))"

definition array_loop :: "rstr \<Rightarrow> 'e repair_rec \<Rightarrow> bool \<Rightarrow> parser_state \<Rightarrow> 'e repair_result" where
  "array_loop cs rec initial s =
     (if jp_i s < length cs \<and> char_at cs s \<noteq> Some 93 then
        and_then (rec CValue (skip_ellipsis cs (if initial then s else comma_or_repair cs s)))
          (\<lambda>processed_value s.
            if processed_value then rec (CArrayLoop False) s
            else close_bracket 93 cs (strip_last_occurrence [44] s))
      else close_bracket 93 cs s)"

definition parse_string ::
  "rstr \<Rightarrow> 'e repair_rec \<Rightarrow> bool \<Rightarrow> nat option \<Rightarrow> parser_state \<Rightarrow> 'e repair_result" where
  "parse_string cs rec stop_at_delimiter stop_at_index s =
     (let skip_escape_chars = (char_at cs s = Some 92);
          s = (if skip_escape_chars then skip 1 s else s)
      in if \<not> is_quote (char_at cs s) then done_with False s
         else case char_at cs s of
             None \<Rightarrow> None
           | Some quote_char \<Rightarrow>
               rec (CStringLoop \<lparr>sl_stop_at_delimiter = stop_at_delimiter, sl_stop_at_index = stop_at_index,
                 sl_skip_escape_chars = skip_escape_chars, sl_quote_char = quote_char, sl_i_before = jp_i s,
                 sl_o_before = length (jp_out s), sl_str_content = [34]\<rparr>) (skip 1 s))"

text \<open>The string ends here: its missing end quote is added.\<close>

definition push_closed :: "string_locals \<Rightarrow> parser_state \<Rightarrow> parser_state" where
  "push_closed l s = push (insert_before_last_whitespace_str (sl_str_content l) [34]) s"

text \<open>Back to the start of the string, to parse it again in another mode.\<close>

definition retry_string ::
  "'e repair_rec \<Rightarrow> string_locals \<Rightarrow> bool \<Rightarrow> nat option \<Rightarrow> parser_state \<Rightarrow> 'e repair_result" where
  "retry_string rec l stop_at_delimiter stop_at_index s =
     rec (CString stop_at_delimiter stop_at_index)
       \<lparr>jp_i = sl_i_before l, jp_out = take (sl_o_before l) (jp_out s)\<rparr>"

definition parse_concatenated_string :: "rstr \<Rightarrow> 'e repair_rec \<Rightarrow> parser_state \<Rightarrow> 'e repair_result" where
  "parse_concatenated_string cs rec s = rec (CConcatenated False) (skip_ws True cs s)"

definition concatenated_loop :: "rstr \<Rightarrow> 'e repair_rec \<Rightarrow> bool \<Rightarrow> parser_state \<Rightarrow> 'e repair_result" where
  "concatenated_loop cs rec processed s =
     (if char_at cs s = Some 43 then
        let s = strip_last_occurrence_with_remaining [34] True (skip_ws True cs (skip 1 s));
            start = utf8_len (jp_out s)
        in and_then (rec (CString False None) s) (\<lambda>parsed_str s.
             rec (CConcatenated True)
               (if parsed_str then remove_at_index start 1 s else insert_before_last_whitespace [34] s))
      else done_with processed s)"

text \<open>The end of an iteration of the loop in \<open>parse_string\<close>, with what was added to the content.\<close>

definition next_char ::
  "rstr \<Rightarrow> 'e repair_rec \<Rightarrow> string_locals \<Rightarrow> rstr \<Rightarrow> parser_state \<Rightarrow> 'e repair_result" where
  "next_char cs rec l t s =
     rec (CStringLoop (l\<lparr>sl_str_content := sl_str_content l @ t\<rparr>))
       (if sl_skip_escape_chars l \<and> char_at cs s = Some 92 then skip 1 s else s)"

text \<open>A character that ends the string, if what follows shows that it does.\<close>

definition string_end_quote ::
  "rstr \<Rightarrow> 'e repair_rec \<Rightarrow> string_locals \<Rightarrow> parser_state \<Rightarrow> 'e repair_result" where
  "string_end_quote cs rec l s =
     (let i_quote = jp_i s;
          s' = skip_ws False cs (push (sl_str_content l @ [34]) (skip 1 s));
          i_prev_char = prev_non_whitespace_index cs (i_quote - 1);
          prev_char = get_at cs i_prev_char
      in if sl_stop_at_delimiter l \<or> length cs \<le> jp_i s' \<or> is_delimiter (char_at cs s')
            \<or> is_quote (char_at cs s') \<or> is_digit (char_at cs s')
         then and_then (parse_concatenated_string cs rec s') (\<lambda>_. done_with True)
         else if prev_char = Some 44 then retry_string rec l False (Some i_prev_char) s'
         else if is_delimiter prev_char then retry_string rec l True None s'
         else next_char cs rec l [92, 34] \<lparr>jp_i = i_quote + 1, jp_out = take (sl_o_before l) (jp_out s')\<rparr>)"

text \<open>A delimiter in the mode that stops there, unless it is part of an address.\<close>

definition string_delimiter ::
  "rstr \<Rightarrow> 'e repair_rec \<Rightarrow> string_locals \<Rightarrow> parser_state \<Rightarrow> 'e repair_result" where
  "string_delimiter cs rec l s =
     (let url_candidate =
            (if get_at cs (jp_i s - 1) = Some 58 \<and> sl_i_before l + 1 < length cs \<and> jp_i s + 2 \<le> length cs
             then get_range cs (sl_i_before l + 1) (jp_i s + 2) else None);
          i = (case url_candidate of
              Some u \<Rightarrow> if is_url_start u then skip_while is_url_char cs (jp_i s) else jp_i s
            | None \<Rightarrow> jp_i s);
          l = l\<lparr>sl_str_content := sl_str_content l @ text_between cs (jp_i s) i\<rparr>
      in and_then (parse_concatenated_string cs rec (push_closed l (goto i s))) (\<lambda>_. done_with True))"

definition hex_run :: "rstr \<Rightarrow> nat \<Rightarrow> nat" where
  "hex_run cs i = 2 + length (takeWhile is_hex (take 4 (drop (i + 2) cs)))"

definition string_escape ::
  "rstr \<Rightarrow> 'e repair_rec \<Rightarrow> string_locals \<Rightarrow> parser_state \<Rightarrow> 'e repair_result" where
  "string_escape cs rec l s =
     (let i = jp_i s
      in case get_at cs (i + 1) of
           None \<Rightarrow> next_char cs rec l [] (skip 1 s)
         | Some next \<Rightarrow>
             if next \<in> {34, 92, 47, 98, 102, 110, 114, 116} then next_char cs rec l [92, next] (skip 2 s)
             else if next = 44 \<and> sl_skip_escape_chars l
             then done_with True (skip_ws True cs (skip 2 (push [44] (push_closed l s))))
             else if next = 117 then
               (let j = hex_run cs i
                in if j = 6 then next_char cs rec l (text_between cs i (i + 6)) (skip 6 s)
                   else if length cs \<le> i + j then next_char cs rec l [] (goto (length cs) s)
                   else Some (Inl (InvalidUnicodeCharacter (text_between cs i (i + min j 6)) i)))
             else next_char cs rec l [next] (skip 2 s))"

definition string_char ::
  "rstr \<Rightarrow> 'e repair_rec \<Rightarrow> string_locals \<Rightarrow> int \<Rightarrow> parser_state \<Rightarrow> 'e repair_result" where
  "string_char cs rec l ch s =
     (if ch = 34 \<and> get_at cs (jp_i s - 1) \<noteq> Some 92 then next_char cs rec l [92, 34] (skip 1 s)
      else if is_control_character ch then next_char cs rec l (get_control_character_escape ch) (skip 1 s)
      else if \<not> is_valid_string_character ch then Some (Inl (InvalidCharacter ch (jp_i s)))
      else next_char cs rec l [ch] (skip 1 s))"

definition string_loop :: "rstr \<Rightarrow> 'e repair_rec \<Rightarrow> string_locals \<Rightarrow> parser_state \<Rightarrow> 'e repair_result" where
  "string_loop cs rec l s =
     (case char_at cs s of
        None \<Rightarrow>
          if \<not> sl_stop_at_delimiter l \<and> is_delimiter (get_at cs (prev_non_whitespace_index cs (jp_i s - 1)))
          then retry_string rec l True None s
          else done_with True (push_closed l s)
      | Some ch \<Rightarrow>
          if sl_stop_at_index l = Some (jp_i s) then done_with True (push_closed l s)
          else if end_quote_matches (sl_quote_char l) ch then string_end_quote cs rec l s
          else if sl_stop_at_delimiter l \<and> is_unquoted_string_delimiter ch then string_delimiter cs rec l s
          else if ch = 92 then string_escape cs rec l s
          else string_char cs rec l ch s)"

text \<open>A text without quotes: a call of a function, whose argument is the value, an address, or a word.\<close>

definition unquoted_end :: "bool \<Rightarrow> rstr \<Rightarrow> nat \<Rightarrow> nat" where
  "unquoted_end is_key cs start =
     (let i = skip_while (\<lambda>c. \<not> (is_unquoted_string_delimiter c \<or> is_quote (Some c) \<or> (is_key \<and> c = 58))) cs start
      in if 0 < i \<and> get_at cs (i - 1) = Some 58 \<and> start < length cs \<and> i + 2 \<le> length cs
            \<and> is_url_start (text_between cs start (i + 2))
         then skip_while is_url_char cs i else i)"

definition trim_blanks :: "rstr \<Rightarrow> rstr" where
  "trim_blanks t = rev (dropWhile (\<lambda>c. json_ws c True) (rev t))"

definition unquoted_symbol :: "(rstr \<Rightarrow> rstr) \<Rightarrow> bool \<Rightarrow> rstr \<Rightarrow> parser_state \<Rightarrow> bool \<times> parser_state" where
  "unquoted_symbol quote is_key cs s =
     (let start = jp_i s; i = unquoted_end is_key cs start
      in if start < i then
           let i = start + length (trim_blanks (text_between cs start i));
               symbol = text_between cs start i;
               s = push (if symbol = lit ''undefined'' then lit ''null''
                         else if is_key then quote symbol
                         else if parses_as_f64 symbol then symbol else quote symbol) (goto i s)
           in (True, if char_at cs s = Some 34 then skip 1 s else s)
         else (False, goto i s))"

text \<open>The argument of a call \<open>name(value);\<close>, where the name and the blanks after it end at \<open>j\<close>.\<close>

definition unquoted_argument :: "rstr \<Rightarrow> 'e repair_rec \<Rightarrow> parser_state \<Rightarrow> 'e repair_result" where
  "unquoted_argument cs rec s =
     and_then (rec CValue s) (\<lambda>_ s.
       done_with True
         (let (closed, s) = skip_character 41 cs s in if closed then snd (skip_character 59 cs s) else s))"

definition parse_unquoted_string ::
  "(rstr \<Rightarrow> rstr) \<Rightarrow> rstr \<Rightarrow> 'e repair_rec \<Rightarrow> bool \<Rightarrow> parser_state \<Rightarrow> 'e repair_result" where
  "parse_unquoted_string quote cs rec is_key s =
     (let j = skip_while (\<lambda>c. json_ws c True) cs (skip_while (\<lambda>c. is_function_name_char (Some c)) cs (jp_i s))
      in if is_function_name_char_start (char_at cs s) \<and> get_at cs j = Some 40
         then unquoted_argument cs rec (goto (j + 1) s)
         else pure_step (unquoted_symbol quote is_key cs) s)"

fun repair_body :: "(rstr \<Rightarrow> rstr) \<Rightarrow> rstr \<Rightarrow> 'e repair_rec \<Rightarrow> repair_call \<Rightarrow> parser_state \<Rightarrow> 'e repair_result" where
  "repair_body quote cs rec CValue s = parse_value quote cs rec s"
| "repair_body quote cs rec CObject s = parse_object cs rec s"
| "repair_body quote cs rec (CObjectLoop initial) s = object_loop cs rec initial s"
| "repair_body quote cs rec CArray s = parse_array cs rec s"
| "repair_body quote cs rec (CArrayLoop initial) s = array_loop cs rec initial s"
| "repair_body quote cs rec (CString stop_at_delimiter stop_at_index) s = parse_string cs rec stop_at_delimiter stop_at_index s"
| "repair_body quote cs rec (CStringLoop l) s = string_loop cs rec l s"
| "repair_body quote cs rec (CConcatenated processed) s = concatenated_loop cs rec processed s"
| "repair_body quote cs rec (CUnquoted is_key) s = parse_unquoted_string quote cs rec is_key s"

text \<open>The bodies are monotone in the recursive calls, so that the recursion through them is well defined.\<close>

abbreviation mono_calls :: "(('a \<Rightarrow> 'b option) \<Rightarrow> 'c option) \<Rightarrow> bool" where
  "mono_calls \<equiv> monotone (fun_ord (flat_ord None)) (flat_ord None)"

lemma and_then_mono [partial_function_mono]:
  assumes "mono_calls m" "\<And>b s. mono_calls (\<lambda>f. g f b s)"
  shows "mono_calls (\<lambda>f. and_then (m f) (g f))"
  unfolding and_then_def
proof (rule Partial_Function.bind_mono [OF assms(1)])
  show "mono_calls (\<lambda>f. case r of Inl e \<Rightarrow> Some (Inl e) | Inr p \<Rightarrow> g f (fst p) (snd p))" for r
    by (cases r) (simp_all add: assms(2) option.const_mono)
qed

lemma if_calls_mono:
  assumes "b \<Longrightarrow> mono_calls m" "\<not> b \<Longrightarrow> mono_calls n"
  shows "mono_calls (\<lambda>f. if b then m f else n f)"
  using assms by (cases b) simp_all

lemma case_option_calls_mono:
  assumes "mono_calls m" "\<And>c. mono_calls (\<lambda>f. n f c)"
  shows "mono_calls (\<lambda>f. case x of None \<Rightarrow> m f | Some c \<Rightarrow> n f c)"
  using assms by (cases x) simp_all

lemma or_try_mono [partial_function_mono]:
  assumes "mono_calls m" "\<And>s. mono_calls (\<lambda>f. g f s)"
  shows "mono_calls (\<lambda>f. or_try (m f) (g f))"
  unfolding or_try_def by (intro and_then_mono if_calls_mono assms option.const_mono)

lemma repair_body_mono [partial_function_mono]:
  assumes "\<And>c s. mono_calls (\<lambda>f. rec f c s)"
  shows "mono_calls (\<lambda>f. repair_body quote cs (rec f) c s)"
proof (cases c)
  case CValue
  show ?thesis
    unfolding CValue repair_body.simps parse_value_def by (intro and_then_mono or_try_mono assms option.const_mono)
next
  case CObject
  show ?thesis
    unfolding CObject repair_body.simps parse_object_def by (intro if_calls_mono assms option.const_mono)
next
  case (CObjectLoop x)
  have member: "mono_calls (\<lambda>f. object_member cs (rec f) s)" for s
    unfolding object_member_def Let_def split_beta
    by (intro if_calls_mono and_then_mono assms option.const_mono)
  show ?thesis
    unfolding CObjectLoop repair_body.simps object_loop_def Let_def
    by (intro if_calls_mono and_then_mono or_try_mono assms member option.const_mono)
next
  case CArray
  show ?thesis
    unfolding CArray repair_body.simps parse_array_def by (intro if_calls_mono assms option.const_mono)
next
  case (CArrayLoop x)
  show ?thesis
    unfolding CArrayLoop repair_body.simps array_loop_def by (intro if_calls_mono and_then_mono assms option.const_mono)
next
  case (CString x y)
  show ?thesis
    unfolding CString repair_body.simps parse_string_def Let_def
    by (intro if_calls_mono case_option_calls_mono assms option.const_mono)
next
  case (CStringLoop l)
  have step: "mono_calls (\<lambda>f. next_char cs (rec f) l t s)" "mono_calls (\<lambda>f. retry_string (rec f) l b k s)"
    "mono_calls (\<lambda>f. parse_concatenated_string cs (rec f) s)" for l t b k s
    by (simp_all add: next_char_def retry_string_def parse_concatenated_string_def assms)
  have "mono_calls (\<lambda>f. string_end_quote cs (rec f) l s)" for s
    unfolding string_end_quote_def Let_def by (intro if_calls_mono and_then_mono step option.const_mono)
  moreover have "mono_calls (\<lambda>f. string_delimiter cs (rec f) l s)" for s
    unfolding string_delimiter_def Let_def by (intro and_then_mono step option.const_mono)
  moreover have "mono_calls (\<lambda>f. string_escape cs (rec f) l s)" for s
    unfolding string_escape_def Let_def by (intro if_calls_mono case_option_calls_mono step option.const_mono)
  moreover have "mono_calls (\<lambda>f. string_char cs (rec f) l ch s)" for ch s
    unfolding string_char_def by (intro if_calls_mono step option.const_mono)
  ultimately show ?thesis
    unfolding CStringLoop repair_body.simps string_loop_def
    by (intro if_calls_mono case_option_calls_mono step option.const_mono)
next
  case (CConcatenated x)
  show ?thesis
    unfolding CConcatenated repair_body.simps concatenated_loop_def Let_def by (intro if_calls_mono and_then_mono assms option.const_mono)
next
  case (CUnquoted x)
  show ?thesis
    unfolding CUnquoted repair_body.simps parse_unquoted_string_def unquoted_argument_def Let_def
    by (intro if_calls_mono and_then_mono assms option.const_mono)
qed

partial_function (option) repair_run :: "(rstr \<Rightarrow> rstr) \<Rightarrow> rstr \<Rightarrow> repair_call \<Rightarrow> parser_state \<Rightarrow> 'e repair_result" where
  "repair_run quote cs c s = repair_body quote cs (\<lambda>c s. repair_run quote cs c s) c s"

section \<open>The whole text\<close>

partial_function (option) newline_loop ::
  "(rstr \<Rightarrow> rstr) \<Rightarrow> rstr \<Rightarrow> bool \<Rightarrow> parser_state \<Rightarrow> 'e repair_result" where
  "newline_loop quote cs initial s =
     and_then (repair_run quote cs CValue (if initial then s else comma_or_repair cs s))
       (\<lambda>processed_value s. if processed_value then newline_loop quote cs False s else done_with False s)"

definition parse_newline_delimited_json :: "(rstr \<Rightarrow> rstr) \<Rightarrow> rstr \<Rightarrow> parser_state \<Rightarrow> 'e repair_result" where
  "parse_newline_delimited_json quote cs s =
     and_then (newline_loop quote cs True s) (\<lambda>_ s.
       let s = strip_last_occurrence [44] s
       in done_with True (s\<lparr>jp_out := [91, 10] @ jp_out s @ [10, 93]\<rparr>))"

text \<open>Closing brackets that are left over.\<close>

function skip_redundant :: "rstr \<Rightarrow> parser_state \<Rightarrow> parser_state" where
  "skip_redundant cs s =
     (if char_at cs s \<in> {Some 125, Some 93} then skip_redundant cs (skip_ws True cs (skip 1 s)) else s)"
  by pat_completeness auto

termination
proof (relation "measure (\<lambda>(cs, s). length cs - jp_i s)", goal_cases)
  case (2 cs s)
  then show ?case
    using skip_ws_progress [of "skip 1 s" True cs] by (auto simp: char_at_def get_at_def skip_def split: if_splits)
qed simp

declare skip_redundant.simps [simp del]

text \<open>Up to the end of \<open>parse\<close>: values on lines of their own, or a comma that should not be there.\<close>

definition repair_rest :: "(rstr \<Rightarrow> rstr) \<Rightarrow> rstr \<Rightarrow> parser_state \<Rightarrow> 'e repair_result" where
  "repair_rest quote cs s =
     (let s = parse_markdown_code_block [lit ''```'', lit ''```]'', lit ''```}''] cs s;
          (processed_comma, s) = parse_character 44 cs s;
          s = (if processed_comma then skip_ws True cs s else s)
      in if is_start_of_value (char_at cs s) \<and> ends_with_comma_or_newline s
         then parse_newline_delimited_json quote cs (if processed_comma then s else insert_before_last_whitespace [44] s)
         else done_with True (if processed_comma then strip_last_occurrence [44] s else s))"

definition json_repair :: "(rstr \<Rightarrow> rstr) \<Rightarrow> (rstr \<Rightarrow> 'e + 'd) \<Rightarrow> rstr \<Rightarrow> ('e json_repair_error + 'd) option" where
  "json_repair quote de cs =
     map_option (\<lambda>r. case r of
         Inl e \<Rightarrow> Inl e
       | Inr (_, s) \<Rightarrow>
           let s = skip_redundant cs s
           in if length cs \<le> jp_i s
              then (case de (jp_out s) of Inl e \<Rightarrow> Inl (JsonError e) | Inr v \<Rightarrow> Inr v)
              else Inl (UnexpectedCharacter (case char_at cs s of Some c \<Rightarrow> c | None \<Rightarrow> 0) (jp_i s)))
       (and_then (repair_run quote cs CValue
           (parse_markdown_code_block [lit ''```'', lit ''[```'', lit ''{```''] cs \<lparr>jp_i = 0, jp_out = []\<rparr>))
         (\<lambda>processed s.
           if processed then repair_rest quote cs s else Some (Inl (UnexpectedEnd (length cs)))))"

declare repair_run.simps [code] newline_loop.simps [code]

text \<open>The recursion, call by call.\<close>

lemma repair_calls:
  "repair_run quote cs CValue s = parse_value quote cs (repair_run quote cs) s"
  "repair_run quote cs CObject s = parse_object cs (repair_run quote cs) s"
  "repair_run quote cs (CObjectLoop initial) s = object_loop cs (repair_run quote cs) initial s"
  "repair_run quote cs CArray s = parse_array cs (repair_run quote cs) s"
  "repair_run quote cs (CArrayLoop initial) s = array_loop cs (repair_run quote cs) initial s"
  "repair_run quote cs (CString b k) s = parse_string cs (repair_run quote cs) b k s"
  "repair_run quote cs (CStringLoop l) s = string_loop cs (repair_run quote cs) l s"
  "repair_run quote cs (CConcatenated processed) s = concatenated_loop cs (repair_run quote cs) processed s"
  "repair_run quote cs (CUnquoted is_key) s = parse_unquoted_string quote cs (repair_run quote cs) is_key s"
  by (subst repair_run.simps, simp)+

section \<open>Two runs\<close>

text \<open>A bare word that reads as a floating point number is written as it is, though JSON has no such number.\<close>

lemma nan_is_not_quoted:
  "json_repair (\<lambda>t. t) (Inr :: rstr \<Rightarrow> rstr + rstr) (lit ''nan'') = Some (Inr (lit ''nan''))"
  by code_simp

text \<open>The quote to remove between two strings is looked for at a byte position, but removed at a character position:
  after an e with an acute accent the second string loses a character, and the quote stays.\<close>

lemma concatenation_removes_the_wrong_character:
  "json_repair (\<lambda>t. t) (Inr :: rstr \<Rightarrow> rstr + rstr) [34, 233, 34, 43, 34, 98, 34] = Some (Inr [34, 233, 34, 34])"
  by code_simp

end
