(* ===== verification/Schema_Coercion.thy ===== *)
theory Schema_Coercion
  imports Json_Repair
begin

text \<open>
  The coercion of JSON values to a schema (\<open>forge_json_repair/src/schema_coercion.rs\<close>). A schema is a JSON value itself.
  Coercion follows references and repairs the strings in which it expects an object or an array, so it is one partial
  function: \<open>None\<close> is a coercion that does not return. The readers of \<open>serde_json\<close> and \<open>serde_json5\<close>, the numbers
  they read, \<open>char::is_numeric\<close> and the writer of strings are the parameter \<open>json_lib\<close>.
\<close>

section \<open>Values\<close>

text \<open>\<open>serde_json::Value\<close>: a number is an integer or a float, an object its members in the order of the map.\<close>

datatype 'f json =
    JNull
  | JBool bool
  | JInt int
  | JFloat 'f
  | JStr rstr
  | JArr "'f json list"
  | JObj "(rstr \<times> 'f json) list"

type_synonym 'f json_object = "(rstr \<times> 'f json) list"

record ('e, 'f) json_lib =
  jl_from_str :: "rstr \<Rightarrow> 'e + 'f json"
  jl_from_str5 :: "rstr \<Rightarrow> 'e + 'f json"
  jl_quote :: "rstr \<Rightarrow> rstr"
  jl_parse_f64 :: "rstr \<Rightarrow> 'f option"
  jl_is_numeric :: "int \<Rightarrow> bool"

definition as_array :: "'f json \<Rightarrow> 'f json list option" where
  "as_array v = (case v of JArr xs \<Rightarrow> Some xs | _ \<Rightarrow> None)"

definition as_object :: "'f json \<Rightarrow> 'f json_object option" where
  "as_object v = (case v of JObj ms \<Rightarrow> Some ms | _ \<Rightarrow> None)"

definition is_array :: "'f json \<Rightarrow> bool" where
  "is_array v \<longleftrightarrow> as_array v \<noteq> None"

definition is_object :: "'f json \<Rightarrow> bool" where
  "is_object v \<longleftrightarrow> as_object v \<noteq> None"

definition as_string :: "'f json \<Rightarrow> rstr option" where
  "as_string v = (case v of JStr s \<Rightarrow> Some s | _ \<Rightarrow> None)"

text \<open>\<open>serde_json::from_value::<Schema>\<close> takes booleans and objects only.\<close>

definition schema_of :: "'f json \<Rightarrow> 'f json option" where
  "schema_of v = (case v of JBool _ \<Rightarrow> Some v | JObj _ \<Rightarrow> Some v | _ \<Rightarrow> None)"

text \<open>\<open>str::parse::<i64>\<close> and \<open>str::parse::<u64>\<close>: an optional sign and digits, in range; a minus sign only for \<open>i64\<close>.\<close>

definition digits_value :: "rstr \<Rightarrow> int" where
  "digits_value ds = foldl (\<lambda>n d. 10 * n + (d - 48)) 0 ds"

definition is_digits :: "rstr \<Rightarrow> bool" where
  "is_digits ds \<longleftrightarrow> ds \<noteq> [] \<and> list_all (\<lambda>c. 48 \<le> c \<and> c \<le> 57) ds"

definition in_range :: "int \<Rightarrow> int \<Rightarrow> int \<Rightarrow> int option" where
  "in_range lo hi n = (if lo \<le> n \<and> n \<le> hi then Some n else None)"

definition parse_i64 :: "rstr \<Rightarrow> int option" where
  "parse_i64 s =
     (let ds = (case s of c # t \<Rightarrow> if c = 43 \<or> c = 45 then t else s | [] \<Rightarrow> s)
      in if \<not> is_digits ds then None
         else in_range i64_min i64_max (if hd s = 45 then - digits_value ds else digits_value ds))"

definition parse_u64 :: "rstr \<Rightarrow> int option" where
  "parse_u64 s =
     (let ds = (case s of c # t \<Rightarrow> if c = 43 then t else s | [] \<Rightarrow> s)
      in if is_digits ds then in_range 0 u64_max (digits_value ds) else None)"

lemma json_parts_smaller:
  "x \<in> set xs \<Longrightarrow> size x < size (JArr xs)"
  "m \<in> set ms \<Longrightarrow> size (snd m) < size (JObj ms)"
proof -
  show "x \<in> set xs \<Longrightarrow> size x < size (JArr xs)" by (induction xs) auto
  show "m \<in> set ms \<Longrightarrow> size (snd m) < size (JObj ms)" by (induction ms) (auto simp: less_Suc_eq_le trans_le_add1)
qed

section \<open>Reading strings\<close>

definition parse_json_like_value :: "('e, 'f) json_lib \<Rightarrow> rstr \<Rightarrow> ('e json_repair_error + 'f json) option" where
  "parse_json_like_value lib s =
     (case jl_from_str lib s of
        Inr v \<Rightarrow> Some (Inr v)
      | Inl _ \<Rightarrow>
          (case jl_from_str5 lib s of
             Inr v \<Rightarrow> Some (Inr v)
           | Inl _ \<Rightarrow> json_repair (jl_quote lib) (jl_from_str lib) s))"

text \<open>A string in the value is read again, up to four times.\<close>

fun unwrap_strings :: "('e, 'f) json_lib \<Rightarrow> nat \<Rightarrow> 'f json \<Rightarrow> 'f json option" where
  "unwrap_strings lib 0 v = Some v"
| "unwrap_strings lib (Suc n) v =
     (case v of
        JStr inner \<Rightarrow>
          Option.bind (parse_json_like_value lib inner) (\<lambda>r. case r of
            Inl _ \<Rightarrow> Some v
          | Inr v' \<Rightarrow> unwrap_strings lib n v')
      | _ \<Rightarrow> Some v)"

definition try_parse_json_string :: "('e, 'f) json_lib \<Rightarrow> rstr \<Rightarrow> ('e json_repair_error + 'f json) option" where
  "try_parse_json_string lib s =
     Option.bind (parse_json_like_value lib s) (\<lambda>r. case r of
       Inl e \<Rightarrow> Some (Inl e)
     | Inr v \<Rightarrow> map_option Inr (unwrap_strings lib 4 v))"

fun first_array :: "('e, 'f) json_lib \<Rightarrow> rstr list \<Rightarrow> 'f json option option" where
  "first_array lib [] = Some None"
| "first_array lib (candidate # cands) =
     Option.bind (json_repair (jl_quote lib) (jl_from_str lib) candidate) (\<lambda>r. case r of
       Inr v \<Rightarrow> if is_array v then Some (Some v) else first_array lib cands
     | Inl _ \<Rightarrow> first_array lib cands)"

text \<open>The candidates end before the last character, before the one before it, and so on; the whole rest is the last one.\<close>

definition array_candidates :: "rstr \<Rightarrow> nat \<Rightarrow> rstr list" where
  "array_candidates s start =
     map (\<lambda>e. take (e - start) (drop start s)) (rev [Suc start..<length s]) @ [drop start s]"

definition has_array_like_content :: "('e, 'f) json_lib \<Rightarrow> rstr \<Rightarrow> bool" where
  "has_array_like_content lib after \<longleftrightarrow>
     34 \<in> set after \<or> 44 \<in> set after \<or> 93 \<in> set after
     \<or> (case after of c # _ \<Rightarrow> jl_is_numeric lib c | [] \<Rightarrow> False)"

definition extract_array_from_string :: "('e, 'f) json_lib \<Rightarrow> rstr \<Rightarrow> 'f json option option" where
  "extract_array_from_string lib s =
     (case find_index (\<lambda>c. c = 91) s of
        None \<Rightarrow> Some None
      | Some start \<Rightarrow>
          if has_array_like_content lib (drop (Suc start) s) then first_array lib (array_candidates s start)
          else Some None)"

section \<open>Schemas\<close>

abbreviation schema_field :: "'f json_object \<Rightarrow> string \<Rightarrow> 'f json option" where
  "schema_field obj k \<equiv> map_of obj (lit k)"

definition is_nullable :: "'f json_object \<Rightarrow> bool" where
  "is_nullable obj \<longleftrightarrow> schema_field obj ''nullable'' = Some (JBool True)"

definition type_matches :: "'f json \<Rightarrow> rstr list \<Rightarrow> bool" where
  "type_matches v ts \<longleftrightarrow> list_ex (\<lambda>t.
     (case v of
        JNull \<Rightarrow> t = lit ''null''
      | JBool _ \<Rightarrow> t = lit ''boolean''
      | JInt _ \<Rightarrow> t = lit ''number'' \<or> t = lit ''integer''
      | JFloat _ \<Rightarrow> t = lit ''number''
      | JStr _ \<Rightarrow> t = lit ''string''
      | JArr _ \<Rightarrow> t = lit ''array''
      | JObj _ \<Rightarrow> t = lit ''object'')) ts"

text \<open>\<open>$ref\<close>, resolved against the definitions of the root schema.\<close>

definition definition_name :: "rstr \<Rightarrow> rstr option" where
  "definition_name r =
     (if starts_with r (lit ''#/$defs/'') then Some (drop 8 r)
      else if starts_with r (lit ''#/definitions/'') then Some (drop 14 r)
      else None)"

definition definitions_of :: "'f json \<Rightarrow> 'f json_object option" where
  "definitions_of root_schema =
     Option.bind (as_object root_schema) (\<lambda>obj.
       Option.bind (case schema_field obj ''$defs'' of Some d \<Rightarrow> Some d | None \<Rightarrow> schema_field obj ''definitions'') as_object)"

definition referenced_schema :: "'f json \<Rightarrow> 'f json_object \<Rightarrow> 'f json option" where
  "referenced_schema root_schema obj =
     Option.bind (Option.bind (schema_field obj ''$ref'') as_string) (\<lambda>r.
       Option.bind (definition_name r) (\<lambda>name.
         Option.bind (definitions_of root_schema) (\<lambda>defs.
           Option.bind (map_of defs name) schema_of)))"

definition subschemas :: "'f json_object \<Rightarrow> string \<Rightarrow> 'f json list option" where
  "subschemas obj k = Option.bind (schema_field obj k) as_array"

definition target_types :: "'f json \<Rightarrow> rstr list option" where
  "target_types v = (case v of JStr s \<Rightarrow> Some [s] | JArr xs \<Rightarrow> Some (List.map_filter as_string xs) | _ \<Rightarrow> None)"

section \<open>Coercion\<close>

type_synonym 'f coerce_rec = "'f json \<Rightarrow> 'f json \<Rightarrow> 'f json option"

text \<open>\<open>anyOf\<close> and \<open>oneOf\<close>: the first sub-schema that changes the value. \<open>allOf\<close>: one after the other.\<close>

fun first_change :: "'f coerce_rec \<Rightarrow> 'f json \<Rightarrow> 'f json list \<Rightarrow> 'f json option option" where
  "first_change rec v [] = Some None"
| "first_change rec v (s # ss) =
     (case schema_of s of
        None \<Rightarrow> first_change rec v ss
      | Some sub \<Rightarrow> Option.bind (rec v sub) (\<lambda>r. if r \<noteq> v then Some (Some r) else first_change rec v ss))"

fun in_sequence :: "'f coerce_rec \<Rightarrow> 'f json \<Rightarrow> 'f json list \<Rightarrow> 'f json option" where
  "in_sequence rec v [] = Some v"
| "in_sequence rec v (s # ss) =
     (case schema_of s of
        None \<Rightarrow> in_sequence rec v ss
      | Some sub \<Rightarrow> Option.bind (rec v sub) (\<lambda>r. in_sequence rec r ss))"

definition coerce_with :: "'f coerce_rec \<Rightarrow> 'f json option \<Rightarrow> 'f json \<Rightarrow> 'f json option" where
  "coerce_with rec s v = (case Option.bind s schema_of of Some sub \<Rightarrow> rec v sub | None \<Rightarrow> Some v)"

fun coerce_members :: "'f coerce_rec \<Rightarrow> 'f json_object \<Rightarrow> 'f json_object \<Rightarrow> 'f json_object option" where
  "coerce_members rec props [] = Some []"
| "coerce_members rec props ((k, v) # ms) =
     Option.bind (coerce_with rec (map_of props k) v) (\<lambda>v'.
       map_option ((#) (k, v')) (coerce_members rec props ms))"

fun coerce_tuple :: "'f coerce_rec \<Rightarrow> 'f json list \<Rightarrow> nat \<Rightarrow> 'f json list \<Rightarrow> 'f json list option" where
  "coerce_tuple rec ss i [] = Some []"
| "coerce_tuple rec ss i (v # vs) =
     Option.bind (coerce_with rec (get_at ss i) v) (\<lambda>v'.
       map_option ((#) v') (coerce_tuple rec ss (Suc i) vs))"

fun coerce_all :: "'f coerce_rec \<Rightarrow> 'f json \<Rightarrow> 'f json list \<Rightarrow> 'f json list option" where
  "coerce_all rec s [] = Some []"
| "coerce_all rec s (v # vs) =
     Option.bind (rec v s) (\<lambda>v'. map_option ((#) v') (coerce_all rec s vs))"

definition coerce_array_items :: "'f coerce_rec \<Rightarrow> 'f json_object \<Rightarrow> 'f json list \<Rightarrow> 'f json list option" where
  "coerce_array_items rec obj xs =
     (case subschemas obj ''prefixItems'' of
        Some ss \<Rightarrow> coerce_tuple rec ss 0 xs
      | None \<Rightarrow>
          (case schema_field obj ''items'' of
             Some (JObj s) \<Rightarrow> coerce_all rec (JObj s) xs
           | Some (JBool b) \<Rightarrow> coerce_all rec (JBool b) xs
           | Some (JArr ss) \<Rightarrow> coerce_tuple rec ss 0 xs
           | _ \<Rightarrow> Some xs))"

definition coerce_array_value :: "'f coerce_rec \<Rightarrow> 'f json_object \<Rightarrow> 'f json \<Rightarrow> 'f json option" where
  "coerce_array_value rec obj v =
     (case v of JArr xs \<Rightarrow> map_option JArr (coerce_array_items rec obj xs) | _ \<Rightarrow> Some v)"

definition coerce_extracted_array ::
  "('e, 'f) json_lib \<Rightarrow> 'f coerce_rec \<Rightarrow> 'f json_object \<Rightarrow> rstr \<Rightarrow> 'f json option option" where
  "coerce_extracted_array lib rec obj s =
     Option.bind (extract_array_from_string lib s) (\<lambda>extracted. case extracted of
       Some v \<Rightarrow> map_option Some (coerce_array_value rec obj v)
     | None \<Rightarrow> Some None)"

definition coerce_to_array ::
  "('e, 'f) json_lib \<Rightarrow> 'f coerce_rec \<Rightarrow> 'f json_object \<Rightarrow> rstr \<Rightarrow> 'f json option option" where
  "coerce_to_array lib rec obj s =
     Option.bind (try_parse_json_string lib s) (\<lambda>r. case r of
       Inr v \<Rightarrow> if is_array v then map_option Some (coerce_array_value rec obj v) else coerce_extracted_array lib rec obj s
     | Inl _ \<Rightarrow> coerce_extracted_array lib rec obj s)"

definition try_coerce_string ::
  "('e, 'f) json_lib \<Rightarrow> 'f coerce_rec \<Rightarrow> 'f json_object \<Rightarrow> rstr \<Rightarrow> rstr \<Rightarrow> 'f json option option" where
  "try_coerce_string lib rec obj s target =
     (if target = lit ''integer'' then
        Some (case parse_i64 s of Some n \<Rightarrow> Some (JInt n) | None \<Rightarrow> map_option JInt (parse_u64 s))
      else if target = lit ''number'' then
        Some (case parse_i64 s of Some n \<Rightarrow> Some (JInt n) | None \<Rightarrow> map_option JFloat (jl_parse_f64 lib s))
      else if target = lit ''boolean'' then
        Some (if to_lowercase (str_trim s) = lit ''true'' then Some (JBool True)
              else if to_lowercase (str_trim s) = lit ''false'' then Some (JBool False) else None)
      else if target = lit ''null'' then
        Some (if to_lowercase (str_trim s) = lit ''null'' then Some JNull else None)
      else if target = lit ''object'' then
        map_option (\<lambda>r. case r of Inr v \<Rightarrow> if is_object v then Some v else None | Inl _ \<Rightarrow> None) (try_parse_json_string lib s)
      else if target = lit ''array'' then coerce_to_array lib rec obj s
      else Some None)"

fun first_coercion ::
  "('e, 'f) json_lib \<Rightarrow> 'f coerce_rec \<Rightarrow> 'f json_object \<Rightarrow> rstr \<Rightarrow> rstr list \<Rightarrow> 'f json option" where
  "first_coercion lib rec obj s [] = Some (JStr s)"
| "first_coercion lib rec obj s (t # ts) =
     Option.bind (try_coerce_string lib rec obj s t) (\<lambda>r. case r of
       Some v \<Rightarrow> Some v
     | None \<Rightarrow> first_coercion lib rec obj s ts)"

definition coerce_by_type ::
  "('e, 'f) json_lib \<Rightarrow> 'f coerce_rec \<Rightarrow> 'f json_object \<Rightarrow> 'f json \<Rightarrow> 'f json \<Rightarrow> 'f json option" where
  "coerce_by_type lib rec obj type_value v =
     (case target_types type_value of
        None \<Rightarrow> Some v
      | Some ts \<Rightarrow>
          if type_matches v ts then Some v
          else (case v of JStr s \<Rightarrow> first_coercion lib rec obj s ts | _ \<Rightarrow> Some v))"

text \<open>The end of \<open>coerce_value_with_schema_object\<close>, after references and combined schemas.\<close>

definition coerce_parts :: "('e, 'f) json_lib \<Rightarrow> 'f coerce_rec \<Rightarrow> 'f json_object \<Rightarrow> 'f json \<Rightarrow> 'f json option" where
  "coerce_parts lib rec obj v =
     (case v of
        JObj ms \<Rightarrow>
          (case Option.bind (schema_field obj ''properties'') as_object of
             Some props \<Rightarrow> map_option JObj (coerce_members rec props ms)
           | None \<Rightarrow> Some (JObj ms))
      | JArr xs \<Rightarrow> map_option JArr (coerce_array_items rec obj xs)
      | _ \<Rightarrow>
          (case schema_field obj ''type'' of
             Some type_value \<Rightarrow> coerce_by_type lib rec obj type_value v
           | None \<Rightarrow> Some v))"

definition first_changes :: "'f coerce_rec \<Rightarrow> 'f json_object \<Rightarrow> string \<Rightarrow> 'f json \<Rightarrow> 'f json option option" where
  "first_changes rec obj k v = (case subschemas obj k of Some ss \<Rightarrow> first_change rec v ss | None \<Rightarrow> Some None)"

definition coerce_combined :: "('e, 'f) json_lib \<Rightarrow> 'f coerce_rec \<Rightarrow> 'f json_object \<Rightarrow> 'f json \<Rightarrow> 'f json option" where
  "coerce_combined lib rec obj v =
     Option.bind (first_changes rec obj ''anyOf'' v) (\<lambda>r. case r of
       Some v' \<Rightarrow> Some v'
     | None \<Rightarrow>
         Option.bind (first_changes rec obj ''oneOf'' v) (\<lambda>r. case r of
           Some v' \<Rightarrow> Some v'
         | None \<Rightarrow>
             (case subschemas obj ''allOf'' of
                Some ss \<Rightarrow> in_sequence rec v ss
              | None \<Rightarrow> coerce_parts lib rec obj v)))"

definition coerce_value_with_schema_object ::
  "('e, 'f) json_lib \<Rightarrow> 'f json \<Rightarrow> 'f coerce_rec \<Rightarrow> 'f json_object \<Rightarrow> 'f json \<Rightarrow> 'f json option" where
  "coerce_value_with_schema_object lib root_schema rec obj v =
     (case referenced_schema root_schema obj of
        Some s \<Rightarrow> rec v s
      | None \<Rightarrow> if v = JStr [] \<and> is_nullable obj then Some JNull else coerce_combined lib rec obj v)"

definition coerce_body ::
  "('e, 'f) json_lib \<Rightarrow> 'f json \<Rightarrow> 'f coerce_rec \<Rightarrow> 'f json \<Rightarrow> 'f json \<Rightarrow> 'f json option" where
  "coerce_body lib root_schema rec v schema =
     (case schema of JObj obj \<Rightarrow> coerce_value_with_schema_object lib root_schema rec obj v | _ \<Rightarrow> Some v)"

section \<open>The recursion\<close>

lemma case_json_calls_mono:
  assumes "mono_calls n" "\<And>x. mono_calls (\<lambda>f. b f x)" "\<And>x. mono_calls (\<lambda>f. i f x)" "\<And>x. mono_calls (\<lambda>f. d f x)"
    and "\<And>x. mono_calls (\<lambda>f. s f x)" "\<And>x. mono_calls (\<lambda>f. a f x)" "\<And>x. mono_calls (\<lambda>f. ob f x)"
  shows "mono_calls (\<lambda>f. case v of JNull \<Rightarrow> n f | JBool x \<Rightarrow> b f x | JInt x \<Rightarrow> i f x | JFloat x \<Rightarrow> d f x
    | JStr x \<Rightarrow> s f x | JArr x \<Rightarrow> a f x | JObj x \<Rightarrow> ob f x)"
  using assms by (cases v) simp_all

lemma case_sum_calls_mono:
  assumes "\<And>x. mono_calls (\<lambda>f. l f x)" "\<And>x. mono_calls (\<lambda>f. r f x)"
  shows "mono_calls (\<lambda>f. case v of Inl x \<Rightarrow> l f x | Inr x \<Rightarrow> r f x)"
  using assms by (cases v) simp_all

lemma first_change_mono:
  "(\<And>v s. mono_calls (\<lambda>f. rec f v s)) \<Longrightarrow> mono_calls (\<lambda>f. first_change (rec f) v ss)"
proof (induction ss)
  case (Cons s ss)
  then show ?case
    by (cases "schema_of s") (auto intro!: Partial_Function.bind_mono if_calls_mono option.const_mono)
qed (simp add: option.const_mono)

lemma in_sequence_mono:
  "(\<And>v s. mono_calls (\<lambda>f. rec f v s)) \<Longrightarrow> mono_calls (\<lambda>f. in_sequence (rec f) v ss)"
proof (induction ss arbitrary: v)
  case (Cons s ss)
  then show ?case
    by (cases "schema_of s") (auto intro!: Partial_Function.bind_mono option.const_mono)
qed (simp add: option.const_mono)

lemma map_option_mono_calls: "mono_calls m \<Longrightarrow> mono_calls (\<lambda>f. map_option g (m f))"
  unfolding map_conv_bind_option comp_def by (intro Partial_Function.bind_mono option.const_mono)

lemma coerce_with_mono:
  "(\<And>v s. mono_calls (\<lambda>f. rec f v s)) \<Longrightarrow> mono_calls (\<lambda>f. coerce_with (rec f) s v)"
  unfolding coerce_with_def by (intro case_option_calls_mono option.const_mono)

lemma coerce_items_mono:
  assumes "\<And>v s. mono_calls (\<lambda>f. rec f v s)"
  shows "mono_calls (\<lambda>f. coerce_members (rec f) props ms)"
    and "mono_calls (\<lambda>f. coerce_tuple (rec f) ss i xs)"
    and "mono_calls (\<lambda>f. coerce_all (rec f) s xs)"
proof -
  show "mono_calls (\<lambda>f. coerce_members (rec f) props ms)"
  proof (induction ms)
    case (Cons m ms)
    then show ?case
      by (cases m) (auto intro!: Partial_Function.bind_mono map_option_mono_calls coerce_with_mono assms)
  qed (simp add: option.const_mono)
  show "mono_calls (\<lambda>f. coerce_tuple (rec f) ss i xs)"
    by (induction xs arbitrary: i)
      (auto intro!: Partial_Function.bind_mono map_option_mono_calls coerce_with_mono assms option.const_mono)
  show "mono_calls (\<lambda>f. coerce_all (rec f) s xs)"
    by (induction xs) (auto intro!: Partial_Function.bind_mono map_option_mono_calls assms option.const_mono)
qed

lemma coerce_array_mono:
  assumes "\<And>v s. mono_calls (\<lambda>f. rec f v s)"
  shows "mono_calls (\<lambda>f. coerce_array_items (rec f) obj xs)" "mono_calls (\<lambda>f. coerce_array_value (rec f) obj v)"
proof -
  show items: "mono_calls (\<lambda>f. coerce_array_items (rec f) obj xs)" for xs
    unfolding coerce_array_items_def
    by (intro case_option_calls_mono case_json_calls_mono coerce_items_mono assms option.const_mono)
  show "mono_calls (\<lambda>f. coerce_array_value (rec f) obj v)"
    unfolding coerce_array_value_def
    by (cases v) (simp_all add: map_option_mono_calls items option.const_mono)
qed

lemma first_coercion_mono:
  assumes "\<And>v s. mono_calls (\<lambda>f. rec f v s)"
  shows "mono_calls (\<lambda>f. first_coercion lib (rec f) obj s ts)"
proof -
  have arr: "mono_calls (\<lambda>f. coerce_to_array lib (rec f) obj s)"
    unfolding coerce_to_array_def coerce_extracted_array_def
    by (intro Partial_Function.bind_mono case_sum_calls_mono case_option_calls_mono if_calls_mono
        map_option_mono_calls coerce_array_mono assms option.const_mono)
  have "mono_calls (\<lambda>f. try_coerce_string lib (rec f) obj s t)" for t
    unfolding try_coerce_string_def by (intro if_calls_mono option.const_mono arr)
  then show ?thesis
    by (induction ts) (auto intro!: Partial_Function.bind_mono case_option_calls_mono option.const_mono)
qed

lemma coerce_body_mono [partial_function_mono]:
  assumes "\<And>v s. mono_calls (\<lambda>f. rec f v s)"
  shows "mono_calls (\<lambda>f. coerce_body lib root_schema (rec f) v schema)"
proof -
  have typed: "mono_calls (\<lambda>f. coerce_by_type lib (rec f) obj t v)" for obj t v
    unfolding coerce_by_type_def
    by (intro case_option_calls_mono if_calls_mono case_json_calls_mono first_coercion_mono assms option.const_mono)
  have parts: "mono_calls (\<lambda>f. coerce_parts lib (rec f) obj v)" for obj v
    unfolding coerce_parts_def
    by (cases v) (auto intro!: case_option_calls_mono map_option_mono_calls coerce_items_mono coerce_array_mono
        typed assms option.const_mono)
  have changes: "mono_calls (\<lambda>f. first_changes (rec f) obj k v)" for obj k v
    unfolding first_changes_def by (intro case_option_calls_mono first_change_mono assms option.const_mono)
  have "mono_calls (\<lambda>f. coerce_combined lib (rec f) obj v)" for obj v
    unfolding coerce_combined_def
    by (intro Partial_Function.bind_mono changes case_option_calls_mono in_sequence_mono parts assms option.const_mono)
  then show ?thesis
    unfolding coerce_body_def coerce_value_with_schema_object_def
    by (cases schema) (auto intro!: case_option_calls_mono if_calls_mono assms option.const_mono)
qed

partial_function (option) coerce_value_with_schema ::
  "('e, 'f) json_lib \<Rightarrow> 'f json \<Rightarrow> 'f json \<Rightarrow> 'f json \<Rightarrow> 'f json option" where
  "coerce_value_with_schema lib root_schema v schema =
     coerce_body lib root_schema (\<lambda>v s. coerce_value_with_schema lib root_schema v s) v schema"

declare coerce_value_with_schema.simps [code]

definition coerce_to_schema :: "('e, 'f) json_lib \<Rightarrow> 'f json \<Rightarrow> 'f json \<Rightarrow> 'f json option" where
  "coerce_to_schema lib v schema = coerce_value_with_schema lib schema v schema"

section \<open>What coercion keeps\<close>

text \<open>Only a string changes its kind, and no string becomes another string; objects keep their keys in their order, arrays
  their length.\<close>

inductive same_shape :: "'f json \<Rightarrow> 'f json \<Rightarrow> bool" where
  shape_same: "same_shape v v"
| shape_string: "as_string r = None \<Longrightarrow> same_shape (JStr s) r"
| shape_array: "list_all2 same_shape xs ys \<Longrightarrow> same_shape (JArr xs) (JArr ys)"
| shape_object: "list_all2 (\<lambda>m m'. fst m = fst m' \<and> same_shape (snd m) (snd m')) ms ms' \<Longrightarrow> same_shape (JObj ms) (JObj ms')"
  monos list_all2_mono

inductive_cases same_shape_arrayE: "same_shape (JArr xs) w"
inductive_cases same_shape_objectE: "same_shape (JObj ms) w"

lemma as_string_shape: "same_shape v r \<Longrightarrow> as_string v = None \<Longrightarrow> as_string r = None"
  by (cases rule: same_shape.cases) (auto simp: as_string_def)

lemma same_shape_trans: "same_shape u v \<Longrightarrow> same_shape v w \<Longrightarrow> same_shape u w"
proof (induction arbitrary: w rule: same_shape.induct)
  case (shape_string r s)
  then show ?case using as_string_shape same_shape.shape_string by blast
next
  case (shape_array xs ys)
  from shape_array(2) show ?case
  proof (rule same_shape_arrayE)
    fix zs assume w: "w = JArr zs" "list_all2 same_shape ys zs"
    have "list_all2 same_shape xs zs"
      by (rule list_all2_trans [OF _ shape_array(1) w(2)]) blast
    then show ?thesis using w(1) by (auto intro: same_shape.shape_array)
  next
    assume "w = JArr ys"
    then show ?thesis using shape_array(1) by (auto intro!: same_shape.shape_array elim!: list_all2_mono)
  qed
next
  case (shape_object ms ms')
  from shape_object(2) show ?case
  proof (rule same_shape_objectE)
    fix ms'' assume w: "w = JObj ms''" "list_all2 (\<lambda>m m'. fst m = fst m' \<and> same_shape (snd m) (snd m')) ms' ms''"
    have "list_all2 (\<lambda>m m'. fst m = fst m' \<and> same_shape (snd m) (snd m')) ms ms''"
      by (rule list_all2_trans [OF _ shape_object(1) w(2)]) auto
    then show ?thesis using w(1) by (auto intro: same_shape.shape_object)
  next
    assume "w = JObj ms'"
    then show ?thesis using shape_object(1) by (auto intro!: same_shape.shape_object elim!: list_all2_mono)
  qed
qed

text \<open>A call of the coercion that keeps the shape, in every part of the body.\<close>

abbreviation keeps_shape :: "'f coerce_rec \<Rightarrow> bool" where
  "keeps_shape rec \<equiv> \<forall>v s r. rec v s = Some r \<longrightarrow> same_shape v r"

lemma first_change_shape: "keeps_shape rec \<Longrightarrow> first_change rec v ss = Some (Some r) \<Longrightarrow> same_shape v r"
  by (induction ss) (auto simp: Option.bind_eq_Some_conv split: option.splits if_splits)

lemma in_sequence_shape: "keeps_shape rec \<Longrightarrow> in_sequence rec v ss = Some r \<Longrightarrow> same_shape v r"
proof (induction ss arbitrary: v)
  case (Cons s ss)
  then show ?case
    by (cases "schema_of s") (auto simp: Option.bind_eq_Some_conv, blast intro: same_shape_trans)
qed (simp add: shape_same)

lemma coerce_with_shape: "keeps_shape rec \<Longrightarrow> coerce_with rec s v = Some r \<Longrightarrow> same_shape v r"
  by (auto simp: coerce_with_def shape_same split: option.splits)

lemma coerce_items_shape:
  assumes "keeps_shape rec"
  shows "coerce_members rec props ms = Some ms' \<Longrightarrow> list_all2 (\<lambda>m m'. fst m = fst m' \<and> same_shape (snd m) (snd m')) ms ms'"
    and "coerce_tuple rec ss i xs = Some ys \<Longrightarrow> list_all2 same_shape xs ys"
    and "coerce_all rec s xs = Some ys \<Longrightarrow> list_all2 same_shape xs ys"
proof -
  show "coerce_members rec props ms = Some ms' \<Longrightarrow> list_all2 (\<lambda>m m'. fst m = fst m' \<and> same_shape (snd m) (snd m')) ms ms'"
  proof (induction ms arbitrary: ms')
    case (Cons m ms)
    then show ?case using coerce_with_shape [OF assms] by (cases m) (auto simp: Option.bind_eq_Some_conv)
  qed simp
  show "coerce_tuple rec ss i xs = Some ys \<Longrightarrow> list_all2 same_shape xs ys"
    using coerce_with_shape [OF assms] by (induction xs arbitrary: i ys) (auto simp: Option.bind_eq_Some_conv)
  show "coerce_all rec s xs = Some ys \<Longrightarrow> list_all2 same_shape xs ys"
    using assms by (induction xs arbitrary: ys) (auto simp: Option.bind_eq_Some_conv)
qed

lemma coerce_array_items_shape:
  "keeps_shape rec \<Longrightarrow> coerce_array_items rec obj xs = Some ys \<Longrightarrow> list_all2 same_shape xs ys"
  using coerce_items_shape(2,3) [of rec]
  by (auto simp: coerce_array_items_def shape_same list.rel_refl split: option.splits json.splits)

lemma array_kind: "is_array v \<Longrightarrow> \<exists>xs. v = JArr xs" "is_object v \<Longrightarrow> \<exists>ms. v = JObj ms"
  by (auto simp: is_array_def as_array_def is_object_def as_object_def split: json.splits)

lemma coerce_array_value_kind: "is_array v \<Longrightarrow> coerce_array_value rec obj v = Some r \<Longrightarrow> as_string r = None"
  by (auto simp: coerce_array_value_def as_string_def dest!: array_kind(1))

lemma first_array_kind: "first_array lib cands = Some (Some v) \<Longrightarrow> is_array v"
  by (induction cands) (auto simp: Option.bind_eq_Some_conv, auto split: sum.splits if_splits)

lemma extracted_kind: "extract_array_from_string lib s = Some (Some v) \<Longrightarrow> is_array v"
  by (auto simp: extract_array_from_string_def split: option.splits if_splits dest: first_array_kind)

lemma coerce_to_array_kind:
  assumes "coerce_to_array lib rec obj s = Some (Some r)"
  shows "as_string r = None"
proof -
  have ex: "as_string r = None" if "coerce_extracted_array lib rec obj s = Some (Some r)"
    using that by (auto simp: coerce_extracted_array_def Option.bind_eq_Some_conv split: option.splits
        intro: coerce_array_value_kind dest: extracted_kind)
  obtain x where "try_parse_json_string lib s = Some x"
    and x: "(case x of Inr v \<Rightarrow> if is_array v then map_option Some (coerce_array_value rec obj v)
        else coerce_extracted_array lib rec obj s | Inl _ \<Rightarrow> coerce_extracted_array lib rec obj s) = Some (Some r)"
    using assms unfolding coerce_to_array_def by (auto simp: Option.bind_eq_Some_conv)
  from x show ?thesis by (cases x) (auto split: if_splits intro: ex coerce_array_value_kind)
qed

lemma try_coerce_string_kind: "try_coerce_string lib rec obj s t = Some (Some r) \<Longrightarrow> as_string r = None"
proof -
  assume *: "try_coerce_string lib rec obj s t = Some (Some r)"
  have "as_string v = None" if "is_object v" for v :: "'a json" using array_kind(2) [OF that] by (auto simp: as_string_def)
  with * show ?thesis
    by (auto simp: try_coerce_string_def split: if_splits dest: coerce_to_array_kind)
      (auto simp: as_string_def split: option.splits sum.splits if_splits)
qed

lemma first_coercion_shape: "first_coercion lib rec obj s ts = Some r \<Longrightarrow> same_shape (JStr s) r"
  using try_coerce_string_kind [of lib rec obj s]
  by (induction ts) (auto simp: Option.bind_eq_Some_conv shape_same shape_string split: option.splits)

lemma coerce_body_shape:
  assumes "keeps_shape rec" "coerce_body lib root_schema rec v schema = Some r"
  shows "same_shape v r"
proof -
  have typed: "coerce_by_type lib rec obj t v = Some r \<Longrightarrow> same_shape v r" for obj t v r
    using first_coercion_shape [of lib rec obj]
    by (auto simp: coerce_by_type_def shape_same split: option.splits if_splits json.splits)
  have parts: "coerce_parts lib rec obj v = Some r \<Longrightarrow> same_shape v r" for obj v r
    using typed coerce_items_shape(1) [OF assms(1)] coerce_array_items_shape [OF assms(1)]
    by (auto simp: coerce_parts_def shape_same shape_object shape_array split: option.splits json.splits)
  have changes: "first_changes rec obj k v = Some (Some r) \<Longrightarrow> same_shape v r" for obj k v r
    using first_change_shape [OF assms(1)] by (auto simp: first_changes_def split: option.splits)
  have combined: "coerce_combined lib rec obj v = Some r \<Longrightarrow> same_shape v r" for obj v r
    using changes parts in_sequence_shape [OF assms(1)]
    by (auto simp: coerce_combined_def Option.bind_eq_Some_conv split: option.splits)
  show ?thesis
    using assms combined
    by (auto simp: coerce_body_def coerce_value_with_schema_object_def shape_same shape_string as_string_def
        split: json.splits option.splits if_splits)
qed

lemma coerced_shape:
  assumes "coerce_value_with_schema lib root_schema v schema = Some r"
  shows "same_shape v r"
  by (rule coerce_value_with_schema.raw_induct [where P = "\<lambda>lib root_schema v schema r. same_shape v r", OF _ assms])
    (rule coerce_body_shape [rotated], assumption, blast)

end
