(* ===== verification/Json_Valid.thy ===== *)
theory Json_Valid
  imports Json_Repair
begin

text \<open>
  What the repair does to a text that needs none: the grammar of JSON texts (RFC 8259), and the proof that the parser
  writes such a text as it is.
\<close>

section \<open>The grammar\<close>

abbreviation json_blank :: "rstr \<Rightarrow> bool" where
  "json_blank w \<equiv> list_all (\<lambda>c. json_ws c True) w"

text \<open>The inside of a string.\<close>

inductive string_body :: "rstr \<Rightarrow> bool" where
  body_end: "string_body []"
| body_char: "\<lbrakk>32 \<le> c; c \<noteq> 34; c \<noteq> 92; string_body b\<rbrakk> \<Longrightarrow> string_body (c # b)"
| body_escape: "\<lbrakk>e \<in> {34, 92, 47, 98, 102, 110, 114, 116}; string_body b\<rbrakk> \<Longrightarrow> string_body (92 # e # b)"
| body_unicode: "\<lbrakk>list_all is_hex h; length h = 4; string_body b\<rbrakk> \<Longrightarrow> string_body (92 # 117 # h @ b)"

abbreviation digits :: "rstr \<Rightarrow> bool" where
  "digits ds \<equiv> ds \<noteq> [] \<and> list_all (\<lambda>c. is_digit (Some c)) ds"

inductive json_number :: "rstr \<Rightarrow> bool" where
  number: "\<lbrakk>sg \<in> {[], [45]}; digits whole; hd whole = 48 \<longrightarrow> whole = [48];
    frc = [] \<or> (\<exists>ds. frc = 46 # ds \<and> digits ds);
    expo = [] \<or> (\<exists>e sg' ds. expo = e # sg' @ ds \<and> (e = 101 \<or> e = 69) \<and> sg' \<in> {[], [45], [43]} \<and> digits ds)\<rbrakk>
    \<Longrightarrow> json_number (sg @ whole @ frc @ expo)"

text \<open>A value without blanks around it; what follows the opening bracket and its blanks, up to the closing one.\<close>

inductive json_value :: "rstr \<Rightarrow> bool" and json_elements :: "rstr \<Rightarrow> bool" and json_members :: "rstr \<Rightarrow> bool" where
  value_string: "string_body b \<Longrightarrow> json_value (34 # b @ [34])"
| value_number: "json_number n \<Longrightarrow> json_value n"
| value_word: "w \<in> {lit ''true'', lit ''false'', lit ''null''} \<Longrightarrow> json_value w"
| value_empty_array: "json_blank w \<Longrightarrow> json_value (91 # w @ [93])"
| value_array: "\<lbrakk>json_blank w; json_elements es\<rbrakk> \<Longrightarrow> json_value (91 # w @ es)"
| value_empty_object: "json_blank w \<Longrightarrow> json_value (123 # w @ [125])"
| value_object: "\<lbrakk>json_blank w; json_members ms\<rbrakk> \<Longrightarrow> json_value (123 # w @ ms)"
| elements_last: "\<lbrakk>json_value v; json_blank w\<rbrakk> \<Longrightarrow> json_elements (v @ w @ [93])"
| elements_more: "\<lbrakk>json_value v; json_blank w; json_blank w'; json_elements es\<rbrakk> \<Longrightarrow> json_elements (v @ w @ 44 # w' @ es)"
| members_last: "\<lbrakk>string_body k; json_blank w1; json_blank w2; json_value v; json_blank w3\<rbrakk>
    \<Longrightarrow> json_members (34 # k @ 34 # w1 @ 58 # w2 @ v @ w3 @ [125])"
| members_more: "\<lbrakk>string_body k; json_blank w1; json_blank w2; json_value v; json_blank w3; json_blank w4; json_members ms\<rbrakk>
    \<Longrightarrow> json_members (34 # k @ 34 # w1 @ 58 # w2 @ v @ w3 @ 44 # w4 @ ms)"

text \<open>A JSON text: a value with blanks around it.\<close>

definition json_text :: "rstr \<Rightarrow> bool" where
  "json_text t \<longleftrightarrow> (\<exists>w v w'. t = w @ v @ w' \<and> json_blank w \<and> json_value v \<and> json_blank w')"

section \<open>Positions\<close>

declare get_at_Some_iff [simp del] get_at_None_iff [simp del]

abbreviation at_state :: "nat \<Rightarrow> rstr \<Rightarrow> parser_state" where
  "at_state i out \<equiv> \<lparr>jp_i = i, jp_out = out\<rparr>"

lemma drop_shift: "drop i cs = u @ t \<Longrightarrow> drop (i + length u) cs = t"
  by (metis append_eq_conv_conj drop_drop add.commute)

lemma drop_shift1: "drop i cs = c # t \<Longrightarrow> drop (Suc i) cs = t"
  using drop_shift [of i cs "[c]" t] by simp

lemma get_at_drop: "get_at cs i = (case drop i cs of [] \<Rightarrow> None | c # _ \<Rightarrow> Some c)"
  by (auto simp: get_at_def Cons_nth_drop_Suc [symmetric])

lemma char_at_drop: "drop i cs = t \<Longrightarrow> char_at cs (at_state i out) = (case t of [] \<Rightarrow> None | c # _ \<Rightarrow> Some c)"
  by (simp add: char_at_def get_at_drop)

lemma get_at_next: "drop i cs = c # t \<Longrightarrow> get_at cs (Suc i) = (case t of [] \<Rightarrow> None | d # _ \<Rightarrow> Some d)"
  using drop_shift1 [of i cs c t] by (simp add: get_at_drop)

lemma state_moves [simp]:
  "skip n (at_state i out) = at_state (i + n) out"
  "goto j (at_state i out) = at_state j out"
  "push t (at_state i out) = at_state i (out @ t)"
  by (simp_all add: skip_def goto_def push_def)

text \<open>What a value can be followed by, and what neither starts a comment nor is white space.\<close>

definition quiet :: "rstr \<Rightarrow> bool" where
  "quiet t \<longleftrightarrow> (case t of [] \<Rightarrow> True | c # _ \<Rightarrow> \<not> json_ws c True \<and> \<not> is_special_whitespace c \<and> c \<noteq> 47)"

lemma quiet_simps [simp]: "quiet []" "quiet (c # t) \<longleftrightarrow> \<not> json_ws c True \<and> \<not> is_special_whitespace c \<and> c \<noteq> 47"
  by (simp_all add: quiet_def)

lemma json_ws_True: "json_ws c True \<longleftrightarrow> json_ws c False \<or> c = 10"
  by (auto simp: json_ws_def)

lemma json_ws_not_special: "json_ws c b \<Longrightarrow> \<not> is_special_whitespace c \<and> c \<noteq> 47"
  by (auto simp: json_ws_def is_special_whitespace_def split: if_splits)

text \<open>White space in front of something quiet, or of a line feed when those are left, is copied.\<close>

lemma parse_whitespace_copies:
  assumes "drop i cs = w @ t" "list_all (\<lambda>c. json_ws c nl) w"
    and "t = [] \<or> \<not> (json_ws (hd t) nl \<or> is_special_whitespace (hd t))"
  shows "parse_whitespace nl cs (at_state i out) = at_state (i + length w) (out @ w)"
proof -
  let ?p = "\<lambda>c. json_ws c nl \<or> is_special_whitespace c"
  have "takeWhile ?p (w @ t) = w"
    using assms(2,3) by (cases t) (auto simp: list_all_iff takeWhile_append)
  moreover have "map (\<lambda>c. if json_ws c nl then c else 32) w = w"
    using assms(2) by (simp add: list_all_iff map_idI)
  ultimately show ?thesis
    using assms(1) by (simp add: parse_whitespace_def)
qed

lemma skip_comments_none: "parse_comment cs s = (False, s') \<Longrightarrow> skip_comments nl cs s = s"
  by (subst skip_comments.simps) simp

lemma skip_ws_copies:
  assumes "drop i cs = w @ t" "json_blank w" "quiet t"
  shows "skip_ws True cs (at_state i out) = at_state (i + length w) (out @ w)"
proof -
  have "drop (i + length w) cs = t" using drop_shift [OF assms(1)] .
  then have "parse_comment cs (at_state (i + length w) (out @ w)) = (False, at_state (i + length w) (out @ w))"
    using assms(3) by (auto simp: parse_comment_def char_at_drop split: list.splits)
  moreover have "parse_whitespace True cs (at_state i out) = at_state (i + length w) (out @ w)"
    using assms(3) by (intro parse_whitespace_copies [OF assms(1,2)]) (cases t; simp)
  ultimately show ?thesis by (simp add: skip_ws_def skip_comments_none)
qed

lemma skip_ws_nothing: "drop i cs = t \<Longrightarrow> quiet t \<Longrightarrow> skip_ws True cs (at_state i out) = at_state i out"
  using skip_ws_copies [of i cs "[]" t] by simp

text \<open>On the rest of a line, line feeds stay.\<close>

lemma skip_ws_line:
  assumes "drop i cs = w @ t" "json_blank w" "quiet t"
  obtains a b where "w = a @ b" "b = [] \<or> hd b = 10"
    "skip_ws False cs (at_state i out) = at_state (i + length a) (out @ a)"
proof -
  define a b where ab: "a = takeWhile (\<lambda>c. json_ws c False) w" "b = dropWhile (\<lambda>c. json_ws c False) w"
  have w: "w = a @ b" and a: "list_all (\<lambda>c. json_ws c False) a"
    by (auto simp: ab list_all_iff dest: set_takeWhileD)
  have b: "b = [] \<or> hd b = 10"
  proof (cases b)
    case (Cons c b')
    then have "c \<in> set w" "\<not> json_ws c False"
      using set_dropWhileD [of c "\<lambda>c. json_ws c False" w] hd_dropWhile [of "\<lambda>c. json_ws c False" w] ab(2) by auto
    then show ?thesis using assms(2) Cons by (auto simp: list_all_iff json_ws_True)
  qed simp
  have rest: "b @ t = [] \<or> \<not> (json_ws (hd (b @ t)) False \<or> is_special_whitespace (hd (b @ t))) \<and> hd (b @ t) \<noteq> 47"
  proof (cases b)
    case Nil
    then show ?thesis using assms(3) by (cases t) (simp_all add: json_ws_True)
  next
    case (Cons c b')
    then show ?thesis using b by (simp add: json_ws_def is_special_whitespace_def)
  qed
  have d: "drop i cs = a @ b @ t" using assms(1) w by simp
  have "parse_whitespace False cs (at_state i out) = at_state (i + length a) (out @ a)"
    using rest by (intro parse_whitespace_copies [OF d a]) blast
  moreover have "parse_comment cs (at_state (i + length a) (out @ a)) = (False, at_state (i + length a) (out @ a))"
    using drop_shift [OF d] rest by (cases "b @ t") (simp_all add: parse_comment_def char_at_drop)
  ultimately have "skip_ws False cs (at_state i out) = at_state (i + length a) (out @ a)"
    by (simp add: skip_ws_def skip_comments_none)
  with w b show thesis by (rule that)
qed

section \<open>Strings\<close>

definition follows :: "rstr \<Rightarrow> bool" where
  "follows t \<longleftrightarrow> (case t of [] \<Rightarrow> True | c # _ \<Rightarrow> c \<in> {44, 58, 93, 125})"

lemma follows_simps [simp]: "follows []" "follows (c # t) \<longleftrightarrow> c \<in> {44, 58, 93, 125}"
  by (simp_all add: follows_def)

lemma follows_quiet: "follows t \<Longrightarrow> quiet t"
  by (cases t) (auto simp: json_ws_def is_special_whitespace_def)

abbreviation plain_string :: "string_locals \<Rightarrow> bool" where
  "plain_string l \<equiv> \<not> sl_stop_at_delimiter l \<and> sl_stop_at_index l = None \<and> \<not> sl_skip_escape_chars l \<and> sl_quote_char l = 34"

lemma text_between_drop:
  assumes "drop i cs = u @ t"
  shows "text_between cs i (i + length u) = u"
proof (cases "u = []")
  case False
  then have "i + length u \<le> length cs" using arg_cong [OF assms, of length] by (cases u) auto
  then show ?thesis using assms by (simp add: text_between_def get_range_def)
qed (simp add: text_between_def get_range_def)

lemma string_end:
  assumes "drop i cs = 34 # w @ t" "json_blank w" "follows t" "plain_string l"
  shows "(repair_run quote cs (CStringLoop l) (at_state i out) :: 'e repair_result) =
    done_with True (at_state (i + 1 + length w) (out @ sl_str_content l @ [34] @ w))"
proof -
  have d: "drop (Suc i) cs = w @ t" using drop_shift1 [OF assms(1)] .
  from skip_ws_line [OF d assms(2) follows_quiet [OF assms(3)], of "out @ sl_str_content l @ [34]"]
  obtain a b where w: "w = a @ b" and b: "b = [] \<or> hd b = 10"
    and line: "skip_ws False cs (at_state (Suc i) (out @ sl_str_content l @ [34])) =
      at_state (Suc i + length a) ((out @ sl_str_content l @ [34]) @ a)" by blast
  let ?s = "at_state (Suc i + length a) ((out @ sl_str_content l @ [34]) @ a)"
  have db: "drop (Suc i + length a) cs = b @ t" using d by (intro drop_shift) (simp add: w)
  have legit: "length cs \<le> jp_i ?s \<or> is_delimiter (char_at cs ?s)"
  proof (cases "b @ t")
    case Nil
    then show ?thesis using db by simp
  next
    case (Cons c u)
    then have "is_delimiter (Some c)" using b assms(3) by (cases b) (auto simp: is_delimiter_def)
    then show ?thesis using db Cons by (simp add: char_at_drop)
  qed
  have rest: "skip_ws True cs ?s = at_state (Suc i + length w) ((out @ sl_str_content l @ [34]) @ w)"
    using skip_ws_copies [OF db _ follows_quiet [OF assms(3)], of "(out @ sl_str_content l @ [34]) @ a"] assms(2)
    by (simp add: w add.assoc)
  have "char_at cs (at_state (Suc i + length w) ((out @ sl_str_content l @ [34]) @ w)) \<noteq> Some 43"
    using drop_shift [OF d] assms(3) by (cases t) (auto simp: char_at_drop)
  then have concat: "(parse_concatenated_string cs (repair_run quote cs) ?s :: 'e repair_result) =
      done_with False (at_state (Suc i + length w) ((out @ sl_str_content l @ [34]) @ w))"
    unfolding parse_concatenated_string_def rest repair_calls by (simp add: concatenated_loop_def)
  have pushed: "skip_ws False cs (push (sl_str_content l @ [34]) (skip 1 (at_state i out))) = ?s"
    using line by simp
  have "(string_end_quote cs (repair_run quote cs) l (at_state i out) :: 'e repair_result) =
      and_then (parse_concatenated_string cs (repair_run quote cs) ?s) (\<lambda>_. done_with True)"
    unfolding string_end_quote_def Let_def parser_state.simps pushed by (rule if_P) (use legit in auto)
  then show ?thesis
    unfolding repair_calls(7) using assms(1,4) concat
    by (simp add: string_loop_def char_at_drop end_quote_matches_def and_then_def)
qed

lemma string_inside:
  assumes "string_body b" "drop i cs = b @ 34 # w @ t" "json_blank w" "follows t" "plain_string l"
  shows "(repair_run quote cs (CStringLoop l) (at_state i out) :: 'e repair_result) =
    done_with True (at_state (i + length b + 1 + length w) (out @ sl_str_content l @ b @ [34] @ w))"
  using assms(1,2,5)
proof (induction b arbitrary: i l)
  case body_end
  then show ?case using string_end [of i cs w t l quote out] assms(3,4) by simp
next
  case (body_char c b)
  have "(repair_run quote cs (CStringLoop l) (at_state i out) :: 'e repair_result) =
      repair_run quote cs (CStringLoop (l\<lparr>sl_str_content := sl_str_content l @ [c]\<rparr>)) (at_state (Suc i) out)"
    using body_char by (subst repair_calls(7)) (simp add: string_loop_def char_at_drop end_quote_matches_def string_char_def
        is_control_character_def is_valid_string_character_def next_char_def)
  then show ?case
    using body_char.IH [of "Suc i"] body_char.prems drop_shift1 [of i cs c] by simp
next
  case (body_escape e b)
  have d: "drop i cs = [92, e] @ b @ 34 # w @ t" using body_escape.prems by simp
  have "(repair_run quote cs (CStringLoop l) (at_state i out) :: 'e repair_result) =
      repair_run quote cs (CStringLoop (l\<lparr>sl_str_content := sl_str_content l @ [92, e]\<rparr>)) (at_state (i + 2) out)"
    using body_escape d get_at_next [of i cs 92]
    by (subst repair_calls(7)) (auto simp: string_loop_def char_at_drop end_quote_matches_def string_escape_def next_char_def)
  then show ?case
    using body_escape.IH [of "i + 2"] body_escape.prems drop_shift [OF d] by simp
next
  case (body_unicode h b)
  have d: "drop i cs = ([92, 117] @ h) @ b @ 34 # w @ t" using body_unicode.prems by simp
  have "drop (i + 2) cs = h @ b @ 34 # w @ t" using drop_shift [of i cs "[92, 117]"] d by simp
  moreover have hex: "length (takeWhile is_hex h) = 4"
    using body_unicode.hyps(1,2) takeWhile_eq_all_conv [of is_hex h] by (metis list_all_iff)
  ultimately have "hex_run cs i = 6"
    using body_unicode.hyps(2) hex by (simp add: hex_run_def)
  moreover have "text_between cs i (i + 6) = [92, 117] @ h"
    using text_between_drop [OF d] body_unicode.hyps(2) by (simp add: add.commute)
  ultimately have "(repair_run quote cs (CStringLoop l) (at_state i out) :: 'e repair_result) =
      repair_run quote cs (CStringLoop (l\<lparr>sl_str_content := sl_str_content l @ [92, 117] @ h\<rparr>)) (at_state (i + 6) out)"
    using body_unicode d get_at_next [of i cs 92]
    by (subst repair_calls(7)) (auto simp: string_loop_def char_at_drop end_quote_matches_def string_escape_def next_char_def Let_def)
  then show ?case
    using body_unicode.IH [of "i + 6"] body_unicode.prems body_unicode.hyps(2) drop_shift [OF d]
    by (simp add: add.commute)
qed

lemma string_copied:
  assumes "string_body b" "drop i cs = 34 # b @ 34 # w @ t" "json_blank w" "follows t"
  shows "(repair_run quote cs (CString False None) (at_state i out) :: 'e repair_result) =
    done_with True (at_state (i + length b + 2 + length w) (out @ 34 # b @ 34 # w))"
proof -
  let ?l = "\<lparr>sl_stop_at_delimiter = False, sl_stop_at_index = None, sl_skip_escape_chars = False, sl_quote_char = 34,
    sl_i_before = i, sl_o_before = length out, sl_str_content = [34]\<rparr>"
  have "(repair_run quote cs (CString False None) (at_state i out) :: 'e repair_result) = repair_run quote cs (CStringLoop ?l) (at_state (Suc i) out)"
    unfolding repair_calls(6) using assms(2) by (simp add: parse_string_def char_at_drop is_quote_def)
  then show ?thesis
    using string_inside [OF assms(1) drop_shift1 [OF assms(2)] assms(3,4), of ?l quote out] by simp
qed

section \<open>Numbers and words\<close>

lemma get_range_drop:
  assumes "drop i cs = u @ t" "u \<noteq> []"
  shows "get_range cs i (i + length u) = Some u"
proof -
  have "i + length u \<le> length cs" using arg_cong [OF assms(1), of length] assms(2) by (cases u) auto
  then show ?thesis using assms(1) by (simp add: get_range_def)
qed

definition number_stop :: "rstr \<Rightarrow> bool" where
  "number_stop t \<longleftrightarrow> (case t of [] \<Rightarrow> True | c # _ \<Rightarrow> json_ws c True \<or> c \<in> {44, 58, 93, 125})"

lemma number_stop_append: "json_blank w \<Longrightarrow> follows t \<Longrightarrow> number_stop (w @ t)"
  by (cases w; cases t) (auto simp: number_stop_def)

lemma at_end_stop: "drop i cs = t \<Longrightarrow> number_stop t \<Longrightarrow> at_end_of_number cs i"
  by (cases t) (auto simp: number_stop_def at_end_of_number_def get_at_drop is_delimiter_def)

lemma not_at_end: "drop i cs = c # t \<Longrightarrow> is_digit (Some c) \<Longrightarrow> \<not> at_end_of_number cs i"
  by (auto simp: at_end_of_number_def get_at_drop is_delimiter_def is_digit_def json_ws_def)

lemma digits_copied:
  assumes "drop i cs = ds @ t" "list_all (\<lambda>c. is_digit (Some c)) ds" "t = [] \<or> \<not> is_digit (Some (hd t))"
  shows "digits_from cs i = i + length ds"
proof -
  have "takeWhile (\<lambda>c. is_digit (Some c)) (ds @ t) = ds"
    using assms(2,3) by (cases t) (auto simp: list_all_iff takeWhile_append)
  then show ?thesis using assms(1) by (simp add: digits_from_def skip_while_def)
qed

lemma number_part_continues:
  assumes "drop i cs = ds @ t" "digits ds" "t = [] \<or> \<not> is_digit (Some (hd t))"
  shows "number_part cs s i continue = continue (i + length ds)"
proof -
  obtain c u where "ds = c # u" "is_digit (Some c)" using assms(2) by (cases ds) auto
  moreover then have "\<not> at_end_of_number cs i" "get_at cs i = Some c"
    using assms(1) not_at_end [of i cs c "u @ t"] by (simp_all add: get_at_drop)
  ultimately show ?thesis
    using digits_copied [OF assms(1) _ assms(3)] assms(2) by (simp add: number_part_def)
qed

lemma stop_no_digit: "number_stop t \<Longrightarrow> t = [] \<or> \<not> is_digit (Some (hd t))"
  by (cases t) (auto simp: number_stop_def is_digit_def json_ws_def)

lemma number_end_copies:
  assumes "drop i cs = n @ t" "number_stop t" "n \<noteq> []"
    and "\<not> (1 < length n \<and> hd n = 48 \<and> is_digit (Some (n ! 1)))"
  shows "number_end quote cs (at_state i out) (i + length n) = (True, at_state (i + length n) (out @ n))"
proof -
  have "\<not> (1 < length n \<and> starts_with n [48] \<and> is_digit (get_at n 1))"
    using assms(4) by (cases n) (auto simp: starts_with_def get_at_def)
  then show ?thesis
    using at_end_stop [OF drop_shift [OF assms(1)] assms(2)] text_between_drop [OF assms(1)] assms(3)
    by (auto simp: number_end_def Let_def)
qed

lemma number_copied:
  assumes "json_number n" "drop i cs = n @ t" "number_stop t"
  shows "parse_number quote cs (at_state i out) = (True, at_state (i + length n) (out @ n))"
  using assms(1)
proof cases
  case (number sg whole frc expo)
  let ?s = "at_state i out"
  have d0: "drop i cs = sg @ whole @ frc @ expo @ t" using assms(2) number(1) by simp
  then have d1: "drop (i + length sg) cs = whole @ frc @ expo @ t" by (rule drop_shift)
  then have d2: "drop (i + length sg + length whole) cs = frc @ expo @ t" by (rule drop_shift)
  then have d3: "drop (i + length sg + length whole + length frc) cs = expo @ t" by (rule drop_shift)
  have lead: "\<not> (1 < length n \<and> hd n = 48 \<and> is_digit (Some (n ! 1)))"
  proof
    assume zero: "1 < length n \<and> hd n = 48 \<and> is_digit (Some (n ! 1))"
    then have "whole = [48]" "sg = []" using number by (auto simp: hd_append split: if_splits)
    then have "frc @ expo \<noteq> [] \<and> is_digit (Some (hd (frc @ expo)))"
      using zero number(1) by (cases "frc @ expo") auto
    then show False using number(5,6) by (auto simp: is_digit_def)
  qed
  have n: "n \<noteq> []" using number by auto
  have ending: "number_end quote cs ?s (i + length sg + length whole + length frc + length expo) = (True, at_state (i + length n) (out @ n))"
    using number_end_copies [OF assms(2,3) n lead, of quote out] number(1) by (simp add: add.assoc)
  have exponent: "number_exponent quote cs ?s (i + length sg + length whole + length frc) = (True, at_state (i + length n) (out @ n))"
  proof (cases "expo = []")
    case True
    then have "get_at cs (i + length sg + length whole + length frc) \<notin> {Some 101, Some 69}"
      using d3 assms(3) by (cases t) (auto simp: get_at_drop number_stop_def json_ws_def)
    then show ?thesis using ending True by (simp add: number_exponent_def)
  next
    case False
    then obtain e sg' ds where e: "expo = e # sg' @ ds" "e = 101 \<or> e = 69" "sg' \<in> {[], [45], [43]}" "digits ds"
      using number(6) by blast
    let ?j = "i + length sg + length whole + length frc"
    have d4: "drop (Suc ?j) cs = sg' @ ds @ t" using d3 e(1) by (intro drop_shift1 [of _ _ e]) simp
    have d5: "drop (Suc ?j + length sg') cs = ds @ t" using drop_shift [OF d4] .
    have "get_at cs ?j = Some e" using d3 e(1) by (simp add: get_at_drop)
    moreover have "(if get_at cs (?j + 1) \<in> {Some 45, Some 43} then ?j + 2 else ?j + 1) = Suc ?j + length sg'"
      using d4 e(3,4) by (cases ds) (auto simp: get_at_drop is_digit_def)
    ultimately have "number_exponent quote cs ?s ?j = number_end quote cs ?s (Suc ?j + length sg' + length ds)"
      using e(2) number_part_continues [OF d5 e(4) stop_no_digit [OF assms(3)]]
      unfolding number_exponent_def by (auto)
    then show ?thesis using ending e(1) by (simp add: add.assoc)
  qed
  have no_digit: "expo @ t = [] \<or> \<not> is_digit (Some (hd (expo @ t)))"
    using number(6) stop_no_digit [OF assms(3)] by (auto simp: is_digit_def)
  have fraction: "number_fraction quote cs ?s (i + length sg + length whole) = (True, at_state (i + length n) (out @ n))"
  proof (cases "frc = []")
    case True
    then have "get_at cs (i + length sg + length whole) \<noteq> Some 46"
      using d2 number(6) assms(3) by (cases t) (auto simp: get_at_drop number_stop_def json_ws_def)
    then show ?thesis using exponent True by (simp add: number_fraction_def)
  next
    case False
    then obtain ds where f: "frc = 46 # ds" "digits ds" using number(5) by blast
    have d4: "drop (Suc (i + length sg + length whole)) cs = ds @ expo @ t"
      using d2 f(1) by (intro drop_shift1 [of _ _ 46]) simp
    have "get_at cs (i + length sg + length whole) = Some 46" using d2 f(1) by (simp add: get_at_drop)
    then show ?thesis
      using number_part_continues [OF d4 f(2) no_digit] exponent f(1) by (simp add: number_fraction_def)
  qed
  have no_digit': "frc @ expo @ t = [] \<or> \<not> is_digit (Some (hd (frc @ expo @ t)))"
    using number(5) no_digit by (auto simp: is_digit_def)
  show ?thesis
  proof (cases "sg = []")
    case True
    then have "char_at cs ?s \<noteq> Some 45" using d1 number(3) by (cases whole) (auto simp: char_at_drop is_digit_def)
    then show ?thesis
      using digits_copied [OF d1 _ no_digit'] number(3) fraction True by (simp add: parse_number_def)
  next
    case False
    then have "sg = [45]" using number(2) by simp
    then show ?thesis
      using d0 number_part_continues [OF d1 number(3) no_digit'] fraction by (simp add: parse_number_def char_at_drop)
  qed
qed

lemma get_range_prefix:
  assumes "k \<noteq> []"
  shows "get_range cs i (i + length k) = Some k \<longleftrightarrow> take (length k) (drop i cs) = k"
proof
  assume p: "take (length k) (drop i cs) = k"
  have "length k \<le> length (drop i cs)" using p by (metis append_take_drop_id length_append le_add1)
  then have "i + length k \<le> length cs" using assms by (cases "i \<le> length cs") auto
  with p show "get_range cs i (i + length k) = Some k" by (simp add: get_range_def)
qed (auto simp: get_range_def split: if_splits)

lemma word_copied:
  assumes "w \<in> {lit ''true'', lit ''false'', lit ''null''}" "drop i cs = w @ t"
  shows "parse_keywords cs (at_state i out) = (True, at_state (i + length w) (out @ w))"
    and "parse_number quote cs (at_state i out) = (False, at_state i out)"
proof -
  have keyword: "parse_keyword k k' cs (at_state i out) =
      (if take (length k) (w @ t) = k then (True, at_state (i + length k) (out @ k')) else (False, at_state i out))"
    if "k \<noteq> []" for k k'
    using get_range_prefix [OF that, of cs i] assms(2) by (simp add: parse_keyword_def)
  consider "w = lit ''true''" | "w = lit ''false''" | "w = lit ''null''" using assms(1) by blast
  then show "parse_keywords cs (at_state i out) = (True, at_state (i + length w) (out @ w))"
    by cases (simp_all add: parse_keywords_def keyword lit_def)
  obtain c u where c: "w = c # u" "c \<in> {116, 102, 110}" using assms(1) by (auto simp: lit_def)
  then have at: "get_at cs i = Some c" using assms(2) by (simp add: get_at_drop)
  have "\<not> at_end_of_number cs i"
    using at c(2) by (auto simp: at_end_of_number_def is_delimiter_def json_ws_def get_at_def split: if_splits)
  moreover have "digits_from cs i = i" using c assms(2) by (auto simp: digits_from_def skip_while_def is_digit_def)
  ultimately show "parse_number quote cs (at_state i out) = (False, at_state i out)"
    using at c(2) by (auto simp: parse_number_def char_at_def number_fraction_def number_exponent_def number_end_def)
qed

section \<open>Values\<close>

lemma and_then_done [simp]: "and_then (done_with b s) f = f b s"
  by (simp add: and_then_def)

lemma or_try_done [simp]: "or_try (done_with True s) f = done_with True s" "or_try (done_with False s) f = f s"
  by (simp_all add: or_try_def)

definition value_head :: "int \<Rightarrow> bool" where
  "value_head c \<longleftrightarrow> c \<in> {34, 91, 123, 45, 116, 102, 110} \<or> is_digit (Some c)"

lemma value_head_quiet: "value_head c \<Longrightarrow> quiet (c # t) \<and> c \<notin> {46, 93, 44, 125, 43}"
  by (auto simp: value_head_def json_ws_def is_special_whitespace_def is_digit_def)

lemma json_number_head: "json_number n \<Longrightarrow> \<exists>c u. n = c # u \<and> (c = 45 \<or> is_digit (Some c))"
  by (erule json_number.cases) (auto simp: neq_Nil_conv)

lemma json_value_head: "json_value v \<Longrightarrow> \<exists>c u. v = c # u \<and> value_head c"
  by (erule json_value.cases) (auto simp: value_head_def lit_def dest: json_number_head)

lemma json_elements_head: "json_elements es \<Longrightarrow> \<exists>c u. es = c # u \<and> value_head c"
  by (erule json_elements.cases) (auto dest: json_value_head)

text \<open>What \<open>parse_value\<close> tries after the white space, and the steps of the two loops after commas and blanks.\<close>

definition value_chain :: "(rstr \<Rightarrow> rstr) \<Rightarrow> rstr \<Rightarrow> 'e repair_rec \<Rightarrow> parser_state \<Rightarrow> 'e repair_result" where
  "value_chain quote cs rec s =
     or_try (or_try (or_try (or_try (or_try (or_try (rec CObject s) (rec CArray)) (rec (CString False None)))
       (pure_step (parse_number quote cs))) (pure_step (parse_keywords cs))) (rec (CUnquoted False)))
       (pure_step (parse_regex quote cs))"

definition array_step :: "rstr \<Rightarrow> 'e repair_rec \<Rightarrow> parser_state \<Rightarrow> 'e repair_result" where
  "array_step cs rec s = and_then (rec CValue s) (\<lambda>processed_value s.
     if processed_value then rec (CArrayLoop False) s else close_bracket 93 cs (strip_last_occurrence [44] s))"

definition object_step :: "rstr \<Rightarrow> 'e repair_rec \<Rightarrow> parser_state \<Rightarrow> 'e repair_result" where
  "object_step cs rec s = and_then (or_try (rec (CString False None) s) (rec (CUnquoted True)))
     (\<lambda>processed_key s.
       if processed_key then object_member cs rec s
       else if char_at cs s \<in> {Some 125, Some 123, Some 93, Some 91, None}
       then close_bracket 125 cs (strip_last_occurrence [44] s)
       else Some (Inl (ObjectKeyExpected (jp_i s))))"

lemma skip_ellipsis_copies:
  assumes "drop i cs = w @ c # u" "json_blank w" "value_head c"
  shows "skip_ellipsis cs (at_state i out) = at_state (i + length w) (out @ w)"
proof -
  have "skip_ws True cs (at_state i out) = at_state (i + length w) (out @ w)"
    using value_head_quiet [OF assms(3), of u] by (intro skip_ws_copies [OF assms(1,2)]) simp
  moreover have "char_at cs (at_state (i + length w) (out @ w)) \<noteq> Some 46"
    using drop_shift [OF assms(1)] value_head_quiet [OF assms(3)] by (simp add: char_at_drop)
  ultimately show ?thesis by (simp add: skip_ellipsis_def Let_def)
qed

lemma comma_copied:
  assumes "drop i cs = 44 # u"
  shows "comma_or_repair cs (at_state i out) = at_state (Suc i) (out @ [44])"
  using assms by (simp add: comma_or_repair_def parse_character_def char_at_drop)

lemma array_loop_enters:
  assumes "drop i cs = c # u" "value_head c"
  shows "array_loop cs rec True (at_state i out) = array_step cs rec (at_state i out)"
proof -
  have "i < length cs" using assms(1) by (cases "i < length cs") auto
  then show ?thesis
    using skip_ellipsis_copies [of i cs "[]" c u out] assms value_head_quiet [OF assms(2), of u]
    by (simp add: array_loop_def array_step_def char_at_drop)
qed

lemma array_loop_continues:
  assumes "drop i cs = 44 # w @ c # u" "json_blank w" "value_head c"
  shows "array_loop cs rec False (at_state i out) = array_step cs rec (at_state (Suc i + length w) (out @ 44 # w))"
proof -
  have "i < length cs" using assms(1) by (cases "i < length cs") auto
  then show ?thesis
    using skip_ellipsis_copies [OF drop_shift1 [OF assms(1)] assms(2,3), of "out @ [44]"] comma_copied [OF assms(1)] assms(1)
    by (simp add: array_loop_def array_step_def char_at_drop)
qed

lemma object_loop_enters:
  assumes "drop i cs = c # u" "value_head c"
  shows "object_loop cs rec True (at_state i out) = object_step cs rec (at_state i out)"
proof -
  have "i < length cs" using assms(1) by (cases "i < length cs") auto
  then show ?thesis
    using skip_ellipsis_copies [of i cs "[]" c u out] assms value_head_quiet [OF assms(2), of u]
    by (simp add: object_loop_def object_step_def char_at_drop Let_def)
qed

lemma object_loop_continues:
  assumes "drop i cs = 44 # w @ c # u" "json_blank w" "value_head c"
  shows "object_loop cs rec False (at_state i out) = object_step cs rec (at_state (Suc i + length w) (out @ 44 # w))"
proof -
  have "i < length cs" using assms(1) by (cases "i < length cs") auto
  moreover have ws: "skip_ws True cs (at_state (Suc i) (out @ [44])) = at_state (Suc i + length w) ((out @ [44]) @ w)"
    using value_head_quiet [OF assms(3), of u] by (intro skip_ws_copies [OF drop_shift1 [OF assms(1)] assms(2)]) simp
  moreover have "skip_ellipsis cs (at_state (Suc i + length w) (out @ 44 # w)) = at_state (Suc i + length w) (out @ 44 # w)"
    using skip_ellipsis_copies [of "Suc i + length w" cs "[]" c u "out @ 44 # w"] assms(3)
      drop_shift [OF drop_shift1 [OF assms(1)]] by simp
  ultimately show ?thesis
    using comma_copied [OF assms(1)] assms(1)
    by (simp add: object_loop_def object_step_def char_at_drop Let_def)
qed

lemma loop_closes:
  assumes "drop i cs = bracket # t"
  shows "close_bracket bracket cs (at_state i out) = done_with True (at_state (Suc i) (out @ [bracket]))"
    "bracket = 93 \<Longrightarrow> array_loop cs rec initial (at_state i out) = done_with True (at_state (Suc i) (out @ [93]))"
    "bracket = 125 \<Longrightarrow> object_loop cs rec initial (at_state i out) = done_with True (at_state (Suc i) (out @ [125]))"
  using assms by (simp_all add: close_bracket_def array_loop_def object_loop_def char_at_drop)

lemma open_bracket_copies:
  assumes "drop i cs = bracket # w @ c # u" "json_blank w" "quiet (c # u)" "c \<noteq> 44"
  shows "open_bracket bracket cs (at_state i out) = at_state (Suc i + length w) (out @ bracket # w)"
proof -
  have ws: "skip_ws True cs (at_state (Suc i) (out @ [bracket])) = at_state (Suc i + length w) ((out @ [bracket]) @ w)"
    by (rule skip_ws_copies [OF drop_shift1 [OF assms(1)] assms(2,3)])
  have "char_at cs (at_state (Suc i + length w) (out @ bracket # w)) \<noteq> Some 44"
    using drop_shift [OF drop_shift1 [OF assms(1)]] assms(4) by (simp add: char_at_drop)
  then show ?thesis using ws by (simp add: open_bracket_def skip_character_def Let_def)
qed

lemma not_tried:
  "char_at cs s \<noteq> Some 123 \<Longrightarrow> repair_run quote cs CObject s = done_with False s"
  "char_at cs s \<noteq> Some 91 \<Longrightarrow> repair_run quote cs CArray s = done_with False s"
  "char_at cs s \<noteq> Some 92 \<Longrightarrow> \<not> is_quote (char_at cs s) \<Longrightarrow> repair_run quote cs (CString b k) s = done_with False s"
  by (simp_all add: repair_calls parse_object_def parse_array_def parse_string_def)

text \<open>A value with what is around it, from what the chain does with it.\<close>

lemma value_around:
  assumes "drop i cs = w0 @ v @ w @ t" "json_blank w0" "json_blank w" "follows t" "value_head c" "v = c # u" "w = a @ b"
    and "value_chain quote cs (repair_run quote cs) (at_state (i + length w0) (out @ w0)) =
      (done_with True (at_state (i + length w0 + length v + length a) (out @ w0 @ v @ a)) :: 'e repair_result)"
  shows "(repair_run quote cs CValue (at_state i out) :: 'e repair_result) =
    done_with True (at_state (i + length (w0 @ v @ w)) (out @ w0 @ v @ w))"
proof -
  have "skip_ws True cs (at_state i out) = at_state (i + length w0) (out @ w0)"
    using value_head_quiet [OF assms(5)] assms(6) by (intro skip_ws_copies [OF assms(1,2)]) simp
  moreover have "drop (i + length (w0 @ v @ a)) cs = b @ t"
    using assms(1,7) by (intro drop_shift) simp
  then have "skip_ws True cs (at_state (i + length (w0 @ v @ a)) (out @ w0 @ v @ a)) =
      at_state (i + length (w0 @ v @ a) + length b) ((out @ w0 @ v @ a) @ b)"
    using assms(3,4,7) by (intro skip_ws_copies [where t = t]) (simp_all add: follows_quiet)
  ultimately show ?thesis
    using assms(8) by (simp add: repair_calls(1) parse_value_def value_chain_def [symmetric] assms(7) add.assoc)
qed

definition value_ok :: "rstr \<Rightarrow> 'e repair_rec \<Rightarrow> rstr \<Rightarrow> bool" where
  "value_ok cs rec v \<longleftrightarrow> (\<forall>i out w0 w t. drop i cs = w0 @ v @ w @ t \<longrightarrow> json_blank w0 \<longrightarrow> json_blank w \<longrightarrow> follows t \<longrightarrow>
     rec CValue (at_state i out) = done_with True (at_state (i + length (w0 @ v @ w)) (out @ w0 @ v @ w)))"

definition elements_ok :: "rstr \<Rightarrow> 'e repair_rec \<Rightarrow> rstr \<Rightarrow> bool" where
  "elements_ok cs rec es \<longleftrightarrow> (\<forall>i out t. drop i cs = es @ t \<longrightarrow>
     array_step cs rec (at_state i out) = done_with True (at_state (i + length es) (out @ es)))"

definition members_ok :: "rstr \<Rightarrow> 'e repair_rec \<Rightarrow> rstr \<Rightarrow> bool" where
  "members_ok cs rec ms \<longleftrightarrow> (\<forall>i out t. drop i cs = ms @ t \<longrightarrow>
     object_step cs rec (at_state i out) = done_with True (at_state (i + length ms) (out @ ms)))"

lemma value_okD:
  "value_ok cs rec v \<Longrightarrow> drop i cs = w0 @ v @ w @ t \<Longrightarrow> json_blank w0 \<Longrightarrow> json_blank w \<Longrightarrow> follows t \<Longrightarrow>
     rec CValue (at_state i out) = done_with True (at_state (i + length (w0 @ v @ w)) (out @ w0 @ v @ w))"
  unfolding value_ok_def by blast

lemma elements_okD:
  "elements_ok cs rec es \<Longrightarrow> drop i cs = es @ t \<Longrightarrow>
     array_step cs rec (at_state i out) = done_with True (at_state (i + length es) (out @ es))"
  unfolding elements_ok_def by blast

lemma members_okD:
  "members_ok cs rec ms \<Longrightarrow> drop i cs = ms @ t \<Longrightarrow>
     object_step cs rec (at_state i out) = done_with True (at_state (i + length ms) (out @ ms))"
  unfolding members_ok_def by blast

text \<open>It is enough that the chain copies the value.\<close>

lemma value_okI:
  fixes quote :: "rstr \<Rightarrow> rstr" and cs :: rstr
  defines "run \<equiv> repair_run quote cs :: 'e repair_rec"
  assumes "v = c # u" "value_head c"
    and "\<And>i out t. drop i cs = v @ t \<Longrightarrow> number_stop t \<Longrightarrow>
      value_chain quote cs run (at_state i out) = done_with True (at_state (i + length v) (out @ v))"
  shows "value_ok cs run v"
  unfolding value_ok_def
proof (intro allI impI)
  fix i out w0 w t
  assume d: "drop i cs = w0 @ v @ w @ t" and blank: "json_blank w0" "json_blank w" and "follows t"
  then have "value_chain quote cs run (at_state (i + length w0) (out @ w0)) =
      done_with True (at_state (i + length w0 + length v) ((out @ w0) @ v))"
    using assms(4) [OF drop_shift [OF d] number_stop_append] by blast
  then show "run CValue (at_state i out) = done_with True (at_state (i + length (w0 @ v @ w)) (out @ w0 @ v @ w))"
    using value_around [OF d blank \<open>follows t\<close> assms(3,2), of "[]" w quote out] unfolding run_def by simp
qed

lemma array_ok:
  fixes quote :: "rstr \<Rightarrow> rstr" and cs :: rstr
  defines "run \<equiv> repair_run quote cs :: 'e repair_rec"
  assumes "json_blank w" "es = c # u" "quiet es" "c \<noteq> 44"
    and "\<And>i out t. drop i cs = es @ t \<Longrightarrow> array_loop cs run True (at_state i out) = done_with True (at_state (i + length es) (out @ es))"
  shows "value_ok cs run (91 # w @ es)"
  unfolding run_def
proof (rule value_okI [OF refl])
  show "value_head 91" by (simp add: value_head_def)
  fix i out t
  assume d: "drop i cs = (91 # w @ es) @ t"
  then have d1: "drop i cs = 91 # w @ c # u @ t" by (simp add: assms(3))
  have "quiet (c # u @ t)" using assms(3,4) by simp
  from open_bracket_copies [OF d1 assms(2) this assms(5), of out]
  have "repair_run quote cs CArray (at_state i out) = run (CArrayLoop True) (at_state (Suc i + length w) (out @ 91 # w))"
    using d by (subst repair_calls(4)) (simp add: parse_array_def char_at_drop run_def)
  moreover have "drop (Suc i + length w) cs = es @ t"
    using drop_shift [of i cs "91 # w" "es @ t"] d by simp
  then have "run (CArrayLoop True) (at_state (Suc i + length w) (out @ 91 # w)) =
      done_with True (at_state (i + length (91 # w @ es)) (out @ 91 # w @ es))"
    unfolding run_def repair_calls(5) using assms(6) unfolding run_def by simp
  ultimately have "(repair_run quote cs CArray (at_state i out) :: 'e repair_result) =
      done_with True (at_state (i + length (91 # w @ es)) (out @ 91 # w @ es))" by simp
  moreover have "(repair_run quote cs CObject (at_state i out) :: 'e repair_result) = done_with False (at_state i out)"
    using d by (intro not_tried) (simp add: char_at_drop)
  ultimately show "value_chain quote cs (repair_run quote cs) (at_state i out) =
      (done_with True (at_state (i + length (91 # w @ es)) (out @ 91 # w @ es)) :: 'e repair_result)"
    by (simp add: value_chain_def)
qed

lemma object_ok:
  fixes quote :: "rstr \<Rightarrow> rstr" and cs :: rstr
  defines "run \<equiv> repair_run quote cs :: 'e repair_rec"
  assumes "json_blank w" "ms = c # u" "quiet ms" "c \<noteq> 44"
    and "\<And>i out t. drop i cs = ms @ t \<Longrightarrow> object_loop cs run True (at_state i out) = done_with True (at_state (i + length ms) (out @ ms))"
  shows "value_ok cs run (123 # w @ ms)"
  unfolding run_def
proof (rule value_okI [OF refl])
  show "value_head 123" by (simp add: value_head_def)
  fix i out t
  assume d: "drop i cs = (123 # w @ ms) @ t"
  then have d1: "drop i cs = 123 # w @ c # u @ t" by (simp add: assms(3))
  have "quiet (c # u @ t)" using assms(3,4) by simp
  from open_bracket_copies [OF d1 assms(2) this assms(5), of out]
  have "repair_run quote cs CObject (at_state i out) = run (CObjectLoop True) (at_state (Suc i + length w) (out @ 123 # w))"
    using d by (subst repair_calls(2)) (simp add: parse_object_def char_at_drop run_def)
  moreover have "drop (Suc i + length w) cs = ms @ t"
    using drop_shift [of i cs "123 # w" "ms @ t"] d by simp
  then have "run (CObjectLoop True) (at_state (Suc i + length w) (out @ 123 # w)) =
      done_with True (at_state (i + length (123 # w @ ms)) (out @ 123 # w @ ms))"
    unfolding run_def repair_calls(3) using assms(6) unfolding run_def by simp
  ultimately show "value_chain quote cs (repair_run quote cs) (at_state i out) =
      (done_with True (at_state (i + length (123 # w @ ms)) (out @ 123 # w @ ms)) :: 'e repair_result)"
    by (simp add: value_chain_def)
qed

lemma string_ok:
  fixes quote :: "rstr \<Rightarrow> rstr" and cs :: rstr
  defines "run \<equiv> repair_run quote cs :: 'e repair_rec"
  assumes "string_body b"
  shows "value_ok cs run (34 # b @ [34])"
  unfolding value_ok_def
proof (intro allI impI)
  fix i out w0 w t
  assume d: "drop i cs = w0 @ (34 # b @ [34]) @ w @ t" and blank: "json_blank w0" "json_blank w" and t: "follows t"
  let ?s = "at_state (i + length w0) (out @ w0)"
  have d1: "drop (i + length w0) cs = 34 # b @ 34 # w @ t" using drop_shift [OF d] by simp
  have "(repair_run quote cs CObject ?s :: 'e repair_result) = done_with False ?s"
    "(repair_run quote cs CArray ?s :: 'e repair_result) = done_with False ?s"
    using d1 by (simp_all add: not_tried char_at_drop)
  then have "value_chain quote cs run ?s =
      (done_with True (at_state (i + length w0 + length (34 # b @ [34]) + length w) (out @ w0 @ (34 # b @ [34]) @ w)) :: 'e repair_result)"
    unfolding run_def by (simp add: value_chain_def string_copied [OF assms(2) d1 blank(2) t])
  moreover have "value_head 34" by (simp add: value_head_def)
  ultimately show "run CValue (at_state i out) = done_with True (at_state (i + length (w0 @ (34 # b @ [34]) @ w)) (out @ w0 @ (34 # b @ [34]) @ w))"
    unfolding run_def by (intro value_around [OF d blank t, of 34 "b @ [34]" w "[]"]) simp_all
qed

lemma plain_head:
  assumes "drop i cs = c # t" "value_head c" "c \<notin> {34, 91, 123}"
  shows "repair_run quote cs CObject (at_state i out) = done_with False (at_state i out)"
    "repair_run quote cs CArray (at_state i out) = done_with False (at_state i out)"
    "repair_run quote cs (CString False None) (at_state i out) = done_with False (at_state i out)"
  using assms by (auto simp: char_at_drop value_head_def is_quote_def is_digit_def intro!: not_tried)

lemma number_ok: "json_number n \<Longrightarrow> value_ok cs (repair_run quote cs :: 'e repair_rec) n"
proof -
  assume n: "json_number n"
  then obtain c u where c: "n = c # u" "c = 45 \<or> is_digit (Some c)" using json_number_head by blast
  then have head: "value_head c" "c \<notin> {34, 91, 123}" by (auto simp: value_head_def is_digit_def)
  show ?thesis
  proof (rule value_okI [OF c(1) head(1)])
    fix i out t
    assume d: "drop i cs = n @ t" and "number_stop t"
    then show "value_chain quote cs (repair_run quote cs :: 'e repair_rec) (at_state i out) = done_with True (at_state (i + length n) (out @ n))"
      using head c(1) number_copied [OF n d] d by (simp add: value_chain_def plain_head [of i cs c "u @ t"])
  qed
qed

lemma word_ok: "v \<in> {lit ''true'', lit ''false'', lit ''null''} \<Longrightarrow> value_ok cs (repair_run quote cs :: 'e repair_rec) v"
proof -
  assume v: "v \<in> {lit ''true'', lit ''false'', lit ''null''}"
  then obtain c u where c: "v = c # u" "c \<in> {116, 102, 110}" by (auto simp: lit_def)
  then have head: "value_head c" "c \<notin> {34, 91, 123}" by (auto simp: value_head_def)
  show ?thesis
  proof (rule value_okI [OF c(1) head(1)])
    fix i out t
    assume d: "drop i cs = v @ t"
    then show "value_chain quote cs (repair_run quote cs :: 'e repair_rec) (at_state i out) = done_with True (at_state (i + length v) (out @ v))"
      using head c(1) word_copied [OF v d] d by (simp add: value_chain_def plain_head [of i cs c "u @ t"])
  qed
qed

lemma elements_last_ok:
  assumes "value_ok cs (repair_run quote cs :: 'e repair_rec) v" "json_blank w"
  shows "elements_ok cs (repair_run quote cs :: 'e repair_rec) (v @ w @ [93])"
  unfolding elements_ok_def
proof (intro allI impI)
  fix i out t
  assume d: "drop i cs = (v @ w @ [93]) @ t"
  have close: "drop (i + length (v @ w)) cs = 93 # t" using d by (intro drop_shift) simp
  show "array_step cs (repair_run quote cs :: 'e repair_rec) (at_state i out) = done_with True (at_state (i + length (v @ w @ [93])) (out @ v @ w @ [93]))"
    using value_okD [OF assms(1), of i "[]" w "93 # t" out] d assms(2) loop_closes(2) [OF close refl, of "repair_run quote cs :: 'e repair_rec" False]
    by (simp add: array_step_def repair_calls(5))
qed

lemma elements_more_ok:
  assumes "value_ok cs (repair_run quote cs :: 'e repair_rec) v" "json_blank w" "json_blank w'" "elements_ok cs (repair_run quote cs :: 'e repair_rec) es"
    and "json_elements es"
  shows "elements_ok cs (repair_run quote cs :: 'e repair_rec) (v @ w @ 44 # w' @ es)"
  unfolding elements_ok_def
proof (intro allI impI)
  fix i out t
  assume d: "drop i cs = (v @ w @ 44 # w' @ es) @ t"
  obtain c u where c: "es = c # u" "value_head c" using json_elements_head [OF assms(5)] by blast
  have d1: "drop (i + length (v @ w)) cs = 44 # w' @ es @ t" using d by (intro drop_shift) simp
  have d2: "drop (Suc (i + length (v @ w)) + length w') cs = es @ t"
    by (rule drop_shift [OF drop_shift1 [OF d1]])
  show "array_step cs (repair_run quote cs :: 'e repair_rec) (at_state i out) =
      done_with True (at_state (i + length (v @ w @ 44 # w' @ es)) (out @ v @ w @ 44 # w' @ es))"
    using value_okD [OF assms(1), of i "[]" w "44 # w' @ es @ t" out] d assms(2)
      array_loop_continues [of "i + length (v @ w)" cs w' c "u @ t" "repair_run quote cs :: 'e repair_rec" "out @ v @ w"] d1 c assms(3)
      elements_okD [OF assms(4) d2, of "out @ v @ w @ 44 # w'"]
    by (simp add: array_step_def [of cs _ "at_state i out"] repair_calls(5) add.assoc)
qed

text \<open>A key, its colon and its value, up to the comma or the brace.\<close>

lemma member_copied:
  assumes "string_body k" "json_blank w1" "json_blank w2" "value_ok cs (repair_run quote cs :: 'e repair_rec) v" "json_blank w3"
    and "drop i cs = 34 # k @ 34 # w1 @ 58 # w2 @ v @ w3 @ t" "follows t"
  shows "object_step cs (repair_run quote cs :: 'e repair_rec) (at_state i out) =
    repair_run quote cs (CObjectLoop False) (at_state (i + length (34 # k @ 34 # w1 @ 58 # w2 @ v @ w3)) (out @ 34 # k @ 34 # w1 @ 58 # w2 @ v @ w3))"
proof -
  have d1: "drop (i + length (34 # k @ 34 # w1)) cs = 58 # w2 @ v @ w3 @ t"
    using assms(6) by (intro drop_shift) simp
  let ?s = "at_state (i + length (34 # k @ 34 # w1)) (out @ 34 # k @ 34 # w1)"
  have "skip_ws True cs ?s = ?s"
    by (rule skip_ws_nothing [OF d1]) (simp add: json_ws_def is_special_whitespace_def)
  then have "object_member cs (repair_run quote cs :: 'e repair_rec) ?s =
      repair_run quote cs (CObjectLoop False) (at_state (i + length (34 # k @ 34 # w1 @ 58 # w2 @ v @ w3)) (out @ 34 # k @ 34 # w1 @ 58 # w2 @ v @ w3))"
    using value_okD [OF assms(4) drop_shift1 [OF d1] assms(3,5,7), of "out @ 34 # k @ 34 # w1 @ [58]"] d1
    by (simp add: object_member_def parse_character_def char_at_drop Let_def add.assoc)
  then show ?thesis
    by (simp add: object_step_def string_copied [OF assms(1,6,2)] add.assoc)
qed

lemma members_last_ok:
  assumes "string_body k" "json_blank w1" "json_blank w2" "value_ok cs (repair_run quote cs :: 'e repair_rec) v" "json_blank w3"
  shows "members_ok cs (repair_run quote cs :: 'e repair_rec) (34 # k @ 34 # w1 @ 58 # w2 @ v @ w3 @ [125])"
  unfolding members_ok_def
proof (intro allI impI)
  fix i out t
  assume d: "drop i cs = (34 # k @ 34 # w1 @ 58 # w2 @ v @ w3 @ [125]) @ t"
  have close: "drop (i + length (34 # k @ 34 # w1 @ 58 # w2 @ v @ w3)) cs = 125 # t" using d by (intro drop_shift) simp
  show "object_step cs (repair_run quote cs :: 'e repair_rec) (at_state i out) =
      done_with True (at_state (i + length (34 # k @ 34 # w1 @ 58 # w2 @ v @ w3 @ [125])) (out @ 34 # k @ 34 # w1 @ 58 # w2 @ v @ w3 @ [125]))"
    using member_copied [OF assms, of i "125 # t" out] d loop_closes(3) [OF close refl, of "repair_run quote cs :: 'e repair_rec" False] by (simp add: repair_calls(3))
qed

lemma members_more_ok:
  assumes "string_body k" "json_blank w1" "json_blank w2" "value_ok cs (repair_run quote cs :: 'e repair_rec) v" "json_blank w3"
    and "json_blank w4" "members_ok cs (repair_run quote cs :: 'e repair_rec) ms" "ms = 34 # u"
  shows "members_ok cs (repair_run quote cs :: 'e repair_rec) (34 # k @ 34 # w1 @ 58 # w2 @ v @ w3 @ 44 # w4 @ ms)"
  unfolding members_ok_def
proof (intro allI impI)
  fix i out t
  let ?m = "34 # k @ 34 # w1 @ 58 # w2 @ v @ w3"
  assume d: "drop i cs = (34 # k @ 34 # w1 @ 58 # w2 @ v @ w3 @ 44 # w4 @ ms) @ t"
  have d1: "drop (i + length ?m) cs = 44 # w4 @ ms @ t" using d by (intro drop_shift) simp
  have d2: "drop (Suc (i + length ?m) + length w4) cs = ms @ t" by (rule drop_shift [OF drop_shift1 [OF d1]])
  have "value_head 34" by (simp add: value_head_def)
  then show "object_step cs (repair_run quote cs :: 'e repair_rec) (at_state i out) =
      done_with True (at_state (i + length (34 # k @ 34 # w1 @ 58 # w2 @ v @ w3 @ 44 # w4 @ ms)) (out @ 34 # k @ 34 # w1 @ 58 # w2 @ v @ w3 @ 44 # w4 @ ms))"
    using member_copied [OF assms(1-5), of i "44 # w4 @ ms @ t" out] d
      object_loop_continues [of "i + length ?m" cs w4 34 "u @ t" "repair_run quote cs :: 'e repair_rec" "out @ ?m"] d1 assms(6,8)
      members_okD [OF assms(7) d2, of "out @ ?m @ 44 # w4"]
    by (simp add: repair_calls(3) add.assoc)
qed

lemma json_members_head: "json_members ms \<Longrightarrow> \<exists>u. ms = 34 # u"
  by (erule json_members.cases) auto

lemma json_copied:
  "json_value v \<Longrightarrow> value_ok cs (repair_run quote cs :: 'e repair_rec) v"
  "json_elements es \<Longrightarrow> elements_ok cs (repair_run quote cs :: 'e repair_rec) es"
  "json_members ms \<Longrightarrow> members_ok cs (repair_run quote cs :: 'e repair_rec) ms"
proof (induction rule: json_value_json_elements_json_members.inducts)
  case (value_array w es)
  obtain c u where c: "es = c # u" "value_head c" using json_elements_head [OF value_array.hyps(2)] by blast
  have "array_loop cs (repair_run quote cs :: 'e repair_rec) True (at_state i out) = done_with True (at_state (i + length es) (out @ es))"
    if d: "drop i cs = es @ t" for i out t
    using array_loop_enters [of i cs c "u @ t" "repair_run quote cs :: 'e repair_rec" out] elements_okD [OF value_array.IH d] d c by simp
  then show ?case
    using value_head_quiet [OF c(2), of u] value_array.hyps(1) c(1) by (intro array_ok [where c = c and u = u]) auto
next
  case (value_object w ms)
  obtain u where u: "ms = 34 # u" using json_members_head [OF value_object.hyps(2)] by blast
  have head: "value_head 34" by (simp add: value_head_def)
  have "object_loop cs (repair_run quote cs :: 'e repair_rec) True (at_state i out) = done_with True (at_state (i + length ms) (out @ ms))"
    if d: "drop i cs = ms @ t" for i out t
    using object_loop_enters [of i cs 34 "u @ t" "repair_run quote cs :: 'e repair_rec" out] members_okD [OF value_object.IH d] d u head by simp
  then show ?case
    using value_head_quiet [OF head, of u] value_object.hyps(1) u by (intro object_ok [where c = 34 and u = u]) auto
next
  case (value_empty_array w)
  show ?case
    using value_empty_array
    by (intro array_ok [where c = 93 and u = "[]"]) (simp_all add: loop_closes(2) json_ws_def is_special_whitespace_def)
next
  case (value_empty_object w)
  show ?case
    using value_empty_object
    by (intro object_ok [where c = 125 and u = "[]"]) (simp_all add: loop_closes(3) json_ws_def is_special_whitespace_def)
next
  case (members_more k w1 w2 v w3 w4 ms)
  then show ?case using json_members_head [OF members_more.hyps(7)] members_more_ok by blast
qed (simp_all add: string_ok number_ok word_ok elements_last_ok elements_more_ok members_last_ok)

section \<open>The whole text\<close>

lemma markdown_absent:
  assumes "drop i cs = t" "\<And>b. b \<in> set blocks \<Longrightarrow> b \<noteq> [] \<and> take (length b) t \<noteq> b"
  shows "parse_markdown_code_block blocks cs (at_state i out) = at_state i out"
proof -
  have "skip_markdown_code_block blocks cs (at_state i out) = (False, at_state i out)"
    using assms(2)
  proof (induction blocks)
    case (Cons b blocks)
    then have "get_range cs i (i + length b) \<noteq> Some b"
      using get_range_prefix [of b cs i] assms(1) by auto
    then show ?case using Cons by simp
  qed simp
  then show ?thesis by (simp add: parse_markdown_code_block_def)
qed

lemma no_fence:
  assumes "json_blank w" "json_value v" "b \<in> {lit ''```'', lit ''[```'', lit ''{```''}"
  shows "take (length b) (w @ v @ w') \<noteq> b"
proof (cases w)
  case (Cons c u)
  then show ?thesis using assms(1,3) by (auto simp: lit_def json_ws_def)
next
  case Nil
  have inner: "\<And>c u. json_elements (c # u) \<Longrightarrow> c \<noteq> 96" "\<And>c u. json_members (c # u) \<Longrightarrow> c \<noteq> 96"
    by (auto simp: value_head_def is_digit_def dest!: json_elements_head json_members_head)
  from assms(2) have "take (length b) (v @ w') \<noteq> b"
    using assms(3)
  proof cases
    case (value_array x es)
    then obtain c u where "es = c # u" "c \<noteq> 96" using json_elements_head [of es] inner by fastforce
    then show ?thesis using value_array assms(3) by (cases x) (auto simp: lit_def json_ws_def)
  next
    case (value_object x ms)
    then obtain c u where "ms = c # u" "c \<noteq> 96" using json_members_head [of ms] by fastforce
    then show ?thesis using value_object assms(3) by (cases x) (auto simp: lit_def json_ws_def)
  next
    case value_number
    then show ?thesis using json_number_head [of v] assms(3) by (auto simp: lit_def is_digit_def)
  next
    case (value_empty_array x)
    then show ?thesis using assms(3) by (cases x) (auto simp: lit_def json_ws_def)
  next
    case (value_empty_object x)
    then show ?thesis using assms(3) by (cases x) (auto simp: lit_def json_ws_def)
  qed (auto simp: lit_def)
  then show ?thesis using Nil by simp
qed

text \<open>C10: A text that is JSON already is not changed: every function of the parser writes what it reads, so that the value
  read is the value of the text itself.\<close>

theorem valid_json_is_kept:
  assumes "json_text cs"
  shows "json_repair quote de cs = Some (case de cs of Inl e \<Rightarrow> Inl (JsonError e) | Inr v \<Rightarrow> Inr v)"
proof -
  obtain w v w' where cs: "cs = w @ v @ w'" and blank: "json_blank w" "json_blank w'" and v: "json_value v"
    using assms by (auto simp: json_text_def)
  have start: "parse_markdown_code_block [lit ''```'', lit ''[```'', lit ''{```''] cs (at_state 0 []) = at_state 0 []"
    using no_fence [OF blank(1) v] cs by (intro markdown_absent [OF refl]) (auto simp: lit_def)
  have val: "repair_run quote cs CValue (at_state 0 []) = done_with True (at_state (length cs) cs)"
    using value_okD [OF json_copied(1) [OF v], of 0 cs w w' "[]" quote "[]"] cs blank by simp
  have "parse_markdown_code_block [lit ''```'', lit ''```]'', lit ''```}''] cs (at_state (length cs) cs) = at_state (length cs) cs"
    by (intro markdown_absent [where t = "[]"]) (auto simp: lit_def)
  then have rest: "repair_rest quote cs (at_state (length cs) cs) = done_with True (at_state (length cs) cs)"
    by (simp add: repair_rest_def parse_character_def char_at_def get_at_def is_start_of_value_def is_quote_def Let_def)
  have "skip_redundant cs (at_state (length cs) cs) = at_state (length cs) cs"
    by (subst skip_redundant.simps) (simp add: char_at_def get_at_def)
  then show ?thesis
    unfolding json_repair_def start val and_then_done if_True rest by simp
qed

lemma valid_json_is_kept_witness:
  "json_repair (\<lambda>t. t) (Inr :: rstr \<Rightarrow> rstr + rstr) (lit ''[true]'') = Some (Inr (lit ''[true]''))"
proof -
  have "json_elements ((lit ''true'') @ [] @ [93])" by (intro elements_last value_word) simp_all
  then have "json_value (91 # [] @ lit ''true'' @ [] @ [93])" by (intro value_array) simp_all
  then have "json_text (lit ''[true]'')"
    unfolding json_text_def by (intro exI [of _ "[]"] exI [of _ "lit ''[true]''"]) (simp add: lit_def)
  then show ?thesis using valid_json_is_kept [of "lit ''[true]''" "\<lambda>t. t" "Inr :: rstr \<Rightarrow> rstr + rstr"] by simp
qed

end
