(* ===== verification/Json_Termination.thy ===== *)
theory Json_Termination
  imports Json_Valid
begin

text \<open>
  When the repair returns. On a text without a backslash it always does: the calls decrease in a lexicographic order of
  the position, the kind of call, the mode of a string and the place in it. With a backslash it need not: a string
  that is tried again up to a comma runs over an escaped comma and is tried again for ever.
\<close>

section \<open>Progress of the position\<close>

lemma parse_whitespace_stops:
  assumes "char_at cs (parse_whitespace nl cs s) = Some c"
  shows "\<not> json_ws c nl"
proof
  assume "json_ws c nl"
  let ?p = "\<lambda>c. json_ws c nl \<or> is_special_whitespace c"
  have "drop (jp_i (parse_whitespace nl cs s)) cs = dropWhile ?p (drop (jp_i s) cs)"
    by (simp add: parse_whitespace_def push_def skip_def Let_def dropWhile_eq_drop add.commute)
  with assms obtain t where t: "dropWhile ?p (drop (jp_i s) cs) = c # t"
    by (auto simp: char_at_def get_at_drop split: list.splits)
  have "\<not> ?p (hd (dropWhile ?p (drop (jp_i s) cs)))" by (rule hd_dropWhile) (simp only: t list.distinct not_False_eq_True)
  then show False using \<open>json_ws c nl\<close> by (simp add: t)
qed

lemma skip_comments_stops:
  assumes "\<And>c. char_at cs s = Some c \<Longrightarrow> \<not> json_ws c nl"
  shows "char_at cs (skip_comments nl cs s) = Some c \<Longrightarrow> \<not> json_ws c nl"
  using assms
proof (induction nl cs s rule: skip_comments.induct)
  case (1 nl cs s)
  show ?case
  proof (cases "fst (parse_comment cs s)")
    case True
    then show ?thesis using 1(1) [OF True _ parse_whitespace_stops] 1(2) by (subst (asm) skip_comments.simps) simp
  next
    case False
    then show ?thesis using 1(2,3) by (subst (asm) skip_comments.simps) simp
  qed
qed

lemma skip_ws_stops: "char_at cs (skip_ws nl cs s) = Some c \<Longrightarrow> \<not> json_ws c nl"
  unfolding skip_ws_def by (rule skip_comments_stops) (auto dest: parse_whitespace_stops)

lemma moves [simp]:
  "jp_i (skip n s) = jp_i s + n" "jp_i (goto i s) = i" "jp_i (push t s) = jp_i s"
  "jp_i (insert_before_last_whitespace t s) = jp_i s" "jp_i (strip_last_occurrence t s) = jp_i s"
  "jp_i (strip_last_occurrence_with_remaining t b s) = jp_i s" "jp_i (remove_at_index i n s) = jp_i s"
  "jp_i (push_closed l s) = jp_i s"
  by (simp_all add: skip_def goto_def push_def insert_before_last_whitespace_def strip_last_occurrence_def
      strip_last_occurrence_with_remaining_def remove_at_index_def push_closed_def split: option.split)

lemma skip_ellipsis_progress: "jp_i s \<le> jp_i (skip_ellipsis cs s)"
  using skip_ws_progress [of s True cs] skip_ws_progress [of "skip 3 (skip_ws True cs s)" True cs]
  by (auto simp: skip_ellipsis_def skip_character_def Let_def)

lemma comma_or_repair_progress: "jp_i s \<le> jp_i (comma_or_repair cs s)"
  by (auto simp: comma_or_repair_def parse_character_def)

lemma open_bracket_progress: "jp_i s < jp_i (open_bracket b cs s)"
proof -
  let ?s = "skip_ws True cs (skip 1 (push [b] s))"
  have "jp_i s < jp_i ?s" using skip_ws_progress [of "skip 1 (push [b] s)" True cs] by simp
  then show ?thesis
    using skip_ws_progress [of "skip 1 ?s" True cs] by (auto simp: open_bracket_def skip_character_def Let_def)
qed

lemma skip_while_ge: "i \<le> skip_while p cs i"
  by (simp add: skip_while_def)

lemma number_progress:
  "fst (number_end quote cs s i) \<Longrightarrow> jp_i s < jp_i (snd (number_end quote cs s i))"
  "\<not> fst (number_end quote cs s i) \<Longrightarrow> jp_i s \<le> i \<Longrightarrow> jp_i (snd (number_end quote cs s i)) = jp_i s"
  by (auto simp: number_end_def Let_def split: if_splits)

lemma number_part_progress:
  assumes "jp_i s < i"
    and "\<And>j. i \<le> j \<Longrightarrow> fst (continue j) \<Longrightarrow> jp_i s < jp_i (snd (continue j))"
    and "\<And>j. i \<le> j \<Longrightarrow> \<not> fst (continue j) \<Longrightarrow> jp_i (snd (continue j)) = jp_i s"
  shows "if fst (number_part cs s i continue) then jp_i s < jp_i (snd (number_part cs s i continue))
    else jp_i (snd (number_part cs s i continue)) = jp_i s"
  using assms skip_while_ge [of i "\<lambda>c. is_digit (Some c)" cs]
  by (auto simp: number_part_def repair_number_ending_with_numeric_symbol_def digits_from_def)

lemma number_exponent_progress:
  assumes "jp_i s \<le> i"
  shows "if fst (number_exponent quote cs s i) then jp_i s < jp_i (snd (number_exponent quote cs s i))
    else jp_i (snd (number_exponent quote cs s i)) = jp_i s"
proof (cases "get_at cs i \<in> {Some 101, Some 69}")
  case True
  let ?j = "if get_at cs (i + 1) \<in> {Some 45, Some 43} then i + 2 else i + 1"
  have "jp_i s < ?j" using assms by simp
  from number_part_progress [OF this, of "number_end quote cs s" cs] number_progress [of quote cs s] this
  have "if fst (number_part cs s ?j (number_end quote cs s)) then jp_i s < jp_i (snd (number_part cs s ?j (number_end quote cs s)))
    else jp_i (snd (number_part cs s ?j (number_end quote cs s))) = jp_i s"
    by (meson less_imp_le order_trans)
  then show ?thesis unfolding number_exponent_def if_P [OF True] .
next
  case False
  show ?thesis
    unfolding number_exponent_def if_not_P [OF False] using number_progress [of quote cs s i] assms by simp
qed

lemma number_fraction_progress:
  assumes "jp_i s \<le> i"
  shows "if fst (number_fraction quote cs s i) then jp_i s < jp_i (snd (number_fraction quote cs s i))
    else jp_i (snd (number_fraction quote cs s i)) = jp_i s"
proof (cases "get_at cs i = Some 46")
  case True
  have less: "jp_i s < i + 1" using assms by simp
  have "jp_i s \<le> j" if "i + 1 \<le> j" for j using less that by simp
  then show ?thesis
    unfolding number_fraction_def if_P [OF True]
    using number_part_progress [OF less, of "number_exponent quote cs s" cs] number_exponent_progress [of s _ quote cs]
    by metis
next
  case False
  then show ?thesis using number_exponent_progress [OF assms, of quote cs] by (simp add: number_fraction_def)
qed

lemma parse_number_progress:
  "if fst (parse_number quote cs s) then jp_i s < jp_i (snd (parse_number quote cs s))
   else jp_i (snd (parse_number quote cs s)) = jp_i s"
proof (cases "char_at cs s = Some 45")
  case True
  have less: "jp_i s < jp_i s + 1" by simp
  have "jp_i s \<le> j" if "jp_i s + 1 \<le> j" for j using that by simp
  then show ?thesis
    unfolding parse_number_def if_P [OF True]
    using number_part_progress [OF less, of "number_fraction quote cs s" cs] number_fraction_progress [of s _ quote cs]
    by metis
next
  case False
  have "jp_i s \<le> digits_from cs (jp_i s)" by (simp add: digits_from_def skip_while_ge)
  then show ?thesis using number_fraction_progress [of s _ quote cs] False by (simp add: parse_number_def)
qed

lemma first_keyword_progress:
  "list_all (\<lambda>k. fst k \<noteq> []) ks \<Longrightarrow>
   if fst (first_keyword ks cs s) then jp_i s < jp_i (snd (first_keyword ks cs s)) else snd (first_keyword ks cs s) = s"
  by (induction ks cs s rule: first_keyword.induct) (auto simp: parse_keyword_def Let_def)

lemma parse_keywords_progress:
  "if fst (parse_keywords cs s) then jp_i s < jp_i (snd (parse_keywords cs s)) else snd (parse_keywords cs s) = s"
  unfolding parse_keywords_def by (rule first_keyword_progress) (simp add: lit_def)

lemma parse_regex_progress:
  "if fst (parse_regex quote cs s) then jp_i s < jp_i (snd (parse_regex quote cs s)) else snd (parse_regex quote cs s) = s"
proof -
  define a where "a = advance_while (\<lambda>i. get_at cs i \<noteq> Some 47 \<or> (0 < i \<and> get_at cs (i - 1) = Some 92)) cs (jp_i s + 1)"
  have "jp_i s < a" using advance_le [of "jp_i s + 1"] by (simp add: a_def advance_while_def Suc_le_eq)
  then show ?thesis unfolding parse_regex_def Let_def a_def [symmetric] by simp
qed

text \<open>A text of blanks only is trimmed to nothing; the parser does not skip such a text elsewhere.\<close>

lemma skip_while_le: "i < skip_while p cs i \<Longrightarrow> i < length cs" "i \<le> length cs \<Longrightarrow> skip_while p cs i \<le> length cs"
proof -
  assume "i < skip_while p cs i"
  then have "drop i cs \<noteq> []" by (auto simp: skip_while_def)
  then show "i < length cs" by simp
next
  have "length (takeWhile p (drop i cs)) \<le> length (drop i cs)" by (rule length_takeWhile_le)
  then show "i \<le> length cs \<Longrightarrow> skip_while p cs i \<le> length cs" by (simp add: skip_while_def)
qed

lemma unquoted_end_bounds:
  "start \<le> unquoted_end is_key cs start"
  "start < unquoted_end is_key cs start \<Longrightarrow> start < length cs \<and> unquoted_end is_key cs start \<le> length cs"
proof -
  define i where "i = skip_while (\<lambda>c. \<not> (is_unquoted_string_delimiter c \<or> is_quote (Some c) \<or> (is_key \<and> c = 58))) cs start"
  have i: "start \<le> i" "start < i \<Longrightarrow> start < length cs" "start < length cs \<Longrightarrow> i \<le> length cs"
    using skip_while_ge skip_while_le unfolding i_def by (auto intro: less_imp_le)
  have e: "unquoted_end is_key cs start \<in> {i, skip_while is_url_char cs i}"
    unfolding unquoted_end_def Let_def i_def [symmetric] by simp
  then show "start \<le> unquoted_end is_key cs start"
    using i(1) skip_while_ge [of i is_url_char cs] by auto
  assume "start < unquoted_end is_key cs start"
  then have "start < length cs"
  proof (cases "start < i")
    case False
    then have "i = start" using i(1) by simp
    then show ?thesis using \<open>start < unquoted_end is_key cs start\<close> e skip_while_le(1) [of start is_url_char cs] by auto
  qed (rule i(2))
  then show "start < length cs \<and> unquoted_end is_key cs start \<le> length cs"
    using e i(3) skip_while_le(2) [of i cs is_url_char] by auto
qed

lemma unquoted_progress:
  "jp_i s \<le> jp_i (snd (unquoted_symbol quote is_key cs s))"
  "\<lbrakk>fst (unquoted_symbol quote is_key cs s); char_at cs s = Some c \<Longrightarrow> \<not> json_ws c True; char_at cs s = Some c\<rbrakk>
    \<Longrightarrow> jp_i s < jp_i (snd (unquoted_symbol quote is_key cs s))"
proof -
  define start e where "start = jp_i s" "e = unquoted_end is_key cs start"
  define n where "n = length (trim_blanks (text_between cs start e))"
  have moved: "start < e \<Longrightarrow> start + n \<le> jp_i (snd (unquoted_symbol quote is_key cs s))"
    "\<not> start < e \<Longrightarrow> \<not> fst (unquoted_symbol quote is_key cs s) \<and> jp_i (snd (unquoted_symbol quote is_key cs s)) = e"
    by (simp_all add: unquoted_symbol_def start_e_def [symmetric] n_def Let_def)
  then show "jp_i s \<le> jp_i (snd (unquoted_symbol quote is_key cs s))"
    using unquoted_end_bounds(1) [of start is_key cs] by (cases "start < e") (auto simp: start_e_def)
  assume "fst (unquoted_symbol quote is_key cs s)" "char_at cs s = Some c \<Longrightarrow> \<not> json_ws c True" "char_at cs s = Some c"
  then have less: "start < e" and c: "\<not> json_ws c True" "get_at cs start = Some c"
    using moved(2) by (auto simp: char_at_def start_e_def(1))
  then have "start < length cs" "e \<le> length cs" using unquoted_end_bounds(2) [of start is_key cs] by (simp_all add: start_e_def(2))
  then have "text_between cs start e = take (e - start) (drop start cs)" using less by (simp add: text_between_def get_range_def)
  moreover obtain u where "drop start cs = c # u" using c(2) by (auto simp: get_at_drop split: list.splits)
  ultimately have "c \<in> set (text_between cs start e)" using less by (cases "e - start") auto
  then have "trim_blanks (text_between cs start e) \<noteq> []" using c(1) by (auto simp: trim_blanks_def)
  then show "jp_i s < jp_i (snd (unquoted_symbol quote is_key cs s))"
    using moved(1) [OF less] by (cases "trim_blanks (text_between cs start e)") (auto simp: n_def start_e_def(1))
qed

lemma unquoted_start: "fst (unquoted_symbol quote is_key cs s) \<Longrightarrow> \<exists>c. char_at cs s = Some c"
  using unquoted_end_bounds(2) [of "jp_i s" is_key cs]
  by (auto simp: unquoted_symbol_def Let_def char_at_def get_at_def split: if_splits)

lemma prev_non_whitespace_bounds:
  "prev_non_whitespace_index cs p \<le> p"
  "\<lbrakk>get_at cs q = Some c; \<not> json_ws c True; q \<le> p\<rbrakk> \<Longrightarrow> q \<le> prev_non_whitespace_index cs p"
proof -
  show "prev_non_whitespace_index cs p \<le> p"
    by (induction cs p rule: prev_non_whitespace_index.induct) (auto split: option.split)
  show "\<lbrakk>get_at cs q = Some c; \<not> json_ws c True; q \<le> p\<rbrakk> \<Longrightarrow> q \<le> prev_non_whitespace_index cs p"
    by (induction cs p rule: prev_non_whitespace_index.induct) (auto simp: le_Suc_eq split: option.split)
qed

section \<open>The order of the calls\<close>

fun call_base :: "repair_call \<Rightarrow> parser_state \<Rightarrow> nat" where
  "call_base (CStringLoop l) s = sl_i_before l"
| "call_base c s = jp_i s"

fun call_rank :: "repair_call \<Rightarrow> nat" where
  "call_rank (CObjectLoop _) = 6"
| "call_rank (CArrayLoop _) = 6"
| "call_rank CValue = 5"
| "call_rank CObject = 4"
| "call_rank CArray = 4"
| "call_rank (CString _ _) = 3"
| "call_rank (CStringLoop _) = 3"
| "call_rank (CUnquoted _) = 2"
| "call_rank (CConcatenated _) = 1"

text \<open>A string that stops at a delimiter is not tried again, one that stops at a position only with an earlier one.\<close>

fun mode_rank :: "nat \<Rightarrow> bool \<Rightarrow> nat option \<Rightarrow> nat" where
  "mode_rank n True _ = 0"
| "mode_rank n False (Some k) = Suc k"
| "mode_rank n False None = Suc n"

fun call_mode :: "nat \<Rightarrow> repair_call \<Rightarrow> nat" where
  "call_mode n (CString b k) = mode_rank n b k"
| "call_mode n (CStringLoop l) = mode_rank n (sl_stop_at_delimiter l) (sl_stop_at_index l)"
| "call_mode n _ = 0"

fun call_left :: "nat \<Rightarrow> repair_call \<Rightarrow> parser_state \<Rightarrow> nat" where
  "call_left n (CStringLoop l) s = n - jp_i s"
| "call_left n _ s = Suc n"

definition smaller_call :: "nat \<Rightarrow> repair_call \<times> parser_state \<Rightarrow> repair_call \<times> parser_state \<Rightarrow> bool" where
  "smaller_call n p q \<longleftrightarrow> (p, q) \<in> measures
     [\<lambda>(c, s). n - call_base c s, \<lambda>(c, s). call_rank c, \<lambda>(c, s). call_mode n c, \<lambda>(c, s). call_left n c s]"

lemma smaller_progress: "call_base c s < call_base c' s' \<Longrightarrow> call_base c s < n \<Longrightarrow> smaller_call n (c', s') (c, s)"
  by (simp add: smaller_call_def diff_less_mono2)

lemma smaller_rank: "call_base c s \<le> call_base c' s' \<Longrightarrow> call_rank c' < call_rank c \<Longrightarrow> smaller_call n (c', s') (c, s)"
  by (auto simp: smaller_call_def)

lemma smaller_mode:
  "\<lbrakk>call_base c s = call_base c' s'; call_rank c' = call_rank c; call_mode n c' < call_mode n c\<rbrakk> \<Longrightarrow> smaller_call n (c', s') (c, s)"
  by (simp add: smaller_call_def)

lemma smaller_left:
  "\<lbrakk>call_base c s = call_base c' s'; call_rank c' = call_rank c; call_mode n c' = call_mode n c; call_left n c' s' < call_left n c s\<rbrakk>
    \<Longrightarrow> smaller_call n (c', s') (c, s)"
  by (simp add: smaller_call_def)

text \<open>What holds of a call, and of what it returns.\<close>

definition stop_ok :: "nat \<Rightarrow> nat \<Rightarrow> bool \<Rightarrow> nat option \<Rightarrow> bool" where
  "stop_ok n i stop_at_delimiter stop_at_index \<longleftrightarrow>
     (case stop_at_index of None \<Rightarrow> True | Some k \<Rightarrow> \<not> stop_at_delimiter \<and> i \<le> k \<and> k < n)"

fun call_ok :: "rstr \<Rightarrow> repair_call \<Rightarrow> parser_state \<Rightarrow> bool" where
  "call_ok cs (CString b k) s \<longleftrightarrow> stop_ok (length cs) (Suc (jp_i s)) b k"
| "call_ok cs (CStringLoop l) s \<longleftrightarrow> sl_i_before l < jp_i s \<and> sl_i_before l < length cs \<and> jp_i s \<le> length cs
     \<and> \<not> sl_skip_escape_chars l \<and> is_quote (get_at cs (sl_i_before l))
     \<and> stop_ok (length cs) (jp_i s) (sl_stop_at_delimiter l) (sl_stop_at_index l)"
| "call_ok cs (CUnquoted _) s \<longleftrightarrow> True"
| "call_ok cs _ s \<longleftrightarrow> True"

fun call_post :: "rstr \<Rightarrow> repair_call \<Rightarrow> parser_state \<Rightarrow> bool \<Rightarrow> parser_state \<Rightarrow> bool" where
  "call_post cs CValue s b s' \<longleftrightarrow> jp_i s \<le> jp_i s' \<and> (b \<longrightarrow> jp_i s < jp_i s')"
| "call_post cs CObject s b s' \<longleftrightarrow> (if b then jp_i s < jp_i s' else s' = s)"
| "call_post cs CArray s b s' \<longleftrightarrow> (if b then jp_i s < jp_i s' else s' = s)"
| "call_post cs (CString _ _) s b s' \<longleftrightarrow> (if b then jp_i s < jp_i s' else s' = s) \<and> (is_quote (char_at cs s) \<longrightarrow> b)"
| "call_post cs (CStringLoop l) s b s' \<longleftrightarrow> b \<and> sl_i_before l < jp_i s'"
| "call_post cs (CUnquoted _) s b s' \<longleftrightarrow> jp_i s \<le> jp_i s' \<and>
     (b \<longrightarrow> jp_i s < jp_i s' \<or> (jp_i s' = jp_i s \<and> (\<exists>c. char_at cs s = Some c \<and> json_ws c True)))"
| "call_post cs (CConcatenated _) s b s' \<longleftrightarrow> jp_i s \<le> jp_i s'"
| "call_post cs _ s b s' \<longleftrightarrow> b \<and> jp_i s \<le> jp_i s'"

definition returns_with :: "(bool \<Rightarrow> parser_state \<Rightarrow> bool) \<Rightarrow> 'e repair_result \<Rightarrow> bool" where
  "returns_with P r \<longleftrightarrow> (\<exists>x. r = Some x \<and> (\<forall>b s. x = Inr (b, s) \<longrightarrow> P b s))"

lemma returns_simps [simp]:
  "returns_with P (done_with b s) \<longleftrightarrow> P b s"
  "returns_with P (Some (Inl e))"
  by (auto simp: returns_with_def)

lemma returns_pure [simp]: "returns_with P (pure_step f s) \<longleftrightarrow> P (fst (f s)) (snd (f s))"
  by (cases "f s") (simp add: returns_with_def)

lemma returns_and_then:
  assumes "returns_with P m" "\<And>b s. P b s \<Longrightarrow> returns_with Q (f b s)"
  shows "returns_with Q (and_then m f)"
  using assms by (fastforce simp: returns_with_def and_then_def split: sum.split)

lemma returns_or_try:
  assumes "returns_with P m" "\<And>s. P False s \<Longrightarrow> returns_with Q (f s)" "\<And>s. P True s \<Longrightarrow> Q True s"
  shows "returns_with Q (or_try m f)"
  unfolding or_try_def using assms by (intro returns_and_then [OF assms(1)]) auto

lemma returns_mono: "returns_with P r \<Longrightarrow> (\<And>b s. P b s \<Longrightarrow> Q b s) \<Longrightarrow> returns_with Q r"
  by (auto simp: returns_with_def)

definition calls_return :: "rstr \<Rightarrow> repair_call \<times> parser_state \<Rightarrow> 'e repair_rec \<Rightarrow> bool" where
  "calls_return cs p rec \<longleftrightarrow> (\<forall>c s. smaller_call (length cs) (c, s) p \<longrightarrow> call_ok cs c s \<longrightarrow>
     returns_with (call_post cs c s) (rec c s))"

lemma calls_returnD:
  "\<lbrakk>calls_return cs p rec; smaller_call (length cs) (c, s) p; call_ok cs c s\<rbrakk> \<Longrightarrow> returns_with (call_post cs c s) (rec c s)"
  by (simp add: calls_return_def)

lemma char_at_length: "char_at cs s = Some c \<Longrightarrow> jp_i s < length cs"
  by (simp add: char_at_def get_at_def split: if_splits)

section \<open>The calls return\<close>

lemma value_returns:
  assumes "calls_return cs (CValue, s) rec"
  shows "returns_with (call_post cs CValue s) (parse_value quote cs rec s)"
proof -
  let ?s = "skip_ws True cs s"
  note le = skip_ws_progress [of s True cs]
  have obj: "returns_with (\<lambda>b s'. if b then jp_i ?s < jp_i s' else s' = ?s) (rec CObject ?s)"
    using calls_returnD [OF assms smaller_rank, of CObject ?s] le by (auto elim!: returns_mono split: if_splits)
  have arr: "returns_with (\<lambda>b s'. if b then jp_i ?s < jp_i s' else s' = ?s) (or_try (rec CObject ?s) (rec CArray))"
    using calls_returnD [OF assms smaller_rank, of CArray ?s] le
    by (intro returns_or_try [OF obj]) (auto elim!: returns_mono split: if_splits)
  have strg: "returns_with (\<lambda>b s'. if b then jp_i ?s < jp_i s' else s' = ?s)
      (or_try (or_try (rec CObject ?s) (rec CArray)) (rec (CString False None)))"
    using calls_returnD [OF assms smaller_rank, of "CString False None" ?s] le
    by (intro returns_or_try [OF arr]) (auto simp: stop_ok_def elim!: returns_mono split: if_splits)
  have number: "returns_with (\<lambda>b s'. if b then jp_i ?s < jp_i s' else jp_i s' = jp_i ?s)
      (or_try (or_try (or_try (rec CObject ?s) (rec CArray)) (rec (CString False None))) (pure_step (parse_number quote cs)))"
    using parse_number_progress [of quote cs ?s] by (intro returns_or_try [OF strg]) (auto split: if_splits)
  have words: "returns_with (\<lambda>b s'. if b then jp_i ?s < jp_i s' else jp_i s' = jp_i ?s) (pure_step (parse_keywords cs) s1)"
    if "jp_i s1 = jp_i ?s" for s1
    using parse_keywords_progress [of cs s1] that by auto
  have unquoted: "returns_with (\<lambda>b s'. jp_i ?s \<le> jp_i s' \<and> (b \<longrightarrow> jp_i ?s < jp_i s')) (rec (CUnquoted False) s1)"
    if "jp_i s1 = jp_i ?s" for s1
  proof -
    have no_ws: "\<not> json_ws c True" if "char_at cs s1 = Some c" for c
      using skip_ws_stops [of cs True s c] that \<open>jp_i s1 = jp_i ?s\<close> by (simp add: char_at_def)
    have "returns_with (call_post cs (CUnquoted False) s1) (rec (CUnquoted False) s1)"
      by (rule calls_returnD [OF assms smaller_rank]) (use le that in simp_all)
    then show ?thesis by (rule returns_mono) (use that no_ws in auto)
  qed
  have regex: "returns_with (\<lambda>b s'. jp_i ?s \<le> jp_i s' \<and> (b \<longrightarrow> jp_i ?s < jp_i s')) (pure_step (parse_regex quote cs) s1)"
    if "jp_i ?s \<le> jp_i s1" for s1
    using parse_regex_progress [of quote cs s1] that by (auto split: if_splits)
  show ?thesis
    unfolding parse_value_def
  proof (rule returns_and_then)
    show "returns_with (\<lambda>b s'. jp_i ?s \<le> jp_i s' \<and> (b \<longrightarrow> jp_i ?s < jp_i s'))
       (or_try (or_try (or_try (or_try (or_try (or_try (rec CObject ?s) (rec CArray)) (rec (CString False None)))
         (pure_step (parse_number quote cs))) (pure_step (parse_keywords cs))) (rec (CUnquoted False)))
         (pure_step (parse_regex quote cs)))"
      by (rule returns_or_try [OF returns_or_try [OF returns_or_try [OF number words] unquoted] regex]) auto
  next
    fix b and s' :: parser_state
    assume "jp_i ?s \<le> jp_i s' \<and> (b \<longrightarrow> jp_i ?s < jp_i s')"
    then show "returns_with (call_post cs CValue s) (done_with b (skip_ws True cs s'))"
      using le skip_ws_progress [of s' True cs] by auto
  qed
qed

lemma object_returns:
  assumes "calls_return cs (CObject, s) rec"
  shows "returns_with (call_post cs CObject s) (parse_object cs rec s)"
proof (cases "char_at cs s = Some 123")
  case True
  have "jp_i s < jp_i (open_bracket 123 cs s)" by (rule open_bracket_progress)
  then show ?thesis
    using calls_returnD [OF assms smaller_progress, of "CObjectLoop True" "open_bracket 123 cs s"] char_at_length [OF True] True
    by (auto simp: parse_object_def elim!: returns_mono)
qed (simp add: parse_object_def)

lemma array_returns:
  assumes "calls_return cs (CArray, s) rec"
  shows "returns_with (call_post cs CArray s) (parse_array cs rec s)"
proof (cases "char_at cs s = Some 91")
  case True
  have "jp_i s < jp_i (open_bracket 91 cs s)" by (rule open_bracket_progress)
  then show ?thesis
    using calls_returnD [OF assms smaller_progress, of "CArrayLoop True" "open_bracket 91 cs s"] char_at_length [OF True] True
    by (auto simp: parse_array_def elim!: returns_mono)
qed (simp add: parse_array_def)

lemma close_bracket_returns: "jp_i s0 \<le> jp_i s \<Longrightarrow> returns_with (\<lambda>b s'. b \<and> jp_i s0 \<le> jp_i s') (close_bracket b cs s)"
  by (auto simp: close_bracket_def)

lemma array_loop_returns:
  assumes "calls_return cs (CArrayLoop initial, s) rec"
  shows "returns_with (call_post cs (CArrayLoop initial) s) (array_loop cs rec initial s)"
proof (cases "jp_i s < length cs \<and> char_at cs s \<noteq> Some 93")
  case True
  let ?s = "skip_ellipsis cs (if initial then s else comma_or_repair cs s)"
  have le: "jp_i s \<le> jp_i ?s"
    using skip_ellipsis_progress [of s cs] skip_ellipsis_progress [of "comma_or_repair cs s" cs] comma_or_repair_progress [of s cs]
    by auto
  have "returns_with (\<lambda>b s'. b \<and> jp_i s \<le> jp_i s')
      (and_then (rec CValue ?s) (\<lambda>processed_value s.
        if processed_value then rec (CArrayLoop False) s else close_bracket 93 cs (strip_last_occurrence [44] s)))"
  proof (rule returns_and_then [OF calls_returnD [OF assms smaller_rank]])
    fix b and s' :: parser_state
    assume post: "call_post cs CValue ?s b s'"
    show "returns_with (\<lambda>b s'. b \<and> jp_i s \<le> jp_i s')
        (if b then rec (CArrayLoop False) s' else close_bracket 93 cs (strip_last_occurrence [44] s'))"
    proof (cases b)
      case b: True
      then have "jp_i s < jp_i s'" using post le by simp
      then show ?thesis
        using calls_returnD [OF assms smaller_progress, of "CArrayLoop False" s'] True b by (auto elim!: returns_mono)
    next
      case False
      then show ?thesis using post le close_bracket_returns [of s "strip_last_occurrence [44] s'" 93 cs] by simp
    qed
  qed (use le in simp_all)
  then show ?thesis unfolding array_loop_def if_P [OF True] by (rule returns_mono) simp
next
  case False
  show ?thesis
    unfolding array_loop_def if_not_P [OF False] by (rule returns_mono [OF close_bracket_returns [OF order_refl]]) simp
qed

lemma object_member_returns:
  assumes "calls_return cs (CObjectLoop initial, s0) rec" "jp_i s0 < length cs"
    and "jp_i s0 < jp_i (skip_ws True cs s)"
  shows "returns_with (\<lambda>b s'. b \<and> jp_i s0 \<le> jp_i s') (object_member cs rec s)"
proof -
  obtain colon s1 where s1: "parse_character 58 cs (skip_ws True cs s) = (colon, s1)" by fastforce
  then have less: "jp_i s0 < jp_i s1" using assms(3) by (auto simp: parse_character_def split: if_splits)
  let ?s = "if colon then s1 else insert_before_last_whitespace [58] s1"
  have "returns_with (\<lambda>b s'. b \<and> jp_i s0 \<le> jp_i s')
      (and_then (rec CValue ?s) (\<lambda>processed_value s.
        if processed_value then rec (CObjectLoop False) s
        else if colon \<or> length cs \<le> jp_i s1 then rec (CObjectLoop False) (push (lit ''null'') s)
        else Some (Inl (ColonExpected (jp_i s)))))"
  proof (rule returns_and_then [OF calls_returnD [OF assms(1) smaller_progress]])
    fix b and s' :: parser_state
    assume post: "call_post cs CValue ?s b s'"
    then have "jp_i s0 < jp_i s'" using less by (auto split: if_splits)
    then have loop: "returns_with (\<lambda>b s''. b \<and> jp_i s0 \<le> jp_i s'') (rec (CObjectLoop False) s2)" if "jp_i s2 = jp_i s'" for s2
      using calls_returnD [OF assms(1) smaller_progress, of "CObjectLoop False" s2] assms(2) that by (auto elim!: returns_mono)
    show "returns_with (\<lambda>b s'. b \<and> jp_i s0 \<le> jp_i s')
        (if b then rec (CObjectLoop False) s'
         else if colon \<or> length cs \<le> jp_i s1 then rec (CObjectLoop False) (push (lit ''null'') s')
         else Some (Inl (ColonExpected (jp_i s'))))"
      using loop [of s'] loop [of "push (lit ''null'') s'"] by simp
  qed (use less assms(2) in auto)
  then show ?thesis by (simp add: object_member_def s1 Let_def)
qed

lemma object_loop_returns:
  assumes "calls_return cs (CObjectLoop initial, s) rec"
  shows "returns_with (call_post cs (CObjectLoop initial) s) (object_loop cs rec initial s)"
proof (cases "jp_i s < length cs \<and> char_at cs s \<noteq> Some 125")
  case True
  let ?u = "if initial then s else skip_ws True cs (comma_or_repair cs s)"
  let ?s = "skip_ellipsis cs ?u"
  have le: "jp_i s \<le> jp_i ?s"
    using skip_ellipsis_progress [of ?u cs] skip_ws_progress [of "comma_or_repair cs s" True cs] comma_or_repair_progress [of s cs]
    by (auto split: if_splits)
  let ?P = "\<lambda>b s'. jp_i ?s \<le> jp_i s' \<and> (b \<longrightarrow> jp_i ?s < jp_i (skip_ws True cs s'))"
  have key: "returns_with (\<lambda>b s'. if b then jp_i ?s < jp_i s' else s' = ?s) (rec (CString False None) ?s)"
    using calls_returnD [OF assms smaller_rank, of "CString False None" ?s] le
    by (auto simp: stop_ok_def elim!: returns_mono split: if_splits)
  have unquoted: "returns_with ?P (rec (CUnquoted True) ?s)"
  proof (rule returns_mono [OF calls_returnD [OF assms smaller_rank]])
    fix b and s' :: parser_state
    assume post: "call_post cs (CUnquoted True) ?s b s'"
    have "jp_i s' \<noteq> jp_i (skip_ws True cs s')" if "jp_i s' = jp_i ?s" "char_at cs ?s = Some c" "json_ws c True" for c
    proof
      assume "jp_i s' = jp_i (skip_ws True cs s')"
      then have "char_at cs (skip_ws True cs s') = Some c" using that(1,2) by (simp add: char_at_def)
      then show False using skip_ws_stops [of cs True s' c] that(3) by simp
    qed
    then show "?P b s'" using post skip_ws_progress [of s' True cs] by (auto simp: less_le)
  qed (use le in simp_all)
  have "returns_with ?P (or_try (rec (CString False None) ?s) (rec (CUnquoted True)))"
    using unquoted skip_ws_progress [of _ True cs] by (intro returns_or_try [OF key]) (auto intro: less_le_trans order_trans less_imp_le)
  then have "returns_with (\<lambda>b s'. b \<and> jp_i s \<le> jp_i s')
      (and_then (or_try (rec (CString False None) ?s) (rec (CUnquoted True)))
        (\<lambda>processed_key s.
            if processed_key then object_member cs rec s
            else if char_at cs s \<in> {Some 125, Some 123, Some 93, Some 91, None}
            then close_bracket 125 cs (strip_last_occurrence [44] s)
            else Some (Inl (ObjectKeyExpected (jp_i s)))))"
  proof (rule returns_and_then)
    fix b and s' :: parser_state
    assume "?P b s'"
    then show "returns_with (\<lambda>b s'. b \<and> jp_i s \<le> jp_i s')
      (if b then object_member cs rec s'
       else if char_at cs s' \<in> {Some 125, Some 123, Some 93, Some 91, None}
       then close_bracket 125 cs (strip_last_occurrence [44] s') else Some (Inl (ObjectKeyExpected (jp_i s'))))"
      using object_member_returns [OF assms, of s'] close_bracket_returns [of s "strip_last_occurrence [44] s'" 125 cs] True le
      by (auto intro: order_trans)
  qed
  then show ?thesis
    unfolding object_loop_def if_P [OF True] Let_def by (rule returns_mono) simp
next
  case False
  show ?thesis
    unfolding object_loop_def if_not_P [OF False] by (rule returns_mono [OF close_bracket_returns [OF order_refl]]) simp
qed


lemma no_backslash: "92 \<notin> set cs \<Longrightarrow> get_at cs i \<noteq> Some 92"
  by (auto simp: get_at_def dest: nth_mem split: if_splits)

lemma string_returns:
  assumes "92 \<notin> set cs" "calls_return cs (CString b k, s) rec" "call_ok cs (CString b k) s"
  shows "returns_with (call_post cs (CString b k) s) (parse_string cs rec b k s)"
proof (cases "is_quote (char_at cs s)")
  case True
  then obtain q where q: "char_at cs s = Some q" by (cases "char_at cs s") (auto simp: is_quote_def)
  let ?l = "\<lparr>sl_stop_at_delimiter = b, sl_stop_at_index = k, sl_skip_escape_chars = False, sl_quote_char = q,
    sl_i_before = jp_i s, sl_o_before = length (jp_out s), sl_str_content = [34]\<rparr>"
  have less: "jp_i s < length cs" by (rule char_at_length [OF q])
  have "returns_with (call_post cs (CStringLoop ?l) (skip 1 s)) (rec (CStringLoop ?l) (skip 1 s))"
    by (rule calls_returnD [OF assms(2) smaller_left]) (use assms(3) True less in \<open>simp_all add: char_at_def\<close>)
  then have "returns_with (call_post cs (CString b k) s) (rec (CStringLoop ?l) (skip 1 s))" by (rule returns_mono) simp
  then show ?thesis using True q no_backslash [OF assms(1), of "jp_i s"] by (simp add: parse_string_def char_at_def)
next
  case False
  then show ?thesis using no_backslash [OF assms(1), of "jp_i s"] by (simp add: parse_string_def char_at_def)
qed

lemma concatenated_returns:
  assumes "calls_return cs (CConcatenated processed, s) rec"
  shows "returns_with (call_post cs (CConcatenated processed) s) (concatenated_loop cs rec processed s)"
proof (cases "char_at cs s = Some 43")
  case True
  let ?s = "strip_last_occurrence_with_remaining [34] True (skip_ws True cs (skip 1 s))"
  have less: "jp_i s < jp_i ?s" using skip_ws_progress [of "skip 1 s" True cs] by simp
  have n: "jp_i s < length cs" by (rule char_at_length [OF True])
  have "returns_with (call_post cs (CConcatenated processed) s)
      (and_then (rec (CString False None) ?s) (\<lambda>parsed_str s.
             rec (CConcatenated True)
               (if parsed_str then remove_at_index (utf8_len (jp_out ?s)) 1 s else insert_before_last_whitespace [34] s)))"
  proof (rule returns_and_then [OF calls_returnD [OF assms smaller_progress]])
    fix b and s' :: parser_state
    assume post: "call_post cs (CString False None) ?s b s'"
    then have "jp_i s < jp_i s'" using less by (auto split: if_splits)
    then have "returns_with (call_post cs (CConcatenated processed) s) (rec (CConcatenated True) s2)" if "jp_i s2 = jp_i s'" for s2
      using calls_returnD [OF assms smaller_progress, of "CConcatenated True" s2] n that by (auto elim!: returns_mono)
    then show "returns_with (call_post cs (CConcatenated processed) s)
        (rec (CConcatenated True)
          (if b then remove_at_index (utf8_len (jp_out ?s)) 1 s' else insert_before_last_whitespace [34] s'))"
      by simp
  qed (use less n in \<open>simp_all add: stop_ok_def\<close>)
  then show ?thesis unfolding concatenated_loop_def if_P [OF True] Let_def .
qed (simp add: concatenated_loop_def)

lemma unquoted_returns:
  assumes "calls_return cs (CUnquoted is_key, s) rec"
  shows "returns_with (call_post cs (CUnquoted is_key) s) (parse_unquoted_string quote cs rec is_key s)"
proof -
  define j where "j = skip_while (\<lambda>c. json_ws c True) cs (skip_while (\<lambda>c. is_function_name_char (Some c)) cs (jp_i s))"
  have j: "jp_i s \<le> j"
    using skip_while_ge [of "jp_i s"] skip_while_ge [of "skip_while (\<lambda>c. is_function_name_char (Some c)) cs (jp_i s)"]
    unfolding j_def by (meson order_trans)
  show ?thesis
  proof (cases "is_function_name_char_start (char_at cs s) \<and> get_at cs j = Some 40")
    case True
    then have n: "jp_i s < length cs" using j by (auto simp: get_at_def split: if_splits)
    have "returns_with (call_post cs (CUnquoted is_key) s) (unquoted_argument cs rec (goto (j + 1) s))"
      unfolding unquoted_argument_def
    proof (rule returns_and_then [OF calls_returnD [OF assms smaller_progress]])
      fix b and s' :: parser_state
      assume "call_post cs CValue (goto (j + 1) s) b s'"
      then have "jp_i s < jp_i s'" using j by simp
      then show "returns_with (call_post cs (CUnquoted is_key) s)
          (done_with True (let (closed, s) = skip_character 41 cs s' in if closed then snd (skip_character 59 cs s) else s))"
        by (auto simp: skip_character_def)
    qed (use j n in simp_all)
    then show ?thesis unfolding parse_unquoted_string_def Let_def j_def [symmetric] if_P [OF True] .
  next
    case False
    have "call_post cs (CUnquoted is_key) s (fst (unquoted_symbol quote is_key cs s)) (snd (unquoted_symbol quote is_key cs s))"
      using unquoted_progress(1) [of s quote is_key cs] unquoted_progress(2) [of quote is_key cs s] unquoted_start [of quote is_key cs s]
      by (cases "char_at cs s") (auto simp: le_less)
    then show ?thesis unfolding parse_unquoted_string_def Let_def j_def [symmetric] if_not_P [OF False] by simp
  qed
qed

text \<open>The steps of a string: on to the next place in it, back to its start in another mode, out of it.\<close>

lemma next_char_returns:
  assumes "92 \<notin> set cs" "calls_return cs (CStringLoop l, s) rec" "call_ok cs (CStringLoop l) s"
    and "jp_i s < length cs" "sl_stop_at_index l \<noteq> Some (jp_i s)" "jp_i s' = jp_i s + 1"
  shows "returns_with (call_post cs (CStringLoop l) s) (next_char cs rec l t s')"
proof -
  let ?l = "l\<lparr>sl_str_content := sl_str_content l @ t\<rparr>"
  have "returns_with (call_post cs (CStringLoop ?l) s') (rec (CStringLoop ?l) s')"
    by (rule calls_returnD [OF assms(2) smaller_left])
      (use assms(3-6) in \<open>auto simp: stop_ok_def split: option.splits\<close>)
  then show ?thesis using assms(3) by (auto simp: next_char_def elim!: returns_mono)
qed

lemma retry_returns:
  assumes "calls_return cs (CStringLoop l, s) rec" "call_ok cs (CStringLoop l) s"
    and "stop_ok (length cs) (Suc (sl_i_before l)) b k"
    and "mode_rank (length cs) b k < mode_rank (length cs) (sl_stop_at_delimiter l) (sl_stop_at_index l)"
  shows "returns_with (call_post cs (CStringLoop l) s) (retry_string rec l b k s')"
proof -
  let ?s = "\<lparr>jp_i = sl_i_before l, jp_out = take (sl_o_before l) (jp_out s')\<rparr>"
  have start: "is_quote (char_at cs ?s)" using assms(2) by (simp add: char_at_def)
  have "returns_with (call_post cs (CString b k) ?s) (rec (CString b k) ?s)"
    by (rule calls_returnD [OF assms(1) smaller_mode]) (use assms in simp_all)
  show ?thesis
    unfolding retry_string_def
    by (rule returns_mono [OF \<open>returns_with (call_post cs (CString b k) ?s) _\<close>]) (use start in auto)
qed

lemma leave_string_returns:
  assumes "calls_return cs (CStringLoop l, s) rec" "call_ok cs (CStringLoop l) s" "sl_i_before l < jp_i s'"
  shows "returns_with (call_post cs (CStringLoop l) s) (and_then (parse_concatenated_string cs rec s') (\<lambda>_. done_with True))"
  unfolding parse_concatenated_string_def
proof (rule returns_and_then [OF calls_returnD [OF assms(1) smaller_progress]])
  fix b and s'' :: parser_state
  assume "call_post cs (CConcatenated False) (skip_ws True cs s') b s''"
  then show "returns_with (call_post cs (CStringLoop l) s) (done_with True s'')"
    using assms(3) skip_ws_progress [of s' True cs] by simp
qed (use assms skip_ws_progress [of s' True cs] in simp_all)

lemma string_end_quote_returns:
  assumes "92 \<notin> set cs" "calls_return cs (CStringLoop l, s) rec" "call_ok cs (CStringLoop l) s"
    and "jp_i s < length cs" "sl_stop_at_index l \<noteq> Some (jp_i s)"
  shows "returns_with (call_post cs (CStringLoop l) s) (string_end_quote cs rec l s)"
proof -
  define s' where "s' = skip_ws False cs (push (sl_str_content l @ [34]) (skip 1 s))"
  define p where "p = prev_non_whitespace_index cs (jp_i s - 1)"
  have ok: "sl_i_before l < jp_i s" "is_quote (get_at cs (sl_i_before l))" using assms(3) by simp_all
  have out: "sl_i_before l < jp_i s'"
    using skip_ws_progress [of "push (sl_str_content l @ [34]) (skip 1 s)" False cs] ok(1) by (simp add: s'_def)
  obtain q where q: "get_at cs (sl_i_before l) = Some q" using ok(2) by (cases "get_at cs (sl_i_before l)") (auto simp: is_quote_def)
  then have "\<not> json_ws q True" "q \<noteq> 44" using ok(2) by (auto simp: is_quote_def json_ws_def)
  then have p: "sl_i_before l \<le> p" "p < jp_i s"
    using prev_non_whitespace_bounds(1) [of cs "jp_i s - 1"]
      prev_non_whitespace_bounds(2) [of cs "sl_i_before l" q "jp_i s - 1"] q ok(1) unfolding p_def by auto
  have k: "stop_ok (length cs) (Suc (sl_i_before l)) False (Some p)" if "get_at cs p = Some 44"
    using p that q \<open>q \<noteq> 44\<close> assms(4) by (auto simp: stop_ok_def le_less)
  have mode: "mode_rank (length cs) False (Some p) < mode_rank (length cs) (sl_stop_at_delimiter l) (sl_stop_at_index l)"
    "mode_rank (length cs) True None < mode_rank (length cs) (sl_stop_at_delimiter l) (sl_stop_at_index l)"
    if "\<not> sl_stop_at_delimiter l"
    using p(2) that assms(3,4,5) by (cases "sl_stop_at_index l"; force simp: stop_ok_def)+
  have again: "returns_with (call_post cs (CStringLoop l) s)
      (next_char cs rec l [92, 34] \<lparr>jp_i = jp_i s + 1, jp_out = take (sl_o_before l) (jp_out s')\<rparr>)"
    by (rule next_char_returns [OF assms]) simp
  show ?thesis
    unfolding string_end_quote_def Let_def s'_def [symmetric] p_def [symmetric]
    using leave_string_returns [OF assms(2,3) out] retry_returns [OF assms(2,3) k mode(1)]
      retry_returns [OF assms(2,3) _ mode(2)] again
    by (auto simp: stop_ok_def)
qed

lemma string_delimiter_returns:
  assumes "calls_return cs (CStringLoop l, s) rec" "call_ok cs (CStringLoop l) s"
  shows "returns_with (call_post cs (CStringLoop l) s) (string_delimiter cs rec l s)"
proof -
  have "sl_i_before l < (case u of Some u \<Rightarrow> if is_url_start u then skip_while is_url_char cs (jp_i s) else jp_i s | None \<Rightarrow> jp_i s)"
    for u
    using assms(2) skip_while_ge [of "jp_i s" is_url_char cs] by (auto split: option.split intro: less_le_trans)
  then show ?thesis
    unfolding string_delimiter_def Let_def by (intro leave_string_returns [OF assms]) simp
qed

lemma string_loop_returns:
  assumes "92 \<notin> set cs" "calls_return cs (CStringLoop l, s) rec" "call_ok cs (CStringLoop l) s"
  shows "returns_with (call_post cs (CStringLoop l) s) (string_loop cs rec l s)"
proof (cases "char_at cs s")
  case None
  have "returns_with (call_post cs (CStringLoop l) s) (retry_string rec l True None s)" if "\<not> sl_stop_at_delimiter l"
    by (rule retry_returns [OF assms(2,3)]) (use that in \<open>cases "sl_stop_at_index l"; simp add: stop_ok_def\<close>)+
  then show ?thesis using None assms(3) by (simp add: string_loop_def)
next
  case (Some c)
  have n: "jp_i s < length cs" by (rule char_at_length [OF Some])
  have c: "c \<noteq> 92" using no_backslash [OF assms(1), of "jp_i s"] Some by (simp add: char_at_def)
  have closed: "returns_with (call_post cs (CStringLoop l) s) (done_with True (push_closed l s))"
    using assms(3) by simp
  show ?thesis
  proof (cases "sl_stop_at_index l = Some (jp_i s)")
    case False
    have "returns_with (call_post cs (CStringLoop l) s) (string_char cs rec l c s)"
      unfolding string_char_def
      using next_char_returns [OF assms n False, of "skip 1 s"] by simp
    then show ?thesis
      using Some c False string_end_quote_returns [OF assms n False] string_delimiter_returns [OF assms(2,3)]
      by (simp add: string_loop_def)
  qed (use Some closed in \<open>simp add: string_loop_def\<close>)
qed

lemma calls_returning:
  assumes "92 \<notin> set cs"
  shows "call_ok cs c s \<Longrightarrow> returns_with (call_post cs c s) (repair_run quote cs c s :: 'e repair_result)"
proof (induction "(c, s)" arbitrary: c s rule: wf_induct_rule [OF wf_measures
    [of "[\<lambda>(c, s). length cs - call_base c s, \<lambda>(c, s). call_rank c, \<lambda>(c, s). call_mode (length cs) c,
      \<lambda>(c, s). call_left (length cs) c s]"]])
  case 1
  then have rec: "calls_return cs (c, s) (repair_run quote cs :: 'e repair_rec)"
    by (simp add: calls_return_def smaller_call_def)
  then show ?case
  proof (cases c)
    case CValue
    then show ?thesis using value_returns rec by (simp add: repair_calls del: call_post.simps)
  next
    case CObject
    then show ?thesis using object_returns rec by (simp add: repair_calls del: call_post.simps)
  next
    case (CObjectLoop initial)
    then show ?thesis using object_loop_returns rec by (simp add: repair_calls del: call_post.simps)
  next
    case CArray
    then show ?thesis using array_returns rec by (simp add: repair_calls del: call_post.simps)
  next
    case (CArrayLoop initial)
    then show ?thesis using array_loop_returns rec by (simp add: repair_calls del: call_post.simps)
  next
    case (CString b k)
    then show ?thesis using string_returns [OF assms] rec 1(2) by (simp add: repair_calls del: call_post.simps)
  next
    case (CStringLoop l)
    then show ?thesis using string_loop_returns [OF assms] rec 1(2) by (simp only: repair_calls)
  next
    case (CConcatenated processed)
    then show ?thesis using concatenated_returns rec by (simp add: repair_calls del: call_post.simps)
  next
    case (CUnquoted is_key)
    then show ?thesis using unquoted_returns rec by (simp add: repair_calls del: call_post.simps)
  qed
qed

section \<open>The whole text returns\<close>

lemma value_at_end:
  assumes "length cs \<le> jp_i s"
  shows "\<exists>s'. (repair_run quote cs CValue s :: 'e repair_result) = done_with False s'"
proof -
  let ?s = "skip_ws True cs s"
  have ge: "length cs \<le> jp_i ?s" using assms skip_ws_progress [of s True cs] by simp
  then have at: "get_at cs (jp_i ?s + n) = None" for n by (simp add: get_at_def)
  have char: "char_at cs ?s = None" using at [of 0] by (simp add: char_at_def)
  have keys: "parse_keywords cs ?s = (False, ?s)"
    using ge by (simp add: parse_keywords_def parse_keyword_def get_range_def lit_def)
  have digits: "digits_from cs (jp_i ?s) = jp_i ?s" using ge by (simp add: digits_from_def skip_while_def)
  have number: "parse_number quote cs ?s = (False, ?s)"
    using ge char at [of 0]
    by (simp add: parse_number_def number_fraction_def number_exponent_def number_end_def digits goto_def)
  have "unquoted_end False cs (jp_i ?s) = jp_i ?s"
    using ge by (simp add: unquoted_end_def skip_while_def Let_def)
  then have unquoted: "parse_unquoted_string quote cs rec False ?s = done_with False ?s" for rec :: "'e repair_rec"
    using char by (simp add: parse_unquoted_string_def is_function_name_char_start_def unquoted_symbol_def goto_def Let_def)
  show ?thesis
    by (simp add: repair_calls(1) parse_value_def or_try_def and_then_def repair_calls parse_object_def parse_array_def
        parse_string_def char is_quote_def number keys unquoted parse_regex_def Let_def)
qed

lemma and_then_returns:
  "\<lbrakk>\<exists>r. m = Some r; \<And>b s. \<exists>r. f b s = Some r\<rbrakk> \<Longrightarrow> \<exists>r. and_then m f = Some r"
  by (auto simp: and_then_def split: sum.split)

lemma newline_loop_returns:
  assumes "92 \<notin> set cs"
  shows "\<exists>r. (newline_loop quote cs initial s :: 'e repair_result) = Some r"
proof (induction "length cs - jp_i s" arbitrary: initial s rule: less_induct)
  case less
  define u where "u = (if initial then s else comma_or_repair cs s)"
  have u: "jp_i s \<le> jp_i u" using comma_or_repair_progress [of s cs] by (simp add: u_def)
  have step: "(newline_loop quote cs initial s :: 'e repair_result) =
      and_then (repair_run quote cs CValue u) (\<lambda>processed_value s. if processed_value then newline_loop quote cs False s else done_with False s)"
    by (subst newline_loop.simps) (simp add: u_def)
  obtain r where r: "(repair_run quote cs CValue u :: 'e repair_result) = Some r"
      "\<And>b s'. r = Inr (b, s') \<Longrightarrow> jp_i u \<le> jp_i s' \<and> (b \<longrightarrow> jp_i u < jp_i s')"
    using calls_returning [OF assms, of CValue u quote] by (auto simp: returns_with_def)
  show ?case
  proof (cases r)
    case (Inl e)
    then show ?thesis using step r(1) by (simp add: and_then_def)
  next
    case (Inr p)
    obtain b s' where p: "p = (b, s')" by fastforce
    show ?thesis
    proof (cases b)
      case True
      then have "jp_i u < length cs"
        using value_at_end [of cs u quote, where 'e = 'e] r(1) Inr p by (cases "length cs \<le> jp_i u") auto
      then have "length cs - jp_i s' < length cs - jp_i s" using r(2) [of b s'] Inr p True u by (intro diff_less_mono2) auto
      then show ?thesis using less [of s' False] step r(1) Inr p True by (simp add: and_then_def)
    next
      case False
      then show ?thesis using step r(1) Inr p by (simp add: and_then_def)
    qed
  qed
qed

lemma repair_rest_returns:
  assumes "92 \<notin> set cs"
  shows "\<exists>r. (repair_rest quote cs s :: 'e repair_result) = Some r"
proof -
  have "\<exists>r. (parse_newline_delimited_json quote cs s :: 'e repair_result) = Some r" for s
    unfolding parse_newline_delimited_json_def
    by (rule and_then_returns [OF newline_loop_returns [OF assms]]) (simp add: Let_def)
  then show ?thesis by (auto simp: repair_rest_def Let_def split: prod.split)
qed

lemma repair_returning:
  fixes de :: "rstr \<Rightarrow> 'e + 'd"
  assumes "92 \<notin> set cs"
  shows "\<exists>r. json_repair quote de cs = Some r"
proof -
  let ?u = "parse_markdown_code_block [lit ''```'', lit ''[```'', lit ''{```''] cs \<lparr>jp_i = 0, jp_out = []\<rparr>"
  have run: "\<exists>r. (repair_run quote cs CValue ?u :: 'e repair_result) = Some r"
    using calls_returning [OF assms, of CValue ?u quote, where 'e = 'e] by (auto simp: returns_with_def)
  have "\<exists>r. and_then (repair_run quote cs CValue ?u :: 'e repair_result)
      (\<lambda>processed s. if processed then repair_rest quote cs s else Some (Inl (UnexpectedEnd (length cs)))) = Some r"
    by (rule and_then_returns [OF run]) (simp add: repair_rest_returns [OF assms])
  then show ?thesis by (auto simp: json_repair_def)
qed

text \<open>C11: The repair of a text without a backslash returns, a value or an error, whatever the text is.\<close>

theorem repair_returns: "92 \<notin> set cs \<Longrightarrow> \<exists>r. json_repair quote de cs = Some r"
  by (rule repair_returning)

lemma repair_returns_witness: "\<exists>r. json_repair (\<lambda>t. t) (Inr :: rstr \<Rightarrow> rstr + rstr) (lit ''{a: [1, 2'') = Some r"
  by (rule repair_returns) (simp add: lit_def)

section \<open>A repair that does not return\<close>

text \<open>
  The calls of a string that starts at \<open>i\<close>, has \<open>n\<close> characters, an escaped comma and a quote: from the quote back to
  the start, to stop at the comma, but the step over the escape runs past it.
\<close>

fun escaped_comma_call :: "nat \<Rightarrow> nat \<Rightarrow> repair_call \<Rightarrow> nat \<Rightarrow> bool" where
  "escaped_comma_call i n (CString b k) p \<longleftrightarrow> \<not> b \<and> k \<in> {None, Some (i + n + 2)} \<and> p = i"
| "escaped_comma_call i n (CStringLoop l) p \<longleftrightarrow> \<not> sl_stop_at_delimiter l \<and> sl_stop_at_index l \<in> {None, Some (i + n + 2)}
     \<and> \<not> sl_skip_escape_chars l \<and> sl_quote_char l = 34 \<and> sl_i_before l = i \<and> ((i < p \<and> p \<le> i + n + 1) \<or> p = i + n + 3)"
| "escaped_comma_call i n _ p \<longleftrightarrow> False"

definition word_start :: "int \<Rightarrow> bool" where
  "word_start c \<longleftrightarrow> \<not> json_ws c False \<and> \<not> is_special_whitespace c \<and> \<not> is_delimiter (Some c) \<and> \<not> is_quote (Some c)
     \<and> \<not> is_digit (Some c)"

definition string_text :: "rstr \<Rightarrow> bool" where
  "string_text x \<longleftrightarrow> list_all (\<lambda>c. c \<notin> {34, 92} \<and> (is_valid_string_character c \<or> is_control_character c)) x"

lemma skip_ws_word:
  assumes "drop i cs = c # t" "word_start c"
  shows "skip_ws False cs (at_state i out) = at_state i out"
proof -
  have "parse_whitespace False cs (at_state i out) = at_state (i + length ([] :: rstr)) (out @ [])"
    using assms by (intro parse_whitespace_copies [where t = "c # t"]) (simp_all add: word_start_def)
  then show ?thesis
    using assms by (simp add: skip_ws_def skip_comments_none parse_comment_def char_at_drop word_start_def is_delimiter_def)
qed

lemma escaped_comma_step:
  assumes at: "drop i cs = 34 # x @ [92, 44, 34, c] @ u"
    and "string_text x" "word_start c"
    and none: "\<And>c s. escaped_comma_call i (length x) c (jp_i s) \<Longrightarrow> rec c s = None"
    and call: "escaped_comma_call i (length x) call (jp_i s)"
  shows "repair_body quote cs rec call s = None"
proof (cases call)
  case (CString b k)
  then show ?thesis
    using call at none
    by (simp add: parse_string_def char_at_def get_at_drop is_quote_def skip_def)
next
  case (CStringLoop l)
  obtain p out where s: "s = at_state p out" by (cases s)
  let ?n = "length x"
  have l: "\<not> sl_stop_at_delimiter l" "sl_stop_at_index l \<in> {None, Some (i + ?n + 2)}" "\<not> sl_skip_escape_chars l"
      "sl_quote_char l = 34" "sl_i_before l = i"
    and p: "(i < p \<and> p \<le> i + ?n) \<or> p = i + ?n + 1 \<or> p = i + ?n + 3"
    using call CStringLoop s by auto
  have onward: "next_char cs rec l t (at_state q out') = None"
    if "i < q \<and> q \<le> i + ?n + 1 \<or> q = i + ?n + 3" for t q out'
    using that l by (simp add: next_char_def none)
  have at2: "drop (i + ?n + 1) cs = [92, 44, 34, c] @ u" "drop (i + ?n + 2) cs = [44, 34, c] @ u"
    "drop (i + ?n + 3) cs = [34, c] @ u" "drop (i + ?n + 4) cs = c # u"
    using drop_shift [of i cs "34 # x" "[92, 44, 34, c] @ u"] drop_shift [of i cs "34 # x @ [92]" "[44, 34, c] @ u"]
      drop_shift [of i cs "34 # x @ [92, 44]" "[34, c] @ u"] drop_shift [of i cs "34 # x @ [92, 44, 34]" "c # u"] at
    by (simp_all add: numeral_eq_Suc)
  from p consider "i < p \<and> p \<le> i + ?n" | "p = i + ?n + 1" | "p = i + ?n + 3" by blast
  then have "string_loop cs rec l s = None"
  proof cases
    case 1
    then obtain j where j: "p = i + 1 + j" "j < ?n" by (metis Suc_eq_plus1 add.assoc add_less_cancel_left less_eq_Suc_le
        less_iff_Suc_add le_iff_add plus_1_eq_Suc Suc_le_lessD add_Suc_right)
    have "drop p cs = drop j (x @ [92, 44, 34, c] @ u)" using at j(1) by (metis drop_drop drop_Suc_Cons plus_1_eq_Suc add.commute drop0)
    then obtain t where "drop p cs = x ! j # t" using j(2) by (simp add: Cons_nth_drop_Suc [symmetric])
    moreover have "x ! j \<notin> {34, 92}" "is_valid_string_character (x ! j) \<or> is_control_character (x ! j)"
      using assms(2) j(2) by (auto simp: string_text_def list_all_length)
    ultimately show ?thesis
      using onward 1 l by (auto simp: string_loop_def s char_at_drop string_char_def end_quote_matches_def)
  next
    case 2
    then show ?thesis
      using onward l at2
      by (auto simp: string_loop_def s char_at_drop end_quote_matches_def string_escape_def get_at_drop Let_def)
  next
    case 3
    define m where "m = i + ?n + 2"
    have m: "p = Suc m" "drop m cs = [44, 34, c] @ u" "drop (Suc m) cs = [34, c] @ u" "drop (Suc (Suc m)) cs = c # u"
      using 3 at2 by (simp_all add: m_def numeral_eq_Suc)
    have stays: "skip_ws False cs (at_state (Suc (Suc m)) out') = at_state (Suc (Suc m)) out'" for out'
      by (rule skip_ws_word [OF m(4) assms(3)])
    have prev: "prev_non_whitespace_index cs m = m"
      using m(2) by (cases m) (simp_all add: get_at_drop json_ws_def)
    have inside: "Suc (Suc m) < length cs" using m(4) by (metis drop_all list.distinct(1) not_less)
    have again: "rec (CString False (Some m)) (at_state i out') = None" for out'
      by (rule none) (simp add: m_def)
    have "string_end_quote cs rec l s = None"
      using m(2,4) assms(3) l(1,5) prev inside again
      by (simp add: string_end_quote_def s m(1) stays char_at_drop word_start_def get_at_drop retry_string_def)
    then show ?thesis
      using 3 at2 l by (auto simp: string_loop_def s char_at_drop end_quote_matches_def)
  qed
  then show ?thesis using CStringLoop by simp
qed (use call in simp_all)

lemma escaped_comma_never:
  assumes "drop i cs = 34 # x @ [92, 44, 34, c] @ u" "string_text x" "word_start c"
    and "escaped_comma_call i (length x) call (jp_i s)"
  shows "(repair_run quote cs call s :: 'e repair_result) = None"
proof -
  define P where "P q cs' c s r \<longleftrightarrow> \<not> (q = quote \<and> cs' = cs \<and> escaped_comma_call i (length x) c (jp_i s))"
    for q cs' c and s :: parser_state and r :: "'e json_repair_error + bool \<times> parser_state"
  have "P quote cs call s r" if run: "repair_run quote cs call s = Some r" for r
  proof (rule repair_run.raw_induct [where P = P, OF _ run])
    fix run q cs' c' s' r'
    assume ih: "\<And>q cs' c s r. run q cs' c s = Some r \<Longrightarrow> P q cs' c s r"
      and body: "repair_body q cs' (run q cs') c' s' = Some r'"
    have "run quote cs c s = None" if "escaped_comma_call i (length x) c (jp_i s)" for c s
      using ih [of quote cs c s] that by (cases "run quote cs c s") (auto simp: P_def)
    then have "repair_body quote cs (run quote cs) c' s' = None" if "escaped_comma_call i (length x) c' (jp_i s')"
      using escaped_comma_step [OF assms(1-3) _ that] by blast
    then show "P q cs' c' s' r'" using body by (auto simp: P_def)
  qed
  then show ?thesis using assms(4) by (cases "repair_run quote cs call s :: 'e repair_result") (auto simp: P_def)
qed

lemma string_value_never:
  assumes "skip_ws True cs s = s" "char_at cs s = Some 34" "(repair_run quote cs (CString False None) s :: 'e repair_result) = None"
  shows "(repair_run quote cs CValue s :: 'e repair_result) = None"
  using assms by (simp add: repair_calls(1) parse_value_def not_tried or_try_def and_then_def)

text \<open>C12: A string with an escaped comma before a quote that does not end it is tried again without an end: the repair of
  a text that begins so does not return, whatever follows.\<close>

theorem escaped_comma_never_returns:
  assumes "string_text x" "word_start c"
  shows "json_repair quote de (34 # x @ [92, 44, 34, c] @ u) = None"
proof -
  let ?cs = "34 # x @ [92, 44, 34, c] @ u"
  have start: "parse_markdown_code_block [lit ''```'', lit ''[```'', lit ''{```''] ?cs (at_state 0 []) = at_state 0 []"
    by (intro markdown_absent [where t = "?cs"]) (auto simp: lit_def)
  have ws: "skip_ws True ?cs (at_state 0 []) = at_state 0 []"
    by (rule skip_ws_nothing [where t = ?cs]) (simp_all add: json_ws_def is_special_whitespace_def)
  have char: "char_at ?cs (at_state 0 []) = Some 34" by (simp add: char_at_def get_at_def)
  have "repair_run quote ?cs (CString False None) (at_state 0 []) = (None :: 'a repair_result)"
    using assms by (intro escaped_comma_never [of 0 _ x c u]) simp_all
  then have "repair_run quote ?cs CValue (at_state 0 []) = (None :: 'a repair_result)"
    by (rule string_value_never [OF ws char])
  then show ?thesis unfolding json_repair_def start by (simp add: and_then_def)
qed

lemma escaped_comma_never_returns_witness:
  "json_repair (\<lambda>t. t) (Inr :: rstr \<Rightarrow> rstr + rstr) [34, 97, 92, 44, 34, 98, 34] = None"
  using escaped_comma_never_returns [of "[97]" 98 "\<lambda>t. t" Inr "[34]"]
  by (simp add: string_text_def word_start_def is_valid_string_character_def json_ws_def is_special_whitespace_def
      is_delimiter_def is_quote_def is_digit_def)

end
