(* ===== verification/Coercion_Laws.thy ===== *)
theory Coercion_Laws
  imports Schema_Coercion Json_Termination
begin

text \<open>
  Coercion to a schema: a value that fits its schema is left alone, and when coercion returns. It follows references
  without end when they form a cycle, and it repairs strings; without cycles, and on texts on which the repair
  returns, it returns.
\<close>

text \<open>C14: Coercion keeps the shape of a value: whatever the schema is, numbers, booleans and null stay as they are, an object
  keeps its keys in their order, an array its length, and a string stays as it is or becomes something that is not a
  string.\<close>

theorem coercion_keeps_shape:
  "coerce_to_schema lib v schema = Some r \<Longrightarrow> same_shape v r"
  unfolding coerce_to_schema_def by (rule coerced_shape)

section \<open>Values that fit\<close>

definition no_alternatives :: "'f json_object \<Rightarrow> bool" where
  "no_alternatives obj \<longleftrightarrow> subschemas obj ''anyOf'' = None \<and> subschemas obj ''oneOf'' = None"

definition member_schema :: "'f json_object \<Rightarrow> rstr \<Rightarrow> 'f json option" where
  "member_schema obj k =
     Option.bind (Option.bind (schema_field obj ''properties'') as_object) (\<lambda>props. Option.bind (map_of props k) schema_of)"

definition item_schema :: "'f json_object \<Rightarrow> nat \<Rightarrow> 'f json option" where
  "item_schema obj i =
     (case subschemas obj ''prefixItems'' of
        Some ss \<Rightarrow> Option.bind (get_at ss i) schema_of
      | None \<Rightarrow> Option.bind (schema_field obj ''items'') (\<lambda>s. case s of
          JArr ss \<Rightarrow> Option.bind (get_at ss i) schema_of
        | _ \<Rightarrow> schema_of s))"

definition is_scalar :: "'f json \<Rightarrow> bool" where
  "is_scalar v \<longleftrightarrow> \<not> is_array v \<and> \<not> is_object v"

text \<open>A schema without alternatives; what it says of types, members, items and combined schemas.\<close>

inductive fits :: "'f json \<Rightarrow> 'f json \<Rightarrow> 'f json \<Rightarrow> bool" for root_schema where
  fits_any: "as_object schema = None \<Longrightarrow> fits root_schema v schema"
| fits_reference: "\<lbrakk>referenced_schema root_schema obj = Some s; fits root_schema v s\<rbrakk> \<Longrightarrow> fits root_schema v (JObj obj)"
| fits_all: "\<lbrakk>referenced_schema root_schema obj = None; \<not> (v = JStr [] \<and> is_nullable obj); no_alternatives obj;
    subschemas obj ''allOf'' = Some ss; \<And>s t. s \<in> set ss \<Longrightarrow> schema_of s = Some t \<Longrightarrow> fits root_schema v t\<rbrakk>
    \<Longrightarrow> fits root_schema v (JObj obj)"
| fits_object: "\<lbrakk>referenced_schema root_schema obj = None; no_alternatives obj; subschemas obj ''allOf'' = None;
    \<And>k v s. (k, v) \<in> set ms \<Longrightarrow> member_schema obj k = Some s \<Longrightarrow> fits root_schema v s\<rbrakk>
    \<Longrightarrow> fits root_schema (JObj ms) (JObj obj)"
| fits_array: "\<lbrakk>referenced_schema root_schema obj = None; no_alternatives obj; subschemas obj ''allOf'' = None;
    \<And>i s. i < length xs \<Longrightarrow> item_schema obj i = Some s \<Longrightarrow> fits root_schema (xs ! i) s\<rbrakk>
    \<Longrightarrow> fits root_schema (JArr xs) (JObj obj)"
| fits_scalar: "\<lbrakk>referenced_schema root_schema obj = None; \<not> (v = JStr [] \<and> is_nullable obj); no_alternatives obj;
    subschemas obj ''allOf'' = None; is_scalar v;
    \<And>t ts. schema_field obj ''type'' = Some t \<Longrightarrow> target_types t = Some ts \<Longrightarrow> type_matches v ts\<rbrakk>
    \<Longrightarrow> fits root_schema v (JObj obj)"

lemma in_sequence_kept:
  "(\<And>s t. s \<in> set ss \<Longrightarrow> schema_of s = Some t \<Longrightarrow> rec v t = Some v) \<Longrightarrow> in_sequence rec v ss = Some v"
proof (induction ss)
  case (Cons s ss)
  then show ?case using Cons.prems [of s] by (cases "schema_of s") auto
qed simp

lemma coerce_members_kept:
  "(\<And>k v s. (k, v) \<in> set ms \<Longrightarrow> Option.bind (map_of props k) schema_of = Some s \<Longrightarrow> rec v s = Some v)
    \<Longrightarrow> coerce_members rec props ms = Some ms"
proof (induction ms)
  case (Cons m ms)
  obtain k v where m: "m = (k, v)" by fastforce
  have "coerce_with rec (map_of props k) v = Some v"
    using Cons.prems [of k v] m by (auto simp: coerce_with_def split: option.split)
  moreover have "coerce_members rec props ms = Some ms"
    by (rule Cons.IH) (use Cons.prems in \<open>auto intro: list.set_intros\<close>)
  ultimately show ?case using m by simp
qed simp

lemma coerce_tuple_kept:
  "(\<And>j s. j < length xs \<Longrightarrow> Option.bind (get_at ss (i + j)) schema_of = Some s \<Longrightarrow> rec (xs ! j) s = Some (xs ! j))
    \<Longrightarrow> coerce_tuple rec ss i xs = Some xs"
proof (induction xs arbitrary: i)
  case (Cons x xs)
  have "coerce_with rec (get_at ss i) x = Some x"
    using Cons.prems [of 0] by (auto simp: coerce_with_def split: option.split)
  moreover have "coerce_tuple rec ss (Suc i) xs = Some xs"
  proof (rule Cons.IH)
    fix j s
    assume "j < length xs" "Option.bind (get_at ss (Suc i + j)) schema_of = Some s"
    then show "rec (xs ! j) s = Some (xs ! j)" using Cons.prems [of "Suc j" s] by simp
  qed
  ultimately show ?case by simp
qed simp

lemma coerce_all_kept: "(\<And>x. x \<in> set xs \<Longrightarrow> rec x s = Some x) \<Longrightarrow> coerce_all rec s xs = Some xs"
  by (induction xs) auto

lemma coerce_array_items_kept:
  assumes "\<And>i s. i < length xs \<Longrightarrow> item_schema obj i = Some s \<Longrightarrow> rec (xs ! i) s = Some (xs ! i)"
  shows "coerce_array_items rec obj xs = Some xs"
proof -
  have tuple: "coerce_tuple rec ss 0 xs = Some xs" if "\<And>i. item_schema obj i = Option.bind (get_at ss i) schema_of" for ss
    using assms that by (intro coerce_tuple_kept) simp
  have every: "coerce_all rec s xs = Some xs" if "\<And>i. item_schema obj i = Some s" for s
    using assms that by (intro coerce_all_kept) (metis in_set_conv_nth)
  show ?thesis
    unfolding coerce_array_items_def
    by (auto simp: item_schema_def schema_of_def intro!: tuple every split: option.split json.split)
qed

lemma fitting_kept: "fits root_schema v schema \<Longrightarrow> coerce_value_with_schema lib root_schema v schema = Some v"
proof (induction rule: fits.induct)
  case (fits_any schema v)
  then show ?case
    by (subst coerce_value_with_schema.simps) (auto simp: coerce_body_def as_object_def split: json.splits)
next
  case (fits_reference obj s v)
  then show ?case
    by (subst coerce_value_with_schema.simps) (simp add: coerce_body_def coerce_value_with_schema_object_def)
next
  case (fits_all obj v ss)
  have "in_sequence (coerce_value_with_schema lib root_schema) v ss = Some v"
    using fits_all(6) by (rule in_sequence_kept)
  then show ?case
    using fits_all(1-4)
    by (subst coerce_value_with_schema.simps)
      (simp add: coerce_body_def coerce_value_with_schema_object_def coerce_combined_def first_changes_def no_alternatives_def)
next
  case (fits_object obj ms)
  have "coerce_members (coerce_value_with_schema lib root_schema) props ms = Some ms"
    if "Option.bind (schema_field obj ''properties'') as_object = Some props" for props
    using fits_object(5) that by (intro coerce_members_kept) (simp add: member_schema_def)
  then show ?case
    using fits_object(1-3)
    by (subst coerce_value_with_schema.simps)
      (auto simp: coerce_body_def coerce_value_with_schema_object_def coerce_combined_def first_changes_def
        no_alternatives_def coerce_parts_def split: option.split)
next
  case (fits_array obj xs)
  have "coerce_array_items (coerce_value_with_schema lib root_schema) obj xs = Some xs"
    using fits_array(5) by (rule coerce_array_items_kept)
  then show ?case
    using fits_array(1-3)
    by (subst coerce_value_with_schema.simps)
      (simp add: coerce_body_def coerce_value_with_schema_object_def coerce_combined_def first_changes_def
        no_alternatives_def coerce_parts_def)
next
  case (fits_scalar obj v)
  have "coerce_by_type lib (coerce_value_with_schema lib root_schema) obj t v = Some v" if "schema_field obj ''type'' = Some t" for t
    using fits_scalar(6) [OF that] by (auto simp: coerce_by_type_def split: option.split json.split)
  then have "coerce_parts lib (coerce_value_with_schema lib root_schema) obj v = Some v"
    using fits_scalar(5)
    by (auto simp: coerce_parts_def is_scalar_def is_array_def is_object_def as_array_def as_object_def
        split: json.splits option.split)
  then show ?case
    using fits_scalar(1-4)
    by (subst coerce_value_with_schema.simps)
      (simp add: coerce_body_def coerce_value_with_schema_object_def coerce_combined_def first_changes_def no_alternatives_def)
qed

text \<open>C15: A value that fits its schema is left as it is. To fit is to have the types, members, items, references and
  \<open>allOf\<close> branches that the schema gives (\<open>fits\<close>), where no schema that the value reaches has \<open>anyOf\<close> or \<open>oneOf\<close> and an empty
  string does not stand where null is allowed: those two change values that are valid.\<close>

theorem fitting_value_is_kept:
  "fits schema v schema \<Longrightarrow> coerce_to_schema lib v schema = Some v"
  unfolding coerce_to_schema_def by (rule fitting_kept)

section \<open>Alternatives and references\<close>

text \<open>An alternative that fits does not count: the first one that changes the value does.\<close>

lemma alternative_overrides_fit:
  assumes "parse_i64 s = Some n"
    and "schema = JObj [(lit ''anyOf'', JArr [JObj [(lit ''type'', JStr (lit ''string''))], JObj [(lit ''type'', JStr (lit ''integer''))]])]"
  shows "coerce_to_schema lib (JStr s) schema = Some (JInt n)"
proof -
  have ne: "s \<noteq> []" using assms(1) by (auto simp: parse_i64_def is_digits_def)
  have names: "lit ''integer'' \<noteq> lit ''string''" by (simp add: lit_def)
  have plain: "coerce_value_with_schema lib schema (JStr s) (JObj [(lit ''type'', JStr t)]) =
      coerce_by_type lib (coerce_value_with_schema lib schema) [(lit ''type'', JStr t)] (JStr t) (JStr s)" for t
    using ne
    by (subst coerce_value_with_schema.simps)
      (simp add: coerce_body_def coerce_value_with_schema_object_def referenced_schema_def coerce_combined_def
        first_changes_def subschemas_def coerce_parts_def lit_def)
  have str: "coerce_value_with_schema lib schema (JStr s) (JObj [(lit ''type'', JStr (lit ''string''))]) = Some (JStr s)"
    by (simp add: plain coerce_by_type_def target_types_def type_matches_def)
  have "coerce_value_with_schema lib schema (JStr s) (JObj [(lit ''type'', JStr (lit ''integer''))]) = Some (JInt n)"
    using assms(1) names by (simp add: plain coerce_by_type_def target_types_def type_matches_def try_coerce_string_def)
  then show ?thesis
    unfolding coerce_to_schema_def using str ne
    by (subst (2) assms(2), subst coerce_value_with_schema.simps)
      (simp add: coerce_body_def coerce_value_with_schema_object_def referenced_schema_def coerce_combined_def
        first_changes_def subschemas_def as_array_def schema_of_def lit_def)
qed

text \<open>A reference that leads back to itself is followed for ever.\<close>

lemma reference_cycle_never_returns:
  assumes "referenced_schema root_schema obj = Some (JObj obj)"
  shows "coerce_value_with_schema (lib :: ('a, 'b) json_lib) root_schema v (JObj obj) = None"
proof -
  have never: "\<not> (rs = root_schema \<and> s = JObj obj)" if "coerce_value_with_schema lib' rs v s = Some r"
    for lib' :: "('a, 'b) json_lib" and rs v s r
  proof (rule coerce_value_with_schema.raw_induct
      [where P = "\<lambda>_ rs v s r. \<not> (rs = root_schema \<and> s = JObj obj)", OF _ that])
    fix run lib' rs v s r
    assume ih: "\<And>lib' rs v s r. run lib' rs v s = Some r \<Longrightarrow> \<not> (rs = root_schema \<and> s = JObj obj)"
      and body: "coerce_body lib' rs (run lib' rs) v s = Some r"
    show "\<not> (rs = root_schema \<and> s = JObj obj)"
      using ih [of lib' root_schema v "JObj obj" r] body assms
      by (auto simp: coerce_body_def coerce_value_with_schema_object_def)
  qed
  show ?thesis
    using never [of lib root_schema v "JObj obj"] by (cases "coerce_value_with_schema lib root_schema v (JObj obj)") auto
qed

section \<open>When coercion returns\<close>

text \<open>The strings of a value, and the definitions a schema refers to.\<close>

function texts :: "'f json \<Rightarrow> rstr set" where
  "texts (JStr s) = {s}"
| "texts (JArr xs) = (\<Union>x\<in>set xs. texts x)"
| "texts (JObj ms) = (\<Union>m\<in>set ms. texts (snd m))"
| "texts JNull = {}"
| "texts (JBool b) = {}"
| "texts (JInt n) = {}"
| "texts (JFloat x) = {}"
  by pat_completeness auto

termination by (relation "measure size") (use json_parts_smaller in auto)

function references :: "'f json \<Rightarrow> rstr set" where
  "references (JArr xs) = (\<Union>x\<in>set xs. references x)"
| "references (JObj ms) = {name. \<exists>r. (lit ''$ref'', JStr r) \<in> set ms \<and> definition_name r = Some name}
     \<union> (\<Union>m\<in>set ms. references (snd m))"
| "references (JStr s) = {}"
| "references JNull = {}"
| "references (JBool b) = {}"
| "references (JInt n) = {}"
| "references (JFloat x) = {}"
  by pat_completeness auto

termination by (relation "measure size") (use json_parts_smaller in auto)

text \<open>A rank for the definitions that decreases along references: there is no cycle.\<close>

definition ranked :: "'f json \<Rightarrow> (rstr \<Rightarrow> nat) \<Rightarrow> bool" where
  "ranked root_schema rank \<longleftrightarrow> (\<forall>defs name d. definitions_of root_schema = Some defs \<longrightarrow> map_of defs name = Some d \<longrightarrow>
     (\<forall>m\<in>references d. rank m < rank name))"

text \<open>Texts on which the repair returns, together with what is read out of them and cut out of them.\<close>

definition repairable :: "('e, 'f) json_lib \<Rightarrow> rstr set \<Rightarrow> bool" where
  "repairable lib T \<longleftrightarrow> (\<forall>t\<in>T.
     (\<exists>r. json_repair (jl_quote lib) (jl_from_str lib) t = Some r \<and> (\<forall>v. r = Inr v \<longrightarrow> texts v \<subseteq> T))
     \<and> (\<forall>v. jl_from_str lib t = Inr v \<or> jl_from_str5 lib t = Inr v \<longrightarrow> texts v \<subseteq> T)
     \<and> (\<forall>a n. take n (drop a t) \<in> T))"

definition returns_in :: "rstr set \<Rightarrow> 'f json option \<Rightarrow> bool" where
  "returns_in T x \<longleftrightarrow> (\<exists>r. x = Some r \<and> texts r \<subseteq> T)"

definition finds_in :: "rstr set \<Rightarrow> 'f json option option \<Rightarrow> bool" where
  "finds_in T x \<longleftrightarrow> (\<exists>r. x = Some r \<and> (\<forall>v. r = Some v \<longrightarrow> texts v \<subseteq> T))"

definition reads_in :: "rstr set \<Rightarrow> ('a + 'f json) option \<Rightarrow> bool" where
  "reads_in T x \<longleftrightarrow> (\<exists>r. x = Some r \<and> (\<forall>v. r = Inr v \<longrightarrow> texts v \<subseteq> T))"

lemma parse_json_like_value_returns:
  "repairable lib T \<Longrightarrow> s \<in> T \<Longrightarrow> reads_in T (parse_json_like_value lib s)"
  by (auto simp: repairable_def reads_in_def parse_json_like_value_def split: sum.split)

lemma unwrap_strings_returns:
  "repairable lib T \<Longrightarrow> texts v \<subseteq> T \<Longrightarrow> returns_in T (unwrap_strings lib n v)"
proof (induction n arbitrary: v)
  case (Suc n)
  show ?case
  proof (cases v)
    case (JStr s)
    then obtain r where "parse_json_like_value lib s = Some r" "\<And>v. r = Inr v \<Longrightarrow> texts v \<subseteq> T"
      using parse_json_like_value_returns [OF Suc.prems(1), of s] Suc.prems(2) by (auto simp: reads_in_def)
    then show ?thesis using Suc JStr by (cases r) (auto simp: returns_in_def)
  qed (use Suc.prems(2) in \<open>auto simp: returns_in_def\<close>)
qed (simp add: returns_in_def)

lemma try_parse_json_string_returns:
  assumes "repairable lib T" "s \<in> T"
  shows "reads_in T (try_parse_json_string lib s)"
proof -
  obtain r where r: "parse_json_like_value lib s = Some r" "\<And>v. r = Inr v \<Longrightarrow> texts v \<subseteq> T"
    using parse_json_like_value_returns [OF assms] by (auto simp: reads_in_def)
  show ?thesis
  proof (cases r)
    case (Inr v)
    then obtain v' where "unwrap_strings lib 4 v = Some v'" "texts v' \<subseteq> T"
      using unwrap_strings_returns [OF assms(1) r(2), of v 4] by (auto simp: returns_in_def)
    then show ?thesis using r(1) Inr by (simp add: try_parse_json_string_def reads_in_def)
  qed (use r(1) in \<open>simp add: try_parse_json_string_def reads_in_def\<close>)
qed

lemma first_array_returns: "repairable lib T \<Longrightarrow> set cands \<subseteq> T \<Longrightarrow> finds_in T (first_array lib cands)"
proof (induction cands)
  case (Cons c cands)
  then obtain r where "json_repair (jl_quote lib) (jl_from_str lib) c = Some r" "\<And>v. r = Inr v \<Longrightarrow> texts v \<subseteq> T"
    by (auto simp: repairable_def)
  then show ?case using Cons by (cases r) (auto simp: finds_in_def)
qed (simp add: finds_in_def)

lemma extract_array_returns:
  assumes "repairable lib T" "s \<in> T"
  shows "finds_in T (extract_array_from_string lib s)"
proof -
  have cut: "take n (drop a s) \<in> T" for a n using assms by (simp add: repairable_def)
  have "drop a s \<in> T" for a using cut [of "length s" a] by simp
  then have "set (array_candidates s a) \<subseteq> T" for a using cut by (auto simp: array_candidates_def)
  then show ?thesis
    using first_array_returns [OF assms(1)]
    by (auto simp: extract_array_from_string_def finds_in_def split: option.split)
qed

text \<open>A part of a schema is smaller and refers to no more.\<close>

definition part_of :: "'f json \<Rightarrow> 'f json \<Rightarrow> bool" where
  "part_of s schema \<longleftrightarrow> size s < size schema \<and> references s \<subseteq> references schema"

lemma part_of_trans: "part_of s t \<Longrightarrow> part_of t u \<Longrightarrow> part_of s u"
  by (auto simp: part_of_def)

lemma part_of_parts:
  "x \<in> set xs \<Longrightarrow> part_of x (JArr xs)"
  "map_of ms k = Some s \<Longrightarrow> part_of s (JObj ms)"
  using json_parts_smaller by (fastforce simp: part_of_def dest: map_of_SomeD)+

lemma as_Some:
  "as_array v = Some xs \<longleftrightarrow> v = JArr xs" "as_object v = Some ms \<longleftrightarrow> v = JObj ms" "as_string v = Some s \<longleftrightarrow> v = JStr s"
  by (auto simp: as_array_def as_object_def as_string_def split: json.splits)

lemma subschemas_part: "subschemas obj k = Some ss \<Longrightarrow> s \<in> set ss \<Longrightarrow> part_of s (JObj obj)"
  by (auto simp: subschemas_def Option.bind_eq_Some_conv as_Some intro: part_of_trans part_of_parts)

lemma properties_part:
  "Option.bind (schema_field obj k) as_object = Some props \<Longrightarrow> map_of props k' = Some s \<Longrightarrow> part_of s (JObj obj)"
  by (auto simp: Option.bind_eq_Some_conv as_Some intro: part_of_trans part_of_parts)

definition parts_return :: "rstr set \<Rightarrow> 'f coerce_rec \<Rightarrow> 'f json \<Rightarrow> bool" where
  "parts_return T rec schema \<longleftrightarrow> (\<forall>s v. part_of s schema \<longrightarrow> texts v \<subseteq> T \<longrightarrow> returns_in T (rec v s))"

lemma parts_returnD: "parts_return T rec schema \<Longrightarrow> part_of s schema \<Longrightarrow> texts v \<subseteq> T \<Longrightarrow> returns_in T (rec v s)"
  by (simp add: parts_return_def)

lemma schema_of_same: "schema_of s = Some t \<Longrightarrow> t = s"
  by (auto simp: schema_of_def split: json.splits)

lemma first_change_returns:
  assumes "\<And>s. s \<in> set ss \<Longrightarrow> returns_in T (rec v s)"
  shows "finds_in T (first_change rec v ss)"
  using assms
proof (induction ss)
  case (Cons s ss)
  then have "finds_in T (first_change rec v ss)" "returns_in T (rec v s)" by simp_all
  then show ?case by (auto simp: finds_in_def returns_in_def split: option.split dest: schema_of_same)
qed (simp add: finds_in_def)

lemma in_sequence_returns:
  assumes "\<And>s v. s \<in> set ss \<Longrightarrow> texts v \<subseteq> T \<Longrightarrow> returns_in T (rec v s)" "texts v \<subseteq> T"
  shows "returns_in T (in_sequence rec v ss)"
  using assms
proof (induction ss arbitrary: v)
  case (Cons s ss)
  obtain r where r: "rec v s = Some r" "texts r \<subseteq> T"
    using Cons.prems(1) [of s v] Cons.prems(2) by (auto simp: returns_in_def)
  have "returns_in T (in_sequence rec w ss)" if "texts w \<subseteq> T" for w
    by (rule Cons.IH [OF _ that]) (simp add: Cons.prems(1))
  then show ?case using r Cons.prems(2) by (auto split: option.split dest!: schema_of_same)
qed (simp add: returns_in_def)

lemma coerce_with_returns:
  "\<lbrakk>\<And>s. x = Some s \<Longrightarrow> returns_in T (rec v s); texts v \<subseteq> T\<rbrakk> \<Longrightarrow> returns_in T (coerce_with rec x v)"
  by (cases x) (auto simp: coerce_with_def returns_in_def split: option.split dest!: schema_of_same)

lemma coerce_members_returns:
  assumes "\<And>k s v. map_of props k = Some s \<Longrightarrow> texts v \<subseteq> T \<Longrightarrow> returns_in T (rec v s)" "texts (JObj ms) \<subseteq> T"
  shows "\<exists>ms'. coerce_members rec props ms = Some ms' \<and> texts (JObj ms') \<subseteq> T"
  using assms(2)
proof (induction ms)
  case (Cons m ms)
  obtain k v where m: "m = (k, v)" by fastforce
  have "returns_in T (coerce_with rec (map_of props k) v)"
    by (rule coerce_with_returns) (use assms(1) Cons.prems m in auto)
  then show ?case using Cons m by (auto simp: returns_in_def)
qed simp

lemma coerce_tuple_returns:
  assumes "\<And>s v. s \<in> set ss \<Longrightarrow> texts v \<subseteq> T \<Longrightarrow> returns_in T (rec v s)" "texts (JArr xs) \<subseteq> T"
  shows "\<exists>ys. coerce_tuple rec ss i xs = Some ys \<and> texts (JArr ys) \<subseteq> T"
  using assms(2)
proof (induction xs arbitrary: i)
  case (Cons x xs)
  have "returns_in T (coerce_with rec (get_at ss i) x)"
    by (rule coerce_with_returns) (use assms(1) Cons.prems in auto)
  moreover obtain ys where "coerce_tuple rec ss (Suc i) xs = Some ys" "texts (JArr ys) \<subseteq> T"
    using Cons.IH [of "Suc i"] Cons.prems by auto
  ultimately show ?case by (auto simp: returns_in_def)
qed simp

lemma coerce_all_returns:
  assumes "\<And>v. texts v \<subseteq> T \<Longrightarrow> returns_in T (rec v s)" "texts (JArr xs) \<subseteq> T"
  shows "\<exists>ys. coerce_all rec s xs = Some ys \<and> texts (JArr ys) \<subseteq> T"
  using assms(2)
proof (induction xs)
  case (Cons x xs)
  then show ?case using assms(1) [of x] by (auto simp: returns_in_def)
qed simp

lemma coerce_array_items_returns:
  assumes "parts_return T rec (JObj obj)" "texts (JArr xs) \<subseteq> T"
  shows "\<exists>ys. coerce_array_items rec obj xs = Some ys \<and> texts (JArr ys) \<subseteq> T"
proof -
  have tuple: "\<exists>ys. coerce_tuple rec ss 0 xs = Some ys \<and> texts (JArr ys) \<subseteq> T" if "\<And>s. s \<in> set ss \<Longrightarrow> part_of s (JObj obj)" for ss
    by (rule coerce_tuple_returns [OF _ assms(2)]) (use assms(1) that parts_returnD in blast)
  have every: "\<exists>ys. coerce_all rec s xs = Some ys \<and> texts (JArr ys) \<subseteq> T" if "schema_field obj k = Some s" for k s
    by (rule coerce_all_returns [OF _ assms(2)]) (use assms(1) that part_of_parts(2) parts_returnD in blast)
  show ?thesis
  proof (cases "subschemas obj ''prefixItems''")
    case None
    have items: "part_of s (JObj obj)" if "schema_field obj ''items'' = Some (JArr ss)" "s \<in> set ss" for s ss
      using that part_of_trans part_of_parts by blast
    show ?thesis
    proof (cases "schema_field obj ''items''")
      case (Some s)
      then show ?thesis
        using assms(2) tuple [OF items] every [of "''items''"] None by (cases s) (simp_all add: coerce_array_items_def)
    qed (use assms(2) None in \<open>simp add: coerce_array_items_def\<close>)
  next
    case (Some ss)
    then show ?thesis using tuple [OF subschemas_part [OF Some]] by (simp add: coerce_array_items_def)
  qed
qed

lemma coerce_array_value_returns:
  assumes "parts_return T rec (JObj obj)" "texts v \<subseteq> T"
  shows "returns_in T (coerce_array_value rec obj v)"
proof (cases v)
  case (JArr xs)
  then show ?thesis
    using coerce_array_items_returns [OF assms(1), of xs] assms(2) by (auto simp: coerce_array_value_def returns_in_def)
qed (use assms(2) in \<open>auto simp: coerce_array_value_def returns_in_def\<close>)

lemma coerce_to_array_returns:
  assumes "repairable lib T" "parts_return T rec (JObj obj)" "s \<in> T"
  shows "finds_in T (coerce_to_array lib rec obj s)"
proof -
  have arr: "finds_in T (map_option Some (coerce_array_value rec obj v))" if "texts v \<subseteq> T" for v
    using coerce_array_value_returns [OF assms(2) that] by (auto simp: returns_in_def finds_in_def)
  obtain x where "extract_array_from_string lib s = Some x" "\<And>v. x = Some v \<Longrightarrow> texts v \<subseteq> T"
    using extract_array_returns [OF assms(1,3)] by (auto simp: finds_in_def)
  then have ex: "finds_in T (coerce_extracted_array lib rec obj s)"
    using arr by (cases x) (auto simp: coerce_extracted_array_def finds_in_def)
  obtain r where "try_parse_json_string lib s = Some r" "\<And>v. r = Inr v \<Longrightarrow> texts v \<subseteq> T"
    using try_parse_json_string_returns [OF assms(1,3)] by (auto simp: reads_in_def)
  then show ?thesis using arr ex by (cases r) (auto simp: coerce_to_array_def)
qed

lemma try_coerce_string_returns:
  assumes "repairable lib T" "parts_return T rec (JObj obj)" "s \<in> T"
  shows "finds_in T (try_coerce_string lib rec obj s t)"
proof -
  obtain r where "try_parse_json_string lib s = Some r" "\<And>v. r = Inr v \<Longrightarrow> texts v \<subseteq> T"
    using try_parse_json_string_returns [OF assms(1,3)] by (auto simp: reads_in_def)
  then have "finds_in T (map_option (\<lambda>r. case r of Inr v \<Rightarrow> if is_object v then Some v else None | Inl _ \<Rightarrow> None)
      (try_parse_json_string lib s))"
    by (cases r) (simp_all add: finds_in_def)
  then show ?thesis
    using coerce_to_array_returns [OF assms]
    by (auto simp: try_coerce_string_def finds_in_def split: option.split)
qed

lemma first_coercion_returns:
  assumes "repairable lib T" "parts_return T rec (JObj obj)" "s \<in> T"
  shows "returns_in T (first_coercion lib rec obj s ts)"
proof (induction ts)
  case (Cons t ts)
  obtain r where "try_coerce_string lib rec obj s t = Some r" "\<And>v. r = Some v \<Longrightarrow> texts v \<subseteq> T"
    using try_coerce_string_returns [OF assms, of t] by (auto simp: finds_in_def)
  then show ?case using Cons by (cases r) (auto simp: returns_in_def)
qed (use assms(3) in \<open>simp add: returns_in_def\<close>)

lemma coerce_parts_returns:
  assumes "repairable lib T" "parts_return T rec (JObj obj)" "texts v \<subseteq> T"
  shows "returns_in T (coerce_parts lib rec obj v)"
proof -
  have typed: "returns_in T (coerce_by_type lib rec obj t v)" for t
    using first_coercion_returns [OF assms(1,2)] assms(3)
    by (cases v) (auto simp: coerce_by_type_def returns_in_def split: option.split)
  have same: "returns_in T (Some v)" using assms(3) by (simp add: returns_in_def)
  show ?thesis
  proof (cases v)
    case (JObj ms)
    have "returns_in T (map_option JObj (coerce_members rec props ms))"
      if props: "Option.bind (schema_field obj ''properties'') as_object = Some props" for props
    proof -
      have "\<exists>ms'. coerce_members rec props ms = Some ms' \<and> texts (JObj ms') \<subseteq> T"
        using assms(3) JObj by (intro coerce_members_returns parts_returnD [OF assms(2) properties_part [OF props]]) simp_all
      then show ?thesis by (auto simp: returns_in_def)
    qed
    then show ?thesis using same JObj by (cases "Option.bind (schema_field obj ''properties'') as_object") (simp_all add: coerce_parts_def)
  next
    case (JArr xs)
    have "\<exists>ys. coerce_array_items rec obj xs = Some ys \<and> texts (JArr ys) \<subseteq> T"
      using assms(3) JArr by (intro coerce_array_items_returns [OF assms(2)]) simp
    then show ?thesis using JArr by (auto simp: coerce_parts_def returns_in_def)
  qed (use typed same in \<open>simp_all add: coerce_parts_def split: option.split\<close>)
qed

lemma coerce_combined_returns:
  assumes "repairable lib T" "parts_return T rec (JObj obj)" "texts v \<subseteq> T"
  shows "returns_in T (coerce_combined lib rec obj v)"
proof -
  have part: "returns_in T (rec w s)" if "subschemas obj k = Some ss" "s \<in> set ss" "texts w \<subseteq> T" for k ss s w
    using parts_returnD [OF assms(2) subschemas_part] that by blast
  have changes: "finds_in T (first_changes rec obj k v)" for k
    using first_change_returns [of _ T rec v] part [OF _ _ assms(3)]
    by (auto simp: first_changes_def finds_in_def split: option.split)
  have "returns_in T (in_sequence rec v ss)" if "subschemas obj ''allOf'' = Some ss" for ss
    by (rule in_sequence_returns [OF part [OF that] assms(3)])
  then have rest: "returns_in T (case subschemas obj ''allOf'' of Some ss \<Rightarrow> in_sequence rec v ss | None \<Rightarrow> coerce_parts lib rec obj v)"
    using coerce_parts_returns [OF assms] by (auto split: option.split)
  obtain a where a: "first_changes rec obj ''anyOf'' v = Some a" "\<And>w. a = Some w \<Longrightarrow> texts w \<subseteq> T"
    using changes [of "''anyOf''"] by (auto simp: finds_in_def)
  obtain b where b: "first_changes rec obj ''oneOf'' v = Some b" "\<And>w. b = Some w \<Longrightarrow> texts w \<subseteq> T"
    using changes [of "''oneOf''"] by (auto simp: finds_in_def)
  show ?thesis using a b rest by (cases a; cases b) (auto simp: coerce_combined_def returns_in_def)
qed

lemma referenced_schema_refers:
  assumes "referenced_schema root_schema obj = Some s"
  obtains name defs where "name \<in> references (JObj obj)" "definitions_of root_schema = Some defs" "map_of defs name = Some s"
proof -
  obtain r name defs s' where r: "schema_field obj ''$ref'' = Some (JStr r)" "definition_name r = Some name"
      "definitions_of root_schema = Some defs" "map_of defs name = Some s'" "schema_of s' = Some s"
    using assms by (auto simp: referenced_schema_def Option.bind_eq_Some_conv as_Some)
  have "name \<in> references (JObj obj)" using r(1,2) by (auto dest: map_of_SomeD)
  then show thesis using that r(3,4) schema_of_same [OF r(5)] by simp
qed

lemma coercion_returning:
  fixes lib :: "('e, 'f) json_lib" and v :: "'f json"
  assumes lib: "repairable lib T" and rank: "ranked root_schema rank"
  shows "\<lbrakk>\<forall>m\<in>references schema. rank m < n; texts v \<subseteq> T\<rbrakk>
    \<Longrightarrow> returns_in T (coerce_value_with_schema lib root_schema v schema)"
proof (induction "(n, size schema)" arbitrary: n schema v rule: wf_induct_rule [OF wf_lex_prod [OF wf_less wf_less]])
  case 1
  note IH = 1(1) and prems = 1(2,3)
  show ?case
  proof (cases schema)
    case (JObj obj)
    have parts: "parts_return T (coerce_value_with_schema lib root_schema) schema"
      unfolding parts_return_def
    proof (intro allI impI)
      fix s w :: "'f json"
      assume "part_of s schema" "texts w \<subseteq> T"
      then show "returns_in T (coerce_value_with_schema lib root_schema w s)"
        using IH [of n s w] prems(1) by (auto simp: part_of_def)
    qed
    have "returns_in T (coerce_value_with_schema lib root_schema v s)" if ref: "referenced_schema root_schema obj = Some s" for s
    proof -
      obtain name defs where "name \<in> references schema" "definitions_of root_schema = Some defs" "map_of defs name = Some s"
        using referenced_schema_refers [OF ref] JObj by blast
      then have "rank name < n" "\<forall>m\<in>references s. rank m < rank name"
        using prems(1) rank by (auto simp: ranked_def)
      then show ?thesis using IH [of "rank name" s v] prems(2) by simp
    qed
    then have "returns_in T (coerce_value_with_schema_object lib root_schema (coerce_value_with_schema lib root_schema) obj v)"
      using coerce_combined_returns [OF lib _ prems(2)] parts JObj
      by (auto simp: coerce_value_with_schema_object_def returns_in_def split: option.split)
    then show ?thesis
      by (subst coerce_value_with_schema.simps) (simp add: coerce_body_def JObj)
  qed (use prems(2) in \<open>subst coerce_value_with_schema.simps, simp add: coerce_body_def returns_in_def\<close>)+
qed

text \<open>C13: Coercion returns when the references of the schema can be ranked, so that none leads back to itself, and the
  strings of the value lie in a set of texts on which the repair returns and which has, with a text, every part of it
  and every string of the values that the readers and the repair make of it (\<open>repairable\<close>).\<close>

theorem coercion_returns:
  assumes "repairable lib T" "ranked schema rank" "texts v \<subseteq> T"
  shows "\<exists>r. coerce_to_schema lib v schema = Some r"
proof -
  have "finite (references s)" for s :: "'b json"
  proof (induction s rule: references.induct)
    case (2 ms)
    have "finite ((\<lambda>m. case snd m of JStr r \<Rightarrow> the (definition_name r) | _ \<Rightarrow> []) ` set ms)" by simp
    moreover have "{name. \<exists>r. (lit ''$ref'', JStr r) \<in> set ms \<and> definition_name r = Some name}
        \<subseteq> (\<lambda>m. case snd m of JStr r \<Rightarrow> the (definition_name r) | _ \<Rightarrow> []) ` set ms"
      by force
    ultimately have "finite {name. \<exists>r. (lit ''$ref'', JStr r) \<in> set ms \<and> definition_name r = Some name}"
      by (rule finite_subset [rotated])
    then show ?case using 2 by auto
  qed simp_all
  then obtain n where "\<forall>m\<in>references schema. rank m < n"
    using finite_nat_set_iff_bounded [of "rank ` references schema"] by auto
  from coercion_returning [OF assms(1,2) this assms(3)] show ?thesis
    by (auto simp: coerce_to_schema_def returns_in_def)
qed

section \<open>The theorems at work\<close>

text \<open>A library that reads nothing, and a schema with a member and a reference.\<close>

definition sample_lib :: "(unit, rat) json_lib" where
  "sample_lib = \<lparr>jl_from_str = (\<lambda>_. Inl ()), jl_from_str5 = (\<lambda>_. Inl ()), jl_quote = (\<lambda>t. t),
     jl_parse_f64 = (\<lambda>_. None), jl_is_numeric = (\<lambda>c. 48 \<le> c \<and> c \<le> 57)\<rparr>"

definition sample_schema :: "rat json" where
  "sample_schema = JObj
     [(lit ''type'', JStr (lit ''object'')),
      (lit ''properties'', JObj [(lit ''n'', JObj [(lit ''$ref'', JStr (lit ''#/$defs/Count''))])]),
      (lit ''$defs'', JObj [(lit ''Count'', JObj [(lit ''type'', JStr (lit ''integer''))])])]"

lemma sample_coerced:
  "coerce_to_schema sample_lib (JObj [(lit ''n'', JStr (lit ''42''))]) sample_schema = Some (JObj [(lit ''n'', JInt 42)])"
  by code_simp

lemma coercion_keeps_shape_witness:
  "same_shape (JObj [(lit ''n'', JStr (lit ''42''))] :: rat json) (JObj [(lit ''n'', JInt 42)])"
  by (rule coercion_keeps_shape [OF sample_coerced])

lemma sample_reference:
  "referenced_schema sample_schema [(lit ''$ref'', JStr (lit ''#/$defs/Count''))]
    = Some (JObj [(lit ''type'', JStr (lit ''integer''))])"
  by code_simp

lemma fitting_value_is_kept_witness:
  "coerce_to_schema sample_lib (JObj [(lit ''n'', JInt 42)]) sample_schema = Some (JObj [(lit ''n'', JInt 42)])"
proof (rule fitting_value_is_kept)
  have count: "fits sample_schema (JInt 42) (JObj [(lit ''type'', JStr (lit ''integer''))])"
    by (rule fits_scalar)
      (auto simp: referenced_schema_def no_alternatives_def subschemas_def is_scalar_def is_array_def is_object_def
        as_array_def as_object_def target_types_def type_matches_def lit_def)
  have member: "fits sample_schema (JInt 42) (JObj [(lit ''$ref'', JStr (lit ''#/$defs/Count''))])"
    by (rule fits_reference [OF sample_reference count])
  show "fits sample_schema (JObj [(lit ''n'', JInt 42)]) sample_schema"
    unfolding sample_schema_def
    by (rule fits_object)
      (use member in \<open>auto simp: sample_schema_def referenced_schema_def no_alternatives_def subschemas_def member_schema_def
        as_object_def schema_of_def lit_def\<close>)
qed

text \<open>On texts without a backslash the repair returns, so they are enough for a reader that yields no other.\<close>

lemma plain_texts_repairable:
  fixes lib :: "('e, 'f) json_lib"
  assumes "\<And>t v. jl_from_str lib t = Inr v \<or> jl_from_str5 lib t = Inr v \<Longrightarrow> texts v \<subseteq> {t. 92 \<notin> set t}"
  shows "repairable lib {t. 92 \<notin> set t}"
proof -
  have read: "texts v \<subseteq> {t. 92 \<notin> set t}" if run: "json_repair (jl_quote lib) (jl_from_str lib) t = Some (Inr v)" for t v
  proof -
    obtain z :: "'e json_repair_error + bool \<times> parser_state"
      where z: "(case z of Inl e \<Rightarrow> Inl e | Inr (_, s) \<Rightarrow> let s = skip_redundant t s
          in if length t \<le> jp_i s then (case jl_from_str lib (jp_out s) of Inl e \<Rightarrow> Inl (JsonError e) | Inr v \<Rightarrow> Inr v)
             else Inl (UnexpectedCharacter (case char_at t s of Some c \<Rightarrow> c | None \<Rightarrow> 0) (jp_i s))) = Inr v"
      using run unfolding json_repair_def map_option_eq_Some by blast
    have "\<exists>out. jl_from_str lib out = Inr v"
      using z by (cases z) (auto simp: Let_def split: prod.splits if_splits sum.splits)
    then show ?thesis using assms by blast
  qed
  have "92 \<notin> set (take n (drop a t))" if "92 \<notin> set t" for a n and t :: rstr
    using that by (meson in_set_dropD in_set_takeD)
  then show ?thesis
    using assms read repair_returning [of _ "jl_quote lib" "jl_from_str lib"] unfolding repairable_def by fastforce
qed

text \<open>A library that reads one array, and a schema for arrays of counts: the text is read, and its item coerced.\<close>

definition reading_lib :: "(unit, rat) json_lib" where
  "reading_lib = sample_lib\<lparr>jl_from_str := (\<lambda>t. if t = lit ''[\"42\"]'' then Inr (JArr [JStr (lit ''42'')]) else Inl ()),
     jl_from_str5 := (\<lambda>t. if t = lit ''[\"42\"]'' then Inr (JArr [JStr (lit ''42'')]) else Inl ())\<rparr>"

definition counts_schema :: "rat json" where
  "counts_schema = JObj
     [(lit ''type'', JStr (lit ''array'')), (lit ''items'', JObj [(lit ''$ref'', JStr (lit ''#/$defs/Count''))]),
      (lit ''$defs'', JObj [(lit ''Count'', JObj [(lit ''type'', JStr (lit ''integer''))])])]"

lemma counts_read: "coerce_to_schema reading_lib (JStr (lit ''[\"42\"]'')) counts_schema = Some (JArr [JInt 42])"
  by code_simp

lemma coercion_returns_witness:
  "\<exists>r. coerce_to_schema reading_lib (JStr (lit ''[\"42\"]'')) counts_schema = Some r"
proof (rule coercion_returns)
  show "repairable reading_lib {t. 92 \<notin> set t}"
    by (rule plain_texts_repairable) (auto simp: reading_lib_def sample_lib_def lit_def split: if_splits)
  show "ranked counts_schema (\<lambda>_. 0)"
    by (auto simp: ranked_def counts_schema_def definitions_of_def as_object_def lit_def split: if_splits)
  show "texts (JStr (lit ''[\"42\"]'') :: rat json) \<subseteq> {t. 92 \<notin> set t}" by (simp add: lit_def)
qed

text \<open>The candidates for an array begin with the text without its last character, which the repair closes: an array that is
  cut off loses a digit.\<close>

definition tiny_lib :: "(unit, rat) json_lib" where
  "tiny_lib = sample_lib\<lparr>jl_from_str := (\<lambda>t. if t = lit ''[10,2]'' then Inr (JArr [JInt 10, JInt 2])
     else if t = lit ''[10,20]'' then Inr (JArr [JInt 10, JInt 20]) else Inl ())\<rparr>"

lemma cut_array_loses_a_digit:
  "coerce_to_schema tiny_lib (JStr (lit ''x[10,20'')) (JObj [(lit ''type'', JStr (lit ''array''))]) = Some (JArr [JInt 10, JInt 2])"
  by code_simp

end
