(* ===== verification/Strict_Schema.thy ===== *)
theory Strict_Schema
  imports Schema_Coercion "HOL-Library.AList"
begin

text \<open>
  The schemas of tools as the providers want them (\<open>forge_app/src/utils.rs\<close>, \<open>enforce_strict_schema\<close>): the branches of
  \<open>allOf\<close> are merged, keywords the provider does not know are removed, and every schema says its type, its members and
  which of them are required. Both recursions change the map they run over and are partial functions into \<open>option\<close>;
  that they return is in \<open>Strict_Returns\<close>. The order of the members of an object, which a map does not show, is not that of
  the source.
\<close>

section \<open>Maps\<close>

abbreviation jremove :: "rstr \<Rightarrow> 'f json_object \<Rightarrow> 'f json_object" where
  "jremove \<equiv> AList.delete"

abbreviation jinsert :: "rstr \<Rightarrow> 'f json \<Rightarrow> 'f json_object \<Rightarrow> 'f json_object" where
  "jinsert \<equiv> AList.update"

definition contains_key :: "'f json_object \<Rightarrow> rstr \<Rightarrow> bool" where
  "contains_key ms k \<longleftrightarrow> map_of ms k \<noteq> None"

text \<open>A loop over a list whose body may not return.\<close>

fun fold_opt :: "('b \<Rightarrow> 'a \<Rightarrow> 'a option) \<Rightarrow> 'b list \<Rightarrow> 'a \<Rightarrow> 'a option" where
  "fold_opt f [] a = Some a"
| "fold_opt f (x # xs) a = Option.bind (f x a) (fold_opt f xs)"

fun map_opt :: "('a \<Rightarrow> 'b option) \<Rightarrow> 'a list \<Rightarrow> 'b list option" where
  "map_opt f [] = Some []"
| "map_opt f (x # xs) = Option.bind (f x) (\<lambda>y. map_option ((#) y) (map_opt f xs))"

definition map_values :: "('f json \<Rightarrow> 'f json option) \<Rightarrow> 'f json_object \<Rightarrow> 'f json_object option" where
  "map_values f ms = map_opt (\<lambda>m. map_option (Pair (fst m)) (f (snd m))) ms"

lemma fold_opt_mono:
  "(\<And>x a. mono_calls (\<lambda>f. g f x a)) \<Longrightarrow> mono_calls (\<lambda>f. fold_opt (g f) xs a)"
  by (induction xs arbitrary: a) (auto intro!: Partial_Function.bind_mono option.const_mono)

lemma map_opt_mono:
  "(\<And>x. mono_calls (\<lambda>f. g f x)) \<Longrightarrow> mono_calls (\<lambda>f. map_opt (g f) xs)"
  by (induction xs) (auto intro!: Partial_Function.bind_mono map_option_mono_calls option.const_mono)

section \<open>Merging \<open>allOf\<close>\<close>

datatype 'f merge_call =
    MFlatten "'f json_object"
  | MObject "'f json_object" "'f json_object"
  | MKeyword rstr "'f json" "'f json"
  | MNamed "'f json_object" "'f json_object"

type_synonym 'f merge_rec = "'f merge_call \<Rightarrow> 'f json option"

text \<open>The calls that return a map.\<close>

definition merge_map :: "'f merge_rec \<Rightarrow> 'f merge_call \<Rightarrow> 'f json_object option" where
  "merge_map rec c = Option.bind (rec c) as_object"

definition flatten_all_of_schema :: "'f merge_rec \<Rightarrow> 'f json_object \<Rightarrow> 'f json_object option" where
  "flatten_all_of_schema rec ms =
     (case schema_field ms ''allOf'' of
        Some (JArr subs) \<Rightarrow>
          fold_opt (\<lambda>sub ms. case sub of JObj source \<Rightarrow> merge_map rec (MObject ms source) | _ \<Rightarrow> Some ms) subs
            (jremove (lit ''allOf'') ms)
      | _ \<Rightarrow> Some (jremove (lit ''allOf'') ms))"

text \<open>The loops of \<open>merge_schema_object\<close> and \<open>merge_named_schema_map\<close>: \<open>key_of\<close> is the key the values are merged under.\<close>

definition merge_member :: "'f merge_rec \<Rightarrow> (rstr \<Rightarrow> rstr) \<Rightarrow> rstr \<times> 'f json \<Rightarrow> 'f json_object \<Rightarrow> 'f json_object option" where
  "merge_member rec key_of m target =
     (case map_of target (fst m) of
        Some existing \<Rightarrow> map_option (\<lambda>v. jinsert (fst m) v target) (rec (MKeyword (key_of (fst m)) existing (snd m)))
      | None \<Rightarrow> Some (jinsert (fst m) (snd m) target))"

definition merge_schema_object :: "'f merge_rec \<Rightarrow> 'f json_object \<Rightarrow> 'f json_object \<Rightarrow> 'f json_object option" where
  "merge_schema_object rec target source =
     Option.bind (merge_map rec (MFlatten source)) (\<lambda>source. fold_opt (merge_member rec (\<lambda>k. k)) source target)"

definition merge_named_schema_map :: "'f merge_rec \<Rightarrow> 'f json_object \<Rightarrow> 'f json_object \<Rightarrow> 'f json_object option" where
  "merge_named_schema_map rec target source = fold_opt (merge_member rec (\<lambda>_. lit ''schema'')) source target"

definition merge_required_arrays :: "'f json list \<Rightarrow> 'f json list \<Rightarrow> 'f json list" where
  "merge_required_arrays target source =
     (let merged = foldl (\<lambda>t v. if v \<in> set t then t else t @ [v]) target source
      in if list_all (\<lambda>v. as_string v \<noteq> None) merged
         then map JStr (sort (List.map_filter as_string merged)) else merged)"

definition merge_enum_arrays :: "'f json list \<Rightarrow> 'f json list \<Rightarrow> 'f json list" where
  "merge_enum_arrays target source = filter (\<lambda>v. v \<in> set source) target"

definition is_named_keyword :: "rstr \<Rightarrow> bool" where
  "is_named_keyword k \<longleftrightarrow>
     k \<in> {lit ''properties'', lit ''$defs'', lit ''definitions'', lit ''patternProperties''}"

definition merge_schema_keyword :: "'f merge_rec \<Rightarrow> rstr \<Rightarrow> 'f json \<Rightarrow> 'f json \<Rightarrow> 'f json option" where
  "merge_schema_keyword rec key target source =
     (case target of
        JObj t \<Rightarrow>
          (case source of
             JObj s \<Rightarrow> rec (if is_named_keyword key then MNamed t s else MObject t s)
           | _ \<Rightarrow> Some target)
      | JArr t \<Rightarrow>
          (case source of
             JArr s \<Rightarrow>
               Some (if key = lit ''required'' then JArr (merge_required_arrays t s)
                     else if key = lit ''enum'' then JArr (merge_enum_arrays t s) else target)
           | _ \<Rightarrow> Some target)
      | _ \<Rightarrow> Some target)"

fun merge_body :: "'f merge_rec \<Rightarrow> 'f merge_call \<Rightarrow> 'f json option" where
  "merge_body rec (MFlatten ms) = map_option JObj (flatten_all_of_schema rec ms)"
| "merge_body rec (MObject t s) = map_option JObj (merge_schema_object rec t s)"
| "merge_body rec (MKeyword k t s) = merge_schema_keyword rec k t s"
| "merge_body rec (MNamed t s) = map_option JObj (merge_named_schema_map rec t s)"

lemma merge_body_mono [partial_function_mono]:
  assumes "\<And>c. mono_calls (\<lambda>f. rec f c)"
  shows "mono_calls (\<lambda>f. merge_body (rec f) c)"
proof -
  have maps: "mono_calls (\<lambda>f. merge_map (rec f) c)" for c
    unfolding merge_map_def by (intro Partial_Function.bind_mono assms option.const_mono)
  have member: "mono_calls (\<lambda>f. merge_member (rec f) k m t)" for k m t
    unfolding merge_member_def by (intro case_option_calls_mono map_option_mono_calls assms option.const_mono)
  show ?thesis
  proof (cases c)
    case (MFlatten ms)
    then show ?thesis
      by (simp add: flatten_all_of_schema_def)
        (intro map_option_mono_calls case_option_calls_mono case_json_calls_mono fold_opt_mono maps option.const_mono)
  next
    case (MObject t s)
    then show ?thesis
      by (simp add: merge_schema_object_def)
        (intro map_option_mono_calls Partial_Function.bind_mono fold_opt_mono maps member)
  next
    case (MKeyword k t s)
    then show ?thesis
      by (simp add: merge_schema_keyword_def) (intro case_json_calls_mono assms option.const_mono)
  next
    case (MNamed t s)
    then show ?thesis
      by (simp add: merge_named_schema_map_def) (intro map_option_mono_calls fold_opt_mono member)
  qed
qed

partial_function (option) merge_run :: "'f merge_call \<Rightarrow> 'f json option" where
  "merge_run c = merge_body (\<lambda>c. merge_run c) c"

declare merge_run.simps [code]

section \<open>Keywords of one schema\<close>

definition unsupported_keywords :: "rstr list" where
  "unsupported_keywords = map lit
     [''$schema'', ''$id'', ''$anchor'', ''$comment'', ''$defs'', ''$ref'', ''additionalItems'', ''contains'', ''definitions'',
      ''dependentRequired'', ''dependentSchemas'', ''deprecated'', ''else'', ''examples'', ''exclusiveMaximum'',
      ''exclusiveMinimum'', ''if'', ''maxContains'', ''maxItems'', ''maxLength'', ''maxProperties'', ''maximum'',
      ''minContains'', ''minItems'', ''minLength'', ''minProperties'', ''multipleOf'', ''not'', ''pattern'',
      ''patternProperties'', ''prefixItems'', ''propertyNames'', ''readOnly'', ''then'', ''title'', ''unevaluatedItems'',
      ''unevaluatedProperties'', ''uniqueItems'', ''writeOnly'']"

definition const_to_enum :: "'f json_object \<Rightarrow> 'f json_object" where
  "const_to_enum ms =
     (case schema_field ms ''const'' of
        Some c \<Rightarrow>
          (let ms = jremove (lit ''const'') ms
           in if contains_key ms (lit ''enum'') then ms else jinsert (lit ''enum'') (JArr [c]) ms)
      | None \<Rightarrow> ms)"

definition normalize_openai_schema_subset_keywords :: "'f json_object \<Rightarrow> 'f json_object" where
  "normalize_openai_schema_subset_keywords ms = const_to_enum (fold jremove unsupported_keywords ms)"

definition normalize_one_of_keyword :: "bool \<Rightarrow> 'f json_object \<Rightarrow> 'f json_object" where
  "normalize_one_of_keyword strict_mode ms =
     (if \<not> strict_mode then ms
      else case schema_field ms ''oneOf'' of
          None \<Rightarrow> ms
        | Some one_of \<Rightarrow>
            (let ms = jremove (lit ''oneOf'') ms
             in case schema_field ms ''anyOf'' of
                  Some (JArr any_of) \<Rightarrow>
                    jinsert (lit ''anyOf'') (JArr (any_of @ (case one_of of JArr xs \<Rightarrow> xs | v \<Rightarrow> [v]))) ms
                | _ \<Rightarrow> jinsert (lit ''anyOf'') one_of ms))"

definition is_supported_openai_string_format :: "rstr \<Rightarrow> bool" where
  "is_supported_openai_string_format f \<longleftrightarrow>
     f \<in> lit ` {''date-time'', ''time'', ''date'', ''duration'', ''email'', ''hostname'', ''ipv4'', ''ipv6'', ''uuid''}"

definition normalize_string_format_keyword :: "bool \<Rightarrow> 'f json_object \<Rightarrow> 'f json_object" where
  "normalize_string_format_keyword strict_mode ms =
     (if \<not> strict_mode then ms
      else case Option.bind (schema_field ms ''format'') as_string of
          None \<Rightarrow> ms
        | Some f \<Rightarrow> if is_supported_openai_string_format f then ms else jremove (lit ''format'') ms)"

definition has_type :: "'f json_object \<Rightarrow> string \<Rightarrow> bool" where
  "has_type ms t \<longleftrightarrow> schema_field ms ''type'' = Some (JStr (lit t))"

definition is_object_schema :: "'f json_object \<Rightarrow> bool" where
  "is_object_schema ms \<longleftrightarrow> has_type ms ''object'' \<or> contains_key ms (lit ''properties'')
     \<or> contains_key ms (lit ''required'') \<or> contains_key ms (lit ''additionalProperties'')"

definition is_array_schema :: "'f json_object \<Rightarrow> bool" where
  "is_array_schema ms \<longleftrightarrow> has_type ms ''array'' \<or> contains_key ms (lit ''items'')"

text \<open>\<open>map.insert(k, v)\<close> under the condition that the key is not there.\<close>

definition insert_missing :: "string \<Rightarrow> 'f json \<Rightarrow> 'f json_object \<Rightarrow> 'f json_object" where
  "insert_missing k v ms = (if contains_key ms (lit k) then ms else jinsert (lit k) v ms)"

definition type_schema :: "string \<Rightarrow> 'f json" where
  "type_schema t = JObj [(lit ''type'', JStr (lit t))]"

definition normalize_array_items :: "bool \<Rightarrow> 'f json_object \<Rightarrow> 'f json_object" where
  "normalize_array_items strict_mode ms =
     (if strict_mode \<and> is_array_schema ms then insert_missing ''items'' (type_schema ''string'') ms else ms)"

definition property_keys :: "'f json_object \<Rightarrow> rstr list" where
  "property_keys ms = (case schema_field ms ''properties'' of Some (JObj props) \<Rightarrow> sort (map fst props) | _ \<Rightarrow> [])"

definition insert_required :: "'f json_object \<Rightarrow> 'f json_object" where
  "insert_required ms = jinsert (lit ''required'') (JArr (map JStr (property_keys ms))) ms"

text \<open>A nullable schema becomes a choice between the schema and null; the description stays outside.\<close>

definition without_null :: "'f json_object \<Rightarrow> 'f json_object" where
  "without_null ms =
     (case schema_field ms ''enum'' of
        Some (JArr vs) \<Rightarrow> jinsert (lit ''enum'') (JArr (filter (\<lambda>v. v \<noteq> JNull) vs)) ms
      | _ \<Rightarrow> ms)"

definition split_nullable :: "bool \<Rightarrow> 'f json_object \<Rightarrow> 'f json_object" where
  "split_nullable strict_mode ms =
     (if strict_mode \<and> is_nullable ms then
        (let ms = without_null (jremove (lit ''nullable'') ms)
         in (case schema_field ms ''description'' of Some d \<Rightarrow> [(lit ''description'', d)] | None \<Rightarrow> [])
            @ [(lit ''anyOf'', JArr [JObj (jremove (lit ''description'') ms), type_schema ''null''])])
      else ms)"

section \<open>The recursion over schemas\<close>

type_synonym 'f schema_rec = "'f json \<Rightarrow> 'f json option"

definition normalize_named_schema_keyword :: "'f schema_rec \<Rightarrow> string \<Rightarrow> 'f json_object \<Rightarrow> 'f json_object option" where
  "normalize_named_schema_keyword rec k ms =
     (case schema_field ms k of
        Some (JObj named) \<Rightarrow> map_option (\<lambda>named. jinsert (lit k) (JObj named) ms) (map_values rec named)
      | _ \<Rightarrow> Some ms)"

definition normalize_schema_keyword :: "'f schema_rec \<Rightarrow> string \<Rightarrow> 'f json_object \<Rightarrow> 'f json_object option" where
  "normalize_schema_keyword rec k ms =
     (case schema_field ms k of
        Some (JObj s) \<Rightarrow> map_option (\<lambda>v. jinsert (lit k) v ms) (rec (JObj s))
      | Some (JArr ss) \<Rightarrow> map_option (\<lambda>v. jinsert (lit k) v ms) (rec (JArr ss))
      | _ \<Rightarrow> Some ms)"

definition normalize_schema_keywords :: "'f schema_rec \<Rightarrow> bool \<Rightarrow> 'f json_object \<Rightarrow> 'f json_object option" where
  "normalize_schema_keywords rec strict_mode ms =
     Option.bind (normalize_named_schema_keyword rec ''properties'' ms) (\<lambda>ms.
       Option.bind (fold_opt (normalize_schema_keyword rec) [''items'', ''additionalProperties'', ''allOf'', ''anyOf''] ms) (\<lambda>ms.
         if strict_mode then Some ms
         else Option.bind (fold_opt (normalize_named_schema_keyword rec) [''$defs'', ''definitions'', ''patternProperties''] ms)
           (fold_opt (normalize_schema_keyword rec) [''oneOf'', ''prefixItems'', ''contains'', ''not'', ''if'', ''then'', ''else''])))"

definition normalize_additional_properties :: "'f schema_rec \<Rightarrow> 'f json_object \<Rightarrow> 'f json_object option" where
  "normalize_additional_properties rec ms =
     (case schema_field ms ''additionalProperties'' of
        Some (JObj props) \<Rightarrow>
          (let has_combiners = contains_key props (lit ''anyOf'') \<or> contains_key props (lit ''oneOf'') \<or> contains_key props (lit ''allOf'');
               props = (if \<not> contains_key props (lit ''type'') \<and> \<not> has_combiners
                        then jinsert (lit ''type'') (JStr (lit ''object'')) props else props)
           in map_option (\<lambda>v. jinsert (lit ''additionalProperties'') v ms) (rec (JObj props)))
      | Some (JBool b) \<Rightarrow> Some ms
      | _ \<Rightarrow> Some (jinsert (lit ''additionalProperties'') (JBool False) ms))"

definition normalize_object :: "'f schema_rec \<Rightarrow> bool \<Rightarrow> 'f json_object \<Rightarrow> 'f json_object option" where
  "normalize_object rec strict_mode ms =
     map_option (\<lambda>ms. if strict_mode then insert_required ms else ms)
       (normalize_additional_properties rec (if strict_mode then insert_missing ''properties'' (JObj []) ms else ms))"

definition default_type :: "bool \<Rightarrow> 'f json_object \<Rightarrow> 'f json_object" where
  "default_type strict_mode ms =
     (if strict_mode \<and> \<not> contains_key ms (lit ''anyOf'') \<and> \<not> contains_key ms (lit ''allOf'')
      then insert_missing ''type'' (JStr (lit ''string'')) ms else ms)"

text \<open>The stages: what strict mode removes, the object or the typeless schema, the items and null, the schemas inside.\<close>

definition strict_subset :: "bool \<Rightarrow> 'f json_object \<Rightarrow> 'f json_object option" where
  "strict_subset strict_mode ms =
     (if strict_mode then
        map_option (\<lambda>ms. normalize_one_of_keyword strict_mode (normalize_openai_schema_subset_keywords ms))
          (merge_map merge_run (MFlatten ms))
      else Some ms)"

definition normalize_kind :: "'f schema_rec \<Rightarrow> bool \<Rightarrow> 'f json_object \<Rightarrow> 'f json_object option" where
  "normalize_kind rec strict_mode ms =
     (if is_object_schema ms
      then normalize_object rec strict_mode (insert_missing ''type'' (JStr (lit ''object'')) ms)
      else Some (default_type strict_mode ms))"

definition enforce_object :: "'f schema_rec \<Rightarrow> bool \<Rightarrow> 'f json_object \<Rightarrow> 'f json_object option" where
  "enforce_object rec strict_mode ms =
     Option.bind (strict_subset strict_mode ms) (\<lambda>ms.
       Option.bind (normalize_kind rec strict_mode (normalize_string_format_keyword strict_mode ms)) (\<lambda>ms.
         normalize_schema_keywords rec strict_mode (split_nullable strict_mode (normalize_array_items strict_mode ms))))"

definition enforce_body :: "'f schema_rec \<Rightarrow> bool \<Rightarrow> 'f json \<Rightarrow> 'f json option" where
  "enforce_body rec strict_mode v =
     (case v of
        JObj ms \<Rightarrow> map_option JObj (enforce_object rec strict_mode ms)
      | JArr vs \<Rightarrow> map_option JArr (map_opt rec vs)
      | _ \<Rightarrow> Some v)"

lemma enforce_body_mono [partial_function_mono]:
  assumes "\<And>v. mono_calls (\<lambda>f. rec f v)"
  shows "mono_calls (\<lambda>f. enforce_body (rec f) strict_mode v)"
proof -
  have named: "mono_calls (\<lambda>f. normalize_named_schema_keyword (rec f) k ms)" for k ms
    unfolding normalize_named_schema_keyword_def map_values_def
    by (intro case_option_calls_mono case_json_calls_mono map_option_mono_calls map_opt_mono assms option.const_mono)
  have keyword: "mono_calls (\<lambda>f. normalize_schema_keyword (rec f) k ms)" for k ms
    unfolding normalize_schema_keyword_def
    by (intro case_option_calls_mono case_json_calls_mono map_option_mono_calls assms option.const_mono)
  have keys: "mono_calls (\<lambda>f. normalize_schema_keywords (rec f) strict_mode ms)" for ms
    unfolding normalize_schema_keywords_def
    by (intro Partial_Function.bind_mono if_calls_mono fold_opt_mono named keyword option.const_mono)
  have additional: "mono_calls (\<lambda>f. normalize_additional_properties (rec f) ms)" for ms
    unfolding normalize_additional_properties_def Let_def
    by (intro case_option_calls_mono case_json_calls_mono map_option_mono_calls assms option.const_mono)
  have kind: "mono_calls (\<lambda>f. normalize_kind (rec f) strict_mode ms)" for ms
    unfolding normalize_kind_def normalize_object_def
    by (intro if_calls_mono map_option_mono_calls additional option.const_mono)
  show ?thesis
    unfolding enforce_body_def enforce_object_def
    by (intro case_json_calls_mono map_option_mono_calls Partial_Function.bind_mono map_opt_mono keys kind assms
        option.const_mono)
qed

partial_function (option) enforce_strict_schema :: "bool \<Rightarrow> 'f json \<Rightarrow> 'f json option" where
  "enforce_strict_schema strict_mode v = enforce_body (\<lambda>v. enforce_strict_schema strict_mode v) strict_mode v"

declare enforce_strict_schema.simps [code]

end
