(* ===== verification/Strict_Laws.thy ===== *)
theory Strict_Laws
  imports Strict_Schema
begin

text \<open>
  Strict mode: what the schemas that come out of it look like (\<open>strict_form\<close>), and that they come out unchanged a second
  time. That both recursions return is in \<open>Strict_Returns\<close>.
\<close>

section \<open>The strict form\<close>

definition forbidden_keywords :: "rstr set" where
  "forbidden_keywords = set unsupported_keywords \<union> {lit ''const'', lit ''oneOf'', lit ''allOf''}"

definition allowed_only :: "'f json_object \<Rightarrow> bool" where
  "allowed_only ms \<longleftrightarrow> (\<forall>k\<in>forbidden_keywords. map_of ms k = None)"

definition format_supported :: "'f json_object \<Rightarrow> bool" where
  "format_supported ms \<longleftrightarrow> (case schema_field ms ''format'' of Some (JStr f) \<Rightarrow> is_supported_openai_string_format f | _ \<Rightarrow> True)"

definition object_complete :: "'f json_object \<Rightarrow> bool" where
  "object_complete ms \<longleftrightarrow> contains_key ms (lit ''type'') \<and> contains_key ms (lit ''properties'')
     \<and> (case schema_field ms ''additionalProperties'' of Some (JBool _) \<Rightarrow> True | Some (JObj _) \<Rightarrow> True | _ \<Rightarrow> False)
     \<and> schema_field ms ''required'' = Some (JArr (map JStr (property_keys ms)))"

definition typed :: "'f json_object \<Rightarrow> bool" where
  "typed ms \<longleftrightarrow> (if is_object_schema ms then object_complete ms
     else contains_key ms (lit ''type'') \<or> contains_key ms (lit ''anyOf''))"

definition strict_keywords :: "'f json_object \<Rightarrow> bool" where
  "strict_keywords ms \<longleftrightarrow> allowed_only ms \<and> format_supported ms \<and> typed ms \<and> \<not> is_nullable ms
     \<and> (is_array_schema ms \<longrightarrow> contains_key ms (lit ''items''))"

definition property_schemas :: "'f json_object \<Rightarrow> 'f json list" where
  "property_schemas ms = (case schema_field ms ''properties'' of Some (JObj props) \<Rightarrow> map snd props | _ \<Rightarrow> [])"

inductive strict_form :: "'f json \<Rightarrow> bool" where
  strict_object: "\<lbrakk>strict_keywords ms; \<And>v. v \<in> set (property_schemas ms) \<Longrightarrow> strict_form v;
    \<And>k v. k \<in> {''items'', ''additionalProperties'', ''anyOf''} \<Longrightarrow> schema_field ms k = Some v \<Longrightarrow> strict_form v\<rbrakk>
    \<Longrightarrow> strict_form (JObj ms)"
| strict_array: "(\<And>v. v \<in> set vs \<Longrightarrow> strict_form v) \<Longrightarrow> strict_form (JArr vs)"
| strict_other: "\<not> is_array v \<Longrightarrow> \<not> is_object v \<Longrightarrow> strict_form v"


lemma lit_eq_iff [simp]: "lit s = lit t \<longleftrightarrow> s = t"
proof
  assume "lit s = lit t"
  then show "s = t" unfolding lit_def by (rule map_injective) (simp add: inj_def)
qed simp

lemma map_of_updates [simp]:
  "map_of (jinsert k v ms) k' = (if k' = k then Some v else map_of ms k')"
  "map_of (jremove k ms) k' = (if k' = k then None else map_of ms k')"
  by (simp_all add: AList.update_conv' AList.delete_conv')

lemma map_of_fold_remove [simp]: "map_of (fold jremove ks ms) k = (if k \<in> set ks then None else map_of ms k)"
  by (induction ks arbitrary: ms) auto

lemma forbidden_lit:
  "lit k \<in> forbidden_keywords \<longleftrightarrow> k \<in> {''$schema'', ''$id'', ''$anchor'', ''$comment'', ''$defs'', ''$ref'', ''additionalItems'',
      ''contains'', ''definitions'', ''dependentRequired'', ''dependentSchemas'', ''deprecated'', ''else'', ''examples'',
      ''exclusiveMaximum'', ''exclusiveMinimum'', ''if'', ''maxContains'', ''maxItems'', ''maxLength'', ''maxProperties'',
      ''maximum'', ''minContains'', ''minItems'', ''minLength'', ''minProperties'', ''multipleOf'', ''not'', ''pattern'',
      ''patternProperties'', ''prefixItems'', ''propertyNames'', ''readOnly'', ''then'', ''title'', ''unevaluatedItems'',
      ''unevaluatedProperties'', ''uniqueItems'', ''writeOnly'', ''const'', ''oneOf'', ''allOf''}"
  by (auto simp: forbidden_keywords_def unsupported_keywords_def)

lemma allowed_insert: "lit k \<notin> forbidden_keywords \<Longrightarrow> allowed_only ms \<Longrightarrow> allowed_only (jinsert (lit k) v ms)"
  by (auto simp: allowed_only_def)

lemma allowed_remove: "allowed_only ms \<Longrightarrow> allowed_only (jremove k ms)"
  by (simp add: allowed_only_def)

lemma allowed_keys:
  "lit ''type'' \<notin> forbidden_keywords" "lit ''properties'' \<notin> forbidden_keywords" "lit ''additionalProperties'' \<notin> forbidden_keywords"
  "lit ''required'' \<notin> forbidden_keywords" "lit ''items'' \<notin> forbidden_keywords" "lit ''anyOf'' \<notin> forbidden_keywords"
  "lit ''enum'' \<notin> forbidden_keywords" "lit ''description'' \<notin> forbidden_keywords"
  by (simp_all add: forbidden_lit)

section \<open>What strict mode removes\<close>

lemma fold_opt_invariant:
  assumes "\<And>x a b. x \<in> set xs \<Longrightarrow> I a \<Longrightarrow> f x a = Some b \<Longrightarrow> I b"
  shows "I a \<Longrightarrow> fold_opt f xs a = Some b \<Longrightarrow> I b"
  using assms by (induction xs arbitrary: a) (auto simp: Option.bind_eq_Some_conv)

text \<open>Merged schemas have no \<open>allOf\<close>.\<close>

fun no_all_of :: "'f merge_call \<Rightarrow> 'f json \<Rightarrow> bool" where
  "no_all_of (MFlatten ms) r \<longleftrightarrow> (\<forall>ms'. r = JObj ms' \<longrightarrow> schema_field ms' ''allOf'' = None)"
| "no_all_of (MObject t s) r \<longleftrightarrow> schema_field t ''allOf'' = None \<longrightarrow> (\<forall>ms'. r = JObj ms' \<longrightarrow> schema_field ms' ''allOf'' = None)"
| "no_all_of _ r \<longleftrightarrow> True"

lemma as_Some_json:
  "as_array v = Some xs \<longleftrightarrow> v = JArr xs" "as_object v = Some ms \<longleftrightarrow> v = JObj ms" "as_string v = Some s \<longleftrightarrow> v = JStr s"
  by (auto simp: as_array_def as_object_def as_string_def split: json.splits)

lemma merged_no_all_of: "merge_run c = Some r \<Longrightarrow> no_all_of c r"
proof (rule merge_run.raw_induct [where P = no_all_of])
  fix run :: "'a merge_rec" and c r
  assume ih: "\<And>c r. run c = Some r \<Longrightarrow> no_all_of c r" and body: "merge_body run c = Some r"
  have map: "schema_field ms' ''allOf'' = None" if "merge_map run (MFlatten ms) = Some ms'" for ms ms'
    using ih [of "MFlatten ms"] that by (auto simp: merge_map_def Option.bind_eq_Some_conv as_Some_json)
  have obj: "schema_field ms' ''allOf'' = None" if "merge_map run (MObject t s) = Some ms'" "schema_field t ''allOf'' = None" for t s ms'
    using ih [of "MObject t s"] that by (auto simp: merge_map_def Option.bind_eq_Some_conv as_Some_json)
  show "no_all_of c r"
  proof (cases c)
    case (MFlatten ms)
    then obtain ms' where ms': "flatten_all_of_schema run ms = Some ms'" "r = JObj ms'" using body by auto
    have "schema_field ms' ''allOf'' = None"
    proof (cases "\<exists>subs. schema_field ms ''allOf'' = Some (JArr subs)")
      case True
      then obtain subs where "fold_opt (\<lambda>sub ms. case sub of JObj source \<Rightarrow> merge_map run (MObject ms source) | _ \<Rightarrow> Some ms) subs
          (jremove (lit ''allOf'') ms) = Some ms'"
        using ms'(1) by (auto simp: flatten_all_of_schema_def)
      then show ?thesis
        by (rule fold_opt_invariant [where I = "\<lambda>ms. schema_field ms ''allOf'' = None", rotated 2])
          (auto split: json.splits intro: obj)
    next
      case False
      then show ?thesis using ms'(1) by (auto simp: flatten_all_of_schema_def split: option.splits json.splits)
    qed
    then show ?thesis using MFlatten ms'(2) by simp
  next
    case (MObject t s)
    then obtain fs ms' where fs: "merge_map run (MFlatten s) = Some fs" "fold_opt (merge_member run (\<lambda>k. k)) fs t = Some ms'" "r = JObj ms'"
      using body by (auto simp: merge_schema_object_def Option.bind_eq_Some_conv)
    have "lit ''allOf'' \<notin> fst ` set fs" using map [OF fs(1)] by (simp add: map_of_eq_None_iff)
    then have keep: "schema_field b ''allOf'' = None"
      if "m \<in> set fs" "schema_field a ''allOf'' = None" "merge_member run (\<lambda>k. k) m a = Some b" for m a b
      using that by (force simp: merge_member_def split: option.splits)
    have "schema_field ms' ''allOf'' = None" if "schema_field t ''allOf'' = None"
      by (rule fold_opt_invariant [where I = "\<lambda>ms. schema_field ms ''allOf'' = None", OF keep that fs(2)])
    then show ?thesis using MObject fs(3) by simp
  qed simp_all
qed

lemma const_to_enum_other:
  "k \<noteq> lit ''enum'' \<Longrightarrow> map_of (const_to_enum ms) k = (if k = lit ''const'' then None else map_of ms k)"
  by (simp add: const_to_enum_def Let_def split: option.split)

lemma one_of_other:
  "k \<noteq> lit ''anyOf'' \<Longrightarrow> map_of (normalize_one_of_keyword True ms) k = (if k = lit ''oneOf'' then None else map_of ms k)"
  by (simp add: normalize_one_of_keyword_def Let_def split: option.split json.split)

lemma strict_subset_allowed:
  assumes "strict_subset True ms = Some ms'"
  shows "allowed_only ms'"
  unfolding allowed_only_def
proof
  fix k
  assume k: "k \<in> forbidden_keywords"
  then have ne: "k \<noteq> lit ''enum''" "k \<noteq> lit ''anyOf''" using allowed_keys by auto
  obtain fs where fs: "merge_map merge_run (MFlatten ms) = Some fs"
    and ms': "ms' = normalize_one_of_keyword True (normalize_openai_schema_subset_keywords fs)"
    using assms by (auto simp: strict_subset_def)
  have "schema_field fs ''allOf'' = None"
    using fs merged_no_all_of [of "MFlatten ms"] by (auto simp: merge_map_def Option.bind_eq_Some_conv as_Some_json)
  then show "map_of ms' k = None"
    using k by (auto simp: ms' normalize_openai_schema_subset_keywords_def one_of_other [OF ne(2)] const_to_enum_other [OF ne(1)]
        forbidden_keywords_def)
qed

section \<open>The stages\<close>

lemma contains_key_insert [simp]: "contains_key (jinsert k v ms) k' \<longleftrightarrow> k' = k \<or> contains_key ms k'"
  by (simp add: contains_key_def)

lemma contains_key_missing [simp]: "contains_key (insert_missing k v ms) k' \<longleftrightarrow> k' = lit k \<or> contains_key ms k'"
  by (auto simp: insert_missing_def)

lemma field_missing [simp]:
  "schema_field (insert_missing k v ms) k' = (if k' = k \<and> schema_field ms k = None then Some v else schema_field ms k')"
  by (auto simp: insert_missing_def contains_key_def)

lemma allowed_missing: "lit k \<notin> forbidden_keywords \<Longrightarrow> allowed_only ms \<Longrightarrow> allowed_only (insert_missing k v ms)"
  by (simp add: insert_missing_def allowed_insert)

lemma format_normalized: "format_supported (normalize_string_format_keyword True ms)"
  by (auto simp: format_supported_def normalize_string_format_keyword_def as_string_def split: option.split json.split)

lemma allowed_format: "allowed_only ms \<Longrightarrow> allowed_only (normalize_string_format_keyword True ms)"
  by (auto simp: normalize_string_format_keyword_def allowed_remove split: option.split)

lemma required_inserted:
  "schema_field (insert_required ms) ''required'' = Some (JArr (map JStr (property_keys (insert_required ms))))"
  by (simp add: insert_required_def property_keys_def)

text \<open>The recursive calls answer with schemas in the strict form, objects for objects.\<close>

definition answers_strict :: "'f schema_rec \<Rightarrow> bool" where
  "answers_strict rec \<longleftrightarrow> (\<forall>v r. rec v = Some r \<longrightarrow> strict_form r \<and> (is_object v \<longrightarrow> is_object r))"

lemma is_object_iff: "is_object v \<longleftrightarrow> (\<exists>ms. v = JObj ms)" "is_array v \<longleftrightarrow> (\<exists>xs. v = JArr xs)"
  by (auto simp: is_object_def as_object_def is_array_def as_array_def split: json.splits)

lemma additional_properties_normalized:
  assumes "answers_strict rec" "normalize_additional_properties rec ms = Some ms'"
  shows "\<exists>v. ms' = ms \<and> schema_field ms ''additionalProperties'' = Some v \<and> (\<exists>b. v = JBool b)
    \<or> ms' = jinsert (lit ''additionalProperties'') v ms \<and> ((\<exists>b. v = JBool b) \<or> is_object v)"
  using assms
  by (fastforce simp: normalize_additional_properties_def answers_strict_def is_object_iff Let_def split: option.splits json.splits)

lemma kind_normalized:
  assumes "answers_strict rec" "normalize_kind rec True ms = Some ms'" "allowed_only ms" "format_supported ms"
  shows "allowed_only ms'" "format_supported ms'" "typed ms'"
proof -
  have "allowed_only ms' \<and> format_supported ms' \<and> typed ms'"
  proof (cases "is_object_schema ms")
    case True
    let ?ms = "insert_missing ''properties'' (JObj []) (insert_missing ''type'' (JStr (lit ''object'')) ms)"
    obtain a where a: "normalize_additional_properties rec ?ms = Some a" "ms' = insert_required a"
      using assms(2) True by (auto simp: normalize_kind_def normalize_object_def)
    obtain v where v: "a = ?ms \<and> schema_field ?ms ''additionalProperties'' = Some v \<and> (\<exists>b. v = JBool b)
        \<or> a = jinsert (lit ''additionalProperties'') v ?ms \<and> ((\<exists>b. v = JBool b) \<or> is_object v)"
      using additional_properties_normalized [OF assms(1) a(1)] by blast
    have "allowed_only ?ms" using assms(3) by (intro allowed_missing allowed_keys)
    then have "allowed_only a" using v by (auto intro: allowed_insert [OF allowed_keys(3)])
    then have "allowed_only ms'" unfolding a(2) insert_required_def by (intro allowed_insert allowed_keys)
    moreover have "format_supported ms'"
      using assms(4) v unfolding a(2) insert_required_def by (auto simp: format_supported_def)
    moreover have "object_complete ms'"
      unfolding object_complete_def a(2) required_inserted
      using v by (auto simp: insert_required_def is_object_iff)
    moreover have "is_object_schema ms'"
      using v unfolding a(2) insert_required_def by (auto simp: is_object_schema_def)
    ultimately show ?thesis by (simp add: typed_def)
  next
    case False
    then have ms': "ms' = default_type True ms" using assms(2) by (simp add: normalize_kind_def)
    have "\<not> contains_key ms (lit ''allOf'')" using assms(3) by (auto simp: allowed_only_def forbidden_keywords_def contains_key_def)
    then have "contains_key ms' (lit ''type'') \<or> contains_key ms' (lit ''anyOf'')" by (auto simp: ms' default_type_def)
    moreover have "\<not> is_object_schema ms'"
      using False by (auto simp: ms' default_type_def is_object_schema_def has_type_def)
    moreover have "allowed_only ms'" using assms(3) by (auto simp: ms' default_type_def intro: allowed_missing [OF allowed_keys(1)])
    moreover have "format_supported ms'" using assms(4) by (auto simp: ms' default_type_def format_supported_def)
    ultimately show ?thesis by (simp add: typed_def)
  qed
  then show "allowed_only ms'" "format_supported ms'" "typed ms'" by simp_all
qed

lemma typed_items: "typed ms \<Longrightarrow> typed (insert_missing ''items'' v ms)"
  by (auto simp: typed_def is_object_schema_def has_type_def object_complete_def property_keys_def)

lemma items_normalized:
  assumes "allowed_only ms" "format_supported ms" "typed ms"
  shows "allowed_only (normalize_array_items True ms)" "format_supported (normalize_array_items True ms)"
    "typed (normalize_array_items True ms)"
    "is_array_schema (normalize_array_items True ms) \<longrightarrow> contains_key (normalize_array_items True ms) (lit ''items'')"
  using assms
  by (auto simp: normalize_array_items_def format_supported_def intro: allowed_missing [OF allowed_keys(5)] typed_items)

lemma nullable_split:
  assumes "allowed_only ms" "format_supported ms" "typed ms" "is_array_schema ms \<longrightarrow> contains_key ms (lit ''items'')"
  shows "strict_keywords (split_nullable True ms)"
proof (cases "is_nullable ms")
  case True
  obtain pre a where split: "split_nullable True ms = pre @ [(lit ''anyOf'', a)]" "pre = [] \<or> (\<exists>d. pre = [(lit ''description'', d)])"
    using True by (auto simp: split_nullable_def Let_def split: option.splits)
  let ?ms = "pre @ [(lit ''anyOf'', a)]"
  have other: "map_of ?ms k = None" if "k \<noteq> lit ''anyOf''" "k \<noteq> lit ''description''" for k
    using that split(2) by auto
  have lits: "schema_field ?ms k = None" if "k \<noteq> ''anyOf''" "k \<noteq> ''description''" for k
    using other [of "lit k"] that by simp
  have "allowed_only ?ms" using other allowed_keys by (metis allowed_only_def)
  moreover have "schema_field ?ms ''anyOf'' = Some a" using split(2) by auto
  ultimately have "strict_keywords ?ms"
    by (simp add: strict_keywords_def format_supported_def typed_def is_object_schema_def is_array_schema_def has_type_def
        is_nullable_def contains_key_def lits del: map_of_append)
  then show ?thesis by (simp add: split(1))
qed (use assms in \<open>simp add: split_nullable_def strict_keywords_def\<close>)

section \<open>The schemas inside\<close>

definition schema_answer :: "'f schema_rec \<Rightarrow> 'f json \<Rightarrow> 'f json option" where
  "schema_answer rec v = (if is_object v \<or> is_array v then rec v else Some v)"

lemma keyword_normalized:
  assumes "normalize_schema_keyword rec k ms = Some r"
  shows "k' \<noteq> lit k \<Longrightarrow> map_of r k' = map_of ms k'"
    and "schema_field ms k = None \<Longrightarrow> schema_field r k = None"
    and "schema_field ms k = Some v \<Longrightarrow> \<exists>v'. schema_answer rec v = Some v' \<and> schema_field r k = Some v'"
  using assms
  by (auto simp: normalize_schema_keyword_def schema_answer_def is_object_iff split: option.splits json.splits)

lemma map_opt_Some: "map_opt f xs = Some ys \<longleftrightarrow> list_all2 (\<lambda>x y. f x = Some y) xs ys"
  by (induction xs arbitrary: ys) (auto simp: Option.bind_eq_Some_conv list_all2_Cons1)

lemma map_values_Some:
  assumes "map_values rec ns = Some ns'"
  shows "map fst ns' = map fst ns" "m' \<in> set ns' \<Longrightarrow> \<exists>m\<in>set ns. rec (snd m) = Some (snd m')"
proof -
  have *: "list_all2 (\<lambda>m m'. fst m' = fst m \<and> rec (snd m) = Some (snd m')) ns ns'"
    using assms unfolding map_values_def map_opt_Some by (auto elim!: list_all2_mono)
  then show "map fst ns' = map fst ns" by induction auto
  from * show "m' \<in> set ns' \<Longrightarrow> \<exists>m\<in>set ns. rec (snd m) = Some (snd m')" by induction auto
qed

lemma named_normalized:
  assumes "normalize_named_schema_keyword rec k ms = Some r"
  shows "k' \<noteq> lit k \<Longrightarrow> map_of r k' = map_of ms k'"
    and "schema_field ms k = Some (JObj ns) \<Longrightarrow> \<exists>ns'. map_values rec ns = Some ns' \<and> schema_field r k = Some (JObj ns')"
    and "\<nexists>ns. schema_field ms k = Some (JObj ns) \<Longrightarrow> schema_field r k = schema_field ms k"
  using assms by (auto simp: normalize_named_schema_keyword_def split: option.splits json.splits)

text \<open>What stays the same of a schema when the schemas inside it are changed.\<close>

definition same_keywords :: "'f json_object \<Rightarrow> 'f json_object \<Rightarrow> bool" where
  "same_keywords ms r \<longleftrightarrow> (\<forall>k. map_of r k = None \<longleftrightarrow> map_of ms k = None)
     \<and> (\<forall>k. k \<notin> lit ` {''properties'', ''items'', ''additionalProperties'', ''anyOf''} \<longrightarrow> map_of r k = map_of ms k)
     \<and> property_keys r = property_keys ms
     \<and> (\<forall>v. schema_field ms ''additionalProperties'' = Some v \<longrightarrow> (\<exists>b. v = JBool b) \<or> is_object v \<longrightarrow>
          (\<exists>v'. schema_field r ''additionalProperties'' = Some v' \<and> ((\<exists>b. v' = JBool b) \<or> is_object v')))"

lemma same_keywords_strict:
  assumes "strict_keywords ms" "same_keywords ms r"
  shows "strict_keywords r"
proof -
  have none: "map_of r k = None \<longleftrightarrow> map_of ms k = None" for k using assms(2) by (simp add: same_keywords_def)
  have key: "contains_key r k \<longleftrightarrow> contains_key ms k" for k using none by (simp add: contains_key_def)
  have same: "schema_field r k = schema_field ms k" if "k \<notin> {''properties'', ''items'', ''additionalProperties'', ''anyOf''}" for k
    using assms(2) that by (auto simp: same_keywords_def)
  have obj: "is_object_schema r \<longleftrightarrow> is_object_schema ms" by (simp add: is_object_schema_def has_type_def key same)
  have arr: "is_array_schema r \<longleftrightarrow> is_array_schema ms" by (simp add: is_array_schema_def has_type_def key same)
  have "object_complete r" if complete: "object_complete ms"
  proof -
    obtain v where "schema_field ms ''additionalProperties'' = Some v" "(\<exists>b. v = JBool b) \<or> is_object v"
      using complete by (auto simp: object_complete_def is_object_iff split: option.splits json.splits)
    then obtain v' where "schema_field r ''additionalProperties'' = Some v'" "(\<exists>b. v' = JBool b) \<or> is_object v'"
      using assms(2) unfolding same_keywords_def by blast
    then show ?thesis
      using complete assms(2) by (auto simp: object_complete_def key same same_keywords_def is_object_iff)
  qed
  then show ?thesis
    using assms(1) by (simp add: strict_keywords_def allowed_only_def none format_supported_def same typed_def obj arr key is_nullable_def)
qed

lemma strict_scalar: "\<not> is_object v \<Longrightarrow> \<not> is_array v \<Longrightarrow> strict_form v"
  by (rule strict_other)

lemma answer_strict:
  "answers_strict rec \<Longrightarrow> schema_answer rec v = Some v' \<Longrightarrow> strict_form v' \<and> (is_object v \<longrightarrow> is_object v') \<and> (\<not> is_object v \<longrightarrow> \<not> is_array v \<longrightarrow> v' = v)"
  by (auto simp: schema_answer_def answers_strict_def strict_scalar split: if_splits)

lemma keywords_normalized:
  assumes rec: "answers_strict rec" and ms: "strict_keywords ms" and r: "normalize_schema_keywords rec True ms = Some r"
  shows "strict_form (JObj r)"
proof -
  obtain r0 r1 r2 r3 where r0: "normalize_named_schema_keyword rec ''properties'' ms = Some r0"
    and r1: "normalize_schema_keyword rec ''items'' r0 = Some r1"
    and r2: "normalize_schema_keyword rec ''additionalProperties'' r1 = Some r2"
    and r3: "normalize_schema_keyword rec ''allOf'' r2 = Some r3"
    and r4: "normalize_schema_keyword rec ''anyOf'' r3 = Some r"
    using r by (auto simp: normalize_schema_keywords_def Option.bind_eq_Some_conv)
  note steps = named_normalized(1) [OF r0] keyword_normalized(1) [OF r1] keyword_normalized(1) [OF r2]
    keyword_normalized(1) [OF r3] keyword_normalized(1) [OF r4]
  have all_of: "schema_field ms ''allOf'' = None" using ms by (auto simp: strict_keywords_def allowed_only_def forbidden_keywords_def)
  have other: "map_of r k = map_of ms k" if "k \<notin> lit ` {''properties'', ''items'', ''additionalProperties'', ''anyOf''}" for k
  proof (cases "k = lit ''allOf''")
    case True
    then show ?thesis using all_of steps keyword_normalized(2) [OF r3] by simp
  qed (use that steps in auto)
  have answered: "schema_field r k = None \<and> schema_field ms k = None
      \<or> (\<exists>v v'. schema_field ms k = Some v \<and> schema_answer rec v = Some v' \<and> schema_field r k = Some v')"
    if "k \<in> {''items'', ''additionalProperties'', ''anyOf''}" for k
    using that steps keyword_normalized(2,3) [OF r1] keyword_normalized(2,3) [OF r2] keyword_normalized(2,3) [OF r4]
    by (cases "schema_field ms k") auto
  have props: "schema_field r ''properties'' = schema_field r0 ''properties''" using steps by simp
  have keys: "property_keys r = property_keys ms"
  proof (cases "\<exists>ns. schema_field ms ''properties'' = Some (JObj ns)")
    case True
    then obtain ns ns' where "schema_field ms ''properties'' = Some (JObj ns)" "map_values rec ns = Some ns'"
        "schema_field r0 ''properties'' = Some (JObj ns')"
      using named_normalized(2) [OF r0] by blast
    then show ?thesis using map_values_Some(1) [of rec ns ns'] by (simp add: property_keys_def props)
  next
    case False
    then show ?thesis using named_normalized(3) [OF r0 False] by (simp add: property_keys_def props)
  qed
  have none: "map_of r k = None \<longleftrightarrow> map_of ms k = None" for k
  proof (cases "k \<in> lit ` {''properties'', ''items'', ''additionalProperties'', ''anyOf''}")
    case True
    have "schema_field r ''properties'' = None \<longleftrightarrow> schema_field ms ''properties'' = None"
      unfolding props using named_normalized(2,3) [OF r0] by (cases "\<exists>ns. schema_field ms ''properties'' = Some (JObj ns)") auto
    moreover have "schema_field r k = None \<longleftrightarrow> schema_field ms k = None" if "k \<in> {''items'', ''additionalProperties'', ''anyOf''}" for k
      using answered [OF that] by auto
    ultimately show ?thesis using True by auto
  qed (simp add: other)
  have "same_keywords ms r"
    unfolding same_keywords_def
  proof (intro conjI allI impI)
    fix v
    assume "schema_field ms ''additionalProperties'' = Some v" "(\<exists>b. v = JBool b) \<or> is_object v"
    then show "\<exists>v'. schema_field r ''additionalProperties'' = Some v' \<and> ((\<exists>b. v' = JBool b) \<or> is_object v')"
      using answered [of "''additionalProperties''"] answer_strict [OF rec] by (fastforce simp: is_object_iff)
  qed (use none other keys in auto)
  then have "strict_keywords r" by (rule same_keywords_strict [OF ms])
  moreover have "strict_form v" if v: "v \<in> set (property_schemas r)" for v
  proof -
    obtain ns' where ns': "schema_field r0 ''properties'' = Some (JObj ns')" "v \<in> snd ` set ns'"
      using v unfolding property_schemas_def props by (cases "schema_field r0 ''properties''") (auto split: json.splits)
    then obtain ns where "schema_field ms ''properties'' = Some (JObj ns)" "map_values rec ns = Some ns'"
      using named_normalized(2,3) [OF r0] by (cases "\<exists>ns. schema_field ms ''properties'' = Some (JObj ns)") auto
    then show ?thesis using map_values_Some(2) ns'(2) rec by (fastforce simp: answers_strict_def)
  qed
  moreover have "strict_form v" if "k \<in> {''items'', ''additionalProperties'', ''anyOf''}" "schema_field r k = Some v" for k v
    using answered [OF that(1)] that(2) answer_strict [OF rec] by fastforce
  ultimately show ?thesis by (rule strict_object)
qed

lemma enforce_object_strict:
  assumes "answers_strict rec" "enforce_object rec True ms = Some r"
  shows "strict_form (JObj r)"
proof -
  obtain a b where a: "strict_subset True ms = Some a"
    and b: "normalize_kind rec True (normalize_string_format_keyword True a) = Some b"
    and r: "normalize_schema_keywords rec True (split_nullable True (normalize_array_items True b)) = Some r"
    using assms(2) by (auto simp: enforce_object_def Option.bind_eq_Some_conv)
  have "allowed_only (normalize_string_format_keyword True a)" by (rule allowed_format [OF strict_subset_allowed [OF a]])
  note kind = kind_normalized [OF assms(1) b this format_normalized]
  have "strict_keywords (split_nullable True (normalize_array_items True b))"
    by (rule nullable_split) (rule items_normalized [OF kind])+
  then show ?thesis using keywords_normalized [OF assms(1) _ r] by simp
qed

lemma enforced_strict: "enforce_strict_schema True v = Some r \<Longrightarrow> strict_form r \<and> (is_object v \<longrightarrow> is_object r)"
proof -
  have "b \<longrightarrow> strict_form r \<and> (is_object v \<longrightarrow> is_object r)" if "enforce_strict_schema b v = Some r" for b v and r :: "'a json"
  proof (rule enforce_strict_schema.raw_induct [where P = "\<lambda>b v r. b \<longrightarrow> strict_form r \<and> (is_object v \<longrightarrow> is_object r)", OF _ that])
    fix run b v and r :: "'a json"
    assume ih: "\<And>b v r. run b v = Some r \<Longrightarrow> b \<longrightarrow> strict_form r \<and> (is_object v \<longrightarrow> is_object r)"
      and body: "enforce_body (run b) b v = Some r"
    show "b \<longrightarrow> strict_form r \<and> (is_object v \<longrightarrow> is_object r)"
    proof
      assume b
      then have rec: "answers_strict (run b)" using ih by (fastforce simp: answers_strict_def)
      show "strict_form r \<and> (is_object v \<longrightarrow> is_object r)"
      proof (cases v)
        case (JObj ms)
        then show ?thesis
          using body \<open>b\<close> enforce_object_strict [of "run b" ms] rec by (auto simp: enforce_body_def is_object_iff)
      next
        case (JArr vs)
        then obtain rs where rs: "list_all2 (\<lambda>x y. run b x = Some y) vs rs" "r = JArr rs"
          using body by (auto simp: enforce_body_def map_opt_Some)
        have "strict_form y" if "y \<in> set rs" for y
          using rs(1) that rec by (induction) (auto simp: answers_strict_def)
        then show ?thesis using rs(2) JArr by (auto intro: strict_array simp: is_object_iff)
      qed (use body in \<open>auto simp: enforce_body_def is_object_iff intro!: strict_scalar\<close>)
    qed
  qed
  then show "enforce_strict_schema True v = Some r \<Longrightarrow> strict_form r \<and> (is_object v \<longrightarrow> is_object r)" by blast
qed

section \<open>A second time\<close>

lemma delete_absent: "map_of ms k = None \<Longrightarrow> jremove k ms = ms"
  by (simp add: map_of_eq_None_iff AList.delete_id)

lemma fold_delete_absent: "(\<And>k. k \<in> set ks \<Longrightarrow> map_of ms k = None) \<Longrightarrow> fold jremove ks ms = ms"
  by (induction ks) (simp_all add: delete_absent)

lemma flatten_absent: "schema_field ms ''allOf'' = None \<Longrightarrow> merge_map merge_run (MFlatten ms) = Some ms"
  by (simp add: merge_map_def merge_run.simps [of "MFlatten ms"] flatten_all_of_schema_def delete_absent as_object_def)

lemma strict_subset_id: "allowed_only ms \<Longrightarrow> strict_subset True ms = Some ms"
proof -
  assume "allowed_only ms"
  then have none: "map_of ms k = None" if "k \<in> forbidden_keywords" for k using that by (simp add: allowed_only_def)
  have "fold jremove unsupported_keywords ms = ms" by (rule fold_delete_absent) (simp add: none forbidden_keywords_def)
  moreover have "schema_field ms ''const'' = None" "schema_field ms ''oneOf'' = None" "schema_field ms ''allOf'' = None"
    by (rule none, simp add: forbidden_keywords_def)+
  ultimately show ?thesis
    by (simp add: strict_subset_def flatten_absent normalize_openai_schema_subset_keywords_def const_to_enum_def
        normalize_one_of_keyword_def)
qed

lemma format_id: "format_supported ms \<Longrightarrow> normalize_string_format_keyword True ms = ms"
  by (auto simp: format_supported_def normalize_string_format_keyword_def as_string_def split: option.splits json.splits)

lemma missing_id: "contains_key ms (lit k) \<Longrightarrow> insert_missing k v ms = ms"
  by (simp add: insert_missing_def)

lemma insert_id: "map_of ms k = Some v \<Longrightarrow> jinsert k v ms = ms"
  by (rule AList.update_triv)

lemma strict_form_object: "strict_form (JObj ms) \<Longrightarrow> strict_keywords ms"
  by (erule strict_form.cases) (simp_all add: is_object_iff)

lemma kind_id:
  assumes "strict_keywords ms"
    and "\<And>v. schema_field ms ''additionalProperties'' = Some v \<Longrightarrow> strict_form v \<and> rec v = Some v"
  shows "normalize_kind rec True ms = Some ms"
proof (cases "is_object_schema ms")
  case True
  then have complete: "object_complete ms" using assms(1) by (simp add: strict_keywords_def typed_def)
  have "normalize_additional_properties rec ms = Some ms"
  proof -
    obtain a where a: "schema_field ms ''additionalProperties'' = Some a" "(\<exists>b. a = JBool b) \<or> (\<exists>props. a = JObj props)"
      using complete by (auto simp: object_complete_def split: option.splits json.splits)
    show ?thesis
    proof (cases "\<exists>props. a = JObj props")
      case True
      then obtain props where props: "a = JObj props" by blast
      then have "strict_keywords props" using assms(2) [OF a(1)] strict_form_object by blast
      then have "contains_key props (lit ''type'') \<or> contains_key props (lit ''anyOf'')"
        by (auto simp: strict_keywords_def typed_def object_complete_def split: if_splits)
      then have "(if \<not> contains_key props (lit ''type'')
          \<and> \<not> (contains_key props (lit ''anyOf'') \<or> contains_key props (lit ''oneOf'') \<or> contains_key props (lit ''allOf''))
          then jinsert (lit ''type'') (JStr (lit ''object'')) props else props) = props"
        by auto
      then show ?thesis
        using a(1) props assms(2) [OF a(1)] by (simp add: normalize_additional_properties_def Let_def insert_id)
    qed (use a in \<open>auto simp: normalize_additional_properties_def\<close>)
  qed
  then show ?thesis
    using True complete
    by (simp add: normalize_kind_def normalize_object_def object_complete_def missing_id insert_required_def insert_id)
next
  case False
  then show ?thesis
    using assms(1) by (auto simp: normalize_kind_def default_type_def strict_keywords_def typed_def missing_id)
qed

lemma map_values_id: "(\<And>v. v \<in> snd ` set ns \<Longrightarrow> rec v = Some v) \<Longrightarrow> map_values rec ns = Some ns"
  unfolding map_values_def map_opt_Some by (auto simp: list_all2_same)

lemma keyword_id: "(\<And>v. schema_field ms k = Some v \<Longrightarrow> rec v = Some v) \<Longrightarrow> normalize_schema_keyword rec k ms = Some ms"
  by (auto simp: normalize_schema_keyword_def insert_id split: option.split json.split)

lemma keywords_id:
  assumes "schema_field ms ''allOf'' = None" "\<And>v. v \<in> set (property_schemas ms) \<Longrightarrow> rec v = Some v"
    and "\<And>k v. k \<in> {''items'', ''additionalProperties'', ''anyOf''} \<Longrightarrow> schema_field ms k = Some v \<Longrightarrow> rec v = Some v"
  shows "normalize_schema_keywords rec True ms = Some ms"
proof -
  have "normalize_named_schema_keyword rec ''properties'' ms = Some ms"
    using assms(2) map_values_id [of _ rec]
    by (auto simp: normalize_named_schema_keyword_def property_schemas_def insert_id split: option.split json.split)
  moreover have "normalize_schema_keyword rec k ms = Some ms" if "k \<in> {''items'', ''additionalProperties'', ''anyOf'', ''allOf''}" for k
    by (rule keyword_id) (use assms(1,3) that in auto)
  ultimately show ?thesis by (simp add: normalize_schema_keywords_def)
qed

lemma strict_unchanged: "strict_form v \<Longrightarrow> enforce_strict_schema True v = Some v"
proof (induction rule: strict_form.induct)
  case (strict_object ms)
  let ?rec = "enforce_strict_schema True :: 'a schema_rec"
  have keys: "allowed_only ms" "format_supported ms" "\<not> is_nullable ms" "is_array_schema ms \<longrightarrow> contains_key ms (lit ''items'')"
    using strict_object(1) by (simp_all add: strict_keywords_def)
  have "normalize_kind ?rec True ms = Some ms"
    by (rule kind_id [OF strict_object(1)]) (use strict_object.hyps(3) strict_object.IH(2) in blast)
  moreover have "normalize_array_items True ms = ms"
    using keys(4) by (auto simp: normalize_array_items_def missing_id)
  moreover have "split_nullable True ms = ms" using keys(3) by (simp add: split_nullable_def)
  moreover have "normalize_schema_keywords ?rec True ms = Some ms"
  proof (rule keywords_id)
    show "schema_field ms ''allOf'' = None" using keys(1) by (simp add: allowed_only_def forbidden_keywords_def)
  qed (use strict_object.IH in blast)+
  ultimately have "enforce_object ?rec True ms = Some ms"
    by (simp add: enforce_object_def strict_subset_id [OF keys(1)] format_id [OF keys(2)])
  then show ?case by (subst enforce_strict_schema.simps) (simp add: enforce_body_def)
next
  case (strict_array vs)
  then have "map_opt (enforce_strict_schema True) vs = Some vs" by (simp add: map_opt_Some list_all2_same)
  then show ?case by (subst enforce_strict_schema.simps) (simp add: enforce_body_def)
next
  case (strict_other v)
  then show ?case by (subst enforce_strict_schema.simps) (auto simp: enforce_body_def is_object_iff split: json.split)
qed

section \<open>An example\<close>

text \<open>A schema with a reference, branches of \<open>allOf\<close>, a constant, a nullable member and members without a type.\<close>

definition loose_schema :: "rat json" where
  "loose_schema = JObj
     [(lit ''$schema'', JStr (lit ''draft'')),
      (lit ''allOf'', JArr
         [JObj [(lit ''properties'', JObj [(lit ''path'', JObj [(lit ''minLength'', JInt 1)]), (lit ''kind'', JObj [(lit ''const'', JInt 1)])])],
          JObj [(lit ''properties'', JObj [(lit ''path'', JObj [(lit ''type'', JStr (lit ''string'')), (lit ''format'', JStr (lit ''uri''))]),
                                           (lit ''tags'', JObj [(lit ''type'', JStr (lit ''array'')), (lit ''nullable'', JBool True)])])]])]"

definition strict_schema :: "rat json" where
  "strict_schema = JObj
     [(lit ''properties'', JObj
         [(lit ''path'', JObj [(lit ''type'', JStr (lit ''string''))]),
          (lit ''kind'', JObj [(lit ''enum'', JArr [JInt 1]), (lit ''type'', JStr (lit ''string''))]),
          (lit ''tags'', JObj [(lit ''anyOf'', JArr
             [JObj [(lit ''type'', JStr (lit ''array'')), (lit ''items'', JObj [(lit ''type'', JStr (lit ''string''))])],
              JObj [(lit ''type'', JStr (lit ''null''))]])])]),
      (lit ''type'', JStr (lit ''object'')),
      (lit ''additionalProperties'', JBool False),
      (lit ''required'', JArr [JStr (lit ''kind''), JStr (lit ''path''), JStr (lit ''tags'')])]"

lemma loose_enforced: "enforce_strict_schema True loose_schema = Some strict_schema"
  by code_simp

text \<open>A member that is a reference loses it, with the definitions it points to, and is given the type of a string.\<close>

lemma references_become_strings:
  "enforce_strict_schema True (JObj
     [(lit ''properties'', JObj [(lit ''n'', JObj [(lit ''$ref'', JStr (lit ''#/$defs/Count''))])]),
      (lit ''$defs'', JObj [(lit ''Count'', JObj [(lit ''type'', JStr (lit ''integer''))])])] :: rat json)
   = Some (JObj
     [(lit ''properties'', JObj [(lit ''n'', JObj [(lit ''type'', JStr (lit ''string''))])]),
      (lit ''type'', JStr (lit ''object'')),
      (lit ''additionalProperties'', JBool False),
      (lit ''required'', JArr [JStr (lit ''n'')])])"
  by code_simp

end
