(* ===== verification/Strict_Returns.thy ===== *)
theory Strict_Returns
  imports Strict_Laws
begin

text \<open>
  That the merging of \<open>allOf\<close> and the recursion over schemas return. Merging is measured by the number of values in
  what is merged. A schema is measured by the schemas that can be reached in it (\<open>schema_weight\<close>): what the recursion
  inserts weighs nothing, so no stage makes a schema heavier, and a schema inside is lighter. Then the properties: what
  comes out of strict mode, and what of a schema it keeps.
\<close>

section \<open>Measures\<close>

function json_nodes :: "'f json \<Rightarrow> nat" where
  "json_nodes (JObj ms) = 1 + (\<Sum>m\<leftarrow>ms. 1 + json_nodes (snd m))"
| "json_nodes (JArr xs) = 1 + (\<Sum>x\<leftarrow>xs. 1 + json_nodes x)"
| "json_nodes (JStr s) = 1"
| "json_nodes JNull = 1"
| "json_nodes (JBool b) = 1"
| "json_nodes (JInt n) = 1"
| "json_nodes (JFloat x) = 1"
  by pat_completeness auto

termination by (relation "measure size") (use json_parts_smaller in auto)

definition object_nodes :: "'f json_object \<Rightarrow> nat" where
  "object_nodes ms = (\<Sum>m\<leftarrow>ms. 1 + json_nodes (snd m))"

definition is_schema_keyword :: "rstr \<Rightarrow> bool" where
  "is_schema_keyword k \<longleftrightarrow> k \<in> lit ` {''items'', ''additionalProperties'', ''allOf'', ''anyOf'', ''oneOf'', ''prefixItems'',
     ''contains'', ''not'', ''if'', ''then'', ''else''}"

definition default_schema :: "'f json_object \<Rightarrow> bool" where
  "default_schema ms \<longleftrightarrow> ms = [(lit ''type'', JStr (lit ''string''))] \<or> ms = [(lit ''type'', JStr (lit ''null''))]"

function schema_weight :: "'f json \<Rightarrow> nat" where
  "schema_weight (JObj ms) =
     (if default_schema ms then 0
      else 1 + (\<Sum>m\<leftarrow>ms.
        if is_named_keyword (fst m) then (case snd m of JObj ns \<Rightarrow> \<Sum>n\<leftarrow>ns. schema_weight (snd n) | _ \<Rightarrow> 0)
        else if is_schema_keyword (fst m) then schema_weight (snd m)
        else if fst m = lit ''nullable'' \<and> snd m = JBool True then 4 else 0))"
| "schema_weight (JArr xs) = 1 + (\<Sum>x\<leftarrow>xs. schema_weight x)"
| "schema_weight (JStr s) = 0"
| "schema_weight JNull = 0"
| "schema_weight (JBool b) = 0"
| "schema_weight (JInt n) = 0"
| "schema_weight (JFloat x) = 0"
  by pat_completeness auto

termination
proof (relation "measure size", goal_cases)
  case (2 ms m ns n)
  then have "size (snd n) < size (snd m)" using json_parts_smaller(2) [of n ns] by simp
  then show ?case using json_parts_smaller(2) [of m ms] 2 by simp
qed (use json_parts_smaller in auto)

definition named_weight :: "'f json \<Rightarrow> nat" where
  "named_weight v = (case v of JObj ns \<Rightarrow> \<Sum>n\<leftarrow>ns. schema_weight (snd n) | _ \<Rightarrow> 0)"

definition member_weight :: "rstr \<times> 'f json \<Rightarrow> nat" where
  "member_weight m =
     (if is_named_keyword (fst m) then named_weight (snd m)
      else if is_schema_keyword (fst m) then schema_weight (snd m)
      else if fst m = lit ''nullable'' \<and> snd m = JBool True then 4 else 0)"

definition members_weight :: "'f json_object \<Rightarrow> nat" where
  "members_weight ms = (\<Sum>m\<leftarrow>ms. member_weight m)"

lemma object_weights:
  "json_nodes (JObj ms) = 1 + object_nodes ms"
  "schema_weight (JObj ms) = (if default_schema ms then 0 else 1 + members_weight ms)"
  by (simp_all only: json_nodes.simps schema_weight.simps object_nodes_def members_weight_def member_weight_def named_weight_def)

lemma schema_weight_le: "schema_weight (JObj ms) \<le> 1 + members_weight ms"
  by (simp add: object_weights(2) del: schema_weight.simps)

declare json_nodes.simps(1) [simp del] schema_weight.simps(1) [simp del]

text \<open>Sums over the members of a map under its operations.\<close>

lemma sum_update:
  fixes f :: "rstr \<times> 'f json \<Rightarrow> nat"
  shows "map_of ms k = Some e \<Longrightarrow> (\<Sum>m\<leftarrow>jinsert k v ms. f m) + f (k, e) = (\<Sum>m\<leftarrow>ms. f m) + f (k, v)"
    and "map_of ms k = None \<Longrightarrow> (\<Sum>m\<leftarrow>jinsert k v ms. f m) = (\<Sum>m\<leftarrow>ms. f m) + f (k, v)"
  by (induction ms) (auto split: if_splits)

lemma sum_insert_le:
  fixes f :: "rstr \<times> 'f json \<Rightarrow> nat"
  shows "(\<Sum>m\<leftarrow>jinsert k v ms. f m) \<le> (\<Sum>m\<leftarrow>ms. f m) + f (k, v)"
  using sum_update(1) [of ms k _ f v] sum_update(2) [of ms k f v] by (cases "map_of ms k") fastforce+

lemma sum_delete:
  fixes f :: "rstr \<times> 'f json \<Rightarrow> nat"
  shows "(\<Sum>m\<leftarrow>jremove k ms. f m) \<le> (\<Sum>m\<leftarrow>ms. f m)"
    and "map_of ms k = Some e \<Longrightarrow> (\<Sum>m\<leftarrow>jremove k ms. f m) + f (k, e) \<le> (\<Sum>m\<leftarrow>ms. f m)"
proof -
  show le: "(\<Sum>m\<leftarrow>jremove k ms. f m) \<le> (\<Sum>m\<leftarrow>ms. f m)" for ms by (induction ms) auto
  show "map_of ms k = Some e \<Longrightarrow> (\<Sum>m\<leftarrow>jremove k ms. f m) + f (k, e) \<le> (\<Sum>m\<leftarrow>ms. f m)"
  proof (induction ms)
    case (Cons m ms)
    then show ?case using le [of ms] by (cases m) (auto split: if_splits)
  qed simp
qed

lemma sum_member:
  fixes f :: "rstr \<times> 'f json \<Rightarrow> nat"
  shows "map_of ms k = Some v \<Longrightarrow> f (k, v) \<le> (\<Sum>m\<leftarrow>ms. f m)"
  by (rule member_le_sum_list) (auto dest: map_of_SomeD)

lemma sum_foldl_le:
  fixes f :: "'a \<Rightarrow> nat"
  shows "(\<Sum>x\<leftarrow>foldl (\<lambda>t v. if v \<in> set t then t else t @ [v]) t s. f x) \<le> (\<Sum>x\<leftarrow>t. f x) + (\<Sum>x\<leftarrow>s. f x)"
proof (induction s arbitrary: t)
  case (Cons v s)
  show ?case using Cons [of "if v \<in> set t then t else t @ [v]"] by (cases "v \<in> set t") auto
qed simp

lemma sum_filter_le: "(\<Sum>x\<leftarrow>filter p xs. f x) \<le> (\<Sum>x\<leftarrow>xs. (f x :: nat))"
  by (induction xs) auto

lemma sum_strings_le:
  fixes f :: "'f json \<Rightarrow> nat"
  assumes "\<And>a. f (JStr a) = c" and "list_all (\<lambda>v. as_string v \<noteq> None) vs"
  shows "(\<Sum>x\<leftarrow>map JStr (sort (List.map_filter as_string vs)). f x) = (\<Sum>x\<leftarrow>vs. f x)"
proof -
  have "(\<Sum>x\<leftarrow>map JStr (sort ss). f x) = c * length ss" for ss
    using assms(1) by (simp add: comp_def sum_list_triv)
  moreover have "(\<Sum>x\<leftarrow>vs. f x) = c * length (List.map_filter as_string vs)"
    using assms(2)
  proof (induction vs)
    case (Cons v vs)
    then show ?case using assms(1) by (cases v) (auto simp: List.map_filter_simps as_string_def)
  qed (simp add: List.map_filter_simps)
  ultimately show ?thesis by simp
qed

section \<open>Merging returns\<close>

lemma as_object_JObj [simp]: "as_object (JObj ms) = Some ms"
  by (simp add: as_object_def)

definition merge_nodes :: "'f merge_call \<Rightarrow> nat" where
  "merge_nodes c = (case c of MFlatten ms \<Rightarrow> object_nodes ms | MObject t s \<Rightarrow> object_nodes t + object_nodes s
     | MNamed t s \<Rightarrow> object_nodes t + object_nodes s | MKeyword k t s \<Rightarrow> json_nodes t + json_nodes s)"

definition merge_rank :: "'f merge_call \<Rightarrow> nat" where
  "merge_rank c = (case c of MFlatten ms \<Rightarrow> 0 | _ \<Rightarrow> 1)"

definition merged_within :: "'f merge_call \<Rightarrow> 'f json \<Rightarrow> bool" where
  "merged_within c v = (case c of
     MFlatten ms \<Rightarrow> (\<exists>r. v = JObj r \<and> object_nodes r \<le> object_nodes ms \<and> members_weight r \<le> members_weight ms)
   | MObject t s \<Rightarrow> (\<exists>r. v = JObj r \<and> object_nodes r \<le> object_nodes t + object_nodes s
       \<and> members_weight r \<le> members_weight t + members_weight s)
   | MNamed t s \<Rightarrow> (\<exists>r. v = JObj r \<and> object_nodes r \<le> object_nodes t + object_nodes s
       \<and> named_weight v \<le> named_weight (JObj t) + named_weight (JObj s))
   | MKeyword k t s \<Rightarrow> json_nodes v \<le> json_nodes t + json_nodes s
       \<and> member_weight (k, v) \<le> member_weight (k, t) + member_weight (k, s)
       \<and> (\<not> is_named_keyword k \<longrightarrow> schema_weight v \<le> schema_weight t + schema_weight s))"

lemma merge_members_return:
  fixes g :: "rstr \<times> 'f json \<Rightarrow> nat"
  assumes rec: "\<And>k e v. json_nodes e + json_nodes v < n \<Longrightarrow>
    \<exists>r. rec (MKeyword (key_of k) e v) = Some r \<and> json_nodes r \<le> json_nodes e + json_nodes v \<and> g (k, r) \<le> g (k, e) + g (k, v)"
  shows "object_nodes t + object_nodes s \<le> n \<Longrightarrow> \<exists>r. fold_opt (merge_member rec key_of) s t = Some r
    \<and> object_nodes r \<le> object_nodes t + object_nodes s \<and> (\<Sum>m\<leftarrow>r. g m) \<le> (\<Sum>m\<leftarrow>t. g m) + (\<Sum>m\<leftarrow>s. g m)"
proof (induction s arbitrary: t)
  case (Cons m s)
  obtain k v where m: "m = (k, v)" by (cases m)
  have "\<exists>t'. merge_member rec key_of m t = Some t' \<and> object_nodes t' \<le> object_nodes t + (1 + json_nodes v)
    \<and> (\<Sum>m\<leftarrow>t'. g m) \<le> (\<Sum>m\<leftarrow>t. g m) + g m"
  proof (cases "map_of t k")
    case None
    then show ?thesis
      using sum_update(2) [of t k "\<lambda>m. 1 + json_nodes (snd m)" v] sum_update(2) [of t k g v]
      by (simp add: merge_member_def m object_nodes_def)
  next
    case (Some e)
    have "1 + json_nodes e \<le> object_nodes t"
      using sum_member [OF Some, of "\<lambda>m. 1 + json_nodes (snd m)"] by (simp add: object_nodes_def)
    then have "json_nodes e + json_nodes v < n" using Cons.prems by (simp add: object_nodes_def m)
    then obtain r where r: "rec (MKeyword (key_of k) e v) = Some r" "json_nodes r \<le> json_nodes e + json_nodes v"
      "g (k, r) \<le> g (k, e) + g (k, v)"
      using rec by blast
    then show ?thesis
      using Some sum_update(1) [OF Some, of "\<lambda>m. 1 + json_nodes (snd m)" r] sum_update(1) [OF Some, of g r]
      by (simp add: merge_member_def m object_nodes_def)
  qed
  then obtain t' where t': "merge_member rec key_of m t = Some t'" "object_nodes t' \<le> object_nodes t + (1 + json_nodes v)"
    "(\<Sum>m\<leftarrow>t'. g m) \<le> (\<Sum>m\<leftarrow>t. g m) + g m"
    by blast
  then have "object_nodes t' + object_nodes s \<le> n" using Cons.prems by (simp add: object_nodes_def m)
  from Cons.IH [OF this] t' show ?case by (auto simp: m object_nodes_def)
qed (simp add: object_nodes_def)

lemma default_merge:
  fixes t s :: "'f json_object"
  assumes "default_schema t" and "default_schema s"
  shows "merge_run (MObject t s) = Some (JObj t)"
proof -
  obtain a b where ts: "t = [(lit ''type'', JStr (lit a))]" "s = [(lit ''type'', JStr (lit b))]"
    using assms by (auto simp: default_schema_def)
  have flat: "merge_run (MFlatten [(lit ''type'', JStr (lit b))]) = Some (JObj [(lit ''type'', JStr (lit b) :: 'f json)])"
    by (subst merge_run.simps) (simp add: flatten_all_of_schema_def)
  have "merge_run (MKeyword k (JStr u) (JStr v)) = Some (JStr u :: 'f json)" for k u v
    by (subst merge_run.simps) (simp add: merge_schema_keyword_def)
  then show ?thesis
    by (subst merge_run.simps) (simp add: merge_schema_object_def merge_map_def flat merge_member_def ts)
qed

lemma merge_flatten_returns:
  assumes rec: "\<And>c. merge_nodes c < object_nodes ms \<Longrightarrow> \<exists>v. rec c = Some v \<and> merged_within c v"
  shows "\<exists>r. flatten_all_of_schema rec ms = Some r \<and> object_nodes r \<le> object_nodes ms \<and> members_weight r \<le> members_weight ms"
proof -
  have loop: "\<exists>r. fold_opt (\<lambda>sub ms. case sub of JObj source \<Rightarrow> merge_map rec (MObject ms source) | _ \<Rightarrow> Some ms) subs t = Some r
      \<and> object_nodes r \<le> object_nodes t + (\<Sum>x\<leftarrow>subs. 1 + json_nodes x)
      \<and> members_weight r \<le> members_weight t + (\<Sum>x\<leftarrow>subs. schema_weight x)"
    if "object_nodes t + (\<Sum>x\<leftarrow>subs. 1 + json_nodes x) < object_nodes ms" for subs t
    using that
  proof (induction subs arbitrary: t)
    case (Cons sub subs)
    show ?case
    proof (cases sub)
      case (JObj source)
      then have "merge_nodes (MObject t source) < object_nodes ms"
        using Cons.prems by (simp add: merge_nodes_def object_weights)
      then obtain v where v: "rec (MObject t source) = Some v" "merged_within (MObject t source) v"
        using rec by blast
      then obtain r where r: "v = JObj r" "object_nodes r \<le> object_nodes t + object_nodes source"
        "members_weight r \<le> members_weight t + members_weight source"
        by (auto simp: merged_within_def)
      have "members_weight source \<le> schema_weight sub"
        by (auto simp: JObj object_weights default_schema_def members_weight_def member_weight_def is_named_keyword_def
            is_schema_keyword_def)
      then show ?thesis
        using Cons.IH [of r] Cons.prems r v by (auto simp: JObj merge_map_def object_weights)
    next
      case (JArr xs)
      then show ?thesis using Cons.IH [of t] Cons.prems by auto
    qed (use Cons.IH [of t] Cons.prems in auto)
  qed simp
  have same: "object_nodes (jremove (lit ''allOf'') ms) \<le> object_nodes ms"
    "members_weight (jremove (lit ''allOf'') ms) \<le> members_weight ms"
    unfolding object_nodes_def members_weight_def by (rule sum_delete(1))+
  show ?thesis
  proof (cases "\<exists>subs. schema_field ms ''allOf'' = Some (JArr subs)")
    case True
    then obtain subs where subs: "map_of ms (lit ''allOf'') = Some (JArr subs)" by auto
    have "object_nodes (jremove (lit ''allOf'') ms) + (1 + json_nodes (JArr subs)) \<le> object_nodes ms"
      using sum_delete(2) [OF subs, of "\<lambda>m. 1 + json_nodes (snd m)"] by (simp add: object_nodes_def)
    moreover have "members_weight (jremove (lit ''allOf'') ms) + schema_weight (JArr subs) \<le> members_weight ms"
      using sum_delete(2) [OF subs, of member_weight]
      by (simp add: members_weight_def member_weight_def is_named_keyword_def is_schema_keyword_def)
    ultimately show ?thesis
      using loop [of "jremove (lit ''allOf'') ms" subs] subs by (fastforce simp: flatten_all_of_schema_def)
  next
    case False
    then have "flatten_all_of_schema rec ms = Some (jremove (lit ''allOf'') ms)"
      by (auto simp: flatten_all_of_schema_def split: option.split json.split)
    then show ?thesis using same by simp
  qed
qed

lemma required_sum_le:
  fixes f :: "'f json \<Rightarrow> nat"
  assumes "\<And>a. f (JStr a) = c"
  shows "(\<Sum>x\<leftarrow>merge_required_arrays t s. f x) \<le> (\<Sum>x\<leftarrow>t. f x) + (\<Sum>x\<leftarrow>s. f x)"
  using sum_foldl_le [of f t s] sum_strings_le [of f c, OF assms]
  unfolding merge_required_arrays_def Let_def by (simp del: map_map list.map)

lemma merge_arrays_within:
  fixes t s :: "'f json list"
  assumes "r \<in> {merge_required_arrays t s, merge_enum_arrays t s, t}"
  shows "json_nodes (JArr r) \<le> json_nodes (JArr t) + json_nodes (JArr s)"
    and "schema_weight (JArr r) \<le> schema_weight (JArr t) + schema_weight (JArr s)"
proof -
  have sums: "(\<Sum>x\<leftarrow>r. f x) \<le> (\<Sum>x\<leftarrow>t. f x) + (\<Sum>x\<leftarrow>s. f x)" if "\<And>a. f (JStr a) = c" for f :: "'f json \<Rightarrow> nat" and c
    using assms required_sum_le [of f c t s] that sum_filter_le [of f "\<lambda>v. v \<in> set s" t]
    by (auto simp: merge_enum_arrays_def intro: trans_le_add1)
  show "json_nodes (JArr r) \<le> json_nodes (JArr t) + json_nodes (JArr s)"
    using sums [of "\<lambda>x. 1 + json_nodes x" 2] by simp
  show "schema_weight (JArr r) \<le> schema_weight (JArr t) + schema_weight (JArr s)"
    using sums [of schema_weight 0] by simp
qed

lemma target_within: "merged_within (MKeyword k t s) t"
  by (simp add: merged_within_def)

lemma merge_keyword_within:
  fixes t s :: "'f json"
  assumes rec: "\<And>t' s'. t = JObj t' \<Longrightarrow> s = JObj s' \<Longrightarrow> (\<exists>v. rec (MNamed t' s') = Some v \<and> merged_within (MNamed t' s') v)
      \<and> (\<exists>v. rec (MObject t' s') = Some v \<and> merged_within (MObject t' s') v)
      \<and> (default_schema t' \<longrightarrow> default_schema s' \<longrightarrow> rec (MObject t' s') = Some (JObj t'))"
  shows "\<exists>v. merge_schema_keyword rec k t s = Some v \<and> merged_within (MKeyword k t s) v"
proof (cases t)
  case (JObj t')
  show ?thesis
  proof (cases s)
    case (JObj s')
    show ?thesis
    proof (cases "is_named_keyword k")
      case True
      obtain v where "rec (MNamed t' s') = Some v" "merged_within (MNamed t' s') v"
        using rec \<open>t = JObj t'\<close> \<open>s = JObj s'\<close> by blast
      then show ?thesis
        using True \<open>t = JObj t'\<close> \<open>s = JObj s'\<close>
        by (auto simp: merge_schema_keyword_def merged_within_def object_weights(1) member_weight_def)
    next
      case False
      obtain v where v: "rec (MObject t' s') = Some v" "merged_within (MObject t' s') v"
        and default: "default_schema t' \<longrightarrow> default_schema s' \<longrightarrow> v = JObj t'"
        using rec \<open>t = JObj t'\<close> \<open>s = JObj s'\<close> by force
      obtain r where r: "v = JObj r" "object_nodes r \<le> object_nodes t' + object_nodes s'"
        "members_weight r \<le> members_weight t' + members_weight s'"
        using v(2) by (auto simp: merged_within_def)
      have "members_weight ms = 0" if "default_schema ms" for ms :: "'f json_object"
        using that by (auto simp: default_schema_def members_weight_def member_weight_def is_named_keyword_def is_schema_keyword_def)
      then have "schema_weight v \<le> schema_weight t + schema_weight s"
        using r default schema_weight_le [of r] \<open>t = JObj t'\<close> \<open>s = JObj s'\<close> by (auto simp: object_weights(2))
      then show ?thesis
        using False v r \<open>t = JObj t'\<close> \<open>s = JObj s'\<close>
        by (auto simp: merge_schema_keyword_def merged_within_def object_weights(1) member_weight_def)
    qed
  qed (use JObj target_within in \<open>force simp: merge_schema_keyword_def\<close>)+
next
  case (JArr t')
  show ?thesis
  proof (cases s)
    case (JArr s')
    define r where "r = (if k = lit ''required'' then merge_required_arrays t' s'
      else if k = lit ''enum'' then merge_enum_arrays t' s' else t')"
    have "merge_schema_keyword rec k t s = Some (JArr r)"
      using \<open>t = JArr t'\<close> \<open>s = JArr s'\<close> by (simp add: merge_schema_keyword_def r_def)
    moreover have "merged_within (MKeyword k t s) (JArr r)"
      using merge_arrays_within [of r t' s'] \<open>t = JArr t'\<close> \<open>s = JArr s'\<close>
      by (simp add: merged_within_def member_weight_def named_weight_def r_def)
    ultimately show ?thesis by blast
  qed (use JArr target_within in \<open>force simp: merge_schema_keyword_def\<close>)+
qed (use target_within in \<open>force simp: merge_schema_keyword_def\<close>)+

lemma merge_returns:
  fixes c :: "'f merge_call"
  shows "\<exists>v. merge_run c = Some v \<and> merged_within c v"
proof (induction c rule: wf_induct [OF wf_mlex [of "measure merge_rank" merge_nodes, OF wf_measure]])
  case (1 c)
  have IH: "\<exists>v. merge_run c' = Some v \<and> merged_within c' v"
    if "merge_nodes c' < merge_nodes c \<or> merge_nodes c' \<le> merge_nodes c \<and> merge_rank c' < merge_rank c" for c' :: "'f merge_call"
  proof -
    have "(c', c) \<in> merge_nodes <*mlex*> measure merge_rank"
      using that by (auto intro: mlex_less mlex_leq)
    then show ?thesis using 1 by blast
  qed
  show ?case
  proof (cases c)
    case (MFlatten ms)
    then show ?thesis
      using merge_flatten_returns [of ms merge_run] IH by (subst merge_run.simps) (auto simp: merge_nodes_def merged_within_def)
  next
    case (MObject t s)
    obtain v where "merge_run (MFlatten s) = Some v" "merged_within (MFlatten s) v"
      using IH [of "MFlatten s"] by (auto simp: MObject merge_nodes_def merge_rank_def)
    then obtain s' where s': "merge_run (MFlatten s) = Some (JObj s')" "object_nodes s' \<le> object_nodes s"
      "members_weight s' \<le> members_weight s"
      by (auto simp: merged_within_def)
    have "\<exists>r. merge_run (MKeyword k e v) = Some r \<and> json_nodes r \<le> json_nodes e + json_nodes v
        \<and> member_weight (k, r) \<le> member_weight (k, e) + member_weight (k, v)"
      if "json_nodes e + json_nodes v < object_nodes t + object_nodes s" for k and e v :: "'f json"
      using IH [of "MKeyword k e v"] that by (auto simp: MObject merge_nodes_def merged_within_def)
    then show ?thesis
      using merge_members_return [of "object_nodes t + object_nodes s" merge_run "\<lambda>k. k" member_weight t s'] s'
      by (subst merge_run.simps)
        (auto simp: MObject merge_schema_object_def merge_map_def merged_within_def members_weight_def)
  next
    case (MNamed t s)
    have "\<exists>r. merge_run (MKeyword (lit ''schema'') e v) = Some r \<and> json_nodes r \<le> json_nodes e + json_nodes v
        \<and> schema_weight r \<le> schema_weight e + schema_weight v"
      if "json_nodes e + json_nodes v < object_nodes t + object_nodes s" for e v :: "'f json"
      using IH [of "MKeyword (lit ''schema'') e v"] that
      by (auto simp: MNamed merge_nodes_def merged_within_def is_named_keyword_def)
    then show ?thesis
      using merge_members_return [of "object_nodes t + object_nodes s" merge_run "\<lambda>_. lit ''schema''" "\<lambda>m. schema_weight (snd m)" t s]
      by (subst merge_run.simps) (auto simp: MNamed merge_named_schema_map_def merged_within_def named_weight_def)
  next
    case (MKeyword k t s)
    have "\<exists>v. merge_schema_keyword merge_run k t s = Some v \<and> merged_within (MKeyword k t s) v"
      using IH default_merge by (intro merge_keyword_within) (auto simp: MKeyword merge_nodes_def object_weights(1))
    then show ?thesis by (subst merge_run.simps) (simp add: MKeyword)
  qed
qed

section \<open>The stages\<close>

lemmas weight_defs = member_weight_def is_named_keyword_def is_schema_keyword_def

lemma weights_update:
  "map_of ms k = Some e \<Longrightarrow> members_weight (jinsert k v ms) + member_weight (k, e) = members_weight ms + member_weight (k, v)"
  "members_weight (jinsert k v ms) \<le> members_weight ms + member_weight (k, v)"
  "members_weight (jremove k ms) \<le> members_weight ms"
  "map_of ms k = Some e \<Longrightarrow> members_weight (jremove k ms) + member_weight (k, e) \<le> members_weight ms"
  "map_of ms k = Some e \<Longrightarrow> member_weight (k, e) \<le> members_weight ms"
  unfolding members_weight_def by (rule sum_update(1) sum_insert_le sum_delete sum_member; assumption?)+

text \<open>A stage on maps lighter than \<open>n\<close> returns and does not make them heavier.\<close>

definition lightens :: "nat \<Rightarrow> ('f json_object \<Rightarrow> 'f json_object option) \<Rightarrow> bool" where
  "lightens n f \<longleftrightarrow> (\<forall>ms. members_weight ms < n \<longrightarrow> (\<exists>r. f ms = Some r \<and> members_weight r \<le> members_weight ms))"

definition schemas_return :: "nat \<Rightarrow> 'f schema_rec \<Rightarrow> bool" where
  "schemas_return n rec \<longleftrightarrow> (\<forall>v. schema_weight v < n \<longrightarrow> (\<exists>r. rec v = Some r \<and> schema_weight r \<le> schema_weight v))"

lemma schemas_returnD:
  "schemas_return n rec \<Longrightarrow> schema_weight v < n \<Longrightarrow> \<exists>r. rec v = Some r \<and> schema_weight r \<le> schema_weight v"
  by (simp add: schemas_return_def)

lemma lightens_bind: "lightens n f \<Longrightarrow> lightens n g \<Longrightarrow> lightens n (\<lambda>ms. Option.bind (f ms) g)"
  unfolding lightens_def by (metis bind.bind_lunit le_trans order.strict_trans1)

lemma lightens_after: "lightens n f \<Longrightarrow> (\<And>ms. members_weight (g ms) \<le> members_weight ms) \<Longrightarrow> lightens n (\<lambda>ms. map_option g (f ms))"
  unfolding lightens_def by (metis le_trans option.simps(9))

lemma lightens_before: "lightens n f \<Longrightarrow> (\<And>ms. members_weight (g ms) \<le> members_weight ms) \<Longrightarrow> lightens n (\<lambda>ms. f (g ms))"
  unfolding lightens_def by (metis le_trans order.strict_trans1)

lemma lightens_fold: "(\<And>k. k \<in> set ks \<Longrightarrow> lightens n (f k)) \<Longrightarrow> lightens n (fold_opt f ks)"
proof (induction ks)
  case Nil
  then show ?case by (simp add: lightens_def)
next
  case (Cons k ks)
  then have "lightens n (\<lambda>ms. Option.bind (f k ms) (fold_opt f ks))" by (intro lightens_bind) auto
  then show ?case by (simp add: lightens_def)
qed

lemma insert_missing_weight:
  "member_weight (lit k, v) = 0 \<Longrightarrow> members_weight (insert_missing k v ms) \<le> members_weight ms"
  using weights_update(2) [of "lit k" v ms] by (simp add: insert_missing_def)

lemma removed_weight: "members_weight (fold jremove ks ms) \<le> members_weight ms"
  by (induction ks arbitrary: ms) (auto intro: le_trans weights_update(3))

lemma const_weight: "members_weight (const_to_enum ms) \<le> members_weight ms"
proof -
  have zero: "member_weight (lit ''enum'', v) = 0" for v :: "'a json" by (simp add: weight_defs)
  have "members_weight (jinsert (lit ''enum'') v (jremove (lit ''const'') ms)) \<le> members_weight ms" for v
    using weights_update(2) [of "lit ''enum''" v "jremove (lit ''const'') ms"] weights_update(3) [of "lit ''const''" ms]
    by (simp add: zero)
  then show ?thesis
    using weights_update(3) [of "lit ''const''" ms] by (auto simp: const_to_enum_def Let_def split: option.split)
qed

lemma one_of_weight: "members_weight (normalize_one_of_keyword b ms) \<le> members_weight ms"
proof (cases "b \<and> contains_key ms (lit ''oneOf'')")
  case True
  then obtain v where b: b and v: "map_of ms (lit ''oneOf'') = Some v" by (auto simp: contains_key_def)
  let ?ms = "jremove (lit ''oneOf'') ms"
  have less: "members_weight ?ms + schema_weight v \<le> members_weight ms"
    using weights_update(4) [OF v] by (simp add: weight_defs)
  show ?thesis
  proof (cases "\<exists>any. map_of ?ms (lit ''anyOf'') = Some (JArr any)")
    case True
    then obtain any where any: "map_of ?ms (lit ''anyOf'') = Some (JArr any)" by blast
    show ?thesis
      using less weights_update(1) [OF any, of "JArr (any @ (case v of JArr xs \<Rightarrow> xs | v \<Rightarrow> [v]))"] any b v
      by (cases v) (simp_all add: normalize_one_of_keyword_def Let_def weight_defs)
  next
    case False
    then have "normalize_one_of_keyword b ms = jinsert (lit ''anyOf'') v ?ms"
      using b v by (auto simp: normalize_one_of_keyword_def Let_def split: option.split json.split)
    then show ?thesis
      using less weights_update(2) [of "lit ''anyOf''" v ?ms] by (simp add: weight_defs)
  qed
qed (auto simp: normalize_one_of_keyword_def contains_key_def)

lemma strict_subset_lightens: "lightens n (strict_subset b :: 'f json_object \<Rightarrow> 'f json_object option)"
proof (cases b)
  case True
  have "lightens n (\<lambda>ms :: 'f json_object. merge_map merge_run (MFlatten ms))"
    unfolding lightens_def
  proof (intro allI impI)
    fix ms :: "'f json_object"
    show "\<exists>r. merge_map merge_run (MFlatten ms) = Some r \<and> members_weight r \<le> members_weight ms"
      using merge_returns [of "MFlatten ms"] by (auto simp: merge_map_def merged_within_def)
  qed
  then have "lightens n (\<lambda>ms :: 'f json_object. map_option (\<lambda>ms. normalize_one_of_keyword b (normalize_openai_schema_subset_keywords ms))
      (merge_map merge_run (MFlatten ms)))"
    by (rule lightens_after)
      (auto simp: normalize_openai_schema_subset_keywords_def intro: le_trans [OF one_of_weight] le_trans [OF const_weight]
        removed_weight)
  then show ?thesis using True by (simp add: lightens_def strict_subset_def)
qed (simp add: lightens_def strict_subset_def)

lemma format_weight: "members_weight (normalize_string_format_keyword b ms) \<le> members_weight ms"
  using weights_update(3) [of "lit ''format''" ms] by (auto simp: normalize_string_format_keyword_def split: option.split)

lemma no_weight:
  "member_weight (lit ''type'', v) = 0" "member_weight (lit ''enum'', v) = 0" "member_weight (lit ''required'', v) = 0"
  "member_weight (lit ''description'', v) = 0" "member_weight (lit ''properties'', JObj []) = 0"
  "schema_weight (type_schema ''string'') = 0" "schema_weight (type_schema ''null'') = 0"
  by (simp_all add: weight_defs named_weight_def type_schema_def object_weights default_schema_def)

lemma items_weight: "members_weight (normalize_array_items b ms) \<le> members_weight ms"
proof -
  have "member_weight (lit ''items'', type_schema ''string'') = 0" by (simp add: member_weight_def no_weight is_named_keyword_def)
  then show ?thesis using insert_missing_weight by (auto simp: normalize_array_items_def)
qed

lemma split_nullable_weight: "members_weight (split_nullable b ms) \<le> members_weight ms"
proof (cases "b \<and> is_nullable ms")
  case True
  then have "map_of ms (lit ''nullable'') = Some (JBool True)" by (simp add: is_nullable_def)
  from weights_update(4) [OF this]
  have less: "members_weight (jremove (lit ''nullable'') ms) + 4 \<le> members_weight ms" by (simp add: weight_defs)
  define inner where "inner = without_null (jremove (lit ''nullable'') ms)"
  have "members_weight inner \<le> members_weight (jremove (lit ''nullable'') ms)"
    using weights_update(2) [of "lit ''enum''" _ "jremove (lit ''nullable'') ms"]
    by (auto simp: inner_def without_null_def no_weight split: option.split json.split)
  then have "members_weight (jremove (lit ''description'') inner) + 4 \<le> members_weight ms"
    using less weights_update(3) [of "lit ''description''" inner] by linarith
  then have "schema_weight (JObj (jremove (lit ''description'') inner)) + 3 \<le> members_weight ms"
    using schema_weight_le [of "jremove (lit ''description'') inner"] by linarith
  moreover have "members_weight (split_nullable b ms) = 1 + schema_weight (JObj (jremove (lit ''description'') inner))"
    using True
    by (auto simp: split_nullable_def Let_def inner_def [symmetric] members_weight_def no_weight member_weight_def [of "(lit ''anyOf'', _)"]
        is_named_keyword_def is_schema_keyword_def split: option.split)
  ultimately show ?thesis by linarith
qed (auto simp: split_nullable_def)

lemma map_values_return:
  assumes "schemas_return n rec" and "(\<Sum>m\<leftarrow>ms. schema_weight (snd m)) < n"
  shows "\<exists>r. map_values rec ms = Some r \<and> (\<Sum>m\<leftarrow>r. schema_weight (snd m)) \<le> (\<Sum>m\<leftarrow>ms. schema_weight (snd m))"
  using assms(2)
proof (induction ms)
  case (Cons m ms)
  obtain r where "rec (snd m) = Some r" "schema_weight r \<le> schema_weight (snd m)"
    using schemas_returnD [OF assms(1), of "snd m"] Cons.prems by auto
  then show ?case using Cons by (auto simp: map_values_def)
qed (simp add: map_values_def)

lemma named_keyword_lightens:
  assumes "schemas_return n rec" and "is_named_keyword (lit k)"
  shows "lightens n (normalize_named_schema_keyword rec k)"
  unfolding lightens_def
proof (intro allI impI)
  fix ms :: "'a json_object"
  assume n: "members_weight ms < n"
  show "\<exists>r. normalize_named_schema_keyword rec k ms = Some r \<and> members_weight r \<le> members_weight ms"
  proof (cases "\<exists>named. map_of ms (lit k) = Some (JObj named)")
    case True
    then obtain named where named: "map_of ms (lit k) = Some (JObj named)" by blast
    have weight: "member_weight (lit k, JObj xs) = (\<Sum>m\<leftarrow>xs. schema_weight (snd m))" for xs :: "'a json_object"
      using assms(2) by (simp add: member_weight_def named_weight_def)
    obtain r where r: "map_values rec named = Some r" "(\<Sum>m\<leftarrow>r. schema_weight (snd m)) \<le> (\<Sum>m\<leftarrow>named. schema_weight (snd m))"
      using map_values_return [OF assms(1), of named] weights_update(5) [OF named] n by (auto simp: weight)
    then show ?thesis
      using named weights_update(1) [OF named, of "JObj r"] by (simp add: normalize_named_schema_keyword_def weight)
  qed (auto simp: normalize_named_schema_keyword_def split: option.split json.split)
qed

lemma keyword_lightens:
  assumes "schemas_return n rec" and "is_schema_keyword (lit k)"
  shows "lightens n (normalize_schema_keyword rec k)"
  unfolding lightens_def
proof (intro allI impI)
  fix ms :: "'a json_object"
  assume n: "members_weight ms < n"
  have weight: "member_weight (lit k, v) = schema_weight v" for v :: "'a json"
    using assms(2) by (auto simp: weight_defs)
  show "\<exists>r. normalize_schema_keyword rec k ms = Some r \<and> members_weight r \<le> members_weight ms"
  proof (cases "map_of ms (lit k)")
    case (Some v)
    then obtain r where r: "rec v = Some r" "schema_weight r \<le> schema_weight v"
      using schemas_returnD [OF assms(1), of v] weights_update(5) [OF Some] n by (auto simp: weight)
    have "members_weight (jinsert (lit k) r ms) \<le> members_weight ms"
      using weights_update(1) [OF Some, of r] r(2) by (simp add: weight)
    then show ?thesis using Some r(1) by (cases v) (simp_all add: normalize_schema_keyword_def)
  qed (simp add: normalize_schema_keyword_def)
qed

lemma keywords_lighten:
  assumes "schemas_return n rec"
  shows "lightens n (normalize_schema_keywords rec b)"
proof -
  have schemas: "lightens n (fold_opt (normalize_schema_keyword rec) ks)" if "list_all (\<lambda>k. is_schema_keyword (lit k)) ks" for ks
    using that keyword_lightens [OF assms] by (intro lightens_fold) (auto simp: list_all_iff)
  have named: "lightens n (fold_opt (normalize_named_schema_keyword rec) ks)" if "list_all (\<lambda>k. is_named_keyword (lit k)) ks" for ks
    using that named_keyword_lightens [OF assms] by (intro lightens_fold) (auto simp: list_all_iff)
  let ?rest = "\<lambda>ms. Option.bind (fold_opt (normalize_named_schema_keyword rec) [''$defs'', ''definitions'', ''patternProperties''] ms)
    (fold_opt (normalize_schema_keyword rec) [''oneOf'', ''prefixItems'', ''contains'', ''not'', ''if'', ''then'', ''else''])"
  have "lightens n ?rest"
    by (intro lightens_bind schemas named) (simp_all add: is_schema_keyword_def is_named_keyword_def)
  then have "lightens n (\<lambda>ms. if b then Some ms else ?rest ms)" by (auto simp: lightens_def)
  then show ?thesis
    unfolding normalize_schema_keywords_def
    by (intro lightens_bind schemas named_keyword_lightens assms) (simp_all add: is_schema_keyword_def is_named_keyword_def)
qed

lemma additional_lightens:
  assumes "schemas_return n rec"
  shows "lightens n (normalize_additional_properties rec)"
  unfolding lightens_def
proof (intro allI impI)
  fix ms :: "'a json_object"
  let ?k = "lit ''additionalProperties''"
  assume n: "members_weight ms < n"
  have weight: "member_weight (?k, v) = schema_weight v" for v :: "'a json" by (simp add: weight_defs)
  show "\<exists>r. normalize_additional_properties rec ms = Some r \<and> members_weight r \<le> members_weight ms"
  proof (cases "\<exists>props. map_of ms ?k = Some (JObj props)")
    case True
    then obtain props where props: "map_of ms ?k = Some (JObj props)" by blast
    have typed: "schema_weight (JObj (jinsert (lit ''type'') v props)) \<le> schema_weight (JObj props)"
      if "\<not> contains_key props (lit ''type'')" for v
      using that weights_update(2) [of "lit ''type''" v props]
        schema_weight_le [of "jinsert (lit ''type'') v props"]
      by (auto simp: object_weights(2) no_weight default_schema_def contains_key_def)
    have step: "\<exists>r. map_option (\<lambda>v. jinsert ?k v ms) (rec v) = Some r \<and> members_weight r \<le> members_weight ms"
      if "schema_weight v \<le> schema_weight (JObj props)" for v
    proof -
      have "schema_weight v < n" using that weights_update(5) [OF props] n by (simp add: weight)
      then obtain r where "rec v = Some r" "schema_weight r \<le> schema_weight v" using schemas_returnD [OF assms] by blast
      then show ?thesis using that weights_update(1) [OF props, of r] by (simp add: weight)
    qed
    show ?thesis
      using props step typed by (simp add: normalize_additional_properties_def Let_def)
  next
    case False
    have "members_weight (jinsert ?k (JBool False) ms) \<le> members_weight ms"
      using weights_update(2) [of ?k "JBool False" ms] by (simp add: weight)
    then show ?thesis
      using False by (auto simp: normalize_additional_properties_def split: option.split json.split)
  qed
qed

lemma kind_lightens:
  fixes rec :: "'a schema_rec"
  assumes "schemas_return n rec"
  shows "lightens n (normalize_kind rec b)"
proof -
  have required: "members_weight (if b then insert_required ms else ms) \<le> members_weight ms" for ms :: "'a json_object"
    using weights_update(2) [of "lit ''required''" _ ms] by (simp add: insert_required_def no_weight)
  have properties: "members_weight (if b then insert_missing ''properties'' (JObj []) ms else ms) \<le> members_weight ms"
    for ms :: "'a json_object"
    by (cases b) (simp_all add: insert_missing_weight [OF no_weight(5)])
  have object: "lightens n (normalize_object rec b)"
    unfolding normalize_object_def
    by (rule lightens_after [OF lightens_before [OF additional_lightens [OF assms] properties] required])
  have typed: "members_weight (insert_missing ''type'' v ms) \<le> members_weight ms" for v and ms :: "'a json_object"
    by (intro insert_missing_weight no_weight)
  have "lightens n (\<lambda>ms. normalize_object rec b (insert_missing ''type'' (JStr (lit ''object'')) ms))"
    by (rule lightens_before [OF object typed])
  moreover have "members_weight (default_type b ms) \<le> members_weight ms" for ms :: "'a json_object"
    using typed by (simp add: default_type_def)
  ultimately show ?thesis by (auto simp: lightens_def normalize_kind_def)
qed

lemma object_lightens:
  assumes "schemas_return n rec"
  shows "lightens n (enforce_object rec b)"
  unfolding enforce_object_def
  by (intro lightens_bind strict_subset_lightens lightens_before [OF kind_lightens [OF assms]] format_weight
      lightens_before [OF keywords_lighten [OF assms]] le_trans [OF split_nullable_weight] items_weight)

section \<open>The recursion over schemas returns\<close>

lemma default_enforced:
  assumes "default_schema ms"
  shows "enforce_strict_schema b (JObj ms) = Some (JObj ms)"
proof -
  obtain a where ms: "ms = [(lit ''type'', JStr (lit a))]" "a = ''string'' \<or> a = ''null''"
    using assms by (auto simp: default_schema_def)
  have "allowed_only ms" using allowed_keys(1) by (auto simp: allowed_only_def ms(1))
  then have flat: "strict_subset b ms = Some ms"
    by (cases b) (simp_all add: strict_subset_id, simp add: strict_subset_def)
  have kind: "normalize_kind rec b (normalize_string_format_keyword b ms) = Some ms" for rec
    using ms(2)
    by (auto simp: ms(1) normalize_kind_def normalize_string_format_keyword_def is_object_schema_def has_type_def contains_key_def
        default_type_def insert_missing_def)
  have rest: "split_nullable b (normalize_array_items b ms) = ms" "normalize_schema_keywords rec b ms = Some ms" for rec
    using ms(2)
    by (auto simp: ms(1) split_nullable_def is_nullable_def normalize_array_items_def is_array_schema_def has_type_def
        contains_key_def normalize_schema_keywords_def normalize_named_schema_keyword_def normalize_schema_keyword_def)
  show ?thesis
    by (subst enforce_strict_schema.simps) (simp add: enforce_body_def enforce_object_def flat kind rest)
qed

lemma enforce_returns:
  fixes v :: "'f json"
  shows "\<exists>r. enforce_strict_schema b v = Some r \<and> schema_weight r \<le> schema_weight v"
proof (induction "schema_weight v" arbitrary: v rule: less_induct)
  case less
  let ?rec = "enforce_strict_schema b :: 'f schema_rec"
  have rec: "schemas_return (schema_weight v) ?rec" using less by (simp add: schemas_return_def)
  show ?case
  proof (cases v)
    case (JObj ms)
    show ?thesis
    proof (cases "default_schema ms")
      case False
      then have weight: "schema_weight v = 1 + members_weight ms" by (simp add: JObj object_weights(2))
      then obtain r where r: "enforce_object ?rec b ms = Some r" "members_weight r \<le> members_weight ms"
        using object_lightens [OF rec, of b] by (auto simp: lightens_def)
      then have "schema_weight (JObj r) \<le> schema_weight v" using weight schema_weight_le [of r] by simp
      then show ?thesis using r by (subst enforce_strict_schema.simps) (simp add: enforce_body_def JObj)
    qed (simp add: JObj default_enforced)
  next
    case (JArr xs)
    have "\<exists>rs. map_opt ?rec xs = Some rs \<and> (\<Sum>x\<leftarrow>rs. schema_weight x) \<le> (\<Sum>x\<leftarrow>xs. schema_weight x)"
      if "(\<Sum>x\<leftarrow>xs. schema_weight x) < schema_weight v" for xs :: "'f json list"
      using that
    proof (induction xs)
      case (Cons x xs)
      obtain r where "?rec x = Some r" "schema_weight r \<le> schema_weight x"
        using schemas_returnD [OF rec, of x] Cons.prems by auto
      then show ?case using Cons by fastforce
    qed simp
    from this [of xs] show ?thesis by (subst enforce_strict_schema.simps) (auto simp: enforce_body_def JArr)
  qed (subst enforce_strict_schema.simps, simp add: enforce_body_def)+
qed

text \<open>C29: Strict mode returns for every schema, and what comes out is in the strict form (\<open>strict_form\<close>), as are the schemas
  in its \<open>properties\<close>, \<open>items\<close>, \<open>additionalProperties\<close> and \<open>anyOf\<close>: it has none of the keywords the provider refuses, no
  \<open>allOf\<close>, \<open>oneOf\<close> or \<open>const\<close> and no other text format than the supported ones; it has a type or alternatives; an object
  has \<open>properties\<close>, requires exactly their names in order, and says what else it may have; an array has items; none is
  nullable. A second time strict mode changes nothing.\<close>

theorem strict_schemas_are_strict:
  "\<exists>r. enforce_strict_schema True v = Some r \<and> strict_form r \<and> enforce_strict_schema True r = Some r"
  using enforce_returns enforced_strict strict_unchanged by blast

section \<open>What strict mode keeps\<close>

definition outlives :: "rstr set \<Rightarrow> 'f json_object \<Rightarrow> 'f json_object \<Rightarrow> bool" where
  "outlives X ms r \<longleftrightarrow> (\<forall>k v. k \<notin> X \<longrightarrow> map_of ms k = Some v \<longrightarrow> map_of r k = Some v)
     \<and> schema_field r ''nullable'' = schema_field ms ''nullable''"

lemma outlives_trans: "outlives X a b \<Longrightarrow> outlives X b c \<Longrightarrow> outlives X a c"
  by (simp add: outlives_def)

lemma outlives_insert:
  "lit k \<in> X \<Longrightarrow> k \<noteq> ''nullable'' \<Longrightarrow> outlives X ms (jinsert (lit k) v ms)"
  "lit k \<in> X \<Longrightarrow> k \<noteq> ''nullable'' \<Longrightarrow> outlives X ms (jremove (lit k) ms)"
  "k \<noteq> ''nullable'' \<Longrightarrow> outlives X ms (insert_missing k v ms)"
  "outlives X ms ms"
  by (auto simp: outlives_def insert_missing_def contains_key_def)

lemma kept_keywords: "lit ''nullable'' \<notin> forbidden_keywords" "lit ''oneOf'' \<notin> set unsupported_keywords"
  by (simp_all add: forbidden_lit) (simp add: unsupported_keywords_def)

lemma const_to_enum_field: "map_of ms k = Some v \<Longrightarrow> k \<noteq> lit ''const'' \<Longrightarrow> map_of (const_to_enum ms) k = Some v"
  by (auto simp: const_to_enum_def contains_key_def Let_def split: option.split)

lemma outlives_subset:
  assumes "forbidden_keywords \<subseteq> X"
  shows "outlives X ms (normalize_openai_schema_subset_keywords ms)"
  unfolding outlives_def normalize_openai_schema_subset_keywords_def
proof (intro conjI allI impI)
  fix k v
  assume "k \<notin> X" "map_of ms k = Some v"
  then have "map_of (fold jremove unsupported_keywords ms) k = Some v" "k \<noteq> lit ''const''"
    using assms by (auto simp: forbidden_keywords_def)
  then show "map_of (const_to_enum (fold jremove unsupported_keywords ms)) k = Some v" by (rule const_to_enum_field)
next
  have "lit ''nullable'' \<notin> set unsupported_keywords" "lit ''nullable'' \<noteq> lit ''enum''" "lit ''nullable'' \<noteq> lit ''const''"
    using kept_keywords(1) by (simp_all add: forbidden_keywords_def)
  then show "schema_field (const_to_enum (fold jremove unsupported_keywords ms)) ''nullable'' = schema_field ms ''nullable''"
    by (simp add: const_to_enum_other del: lit_eq_iff)
qed

lemma subset_one_of: "schema_field (normalize_openai_schema_subset_keywords ms) ''oneOf'' = schema_field ms ''oneOf''"
proof -
  have "lit ''oneOf'' \<noteq> lit ''enum''" by simp
  then show ?thesis
    using kept_keywords(2) by (simp add: normalize_openai_schema_subset_keywords_def const_to_enum_other)
qed

lemma outlives_one_of:
  assumes "forbidden_keywords \<subseteq> X" "schema_field ms ''oneOf'' = None \<or> lit ''anyOf'' \<in> X"
  shows "outlives X ms (normalize_one_of_keyword True ms)"
proof (cases "schema_field ms ''oneOf''")
  case None
  then show ?thesis by (simp add: normalize_one_of_keyword_def outlives_insert)
next
  case (Some v)
  then have "k \<in> X" if "k = lit ''anyOf'' \<or> k = lit ''oneOf''" for k
    using assms that by (auto simp: forbidden_keywords_def)
  then have "map_of (normalize_one_of_keyword True ms) k = map_of ms k" if "k \<notin> X" for k
    using that one_of_other [of k ms] by (cases "k = lit ''anyOf''") auto
  then show ?thesis by (simp add: outlives_def one_of_other)
qed

lemma outlives_strict_subset:
  assumes "strict_subset True ms = Some r" "schema_field ms ''allOf'' = None" "forbidden_keywords \<subseteq> X"
    and "schema_field ms ''oneOf'' = None \<or> lit ''anyOf'' \<in> X"
  shows "outlives X ms r"
proof -
  have "r = normalize_one_of_keyword True (normalize_openai_schema_subset_keywords ms)"
    using assms(1) flatten_absent [OF assms(2)] by (simp add: strict_subset_def)
  then show ?thesis
    using outlives_trans [OF outlives_subset [OF assms(3)] outlives_one_of [OF assms(3)]] assms(4) by (simp add: subset_one_of)
qed

lemma outlives_format: "lit ''format'' \<in> X \<or> format_supported ms \<Longrightarrow> outlives X ms (normalize_string_format_keyword True ms)"
  using format_id [of ms] by (auto simp: normalize_string_format_keyword_def outlives_insert split: option.split)

lemma outlives_kind:
  assumes "normalize_kind rec True ms = Some r" "{lit ''additionalProperties'', lit ''required''} \<subseteq> X"
  shows "outlives X ms r"
proof (cases "is_object_schema ms")
  case True
  let ?ms = "insert_missing ''properties'' (JObj []) (insert_missing ''type'' (JStr (lit ''object'')) ms)"
  obtain a where a: "normalize_additional_properties rec ?ms = Some a" "r = insert_required a"
    using assms(1) True by (auto simp: normalize_kind_def normalize_object_def)
  have "outlives X ms ?ms" by (rule outlives_trans; rule outlives_insert) simp_all
  moreover have "outlives X ?ms a"
    using a(1) assms(2) by (auto simp: normalize_additional_properties_def Let_def intro: outlives_insert split: option.splits json.splits)
  moreover have "outlives X a r" unfolding a(2) insert_required_def using assms(2) by (intro outlives_insert) simp_all
  ultimately show ?thesis by (blast intro: outlives_trans)
qed (use assms(1) in \<open>auto simp: normalize_kind_def default_type_def intro: outlives_insert\<close>)

lemma keywords_members:
  assumes "normalize_schema_keywords rec True ms = Some r"
  shows "k \<notin> lit ` {''properties'', ''items'', ''additionalProperties'', ''allOf'', ''anyOf''} \<Longrightarrow> map_of r k = map_of ms k"
    and "schema_field ms ''properties'' = Some (JObj ns) \<Longrightarrow>
      \<exists>ns'. map_values rec ns = Some ns' \<and> schema_field r ''properties'' = Some (JObj ns')"
    and "f = ''items'' \<or> f = ''anyOf'' \<Longrightarrow> schema_field ms f = Some v \<Longrightarrow>
      \<exists>v'. schema_answer rec v = Some v' \<and> schema_field r f = Some v'"
proof -
  obtain r0 r1 r2 r3 where r0: "normalize_named_schema_keyword rec ''properties'' ms = Some r0"
    and r1: "normalize_schema_keyword rec ''items'' r0 = Some r1"
    and r2: "normalize_schema_keyword rec ''additionalProperties'' r1 = Some r2"
    and r3: "normalize_schema_keyword rec ''allOf'' r2 = Some r3"
    and r4: "normalize_schema_keyword rec ''anyOf'' r3 = Some r"
    using assms by (auto simp: normalize_schema_keywords_def Option.bind_eq_Some_conv)
  note steps = named_normalized(1) [OF r0] keyword_normalized(1) [OF r1] keyword_normalized(1) [OF r2]
    keyword_normalized(1) [OF r3] keyword_normalized(1) [OF r4]
  show "k \<notin> lit ` {''properties'', ''items'', ''additionalProperties'', ''allOf'', ''anyOf''} \<Longrightarrow> map_of r k = map_of ms k"
    using steps by auto
  show "schema_field ms ''properties'' = Some (JObj ns) \<Longrightarrow>
      \<exists>ns'. map_values rec ns = Some ns' \<and> schema_field r ''properties'' = Some (JObj ns')"
    using named_normalized(2) [OF r0] steps by auto
  show "f = ''items'' \<or> f = ''anyOf'' \<Longrightarrow> schema_field ms f = Some v \<Longrightarrow>
      \<exists>v'. schema_answer rec v = Some v' \<and> schema_field r f = Some v'"
    using steps keyword_normalized(3) [OF r1] keyword_normalized(3) [OF r4] by auto
qed

lemma map_values_at: "map_values rec ns = Some ns' \<Longrightarrow> map_of ns k = Some s \<Longrightarrow> map_of ns' k = rec s"
  unfolding map_values_def map_opt_Some by (induction rule: list_all2_induct) (auto split: if_splits)

lemma answer_enforced: "schema_answer (enforce_strict_schema b) v = enforce_strict_schema b v"
  by (auto simp: schema_answer_def is_object_iff enforce_strict_schema.simps [of b v] enforce_body_def split: json.split)

text \<open>C33: Strict mode keeps what a schema says as far as the provider knows it. A schema that is neither nullable nor joined
  by \<open>allOf\<close> keeps the names of its properties, in order, each with its own schema made strict, and so its items and, when
  there is no \<open>oneOf\<close> to add to them, its alternatives; a supported format and every other keyword that is not refused,
  such as its type, description, values and default, stay as they are, except for what strict mode sets itself:
  \<open>required\<close> and \<open>additionalProperties\<close>.\<close>

theorem strict_schemas_keep_members:
  assumes "schema_field ms ''allOf'' = None" "\<not> is_nullable ms"
  shows "\<exists>r. enforce_strict_schema True (JObj ms) = Some (JObj r)
    \<and> (\<forall>props. schema_field ms ''properties'' = Some (JObj props) \<longrightarrow> (\<exists>props'. schema_field r ''properties'' = Some (JObj props')
         \<and> map fst props' = map fst props \<and> (\<forall>k s. map_of props k = Some s \<longrightarrow> map_of props' k = enforce_strict_schema True s)))
    \<and> (\<forall>s. schema_field ms ''items'' = Some s \<longrightarrow> schema_field r ''items'' = enforce_strict_schema True s)
    \<and> (\<forall>s. schema_field ms ''oneOf'' = None \<longrightarrow> schema_field ms ''anyOf'' = Some s \<longrightarrow>
         schema_field r ''anyOf'' = enforce_strict_schema True s)
    \<and> (format_supported ms \<longrightarrow> schema_field ms ''format'' \<noteq> None \<longrightarrow> schema_field r ''format'' = schema_field ms ''format'')
    \<and> (\<forall>k v. map_of ms k = Some v \<longrightarrow> k \<notin> forbidden_keywords
         \<union> lit ` {''properties'', ''items'', ''anyOf'', ''format'', ''required'', ''additionalProperties''} \<longrightarrow> map_of r k = Some v)"
proof -
  let ?rec = "enforce_strict_schema True :: 'a schema_rec"
  obtain r where r: "enforce_object ?rec True ms = Some r" and run: "?rec (JObj ms) = Some (JObj r)"
    using enforce_returns [of True "JObj ms"] by (auto simp: enforce_strict_schema.simps [of True "JObj ms"] enforce_body_def)
  obtain a b where a: "strict_subset True ms = Some a"
    and b: "normalize_kind ?rec True (normalize_string_format_keyword True a) = Some b"
    and r': "normalize_schema_keywords ?rec True (split_nullable True (normalize_array_items True b)) = Some r"
    using r by (auto simp: enforce_object_def Option.bind_eq_Some_conv)
  define c where "c = normalize_array_items True b"
  have stages: "outlives X ms c"
    if X: "forbidden_keywords \<subseteq> X" "{lit ''additionalProperties'', lit ''required''} \<subseteq> X"
      and any_of: "schema_field ms ''oneOf'' = None \<or> lit ''anyOf'' \<in> X" and fmt: "lit ''format'' \<in> X \<or> format_supported a" for X
  proof -
    have "outlives X ms a" by (rule outlives_strict_subset [OF a assms(1) X(1) any_of])
    moreover have "outlives X a (normalize_string_format_keyword True a)" by (rule outlives_format [OF fmt])
    moreover have "outlives X (normalize_string_format_keyword True a) b" by (rule outlives_kind [OF b X(2)])
    moreover have "outlives X b c" by (simp add: c_def normalize_array_items_def outlives_insert)
    ultimately show ?thesis by (blast intro: outlives_trans)
  qed
  define Y where "Y = forbidden_keywords \<union> {lit ''additionalProperties'', lit ''required''}"
  have most: "outlives (Y \<union> {lit ''anyOf'', lit ''format''}) ms c" by (rule stages) (auto simp: Y_def)
  then have "\<not> is_nullable c" using assms(2) by (simp add: outlives_def is_nullable_def)
  then have keys: "normalize_schema_keywords ?rec True c = Some r" using r' by (simp add: split_nullable_def c_def)
  note members = keywords_members [OF keys]
  have kept: "map_of c k = Some v" if "map_of ms k = Some v" "k \<notin> Y \<union> {lit ''anyOf'', lit ''format''}" for k v
    using most that unfolding outlives_def by blast
  have outside: "lit k \<notin> Y" if "k \<in> {''properties'', ''items'', ''anyOf'', ''format''}" for k
    using that by (auto simp: Y_def forbidden_lit)
  have answered: "schema_field r f = ?rec v" if "f = ''items'' \<or> f = ''anyOf''" "schema_field c f = Some v" for f v
    using members(3) [OF that] by (auto simp: answer_enforced)
  have "\<exists>props'. schema_field r ''properties'' = Some (JObj props') \<and> map fst props' = map fst props
      \<and> (\<forall>k s. map_of props k = Some s \<longrightarrow> map_of props' k = ?rec s)"
    if "schema_field ms ''properties'' = Some (JObj props)" for props
    using members(2) [of props] kept [OF that] outside map_values_Some(1) [of ?rec props] map_values_at [of ?rec props] by auto
  moreover have "schema_field r ''items'' = ?rec s" if "schema_field ms ''items'' = Some s" for s
    using answered [of "''items''" s] kept [OF that] outside by simp
  moreover have "schema_field r ''anyOf'' = ?rec s" if "schema_field ms ''oneOf'' = None" "schema_field ms ''anyOf'' = Some s" for s
  proof -
    have "outlives (Y \<union> {lit ''format''}) ms c" by (rule stages) (use that(1) in \<open>auto simp: Y_def\<close>)
    then have "schema_field c ''anyOf'' = Some s" using that(2) outside by (simp add: outlives_def)
    then show ?thesis using answered [of "''anyOf''" s] by simp
  qed
  moreover have "schema_field r ''format'' = schema_field ms ''format''"
    if fmt: "format_supported ms" "schema_field ms ''format'' \<noteq> None"
  proof -
    obtain f where f: "schema_field ms ''format'' = Some f" using fmt(2) by blast
    have "schema_field a ''format'' = Some f"
      using outlives_strict_subset [OF a assms(1), of "forbidden_keywords \<union> {lit ''anyOf''}"] f outside [of "''format''"]
      by (auto simp: outlives_def Y_def subset_insertI)
    then have "format_supported a" using fmt(1) f by (simp add: format_supported_def)
    then have "outlives (Y \<union> {lit ''anyOf''}) ms c" by (intro stages) (auto simp: Y_def)
    then have "schema_field c ''format'' = Some f" using f outside by (simp add: outlives_def)
    then show ?thesis using members(1) [of "lit ''format''"] f by simp
  qed
  moreover have "map_of r k = Some v" if "map_of ms k = Some v" "k \<notin> forbidden_keywords
      \<union> lit ` {''properties'', ''items'', ''anyOf'', ''format'', ''required'', ''additionalProperties''}" for k v
  proof -
    have "lit ''allOf'' \<in> forbidden_keywords" by (simp add: forbidden_keywords_def)
    then show ?thesis using members(1) [of k] kept [OF that(1)] that(2) by (auto simp: Y_def)
  qed
  ultimately show ?thesis using run by blast
qed

lemma strict_schemas_keep_members_witness:
  "\<exists>r. enforce_strict_schema True (JObj [(lit ''description'', JStr (lit ''d'')), (lit ''properties'', JObj [(lit ''n'', JObj [(lit ''title'', JStr (lit ''t''))])])] :: rat json)
      = Some (JObj r) \<and> schema_field r ''description'' = Some (JStr (lit ''d''))"
proof -
  let ?ms = "[(lit ''description'', JStr (lit ''d'')), (lit ''properties'', JObj [(lit ''n'', JObj [(lit ''title'', JStr (lit ''t''))])])] :: rat json_object"
  have "schema_field ?ms ''allOf'' = None" "\<not> is_nullable ?ms" by (simp_all add: is_nullable_def)
  from strict_schemas_keep_members [OF this] obtain r where "enforce_strict_schema True (JObj ?ms) = Some (JObj r)"
    "\<forall>k v. map_of ?ms k = Some v \<longrightarrow> k \<notin> forbidden_keywords
      \<union> lit ` {''properties'', ''items'', ''anyOf'', ''format'', ''required'', ''additionalProperties''} \<longrightarrow> map_of r k = Some v"
    by blast
  then show ?thesis using allowed_keys(8) by auto
qed

end
