(* ===== verification/Spec2Isabelle.thy ===== *)
theory Spec2Isabelle
  imports Stream_Collect Context_Transformers Agents Compactor Prefilter Policies Tool_Order Doom_Loop
    Infra_Resilience App_Resilience App_Hooks Tool_Registry
    Provider_Stream File_Tools Context_Summary Coercion_Laws Strict_Returns
begin

text \<open>
  A verification library for HeliosLite, a coding agent for the command line. Paths below are under
  \<open>src/crates/\<close>. The program asks a language model for the next step, runs the tools the model calls, and
  asks again with the results, until the model is done; around this loop stand the guards on what
  a tool may do, the means to keep the history within the window of the model, and the means to
  bear failures of the provider. The theories follow these parts.

  \<^bold>\<open>Conventions.\<close> A string is a list of code points (\<open>rstr\<close>). A struct is a record, an enum a datatype, both with the
  names of the source. Machine integers are natural numbers or integers where the source saturates or
  cannot overflow, words where it computes at a width (importance scores), and floats are rational numbers with
  the rounding of the operation written out. A fallible function returns a sum; a panic is
  \<open>None\<close> in pure code and \<open>Panicked\<close> in effectful code. Effectful code is state passing (\<open>Effects\<close>): an action
  takes a state and returns a value, an error or a panic with the state it left, or never returns. Third-party
  code is a parameter: the JSON values \<open>'v\<close> with their parser and printer, the glob matcher, the
  template engine, escaping, the file system, YAML, the provider and the user interface, the timeout of tokio and the
  driver of retries (backon). What is relied on of it is a named hypothesis with its documented behaviour.

  \<^bold>\<open>Foundations.\<close>
  \<^item> \<open>Prelude\<close>: strings, slices, options and the floating-point operations that the source takes from
    the standard library, with their lemmas.
  \<^item> \<open>Effects\<close>: actions, their laws, and the rules that carry an invariant (\<open>keeps\<close>), a property of the
    result (\<open>yields\<close>) and termination (\<open>returns\<close>) through sequencing.
  \<^item> \<open>Resilience_Contracts\<close>: the locales of a circuit breaker and of a semaphore, shared by the two crates that
    implement them.

  \<^bold>\<open>The history.\<close>
  \<^item> \<open>Messages\<close>, \<open>Chat_Context\<close> (\<open>forge_domain/src/context.rs, message.rs, tools/\<close>): messages, calls, results, usage,
    and the context with \<open>append_message\<close>. The invariant \<open>paired\<close>: every tool call is followed by its result.
  \<^item> \<open>Conversations\<close> (\<open>conversation.rs, session_metrics.rs\<close>): conversation, metrics and the todo list, which refines
    a map from content to status.
  \<^item> \<open>Tool_Calls\<close>, \<open>Stream_Collect\<close> (\<open>tools/call/, result_stream_ext.rs\<close>): tool calls are put together from
    fragments; the answer of the provider is collected from its stream.

  \<^bold>\<open>Keeping the history small.\<close>
  \<^item> \<open>Compact_Config\<close>, \<open>Eviction\<close>, \<open>Prefilter\<close>, \<open>Compactor\<close> (\<open>forge_domain/src/compact/, forge_app/src/compact.rs\<close>): when
    to compact, what to evict, and the replacement of the evicted messages by a summary. Every operation keeps the
    history paired.
  \<^item> \<open>Context_Summary\<close> (\<open>forge_domain/src/compact/summary.rs, forge_app/src/transformers/\<close>): what the summary says. It is
    the grouping of the evicted messages by role, and what the assistant said and every file it worked on
    survive the transformers.
  \<^item> \<open>Compression\<close> (\<open>forge_app/src/compression/, prune/, hooks/compaction.rs\<close>): the three strategies of
    compression, pruning, and the hook that runs all of them after a response. \<open>kept_history\<close> is the invariant that
    survives them.

  \<^bold>\<open>The loop.\<close>
  \<^item> \<open>Context_Transformers\<close> (\<open>transformer/, transformers/\<close>): the stages a context passes before it is sent.
  \<^item> \<open>Agents\<close>, \<open>Tool_Order\<close> (\<open>agent.rs, tool_order.rs\<close>): agents, the layers of their configuration, the order of tools.
  \<^item> \<open>Elements\<close> (\<open>forge_template/src/element.rs\<close>): the markup of messages the program writes itself.
  \<^item> \<open>Doom_Loop\<close>, \<open>Lifecycle\<close> (\<open>hook.rs, hooks/\<close>): hooks and their combination, and the hooks that add
    reminders, which share the locale \<open>reminder_handler\<close>.
  \<^item> \<open>Orchestrator\<close> (\<open>forge_app/src/orch.rs, retry.rs\<close>): \<open>run\<close> with everything it calls. The state \<open>orch\<close> holds the
    conversation, the dirty flag, the error tracker, the metrics the tools share, and the world; the services are
    actions on the world. The while loop is \<open>until_yield\<close>, a partial function into \<open>option\<close>, so that a run
    that does not end is \<open>None\<close>. The driver of the retries is the parameter \<open>en_retry\<close>; \<open>retry_documented\<close> says what
    it documents, among it that it tries at most as often as it is told.
  \<^item> \<open>Agent_Loop\<close>: its properties. The locale \<open>history_invariant\<close> states what a property of histories needs to survive
    a run; \<open>paired\<close> and \<open>kept_history\<close> are its two instances. A run with a limit on requests and a
    quiet \<open>End\<close> hook ends (a measure on the requests left), and whatever counts the calls of the model is bounded by the
    limit times the attempts (\<open>asks_counted\<close>); one with an insistent \<open>End\<close> hook does not complete.
  \<^item> \<open>App_Hooks\<close> (\<open>forge_app/src/app.rs, hooks/title_generation.rs\<close>): the hook a chat installs, the task that
    runs and saves, and compaction on demand. Here the components are composed: the application's own hook
    is shown to keep the invariant of the loop, and to keep the loop going for a todo of two lines.

  \<^bold>\<open>What a tool may do.\<close>
  \<^item> \<open>Policies\<close> (\<open>forge_domain/src/policies/\<close>): rules, policies and the engine that decides an operation.
  \<^item> \<open>Catalog\<close> (\<open>tools/catalog.rs, tools/definition/name.rs\<close>): the built-in tools, the names a model may
    give them, and the operation a call puts to the policies.
  \<^item> \<open>Guardian\<close> (\<open>forge_guardian/src/\<close>): risk, session modes, the model as a judge, learned decisions.
  \<^item> \<open>Permissions\<close> (\<open>forge_services/src/policy.rs\<close>): the permissions file and the question to the user.
    \<open>get_or_create_policies\<close> calls itself until the file can be read; it is a partial function, and shown to
    return after one round when writing creates the file.
  \<^item> \<open>Tool_Registry\<close> (\<open>tool_resolver.rs, tool_registry.rs, tool_executor.rs, mcp_executor.rs\<close>): the tools of an
    agent and the way of a call through validation, permission, modality, guards and timeout. That
    a denied or unguarded tool is not run is stated as independence of what the tool would do (\<open>rg_perform\<close>); that a call
    is answered is shown for tools that may never return, from what a timeout documents (\<open>timeout_documented\<close>).

  \<^bold>\<open>Changing files.\<close>
  \<^item> \<open>Fs_Patch\<close> (\<open>forge_services/src/tool_services/fs_patch.rs\<close>): the change of a text by an edit. Offsets count
    characters where the code counts the bytes of the same characters.
  \<^item> \<open>File_Tools\<close> (\<open>fs_write.rs, fs_patch.rs, fs_remove.rs, fs_undo.rs\<close>, \<open>forge_snaps\<close>, \<open>snapshot.rs\<close>): the tools and
    the snapshots. Sequences of operations refine a machine with a stack of contents for every file (\<open>undo_abs\<close>),
    for plain paths, a hash without collisions among the paths in play and a clock that advances.

  \<^bold>\<open>The answer of the provider.\<close>
  \<^item> \<open>Event_Stream\<close> (\<open>forge_eventsource_stream/src\<close>): bytes to events. The invariant \<open>sound\<close> relates what is buffered to
    the text that is still to come; so chunks do not matter, and rendered events come out again.
  \<^item> \<open>Event_Source\<close> (\<open>forge_eventsource/src\<close>): requests, reconnection and retry policies. \<open>source_inv\<close> holds on every
    reachable source; the locale \<open>retry_contract\<close> is what the source needs of a policy.
  \<^item> \<open>Provider_Stream\<close> (\<open>forge_repo/src/provider\<close>: \<open>event.rs, retry.rs, chat.rs, opencode.rs, bedrock_*.rs\<close>): the messages
    of a completion, from the server to the agent, and which errors are tried again. \<open>sse_data\<close> is the reference: the
    data of the events of a text, line by line.

  \<^bold>\<open>Repairing arguments.\<close>
  \<^item> \<open>Json_Repair\<close> (\<open>forge_json_repair/src/parser.rs\<close>): the parser that turns what a model writes as JSON into JSON. Its
    functions call each other, so they are one partial function \<open>repair_run\<close> on the calls, and a call that never
    returns is \<open>None\<close>.
  \<^item> \<open>Json_Valid\<close>: the grammar of JSON, and that a text of it is not changed.
  \<^item> \<open>Json_Termination\<close>: the repair returns on a text without backslashes (a lexicographic order on the calls: position,
    kind, mode of a string, place in it), and the texts with an escaped comma on which it does not.
  \<^item> \<open>Schema_Coercion\<close> (\<open>forge_json_repair/src/schema_coercion.rs\<close>): what is read is coerced to the schema of the tool,
    again a partial function; it repairs strings in which the schema expects an array or an object.
  \<^item> \<open>Coercion_Laws\<close>: coercion keeps the shape of a value, leaves what fits as it is (\<open>fits\<close>), and returns when the
    references have a rank and the strings are texts on which the repair returns (\<open>repairable\<close>).

  \<^bold>\<open>Schemas for the provider.\<close>
  \<^item> \<open>Strict_Schema\<close> (\<open>forge_app/src/utils.rs\<close>): \<open>enforce_strict_schema\<close>, which brings the schemas of tools into the subset
    that the provider takes: the branches of \<open>allOf\<close> are merged (\<open>merge_run\<close>), and the stages of one schema are called in
    the order of the code by a partial function that goes into the schemas inside.
  \<^item> \<open>Strict_Laws\<close>: what comes out is in the strict form (\<open>strict_form\<close>, by induction over the recursion), and stays the same
    a second time. A reference becomes a string.
  \<^item> \<open>Strict_Returns\<close>: both recursions return, merging by the number of values merged, the other by a weight of the schemas
    that can be reached; and what of a schema strict mode keeps.

  \<^bold>\<open>Bearing failures.\<close>
  \<^item> \<open>Infra_Resilience\<close> (\<open>forge_infra/src/resilience.rs, backoff.rs\<close>) and \<open>App_Resilience\<close>
    (\<open>forge_app/src/resilience.rs\<close>): circuit breakers, bulkhead and throttle. Concurrent callers are step
    relations over the atomic sections, with invariants by induction on reachable states.

  \<^bold>\<open>Not modelled.\<close> What the other tools do to processes and the network; the wire formats of the providers;
  the database; the terminal interface; serialisation, the schemas of the tools themselves and the variant of schemas for
  Gemini; prompts made from templates;
  tracing.
\<close>

end
